(* ===== verification/Prelude.thy ===== *)
theory Prelude
  imports Main "HOL-Library.Word" "HOL-Library.Monad_Syntax"
begin

unbundle bit_operations_syntax

text \<open>
  Shared ground of the development: the machine types of the target of the build (LP64, little
  endian, as on every iOS device and simulator), the little-endian reading of byte sequences, the
  collections of rewrite rules the component theories fill, and generic lemmas on lists and words.
\<close>

section \<open>Machine types and rule collections\<close>

type_synonym byte = "8 word"
type_synonym u32 = "32 word"
type_synonym u64 = "64 word"
type_synonym addr = nat

named_theorems mem_simps \<open>rewriting reads after writes in the C memory\<close>
named_theorems stream_simps \<open>definitions of the stream primitives\<close>
named_theorems layout_defs \<open>constants of message descriptors and struct layouts\<close>

abbreviation SIZE_MOD :: nat where
  "SIZE_MOD \<equiv> 18446744073709551616"

abbreviation UINT32_MOD :: nat where
  "UINT32_MOD \<equiv> 4294967296"

lemma SIZE_MOD_power: "SIZE_MOD = 2 ^ 64" and UINT32_MOD_power: "UINT32_MOD = 2 ^ 32"
  by simp_all

section \<open>Little-endian byte sequences\<close>

primrec le_val :: "byte list \<Rightarrow> nat" where
  "le_val [] = 0"
| "le_val (b # bs) = unat b + 256 * le_val bs"

primrec le_bytes :: "nat \<Rightarrow> nat \<Rightarrow> byte list" where
  "le_bytes 0 v = []"
| "le_bytes (Suc n) v = of_nat v # le_bytes n (v div 256)"

lemma length_le_bytes [simp]: "length (le_bytes n v) = n"
  by (induction n arbitrary: v) auto

lemma unat_of_nat_byte: "unat (of_nat v :: byte) = v mod 256"
  by (simp add: unat_of_nat)

lemma unat_byte_bound: "unat (b :: byte) < 256"
  using unsigned_less [of b] by simp

lemma le_val_le_bytes: "le_val (le_bytes n v) = v mod 256 ^ n"
proof (induction n arbitrary: v)
  case 0
  then show ?case by simp
next
  case (Suc n)
  have "v mod 256 ^ Suc n = v mod 256 + 256 * (v div 256 mod 256 ^ n)"
    by (simp add: mod_mult2_eq)
  with Suc show ?case by (simp add: unat_of_nat_byte)
qed

lemma le_val_bound: "le_val bs < 256 ^ length bs"
proof (induction bs)
  case Nil
  then show ?case by simp
next
  case (Cons b bs)
  have "unat b < 256" by (rule unat_byte_bound)
  with Cons show ?case by simp
qed

lemma le_bytes_le_val: "le_bytes (length bs) (le_val bs) = bs"
proof (induction bs)
  case Nil
  then show ?case by simp
next
  case (Cons b bs)
  have b: "unat b < 256" by (rule unat_byte_bound)
  then have "(unat b + 256 * le_val bs) div 256 = le_val bs" by simp
  moreover have "(of_nat (unat b + 256 * le_val bs) :: byte) = b"
    using b by (simp add: word_unat_eq_iff unat_of_nat_byte del: of_nat_add of_nat_mult)
  ultimately show ?case using Cons by simp
qed

section \<open>Lists\<close>

text \<open>
  What a buffer of \<open>n\<close> bytes holds after a source delivered \<open>bs\<close> into it: exactly \<open>n\<close> bytes, the
  ones the source left unwritten read as zero.
\<close>

definition fill :: "nat \<Rightarrow> byte list \<Rightarrow> byte list" where
  "fill n bs = take n (bs @ replicate n 0)"

lemma length_fill [simp]: "length (fill n bs) = n"
  by (simp add: fill_def)

lemma fill_enough [simp]: "n \<le> length bs \<Longrightarrow> fill n bs = take n bs"
  by (simp add: fill_def)

lemma fill_0 [simp]: "fill 0 bs = []"
  by (simp add: fill_def)

lemma fill_1_Cons [simp]: "fill (Suc 0) (b # bs) = [b]"
  by (simp add: fill_def)

section \<open>Bytes bit by bit\<close>

lemma byte_eq_iff:
  "(a :: byte) = b \<longleftrightarrow> (bit a 0 \<longleftrightarrow> bit b 0) \<and> (bit a 1 \<longleftrightarrow> bit b 1) \<and> (bit a 2 \<longleftrightarrow> bit b 2) \<and>
     (bit a 3 \<longleftrightarrow> bit b 3) \<and> (bit a 4 \<longleftrightarrow> bit b 4) \<and> (bit a 5 \<longleftrightarrow> bit b 5) \<and> (bit a 6 \<longleftrightarrow> bit b 6) \<and>
     (bit a 7 \<longleftrightarrow> bit b 7)" (is "_ \<longleftrightarrow> ?r")
proof
  assume r: ?r
  show "a = b"
  proof (rule bit_word_eqI)
    fix n assume "n < LENGTH(8)"
    then consider "n = 0" | "n = 1" | "n = 2" | "n = 3" | "n = 4" | "n = 5" | "n = 6" | "n = 7"
      by fastforce
    then show "bit a n \<longleftrightarrow> bit b n" using r by cases simp_all
  qed
qed simp

lemma bit_byte_out: "8 \<le> n \<Longrightarrow> \<not> bit (b :: byte) n"
  by (auto dest: bit_imp_le_length)

text \<open>The loops that shift a value right by seven bits end.\<close>

lemma drop_bit_7_less: "value \<noteq> 0 \<Longrightarrow> unat (drop_bit 7 value) < unat (value :: u64)"
proof -
  assume "value \<noteq> 0"
  then have "0 < unat value" by (simp add: unat_gt_0)
  then show ?thesis by (simp add: drop_bit_eq_div unat_div)
qed

end
