(* ===== verification/C_Memory.thy ===== *)
theory C_Memory
  imports Prelude
begin

text \<open>
  The memory the C sources work on. Message structs are reached through byte offsets
  (\<^verbatim>\<open>(char*)dest_struct + data_offset\<close>) and through casts of the resulting pointers, so the memory is a
  function from addresses to bytes; address 0 is the null pointer. \<open>blocks\<close> are the live blocks of
  the C heap with their sizes, \<open>objects\<close> the live objects that are not on the heap (globals, the
  caller's structs). What the allocator does is not determined by the program: \<open>plan\<close> lists where the
  next requests go (\<open>None\<close>: the request fails), and every theorem holds for every plan. \<open>fault\<close>
  records that a pointer that is no live block was passed to \<^verbatim>\<open>realloc\<close> or \<^verbatim>\<open>free\<close>. \<open>local_count\<close> is the
  local variable \<^verbatim>\<open>fixed_count_size\<close> of the current activation of \<^verbatim>\<open>pb_decode_noinit\<close>, the one local
  variable of the sources whose address is stored in a struct.
\<close>

section \<open>State\<close>

record cmem =
  bytes :: "addr \<Rightarrow> byte"
  blocks :: "(addr \<times> nat) list"
  objects :: "(addr \<times> nat) list"
  plan :: "addr option list"
  fault :: bool
  local_count :: nat

text \<open>The memory that is zero everywhere, with no object and no block.\<close>

definition empty_mem :: cmem where
  "empty_mem =
     \<lparr>bytes = (\<lambda>_. 0), blocks = [], objects = [], plan = [], fault = False, local_count = 0\<rparr>"

section \<open>Reads and writes\<close>

definition load_bytes :: "cmem \<Rightarrow> addr \<Rightarrow> nat \<Rightarrow> byte list" where
  "load_bytes m a n = map (\<lambda>i. bytes m (a + i)) [0..<n]"

definition store_bytes :: "cmem \<Rightarrow> addr \<Rightarrow> byte list \<Rightarrow> cmem" where
  "store_bytes m a bs =
     m\<lparr>bytes := (\<lambda>x. if a \<le> x \<and> x < a + length bs then bs ! (x - a) else bytes m x)\<rparr>"

definition load :: "nat \<Rightarrow> cmem \<Rightarrow> addr \<Rightarrow> nat" where
  "load n m a = le_val (load_bytes m a n)"

definition store :: "nat \<Rightarrow> cmem \<Rightarrow> addr \<Rightarrow> nat \<Rightarrow> cmem" where
  "store n m a v = store_bytes m a (le_bytes n v)"

definition memset :: "cmem \<Rightarrow> addr \<Rightarrow> byte \<Rightarrow> nat \<Rightarrow> cmem" where
  "memset m a b n = store_bytes m a (replicate n b)"

abbreviation load_ptr :: "cmem \<Rightarrow> addr \<Rightarrow> addr" where
  "load_ptr m a \<equiv> load 8 m a"

abbreviation store_ptr :: "cmem \<Rightarrow> addr \<Rightarrow> addr \<Rightarrow> cmem" where
  "store_ptr m a p \<equiv> store 8 m a p"

text \<open>Pointer plus signed offset.\<close>

definition ptr_add :: "addr \<Rightarrow> int \<Rightarrow> addr" where
  "ptr_add a i = nat (int a + i)"

lemma length_load_bytes [simp]: "length (load_bytes m a n) = n"
  by (simp add: load_bytes_def)

lemma nth_load_bytes [simp]: "i < n \<Longrightarrow> load_bytes m a n ! i = bytes m (a + i)"
  by (simp add: load_bytes_def)

lemma bytes_store_bytes [mem_simps]:
  "bytes (store_bytes m a bs) x =
     (if a \<le> x \<and> x < a + length bs then bs ! (x - a) else bytes m x)"
  by (simp add: store_bytes_def)

lemma store_bytes_same [simp]:
  "blocks (store_bytes m a bs) = blocks m" "objects (store_bytes m a bs) = objects m"
  "plan (store_bytes m a bs) = plan m" "fault (store_bytes m a bs) = fault m"
  "local_count (store_bytes m a bs) = local_count m"
  by (simp_all add: store_bytes_def)

lemma store_bytes_Nil [simp]: "store_bytes m a [] = m"
proof -
  have "(\<lambda>x. if a \<le> x \<and> x < a + length [] then [] ! (x - a) else bytes m x) = bytes m"
    by (rule ext) auto
  then show ?thesis by (simp add: store_bytes_def)
qed

lemma load_bytes_store_bytes_same [mem_simps]:
  "length bs = n \<Longrightarrow> load_bytes (store_bytes m a bs) a n = bs"
  by (rule nth_equalityI) (auto simp: mem_simps)

lemma load_bytes_store_bytes_disjoint [mem_simps]:
  "a + n \<le> b \<or> b + length bs \<le> a \<Longrightarrow>
     load_bytes (store_bytes m b bs) a n = load_bytes m a n"
  by (rule nth_equalityI) (auto simp: mem_simps)

lemma load_store_same [mem_simps]: "load n (store n m a v) a = v mod 256 ^ n"
  by (simp add: load_def store_def mem_simps le_val_le_bytes)

lemma load_store_disjoint [mem_simps]:
  "a + n \<le> b \<or> b + k \<le> a \<Longrightarrow> load n (store k m b v) a = load n m a"
  by (simp add: load_def store_def mem_simps)

lemma load_store_bytes_disjoint [mem_simps]:
  "a + n \<le> b \<or> b + length bs \<le> a \<Longrightarrow> load n (store_bytes m b bs) a = load n m a"
  by (simp add: load_def mem_simps)

lemma load_4:
  "load 4 m a = unat (bytes m a) + 256 * unat (bytes m (a + 1)) + 65536 * unat (bytes m (a + 2)) +
     16777216 * unat (bytes m (a + 3))"
proof -
  have "[0..<4] = [0, 1, 2, 3 :: nat]" by (simp add: upt_rec)
  then show ?thesis by (simp add: load_def load_bytes_def)
qed

lemma load_bound: "load n m a < 256 ^ n"
  using le_val_bound [of "load_bytes m a n"] by (simp add: load_def)

text \<open>Writes at the same place and next to each other.\<close>

lemma store_bytes_twice: "length bs = length cs \<Longrightarrow> store_bytes (store_bytes m a bs) a cs = store_bytes m a cs"
  by (auto simp: store_bytes_def fun_eq_iff intro!: cmem.equality)

lemma store_bytes_append:
  "store_bytes (store_bytes m a bs) (a + length bs) cs = store_bytes m a (bs @ cs)"
  by (auto simp: store_bytes_def fun_eq_iff nth_append intro!: cmem.equality)

lemma store_split: "store_bytes m a (b # c # bs) = store_bytes (store_bytes m a [b]) (a + 1) (c # bs)"
  using store_bytes_append [of m a "[b]" "c # bs"] by simp

section \<open>Unchanged outside a region\<close>

text \<open>\<open>same_outside m m' a n\<close>: \<open>m'\<close> agrees with \<open>m\<close> on every byte outside \<open>[a, a + n)\<close>.\<close>

definition same_outside :: "cmem \<Rightarrow> cmem \<Rightarrow> addr \<Rightarrow> nat \<Rightarrow> bool" where
  "same_outside m m' a n \<longleftrightarrow> (\<forall>x. x < a \<or> a + n \<le> x \<longrightarrow> bytes m' x = bytes m x)"

lemma same_outside_refl [intro, simp]: "same_outside m m a n"
  by (simp add: same_outside_def)

lemma same_outside_trans [trans]:
  "same_outside m m' a n \<Longrightarrow> same_outside m' m'' a n \<Longrightarrow> same_outside m m'' a n"
  by (simp add: same_outside_def)

lemma same_outside_mono:
  "same_outside m m' b k \<Longrightarrow> a \<le> b \<Longrightarrow> b + k \<le> a + n \<Longrightarrow> same_outside m m' a n"
  by (simp add: same_outside_def)

lemma same_outside_store_bytes:
  "a \<le> b \<Longrightarrow> b + length bs \<le> a + n \<Longrightarrow> same_outside m (store_bytes m b bs) a n"
  by (auto simp: same_outside_def mem_simps)

lemma same_outside_store:
  "a \<le> b \<Longrightarrow> b + k \<le> a + n \<Longrightarrow> same_outside m (store k m b v) a n"
  by (simp add: store_def same_outside_store_bytes)

lemma same_outside_memset:
  "a \<le> b \<Longrightarrow> b + k \<le> a + n \<Longrightarrow> same_outside m (memset m b v k) a n"
  by (simp add: memset_def same_outside_store_bytes)

section \<open>The heap: realloc and free\<close>

definition disjoint_from :: "(addr \<times> nat) list \<Rightarrow> addr \<Rightarrow> nat \<Rightarrow> bool" where
  "disjoint_from bl a n \<longleftrightarrow> list_all (\<lambda>(b, k). a + n \<le> b \<or> b + k \<le> a) bl"

definition placeable :: "cmem \<Rightarrow> addr \<Rightarrow> addr \<Rightarrow> nat \<Rightarrow> bool" where
  "placeable m p a n \<longleftrightarrow> 0 < a \<and> 0 < n \<and> a + n \<le> SIZE_MOD \<and> disjoint_from (objects m) a n \<and>
     (if a = p then disjoint_from (filter (\<lambda>(b, k). b \<noteq> p) (blocks m)) a n
      else disjoint_from (blocks m) a n)"

text \<open>
  \<^verbatim>\<open>realloc(p, n)\<close>: 0 when the request fails, the old block then staying as it is; else the address of a
  block of \<open>n\<close> bytes that overlaps no other live block or object and begins with the old contents.
\<close>

definition c_realloc :: "cmem \<Rightarrow> addr \<Rightarrow> nat \<Rightarrow> addr \<times> cmem" where
  "c_realloc m p n =
     (if p \<noteq> 0 \<and> map_of (blocks m) p = None then (0, m\<lparr>fault := True\<rparr>)
      else case plan m of
        [] \<Rightarrow> (0, m)
      | None # pl \<Rightarrow> (0, m\<lparr>plan := pl\<rparr>)
      | Some a # pl \<Rightarrow>
          (if placeable m p a n then
             let old = (case map_of (blocks m) p of None \<Rightarrow> 0 | Some k \<Rightarrow> k);
                 kept = load_bytes m p (min old n);
                 rest = filter (\<lambda>(b, k). b \<noteq> p) (blocks m)
             in (a, store_bytes (m\<lparr>plan := pl, blocks := (a, n) # rest\<rparr>) a kept)
           else (0, m\<lparr>plan := pl\<rparr>)))"

definition c_free :: "cmem \<Rightarrow> addr \<Rightarrow> cmem" where
  "c_free m p =
     (if p = 0 then m
      else if map_of (blocks m) p = None then m\<lparr>fault := True\<rparr>
      else m\<lparr>blocks := filter (\<lambda>(b, k). b \<noteq> p) (blocks m)\<rparr>)"

text \<open>
  The heap is well formed when no two live blocks overlap and none overlaps an object.
\<close>

fun heap_wf_list :: "(addr \<times> nat) list \<Rightarrow> bool" where
  "heap_wf_list [] = True"
| "heap_wf_list ((a, n) # bl) = (0 < a \<and> 0 < n \<and> disjoint_from bl a n \<and> heap_wf_list bl)"

definition heap_wf :: "cmem \<Rightarrow> bool" where
  "heap_wf m \<longleftrightarrow> heap_wf_list (blocks m) \<and> list_all (\<lambda>(a, n). disjoint_from (objects m) a n) (blocks m)"

lemma disjoint_from_filter: "disjoint_from bl a n \<Longrightarrow> disjoint_from (filter P bl) a n"
  by (auto simp: disjoint_from_def list_all_iff)

lemma heap_wf_list_filter: "heap_wf_list bl \<Longrightarrow> heap_wf_list (filter P bl)"
  by (induction bl rule: heap_wf_list.induct) (auto intro: disjoint_from_filter)

section \<open>What client code may rely on\<close>

text \<open>
  The contract of the two heap functions of the C library, as the decoder uses them.
\<close>

locale c_heap =
  fixes realloc :: "cmem \<Rightarrow> addr \<Rightarrow> nat \<Rightarrow> addr \<times> cmem"
    and free :: "cmem \<Rightarrow> addr \<Rightarrow> cmem"
    and wf :: "cmem \<Rightarrow> bool"
  assumes realloc_wf: "wf m \<Longrightarrow> realloc m p n = (a, m') \<Longrightarrow> wf m'"
    and realloc_null: "realloc m p n = (0, m') \<Longrightarrow> bytes m' = bytes m \<and> blocks m' = blocks m"
    and realloc_block: "realloc m p n = (a, m') \<Longrightarrow> a \<noteq> 0 \<Longrightarrow> map_of (blocks m') a = Some n"
    and realloc_keeps: "realloc m p n = (a, m') \<Longrightarrow> a \<noteq> 0 \<Longrightarrow> map_of (blocks m) p = Some k \<Longrightarrow>
          load_bytes m' a (min k n) = load_bytes m p (min k n)"
    and realloc_frame: "realloc m p n = (a, m') \<Longrightarrow> a \<noteq> 0 \<Longrightarrow> same_outside m m' a n"
    and realloc_fresh: "realloc m p n = (a, m') \<Longrightarrow> a \<noteq> 0 \<Longrightarrow> (b, k) \<in> set (blocks m) \<Longrightarrow> b \<noteq> p \<Longrightarrow>
          a + n \<le> b \<or> b + k \<le> a"
    and realloc_objects: "realloc m p n = (a, m') \<Longrightarrow> a \<noteq> 0 \<Longrightarrow> (b, k) \<in> set (objects m) \<Longrightarrow>
          a + n \<le> b \<or> b + k \<le> a"
    and free_wf: "wf m \<Longrightarrow> wf (free m p)"
    and free_bytes: "bytes (free m p) = bytes m"
    and free_null: "free m 0 = m"
    and free_live: "p \<noteq> 0 \<Longrightarrow> map_of (blocks m) p = Some k \<Longrightarrow>
          map_of (blocks (free m p)) p = None \<and> fault (free m p) = fault m"
begin

text \<open>A block the caller holds is untouched by a request for another one.\<close>

lemma realloc_other:
  assumes r: "realloc m p n = (a, m')" "a \<noteq> 0"
    and b: "(b, k) \<in> set (blocks m)" "b \<noteq> p"
  shows "load_bytes m' b k = load_bytes m b k"
proof (rule nth_equalityI)
  fix i assume "i < length (load_bytes m' b k)"
  then have i: "i < k" by simp
  from realloc_fresh [OF r b] i have "b + i < a \<or> a + n \<le> b + i" by auto
  with realloc_frame [OF r] i show "load_bytes m' b k ! i = load_bytes m b k ! i"
    by (auto simp: same_outside_def)
qed simp

text \<open>An object outside the heap keeps its contents across a request.\<close>

lemma realloc_object:
  assumes r: "realloc m p n = (a, m')" "a \<noteq> 0" and b: "(b, k) \<in> set (objects m)"
  shows "load_bytes m' b k = load_bytes m b k"
proof (rule nth_equalityI)
  fix i assume "i < length (load_bytes m' b k)"
  then have i: "i < k" by simp
  from realloc_objects [OF r b] i have "b + i < a \<or> a + n \<le> b + i" by auto
  with realloc_frame [OF r] i show "load_bytes m' b k ! i = load_bytes m b k ! i"
    by (auto simp: same_outside_def)
qed simp

end

lemma placeable_wf:
  assumes "heap_wf m" "placeable m p a n"
  shows "heap_wf_list ((a, n) # filter (\<lambda>(b, k). b \<noteq> p) (blocks m))"
  using assms
  by (auto simp: heap_wf_def placeable_def heap_wf_list_filter disjoint_from_filter split: if_splits)

lemma c_realloc_cases:
  assumes "c_realloc m p n = (a, m')"
  obtains (fail) "a = 0" "bytes m' = bytes m" "blocks m' = blocks m" "objects m' = objects m"
  | (ok) pl where "a \<noteq> 0" "placeable m p a n" "p = 0 \<or> map_of (blocks m) p \<noteq> None"
      "m' = store_bytes (m\<lparr>plan := pl, blocks := (a, n) # filter (\<lambda>(b, k). b \<noteq> p) (blocks m)\<rparr>) a
              (load_bytes m p (min (case map_of (blocks m) p of None \<Rightarrow> 0 | Some k \<Rightarrow> k) n))"
proof (cases "p \<noteq> 0 \<and> map_of (blocks m) p = None")
  case True
  with assms fail show ?thesis by (auto simp: c_realloc_def)
next
  case live: False
  show ?thesis
  proof (cases "plan m")
    case Nil
    with assms live fail show ?thesis by (auto simp: c_realloc_def)
  next
    case (Cons d pl)
    show ?thesis
    proof (cases d)
      case None
      with assms live Cons fail show ?thesis by (auto simp: c_realloc_def)
    next
      case (Some b)
      show ?thesis
      proof (cases "placeable m p b n")
        case True
        then have "b \<noteq> 0" by (simp add: placeable_def)
        moreover have "c_realloc m p n = (b, store_bytes
            (m\<lparr>plan := pl, blocks := (b, n) # filter (\<lambda>(b, k). b \<noteq> p) (blocks m)\<rparr>) b
            (load_bytes m p (min (case map_of (blocks m) p of None \<Rightarrow> 0 | Some k \<Rightarrow> k) n)))"
          using True live Cons Some by (simp only: c_realloc_def Let_def if_False list.case option.case if_True)
        ultimately show ?thesis using True live assms ok [of pl] by simp
      next
        case False
        with assms live Cons Some fail show ?thesis by (auto simp: c_realloc_def)
      qed
    qed
  qed
qed

lemma placeable_fresh:
  "placeable m p a n \<Longrightarrow> (b, k) \<in> set (blocks m) \<Longrightarrow> b \<noteq> p \<Longrightarrow> a + n \<le> b \<or> b + k \<le> a"
  by (auto simp: placeable_def disjoint_from_def list_all_iff split: if_splits)

lemma placeable_objects:
  "placeable m p a n \<Longrightarrow> (b, k) \<in> set (objects m) \<Longrightarrow> a + n \<le> b \<or> b + k \<le> a"
  by (auto simp: placeable_def disjoint_from_def list_all_iff)

interpretation heap: c_heap c_realloc c_free heap_wf
proof (standard, goal_cases)
  case (1 m p n a m')
  from 1(2) show ?case
  proof (cases rule: c_realloc_cases)
    case fail
    with 1(1) show ?thesis by (simp add: heap_wf_def)
  next
    case (ok pl)
    with placeable_wf [OF 1(1) ok(2)] 1(1) show ?thesis
      by (auto simp: heap_wf_def placeable_def list_all_iff)
  qed
next
  case (2 m p n m')
  then show ?case by (cases rule: c_realloc_cases) auto
next
  case (3 m p n a m')
  from 3(1) show ?case using 3(2) by (cases rule: c_realloc_cases) auto
next
  case (4 m p n a m' k)
  from 4(1) show ?case using 4(2,3) by (cases rule: c_realloc_cases) (auto simp: mem_simps)
next
  case (5 m p n a m')
  from 5(1) show ?case using 5(2)
    by (cases rule: c_realloc_cases) (auto simp: same_outside_def mem_simps)
next
  case (6 m p n a m' b k)
  from 6(1) show ?case using 6(2-4) by (cases rule: c_realloc_cases) (auto dest: placeable_fresh)
next
  case (7 m p n a m' b k)
  from 7(1) show ?case using 7(2,3) by (cases rule: c_realloc_cases) (auto dest: placeable_objects)
next
  case (8 m p)
  then show ?case by (auto simp: c_free_def heap_wf_def heap_wf_list_filter list_all_iff)
next
  case (9 m p)
  then show ?case by (simp add: c_free_def)
next
  case (10 m)
  then show ?case by (simp add: c_free_def)
next
  case (11 p m k)
  then show ?case by (auto simp: c_free_def map_of_eq_None_iff)
qed

end
