(* ===== verification/PB_Types.thy ===== *)
theory PB_Types
  imports C_Memory
begin

text \<open>
  \<^verbatim>\<open>nanopb/pb.h\<close>: field types and descriptors, wire types, callback and extension structs, and the macros
  that fill descriptors from struct layouts. The build (\<^verbatim>\<open>nanopb.release.xcconfig\<close>) defines
  \<^verbatim>\<open>PB_FIELD_32BIT\<close>, \<^verbatim>\<open>PB_NO_PACKED_STRUCTS\<close> and \<^verbatim>\<open>PB_ENABLE_MALLOC\<close>, so \<^verbatim>\<open>pb_size_t\<close> is \<^verbatim>\<open>uint32_t\<close> and pointer fields
  are allocated. Values of \<^verbatim>\<open>pb_size_t\<close> and \<^verbatim>\<open>size_t\<close> are natural numbers; where the C arithmetic can wrap,
  the modulus is written out.
\<close>

section \<open>Field types\<close>

definition PB_LTYPE_BOOL :: byte where [layout_defs]: "PB_LTYPE_BOOL = 0x00"
definition PB_LTYPE_VARINT :: byte where [layout_defs]: "PB_LTYPE_VARINT = 0x01"
definition PB_LTYPE_UVARINT :: byte where [layout_defs]: "PB_LTYPE_UVARINT = 0x02"
definition PB_LTYPE_SVARINT :: byte where [layout_defs]: "PB_LTYPE_SVARINT = 0x03"
definition PB_LTYPE_FIXED32 :: byte where [layout_defs]: "PB_LTYPE_FIXED32 = 0x04"
definition PB_LTYPE_FIXED64 :: byte where [layout_defs]: "PB_LTYPE_FIXED64 = 0x05"
definition PB_LTYPE_LAST_PACKABLE :: byte where [layout_defs]: "PB_LTYPE_LAST_PACKABLE = 0x05"
definition PB_LTYPE_BYTES :: byte where [layout_defs]: "PB_LTYPE_BYTES = 0x06"
definition PB_LTYPE_STRING :: byte where [layout_defs]: "PB_LTYPE_STRING = 0x07"
definition PB_LTYPE_SUBMESSAGE :: byte where [layout_defs]: "PB_LTYPE_SUBMESSAGE = 0x08"
definition PB_LTYPE_EXTENSION :: byte where [layout_defs]: "PB_LTYPE_EXTENSION = 0x09"
definition PB_LTYPE_FIXED_LENGTH_BYTES :: byte where
  [layout_defs]: "PB_LTYPE_FIXED_LENGTH_BYTES = 0x0A"
definition PB_LTYPE_MASK :: byte where [layout_defs]: "PB_LTYPE_MASK = 0x0F"

definition PB_HTYPE_REQUIRED :: byte where [layout_defs]: "PB_HTYPE_REQUIRED = 0x00"
definition PB_HTYPE_OPTIONAL :: byte where [layout_defs]: "PB_HTYPE_OPTIONAL = 0x10"
definition PB_HTYPE_REPEATED :: byte where [layout_defs]: "PB_HTYPE_REPEATED = 0x20"
definition PB_HTYPE_ONEOF :: byte where [layout_defs]: "PB_HTYPE_ONEOF = 0x30"
definition PB_HTYPE_MASK :: byte where [layout_defs]: "PB_HTYPE_MASK = 0x30"

definition PB_ATYPE_STATIC :: byte where [layout_defs]: "PB_ATYPE_STATIC = 0x00"
definition PB_ATYPE_POINTER :: byte where [layout_defs]: "PB_ATYPE_POINTER = 0x80"
definition PB_ATYPE_CALLBACK :: byte where [layout_defs]: "PB_ATYPE_CALLBACK = 0x40"
definition PB_ATYPE_MASK :: byte where [layout_defs]: "PB_ATYPE_MASK = 0xC0"

definition PB_ATYPE :: "byte \<Rightarrow> byte" where [layout_defs]: "PB_ATYPE x = x AND PB_ATYPE_MASK"
definition PB_HTYPE :: "byte \<Rightarrow> byte" where [layout_defs]: "PB_HTYPE x = x AND PB_HTYPE_MASK"
definition PB_LTYPE :: "byte \<Rightarrow> byte" where [layout_defs]: "PB_LTYPE x = x AND PB_LTYPE_MASK"

definition PB_SIZE_MAX :: nat where [layout_defs]: "PB_SIZE_MAX = 4294967295"
definition PB_MAX_REQUIRED_FIELDS :: nat where [layout_defs]: "PB_MAX_REQUIRED_FIELDS = 64"

text \<open>The types a field other than an extension may have.\<close>

lemma ltype_cases:
  assumes "l \<le> PB_LTYPE_FIXED_LENGTH_BYTES" "l \<noteq> PB_LTYPE_EXTENSION"
  shows "l = PB_LTYPE_BOOL \<or> l = PB_LTYPE_VARINT \<or> l = PB_LTYPE_UVARINT \<or> l = PB_LTYPE_SVARINT \<or>
    l = PB_LTYPE_FIXED32 \<or> l = PB_LTYPE_FIXED64 \<or> l = PB_LTYPE_BYTES \<or> l = PB_LTYPE_STRING \<or>
    l = PB_LTYPE_SUBMESSAGE \<or> l = PB_LTYPE_FIXED_LENGTH_BYTES"
proof -
  have "unat l \<le> 10" "unat l \<noteq> 9"
    using assms by (auto simp: layout_defs word_le_nat_alt word_unat_eq_iff)
  moreover have "n = 0 \<or> n = 1 \<or> n = 2 \<or> n = 3 \<or> n = 4 \<or> n = 5 \<or> n = 6 \<or> n = 7 \<or> n = 8 \<or> n = 10"
    if "n \<le> 10" "n \<noteq> 9" for n :: nat using that by presburger
  ultimately have "unat l = 0 \<or> unat l = 1 \<or> unat l = 2 \<or> unat l = 3 \<or> unat l = 4 \<or> unat l = 5 \<or>
      unat l = 6 \<or> unat l = 7 \<or> unat l = 8 \<or> unat l = 10" by blast
  then show ?thesis by (auto simp: layout_defs word_unat_eq_iff)
qed

section \<open>Field descriptors\<close>

text \<open>
  \<^verbatim>\<open>struct pb_field_s\<close>. The pointer \<^verbatim>\<open>ptr\<close> is the field array of a submessage, the default value of another
  field, or null; the arrays are lists. A read past the end of an array gives the terminator, so a
  list may be written with or without its final \<^verbatim>\<open>PB_LAST_FIELD\<close>.
\<close>

datatype pb_field =
  Pb_field (tag: nat) (ftype: byte) (data_offset: nat) (size_offset: int) (data_size: nat)
    (array_size: nat) (fptr: pb_field_ptr)
and pb_field_ptr = Null_ptr | Submsg_fields "pb_field list" | Default_value "byte list"

definition PB_LAST_FIELD :: pb_field where
  [layout_defs]: "PB_LAST_FIELD = Pb_field 0 0 0 0 0 0 Null_ptr"

definition field_at :: "pb_field list \<Rightarrow> nat \<Rightarrow> pb_field" where
  "field_at fs i = (if i < length fs then fs ! i else PB_LAST_FIELD)"

text \<open>\<^verbatim>\<open>pb_bytes_array_t\<close>: \<^verbatim>\<open>size\<close> at offset 0, \<^verbatim>\<open>bytes\<close> at offset 4.\<close>

definition PB_BYTES_ARRAY_T_ALLOCSIZE :: "nat \<Rightarrow> nat" where
  "PB_BYTES_ARRAY_T_ALLOCSIZE n = (n + 4) mod SIZE_MOD"

section \<open>Wire types\<close>

definition PB_WT_VARINT :: nat where [layout_defs]: "PB_WT_VARINT = 0"
definition PB_WT_64BIT :: nat where [layout_defs]: "PB_WT_64BIT = 1"
definition PB_WT_STRING :: nat where [layout_defs]: "PB_WT_STRING = 2"
definition PB_WT_32BIT :: nat where [layout_defs]: "PB_WT_32BIT = 5"

section \<open>Callback and extension structs\<close>

text \<open>
  Offsets of the members of \<^verbatim>\<open>pb_callback_t\<close> (\<^verbatim>\<open>funcs\<close>, \<^verbatim>\<open>arg\<close>) and of \<^verbatim>\<open>pb_extension_t\<close> (\<^verbatim>\<open>type\<close>, \<^verbatim>\<open>dest\<close>,
  \<^verbatim>\<open>next\<close>, \<^verbatim>\<open>found\<close>).
\<close>

definition callback_funcs :: "addr \<Rightarrow> addr" where "callback_funcs p = p"
definition callback_arg :: "addr \<Rightarrow> addr" where "callback_arg p = p + 8"
definition extension_type :: "addr \<Rightarrow> addr" where "extension_type p = p"
definition extension_dest :: "addr \<Rightarrow> addr" where "extension_dest p = p + 8"
definition extension_next :: "addr \<Rightarrow> addr" where "extension_next p = p + 16"
definition extension_found :: "addr \<Rightarrow> addr" where "extension_found p = p + 24"

section \<open>Struct layout and the descriptor macros\<close>

text \<open>
  A struct is the list of its members. \<open>melem\<close> is the size of \<^verbatim>\<open>m[0]\<close> where the member is an array or a
  pointer. Offsets follow the C ABI: each member starts at the next multiple of its alignment.
\<close>

record c_member =
  mname :: string
  msize :: nat
  malign :: nat
  melem :: nat

type_synonym c_struct = "c_member list"

text \<open>Members by type: \<^verbatim>\<open>bool\<close>, the 4-byte integers and enumerations, \<^verbatim>\<open>int64_t\<close>, pointers.\<close>

definition c_bool :: "string \<Rightarrow> c_member" where
  [layout_defs]: "c_bool n = \<lparr>mname = n, msize = 1, malign = 1, melem = 1\<rparr>"

definition c_int32 :: "string \<Rightarrow> c_member" where
  [layout_defs]: "c_int32 n = \<lparr>mname = n, msize = 4, malign = 4, melem = 4\<rparr>"

definition c_int64 :: "string \<Rightarrow> c_member" where
  [layout_defs]: "c_int64 n = \<lparr>mname = n, msize = 8, malign = 8, melem = 8\<rparr>"

definition c_ptr :: "string \<Rightarrow> nat \<Rightarrow> c_member" where
  [layout_defs]: "c_ptr n pointee = \<lparr>mname = n, msize = 8, malign = 8, melem = pointee\<rparr>"

definition align_up :: "nat \<Rightarrow> nat \<Rightarrow> nat" where
  "align_up al n = (n + al - 1) div al * al"

fun layout_from :: "nat \<Rightarrow> c_struct \<Rightarrow> (string \<times> nat \<times> c_member) list" where
  "layout_from off [] = []"
| "layout_from off (c # cs) =
     (let o1 = align_up (malign c) off in (mname c, o1, c) # layout_from (o1 + msize c) cs)"

fun end_from :: "nat \<Rightarrow> c_struct \<Rightarrow> nat" where
  "end_from off [] = off"
| "end_from off (c # cs) = end_from (align_up (malign c) off + msize c) cs"

definition struct_align :: "c_struct \<Rightarrow> nat" where
  "struct_align st = fold (\<lambda>c al. max (malign c) al) st 1"

definition c_sizeof :: "c_struct \<Rightarrow> nat" where
  "c_sizeof st = align_up (struct_align st) (end_from 0 st)"

text \<open>A member that is itself a struct.\<close>

definition c_sub :: "string \<Rightarrow> c_struct \<Rightarrow> c_member" where
  [layout_defs]: "c_sub n st = \<lparr>mname = n, msize = c_sizeof st, malign = struct_align st, melem = c_sizeof st\<rparr>"

text \<open>\<^verbatim>\<open>pb_bytes_array_t\<close>: a \<^verbatim>\<open>pb_size_t\<close> and one byte.\<close>

definition pb_bytes_array_t :: c_struct where
  [layout_defs]: "pb_bytes_array_t =
     [c_int32 ''size'', \<lparr>mname = ''bytes'', msize = 1, malign = 1, melem = 1\<rparr>]"

definition c_offsetof :: "c_struct \<Rightarrow> string \<Rightarrow> nat" where
  "c_offsetof st m = (case map_of (layout_from 0 st) m of Some (off, _) \<Rightarrow> off | None \<Rightarrow> 0)"

definition pb_membersize :: "c_struct \<Rightarrow> string \<Rightarrow> nat" where
  "pb_membersize st m = (case map_of (layout_from 0 st) m of Some (_, c) \<Rightarrow> msize c | None \<Rightarrow> 0)"

definition pb_elemsize :: "c_struct \<Rightarrow> string \<Rightarrow> nat" where
  "pb_elemsize st m = (case map_of (layout_from 0 st) m of Some (_, c) \<Rightarrow> melem c | None \<Rightarrow> 0)"

definition pb_arraysize :: "c_struct \<Rightarrow> string \<Rightarrow> nat" where
  "pb_arraysize st m = pb_membersize st m div pb_elemsize st m"

definition pb_delta :: "c_struct \<Rightarrow> string \<Rightarrow> string \<Rightarrow> int" where
  "pb_delta st m1 m2 = int (c_offsetof st m1) - int (c_offsetof st m2)"

definition PB_DATAOFFSET_FIRST :: "c_struct \<Rightarrow> string \<Rightarrow> string \<Rightarrow> nat" where
  "PB_DATAOFFSET_FIRST st m1 m2 = c_offsetof st m1"

definition PB_DATAOFFSET_OTHER :: "c_struct \<Rightarrow> string \<Rightarrow> string \<Rightarrow> nat" where
  "PB_DATAOFFSET_OTHER st m1 m2 = c_offsetof st m1 - c_offsetof st m2 - pb_membersize st m2"

definition PB_DATAOFFSET_UNION :: "c_struct \<Rightarrow> string \<Rightarrow> string \<Rightarrow> nat" where
  "PB_DATAOFFSET_UNION st m1 m2 = PB_SIZE_MAX"

definition PB_REQUIRED_STATIC where
  "PB_REQUIRED_STATIC tg st m fd ltype p =
     Pb_field tg (PB_ATYPE_STATIC OR PB_HTYPE_REQUIRED OR ltype) fd 0 (pb_membersize st m) 0 p"

definition PB_OPTIONAL_STATIC where
  "PB_OPTIONAL_STATIC tg st m fd ltype p =
     Pb_field tg (PB_ATYPE_STATIC OR PB_HTYPE_OPTIONAL OR ltype) fd
       (pb_delta st (''has_'' @ m) m) (pb_membersize st m) 0 p"

definition PB_SINGULAR_STATIC where
  "PB_SINGULAR_STATIC tg st m fd ltype p =
     Pb_field tg (PB_ATYPE_STATIC OR PB_HTYPE_OPTIONAL OR ltype) fd 0 (pb_membersize st m) 0 p"

definition PB_REPEATED_STATIC where
  "PB_REPEATED_STATIC tg st m fd ltype p =
     Pb_field tg (PB_ATYPE_STATIC OR PB_HTYPE_REPEATED OR ltype) fd
       (pb_delta st (m @ ''_count'') m) (pb_elemsize st m) (pb_arraysize st m) p"

definition PB_REQUIRED_POINTER where
  "PB_REQUIRED_POINTER tg st m fd ltype p =
     Pb_field tg (PB_ATYPE_POINTER OR PB_HTYPE_REQUIRED OR ltype) fd 0 (pb_elemsize st m) 0 p"

definition PB_OPTIONAL_POINTER where
  "PB_OPTIONAL_POINTER tg st m fd ltype p =
     Pb_field tg (PB_ATYPE_POINTER OR PB_HTYPE_OPTIONAL OR ltype) fd 0 (pb_elemsize st m) 0 p"

definition PB_REPEATED_POINTER where
  "PB_REPEATED_POINTER tg st m fd ltype p =
     Pb_field tg (PB_ATYPE_POINTER OR PB_HTYPE_REPEATED OR ltype) fd
       (pb_delta st (m @ ''_count'') m) (pb_elemsize st m) 0 p"

definition PB_REQUIRED_CALLBACK where
  "PB_REQUIRED_CALLBACK tg st m fd ltype p =
     Pb_field tg (PB_ATYPE_CALLBACK OR PB_HTYPE_REQUIRED OR ltype) fd 0 (pb_membersize st m) 0 p"

definition PB_OPTIONAL_CALLBACK where
  "PB_OPTIONAL_CALLBACK tg st m fd ltype p =
     Pb_field tg (PB_ATYPE_CALLBACK OR PB_HTYPE_OPTIONAL OR ltype) fd 0 (pb_membersize st m) 0 p"

definition PB_REPEATED_CALLBACK where
  "PB_REPEATED_CALLBACK tg st m fd ltype p =
     Pb_field tg (PB_ATYPE_CALLBACK OR PB_HTYPE_REPEATED OR ltype) fd 0 (pb_membersize st m) 0 p"

definition PB_OPTEXT_STATIC where
  "PB_OPTEXT_STATIC tg st m fd ltype p =
     Pb_field tg (PB_ATYPE_STATIC OR PB_HTYPE_REQUIRED OR ltype) 0 0 (pb_membersize st m) 0 p"

datatype pb_rules = REQUIRED | OPTIONAL | SINGULAR | REPEATED | OPTEXT
datatype pb_alloc = STATIC | POINTER | CALLBACK
datatype pb_placement = FIRST | OTHER | UNION
datatype pb_proto =
  BOOL | BYTES | DOUBLE | ENUM | UENUM | FIXED32 | FIXED64 | FLOAT | INT32 | INT64 | MESSAGE
| SFIXED32 | SFIXED64 | SINT32 | SINT64 | STRING | UINT32 | UINT64 | EXTENSION | FIXED_LENGTH_BYTES

fun PB_LTYPE_MAP :: "pb_proto \<Rightarrow> byte" where
  "PB_LTYPE_MAP BOOL = PB_LTYPE_BOOL"
| "PB_LTYPE_MAP BYTES = PB_LTYPE_BYTES"
| "PB_LTYPE_MAP DOUBLE = PB_LTYPE_FIXED64"
| "PB_LTYPE_MAP ENUM = PB_LTYPE_VARINT"
| "PB_LTYPE_MAP UENUM = PB_LTYPE_UVARINT"
| "PB_LTYPE_MAP FIXED32 = PB_LTYPE_FIXED32"
| "PB_LTYPE_MAP FIXED64 = PB_LTYPE_FIXED64"
| "PB_LTYPE_MAP FLOAT = PB_LTYPE_FIXED32"
| "PB_LTYPE_MAP INT32 = PB_LTYPE_VARINT"
| "PB_LTYPE_MAP INT64 = PB_LTYPE_VARINT"
| "PB_LTYPE_MAP MESSAGE = PB_LTYPE_SUBMESSAGE"
| "PB_LTYPE_MAP SFIXED32 = PB_LTYPE_FIXED32"
| "PB_LTYPE_MAP SFIXED64 = PB_LTYPE_FIXED64"
| "PB_LTYPE_MAP SINT32 = PB_LTYPE_SVARINT"
| "PB_LTYPE_MAP SINT64 = PB_LTYPE_SVARINT"
| "PB_LTYPE_MAP STRING = PB_LTYPE_STRING"
| "PB_LTYPE_MAP UINT32 = PB_LTYPE_UVARINT"
| "PB_LTYPE_MAP UINT64 = PB_LTYPE_UVARINT"
| "PB_LTYPE_MAP EXTENSION = PB_LTYPE_EXTENSION"
| "PB_LTYPE_MAP FIXED_LENGTH_BYTES = PB_LTYPE_FIXED_LENGTH_BYTES"

text \<open>
  The macro \<^verbatim>\<open>PB_FIELD\<close> pastes the names of its rules, allocation and placement arguments into the
  name of the macro it calls; here it selects by the values of the same names.
\<close>

fun PB_DATAOFFSET :: "pb_placement \<Rightarrow> c_struct \<Rightarrow> string \<Rightarrow> string \<Rightarrow> nat" where
  "PB_DATAOFFSET FIRST = PB_DATAOFFSET_FIRST"
| "PB_DATAOFFSET OTHER = PB_DATAOFFSET_OTHER"
| "PB_DATAOFFSET UNION = PB_DATAOFFSET_UNION"

fun PB_RULES_ALLOC ::
  "pb_rules \<Rightarrow> pb_alloc \<Rightarrow> nat \<Rightarrow> c_struct \<Rightarrow> string \<Rightarrow> nat \<Rightarrow> byte \<Rightarrow> pb_field_ptr \<Rightarrow> pb_field" where
  "PB_RULES_ALLOC REQUIRED STATIC = PB_REQUIRED_STATIC"
| "PB_RULES_ALLOC OPTIONAL STATIC = PB_OPTIONAL_STATIC"
| "PB_RULES_ALLOC SINGULAR STATIC = PB_SINGULAR_STATIC"
| "PB_RULES_ALLOC REPEATED STATIC = PB_REPEATED_STATIC"
| "PB_RULES_ALLOC OPTEXT STATIC = PB_OPTEXT_STATIC"
| "PB_RULES_ALLOC REQUIRED POINTER = PB_REQUIRED_POINTER"
| "PB_RULES_ALLOC OPTIONAL POINTER = PB_OPTIONAL_POINTER"
| "PB_RULES_ALLOC SINGULAR POINTER = PB_OPTIONAL_POINTER"
| "PB_RULES_ALLOC REPEATED POINTER = PB_REPEATED_POINTER"
| "PB_RULES_ALLOC OPTEXT POINTER = PB_OPTIONAL_POINTER"
| "PB_RULES_ALLOC REQUIRED CALLBACK = PB_REQUIRED_CALLBACK"
| "PB_RULES_ALLOC OPTIONAL CALLBACK = PB_OPTIONAL_CALLBACK"
| "PB_RULES_ALLOC SINGULAR CALLBACK = PB_OPTIONAL_CALLBACK"
| "PB_RULES_ALLOC REPEATED CALLBACK = PB_REPEATED_CALLBACK"
| "PB_RULES_ALLOC OPTEXT CALLBACK = PB_OPTIONAL_CALLBACK"

definition PB_FIELD ::
  "nat \<Rightarrow> pb_proto \<Rightarrow> pb_rules \<Rightarrow> pb_alloc \<Rightarrow> pb_placement \<Rightarrow> c_struct \<Rightarrow> string \<Rightarrow> string \<Rightarrow>
     pb_field_ptr \<Rightarrow> pb_field" where
  "PB_FIELD tg ty rules alloc placement st m prev p =
     PB_RULES_ALLOC rules alloc tg st m (PB_DATAOFFSET placement st m prev) (PB_LTYPE_MAP ty) p"

definition PB_REPEATED_FIXED_COUNT where
  "PB_REPEATED_FIXED_COUNT tg ty placement st m prev p =
     Pb_field tg (PB_ATYPE_STATIC OR PB_HTYPE_REPEATED OR PB_LTYPE_MAP ty)
       (PB_DATAOFFSET placement st m prev) 0 (pb_elemsize st m) (pb_arraysize st m) p"

definition PB_ONEOF_STATIC where
  "PB_ONEOF_STATIC u tg st m fd ltype p =
     Pb_field tg (PB_ATYPE_STATIC OR PB_HTYPE_ONEOF OR ltype) fd
       (pb_delta st (''which_'' @ u) (u @ ''.'' @ m)) (pb_membersize st (u @ ''.'' @ m)) 0 p"

definition PB_ONEOF_POINTER where
  "PB_ONEOF_POINTER u tg st m fd ltype p =
     Pb_field tg (PB_ATYPE_POINTER OR PB_HTYPE_ONEOF OR ltype) fd
       (pb_delta st (''which_'' @ u) (u @ ''.'' @ m)) (pb_elemsize st (u @ ''.'' @ m)) 0 p"

text \<open>
  A 4-byte constant in memory, a brace-enclosed initializer of a struct, and what it means that the
  struct at address \<open>base\<close> holds the values of an initializer.
\<close>

definition c_int32_bytes :: "int \<Rightarrow> byte list" where
  [layout_defs]: "c_int32_bytes v = le_bytes 4 (nat (v mod 2 ^ 32))"

datatype c_init = Init_int int | Init_struct c_struct "c_init list"

fun init_holds :: "cmem \<Rightarrow> addr \<Rightarrow> (string \<times> nat \<times> c_member) list \<Rightarrow> c_init list \<Rightarrow> bool" where
  "init_holds m base [] [] = True"
| "init_holds m base ((_, off, c) # ms) (Init_int v # vs) =
     (load (msize c) m (base + off) = nat (v mod 256 ^ msize c) \<and> init_holds m base ms vs)"
| "init_holds m base ((_, off, c) # ms) (Init_struct st ws # vs) =
     (init_holds m (base + off) (layout_from 0 st) ws \<and> init_holds m base ms vs)"
| "init_holds m base _ _ = False"

definition struct_holds :: "cmem \<Rightarrow> addr \<Rightarrow> c_struct \<Rightarrow> c_init list \<Rightarrow> bool" where
  "struct_holds m base st vs = init_holds m base (layout_from 0 st) vs"

end
