(* ===== verification/PB_Common.thy ===== *)
theory PB_Common
  imports PB_Types
begin

text \<open>
  \<^verbatim>\<open>nanopb/pb_common.c\<close> and \<^verbatim>\<open>pb_common.h\<close>: the field iterator that walks a descriptor array and the struct
  it describes side by side. A \<^verbatim>\<open>const pb_field_t *\<close> into the array is the index \<open>pos\<close>.
\<close>

section \<open>The iterator\<close>

text \<open>
  \<^verbatim>\<open>pSize\<close> points into the message struct, except that \<^verbatim>\<open>pb_decode_noinit\<close> redirects it to its local
  variable \<^verbatim>\<open>fixed_count_size\<close> for fixed count arrays.
\<close>

datatype size_ptr = Size_at addr | Size_local

record pb_field_iter =
  start :: "pb_field list"
  pos :: nat
  required_field_index :: nat
  dest_struct :: addr
  pData :: addr
  pSize :: size_ptr

definition cur :: "pb_field_iter \<Rightarrow> pb_field" where
  "cur it = field_at (start it) (pos it)"

definition pb_field_iter_begin :: "pb_field list \<Rightarrow> addr \<Rightarrow> bool \<times> pb_field_iter" where
  "pb_field_iter_begin fs dest =
     (let f = field_at fs 0; d = dest + data_offset f in
      (tag f \<noteq> 0,
       \<lparr>start = fs, pos = 0, required_field_index = 0, dest_struct = dest, pData = d,
        pSize = Size_at (ptr_add d (size_offset f))\<rparr>))"

definition prev_field_size :: "pb_field \<Rightarrow> nat" where
  "prev_field_size f =
     (if PB_ATYPE (ftype f) = PB_ATYPE_STATIC \<and> PB_HTYPE (ftype f) = PB_HTYPE_REPEATED
      then data_size f * array_size f
      else if PB_ATYPE (ftype f) = PB_ATYPE_POINTER then 8
      else data_size f)"

definition pb_field_iter_next :: "pb_field_iter \<Rightarrow> bool \<times> pb_field_iter" where
  "pb_field_iter_next it =
     (let prev = cur it in
      if tag prev = 0 then (False, it)
      else
        let it1 = it\<lparr>pos := Suc (pos it)\<rparr>; f = cur it1 in
        if tag f = 0 then (False, snd (pb_field_iter_begin (start it) (dest_struct it)))
        else if PB_HTYPE (ftype prev) = PB_HTYPE_ONEOF \<and> PB_HTYPE (ftype f) = PB_HTYPE_ONEOF \<and>
                data_offset f = PB_SIZE_MAX
        then (True, it1)
        else
          let d = pData it + prev_field_size prev + data_offset f in
          (True, it1\<lparr>required_field_index :=
                       (if PB_HTYPE (ftype prev) = PB_HTYPE_REQUIRED
                        then Suc (required_field_index it) else required_field_index it),
                     pData := d,
                     pSize := Size_at (ptr_add d (size_offset f))\<rparr>))"

text \<open>
  The search loop of \<^verbatim>\<open>pb_field_iter_find\<close>: it ends when the iterator is back at \<open>s\<close>, the position it
  started from. The bound on the number of rounds is one more than the length of the array, which
  a loop that starts inside the array never uses up (lemma \<open>find_loop_spec\<close>).
\<close>

fun find_loop :: "nat \<Rightarrow> nat \<Rightarrow> nat \<Rightarrow> pb_field_iter \<Rightarrow> bool \<times> pb_field_iter" where
  "find_loop 0 s t it = (False, it)"
| "find_loop (Suc k) s t it =
     (if tag (cur it) = t \<and> PB_LTYPE (ftype (cur it)) \<noteq> PB_LTYPE_EXTENSION then (True, it)
      else let it' = snd (pb_field_iter_next it) in
           if pos it' = s then (False, it') else find_loop k s t it')"

definition pb_field_iter_find :: "pb_field_iter \<Rightarrow> nat \<Rightarrow> bool \<times> pb_field_iter" where
  "pb_field_iter_find it t = find_loop (Suc (length (start it))) (pos it) t it"

text \<open>
  The iterator states of a loop \<^verbatim>\<open>if (begin) do { ... } while (next)\<close>, the shape in which the encoder and
  the decoder visit every field of a message. The loop ends on every array: a step that succeeds leads
  to a later entry of the array, and the entry after the last one is a terminator.
\<close>

lemma next_within:
  "pb_field_iter_next it = (True, it') \<Longrightarrow> length (start it') - pos it' < length (start it) - pos it"
  by (auto simp: pb_field_iter_next_def pb_field_iter_begin_def cur_def field_at_def PB_LAST_FIELD_def Let_def
      split: if_splits)

function iter_walk :: "pb_field_iter \<Rightarrow> pb_field_iter list" where
  "iter_walk it =
     it # (case pb_field_iter_next it of (True, it') \<Rightarrow> iter_walk it' | (False, _) \<Rightarrow> [])"
  by pat_completeness auto
termination
  by (relation "measure (\<lambda>it. length (start it) - pos it)") (auto simp: next_within [OF sym])

definition pb_fields_walk :: "pb_field list \<Rightarrow> addr \<Rightarrow> pb_field_iter list" where
  "pb_fields_walk fs dest =
     (case pb_field_iter_begin fs dest of
        (False, _) \<Rightarrow> []
      | (True, it) \<Rightarrow> iter_walk it)"

declare iter_walk.simps [simp del]

section \<open>The fields before the terminator\<close>

definition nfields :: "pb_field list \<Rightarrow> nat" where
  "nfields fs = length (takeWhile (\<lambda>f. tag f \<noteq> 0) fs)"

lemma nfields_le_length: "nfields fs \<le> length fs"
  by (simp add: nfields_def length_takeWhile_le)

lemma tag_before_nfields: "i < nfields fs \<Longrightarrow> 0 < tag (field_at fs i)"
proof -
  assume i: "i < nfields fs"
  then have "takeWhile (\<lambda>f. tag f \<noteq> 0) fs ! i \<in> set (takeWhile (\<lambda>f. tag f \<noteq> 0) fs)"
    by (simp add: nfields_def)
  then have "tag (takeWhile (\<lambda>f. tag f \<noteq> 0) fs ! i) \<noteq> 0" by (blast dest: set_takeWhileD)
  with i nfields_le_length [of fs] show ?thesis
    by (simp add: nfields_def field_at_def takeWhile_nth)
qed

lemma tag_at_nfields: "tag (field_at fs (nfields fs)) = 0"
  using nth_length_takeWhile [of "\<lambda>f. tag f \<noteq> 0" fs]
  by (auto simp: nfields_def field_at_def PB_LAST_FIELD_def)

lemma field_at_in_set: "i < nfields fs \<Longrightarrow> field_at fs i \<in> set fs"
  using nfields_le_length [of fs] by (auto simp: field_at_def)

lemma tag_first: "0 < tag (field_at fs 0) \<longleftrightarrow> 0 < nfields fs"
  using tag_before_nfields [of 0 fs] tag_at_nfields [of fs] by (cases "nfields fs") auto

section \<open>Where the iterator is after \<open>i\<close> steps\<close>

primrec iter_at :: "pb_field list \<Rightarrow> addr \<Rightarrow> nat \<Rightarrow> pb_field_iter" where
  "iter_at fs dest 0 = snd (pb_field_iter_begin fs dest)"
| "iter_at fs dest (Suc i) = snd (pb_field_iter_next (iter_at fs dest i))"

lemma begin_simps [simp]:
  "start (snd (pb_field_iter_begin fs dest)) = fs"
  "dest_struct (snd (pb_field_iter_begin fs dest)) = dest"
  "pos (snd (pb_field_iter_begin fs dest)) = 0"
  "fst (pb_field_iter_begin fs dest) \<longleftrightarrow> tag (field_at fs 0) \<noteq> 0"
  by (simp_all add: pb_field_iter_begin_def Let_def)

lemma next_frame [simp]:
  "start (snd (pb_field_iter_next it)) = start it"
  "dest_struct (snd (pb_field_iter_next it)) = dest_struct it"
  by (simp_all add: pb_field_iter_next_def Let_def)

lemma iter_at_frame [simp]:
  "start (iter_at fs dest i) = fs" "dest_struct (iter_at fs dest i) = dest"
  by (induction i) simp_all

lemma next_forward:
  assumes "tag (cur it) \<noteq> 0" "tag (field_at (start it) (Suc (pos it))) \<noteq> 0"
  shows "fst (pb_field_iter_next it) \<and> pos (snd (pb_field_iter_next it)) = Suc (pos it)"
  using assms by (simp add: pb_field_iter_next_def Let_def cur_def)

lemma next_wrap:
  assumes "tag (cur it) \<noteq> 0" "tag (field_at (start it) (Suc (pos it))) = 0"
  shows "pb_field_iter_next it = (False, snd (pb_field_iter_begin (start it) (dest_struct it)))"
  using assms by (simp add: pb_field_iter_next_def Let_def cur_def)

lemma next_at_terminator: "tag (cur it) = 0 \<Longrightarrow> pb_field_iter_next it = (False, it)"
  by (simp add: pb_field_iter_next_def Let_def)

lemma pos_iter_at: "i < nfields fs \<Longrightarrow> pos (iter_at fs dest i) = i"
proof (induction i)
  case 0
  then show ?case by simp
next
  case (Suc i)
  then have p: "pos (iter_at fs dest i) = i" by simp
  from Suc.prems tag_before_nfields [of i fs] tag_before_nfields [of "Suc i" fs] p
  show ?case using next_forward [of "iter_at fs dest i"] by (simp add: cur_def)
qed

lemma cur_iter_at: "i < nfields fs \<Longrightarrow> cur (iter_at fs dest i) = field_at fs i"
  by (simp add: cur_def pos_iter_at)

lemma iter_walk_from:
  "i < nfields fs \<Longrightarrow> iter_walk (iter_at fs dest i) = map (iter_at fs dest) [i..<nfields fs]"
proof (induction "nfields fs - i" arbitrary: i)
  case 0
  then show ?case by simp
next
  case (Suc k)
  let ?it = "iter_at fs dest i"
  have c: "tag (cur ?it) \<noteq> 0" using Suc.prems by (simp add: cur_iter_at tag_before_nfields)
  show ?case
  proof (cases "Suc i < nfields fs")
    case True
    then have "tag (field_at (start ?it) (Suc (pos ?it))) \<noteq> 0"
      using Suc.prems by (simp add: pos_iter_at tag_before_nfields)
    with c have "pb_field_iter_next ?it = (True, iter_at fs dest (Suc i))"
      using next_forward by (simp add: prod_eq_iff)
    moreover have "iter_walk (iter_at fs dest (Suc i)) = map (iter_at fs dest) [Suc i..<nfields fs]"
      using Suc.hyps(1) [of "Suc i"] Suc.hyps(2) True by (simp del: iter_at.simps)
    ultimately show ?thesis
      using Suc.prems by (simp add: iter_walk.simps [of ?it] upt_conv_Cons del: iter_at.simps)
  next
    case False
    with Suc.prems have last: "Suc i = nfields fs" by simp
    then have "tag (field_at (start ?it) (Suc (pos ?it))) = 0"
      using Suc.prems tag_at_nfields [of fs] by (simp add: pos_iter_at)
    with c have "\<not> fst (pb_field_iter_next ?it)" by (simp add: next_wrap)
    then show ?thesis using last Suc.prems
      by (auto simp: iter_walk.simps [of ?it] upt_conv_Cons split: prod.splits bool.splits)
  qed
qed

lemma pb_fields_walk_eq: "pb_fields_walk fs dest = map (iter_at fs dest) [0..<nfields fs]"
proof (cases "0 < nfields fs")
  case True
  then have "pb_field_iter_begin fs dest = (True, iter_at fs dest 0)"
    by (simp add: prod_eq_iff tag_first)
  with True nfields_le_length [of fs] show ?thesis
    by (simp add: pb_fields_walk_def iter_walk_from del: iter_at.simps)
next
  case False
  then have "tag (field_at fs 0) = 0" using tag_first [of fs] by simp
  with False show ?thesis by (simp add: pb_fields_walk_def pb_field_iter_begin_def Let_def)
qed

lemma pb_fields_walk_field:
  "it \<in> set (pb_fields_walk fs dest) \<Longrightarrow> cur it \<in> set fs \<and> 0 < tag (cur it)"
  by (auto simp: pb_fields_walk_eq cur_iter_at field_at_in_set tag_before_nfields)

section \<open>Iterators the loops keep valid\<close>

text \<open>
  An iterator is valid when it is where \<open>pos\<close> calls of \<^verbatim>\<open>pb_field_iter_next\<close> lead, up to the redirection of
  \<^verbatim>\<open>pSize\<close> for a repeated field. The iterator of an empty message type stands on the terminator.
\<close>

definition iter_ok :: "pb_field_iter \<Rightarrow> bool" where
  "iter_ok it \<longleftrightarrow>
     (let it0 = iter_at (start it) (dest_struct it) (pos it) in
      (pos it < nfields (start it) \<or> pos it = 0) \<and>
      pData it = pData it0 \<and> required_field_index it = required_field_index it0 \<and>
      (pSize it = pSize it0 \<or>
       pSize it = Size_local \<and> PB_HTYPE (ftype (cur it)) = PB_HTYPE_REPEATED))"

lemma iter_ok_begin: "iter_ok (snd (pb_field_iter_begin fs dest))"
  by (simp add: iter_ok_def)

lemma iter_ok_next:
  assumes "iter_ok it"
  shows "iter_ok (snd (pb_field_iter_next it))"
proof (cases "tag (cur it) = 0")
  case True
  with assms show ?thesis by (simp add: next_at_terminator)
next
  case t: False
  then have p: "pos it < nfields (start it)"
    using assms tag_first [of "start it"] by (auto simp: iter_ok_def cur_def Let_def)
  show ?thesis
  proof (cases "tag (field_at (start it) (Suc (pos it))) = 0")
    case True
    with t show ?thesis by (simp add: next_wrap iter_ok_begin)
  next
    case False
    let ?it0 = "iter_at (start it) (dest_struct it) (pos it)"
    have s: "Suc (pos it) < nfields (start it)"
      using False p tag_at_nfields [of "start it"] by (metis Suc_lessI)
    have c: "cur ?it0 = cur it" "pos ?it0 = pos it" using p by (simp_all add: cur_iter_at cur_def pos_iter_at)
    show ?thesis
      using assms t False s c
      by (auto simp: iter_ok_def Let_def pb_field_iter_next_def cur_def layout_defs)
  qed
qed

lemma next_pos:
  assumes "iter_ok it" "0 < nfields (start it)"
  shows "pos (snd (pb_field_iter_next it)) = Suc (pos it) mod nfields (start it)"
proof -
  have p: "pos it < nfields (start it)" using assms by (auto simp: iter_ok_def Let_def)
  then have c: "0 < tag (cur it)" by (simp add: cur_def tag_before_nfields)
  show ?thesis
  proof (cases "Suc (pos it) = nfields (start it)")
    case True
    with c tag_at_nfields [of "start it"] show ?thesis by (simp add: next_wrap)
  next
    case False
    with p c show ?thesis using next_forward [of it] by (simp add: tag_before_nfields)
  qed
qed

section \<open>What the search finds\<close>

definition matches :: "nat \<Rightarrow> pb_field \<Rightarrow> bool" where
  "matches t f \<longleftrightarrow> tag f = t \<and> PB_LTYPE (ftype f) \<noteq> PB_LTYPE_EXTENSION"

text \<open>
  The loop started at position \<open>s\<close> and now \<open>j\<close> steps further: it has looked at the \<open>j\<close> positions
  before, and stops at the first match among the remaining ones or back at \<open>s\<close>.
\<close>

definition find_post ::
  "nat \<Rightarrow> nat \<Rightarrow> nat \<Rightarrow> pb_field_iter \<Rightarrow> bool \<times> pb_field_iter \<Rightarrow> bool" where
  "find_post s j t it r \<longleftrightarrow>
     (let fs = start it; n = nfields fs; it' = snd r; at = (\<lambda>l. field_at fs ((s + l) mod n)) in
      iter_ok it' \<and> start it' = fs \<and> dest_struct it' = dest_struct it \<and>
      (if fst r
       then \<exists>i. j \<le> i \<and> i < n \<and> pos it' = (s + i) mod n \<and> matches t (cur it') \<and>
              (\<forall>l. j \<le> l \<and> l < i \<longrightarrow> \<not> matches t (at l))
       else pos it' = s \<and> (\<forall>l. j \<le> l \<and> l < n \<longrightarrow> \<not> matches t (at l))))"

lemma find_post_step:
  assumes "find_post s (Suc j) t it' r" "start it' = start it" "dest_struct it' = dest_struct it"
    and here: "\<not> matches t (field_at (start it) ((s + j) mod nfields (start it)))"
  shows "find_post s j t it r"
proof (cases "fst r")
  case True
  with assms obtain i where i: "Suc j \<le> i" "i < nfields (start it)"
      "pos (snd r) = (s + i) mod nfields (start it)" "matches t (cur (snd r))"
      "\<forall>l. Suc j \<le> l \<and> l < i \<longrightarrow> \<not> matches t (field_at (start it) ((s + l) mod nfields (start it)))"
    by (auto simp: find_post_def Let_def)
  have "\<not> matches t (field_at (start it) ((s + l) mod nfields (start it)))" if "j \<le> l" "l < i" for l
    using that i(5) here by (cases "l = j") auto
  with True assms i(1-4) show ?thesis
    by (auto simp: find_post_def Let_def intro!: exI [of _ i])
next
  case False
  have "\<not> matches t (field_at (start it) ((s + l) mod nfields (start it)))"
    if "j \<le> l" "l < nfields (start it)" for l
    using that False assms by (cases "l = j") (auto simp: find_post_def Let_def)
  with False assms show ?thesis by (simp add: find_post_def Let_def)
qed

lemma find_loop_spec:
  assumes "iter_ok it" "s < nfields (start it)" "j < nfields (start it)"
    and "nfields (start it) \<le> j + k" "0 < k" "pos it = (s + j) mod nfields (start it)"
  shows "find_post s j t it (find_loop k s t it)"
  using assms
proof (induction k arbitrary: it j)
  case 0
  then show ?case by simp
next
  case (Suc k)
  let ?n = "nfields (start it)"
  show ?case
  proof (cases "matches t (cur it)")
    case True
    with Suc.prems show ?thesis by (auto simp: matches_def find_post_def Let_def)
  next
    case no: False
    let ?it = "snd (pb_field_iter_next it)"
    have pos': "pos ?it = (s + Suc j) mod ?n"
      using Suc.prems next_pos [of it] by (simp add: mod_Suc_eq)
    have here: "\<not> matches t (field_at (start it) ((s + j) mod ?n))"
      using no Suc.prems by (simp add: cur_def)
    show ?thesis
    proof (cases "pos ?it = s")
      case True
      have "Suc j = ?n"
      proof (rule ccontr)
        assume "Suc j \<noteq> ?n"
        with Suc.prems have "Suc j < ?n" by simp
        with True pos' \<open>s < ?n\<close> show False by (auto simp: mod_if split: if_splits)
      qed
      then have "\<And>l. j \<le> l \<Longrightarrow> l < ?n \<Longrightarrow> l = j" by simp
      with True no here Suc.prems(1) show ?thesis
        by (auto simp: matches_def Let_def iter_ok_next find_post_def)
    next
      case False
      then have "Suc j < ?n" using pos' Suc.prems by (cases "Suc j = ?n") auto
      then have "find_post s (Suc j) t ?it (find_loop k s t ?it)"
        using Suc.prems pos' by (intro Suc.IH) (auto simp: iter_ok_next)
      moreover have "find_loop (Suc k) s t it = find_loop k s t ?it"
        using no False by (auto simp: matches_def Let_def)
      ultimately show ?thesis using here by (auto intro: find_post_step)
    qed
  qed
qed

text \<open>On a message type with fields, the search started anywhere.\<close>

lemma pb_field_iter_find_post:
  assumes "iter_ok it" "0 < nfields (start it)"
  shows "find_post (pos it) 0 t it (pb_field_iter_find it t)"
proof -
  from assms have "pos it < nfields (start it)" by (auto simp: iter_ok_def Let_def)
  with assms show ?thesis
    unfolding pb_field_iter_find_def
    by (intro find_loop_spec) (use nfields_le_length [of "start it"] in auto)
qed

text \<open>The positions a full round visits are all positions.\<close>

lemma round_covers: "(i::nat) < n \<Longrightarrow> s < n \<Longrightarrow> \<exists>l < n. i = (s + l) mod n"
  by (rule exI [of _ "(i + n - s) mod n"]) (simp add: mod_add_right_eq)


section \<open>Properties\<close>

text \<open>
  C22. \<^verbatim>\<open>pb_field_iter_find\<close> is a correct search: from any position of the iterator it finds a field with the
  wanted tag exactly when the message type has one that is no extension, it then stands on such a
  field, and the iterator it leaves is again valid, over the same array and the same struct.
\<close>

theorem pb_field_iter_find_correct:
  assumes "iter_ok it" "0 < nfields (start it)"
  shows "(fst (pb_field_iter_find it t) \<longleftrightarrow> (\<exists>i < nfields (start it). matches t (field_at (start it) i))) \<and>
     (fst (pb_field_iter_find it t) \<longrightarrow> matches t (cur (snd (pb_field_iter_find it t)))) \<and>
     iter_ok (snd (pb_field_iter_find it t)) \<and> start (snd (pb_field_iter_find it t)) = start it \<and>
     dest_struct (snd (pb_field_iter_find it t)) = dest_struct it"
proof -
  let ?r = "pb_field_iter_find it t" and ?n = "nfields (start it)"
  have post: "find_post (pos it) 0 t it ?r" by (rule pb_field_iter_find_post [OF assms])
  have p: "pos it < ?n" using assms by (auto simp: iter_ok_def Let_def)
  have "\<not> matches t (field_at (start it) i)" if "\<not> fst ?r" "i < ?n" for i
    using round_covers [OF that(2) p] post that(1) by (auto simp: find_post_def Let_def)
  moreover have "\<exists>i < ?n. matches t (field_at (start it) i)" if "fst ?r"
  proof -
    from post that have "pos (snd ?r) < ?n" "matches t (cur (snd ?r))" "start (snd ?r) = start it"
      using assms(2) by (auto simp: find_post_def Let_def)
    then show ?thesis unfolding cur_def by metis
  qed
  ultimately show ?thesis using post by (auto simp: find_post_def Let_def)
qed

theorem pb_field_iter_find_correct_witness:
  "fst (pb_field_iter_find (snd (pb_field_iter_begin [Pb_field 4 0 0 0 1 0 Null_ptr, Pb_field 9 0 1 0 1 0 Null_ptr] 64)) 9)"
proof -
  let ?fs = "[Pb_field 4 0 0 0 1 0 Null_ptr, Pb_field 9 0 1 0 1 0 Null_ptr]"
  let ?it = "snd (pb_field_iter_begin ?fs 64)"
  have "\<exists>i < nfields (start ?it). matches 9 (field_at (start ?it) i)"
    by (rule exI [of _ 1]) (simp add: matches_def field_at_def nfields_def layout_defs)
  moreover have "0 < nfields (start ?it)" by (simp add: nfields_def)
  ultimately show ?thesis using pb_field_iter_find_correct [OF iter_ok_begin, of ?fs 64 9] by blast
qed

end
