(* ===== verification/PB_Istream.thy ===== *)
theory PB_Istream
  imports PB_Types
begin

text \<open>
  Input streams and the wire-level readers of \<^verbatim>\<open>nanopb/pb_decode.c\<close>: \<^verbatim>\<open>pb_read\<close>, varints, tags, skipping and
  substreams. The members \<^verbatim>\<open>callback\<close> and \<^verbatim>\<open>state\<close> of \<^verbatim>\<open>pb_istream_t\<close> are one field here, since the callback
  determines what the state is: for \<^verbatim>\<open>buf_read\<close> the state is the rest of the caller's buffer, for a reader
  of the application it is an opaque handle. A read returns the bytes it puts into the caller's buffer.
\<close>

section \<open>Streams\<close>

datatype istream_source =
  Buffer "byte list"
| Reader "nat \<Rightarrow> nat \<Rightarrow> bool \<times> byte list \<times> nat" nat

record pb_istream =
  source :: istream_source
  bytes_left :: nat
  is_errmsg :: "string option"

definition pb_istream_error :: "string \<Rightarrow> pb_istream \<Rightarrow> pb_istream" where
  "pb_istream_error msg s =
     s\<lparr>is_errmsg := (case is_errmsg s of None \<Rightarrow> Some msg | Some e \<Rightarrow> Some e)\<rparr>"

definition buf_read :: "byte list \<Rightarrow> nat \<Rightarrow> bool \<times> byte list \<times> byte list" where
  "buf_read src count = (True, fill count src, drop count src)"

fun istream_callback :: "istream_source \<Rightarrow> nat \<Rightarrow> bool \<times> byte list \<times> istream_source" where
  "istream_callback (Buffer src) count =
     (case buf_read src count of (ok, bs, src') \<Rightarrow> (ok, bs, Buffer src'))"
| "istream_callback (Reader f st) count =
     (case f st count of (ok, bs, st') \<Rightarrow> (ok, fill count bs, Reader f st'))"

text \<open>\<^verbatim>\<open>pb_read\<close> with a buffer.\<close>

definition pb_read :: "pb_istream \<Rightarrow> nat \<Rightarrow> bool \<times> byte list \<times> pb_istream" where
  "pb_read s count =
     (if count = 0 then (True, [], s)
      else if bytes_left s < count then (False, [], pb_istream_error ''end-of-stream'' s)
      else case istream_callback (source s) count of
        (ok, bs, src') \<Rightarrow>
          (if \<not> ok then (False, bs, pb_istream_error ''io error'' (s\<lparr>source := src'\<rparr>))
           else (True, bs, s\<lparr>source := src', bytes_left := bytes_left s - count\<rparr>)))"

text \<open>\<^verbatim>\<open>pb_read\<close> with a null buffer: readers other than \<^verbatim>\<open>buf_read\<close> are drained 16 bytes at a time.\<close>

function pb_read_skip :: "pb_istream \<Rightarrow> nat \<Rightarrow> bool \<times> pb_istream" where
  "pb_read_skip s count =
     (if count > 16 then
        (case pb_read s 16 of (ok, _, s') \<Rightarrow> if \<not> ok then (False, s') else pb_read_skip s' (count - 16))
      else (case pb_read s count of (ok, _, s') \<Rightarrow> (ok, s')))"
  by pat_completeness auto
termination
  by (relation "measure (\<lambda>(s, count). count)") auto

declare pb_read_skip.simps [simp del]

definition pb_read_null :: "pb_istream \<Rightarrow> nat \<Rightarrow> bool \<times> pb_istream" where
  "pb_read_null s count =
     (if count = 0 then (True, s)
      else case source s of
        Buffer _ \<Rightarrow> (case pb_read s count of (ok, _, s') \<Rightarrow> (ok, s'))
      | Reader _ _ \<Rightarrow> pb_read_skip s count)"

definition pb_readbyte :: "pb_istream \<Rightarrow> byte option \<times> pb_istream" where
  "pb_readbyte s =
     (if bytes_left s = 0 then (None, pb_istream_error ''end-of-stream'' s)
      else case istream_callback (source s) 1 of
        (ok, bs, src') \<Rightarrow>
          (if \<not> ok then (None, pb_istream_error ''io error'' (s\<lparr>source := src'\<rparr>))
           else (Some (hd bs), s\<lparr>source := src', bytes_left := bytes_left s - 1\<rparr>)))"

definition pb_istream_from_buffer :: "byte list \<Rightarrow> nat \<Rightarrow> pb_istream" where
  "pb_istream_from_buffer buf bufsize = \<lparr>source = Buffer buf, bytes_left = bufsize, is_errmsg = None\<rparr>"

section \<open>Varints\<close>

lemma pb_readbyte_less: "pb_readbyte s = (Some b, s') \<Longrightarrow> bytes_left s' < bytes_left s"
  by (auto simp: pb_readbyte_def split: if_splits prod.splits)

text \<open>
  The multibyte loop of \<^verbatim>\<open>pb_decode_varint32_eof\<close>. \<^verbatim>\<open>bitpos\<close> is a \<^verbatim>\<open>uint_fast8_t\<close>, 8 bits wide on the target,
  so \<^verbatim>\<open>bitpos + 7\<close> is taken modulo 256.
\<close>

function varint32_loop :: "pb_istream \<Rightarrow> nat \<Rightarrow> u32 \<Rightarrow> u32 option \<times> pb_istream" where
  "varint32_loop s bitpos result =
     (case pb_readbyte s of
        (None, s') \<Rightarrow> (None, s')
      | (Some b, s') \<Rightarrow>
          (let sign_extension = (if bitpos < 63 then 0xFF else 0x01) in
           if bitpos \<ge> 32 \<and> b AND 0x7F \<noteq> 0 \<and> (drop_bit 31 result = 0 \<or> b \<noteq> sign_extension)
           then (None, pb_istream_error ''varint overflow'' s')
           else
             let result' = (if bitpos \<ge> 32 then result
                            else result OR push_bit bitpos (ucast (b AND 0x7F)));
                 bitpos' = (bitpos + 7) mod 256 in
             if b AND 0x80 \<noteq> 0 then varint32_loop s' bitpos' result'
             else if bitpos' = 35 \<and> b AND 0x70 \<noteq> 0
             then (None, pb_istream_error ''varint overflow'' s')
             else (Some result', s')))"
  by pat_completeness auto
termination
  by (relation "measure (\<lambda>(s, _, _). bytes_left s)") (auto dest!: pb_readbyte_less [OF sym])

declare varint32_loop.simps [simp del]

text \<open>The second component is the value stored through \<^verbatim>\<open>eof\<close>, \<open>False\<close> where nothing is stored.\<close>

definition pb_decode_varint32_eof :: "pb_istream \<Rightarrow> u32 option \<times> bool \<times> pb_istream" where
  "pb_decode_varint32_eof s =
     (case pb_readbyte s of
        (None, s') \<Rightarrow> (None, bytes_left s' = 0, s')
      | (Some b, s') \<Rightarrow>
          (if b AND 0x80 = 0 then (Some (ucast b), False, s')
           else case varint32_loop s' 7 (ucast (b AND 0x7F)) of (r, s'') \<Rightarrow> (r, False, s'')))"

definition pb_decode_varint32 :: "pb_istream \<Rightarrow> u32 option \<times> pb_istream" where
  "pb_decode_varint32 s = (case pb_decode_varint32_eof s of (r, _, s') \<Rightarrow> (r, s'))"

function varint_loop :: "pb_istream \<Rightarrow> nat \<Rightarrow> u64 \<Rightarrow> u64 option \<times> pb_istream" where
  "varint_loop s bitpos result =
     (if bitpos \<ge> 64 then (None, pb_istream_error ''varint overflow'' s)
      else case pb_readbyte s of
        (None, s') \<Rightarrow> (None, s')
      | (Some b, s') \<Rightarrow>
          (let result' = result OR push_bit bitpos (ucast (b AND 0x7F));
               bitpos' = (bitpos + 7) mod 256 in
           if b AND 0x80 \<noteq> 0 then varint_loop s' bitpos' result' else (Some result', s')))"
  by pat_completeness auto
termination
  by (relation "measure (\<lambda>(s, _, _). bytes_left s)") (auto dest!: pb_readbyte_less [OF sym])

declare varint_loop.simps [simp del]

definition pb_decode_varint :: "pb_istream \<Rightarrow> u64 option \<times> pb_istream" where
  "pb_decode_varint s = varint_loop s 0 0"

section \<open>Tags and skipping\<close>

lemma pb_read_less: "pb_read s (Suc 0) = (True, bs, s') \<Longrightarrow> bytes_left s' < bytes_left s"
  by (auto simp: pb_read_def split: if_splits prod.splits)

function pb_skip_varint :: "pb_istream \<Rightarrow> bool \<times> pb_istream" where
  "pb_skip_varint s =
     (case pb_read s 1 of
        (False, _, s') \<Rightarrow> (False, s')
      | (True, bs, s') \<Rightarrow> (if hd bs AND 0x80 \<noteq> 0 then pb_skip_varint s' else (True, s')))"
  by pat_completeness auto
termination
  by (relation "measure bytes_left") (auto dest!: pb_read_less [OF sym])

declare pb_skip_varint.simps [simp del]

definition pb_skip_string :: "pb_istream \<Rightarrow> bool \<times> pb_istream" where
  "pb_skip_string s =
     (case pb_decode_varint32 s of
        (None, s') \<Rightarrow> (False, s')
      | (Some len, s') \<Rightarrow> pb_read_null s' (unat len))"

text \<open>
  \<^verbatim>\<open>pb_decode_tag\<close>: the result is \<open>(Some (wire_type, tag), eof, stream)\<close>, with \<open>None\<close> for the return value
  false.
\<close>

definition pb_decode_tag :: "pb_istream \<Rightarrow> (nat \<times> nat) option \<times> bool \<times> pb_istream" where
  "pb_decode_tag s =
     (case pb_decode_varint32_eof s of
        (None, eof, s') \<Rightarrow> (None, eof, s')
      | (Some temp, _, s') \<Rightarrow>
          (if temp = 0 then (None, True, s')
           else (Some (unat (temp AND 7), unat (drop_bit 3 temp)), False, s')))"

definition pb_skip_field :: "pb_istream \<Rightarrow> nat \<Rightarrow> bool \<times> pb_istream" where
  "pb_skip_field s wire_type =
     (if wire_type = PB_WT_VARINT then pb_skip_varint s
      else if wire_type = PB_WT_64BIT then pb_read_null s 8
      else if wire_type = PB_WT_STRING then pb_skip_string s
      else if wire_type = PB_WT_32BIT then pb_read_null s 4
      else (False, pb_istream_error ''invalid wire_type'' s))"

text \<open>\<^verbatim>\<open>read_raw_value\<close>: the bytes put into \<^verbatim>\<open>buf\<close>; \<open>max_size\<close> is the size of that buffer.\<close>

fun raw_varint :: "nat \<Rightarrow> pb_istream \<Rightarrow> bool \<times> byte list \<times> pb_istream" where
  "raw_varint 0 s = (False, [], s)"
| "raw_varint (Suc room) s =
     (case pb_read s 1 of
        (False, bs, s') \<Rightarrow> (False, bs, s')
      | (True, bs, s') \<Rightarrow>
          (if hd bs AND 0x80 \<noteq> 0
           then (case raw_varint room s' of (ok, cs, s'') \<Rightarrow> (ok, bs @ cs, s''))
           else (True, bs, s')))"

definition read_raw_value :: "pb_istream \<Rightarrow> nat \<Rightarrow> nat \<Rightarrow> bool \<times> byte list \<times> pb_istream" where
  "read_raw_value s wire_type max_size =
     (if wire_type = PB_WT_VARINT then raw_varint max_size s
      else if wire_type = PB_WT_64BIT then pb_read s 8
      else if wire_type = PB_WT_32BIT then pb_read s 4
      else (False, [], pb_istream_error ''invalid wire_type'' s))"

section \<open>Substreams\<close>

text \<open>The results are \<open>(Some substream, stream)\<close> and \<open>(ok, stream)\<close>.\<close>

definition pb_make_string_substream :: "pb_istream \<Rightarrow> pb_istream option \<times> pb_istream" where
  "pb_make_string_substream s =
     (case pb_decode_varint32 s of
        (None, s') \<Rightarrow> (None, s')
      | (Some sz, s') \<Rightarrow>
          (if bytes_left s' < unat sz then (None, pb_istream_error ''parent stream too short'' s')
           else (Some (s'\<lparr>bytes_left := unat sz\<rparr>), s'\<lparr>bytes_left := bytes_left s' - unat sz\<rparr>)))"

definition pb_close_string_substream :: "pb_istream \<Rightarrow> pb_istream \<Rightarrow> bool \<times> pb_istream" where
  "pb_close_string_substream s sub =
     (let (ok, sub') = (if bytes_left sub \<noteq> 0 then pb_read_null sub (bytes_left sub) else (True, sub)) in
      if \<not> ok then (False, s)
      else (True, s\<lparr>source := source sub', is_errmsg := is_errmsg sub'\<rparr>))"

section \<open>Values\<close>

definition pb_decode_svarint :: "pb_istream \<Rightarrow> int option \<times> pb_istream" where
  "pb_decode_svarint s =
     (case pb_decode_varint s of
        (None, s') \<Rightarrow> (None, s')
      | (Some v, s') \<Rightarrow>
          (if v AND 1 \<noteq> 0 then (Some (sint (NOT (drop_bit 1 v))), s')
           else (Some (sint (drop_bit 1 v)), s')))"

definition pb_decode_fixed32 :: "pb_istream \<Rightarrow> u32 option \<times> pb_istream" where
  "pb_decode_fixed32 s =
     (case pb_read s 4 of
        (False, _, s') \<Rightarrow> (None, s')
      | (True, bs, s') \<Rightarrow>
          (Some (push_bit 0 (ucast (bs ! 0)) OR push_bit 8 (ucast (bs ! 1)) OR
                 push_bit 16 (ucast (bs ! 2)) OR push_bit 24 (ucast (bs ! 3))), s'))"

definition pb_decode_fixed64 :: "pb_istream \<Rightarrow> u64 option \<times> pb_istream" where
  "pb_decode_fixed64 s =
     (case pb_read s 8 of
        (False, _, s') \<Rightarrow> (None, s')
      | (True, bs, s') \<Rightarrow>
          (Some (push_bit 0 (ucast (bs ! 0)) OR push_bit 8 (ucast (bs ! 1)) OR
                 push_bit 16 (ucast (bs ! 2)) OR push_bit 24 (ucast (bs ! 3)) OR
                 push_bit 32 (ucast (bs ! 4)) OR push_bit 40 (ucast (bs ! 5)) OR
                 push_bit 48 (ucast (bs ! 6)) OR push_bit 56 (ucast (bs ! 7))), s'))"

end
