(* ===== verification/PB_Ostream.thy ===== *)
theory PB_Ostream
  imports PB_Types
begin

text \<open>
  Output streams and the wire-level writers of \<^verbatim>\<open>nanopb/pb_encode.c\<close>. As for input streams, \<^verbatim>\<open>callback\<close> and
  \<^verbatim>\<open>state\<close> are one field: a null callback (a sizing stream), the buffer writer with everything it has
  written so far, or a writer of the application with its handle. \<^verbatim>\<open>size_t\<close> arithmetic is modulo \<open>2 ^ 64\<close>.
\<close>

section \<open>Streams\<close>

datatype ostream_sink =
  is_Sizing: Sizing
| Buffer_sink "byte list"
| Writer "nat \<Rightarrow> byte list \<Rightarrow> bool \<times> nat" nat

record pb_ostream =
  sink :: ostream_sink
  max_size :: nat
  bytes_written :: nat
  os_errmsg :: "string option"

definition pb_ostream_error :: "string \<Rightarrow> pb_ostream \<Rightarrow> pb_ostream" where
  "pb_ostream_error msg s =
     s\<lparr>os_errmsg := (case os_errmsg s of None \<Rightarrow> Some msg | Some e \<Rightarrow> Some e)\<rparr>"

definition buf_write :: "byte list \<Rightarrow> byte list \<Rightarrow> bool \<times> byte list" where
  "buf_write dest buf = (True, dest @ buf)"

definition pb_ostream_from_buffer :: "nat \<Rightarrow> pb_ostream" where
  "pb_ostream_from_buffer bufsize =
     \<lparr>sink = Buffer_sink [], max_size = bufsize, bytes_written = 0, os_errmsg = None\<rparr>"

definition PB_OSTREAM_SIZING :: pb_ostream where
  "PB_OSTREAM_SIZING = \<lparr>sink = Sizing, max_size = 0, bytes_written = 0, os_errmsg = None\<rparr>"

fun ostream_callback :: "ostream_sink \<Rightarrow> byte list \<Rightarrow> bool \<times> ostream_sink" where
  "ostream_callback Sizing buf = (True, Sizing)"
| "ostream_callback (Buffer_sink dest) buf =
     (case buf_write dest buf of (ok, dest') \<Rightarrow> (ok, Buffer_sink dest'))"
| "ostream_callback (Writer f st) buf = (case f st buf of (ok, st') \<Rightarrow> (ok, Writer f st'))"

text \<open>
  \<^verbatim>\<open>pb_write(stream, buf, count)\<close>. The buffer may be null (here: empty) when nothing is read from it,
  which is so for a sizing stream and for \<open>count = 0\<close>.
\<close>

definition pb_write :: "pb_ostream \<Rightarrow> byte list \<Rightarrow> nat \<Rightarrow> bool \<times> pb_ostream" where
  "pb_write s buf count =
     (if count > 0 \<and> \<not> is_Sizing (sink s) then
        (if (bytes_written s + count) mod SIZE_MOD < bytes_written s \<or>
            (bytes_written s + count) mod SIZE_MOD > max_size s
         then (False, pb_ostream_error ''stream full'' s)
         else case ostream_callback (sink s) (take count buf) of
           (ok, sink') \<Rightarrow>
             (if \<not> ok then (False, pb_ostream_error ''io error'' (s\<lparr>sink := sink'\<rparr>))
              else (True, s\<lparr>sink := sink', bytes_written := (bytes_written s + count) mod SIZE_MOD\<rparr>)))
      else (True, s\<lparr>bytes_written := (bytes_written s + count) mod SIZE_MOD\<rparr>))"

section \<open>Varints and fixed width values\<close>

text \<open>The loop of \<^verbatim>\<open>pb_encode_varint\<close> that fills \<^verbatim>\<open>buffer\<close>, and the buffer after its last byte is fixed up.\<close>

function varint_fill :: "u64 \<Rightarrow> byte list" where
  "varint_fill v =
     (if v \<noteq> 0 then (ucast (v AND 0x7F) OR 0x80) # varint_fill (drop_bit 7 v) else [])"
  by pat_completeness auto
termination
  by (relation "measure unat") (auto simp: drop_bit_7_less)

declare varint_fill.simps [simp del]

definition varint_buffer :: "u64 \<Rightarrow> byte list" where
  "varint_buffer v =
     (let buf = varint_fill v; i = length buf in buf[i - 1 := (buf ! (i - 1)) AND 0x7F])"

definition pb_encode_varint :: "pb_ostream \<Rightarrow> u64 \<Rightarrow> bool \<times> pb_ostream" where
  "pb_encode_varint s v =
     (if v \<le> 0x7F then pb_write s [ucast v] 1
      else pb_write s (varint_buffer v) (length (varint_buffer v)))"

definition zigzag :: "int \<Rightarrow> u64" where
  "zigzag v =
     (if v < 0 then NOT (push_bit 1 (word_of_int v)) else push_bit 1 (word_of_int v))"

definition pb_encode_svarint :: "pb_ostream \<Rightarrow> int \<Rightarrow> bool \<times> pb_ostream" where
  "pb_encode_svarint s v = pb_encode_varint s (zigzag v)"

definition fixed32_bytes :: "u32 \<Rightarrow> byte list" where
  "fixed32_bytes v =
     [ucast (v AND 0xFF), ucast (drop_bit 8 v AND 0xFF), ucast (drop_bit 16 v AND 0xFF),
      ucast (drop_bit 24 v AND 0xFF)]"

definition pb_encode_fixed32 :: "pb_ostream \<Rightarrow> u32 \<Rightarrow> bool \<times> pb_ostream" where
  "pb_encode_fixed32 s v = pb_write s (fixed32_bytes v) 4"

definition fixed64_bytes :: "u64 \<Rightarrow> byte list" where
  "fixed64_bytes v =
     [ucast (v AND 0xFF), ucast (drop_bit 8 v AND 0xFF), ucast (drop_bit 16 v AND 0xFF),
      ucast (drop_bit 24 v AND 0xFF), ucast (drop_bit 32 v AND 0xFF), ucast (drop_bit 40 v AND 0xFF),
      ucast (drop_bit 48 v AND 0xFF), ucast (drop_bit 56 v AND 0xFF)]"

definition pb_encode_fixed64 :: "pb_ostream \<Rightarrow> u64 \<Rightarrow> bool \<times> pb_ostream" where
  "pb_encode_fixed64 s v = pb_write s (fixed64_bytes v) 8"

section \<open>Tags and strings\<close>

definition pb_encode_tag :: "pb_ostream \<Rightarrow> nat \<Rightarrow> nat \<Rightarrow> bool \<times> pb_ostream" where
  "pb_encode_tag s wiretype field_number =
     pb_encode_varint s (push_bit 3 (of_nat field_number) OR of_nat wiretype)"

definition wiretype_of :: "byte \<Rightarrow> nat option" where
  "wiretype_of ty =
     (let l = PB_LTYPE ty in
      if l = PB_LTYPE_BOOL \<or> l = PB_LTYPE_VARINT \<or> l = PB_LTYPE_UVARINT \<or> l = PB_LTYPE_SVARINT
      then Some PB_WT_VARINT
      else if l = PB_LTYPE_FIXED32 then Some PB_WT_32BIT
      else if l = PB_LTYPE_FIXED64 then Some PB_WT_64BIT
      else if l = PB_LTYPE_BYTES \<or> l = PB_LTYPE_STRING \<or> l = PB_LTYPE_SUBMESSAGE \<or>
              l = PB_LTYPE_FIXED_LENGTH_BYTES
      then Some PB_WT_STRING
      else None)"

definition pb_encode_tag_for_field :: "pb_ostream \<Rightarrow> pb_field \<Rightarrow> bool \<times> pb_ostream" where
  "pb_encode_tag_for_field s f =
     (case wiretype_of (ftype f) of
        None \<Rightarrow> (False, pb_ostream_error ''invalid field type'' s)
      | Some wt \<Rightarrow> pb_encode_tag s wt (tag f))"

definition pb_encode_string :: "pb_ostream \<Rightarrow> byte list \<Rightarrow> nat \<Rightarrow> bool \<times> pb_ostream" where
  "pb_encode_string s buf sz =
     (case pb_encode_varint s (of_nat sz) of
        (False, s') \<Rightarrow> (False, s')
      | (True, s') \<Rightarrow> pb_write s' buf sz)"

end
