(* ===== verification/PB_Env.thy ===== *)
theory PB_Env
  imports PB_Istream PB_Ostream
begin

text \<open>
  What the library calls but does not define: the callback functions of the application and the
  extension types. Function pointers are numbers, resolved here; \<^verbatim>\<open>pb_extension_type_t\<close> constants are
  resolved by their address. A decoding callback gets the substream, the field and the address of its
  argument and may change the stream and the memory; an encoding callback gets the output stream, the
  field, the address of its argument and the memory it may read.
\<close>

record pb_extension_type =
  ext_decode :: "(pb_istream \<Rightarrow> addr \<Rightarrow> nat \<Rightarrow> nat \<Rightarrow> cmem \<Rightarrow> bool \<times> pb_istream \<times> cmem) option"
  ext_encode :: "(pb_ostream \<Rightarrow> addr \<Rightarrow> cmem \<Rightarrow> bool \<times> pb_ostream) option"
  ext_arg :: pb_field

record pb_env =
  env_decode :: "nat \<Rightarrow> pb_istream \<Rightarrow> pb_field \<Rightarrow> addr \<Rightarrow> cmem \<Rightarrow> bool \<times> pb_istream \<times> cmem"
  env_encode :: "nat \<Rightarrow> pb_ostream \<Rightarrow> pb_field \<Rightarrow> addr \<Rightarrow> cmem \<Rightarrow> bool \<times> pb_ostream"
  env_extension :: "addr \<Rightarrow> pb_extension_type"

text \<open>The descriptor behind a \<^verbatim>\<open>pb_extension_t *\<close>: \<^verbatim>\<open>(const pb_field_t*)extension->type->arg\<close>.\<close>

definition extension_type_of :: "pb_env \<Rightarrow> cmem \<Rightarrow> addr \<Rightarrow> pb_extension_type" where
  "extension_type_of env m ext = env_extension env (load_ptr m (extension_type ext))"

definition extension_field :: "pb_env \<Rightarrow> cmem \<Rightarrow> addr \<Rightarrow> pb_field" where
  "extension_field env m ext = ext_arg (extension_type_of env m ext)"

text \<open>A signed integer of \<open>n\<close> bytes in memory.\<close>

definition load_signed :: "nat \<Rightarrow> cmem \<Rightarrow> addr \<Rightarrow> int" where
  "load_signed n m a = signed_take_bit (8 * n - 1) (int (load n m a))"

text \<open>\<^verbatim>\<open>sizeof\<close> of the integer types a varint field may have in its struct: 1, 2, 4 or 8 bytes.\<close>

definition int_size :: "nat \<Rightarrow> bool" where
  "int_size n \<longleftrightarrow> n = 1 \<or> n = 2 \<or> n = 4 \<or> n = 8"

end
