(* ===== verification/PB_Encode.thy ===== *)
theory PB_Encode
  imports PB_Common PB_Env
begin

text \<open>
  \<^verbatim>\<open>nanopb/pb_encode.c\<close>: the field encoders and \<^verbatim>\<open>pb_encode\<close>. The encoder reads the message struct from
  memory and writes to an output stream. Submessages make \<^verbatim>\<open>pb_encode\<close> recursive; the functions on the
  recursion path take the recursive call as their first argument \<open>enc\<close>, and \<open>pb_encode\<close> closes the
  knot over the nesting depth. A result \<open>None\<close> means that the call does not return: the depth is used
  up, a null function pointer is called, or an extension list is cyclic.
\<close>

type_synonym enc_result = "(bool \<times> pb_ostream) option"
type_synonym msg_encoder = "pb_ostream \<Rightarrow> pb_field list \<Rightarrow> addr \<Rightarrow> cmem \<Rightarrow> enc_result"

section \<open>Encoders for single values\<close>

definition safe_read_bool :: "cmem \<Rightarrow> addr \<Rightarrow> bool" where
  "safe_read_bool m p = list_ex (\<lambda>b. b \<noteq> 0) (load_bytes m p 1)"

definition pb_enc_bool :: "pb_ostream \<Rightarrow> pb_field \<Rightarrow> addr \<Rightarrow> cmem \<Rightarrow> bool \<times> pb_ostream" where
  "pb_enc_bool s f src m = pb_encode_varint s (if safe_read_bool m src then 1 else 0)"

definition pb_enc_varint :: "pb_ostream \<Rightarrow> pb_field \<Rightarrow> addr \<Rightarrow> cmem \<Rightarrow> bool \<times> pb_ostream" where
  "pb_enc_varint s f src m =
     (if int_size (data_size f)
      then pb_encode_varint s (word_of_int (load_signed (data_size f) m src))
      else (False, pb_ostream_error ''invalid data_size'' s))"

definition pb_enc_uvarint :: "pb_ostream \<Rightarrow> pb_field \<Rightarrow> addr \<Rightarrow> cmem \<Rightarrow> bool \<times> pb_ostream" where
  "pb_enc_uvarint s f src m =
     (if int_size (data_size f)
      then pb_encode_varint s (of_nat (load (data_size f) m src))
      else (False, pb_ostream_error ''invalid data_size'' s))"

definition pb_enc_svarint :: "pb_ostream \<Rightarrow> pb_field \<Rightarrow> addr \<Rightarrow> cmem \<Rightarrow> bool \<times> pb_ostream" where
  "pb_enc_svarint s f src m =
     (if int_size (data_size f)
      then pb_encode_svarint s (load_signed (data_size f) m src)
      else (False, pb_ostream_error ''invalid data_size'' s))"

definition pb_enc_fixed32 :: "pb_ostream \<Rightarrow> pb_field \<Rightarrow> addr \<Rightarrow> cmem \<Rightarrow> bool \<times> pb_ostream" where
  "pb_enc_fixed32 s f src m = pb_encode_fixed32 s (of_nat (load 4 m src))"

definition pb_enc_fixed64 :: "pb_ostream \<Rightarrow> pb_field \<Rightarrow> addr \<Rightarrow> cmem \<Rightarrow> bool \<times> pb_ostream" where
  "pb_enc_fixed64 s f src m = pb_encode_fixed64 s (of_nat (load 8 m src))"

definition pb_enc_bytes :: "pb_ostream \<Rightarrow> pb_field \<Rightarrow> addr \<Rightarrow> cmem \<Rightarrow> bool \<times> pb_ostream" where
  "pb_enc_bytes s f src m =
     (if src = 0 then pb_encode_string s [] 0
      else
        let sz = load 4 m src; allocsize = PB_BYTES_ARRAY_T_ALLOCSIZE sz in
        if allocsize < sz \<or> (PB_ATYPE (ftype f) = PB_ATYPE_STATIC \<and> allocsize > data_size f)
        then (False, pb_ostream_error ''bytes size exceeded'' s)
        else pb_encode_string s (load_bytes m (src + 4) sz) sz)"

text \<open>The loop of \<^verbatim>\<open>pb_enc_string\<close> that measures the string.\<close>

function c_strnlen :: "cmem \<Rightarrow> addr \<Rightarrow> nat \<Rightarrow> nat" where
  "c_strnlen m p max_sz =
     (if 0 < max_sz \<and> bytes m p \<noteq> 0 then Suc (c_strnlen m (p + 1) (max_sz - 1)) else 0)"
  by pat_completeness auto
termination
  by (relation "measure (\<lambda>(m, p, max_sz). max_sz)") auto

declare c_strnlen.simps [simp del]

definition pb_enc_string :: "pb_ostream \<Rightarrow> pb_field \<Rightarrow> addr \<Rightarrow> cmem \<Rightarrow> bool \<times> pb_ostream" where
  "pb_enc_string s f src m =
     (let max_sz = (if PB_ATYPE (ftype f) = PB_ATYPE_POINTER then SIZE_MOD - 1 else data_size f);
          sz = (if src = 0 then 0 else c_strnlen m src max_sz) in
      pb_encode_string s (load_bytes m src sz) sz)"

definition pb_enc_fixed_length_bytes :: "pb_ostream \<Rightarrow> pb_field \<Rightarrow> addr \<Rightarrow> cmem \<Rightarrow> bool \<times> pb_ostream" where
  "pb_enc_fixed_length_bytes s f src m = pb_encode_string s (load_bytes m src (data_size f)) (data_size f)"

section \<open>Submessages\<close>

definition pb_encode_submessage :: "msg_encoder \<Rightarrow> msg_encoder" where
  "pb_encode_submessage enc s fs src m =
     do {
       (ok, sub) \<leftarrow> enc PB_OSTREAM_SIZING fs src m;
       if \<not> ok then Some (False, s\<lparr>os_errmsg := os_errmsg sub\<rparr>)
       else
         let size = bytes_written sub in
         case pb_encode_varint s (of_nat size) of
           (False, s1) \<Rightarrow> Some (False, s1)
         | (True, s1) \<Rightarrow>
             if is_Sizing (sink s1) then Some (pb_write s1 [] size)
             else if (bytes_written s1 + size) mod SIZE_MOD > max_size s1
             then Some (False, pb_ostream_error ''stream full'' s1)
             else
               do {
                 (status, sub2) \<leftarrow>
                   enc \<lparr>sink = sink s1, max_size = size, bytes_written = 0, os_errmsg = None\<rparr> fs src m;
                 let s2 = s1\<lparr>bytes_written := (bytes_written s1 + bytes_written sub2) mod SIZE_MOD,
                             sink := sink sub2, os_errmsg := os_errmsg sub2\<rparr>;
                 if bytes_written sub2 \<noteq> size
                 then Some (False, pb_ostream_error ''submsg size changed'' s2)
                 else Some (status, s2)
               }
     }"

definition pb_enc_submessage ::
  "msg_encoder \<Rightarrow> pb_ostream \<Rightarrow> pb_field \<Rightarrow> addr \<Rightarrow> cmem \<Rightarrow> enc_result" where
  "pb_enc_submessage enc s f src m =
     (case fptr f of
        Null_ptr \<Rightarrow> Some (False, pb_ostream_error ''invalid field descriptor'' s)
      | Submsg_fields fs \<Rightarrow> pb_encode_submessage enc s fs src m
      | Default_value _ \<Rightarrow> None)"

text \<open>The table \<^verbatim>\<open>PB_ENCODERS\<close>; its entry for extensions is a null pointer.\<close>

definition PB_ENCODERS ::
  "msg_encoder \<Rightarrow> byte \<Rightarrow> pb_ostream \<Rightarrow> pb_field \<Rightarrow> addr \<Rightarrow> cmem \<Rightarrow> enc_result" where
  "PB_ENCODERS enc l s f src m =
     (if l = PB_LTYPE_BOOL then Some (pb_enc_bool s f src m)
      else if l = PB_LTYPE_VARINT then Some (pb_enc_varint s f src m)
      else if l = PB_LTYPE_UVARINT then Some (pb_enc_uvarint s f src m)
      else if l = PB_LTYPE_SVARINT then Some (pb_enc_svarint s f src m)
      else if l = PB_LTYPE_FIXED32 then Some (pb_enc_fixed32 s f src m)
      else if l = PB_LTYPE_FIXED64 then Some (pb_enc_fixed64 s f src m)
      else if l = PB_LTYPE_BYTES then Some (pb_enc_bytes s f src m)
      else if l = PB_LTYPE_STRING then Some (pb_enc_string s f src m)
      else if l = PB_LTYPE_SUBMESSAGE then pb_enc_submessage enc s f src m
      else if l = PB_LTYPE_FIXED_LENGTH_BYTES then Some (pb_enc_fixed_length_bytes s f src m)
      else None)"

section \<open>Arrays\<close>

text \<open>The three loops of \<^verbatim>\<open>encode_array\<close>: one call of \<open>g\<close> per entry, \<open>p\<close> moving by the entry size.\<close>

fun encode_items ::
  "(pb_ostream \<Rightarrow> addr \<Rightarrow> enc_result) \<Rightarrow> nat \<Rightarrow> nat \<Rightarrow> addr \<Rightarrow> pb_ostream \<Rightarrow> enc_result" where
  "encode_items g step 0 p s = Some (True, s)"
| "encode_items g step (Suc n) p s =
     do {
       (ok, s') \<leftarrow> g s p;
       if \<not> ok then Some (False, s') else encode_items g step n (p + step) s'
     }"

definition encode_array ::
  "(pb_ostream \<Rightarrow> pb_field \<Rightarrow> addr \<Rightarrow> cmem \<Rightarrow> enc_result) \<Rightarrow> pb_ostream \<Rightarrow> pb_field \<Rightarrow> addr \<Rightarrow> nat \<Rightarrow>
     cmem \<Rightarrow> enc_result" where
  "encode_array func s f p count m =
     (let a = PB_ATYPE (ftype f); l = PB_LTYPE (ftype f) in
      if count = 0 then Some (True, s)
      else if a \<noteq> PB_ATYPE_POINTER \<and> count > array_size f
      then Some (False, pb_ostream_error ''array max size exceeded'' s)
      else if l \<le> PB_LTYPE_LAST_PACKABLE then
        (case pb_encode_tag s PB_WT_STRING (tag f) of
           (False, s1) \<Rightarrow> Some (False, s1)
         | (True, s1) \<Rightarrow>
             do {
               (ok, size) \<leftarrow>
                 (if l = PB_LTYPE_FIXED32 then Some (True, 4 * count)
                  else if l = PB_LTYPE_FIXED64 then Some (True, 8 * count)
                  else do {
                    (ok, sizestream) \<leftarrow>
                      encode_items (\<lambda>s p. func s f p m) (data_size f) count p PB_OSTREAM_SIZING;
                    Some (ok, bytes_written sizestream)
                  });
               if \<not> ok then Some (False, s1)
               else
                 case pb_encode_varint s1 (of_nat size) of
                   (False, s2) \<Rightarrow> Some (False, s2)
                 | (True, s2) \<Rightarrow>
                     if is_Sizing (sink s2) then Some (pb_write s2 [] size)
                     else encode_items (\<lambda>s p. func s f p m) (data_size f) count p s2
             })
      else
        encode_items
          (\<lambda>s p. case pb_encode_tag_for_field s f of
                   (False, s1) \<Rightarrow> Some (False, s1)
                 | (True, s1) \<Rightarrow>
                     if a = PB_ATYPE_POINTER \<and> (l = PB_LTYPE_STRING \<or> l = PB_LTYPE_BYTES)
                     then func s1 f (load_ptr m p) m
                     else func s1 f p m)
          (data_size f) count p s)"

section \<open>Default values of proto3 fields\<close>

lemma submsg_size:
  "f' \<in> set fs \<Longrightarrow> fptr f = Submsg_fields fs \<Longrightarrow> size f' < size f"
proof -
  assume f': "f' \<in> set fs" and f: "fptr f = Submsg_fields fs"
  have "size f' \<le> size_list size fs" using f' by (rule size_list_estimation') simp
  also have "\<dots> < size (fptr f)" using f by simp
  also have "\<dots> < size f" by (cases f) simp
  finally show ?thesis .
qed

text \<open>\<^verbatim>\<open>pb_check_proto3_default_value\<close>: whether a field without a presence flag has its zero value.\<close>

function pb_check_proto3_default_value :: "cmem \<Rightarrow> pb_field \<Rightarrow> addr \<Rightarrow> bool" where
  "pb_check_proto3_default_value m f p =
     (let ty = ftype f; h = PB_HTYPE ty; a = PB_ATYPE ty; l = PB_LTYPE ty;
          psize = ptr_add p (size_offset f);
          all_zero = list_all (\<lambda>b. b = 0) (load_bytes m p (data_size f)) in
      if h = PB_HTYPE_REQUIRED then False
      else if h = PB_HTYPE_REPEATED \<and> size_offset f \<noteq> 0 then load 4 m psize = 0
      else if h = PB_HTYPE_REPEATED \<and> a = PB_ATYPE_STATIC then False
      else if h = PB_HTYPE_ONEOF then load 4 m psize = 0
      else if h = PB_HTYPE_OPTIONAL \<and> size_offset f \<noteq> 0 then \<not> safe_read_bool m psize
      else if a = PB_ATYPE_STATIC \<and> l = PB_LTYPE_BYTES then load 4 m p = 0
      else if a = PB_ATYPE_STATIC \<and> l = PB_LTYPE_STRING then bytes m p = 0
      else if a = PB_ATYPE_STATIC \<and> l = PB_LTYPE_FIXED_LENGTH_BYTES then data_size f = 0
      else if a = PB_ATYPE_STATIC \<and> l = PB_LTYPE_SUBMESSAGE then
        (case fptr f of
           Submsg_fields fs \<Rightarrow>
             list_all (\<lambda>it. pb_check_proto3_default_value m (cur it) (pData it)) (pb_fields_walk fs p)
         | _ \<Rightarrow> True)
      else if a = PB_ATYPE_POINTER \<and> l > PB_LTYPE_LAST_PACKABLE then load_ptr m p = 0
      else all_zero)"
  by pat_completeness auto
termination
  by (relation "measure (\<lambda>(m, f, p). size f)") (auto dest!: pb_fields_walk_field intro: submsg_size)

declare pb_check_proto3_default_value.simps [simp del]

section \<open>Single fields\<close>

definition encode_basic_field ::
  "msg_encoder \<Rightarrow> pb_ostream \<Rightarrow> pb_field \<Rightarrow> addr \<Rightarrow> cmem \<Rightarrow> enc_result" where
  "encode_basic_field enc s f pdata m =
     (let ty = ftype f; h = PB_HTYPE ty;
          func = PB_ENCODERS enc (PB_LTYPE ty);
          psize = ptr_add pdata (size_offset f);
          implicit_has0 =
            (if size_offset f = 0 \<and> h = PB_HTYPE_OPTIONAL
             then \<not> pb_check_proto3_default_value m f pdata else True);
          p = (if PB_ATYPE ty = PB_ATYPE_POINTER then load_ptr m pdata else pdata);
          implicit_has = (if PB_ATYPE ty = PB_ATYPE_POINTER then p \<noteq> 0 else implicit_has0);
          tag_and_value =
            (case pb_encode_tag_for_field s f of
               (False, s1) \<Rightarrow> Some (False, s1)
             | (True, s1) \<Rightarrow> func s1 f p m) in
      if h = PB_HTYPE_REQUIRED then
        (if p = 0 then Some (False, pb_ostream_error ''missing required field'' s) else tag_and_value)
      else if h = PB_HTYPE_OPTIONAL then
        (if (if size_offset f \<noteq> 0 then safe_read_bool m psize else implicit_has)
         then tag_and_value else Some (True, s))
      else if h = PB_HTYPE_REPEATED then
        encode_array func s f p (if size_offset f \<noteq> 0 then load 4 m psize else array_size f) m
      else if h = PB_HTYPE_ONEOF then
        (if (if size_offset f \<noteq> 0 then load 4 m psize else of_bool implicit_has) = tag f
         then tag_and_value else Some (True, s))
      else Some (False, pb_ostream_error ''invalid field type'' s))"

definition encode_callback_field ::
  "pb_env \<Rightarrow> pb_ostream \<Rightarrow> pb_field \<Rightarrow> addr \<Rightarrow> cmem \<Rightarrow> bool \<times> pb_ostream" where
  "encode_callback_field env s f pdata m =
     (let fn = load_ptr m (callback_funcs pdata) in
      if fn \<noteq> 0 then
        (case env_encode env fn s f (callback_arg pdata) m of
           (False, s') \<Rightarrow> (False, pb_ostream_error ''callback error'' s')
         | (True, s') \<Rightarrow> (True, s'))
      else (True, s))"

definition encode_field ::
  "msg_encoder \<Rightarrow> pb_env \<Rightarrow> pb_ostream \<Rightarrow> pb_field \<Rightarrow> addr \<Rightarrow> cmem \<Rightarrow> enc_result" where
  "encode_field enc env s f pdata m =
     (let a = PB_ATYPE (ftype f) in
      if a = PB_ATYPE_STATIC \<or> a = PB_ATYPE_POINTER then encode_basic_field enc s f pdata m
      else if a = PB_ATYPE_CALLBACK then Some (encode_callback_field env s f pdata m)
      else Some (False, pb_ostream_error ''invalid field type'' s))"

definition default_extension_encoder ::
  "msg_encoder \<Rightarrow> pb_env \<Rightarrow> pb_ostream \<Rightarrow> addr \<Rightarrow> cmem \<Rightarrow> enc_result" where
  "default_extension_encoder enc env s ext m =
     (let f = extension_field env m ext in
      if PB_ATYPE (ftype f) = PB_ATYPE_POINTER then encode_field enc env s f (extension_dest ext) m
      else encode_field enc env s f (load_ptr m (extension_dest ext)) m)"

partial_function (option) encode_extensions ::
  "msg_encoder \<Rightarrow> pb_env \<Rightarrow> pb_ostream \<Rightarrow> addr \<Rightarrow> cmem \<Rightarrow> enc_result" where
  [code]: "encode_extensions enc env s ext m =
     (if ext = 0 then Some (True, s)
      else
        do {
          (ok, s') \<leftarrow>
            (case ext_encode (extension_type_of env m ext) of
               Some g \<Rightarrow> Some (g s ext m)
             | None \<Rightarrow> default_extension_encoder enc env s ext m);
          if \<not> ok then Some (False, s')
          else encode_extensions enc env s' (load_ptr m (extension_next ext)) m
        })"

definition encode_extension_field ::
  "msg_encoder \<Rightarrow> pb_env \<Rightarrow> pb_ostream \<Rightarrow> addr \<Rightarrow> cmem \<Rightarrow> enc_result" where
  "encode_extension_field enc env s pdata m = encode_extensions enc env s (load_ptr m pdata) m"

section \<open>Messages\<close>

fun encode_fields ::
  "(pb_ostream \<Rightarrow> pb_field_iter \<Rightarrow> enc_result) \<Rightarrow> pb_field_iter list \<Rightarrow> pb_ostream \<Rightarrow> enc_result" where
  "encode_fields g [] s = Some (True, s)"
| "encode_fields g (it # its) s =
     do {
       (ok, s') \<leftarrow> g s it;
       if \<not> ok then Some (False, s') else encode_fields g its s'
     }"

definition encode_iter ::
  "msg_encoder \<Rightarrow> pb_env \<Rightarrow> cmem \<Rightarrow> pb_ostream \<Rightarrow> pb_field_iter \<Rightarrow> enc_result" where
  "encode_iter enc env m s it =
     (if PB_LTYPE (ftype (cur it)) = PB_LTYPE_EXTENSION
      then encode_extension_field enc env s (pData it) m
      else encode_field enc env s (cur it) (pData it) m)"

primrec pb_encode :: "nat \<Rightarrow> pb_env \<Rightarrow> msg_encoder" where
  "pb_encode 0 env s fs src m = None"
| "pb_encode (Suc depth) env s fs src m =
     encode_fields (encode_iter (pb_encode depth env) env m) (pb_fields_walk fs src) s"

definition pb_encode_delimited :: "nat \<Rightarrow> pb_env \<Rightarrow> msg_encoder" where
  "pb_encode_delimited depth env s fs src m = pb_encode_submessage (pb_encode depth env) s fs src m"

definition pb_encode_nullterminated :: "nat \<Rightarrow> pb_env \<Rightarrow> msg_encoder" where
  "pb_encode_nullterminated depth env s fs src m =
     do {
       (ok, s') \<leftarrow> pb_encode depth env s fs src m;
       if \<not> ok then Some (False, s') else Some (pb_write s' [0] 1)
     }"

text \<open>The result of \<^verbatim>\<open>pb_get_encoded_size\<close>: the return value and the value stored through \<^verbatim>\<open>size\<close>.\<close>

definition pb_get_encoded_size :: "nat \<Rightarrow> pb_env \<Rightarrow> pb_field list \<Rightarrow> addr \<Rightarrow> cmem \<Rightarrow> nat option option" where
  "pb_get_encoded_size depth env fs src m =
     do {
       (ok, s) \<leftarrow> pb_encode depth env PB_OSTREAM_SIZING fs src m;
       if \<not> ok then Some None else Some (Some (bytes_written s))
     }"

end
