(* ===== verification/Leb128.thy ===== *)
theory Leb128
  imports Prelude
begin

unbundle bit_operations_syntax

text \<open>
  The base-128 encoding of natural numbers that protocol buffers and LevelDB both use for varints, as a
  reference definition, and the facts on bytes that relate the shift and mask loops of either library to
  it.
\<close>

section \<open>Reference encoding\<close>

fun leb128 :: "nat \<Rightarrow> byte list" where
  "leb128 n = (if n < 128 then [of_nat n] else of_nat (n mod 128 + 128) # leb128 (n div 128))"

declare leb128.simps [simp del]

fun leb_val :: "byte list \<Rightarrow> nat" where
  "leb_val [] = 0"
| "leb_val (b # bs) = unat b mod 128 + 128 * leb_val bs"

lemma leb_val_leb128: "leb_val (leb128 n) = n"
proof (induction n rule: leb128.induct)
  case (1 n)
  show ?case
  proof (cases "n < 128")
    case True
    then show ?thesis by (simp add: leb128.simps unat_of_nat_byte)
  next
    case False
    have "unat (of_nat (n mod 128 + 128) :: byte) = n mod 128 + 128"
      unfolding unat_of_nat_byte by simp
    with 1 [OF False] False show ?thesis
      by (subst leb128.simps) (simp add: mod_simps)
  qed
qed

lemma length_leb128: "n < 128 ^ k \<Longrightarrow> 0 < k \<Longrightarrow> length (leb128 n) \<le> k"
proof (induction k arbitrary: n)
  case (Suc k)
  show ?case
  proof (cases "n < 128")
    case True
    then show ?thesis by (simp add: leb128.simps)
  next
    case False
    have k: "0 < k" using False Suc.prems by (cases k) auto
    have "n div 128 < 128 ^ k" using Suc.prems by (simp add: less_mult_imp_div_less mult.commute)
    with Suc.IH [of "n div 128"] k False show ?thesis by (subst leb128.simps) simp
  qed
qed simp

lemma leb128_nonempty [simp]: "leb128 n \<noteq> []"
  by (subst leb128.simps) simp

section \<open>Digits\<close>

lemma low_seven: "ucast (v AND 0x7F) = (of_nat (unat v mod 128) :: byte)" for v :: "'a::len word"
proof -
  have "v AND 0x7F = take_bit 7 v" by (simp add: take_bit_eq_mask mask_eq_exp_minus_1)
  then have "unat (v AND 0x7F) = unat v mod 128" by (simp add: unsigned_take_bit_eq take_bit_eq_mod [of 7 "unat v"])
  then show ?thesis by (metis of_nat_unat)
qed

lemma high_bit: "k < 128 \<Longrightarrow> of_nat k OR 0x80 = (of_nat (k + 128) :: byte)"
proof -
  assume k: "k < 128"
  then have "take_bit 7 k = k" by (simp add: take_bit_eq_mod)
  then have "\<not> bit k 7" by (metis bit_take_bit_iff less_irrefl)
  then have "of_nat k + (0x80 :: byte) = of_nat k OR 0x80"
    by (intro disjunctive_add_eq_or) (simp add: byte_eq_iff bit_simps)
  then show ?thesis by simp
qed

lemma byte_low_seven: "(ucast (b AND 0x7F) :: 'a::len word) = of_nat (unat b mod 128)" for b :: byte
proof -
  have "b AND 0x7F = take_bit 7 b" by (simp add: take_bit_eq_mask mask_eq_exp_minus_1)
  then have "unat (b AND 0x7F) = unat b mod 128" by (simp add: take_bit_eq_mod unat_mod)
  then show ?thesis by (metis of_nat_unat)
qed

lemma byte_continues: "b AND 0x80 = 0 \<longleftrightarrow> unat b < 128" for b :: byte
proof -
  have "b AND 0x80 = 0 \<longleftrightarrow> \<not> bit b 7" by (simp add: byte_eq_iff bit_simps)
  also have "\<dots> \<longleftrightarrow> \<not> bit (unat b) 7" by (simp add: bit_unsigned_iff)
  also have "\<dots> \<longleftrightarrow> \<not> odd (unat b div 128)" by (simp add: bit_iff_odd)
  also have "\<dots> \<longleftrightarrow> unat b < 128"
  proof (cases "unat b < 128")
    case False
    then have "unat b div 128 = 1" using unat_byte_bound [of b] by (intro div_nat_eqI) simp_all
    with False show ?thesis by simp
  qed simp
  finally show ?thesis .
qed

lemma or_push_digit:
  "(r OR push_bit b (of_nat (n mod 128))) OR push_bit (b + 7) (of_nat (n div 128)) =
   (r OR push_bit b (of_nat n) :: 'a::len word)"
proof -
  have "(of_nat n :: 'a word) = of_nat (take_bit 7 n) OR push_bit 7 (of_nat (drop_bit 7 n))"
    by (rule bit_word_eqI) (auto simp: bit_simps)
  also have "take_bit 7 n = n mod 128" by (simp add: take_bit_eq_mod)
  also have "drop_bit 7 n = n div 128" by (simp add: drop_bit_eq_div)
  finally have "push_bit b (of_nat n :: 'a word) =
      push_bit b (of_nat (n mod 128)) OR push_bit (b + 7) (of_nat (n div 128))"
    by (simp only: push_bit_or push_bit_push_bit)
  then show ?thesis by (simp only: or.assoc)
qed

section \<open>Steps of the encoding\<close>

lemma leb128_small: "n < 128 \<Longrightarrow> leb128 n = [of_nat n]"
  by (simp add: leb128.simps)

lemma leb128_large: "\<not> n < 128 \<Longrightarrow> leb128 n = of_nat (n mod 128 + 128) # leb128 (n div 128)"
  by (subst leb128.simps) simp

lemma unat_continue: "n < 128 \<Longrightarrow> unat (of_nat (n + 128) :: byte) = n + 128"
  by (simp add: unat_of_nat_byte del: of_nat_add)

lemma seven_more_bits:
  fixes n :: nat
  assumes "n < 2 ^ (w - bitpos)" "\<not> n < 128"
  shows "bitpos + 7 < w" "n div 128 < 2 ^ (w - (bitpos + 7))"
proof -
  show b: "bitpos + 7 < w"
  proof (rule ccontr)
    assume "\<not> bitpos + 7 < w"
    then have "(2::nat) ^ (w - bitpos) \<le> 2 ^ 7" by (intro power_increasing) auto
    with assms show False by simp
  qed
  have "(2::nat) ^ (w - bitpos) = 2 ^ (w - (bitpos + 7)) * 128"
    using b power_add [of "2::nat" "w - (bitpos + 7)" 7] by simp
  with assms(1) show "n div 128 < 2 ^ (w - (bitpos + 7))" by (simp add: less_mult_imp_div_less)
qed

end
