(* ===== verification/PB_Wire.thy ===== *)
theory PB_Wire
  imports PB_Istream PB_Ostream Leb128
begin

unbundle bit_operations_syntax

text \<open>
  What the two stream theories say about the bytes on the wire. Varints are compared with a reference
  encoding on natural numbers (\<open>leb128\<close> of theory \<open>Leb128\<close>). A writer and the reader that undoes it form a \<open>wire_codec\<close>; the
  locale carries the round trip from single values to sequences of values and is interpreted for
  varints, zigzag varints, both fixed widths and tags. Length-delimited values come with the
  substreams the decoder opens on them.
\<close>

section \<open>What the encoder writes\<close>

definition varint_wire :: "u64 \<Rightarrow> byte list" where
  "varint_wire v = (if v \<le> 0x7F then [ucast v] else varint_buffer v)"

lemma pb_encode_varint_wire: "pb_encode_varint s v = pb_write s (varint_wire v) (length (varint_wire v))"
  by (simp add: pb_encode_varint_def varint_wire_def)

lemma varint_fill_eq_Nil: "varint_fill v = [] \<longleftrightarrow> v = 0"
  by (subst varint_fill.simps) simp

lemma varint_buffer_step:
  assumes "v \<noteq> 0"
  shows "varint_buffer v =
     (if drop_bit 7 v = 0 then [ucast (v AND 0x7F)]
      else (ucast (v AND 0x7F) OR 0x80) # varint_buffer (drop_bit 7 v))"
proof (cases "drop_bit 7 v = 0")
  case True
  have "(ucast (v AND 0x7F) OR 0x80) AND 0x7F = (ucast (v AND 0x7F) :: byte)"
    by (simp add: byte_eq_iff bit_simps)
  with True assms show ?thesis
    by (simp add: varint_buffer_def varint_fill.simps [of v] varint_fill.simps [of 0])
next
  case False
  then obtain b bs where "varint_fill (drop_bit 7 v) = b # bs"
    by (cases "varint_fill (drop_bit 7 v)") (simp_all add: varint_fill_eq_Nil)
  with False assms show ?thesis by (simp add: varint_buffer_def varint_fill.simps [of v] Let_def)
qed

lemma varint_buffer_leb128: "v \<noteq> 0 \<Longrightarrow> varint_buffer v = leb128 (unat v)"
proof (induction v rule: varint_fill.induct)
  case (1 v)
  let ?n = "unat v"
  have d: "unat (drop_bit 7 v) = ?n div 128" by (simp add: drop_bit_eq_div unat_div)
  then have z: "drop_bit 7 v = 0 \<longleftrightarrow> ?n < 128" by (simp add: word_unat_eq_iff div_eq_0_iff)
  note low = low_seven [of v]
  show ?case
  proof (cases "?n < 128")
    case True
    with z low 1(2) show ?thesis by (simp add: varint_buffer_step leb128.simps)
  next
    case False
    with z low 1 d high_bit [of "?n mod 128"] show ?thesis
      by (subst leb128.simps) (simp add: varint_buffer_step)
  qed
qed


lemma varint_wire_leb128: "varint_wire v = leb128 (unat v)"
proof (cases "v \<le> 0x7F")
  case True
  then have "unat v < 128" by (simp add: word_le_nat_alt)
  with True show ?thesis
    by (simp add: varint_wire_def leb128.simps word_unat_eq_iff unat_of_nat_byte unsigned_ucast_eq take_bit_eq_mod)
next
  case False
  then show ?thesis by (cases "v = 0") (simp_all add: varint_wire_def varint_buffer_leb128)
qed

lemma length_varint_wire: "length (varint_wire v) \<le> 10" "0 < length (varint_wire v)"
proof -
  have "unat v < 128 ^ 10" using unsigned_less [of v, where ?'a = nat] by simp
  then show "length (varint_wire v) \<le> 10" by (simp add: varint_wire_leb128 length_leb128)
qed (simp add: varint_wire_leb128)

section \<open>Buffer streams\<close>

definition buf_stream :: "byte list \<Rightarrow> nat \<Rightarrow> string option \<Rightarrow> pb_istream" where
  "buf_stream src n e = \<lparr>source = Buffer src, bytes_left = n, is_errmsg = e\<rparr>"

lemma buf_stream_simps [simp]:
  "source (buf_stream src n e) = Buffer src" "bytes_left (buf_stream src n e) = n"
  "is_errmsg (buf_stream src n e) = e"
  by (simp_all add: buf_stream_def)

lemma pb_istream_from_buffer_eq: "pb_istream_from_buffer src n = buf_stream src n None"
  by (simp add: pb_istream_from_buffer_def buf_stream_def)

lemma pb_readbyte_buf [simp]:
  "pb_readbyte (buf_stream (b # src) (Suc n) e) = (Some b, buf_stream src n e)"
  by (simp add: pb_readbyte_def buf_stream_def buf_read_def)

lemma pb_read_buf [simp]:
  "length bs = k \<Longrightarrow> pb_read (buf_stream (bs @ src) (k + n) e) k = (True, bs, buf_stream src n e)"
  by (auto simp: pb_read_def buf_stream_def buf_read_def)

section \<open>Reading varints\<close>

lemma varint_loop_step:
  "bitpos < 64 \<Longrightarrow> varint_loop (buf_stream (b # src) (Suc n) e) bitpos r =
     (let r' = r OR push_bit bitpos (of_nat (unat b mod 128)) in
      if unat b < 128 then (Some r', buf_stream src n e)
      else varint_loop (buf_stream src n e) (bitpos + 7) r')"
  by (simp add: varint_loop.simps [of "buf_stream (b # src) (Suc n) e"] byte_low_seven byte_continues Let_def)

lemma varint_loop_leb128:
  assumes "bitpos < 64" "n < 2 ^ (64 - bitpos)"
  shows "varint_loop (buf_stream (leb128 n @ src) (length (leb128 n) + k) e) bitpos r =
           (Some (r OR push_bit bitpos (of_nat n)), buf_stream src k e)"
  using assms
proof (induction n arbitrary: bitpos r rule: leb128.induct)
  case (1 n)
  show ?case
  proof (cases "n < 128")
    case True
    with 1(2) show ?thesis by (simp add: leb128_small varint_loop_step unat_of_nat_byte)
  next
    case False
    note more = seven_more_bits [OF 1(3) False]
    show ?thesis
      using 1(1) [OF False more] unat_continue [of "n mod 128"] or_push_digit [of r bitpos n] 1(2)
      by (simp add: leb128_large [OF False] varint_loop_step Let_def del: of_nat_add)
  qed
qed

lemma pb_decode_varint_wire:
  "pb_decode_varint (buf_stream (varint_wire v @ src) (length (varint_wire v) + k) e) = (Some v, buf_stream src k e)"
  using varint_loop_leb128 [of 0 "unat v"] unsigned_less [of v, where ?'a = nat]
  by (simp add: pb_decode_varint_def varint_wire_leb128)

lemma low_nibble: "unat b < 16 \<Longrightarrow> b AND 0x70 = 0" for b :: byte
proof -
  assume "unat b < 16"
  then have "take_bit 4 b = b" by (simp add: word_unat_eq_iff take_bit_eq_mod unat_mod)
  then have "b AND 0x70 = take_bit 4 b AND 0x70" by simp
  also have "\<dots> = 0" by (simp add: byte_eq_iff bit_simps)
  finally show ?thesis .
qed

lemma varint32_loop_step:
  "bitpos < 32 \<Longrightarrow> varint32_loop (buf_stream (b # src) (Suc n) e) bitpos r =
     (let r' = r OR push_bit bitpos (of_nat (unat b mod 128)) in
      if unat b < 128 then
        (if bitpos = 28 \<and> b AND 0x70 \<noteq> 0
         then (None, pb_istream_error ''varint overflow'' (buf_stream src n e))
         else (Some r', buf_stream src n e))
      else varint32_loop (buf_stream src n e) (bitpos + 7) r')"
  by (simp add: varint32_loop.simps [of "buf_stream (b # src) (Suc n) e"] byte_low_seven byte_continues Let_def)

lemma varint32_loop_leb128:
  assumes "bitpos < 32" "n < 2 ^ (32 - bitpos)"
  shows "varint32_loop (buf_stream (leb128 n @ src) (length (leb128 n) + k) e) bitpos r =
           (Some (r OR push_bit bitpos (of_nat n)), buf_stream src k e)"
  using assms
proof (induction n arbitrary: bitpos r rule: leb128.induct)
  case (1 n)
  show ?case
  proof (cases "n < 128")
    case True
    have "(of_nat n :: byte) AND 0x70 = 0" if "bitpos = 28"
      using that 1(3) True by (intro low_nibble) (simp add: unat_of_nat_byte)
    with 1(2) True show ?thesis by (simp add: leb128_small varint32_loop_step unat_of_nat_byte)
  next
    case False
    note more = seven_more_bits [OF 1(3) False]
    show ?thesis
      using 1(1) [OF False more] unat_continue [of "n mod 128"] or_push_digit [of r bitpos n] 1(2)
      by (simp add: leb128_large [OF False] varint32_loop_step Let_def del: of_nat_add)
  qed
qed

lemma pb_decode_varint32_eof_leb128:
  assumes "n < 2 ^ 32"
  shows "pb_decode_varint32_eof (buf_stream (leb128 n @ src) (length (leb128 n) + k) e) =
           (Some (of_nat n), False, buf_stream src k e)"
proof (cases "n < 128")
  case True
  then have "ucast (of_nat n :: byte) = (of_nat n :: u32)"
    by (simp add: word_unat_eq_iff unsigned_ucast_eq unat_of_nat take_bit_eq_mod)
  with True show ?thesis
    by (simp add: leb128_small pb_decode_varint32_eof_def byte_continues unat_of_nat_byte)
next
  case False
  have "n div 128 < 2 ^ (32 - 7)" using seven_more_bits(2) [of n 32 0] assms False by simp
  then show ?thesis
    using varint32_loop_leb128 [of 7 "n div 128"] unat_continue [of "n mod 128"] or_push_digit [of 0 0 n]
    by (simp add: leb128_large [OF False] pb_decode_varint32_eof_def byte_continues byte_low_seven del: of_nat_add)
qed

section \<open>Zigzag\<close>

lemma bit_zigzag:
  assumes "n < 64"
  shows "bit (zigzag v) n \<longleftrightarrow> (if v < 0 then n = 0 \<or> \<not> bit v (n - 1) else 0 < n \<and> bit v (n - 1))"
proof -
  have "bit (push_bit 1 (word_of_int v :: u64)) n \<longleftrightarrow> 0 < n \<and> bit v (n - 1)"
    using assms by (auto simp: bit_push_bit_iff bit_word_of_int_iff simp del: push_bit_Suc)
  then show ?thesis using assms by (auto simp: zigzag_def bit_not_iff simp del: push_bit_Suc)
qed

lemma odd_zigzag: "zigzag v AND 1 \<noteq> 0 \<longleftrightarrow> v < 0"
  using bit_zigzag [of 0 v] by (simp add: and_one_eq bit_0 odd_iff_mod_2_eq_one)

lemma zigzag_inverse:
  assumes "- (2 ^ 63) \<le> v" "v < 2 ^ 63"
  shows "(if zigzag v AND 1 \<noteq> 0 then sint (NOT (drop_bit 1 (zigzag v))) else sint (drop_bit 1 (zigzag v))) = v"
proof -
  have self: "signed_take_bit 63 v = v" using assms by (simp add: signed_take_bit_int_eq_self)
  then have neg: "bit v 63 \<longleftrightarrow> v < 0" by (metis signed_take_bit_negative_iff)
  have "(if v < 0 then NOT (drop_bit 1 (zigzag v)) else drop_bit 1 (zigzag v)) = word_of_int v"
  proof (rule bit_word_eqI)
    fix n assume n: "n < LENGTH(64)"
    then have z: "bit (drop_bit 1 (zigzag v)) n \<longleftrightarrow> n < 63 \<and> (if v < 0 then \<not> bit v n else bit v n)"
      using bit_zigzag [of "Suc n" v] by (cases "n < 63") (auto simp: bit_drop_bit_eq dest: bit_imp_le_length)
    show "bit (if v < 0 then NOT (drop_bit 1 (zigzag v)) else drop_bit 1 (zigzag v)) n = bit (word_of_int v :: u64) n"
      using n z neg by (cases "n = 63") (auto simp: bit_not_iff bit_word_of_int_iff)
  qed
  moreover have "sint (word_of_int v :: u64) = v" using self by (simp add: signed_of_int)
  ultimately show ?thesis by (auto simp: odd_zigzag split: if_splits)
qed

section \<open>Fixed width\<close>

lemma mask8: "w AND 0xFF = take_bit 8 (w :: 'a::len word)"
  by (simp add: take_bit_eq_mask mask_eq_exp_minus_1)

lemma byte_of_word:
  fixes v :: "'a::len word"
  assumes "n < LENGTH('a)"
  shows "bit (push_bit (8 * k) (ucast (ucast (take_bit 8 (drop_bit (8 * k) v)) :: byte) :: 'a word)) n \<longleftrightarrow>
           n div 8 = k \<and> bit v n"
proof -
  have "8 * k \<le> n \<and> n - 8 * k < 8 \<longleftrightarrow> n div 8 = k" by auto
  then show ?thesis using assms by (auto simp: bit_simps)
qed

lemmas word_bytes = byte_of_word [of _ 0] byte_of_word [of _ 1] byte_of_word [of _ 2] byte_of_word [of _ 3]
  byte_of_word [of _ 4] byte_of_word [of _ 5] byte_of_word [of _ 6] byte_of_word [of _ 7]

lemma div_8_cases: "n < 64 \<Longrightarrow> n div 8 \<in> {0, 1, 2, 3, 4, 5, 6, 7 :: nat}"
proof -
  assume "n < 64"
  then have "n div 8 < 8" by (simp add: less_mult_imp_div_less)
  then show ?thesis by auto
qed

lemma fixed32_inverse:
  "push_bit 0 (ucast (fixed32_bytes v ! 0)) OR push_bit 8 (ucast (fixed32_bytes v ! 1)) OR
   push_bit 16 (ucast (fixed32_bytes v ! 2)) OR push_bit 24 (ucast (fixed32_bytes v ! 3)) = v" (is "?w = v")
proof (rule bit_word_eqI)
  fix n assume "n < LENGTH(32)"
  then show "bit ?w n = bit v n"
    using div_8_cases [of n] word_bytes [of n v, simplified]
    by (auto simp: fixed32_bytes_def mask8 bit_or_iff)
qed


lemma fixed64_inverse:
  "push_bit 0 (ucast (fixed64_bytes v ! 0)) OR push_bit 8 (ucast (fixed64_bytes v ! 1)) OR
   push_bit 16 (ucast (fixed64_bytes v ! 2)) OR push_bit 24 (ucast (fixed64_bytes v ! 3)) OR
   push_bit 32 (ucast (fixed64_bytes v ! 4)) OR push_bit 40 (ucast (fixed64_bytes v ! 5)) OR
   push_bit 48 (ucast (fixed64_bytes v ! 6)) OR push_bit 56 (ucast (fixed64_bytes v ! 7)) = v"
  (is "?w = v")
proof (rule bit_word_eqI)
  fix n assume "n < LENGTH(64)"
  then show "bit ?w n = bit v n"
    using div_8_cases [of n] word_bytes [of n v, simplified]
    by (auto simp: fixed64_bytes_def mask8 bit_or_iff)
qed

section \<open>Writing to a buffer\<close>

definition out_stream :: "byte list \<Rightarrow> nat \<Rightarrow> string option \<Rightarrow> pb_ostream" where
  "out_stream bs n e = \<lparr>sink = Buffer_sink bs, max_size = n, bytes_written = length bs, os_errmsg = e\<rparr>"

lemma pb_ostream_from_buffer_eq: "pb_ostream_from_buffer n = out_stream [] n None"
  by (simp add: pb_ostream_from_buffer_def out_stream_def)

lemma pb_write_out:
  assumes "n < SIZE_MOD" "length bs \<le> n" "length buf < SIZE_MOD"
  shows "pb_write (out_stream bs n e) buf (length buf) =
     (if length bs + length buf \<le> n then (True, out_stream (bs @ buf) n e)
      else (False, pb_ostream_error ''stream full'' (out_stream bs n e)))"
proof (cases "length bs + length buf < SIZE_MOD")
  case True
  with assms show ?thesis by (auto simp: pb_write_def out_stream_def buf_write_def)
next
  case False
  have "(length bs + length buf) mod SIZE_MOD = length bs + length buf - SIZE_MOD"
    using False assms by (simp add: mod_if)
  with False assms show ?thesis by (auto simp: pb_write_def out_stream_def)
qed

section \<open>Codecs\<close>

primrec write_all :: "(pb_ostream \<Rightarrow> 'a \<Rightarrow> bool \<times> pb_ostream) \<Rightarrow> pb_ostream \<Rightarrow> 'a list \<Rightarrow> bool \<times> pb_ostream" where
  "write_all enc s [] = (True, s)"
| "write_all enc s (x # xs) = (case enc s x of (ok, s') \<Rightarrow> if ok then write_all enc s' xs else (False, s'))"

primrec read_n :: "(pb_istream \<Rightarrow> 'a option \<times> pb_istream) \<Rightarrow> nat \<Rightarrow> pb_istream \<Rightarrow> 'a list option \<times> pb_istream" where
  "read_n dec 0 s = (Some [], s)"
| "read_n dec (Suc n) s =
     (case dec s of
        (None, s') \<Rightarrow> (None, s')
      | (Some x, s') \<Rightarrow> (case read_n dec n s' of (r, s'') \<Rightarrow> (map_option (Cons x) r, s'')))"

locale wire_codec =
  fixes dom :: "'a \<Rightarrow> bool"
    and wire :: "'a \<Rightarrow> byte list"
    and enc :: "pb_ostream \<Rightarrow> 'a \<Rightarrow> bool \<times> pb_ostream"
    and dec :: "pb_istream \<Rightarrow> 'a option \<times> pb_istream"
  assumes enc_wire: "enc s x = pb_write s (wire x) (length (wire x))"
    and dec_wire: "dom x \<Longrightarrow> dec (buf_stream (wire x @ src) (length (wire x) + k) e) = (Some x, buf_stream src k e)"
    and wire_bounds: "wire x \<noteq> []" "length (wire x) < SIZE_MOD"
begin

lemma write_all_out:
  assumes "n < SIZE_MOD" "length bs \<le> n" "write_all enc (out_stream bs n e) xs = (ok, s)"
  shows "(if length bs + length (concat (map wire xs)) \<le> n
          then ok \<and> s = out_stream (bs @ concat (map wire xs)) n e
          else \<not> ok \<and> (\<exists>i < length xs. s = pb_ostream_error ''stream full''
                 (out_stream (bs @ concat (map wire (take i xs))) n e)))"
  using assms(2,3)
proof (induction xs arbitrary: bs)
  case (Cons x xs)
  show ?case
  proof (cases "length bs + length (wire x) \<le> n")
    case True
    with Cons.prems have w: "write_all enc (out_stream (bs @ wire x) n e) xs = (ok, s)"
      by (simp add: enc_wire [of "out_stream bs n e" x] pb_write_out assms(1) wire_bounds)
    show ?thesis
    proof (cases "length (bs @ wire x) + length (concat (map wire xs)) \<le> n")
      case True
      with Cons.IH [OF _ w] \<open>length bs + length (wire x) \<le> n\<close> show ?thesis by simp
    next
      case False
      with Cons.IH [OF _ w] \<open>length bs + length (wire x) \<le> n\<close> obtain i where
        "\<not> ok" "i < length xs" "s = pb_ostream_error ''stream full''
           (out_stream (bs @ wire x @ concat (map wire (take i xs))) n e)" by auto
      with False show ?thesis by (auto intro!: exI [of _ "Suc i"])
    qed
  next
    case False
    with Cons.prems show ?thesis
      by (auto simp: enc_wire [of "out_stream bs n e" x] pb_write_out assms(1) wire_bounds intro!: exI [of _ 0])
  qed
qed simp

lemma read_n_wire:
  assumes "list_all dom xs"
  shows "read_n dec (length xs) (buf_stream (concat (map wire xs) @ src) (length (concat (map wire xs)) + k) e) =
           (Some xs, buf_stream src k e)"
  using assms by (induction xs) (simp_all add: dec_wire add.assoc)

lemma values_roundtrip:
  assumes "list_all dom xs" "n < SIZE_MOD" "write_all enc (pb_ostream_from_buffer n) xs = (True, s)"
  obtains bs where "sink s = Buffer_sink bs" "bytes_written s = length bs" "length bs \<le> n"
    "\<And>src k e. read_n dec (length xs) (buf_stream (bs @ src) (length bs + k) e) = (Some xs, buf_stream src k e)"
proof -
  let ?bs = "concat (map wire xs)"
  have "length ?bs \<le> n \<and> s = out_stream ?bs n None"
    using write_all_out [OF assms(2) _ assms(3) [unfolded pb_ostream_from_buffer_eq]] by (auto split: if_splits)
  with read_n_wire [OF assms(1)] that [of ?bs] show thesis by (simp add: out_stream_def)
qed

end

interpretation varint: wire_codec "\<lambda>_. True" varint_wire pb_encode_varint pb_decode_varint
proof
  show "varint_wire v \<noteq> []" "length (varint_wire v) < SIZE_MOD" for v
    using length_varint_wire [of v] by auto
qed (simp_all add: pb_encode_varint_wire pb_decode_varint_wire)

definition int64_range :: "int \<Rightarrow> bool" where
  "int64_range v \<longleftrightarrow> - (2 ^ 63) \<le> v \<and> v < 2 ^ 63"

interpretation svarint: wire_codec int64_range "\<lambda>v. varint_wire (zigzag v)" pb_encode_svarint pb_decode_svarint
proof
  show "pb_decode_svarint (buf_stream (varint_wire (zigzag v) @ src) (length (varint_wire (zigzag v)) + k) e) =
      (Some v, buf_stream src k e)" if "int64_range v" for v src k e
    using zigzag_inverse [of v] that
    by (simp add: pb_decode_svarint_def pb_decode_varint_wire int64_range_def split: if_splits)
qed (use varint.wire_bounds in \<open>simp_all add: pb_encode_svarint_def pb_encode_varint_wire\<close>)

lemma length_fixed [simp]: "length (fixed32_bytes v) = 4" "length (fixed64_bytes w) = 8"
  by (simp_all add: fixed32_bytes_def fixed64_bytes_def)

interpretation fixed32: wire_codec "\<lambda>_. True" fixed32_bytes pb_encode_fixed32 pb_decode_fixed32
proof
  show "pb_decode_fixed32 (buf_stream (fixed32_bytes v @ src) (length (fixed32_bytes v) + k) e) =
      (Some v, buf_stream src k e)" for v src k e
  proof -
    show ?thesis using pb_read_buf [of "fixed32_bytes v" 4 src k e]
      by (simp only: pb_decode_fixed32_def length_fixed refl simp_thms split bool.case fixed32_inverse)
  qed
qed (simp_all add: pb_encode_fixed32_def flip: length_0_conv)

interpretation fixed64: wire_codec "\<lambda>_. True" fixed64_bytes pb_encode_fixed64 pb_decode_fixed64
proof
  show "pb_decode_fixed64 (buf_stream (fixed64_bytes v @ src) (length (fixed64_bytes v) + k) e) =
      (Some v, buf_stream src k e)" for v src k e
  proof -
    show ?thesis using pb_read_buf [of "fixed64_bytes v" 8 src k e]
      by (simp only: pb_decode_fixed64_def length_fixed refl simp_thms split bool.case fixed64_inverse)
  qed
qed (simp_all add: pb_encode_fixed64_def flip: length_0_conv)

text \<open>A tag of the wire: a wire type of three bits and a field number of 29 bits.\<close>

definition tag_dom :: "nat \<times> nat \<Rightarrow> bool" where
  "tag_dom wt \<longleftrightarrow> fst wt < 8 \<and> 0 < snd wt \<and> snd wt < 2 ^ 29"

definition tag_value :: "nat \<times> nat \<Rightarrow> u64" where
  "tag_value wt = push_bit 3 (of_nat (snd wt)) OR of_nat (fst wt)"

lemma unat_tag_value:
  assumes "tag_dom wt"
  shows "unat (tag_value wt) = 8 * snd wt + fst wt"
proof -
  have "unat (tag_value wt) = push_bit 3 (snd wt) OR fst wt"
    using assms by (simp add: tag_value_def tag_dom_def unsigned_or_eq unat_of_nat take_bit_eq_mod
        push_bit_eq_mult unat_word_ariths)
  also have "\<dots> = push_bit 3 (snd wt) + fst wt"
  proof (rule disjunctive_add_eq_or [symmetric])
    have "fst wt = take_bit 3 (fst wt)" using assms by (simp add: tag_dom_def take_bit_eq_mod)
    then have "push_bit 3 (snd wt) AND fst wt = push_bit 3 (snd wt) AND take_bit 3 (fst wt)" by simp
    also have "\<dots> = 0" by (auto simp: bit_eq_iff bit_simps)
    finally show "push_bit 3 (snd wt) AND fst wt = 0" .
  qed
  finally show ?thesis by (simp add: push_bit_eq_mult)
qed

lemma pb_decode_tag_wire:
  assumes "tag_dom wt"
  shows "pb_decode_tag (buf_stream (varint_wire (tag_value wt) @ src) (length (varint_wire (tag_value wt)) + k) e) =
     (Some wt, False, buf_stream src k e)"
proof -
  let ?n = "8 * snd wt + fst wt"
  have n: "?n < 2 ^ 32" "?n \<noteq> 0" using assms by (auto simp: tag_dom_def)
  then have u: "unat (of_nat ?n :: u32) = ?n" by (simp add: unat_of_nat take_bit_eq_mod del: of_nat_add of_nat_mult)
  have "(of_nat ?n :: u32) AND 7 = take_bit 3 (of_nat ?n)" by (simp add: take_bit_eq_mask mask_eq_exp_minus_1)
  then have "unat ((of_nat ?n :: u32) AND 7) = fst wt"
    using u assms by (simp add: unat_mod take_bit_eq_mod tag_dom_def del: of_nat_add of_nat_mult)
  moreover have "unat (drop_bit 3 (of_nat ?n :: u32)) = snd wt"
    using u assms by (simp add: unat_div drop_bit_eq_div tag_dom_def del: of_nat_add of_nat_mult)
  moreover have "(of_nat ?n :: u32) \<noteq> 0" using u n by (metis unat_0)
  ultimately show ?thesis
    using pb_decode_varint32_eof_leb128 [OF n(1), of src k e] unat_tag_value [OF assms]
    by (simp add: pb_decode_tag_def varint_wire_leb128 del: of_nat_add of_nat_mult)
qed

text \<open>The tag reader without its end-of-file flag.\<close>

definition read_tag :: "pb_istream \<Rightarrow> (nat \<times> nat) option \<times> pb_istream" where
  "read_tag s = (case pb_decode_tag s of (r, _, s') \<Rightarrow> (r, s'))"

interpretation tag: wire_codec tag_dom "\<lambda>wt. varint_wire (tag_value wt)"
  "\<lambda>s wt. pb_encode_tag s (fst wt) (snd wt)" read_tag
  by unfold_locales
    (use varint.wire_bounds in \<open>simp_all add: read_tag_def pb_decode_tag_wire pb_encode_tag_def
       pb_encode_varint_wire flip: tag_value_def\<close>)

section \<open>Strings\<close>

text \<open>A length-delimited value.\<close>

definition string_wire :: "byte list \<Rightarrow> byte list" where
  "string_wire bs = varint_wire (of_nat (length bs)) @ bs"

lemma string_wire_leb128:
  "length bs < 2 ^ 64 \<Longrightarrow> string_wire bs = leb128 (length bs) @ bs"
  by (simp add: string_wire_def varint_wire_leb128 unat_of_nat take_bit_eq_mod)

lemma pb_encode_string_out:
  assumes "n < SIZE_MOD" "length bs \<le> n" "length buf < SIZE_MOD"
  shows "fst (pb_encode_string (out_stream bs n e) buf (length buf)) \<longleftrightarrow>
           length bs + length (string_wire buf) \<le> n"
    and "length bs + length (string_wire buf) \<le> n \<Longrightarrow>
           pb_encode_string (out_stream bs n e) buf (length buf) = (True, out_stream (bs @ string_wire buf) n e)"
  using assms varint.wire_bounds [of "of_nat (length buf)"]
  by (auto simp: pb_encode_string_def pb_encode_varint_wire pb_write_out string_wire_def split: if_splits)

text \<open>The substream of a length-delimited value holds exactly its bytes; the parent is behind it.\<close>

lemma pb_make_string_substream_wire:
  assumes "length bs < 2 ^ 32"
  shows "pb_make_string_substream (buf_stream (string_wire bs @ src) (length (string_wire bs) + k) e) =
           (Some (buf_stream (bs @ src) (length bs) e), buf_stream (bs @ src) k e)"
proof -
  have "unat (of_nat (length bs) :: u32) = length bs" using assms by (simp add: unat_of_nat take_bit_eq_mod)
  then show ?thesis
    using pb_decode_varint32_eof_leb128 [OF assms, of "bs @ src" "length bs + k" e] assms
    by (simp add: pb_make_string_substream_def pb_decode_varint32_def string_wire_leb128 add.assoc)
qed

lemma pb_read_null_buf [simp]:
  "length bs = k \<Longrightarrow> pb_read_null (buf_stream (bs @ src) (k + n) e) k = (True, buf_stream src n e)"
  by (cases "k = 0") (auto simp: pb_read_null_def)

text \<open>Closing the substream skips what was not read of it.\<close>

lemma pb_close_string_substream_wire:
  "pb_close_string_substream (buf_stream parent k e) (buf_stream (bs @ src) (length bs) e') =
     (True, buf_stream src k e')"
  using pb_read_null_buf [of bs "length bs" src 0 e']
  by (cases "bs = []") (simp_all add: pb_close_string_substream_def buf_stream_def)

section \<open>What a varint read accepts\<close>

definition varint_end :: "byte list \<Rightarrow> bool" where
  "varint_end bs \<longleftrightarrow> bs \<noteq> [] \<and> unat (last bs) < 128 \<and> list_all (\<lambda>b. 128 \<le> unat b) (butlast bs)"

lemma varint_loop_accepts:
  assumes "varint_loop (buf_stream src n e) bitpos r = (Some v, s')" "n \<le> length src"
  shows "\<exists>bs rest. src = bs @ rest \<and> varint_end bs \<and> bitpos + 7 * length bs < 71 \<and>
           s' = buf_stream rest (n - length bs) e \<and>
           v = r OR push_bit bitpos (of_nat (leb_val bs))"
  using assms
proof (induction src arbitrary: n bitpos r)
  case Nil
  then show ?case by (simp add: varint_loop.simps pb_readbyte_def split: if_splits)
next
  case (Cons b src)
  have bp: "bitpos < 64" using Cons.prems by (subst (asm) varint_loop.simps) (simp split: if_splits)
  show ?case
  proof (cases n)
    case 0
    with Cons.prems show ?thesis by (simp add: varint_loop.simps pb_readbyte_def split: if_splits)
  next
    case (Suc k)
    let ?r = "r OR push_bit bitpos (of_nat (unat b mod 128))"
    show ?thesis
    proof (cases "unat b < 128")
      case True
      with Cons.prems Suc bp show ?thesis
        by (intro exI [of _ "[b]"] exI [of _ src]) (auto simp: varint_loop_step varint_end_def)
    next
      case False
      with Cons.prems Suc bp have "varint_loop (buf_stream src k e) (bitpos + 7) ?r = (Some v, s')"
        by (simp add: varint_loop_step)
      from Cons.IH [OF this] Cons.prems Suc obtain bs rest where
        IH: "src = bs @ rest" "varint_end bs" "bitpos + 7 + 7 * length bs < 71"
          "s' = buf_stream rest (k - length bs) e" "v = ?r OR push_bit (bitpos + 7) (of_nat (leb_val bs))"
        by auto
      have "(unat b mod 128 + 128 * leb_val bs) mod 128 = unat b mod 128"
        "(unat b mod 128 + 128 * leb_val bs) div 128 = leb_val bs" by simp_all
      then have "v = r OR push_bit bitpos (of_nat (leb_val (b # bs)))"
        using or_push_digit [of r bitpos "leb_val (b # bs)"] IH(5) by simp
      with IH False Suc show ?thesis
        by (intro exI [of _ "b # bs"] exI [of _ rest]) (auto simp: varint_end_def)
    qed
  qed
qed

text \<open>A byte that is only a continuation bit moves the bit position, which wraps around at 256.\<close>

lemma varint32_loop_pad:
  "bitpos < 256 \<Longrightarrow> varint32_loop (buf_stream (replicate j 0x80 @ src) (j + n) e) bitpos r =
     varint32_loop (buf_stream src n e) ((bitpos + 7 * j) mod 256) r"
proof (induction j arbitrary: bitpos)
  case (Suc j)
  have "varint32_loop (buf_stream (0x80 # replicate j 0x80 @ src) (Suc (j + n)) e) bitpos r =
      varint32_loop (buf_stream (replicate j 0x80 @ src) (j + n) e) ((bitpos + 7) mod 256) r"
    by (subst varint32_loop.simps) simp
  also have "\<dots> = varint32_loop (buf_stream src n e) (((bitpos + 7) mod 256 + 7 * j) mod 256) r"
    by (rule Suc.IH) simp
  also have "((bitpos + 7) mod 256 + 7 * j) mod 256 = (bitpos + 7 * Suc j) mod 256"
    by (simp add: mod_add_left_eq add.assoc)
  finally show ?case by simp
qed simp

lemma varint_loop_pad:
  "bitpos + 7 * j < 71 \<Longrightarrow> varint_loop (buf_stream (replicate j 0x80 @ src) (j + n) e) bitpos r =
     varint_loop (buf_stream src n e) (bitpos + 7 * j) r"
proof (induction j arbitrary: bitpos)
  case (Suc j)
  then have "varint_loop (buf_stream (0x80 # replicate j 0x80 @ src) (Suc (j + n)) e) bitpos r =
      varint_loop (buf_stream (replicate j 0x80 @ src) (j + n) e) (bitpos + 7) r"
    by (simp add: varint_loop_step)
  also have "\<dots> = varint_loop (buf_stream src n e) (bitpos + 7 + 7 * j) r"
    using Suc.prems by (intro Suc.IH) simp
  finally show ?case by (simp add: add.assoc)
qed simp

lemma varint_overlong:
  "pb_decode_varint32 (buf_stream (replicate 37 0x80 @ [0x01]) 38 None) = (Some 8, buf_stream [] 0 None)"
proof -
  have "replicate 37 (0x80 :: byte) @ [0x01] = 0x80 # replicate 36 0x80 @ [0x01]"
    by (simp flip: replicate_Suc)
  then show ?thesis
    using varint32_loop_pad [where bitpos = 7 and j = 36 and src = "[0x01]" and n = 1 and e = None and r = 0] varint32_loop_step [where bitpos = 3 and b = 1 and src = "[]" and n = 0 and e = None and r = 0]
      pb_readbyte_buf [where b = "0x80" and src = "replicate 36 0x80 @ [0x01]" and n = 37 and e = None]
    by (simp add: pb_decode_varint32_def pb_decode_varint32_eof_def)
qed

lemma varint_overlong_64:
  "fst (pb_decode_varint (buf_stream (replicate 37 0x80 @ [0x01]) 38 None)) = None"
proof -
  have "replicate 37 (0x80 :: byte) @ [0x01] = replicate 10 0x80 @ replicate 27 0x80 @ [0x01]"
    by (simp flip: replicate_add append_assoc)
  then have "varint_loop (buf_stream (replicate 37 0x80 @ [0x01]) 38 None) 0 0 =
      varint_loop (buf_stream (replicate 27 0x80 @ [0x01]) 28 None) 70 0"
    using varint_loop_pad [where j = 10 and bitpos = 0 and n = 28 and e = None and r = 0]
    by simp
  then show ?thesis by (simp add: pb_decode_varint_def varint_loop.simps [of _ 70])
qed

section \<open>Properties\<close>

text \<open>
  What \<^verbatim>\<open>pb_encode_varint\<close> writes is the base 128 encoding of the value, least significant group first,
  and never more than the 10 bytes of its local buffer.
\<close>

theorem pb_encode_varint_leb128:
  "pb_encode_varint s v = pb_write s (leb128 (unat v)) (length (leb128 (unat v))) \<and>
   leb_val (leb128 (unat v)) = unat v \<and> 1 \<le> length (leb128 (unat v)) \<and> length (leb128 (unat v)) \<le> 10"
  using length_varint_wire [of v] by (simp add: pb_encode_varint_wire varint_wire_leb128 leb_val_leb128 Suc_le_eq)

text \<open>
  C17. Reading back any sequence of 64-bit values that \<^verbatim>\<open>pb_encode_varint\<close> wrote to a buffer gives the same
  values, whatever follows them, and stops exactly behind them.
\<close>

theorem varint_roundtrip:
  assumes "n < 2 ^ 64" "write_all pb_encode_varint (pb_ostream_from_buffer n) vs = (True, s)"
  shows "\<exists>bs. sink s = Buffer_sink bs \<and> bytes_written s = length bs \<and> length bs \<le> n \<and>
     read_n pb_decode_varint (length vs) (pb_istream_from_buffer (bs @ src) (length bs + k)) =
       (Some vs, pb_istream_from_buffer src k)"
  using assms varint.values_roundtrip [of vs n s]
  by (force simp: pb_istream_from_buffer_eq list_all_iff)

theorem varint_roundtrip_witness:
  "\<exists>bs. read_n pb_decode_varint (length [300 :: u64, 1]) (pb_istream_from_buffer (bs @ [7]) (length bs + 1)) =
          (Some [300, 1], pb_istream_from_buffer [7] 1)"
proof -
  have "write_all pb_encode_varint (pb_ostream_from_buffer 10) [300, 1] =
      (True, out_stream [0xAC, 0x02, 0x01] 10 None)"
    using pb_write_out [of 10 "[]" "[0xAC, 0x02]" None] pb_write_out [of 10 "[0xAC, 0x02]" "[0x01]" None]
    by (simp add: pb_encode_varint_wire varint_wire_leb128 leb128.simps pb_ostream_from_buffer_eq)
  from varint_roundtrip [OF _ this, of "[7]" 1] show ?thesis by (auto simp del: read_n.simps list.size)
qed

text \<open>
  The same for signed values and the zigzag encoding of \<^verbatim>\<open>pb_encode_svarint\<close>, over the whole range of
  \<^verbatim>\<open>int64_t\<close>.
\<close>

theorem svarint_roundtrip:
  assumes "n < 2 ^ 64" "\<forall>v \<in> set vs. - (2 ^ 63) \<le> v \<and> v < 2 ^ 63"
    and "write_all pb_encode_svarint (pb_ostream_from_buffer n) vs = (True, s)"
  shows "\<exists>bs. sink s = Buffer_sink bs \<and> bytes_written s = length bs \<and> length bs \<le> n \<and>
     read_n pb_decode_svarint (length vs) (pb_istream_from_buffer (bs @ src) (length bs + k)) =
       (Some vs, pb_istream_from_buffer src k)"
  using assms svarint.values_roundtrip [of vs n s]
  by (force simp: pb_istream_from_buffer_eq list_all_iff int64_range_def)

theorem svarint_roundtrip_witness:
  "\<exists>bs. read_n pb_decode_svarint 1 (pb_istream_from_buffer (bs @ []) (length bs + 0)) =
          (Some [- 2], pb_istream_from_buffer [] 0)"
proof -
  have z: "zigzag (- 2) = 3" by (simp add: zigzag_def)
  have "write_all pb_encode_svarint (pb_ostream_from_buffer 10) [- 2] = (True, out_stream [0x03] 10 None)"
    using pb_write_out [of 10 "[]" "[0x03]" None]
    by (simp add: pb_encode_svarint_def z pb_encode_varint_wire varint_wire_leb128 leb128.simps
        pb_ostream_from_buffer_eq)
  from svarint_roundtrip [OF _ _ this, of "[]" 0] show ?thesis by auto
qed

text \<open>The same for the fixed width values of \<^verbatim>\<open>pb_encode_fixed32\<close> and \<^verbatim>\<open>pb_encode_fixed64\<close>.\<close>

theorem fixed_roundtrip:
  assumes "n < 2 ^ 64" "write_all pb_encode_fixed32 (pb_ostream_from_buffer n) vs = (True, s)"
    and "write_all pb_encode_fixed64 (pb_ostream_from_buffer n) ws = (True, t)"
  shows "(\<exists>bs. sink s = Buffer_sink bs \<and> length bs = 4 * length vs \<and>
      read_n pb_decode_fixed32 (length vs) (pb_istream_from_buffer (bs @ src) (length bs + k)) =
        (Some vs, pb_istream_from_buffer src k)) \<and>
    (\<exists>bs. sink t = Buffer_sink bs \<and> length bs = 8 * length ws \<and>
      read_n pb_decode_fixed64 (length ws) (pb_istream_from_buffer (bs @ src) (length bs + k)) =
        (Some ws, pb_istream_from_buffer src k))"
proof -
  let ?vs = "concat (map fixed32_bytes vs)" and ?ws = "concat (map fixed64_bytes ws)"
  have len: "length ?vs = 4 * length vs" "length ?ws = 8 * length ws"
    by (simp_all add: length_concat comp_def sum_list_triv)
  have "sink s = Buffer_sink ?vs"
    using fixed32.write_all_out [OF _ _ assms(2) [unfolded pb_ostream_from_buffer_eq]] assms(1)
    by (simp add: out_stream_def split: if_splits)
  moreover have "sink t = Buffer_sink ?ws"
    using fixed64.write_all_out [OF _ _ assms(3) [unfolded pb_ostream_from_buffer_eq]] assms(1)
    by (simp add: out_stream_def split: if_splits)
  ultimately show ?thesis
    using fixed32.read_n_wire [of vs src k None] fixed64.read_n_wire [of ws src k None] len
    by (simp add: pb_istream_from_buffer_eq list_all_iff)
qed

theorem fixed_roundtrip_witness:
  "\<exists>bs. length bs = 4 \<and> read_n pb_decode_fixed32 1 (pb_istream_from_buffer (bs @ []) (length bs + 0)) =
          (Some [0x01020304], pb_istream_from_buffer [] 0)"
proof -
  have len: "length [4, 3, 2, 1 :: byte] = 4" by simp
  have a: "write_all pb_encode_fixed32 (pb_ostream_from_buffer 4) [0x01020304] =
      (True, out_stream [4, 3, 2, 1] 4 None)"
    using pb_write_out [of 4 "[]" "[4, 3, 2, 1]" None, unfolded len]
    by (simp add: pb_encode_fixed32_def fixed32_bytes_def pb_ostream_from_buffer_eq)
  have b: "write_all pb_encode_fixed64 (pb_ostream_from_buffer 4) [] = (True, out_stream [] 4 None)"
    by (simp add: pb_ostream_from_buffer_eq)
  from fixed_roundtrip [OF _ a b, of "[]" 0] show ?thesis by auto
qed

text \<open>
  A tag that \<^verbatim>\<open>pb_encode_tag\<close> wrote is read back by \<^verbatim>\<open>pb_decode_tag\<close> with its wire type and its field
  number, for every wire type and every field number protobuf allows.
\<close>

theorem tag_roundtrip:
  assumes "n < 2 ^ 64" "wire_type < 8" "0 < field_number" "field_number < 2 ^ 29"
    and "pb_encode_tag (pb_ostream_from_buffer n) wire_type field_number = (True, s)"
  shows "\<exists>bs. sink s = Buffer_sink bs \<and> length bs \<le> 5 \<and>
     pb_decode_tag (pb_istream_from_buffer (bs @ src) (length bs + k)) =
       (Some (wire_type, field_number), False, pb_istream_from_buffer src k)"
proof -
  let ?wt = "(wire_type, field_number)"
  have dom: "tag_dom ?wt" using assms by (simp add: tag_dom_def)
  have "8 * field_number + wire_type < 128 ^ 5" using assms by simp
  then have "length (varint_wire (tag_value ?wt)) \<le> 5"
    by (simp add: varint_wire_leb128 unat_tag_value [OF dom] length_leb128)
  moreover have "sink s = Buffer_sink (varint_wire (tag_value ?wt))"
    using tag.write_all_out [of n "[]" None "[?wt]" True s] assms(1,5)
    by (auto simp: pb_ostream_from_buffer_eq out_stream_def split: if_splits)
  ultimately show ?thesis
    using pb_decode_tag_wire [OF dom, of src k None] by (auto simp: pb_istream_from_buffer_eq)
qed

theorem tag_roundtrip_witness:
  "\<exists>bs. pb_decode_tag (pb_istream_from_buffer (bs @ [9]) (length bs + 1)) =
          (Some (2, 23), False, pb_istream_from_buffer [9] 1)"
proof -
  have "pb_encode_tag (pb_ostream_from_buffer 10) 2 23 = (True, out_stream [0xBA, 0x01] 10 None)"
    using pb_write_out [of 10 "[]" "[0xBA, 0x01]" None]
    by (simp add: pb_encode_tag_def pb_encode_varint_wire varint_wire_leb128 leb128.simps
        pb_ostream_from_buffer_eq)
  from tag_roundtrip [OF _ _ _ _ this, of "[9]" 1] show ?thesis by auto
qed

text \<open>
  A length-delimited value: \<^verbatim>\<open>pb_encode_string\<close> succeeds exactly when prefix and bytes fit, and the
  substream \<^verbatim>\<open>pb_make_string_substream\<close> opens on what it wrote holds exactly those bytes; closing it puts the
  parent stream behind the value, read or not.
\<close>

theorem string_roundtrip:
  assumes "n < 2 ^ 64" "length buf < 2 ^ 32" "length (leb128 (length buf)) + length buf \<le> n"
  shows "\<exists>s bs. pb_encode_string (pb_ostream_from_buffer n) buf (length buf) = (True, s) \<and>
     sink s = Buffer_sink bs \<and> bs = leb128 (length buf) @ buf \<and>
     (\<exists>sub parent.
        pb_make_string_substream (pb_istream_from_buffer (bs @ src) (length bs + k)) = (Some sub, parent) \<and>
        bytes_left sub = length buf \<and> pb_read sub (length buf) = (True, buf, pb_istream_from_buffer src 0) \<and>
        pb_close_string_substream parent sub = (True, pb_istream_from_buffer src k))"
proof -
  have w: "string_wire buf = leb128 (length buf) @ buf" using assms by (simp add: string_wire_leb128)
  then have "pb_encode_string (pb_ostream_from_buffer n) buf (length buf) =
      (True, out_stream (string_wire buf) n None)"
    using pb_encode_string_out(2) [of n "[]" buf None] assms by (simp add: pb_ostream_from_buffer_eq)
  moreover have "pb_close_string_substream (buf_stream (buf @ src) k None) (buf_stream (buf @ src) (length buf) None) =
      (True, buf_stream src k None)" by (rule pb_close_string_substream_wire)
  ultimately show ?thesis
    using pb_make_string_substream_wire [OF assms(2), of src k None] pb_read_buf [of buf "length buf" src 0 None] w
    by (auto simp: pb_istream_from_buffer_eq out_stream_def)
qed

theorem string_roundtrip_witness:
  "\<exists>s bs. pb_encode_string (pb_ostream_from_buffer 8) [104, 105] (length [104 :: byte, 105]) = (True, s) \<and>
     sink s = Buffer_sink bs \<and> bs = leb128 (length [104 :: byte, 105]) @ [104, 105] \<and>
     (\<exists>sub parent.
        pb_make_string_substream (pb_istream_from_buffer (bs @ []) (length bs + 0)) = (Some sub, parent) \<and>
        bytes_left sub = length [104 :: byte, 105] \<and>
        pb_read sub (length [104 :: byte, 105]) = (True, [104, 105], pb_istream_from_buffer [] 0) \<and>
        pb_close_string_substream parent sub = (True, pb_istream_from_buffer [] 0))"
  by (rule string_roundtrip) (simp_all add: leb128.simps)

text \<open>
  Every varint \<^verbatim>\<open>pb_decode_varint\<close> accepts is a run of bytes with the continuation bit up to one
  without it, at most ten in all; the value is what the groups of seven bits denote modulo \<open>2 ^ 64\<close>, and
  exactly these bytes are consumed.
\<close>

theorem pb_decode_varint_accepts:
  assumes "n \<le> length src" "pb_decode_varint (pb_istream_from_buffer src n) = (Some v, s)"
  shows "\<exists>bs rest. src = bs @ rest \<and> varint_end bs \<and> length bs \<le> 10 \<and> v = of_nat (leb_val bs) \<and>
     s = pb_istream_from_buffer rest (n - length bs)"
proof -
  obtain bs rest where "src = bs @ rest" "varint_end bs" "0 + 7 * length bs < 71"
      "s = buf_stream rest (n - length bs) None" "v = 0 OR push_bit 0 (of_nat (leb_val bs))"
    using varint_loop_accepts [of src n None 0 0 v s] assms
    by (auto simp: pb_decode_varint_def pb_istream_from_buffer_eq)
  then show ?thesis
    by (intro exI [of _ bs] exI [of _ rest]) (simp add: pb_istream_from_buffer_eq)
qed

theorem pb_decode_varint_accepts_witness:
  "\<exists>bs rest. [0xAC, 0x02, 0x05] = bs @ rest \<and> varint_end bs \<and> length bs \<le> 10 \<and>
     (300 :: u64) = of_nat (leb_val bs) \<and> pb_istream_from_buffer [5] 1 = pb_istream_from_buffer rest (3 - length bs)"
proof -
  have "varint_wire 300 = [0xAC, 0x02]" by (simp add: varint_wire_leb128 leb128.simps)
  then have "pb_decode_varint (pb_istream_from_buffer [0xAC, 0x02, 0x05] 3) = (Some 300, pb_istream_from_buffer [5] 1)"
    using pb_decode_varint_wire [of 300 "[5]" 1 None] by (simp add: pb_istream_from_buffer_eq numeral_3_eq_3)
  from pb_decode_varint_accepts [OF _ this] show ?thesis by simp
qed

text \<open>
  The 32-bit reader has no such bound: its bit position is an 8-bit counter that wraps around, so
  a varint of 38 bytes, which the 64-bit reader rejects, is accepted, and its last byte lands at bit 3.
\<close>

theorem pb_decode_varint32_overlong:
  "pb_decode_varint32 (pb_istream_from_buffer (replicate 37 0x80 @ [0x01]) 38) =
     (Some 8, pb_istream_from_buffer [] 0) \<and>
   fst (pb_decode_varint (pb_istream_from_buffer (replicate 37 0x80 @ [0x01]) 38)) = None"
  using varint_overlong varint_overlong_64 by (simp add: pb_istream_from_buffer_eq)

end
