(* ===== verification/PB_Encode_Spec.thy ===== *)
theory PB_Encode_Spec
  imports PB_Encode PB_Wire
begin

unbundle bit_operations_syntax

text \<open>
  What \<^verbatim>\<open>pb_encode\<close> promises, and that it keeps the promise. \<open>emit\<close> says which bytes a message in memory
  stands for, with no streams in sight: fields in descriptor order, a tag and a value each, packed
  arrays and submessages with their length in front, \<open>None\<close> where the contents cannot be encoded. An
  action on output streams \<open>implements\<close> such a result when it always returns, fails on every stream if
  the result is \<open>None\<close>, and otherwise counts the bytes on a sizing stream and appends them to a buffer
  exactly if they fit. The relation is closed under sequencing, and every encoder of \<open>PB_Encode\<close> is shown
  to implement its part of \<open>emit\<close>, for descriptors without callbacks and extensions (\<open>plain\<close>).
\<close>

section \<open>The specification\<close>

type_synonym emitter = "pb_field list \<Rightarrow> addr \<Rightarrow> cmem \<Rightarrow> byte list option"

definition then_emit :: "byte list option \<Rightarrow> byte list option \<Rightarrow> byte list option" where
  "then_emit r1 r2 = do { a \<leftarrow> r1; b \<leftarrow> r2; Some (a @ b) }"

primrec emit_all :: "byte list option list \<Rightarrow> byte list option" where
  "emit_all [] = Some []"
| "emit_all (r # rs) = then_emit r (emit_all rs)"

definition emit_value :: "emitter \<Rightarrow> pb_field \<Rightarrow> addr \<Rightarrow> cmem \<Rightarrow> byte list option" where
  "emit_value sub f p m =
     (let l = PB_LTYPE (ftype f); n = data_size f in
      if l = PB_LTYPE_BOOL then Some (varint_wire (of_bool (safe_read_bool m p)))
      else if l = PB_LTYPE_VARINT then
        (if int_size n then Some (varint_wire (word_of_int (load_signed n m p))) else None)
      else if l = PB_LTYPE_UVARINT then
        (if int_size n then Some (varint_wire (of_nat (load n m p))) else None)
      else if l = PB_LTYPE_SVARINT then
        (if int_size n then Some (varint_wire (zigzag (load_signed n m p))) else None)
      else if l = PB_LTYPE_FIXED32 then Some (fixed32_bytes (of_nat (load 4 m p)))
      else if l = PB_LTYPE_FIXED64 then Some (fixed64_bytes (of_nat (load 8 m p)))
      else if l = PB_LTYPE_BYTES then
        (if p = 0 then Some (string_wire [])
         else if PB_ATYPE (ftype f) = PB_ATYPE_STATIC \<and> load 4 m p + 4 > n then None
         else Some (string_wire (load_bytes m (p + 4) (load 4 m p))))
      else if l = PB_LTYPE_STRING then
        (let room = (if PB_ATYPE (ftype f) = PB_ATYPE_POINTER then SIZE_MOD - 1 else n) in
         Some (string_wire (if p = 0 then [] else load_bytes m p (c_strnlen m p room))))
      else if l = PB_LTYPE_SUBMESSAGE then
        (case fptr f of Submsg_fields fs \<Rightarrow> map_option string_wire (sub fs p m) | _ \<Rightarrow> None)
      else Some (string_wire (load_bytes m p n)))"

definition emit_tag :: "nat \<Rightarrow> pb_field \<Rightarrow> byte list" where
  "emit_tag wt f = varint_wire (tag_value (wt, tag f))"

definition wire_type :: "pb_field \<Rightarrow> nat" where
  "wire_type f = (case wiretype_of (ftype f) of Some wt \<Rightarrow> wt | None \<Rightarrow> 0)"

definition emit_single :: "emitter \<Rightarrow> pb_field \<Rightarrow> addr \<Rightarrow> cmem \<Rightarrow> byte list option" where
  "emit_single sub f p m = then_emit (Some (emit_tag (wire_type f) f)) (emit_value sub f p m)"

definition item_at :: "pb_field \<Rightarrow> addr \<Rightarrow> cmem \<Rightarrow> nat \<Rightarrow> addr" where
  "item_at f p m i =
     (let a = p + data_size f * i; l = PB_LTYPE (ftype f) in
      if PB_ATYPE (ftype f) = PB_ATYPE_POINTER \<and> (l = PB_LTYPE_STRING \<or> l = PB_LTYPE_BYTES)
      then load_ptr m a else a)"

definition emit_array :: "emitter \<Rightarrow> pb_field \<Rightarrow> addr \<Rightarrow> nat \<Rightarrow> cmem \<Rightarrow> byte list option" where
  "emit_array sub f p count m =
     (let items = map (\<lambda>i. item_at f p m i) [0..<count] in
      if count = 0 then Some []
      else if PB_ATYPE (ftype f) \<noteq> PB_ATYPE_POINTER \<and> count > array_size f then None
      else if PB_LTYPE (ftype f) \<le> PB_LTYPE_LAST_PACKABLE then
        map_option (\<lambda>bs. emit_tag PB_WT_STRING f @ string_wire bs)
          (emit_all (map (\<lambda>q. emit_value sub f q m) items))
      else emit_all (map (\<lambda>q. emit_single sub f q m) items))"

text \<open>Whether an optional field or a member of a union is there.\<close>

definition field_present :: "pb_field \<Rightarrow> addr \<Rightarrow> cmem \<Rightarrow> bool" where
  "field_present f pdata m =
     (let psize = ptr_add pdata (size_offset f);
          implicit = (if PB_ATYPE (ftype f) = PB_ATYPE_POINTER then load_ptr m pdata \<noteq> 0
                      else PB_HTYPE (ftype f) = PB_HTYPE_OPTIONAL \<longrightarrow> \<not> pb_check_proto3_default_value m f pdata) in
      if PB_HTYPE (ftype f) = PB_HTYPE_OPTIONAL
      then (if size_offset f \<noteq> 0 then safe_read_bool m psize else implicit)
      else (if size_offset f \<noteq> 0 then load 4 m psize else of_bool implicit) = tag f)"

definition emit_field :: "emitter \<Rightarrow> pb_field \<Rightarrow> addr \<Rightarrow> cmem \<Rightarrow> byte list option" where
  "emit_field sub f pdata m =
     (let h = PB_HTYPE (ftype f);
          p = (if PB_ATYPE (ftype f) = PB_ATYPE_POINTER then load_ptr m pdata else pdata) in
      if h = PB_HTYPE_REQUIRED then (if p = 0 then None else emit_single sub f p m)
      else if h = PB_HTYPE_REPEATED then
        emit_array sub f p
          (if size_offset f \<noteq> 0 then load 4 m (ptr_add pdata (size_offset f)) else array_size f) m
      else if field_present f pdata m then emit_single sub f p m else Some [])"

primrec emit :: "nat \<Rightarrow> emitter" where
  "emit 0 fs src m = None"
| "emit (Suc depth) fs src m =
     emit_all (map (\<lambda>it. emit_field (emit depth) (cur it) (pData it) m) (pb_fields_walk fs src))"

text \<open>Descriptors without callbacks and extensions, nested less than \<open>depth\<close> deep.\<close>

definition plain_field :: "(pb_field list \<Rightarrow> bool) \<Rightarrow> pb_field \<Rightarrow> bool" where
  "plain_field sub f \<longleftrightarrow>
     (let a = PB_ATYPE (ftype f); l = PB_LTYPE (ftype f) in
      (a = PB_ATYPE_STATIC \<or> a = PB_ATYPE_POINTER) \<and>
      l \<le> PB_LTYPE_FIXED_LENGTH_BYTES \<and> l \<noteq> PB_LTYPE_EXTENSION \<and>
      data_size f < 2 ^ 32 \<and> array_size f < 2 ^ 32 \<and>
      (l = PB_LTYPE_SUBMESSAGE \<longrightarrow>
         (case fptr f of Submsg_fields fs \<Rightarrow> sub fs | Null_ptr \<Rightarrow> True | Default_value _ \<Rightarrow> False)))"

primrec plain :: "nat \<Rightarrow> pb_field list \<Rightarrow> bool" where
  "plain 0 fs = False"
| "plain (Suc depth) fs = list_all (plain_field (plain depth)) (takeWhile (\<lambda>f. tag f \<noteq> 0) fs)"

section \<open>What it means to write bytes\<close>

definition writes :: "(pb_ostream \<Rightarrow> enc_result) \<Rightarrow> byte list \<Rightarrow> bool" where
  "writes g bs \<longleftrightarrow>
     (\<forall>s. sink s = Sizing \<and> bytes_written s < SIZE_MOD \<longrightarrow>
        g s = Some (True, s\<lparr>bytes_written := (bytes_written s + length bs) mod SIZE_MOD\<rparr>)) \<and>
     (\<forall>s ds. sink s = Buffer_sink ds \<and> os_errmsg s = None \<and> bytes_written s \<le> max_size s \<and>
        bytes_written s + length bs < SIZE_MOD \<longrightarrow>
        (if bytes_written s + length bs \<le> max_size s
         then g s = Some (True, s\<lparr>sink := Buffer_sink (ds @ bs), bytes_written := bytes_written s + length bs\<rparr>)
         else \<exists>s'. g s = Some (False, s')))"

definition fails :: "(pb_ostream \<Rightarrow> enc_result) \<Rightarrow> bool" where
  "fails g \<longleftrightarrow> (\<forall>s. \<exists>s'. g s = Some (False, s'))"

definition returns :: "(pb_ostream \<Rightarrow> enc_result) \<Rightarrow> bool" where
  "returns g \<longleftrightarrow> (\<forall>s. g s \<noteq> None)"

definition implements :: "(pb_ostream \<Rightarrow> enc_result) \<Rightarrow> byte list option \<Rightarrow> bool" where
  "implements g r \<longleftrightarrow> returns g \<and>
     (case r of None \<Rightarrow> fails g | Some bs \<Rightarrow> length bs < SIZE_MOD \<longrightarrow> writes g bs)"

definition seq :: "(pb_ostream \<Rightarrow> enc_result) \<Rightarrow> (pb_ostream \<Rightarrow> enc_result) \<Rightarrow> pb_ostream \<Rightarrow> enc_result" where
  "seq g h s = do { (ok, s') \<leftarrow> g s; if \<not> ok then Some (False, s') else h s' }"

lemma writes_write:
  assumes "length bs < SIZE_MOD"
  shows "writes (\<lambda>s. Some (pb_write s bs (length bs))) bs"
  unfolding writes_def by (auto simp: pb_write_def buf_write_def)

lemma implements_write: "length bs < SIZE_MOD \<Longrightarrow> implements (\<lambda>s. Some (pb_write s bs (length bs))) (Some bs)"
  by (simp add: implements_def writes_write returns_def)

lemma implements_fail: "implements (\<lambda>s. Some (False, k s)) None"
  by (simp add: implements_def fails_def returns_def)

lemma implements_done: "implements (\<lambda>s. Some (True, s)) (Some [])"
  by (simp add: implements_def writes_def returns_def)

lemma returnsE:
  assumes "returns g"
  obtains ok s' where "g s = Some (ok, s')"
  using assms by (metis option.exhaust surj_pair returns_def)

lemma returns_seq: "returns g \<Longrightarrow> returns h \<Longrightarrow> returns (seq g h)"
proof -
  assume g: "returns g" and h: "returns h"
  have "seq g h s \<noteq> None" for s
  proof -
    from g obtain ok s1 where "g s = Some (ok, s1)" by (rule returnsE)
    with h show ?thesis by (cases ok) (auto simp: seq_def returns_def)
  qed
  then show ?thesis by (simp add: returns_def)
qed

lemma writes_seq:
  assumes "writes g a" "writes h b"
  shows "writes (seq g h) (a @ b)"
  unfolding writes_def
proof (intro conjI allI impI)
  fix s :: pb_ostream assume "sink s = Sizing \<and> bytes_written s < SIZE_MOD"
  with assms show "seq g h s = Some (True, s\<lparr>bytes_written := (bytes_written s + length (a @ b)) mod SIZE_MOD\<rparr>)"
    by (simp add: writes_def seq_def mod_simps add.assoc)
next
  fix s :: pb_ostream and ds assume s: "sink s = Buffer_sink ds \<and> os_errmsg s = None \<and> bytes_written s \<le> max_size s \<and>
      bytes_written s + length (a @ b) < SIZE_MOD"
  show "if bytes_written s + length (a @ b) \<le> max_size s
     then seq g h s = Some (True, s\<lparr>sink := Buffer_sink (ds @ a @ b), bytes_written := bytes_written s + length (a @ b)\<rparr>)
     else \<exists>s'. seq g h s = Some (False, s')"
  proof (cases "bytes_written s + length a \<le> max_size s")
    case True
    let ?s = "s\<lparr>sink := Buffer_sink (ds @ a), bytes_written := bytes_written s + length a\<rparr>"
    from True s assms(1) have "g s = Some (True, ?s)" by (simp add: writes_def)
    moreover have "if bytes_written ?s + length b \<le> max_size ?s
        then h ?s = Some (True, ?s\<lparr>sink := Buffer_sink ((ds @ a) @ b), bytes_written := bytes_written ?s + length b\<rparr>)
        else \<exists>s'. h ?s = Some (False, s')"
      using True s assms(2) unfolding writes_def by (auto simp del: append_assoc)
    ultimately show ?thesis by (auto simp: seq_def add.assoc split: if_splits)
  next
    case False
    with s assms(1) have "\<exists>s'. g s = Some (False, s')" by (auto simp: writes_def)
    with False show ?thesis by (auto simp: seq_def)
  qed
qed

lemma implements_seq:
  assumes "implements g r1" "implements h r2"
  shows "implements (seq g h) (then_emit r1 r2)"
proof (cases "then_emit r1 r2")
  case None
  then have "r1 = None \<or> r2 = None" by (auto simp: then_emit_def split: option.splits Option.bind_splits)
  moreover have "fails (seq g h)" if "fails g"
    unfolding fails_def
  proof
    fix s from that obtain s1 where "g s = Some (False, s1)" by (auto simp: fails_def)
    then show "\<exists>s'. seq g h s = Some (False, s')" by (simp add: seq_def)
  qed
  moreover have "fails (seq g h)" if "returns g" "fails h"
    unfolding fails_def
  proof
    fix s
    from that(1) obtain ok s1 where "g s = Some (ok, s1)" by (rule returnsE)
    with that(2) show "\<exists>s'. seq g h s = Some (False, s')" by (auto simp: fails_def seq_def)
  qed
  ultimately show ?thesis using None assms by (auto simp: implements_def returns_seq)
next
  case (Some bs)
  then obtain a b where "r1 = Some a" "r2 = Some b" "bs = a @ b"
    by (auto simp: then_emit_def split: Option.bind_splits)
  then show ?thesis using Some assms by (auto simp: implements_def returns_seq writes_seq)
qed


section \<open>Submessages\<close>

lemma implements_varint: "implements (\<lambda>s. Some (pb_encode_varint s v)) (Some (varint_wire v))"
  using varint.wire_bounds [of v] by (simp add: pb_encode_varint_wire implements_write)

lemma writesE_sizing:
  assumes "writes g bs" "sink s = Sizing" "bytes_written s < SIZE_MOD"
  shows "g s = Some (True, s\<lparr>bytes_written := (bytes_written s + length bs) mod SIZE_MOD\<rparr>)"
  using assms by (simp add: writes_def)

lemma writesE_buffer:
  assumes "writes g bs" "sink s = Buffer_sink ds" "os_errmsg s = None" "bytes_written s \<le> max_size s"
    "bytes_written s + length bs < SIZE_MOD"
  shows "if bytes_written s + length bs \<le> max_size s
         then g s = Some (True, s\<lparr>sink := Buffer_sink (ds @ bs), bytes_written := bytes_written s + length bs\<rparr>)
         else \<exists>s'. g s = Some (False, s')"
  using assms unfolding writes_def by blast

lemma sizing_stream [simp]:
  "sink PB_OSTREAM_SIZING = Sizing" "bytes_written PB_OSTREAM_SIZING = 0" "os_errmsg PB_OSTREAM_SIZING = None"
  by (simp_all add: PB_OSTREAM_SIZING_def)

lemma returns_submessage:
  assumes "returns (\<lambda>s. enc s fs src m)"
  shows "returns (\<lambda>s. pb_encode_submessage enc s fs src m)"
  unfolding returns_def
proof
  fix s
  from assms obtain ok sub where 1: "enc PB_OSTREAM_SIZING fs src m = Some (ok, sub)" by (rule returnsE)
  obtain ok1 s1 where 2: "pb_encode_varint s (of_nat (bytes_written sub)) = (ok1, s1)" by fastforce
  from assms obtain status sub2 where
    3: "enc \<lparr>sink = sink s1, max_size = bytes_written sub, bytes_written = 0, os_errmsg = None\<rparr> fs src m =
          Some (status, sub2)" by (rule returnsE)
  show "pb_encode_submessage enc s fs src m \<noteq> None"
    using 1 2 3 by (auto simp: pb_encode_submessage_def Let_def split: bool.splits)
qed

lemma writes_submessage:
  assumes w: "writes (\<lambda>s. enc s fs src m) bs" and small: "length (string_wire bs) < SIZE_MOD"
  shows "writes (\<lambda>s. pb_encode_submessage enc s fs src m) (string_wire bs)"
  unfolding writes_def
proof (intro conjI allI impI)
  let ?p = "varint_wire (of_nat (length bs))"
  have len: "length bs < SIZE_MOD" using small by (simp add: string_wire_def)
  have size: "enc PB_OSTREAM_SIZING fs src m = Some (True, PB_OSTREAM_SIZING\<lparr>bytes_written := length bs\<rparr>)"
    using writesE_sizing [OF w, of PB_OSTREAM_SIZING] len by simp
  have prefix: "writes (\<lambda>s. Some (pb_encode_varint s (of_nat (length bs)))) ?p"
    using varint.wire_bounds(2) [of "of_nat (length bs)"] by (simp add: pb_encode_varint_wire writes_write)
  fix s :: pb_ostream
  {
    assume s: "sink s = Sizing \<and> bytes_written s < SIZE_MOD"
    then show "pb_encode_submessage enc s fs src m =
        Some (True, s\<lparr>bytes_written := (bytes_written s + length (string_wire bs)) mod SIZE_MOD\<rparr>)"
      using writesE_sizing [OF prefix, of s] size
      by (simp add: pb_encode_submessage_def pb_write_def string_wire_def mod_simps add.assoc Let_def)
  next
    fix ds
    assume s: "sink s = Buffer_sink ds \<and> os_errmsg s = None \<and> bytes_written s \<le> max_size s \<and>
        bytes_written s + length (string_wire bs) < SIZE_MOD"
    show "if bytes_written s + length (string_wire bs) \<le> max_size s
       then pb_encode_submessage enc s fs src m =
         Some (True, s\<lparr>sink := Buffer_sink (ds @ string_wire bs), bytes_written := bytes_written s + length (string_wire bs)\<rparr>)
       else \<exists>s'. pb_encode_submessage enc s fs src m = Some (False, s')"
    proof (cases "bytes_written s + length ?p \<le> max_size s")
      case False
      with writesE_buffer [OF prefix, of s ds] s obtain s1 where
        "pb_encode_varint s (of_nat (length bs)) = (False, s1)" by (auto simp: string_wire_def)
      with False size show ?thesis by (simp add: pb_encode_submessage_def string_wire_def)
    next
      case True
      let ?s1 = "s\<lparr>sink := Buffer_sink (ds @ ?p), bytes_written := bytes_written s + length ?p\<rparr>"
      let ?sub = "\<lparr>sink = sink ?s1, max_size = length bs, bytes_written = 0, os_errmsg = None\<rparr>"
      have v: "pb_encode_varint s (of_nat (length bs)) = (True, ?s1)"
        using True writesE_buffer [OF prefix, of s ds] s by (auto simp: string_wire_def)
      have "enc ?sub fs src m = Some (True, ?sub\<lparr>sink := Buffer_sink ((ds @ ?p) @ bs), bytes_written := length bs\<rparr>)"
        using writesE_buffer [OF w, of ?sub "ds @ ?p"] len by simp
      with True v s size show ?thesis
        by (auto simp: pb_encode_submessage_def string_wire_def add.assoc Let_def)
    qed
  }
qed

lemma fails_submessage:
  assumes "fails (\<lambda>s. enc s fs src m)"
  shows "fails (\<lambda>s. pb_encode_submessage enc s fs src m)"
proof -
  obtain sub where "enc PB_OSTREAM_SIZING fs src m = Some (False, sub)" using assms by (auto simp: fails_def)
  then show ?thesis by (simp add: fails_def pb_encode_submessage_def)
qed

lemma implements_submessage:
  assumes "implements (\<lambda>s. enc s fs src m) r"
  shows "implements (\<lambda>s. pb_encode_submessage enc s fs src m) (map_option string_wire r)"
  using assms returns_submessage [of enc fs src m] fails_submessage [of enc fs src m]
    writes_submessage [of enc fs src m]
  by (auto simp: implements_def string_wire_def split: option.splits)

section \<open>Values\<close>

lemma implements_if: "(c \<Longrightarrow> implements g a) \<Longrightarrow> (\<not> c \<Longrightarrow> implements g b) \<Longrightarrow> implements g (if c then a else b)"
  by simp

lemma implements_string:
  assumes "length bs < SIZE_MOD"
  shows "implements (\<lambda>s. Some (pb_encode_string s bs (length bs))) (Some (string_wire bs))"
proof -
  have "(\<lambda>s. Some (pb_encode_string s bs (length bs))) =
      seq (\<lambda>s. Some (pb_encode_varint s (of_nat (length bs)))) (\<lambda>s. Some (pb_write s bs (length bs)))"
    by (rule ext) (auto simp: seq_def pb_encode_string_def split: prod.splits bool.splits)
  then show ?thesis
    using implements_seq [OF implements_varint [of "of_nat (length bs)"] implements_write [OF assms]]
    by (simp add: then_emit_def string_wire_def)
qed

lemma implements_loaded: "n < SIZE_MOD \<Longrightarrow>
    implements (\<lambda>s. Some (pb_encode_string s (load_bytes m a n) n)) (Some (string_wire (load_bytes m a n)))"
  using implements_string [of "load_bytes m a n"] by simp

lemma c_strnlen_le: "c_strnlen m p k \<le> k"
  by (induction m p k rule: c_strnlen.induct) (subst c_strnlen.simps, auto)

lemma implements_value:
  assumes plain: "plain_field ok f"
    and sub: "\<And>fs. fptr f = Submsg_fields fs \<Longrightarrow> ok fs \<Longrightarrow> implements (\<lambda>s. enc s fs p m) (sub fs p m)"
  shows "implements (\<lambda>s. PB_ENCODERS enc (PB_LTYPE (ftype f)) s f p m) (emit_value sub f p m)"
proof -
  let ?l = "PB_LTYPE (ftype f)"
  have ds: "data_size f < SIZE_MOD" using plain by (simp add: plain_field_def Let_def)
  have l4: "load 4 m p < SIZE_MOD" using load_bound [of 4 m p] by simp
  have sn: "c_strnlen m p k < SIZE_MOD" if "k < SIZE_MOD" for k
    using c_strnlen_le [of m p k] that by linarith
  note leaf = implements_varint implements_fail implements_loaded [OF ds] implements_string [of "[]", simplified]
  consider "?l = PB_LTYPE_BOOL" | "?l = PB_LTYPE_VARINT" | "?l = PB_LTYPE_UVARINT" | "?l = PB_LTYPE_SVARINT"
    | "?l = PB_LTYPE_FIXED32" | "?l = PB_LTYPE_FIXED64" | "?l = PB_LTYPE_BYTES" | "?l = PB_LTYPE_STRING"
    | "?l = PB_LTYPE_SUBMESSAGE" | "?l = PB_LTYPE_FIXED_LENGTH_BYTES"
    using plain ltype_cases [of ?l] by (auto simp: plain_field_def Let_def)
  then show ?thesis
  proof cases
    case 1
    then show ?thesis using leaf by (simp add: PB_ENCODERS_def emit_value_def pb_enc_bool_def layout_defs)
  next
    case 2
    then show ?thesis using leaf
      by (cases "int_size (data_size f)") (simp_all add: PB_ENCODERS_def emit_value_def pb_enc_varint_def layout_defs)
  next
    case 3
    then show ?thesis using leaf
      by (cases "int_size (data_size f)") (simp_all add: PB_ENCODERS_def emit_value_def pb_enc_uvarint_def layout_defs)
  next
    case 4
    then show ?thesis using leaf
      by (cases "int_size (data_size f)")
        (simp_all add: PB_ENCODERS_def emit_value_def pb_enc_svarint_def pb_encode_svarint_def layout_defs)
  next
    case 5
    then show ?thesis using implements_write [of "fixed32_bytes (of_nat (load 4 m p))"]
      by (simp add: PB_ENCODERS_def emit_value_def pb_enc_fixed32_def pb_encode_fixed32_def layout_defs)
  next
    case 6
    then show ?thesis using implements_write [of "fixed64_bytes (of_nat (load 8 m p))"]
      by (simp add: PB_ENCODERS_def emit_value_def pb_enc_fixed64_def pb_encode_fixed64_def layout_defs)
  next
    case 7
    have "PB_BYTES_ARRAY_T_ALLOCSIZE (load 4 m p) = load 4 m p + 4"
      using load_bound [of 4 m p] by (simp add: PB_BYTES_ARRAY_T_ALLOCSIZE_def)
    with 7 show ?thesis using leaf implements_loaded [OF l4, of m "p + 4"]
      by (auto simp: PB_ENCODERS_def emit_value_def pb_enc_bytes_def layout_defs Let_def)
  next
    case 8
    then show ?thesis using leaf implements_loaded [OF sn, of _ m p] ds
      by (auto simp: PB_ENCODERS_def emit_value_def pb_enc_string_def layout_defs Let_def load_bytes_def)
  next
    case 9
    then show ?thesis using plain sub leaf
      by (auto simp: PB_ENCODERS_def emit_value_def pb_enc_submessage_def plain_field_def Let_def layout_defs
          intro!: implements_submessage split: pb_field_ptr.splits)
  next
    case 10
    then show ?thesis using leaf
      by (simp add: PB_ENCODERS_def emit_value_def pb_enc_fixed_length_bytes_def layout_defs)
  qed
qed

section \<open>Arrays\<close>

lemma implements_items:
  assumes "\<And>q. implements (\<lambda>s. g s q) (r q)"
  shows "implements (encode_items g step n p) (emit_all (map (\<lambda>i. r (p + step * i)) [0..<n]))"
proof (induction n arbitrary: p)
  case 0
  then show ?case by (simp add: implements_done fun_eq_iff [symmetric])
next
  case (Suc n)
  have "encode_items g step (Suc n) p = seq (\<lambda>s. g s p) (encode_items g step n (p + step))"
    by (rule ext) (simp add: seq_def)
  moreover have "map (\<lambda>i. r (p + step * i)) [0..<Suc n] = r p # map (\<lambda>i. r ((p + step) + step * i)) [0..<n]"
    by (subst upt_conv_Cons) (auto simp: map_Suc_upt [symmetric] add.assoc simp del: upt_Suc)
  ultimately show ?case using implements_seq [OF assms Suc.IH, of p "p + step"] by simp
qed

lemma length_emit_all:
  assumes "emit_all (map r xs) = Some bs" "\<And>x. x \<in> set xs \<Longrightarrow> \<exists>b. r x = Some b \<and> length b = k"
  shows "length bs = k * length xs"
  using assms by (induction xs arbitrary: bs) (fastforce simp: then_emit_def split: Option.bind_splits)+

lemma wiretype_plain: "plain_field ok f \<Longrightarrow> wiretype_of (ftype f) = Some (wire_type f)"
  using ltype_cases [of "PB_LTYPE (ftype f)"]
  by (auto simp: plain_field_def wiretype_of_def wire_type_def Let_def)

lemma implements_tag: "implements (\<lambda>s. Some (pb_encode_tag s wt (tag f))) (Some (emit_tag wt f))"
  using implements_varint [of "tag_value (wt, tag f)"]
  by (simp add: pb_encode_tag_def emit_tag_def tag_value_def)

lemma implements_single:
  assumes "plain_field ok f" "implements (\<lambda>s. func s f p m) (emit_value sub f p m)"
  shows "implements (\<lambda>s. case pb_encode_tag_for_field s f of (False, s1) \<Rightarrow> Some (False, s1) | (True, s1) \<Rightarrow> func s1 f p m)
           (emit_single sub f p m)"
proof -
  have "(\<lambda>s. case pb_encode_tag_for_field s f of (False, s1) \<Rightarrow> Some (False, s1) | (True, s1) \<Rightarrow> func s1 f p m) =
      seq (\<lambda>s. Some (pb_encode_tag s (wire_type f) (tag f))) (\<lambda>s. func s f p m)"
    by (rule ext) (auto simp: seq_def pb_encode_tag_for_field_def wiretype_plain [OF assms(1)] split: prod.splits bool.splits)
  then show ?thesis using implements_seq [OF implements_tag assms(2)] by (simp add: emit_single_def)
qed

text \<open>
  The packed form: a length found by a pass over a sizing stream (or computed, for fixed widths), then
  the items.
\<close>

definition packed :: "(pb_ostream \<Rightarrow> enc_result) \<Rightarrow> (bool \<times> nat) option \<Rightarrow> pb_ostream \<Rightarrow> enc_result" where
  "packed items sz s1 =
     do {
       (ok, size) \<leftarrow> sz;
       if \<not> ok then Some (False, s1)
       else
         case pb_encode_varint s1 (of_nat size) of
           (False, s2) \<Rightarrow> Some (False, s2)
         | (True, s2) \<Rightarrow> if is_Sizing (sink s2) then Some (pb_write s2 [] size) else items s2
     }"

lemma writes_packed:
  assumes "writes items bs" "length (string_wire bs) < SIZE_MOD"
  shows "writes (packed items (Some (True, length bs))) (string_wire bs)"
proof -
  have w: "writes (seq (\<lambda>s. Some (pb_encode_varint s (of_nat (length bs)))) items) (string_wire bs)"
    using assms implements_varint [of "of_nat (length bs)"]
    by (simp add: string_wire_def writes_seq implements_def varint.wire_bounds(2))
  show ?thesis
    unfolding writes_def
  proof (intro conjI allI impI)
    fix s :: pb_ostream assume s: "sink s = Sizing \<and> bytes_written s < SIZE_MOD"
    then show "packed items (Some (True, length bs)) s =
        Some (True, s\<lparr>bytes_written := (bytes_written s + length (string_wire bs)) mod SIZE_MOD\<rparr>)"
      by (simp add: packed_def pb_encode_varint_wire pb_write_def string_wire_def mod_simps add.assoc)
  next
    fix s :: pb_ostream and ds
    assume s: "sink s = Buffer_sink ds \<and> os_errmsg s = None \<and> bytes_written s \<le> max_size s \<and>
        bytes_written s + length (string_wire bs) < SIZE_MOD"
    have "packed items (Some (True, length bs)) s = seq (\<lambda>s. Some (pb_encode_varint s (of_nat (length bs)))) items s"
      using s by (auto simp: packed_def seq_def pb_encode_varint_wire pb_write_def buf_write_def split: prod.splits bool.splits)
    with w s show "if bytes_written s + length (string_wire bs) \<le> max_size s
       then packed items (Some (True, length bs)) s =
         Some (True, s\<lparr>sink := Buffer_sink (ds @ string_wire bs), bytes_written := bytes_written s + length (string_wire bs)\<rparr>)
       else \<exists>s'. packed items (Some (True, length bs)) s = Some (False, s')"
      unfolding writes_def by auto
  qed
qed

lemma returns_packed: "returns items \<Longrightarrow> sz \<noteq> None \<Longrightarrow> returns (packed items sz)"
  by (auto simp: returns_def packed_def split: prod.splits bool.splits)

lemma implements_packed:
  assumes "implements items r"
    and "sz = None \<Longrightarrow> False" "r = None \<Longrightarrow> \<exists>n. sz = Some (False, n)"
    and "\<And>bs. r = Some bs \<Longrightarrow> length bs < SIZE_MOD \<Longrightarrow> sz = Some (True, length bs)"
  shows "implements (packed items sz) (map_option string_wire r)"
proof (cases r)
  case None
  with assms(3) obtain n where n: "sz = Some (False, n)" by auto
  then have "fails (packed items sz)" by (simp add: fails_def packed_def)
  moreover have "returns (packed items sz)" using assms(1) n by (auto simp: implements_def intro: returns_packed)
  ultimately show ?thesis using None by (simp add: implements_def)
next
  case (Some bs)
  have "returns (packed items sz)" using assms(1,2) by (auto simp: implements_def intro: returns_packed)
  moreover have "writes (packed items sz) (string_wire bs)" if "length (string_wire bs) < SIZE_MOD"
  proof -
    have "length bs < SIZE_MOD" using that by (simp add: string_wire_def)
    then show ?thesis using assms(1) assms(4) [OF Some] Some that by (simp add: implements_def writes_packed)
  qed
  ultimately show ?thesis using Some by (simp add: implements_def)
qed

definition array_size_pass :: "pb_field \<Rightarrow> (pb_ostream \<Rightarrow> enc_result) \<Rightarrow> nat \<Rightarrow> (bool \<times> nat) option" where
  "array_size_pass f items count =
     (let l = PB_LTYPE (ftype f) in
      if l = PB_LTYPE_FIXED32 then Some (True, 4 * count)
      else if l = PB_LTYPE_FIXED64 then Some (True, 8 * count)
      else do { (ok, st) \<leftarrow> items PB_OSTREAM_SIZING; Some (ok, bytes_written st) })"

lemma encode_array_packed:
  assumes "count \<noteq> 0" "\<not> (PB_ATYPE (ftype f) \<noteq> PB_ATYPE_POINTER \<and> count > array_size f)"
    and "PB_LTYPE (ftype f) \<le> PB_LTYPE_LAST_PACKABLE"
  shows "(\<lambda>s. encode_array func s f p count m) =
     seq (\<lambda>s. Some (pb_encode_tag s PB_WT_STRING (tag f)))
       (let items = encode_items (\<lambda>s q. func s f q m) (data_size f) count p in
        packed items (array_size_pass f items count))"
  using assms
  by (intro ext) (auto simp: encode_array_def seq_def packed_def array_size_pass_def Let_def
      split: prod.splits bool.splits)

lemma encode_array_single:
  assumes "count \<noteq> 0" "\<not> (PB_ATYPE (ftype f) \<noteq> PB_ATYPE_POINTER \<and> count > array_size f)"
    and "\<not> PB_LTYPE (ftype f) \<le> PB_LTYPE_LAST_PACKABLE"
  shows "encode_array func s f p count m =
     encode_items
       (\<lambda>s q. case pb_encode_tag_for_field s f of
                (False, s1) \<Rightarrow> Some (False, s1)
              | (True, s1) \<Rightarrow>
                  func s1 f (if PB_ATYPE (ftype f) = PB_ATYPE_POINTER \<and>
                       (PB_LTYPE (ftype f) = PB_LTYPE_STRING \<or> PB_LTYPE (ftype f) = PB_LTYPE_BYTES)
                     then load_ptr m q else q) m)
       (data_size f) count p s"
  by (simp only: encode_array_def Let_def assms if_False if_distrib [of "\<lambda>q. func s1 f q m" for s1])

lemma emit_array_single:
  assumes "count \<noteq> 0" "\<not> (PB_ATYPE (ftype f) \<noteq> PB_ATYPE_POINTER \<and> count > array_size f)"
    and "\<not> PB_LTYPE (ftype f) \<le> PB_LTYPE_LAST_PACKABLE"
  shows "emit_array sub f p count m = emit_all (map (\<lambda>i. emit_single sub f (item_at f p m i) m) [0..<count])"
  by (simp only: emit_array_def Let_def assms if_False map_map comp_def)

lemma item_at_packable:
  "PB_LTYPE (ftype f) \<le> PB_LTYPE_LAST_PACKABLE \<Longrightarrow> item_at f p m i = p + data_size f * i"
  by (auto simp: item_at_def Let_def layout_defs)

lemma emit_value_fixed:
  "PB_LTYPE (ftype f) = PB_LTYPE_FIXED32 \<Longrightarrow> \<exists>b. emit_value sub f q m = Some b \<and> length b = 4"
  "PB_LTYPE (ftype f) = PB_LTYPE_FIXED64 \<Longrightarrow> \<exists>b. emit_value sub f q m = Some b \<and> length b = 8"
  by (simp_all add: emit_value_def layout_defs)

lemma emit_all_fixed:
  assumes "\<And>x. \<exists>b. r x = Some b \<and> length b = k"
  shows "\<exists>bs. emit_all (map r xs) = Some bs \<and> length bs = k * length xs"
proof (induction xs)
  case (Cons x xs)
  from assms [of x] obtain b where "r x = Some b" "length b = k" by auto
  with Cons show ?case by (auto simp: then_emit_def)
qed simp

lemma array_size_pass_spec:
  assumes "implements items r" and r: "r = emit_all (map (\<lambda>q. emit_value sub f q m) qs)" "length qs = count"
  shows "array_size_pass f items count \<noteq> None"
    and "r = None \<Longrightarrow> \<exists>n. array_size_pass f items count = Some (False, n)"
    and "r = Some bs \<Longrightarrow> length bs < SIZE_MOD \<Longrightarrow> array_size_pass f items count = Some (True, length bs)"
proof -
  have fixed4: "\<exists>bs. r = Some bs \<and> length bs = 4 * count" if "PB_LTYPE (ftype f) = PB_LTYPE_FIXED32"
    using emit_all_fixed [where r = "\<lambda>q. emit_value sub f q m" and k = 4 and xs = qs] emit_value_fixed(1) [OF that] r
    by simp
  have fixed8: "\<exists>bs. r = Some bs \<and> length bs = 8 * count" if "PB_LTYPE (ftype f) = PB_LTYPE_FIXED64"
    using emit_all_fixed [where r = "\<lambda>q. emit_value sub f q m" and k = 8 and xs = qs] emit_value_fixed(2) [OF that] r
    by simp
  from assms(1) obtain ok st where st: "items PB_OSTREAM_SIZING = Some (ok, st)"
    using returnsE [of items PB_OSTREAM_SIZING] by (auto simp: implements_def)
  show "array_size_pass f items count \<noteq> None" using st by (auto simp: array_size_pass_def Let_def)
  show "r = None \<Longrightarrow> \<exists>n. array_size_pass f items count = Some (False, n)"
    using st fixed4 fixed8 assms(1) by (auto simp: array_size_pass_def Let_def implements_def fails_def)
      (metis option.inject prod.inject)
  show "array_size_pass f items count = Some (True, length bs)" if "r = Some bs" "length bs < SIZE_MOD"
    using that fixed4 fixed8 assms(1) writesE_sizing [of items bs PB_OSTREAM_SIZING]
    by (auto simp: array_size_pass_def Let_def implements_def)
qed

lemma then_emit_map: "then_emit (Some a) (map_option g r) = map_option (\<lambda>b. a @ g b) r"
  by (cases r) (simp_all add: then_emit_def)

lemma implements_array:
  assumes plain: "plain_field ok f"
    and val: "\<And>q. implements (\<lambda>s. func s f q m) (emit_value sub f q m)"
  shows "implements (\<lambda>s. encode_array func s f p count m) (emit_array sub f p count m)"
proof -
  let ?a = "PB_ATYPE (ftype f)" and ?l = "PB_LTYPE (ftype f)"
  consider (empty) "count = 0" | (long) "count \<noteq> 0" "?a \<noteq> PB_ATYPE_POINTER \<and> count > array_size f"
    | (packed) "count \<noteq> 0" "\<not> (?a \<noteq> PB_ATYPE_POINTER \<and> count > array_size f)" "?l \<le> PB_LTYPE_LAST_PACKABLE"
    | (single) "count \<noteq> 0" "\<not> (?a \<noteq> PB_ATYPE_POINTER \<and> count > array_size f)" "\<not> ?l \<le> PB_LTYPE_LAST_PACKABLE"
    by blast
  then show ?thesis
  proof cases
    case empty
    then show ?thesis by (simp add: encode_array_def emit_array_def implements_done)
  next
    case long
    then show ?thesis by (simp add: encode_array_def emit_array_def implements_fail)
  next
    case packed
    let ?items = "encode_items (\<lambda>s q. func s f q m) (data_size f) count p"
    let ?qs = "map (\<lambda>i. p + data_size f * i) [0..<count]"
    have items: "implements ?items (emit_all (map (\<lambda>q. emit_value sub f q m) ?qs))"
      using implements_items [of "\<lambda>s q. func s f q m" "\<lambda>q. emit_value sub f q m" "data_size f" count p] val
      by (simp add: comp_def)
    have "implements (packed ?items (array_size_pass f ?items count))
        (map_option string_wire (emit_all (map (\<lambda>q. emit_value sub f q m) ?qs)))"
      using array_size_pass_spec [OF items refl] by (intro implements_packed items) auto
    from implements_seq [OF implements_tag this, of PB_WT_STRING f] show ?thesis
      using packed by (auto simp: encode_array_packed emit_array_def item_at_packable then_emit_map Let_def)
  next
    case single
    let ?it = "\<lambda>q. if ?a = PB_ATYPE_POINTER \<and> (?l = PB_LTYPE_STRING \<or> ?l = PB_LTYPE_BYTES) then load_ptr m q else q"
    let ?g = "\<lambda>s q. case pb_encode_tag_for_field s f of (False, s1) \<Rightarrow> Some (False, s1) | (True, s1) \<Rightarrow> func s1 f (?it q) m"
    have "implements (encode_items ?g (data_size f) count p)
        (emit_all (map (\<lambda>i. emit_single sub f (?it (p + data_size f * i)) m) [0..<count]))"
      by (rule implements_items, rule implements_single [OF plain]) (rule val)
    then show ?thesis
      by (simp only: encode_array_single [OF single] emit_array_single [OF single] item_at_def Let_def)
  qed
qed

section \<open>Fields and messages\<close>

lemma htype_distinct [simp]:
  "PB_HTYPE_REQUIRED \<noteq> PB_HTYPE_OPTIONAL" "PB_HTYPE_REQUIRED \<noteq> PB_HTYPE_REPEATED" "PB_HTYPE_REQUIRED \<noteq> PB_HTYPE_ONEOF"
  "PB_HTYPE_OPTIONAL \<noteq> PB_HTYPE_REQUIRED" "PB_HTYPE_OPTIONAL \<noteq> PB_HTYPE_REPEATED" "PB_HTYPE_OPTIONAL \<noteq> PB_HTYPE_ONEOF"
  "PB_HTYPE_REPEATED \<noteq> PB_HTYPE_REQUIRED" "PB_HTYPE_REPEATED \<noteq> PB_HTYPE_OPTIONAL" "PB_HTYPE_REPEATED \<noteq> PB_HTYPE_ONEOF"
  "PB_HTYPE_ONEOF \<noteq> PB_HTYPE_REQUIRED" "PB_HTYPE_ONEOF \<noteq> PB_HTYPE_OPTIONAL" "PB_HTYPE_ONEOF \<noteq> PB_HTYPE_REPEATED"
  by (simp_all add: layout_defs)

lemma htype_cases:
  "PB_HTYPE t = PB_HTYPE_REQUIRED \<or> PB_HTYPE t = PB_HTYPE_OPTIONAL \<or> PB_HTYPE t = PB_HTYPE_REPEATED \<or>
   PB_HTYPE t = PB_HTYPE_ONEOF"
  by (simp add: layout_defs byte_eq_iff bit_simps) blast

lemma implements_field:
  assumes plain: "plain_field ok f"
    and sub: "\<And>fs q. ok fs \<Longrightarrow> implements (\<lambda>s. enc s fs q m) (sub fs q m)"
  shows "implements (\<lambda>s. encode_field enc env s f pdata m) (emit_field sub f pdata m)"
proof -
  let ?func = "PB_ENCODERS enc (PB_LTYPE (ftype f))"
  have val: "implements (\<lambda>s. ?func s f q m) (emit_value sub f q m)" for q
    by (rule implements_value [OF plain]) (rule sub)
  have a: "PB_ATYPE (ftype f) = PB_ATYPE_STATIC \<or> PB_ATYPE (ftype f) = PB_ATYPE_POINTER"
    using plain by (simp add: plain_field_def Let_def)
  have single: "implements (\<lambda>s. case pb_encode_tag_for_field s f of (False, s1) \<Rightarrow> Some (False, s1)
      | (True, s1) \<Rightarrow> ?func s1 f q m) (emit_single sub f q m)" for q
    by (rule implements_single [OF plain]) (rule val)
  have array: "implements (\<lambda>s. encode_array ?func s f q n m) (emit_array sub f q n m)" for q n
    by (rule implements_array [OF plain]) (rule val)
  note rules = single array implements_fail implements_done
  from htype_cases [of "ftype f"] have "implements (\<lambda>s. encode_basic_field enc s f pdata m) (emit_field sub f pdata m)"
    apply (elim disjE)
    subgoal using rules by (simp add: encode_basic_field_def emit_field_def Let_def)
    subgoal using rules by (simp add: encode_basic_field_def emit_field_def field_present_def Let_def)
    subgoal using rules by (simp add: encode_basic_field_def emit_field_def Let_def)
    subgoal using rules by (simp add: encode_basic_field_def emit_field_def field_present_def Let_def)
    done
  then show ?thesis using a by (auto simp: encode_field_def Let_def)
qed

lemma implements_all:
  assumes "\<And>x. x \<in> set xs \<Longrightarrow> implements (\<lambda>s. g s x) (r x)"
  shows "implements (encode_fields g xs) (emit_all (map r xs))"
  using assms
proof (induction xs)
  case Nil
  then show ?case using implements_done by simp
next
  case (Cons x xs)
  have "encode_fields g (x # xs) = seq (\<lambda>s. g s x) (encode_fields g xs)" by (rule ext) (simp add: seq_def)
  then show ?case using implements_seq [of "\<lambda>s. g s x" "r x" "encode_fields g xs" "emit_all (map r xs)"] Cons by simp
qed

lemma walk_plain:
  assumes "plain (Suc d) fs" "it \<in> set (pb_fields_walk fs src)"
  shows "plain_field (plain d) (cur it)"
proof -
  from assms(2) obtain i where i: "i < nfields fs" "cur it = field_at fs i"
    by (auto simp: pb_fields_walk_eq cur_iter_at)
  then have "cur it = takeWhile (\<lambda>f. tag f \<noteq> 0) fs ! i"
    using nfields_le_length [of fs] by (simp add: field_at_def nfields_def takeWhile_nth)
  moreover have "plain_field (plain d) (takeWhile (\<lambda>f. tag f \<noteq> 0) fs ! i)"
    using i assms(1) by (simp add: list_all_length nfields_def)
  ultimately show ?thesis by simp
qed

lemma implements_pb_encode: "plain d fs \<Longrightarrow> implements (\<lambda>s. pb_encode d env s fs src m) (emit d fs src m)"
proof (induction d arbitrary: fs src)
  case (Suc d)
  have "implements (\<lambda>s. encode_iter (pb_encode d env) env m s it) (emit_field (emit d) (cur it) (pData it) m)"
    if "it \<in> set (pb_fields_walk fs src)" for it
  proof -
    have p: "plain_field (plain d) (cur it)" using walk_plain [OF Suc.prems that] .
    then have "PB_LTYPE (ftype (cur it)) \<noteq> PB_LTYPE_EXTENSION" by (simp add: plain_field_def Let_def)
    moreover have "implements (\<lambda>s. encode_field (pb_encode d env) env s (cur it) (pData it) m)
        (emit_field (emit d) (cur it) (pData it) m)"
      by (rule implements_field [OF p]) (rule Suc.IH)
    ultimately show ?thesis by (simp add: encode_iter_def)
  qed
  from implements_all [OF this] show ?case by simp
qed simp

lemma pb_encode_writes:
  assumes "plain depth fs" "emit depth fs src m = Some bs" "length bs < 2 ^ 64"
  shows "writes (\<lambda>s. pb_encode depth env s fs src m) bs"
  using implements_pb_encode [OF assms(1), of env src m] assms(2,3) by (simp add: implements_def)

section \<open>A small message\<close>

definition one_field :: "pb_field list" where
  "one_field = [Pb_field 1 0x02 0 0 4 0 Null_ptr]"

definition one_value :: cmem where
  "one_value = \<lparr>bytes = (\<lambda>a. if a = 8 then 5 else 0), blocks = [], objects = [], plan = [], fault = False,
     local_count = 0\<rparr>"

definition no_callbacks :: pb_env where
  "no_callbacks =
     \<lparr>env_decode = (\<lambda>_ s _ _ m. (False, s, m)), env_encode = (\<lambda>_ s _ _ m. (False, s)),
      env_extension = (\<lambda>_. \<lparr>ext_decode = None, ext_encode = None, ext_arg = PB_LAST_FIELD\<rparr>)\<rparr>"

lemma one_field_plain: "plain 1 one_field"
  by (simp add: one_field_def plain_field_def layout_defs)

lemma one_field_emit: "emit 1 one_field 8 one_value = Some [0x08, 0x05]"
proof -
  have "load 4 one_value 8 = 5" by (simp add: load_4 one_value_def)
  then show ?thesis
    by (simp add: one_field_def pb_fields_walk_eq nfields_def pb_field_iter_begin_def field_at_def
        cur_def emit_field_def emit_single_def emit_value_def then_emit_def emit_tag_def wire_type_def
        wiretype_of_def tag_value_def varint_wire_leb128 leb128.simps int_size_def layout_defs Let_def)
qed

section \<open>Properties\<close>

text \<open>
  C9. \<^verbatim>\<open>pb_encode\<close> into a buffer of \<open>n\<close> bytes succeeds exactly when the encoding of the message fits, and
  then the buffer holds exactly that encoding and \<^verbatim>\<open>bytes_written\<close> is its length.
\<close>

theorem pb_encode_refines_emit:
  assumes "plain depth fs" "emit depth fs src m = Some bs" "length bs < 2 ^ 64"
  shows "\<exists>ok s. pb_encode depth env (pb_ostream_from_buffer n) fs src m = Some (ok, s) \<and>
     (ok \<longleftrightarrow> length bs \<le> n) \<and> (ok \<longrightarrow> sink s = Buffer_sink bs \<and> bytes_written s = length bs)"
  using writesE_buffer [OF pb_encode_writes [OF assms], of "pb_ostream_from_buffer n" "[]" env] assms(3)
  by (auto simp: pb_ostream_from_buffer_def split: if_splits)

theorem pb_encode_refines_emit_witness:
  "\<exists>ok s. pb_encode 1 no_callbacks (pb_ostream_from_buffer 2) one_field 8 one_value = Some (ok, s) \<and>
     (ok \<longleftrightarrow> length [0x08, 0x05 :: byte] \<le> 2) \<and>
     (ok \<longrightarrow> sink s = Buffer_sink [0x08, 0x05] \<and> bytes_written s = length [0x08, 0x05 :: byte])"
  by (rule pb_encode_refines_emit [OF one_field_plain one_field_emit]) simp

text \<open>
  C23. \<^verbatim>\<open>pb_encode\<close> returns on every output stream, whatever the message holds, as long as its descriptors have
  no callbacks and extensions; and contents that cannot be encoded (a missing required field, too
  many array entries, an oversized bytes field, a bad integer size, in the message or in a submessage)
  make it return false on every stream.
\<close>

theorem pb_encode_total:
  assumes "plain depth fs"
  shows "\<exists>ok s'. pb_encode depth env s fs src m = Some (ok, s') \<and> (emit depth fs src m = None \<longrightarrow> \<not> ok)"
proof -
  note i = implements_pb_encode [OF assms, of env src m]
  show ?thesis
  proof (cases "emit depth fs src m")
    case None
    with i obtain s' where "pb_encode depth env s fs src m = Some (False, s')"
      by (auto simp: implements_def fails_def)
    then show ?thesis by blast
  next
    case (Some bs)
    from i have "returns (\<lambda>s. pb_encode depth env s fs src m)" by (simp add: implements_def)
    then obtain ok s' where "pb_encode depth env s fs src m = Some (ok, s')" by (rule returnsE)
    with Some show ?thesis by auto
  qed
qed

theorem pb_encode_total_witness:
  "\<exists>ok s'. pb_encode 1 no_callbacks PB_OSTREAM_SIZING one_field 8 one_value = Some (ok, s') \<and>
     (emit 1 one_field 8 one_value = None \<longrightarrow> \<not> ok)"
  by (rule pb_encode_total [OF one_field_plain])

text \<open>
  C21. The size \<^verbatim>\<open>pb_get_encoded_size\<close> reports is the length of the encoding: a buffer of that size is
  large enough for \<^verbatim>\<open>pb_encode\<close> and no smaller one is. It reports failure exactly when there is no encoding.
\<close>

theorem pb_get_encoded_size_exact:
  assumes "plain depth fs"
    and "\<forall>bs. emit depth fs src m = Some bs \<longrightarrow> length bs < 2 ^ 64"
  shows "\<exists>r. pb_get_encoded_size depth env fs src m = Some r \<and> r = map_option length (emit depth fs src m) \<and>
     (\<forall>n size. r = Some size \<longrightarrow>
        (size \<le> n \<longleftrightarrow> (\<exists>s. pb_encode depth env (pb_ostream_from_buffer n) fs src m = Some (True, s))))"
proof (cases "emit depth fs src m")
  case None
  with implements_pb_encode [OF assms(1), of env src m] obtain s' where
    "pb_encode depth env PB_OSTREAM_SIZING fs src m = Some (False, s')"
    by (auto simp: implements_def fails_def)
  with None show ?thesis by (simp add: pb_get_encoded_size_def)
next
  case (Some bs)
  with assms(2) have small: "length bs < 2 ^ 64" by simp
  note w = pb_encode_writes [OF assms(1) Some small, of env]
  from writesE_sizing [OF w, of PB_OSTREAM_SIZING] small
  have "pb_get_encoded_size depth env fs src m = Some (Some (length bs))"
    by (simp add: pb_get_encoded_size_def)
  moreover have "length bs \<le> n \<longleftrightarrow> (\<exists>s. pb_encode depth env (pb_ostream_from_buffer n) fs src m = Some (True, s))" for n
    using writesE_buffer [OF w, of "pb_ostream_from_buffer n" "[]"] small
    by (auto simp: pb_ostream_from_buffer_def split: if_splits)
  ultimately show ?thesis using Some by simp
qed

theorem pb_get_encoded_size_exact_witness:
  "\<exists>r. pb_get_encoded_size 1 no_callbacks one_field 8 one_value = Some r \<and>
     r = map_option length (emit 1 one_field 8 one_value) \<and>
     (\<forall>n size. r = Some size \<longrightarrow>
        (size \<le> n \<longleftrightarrow>
           (\<exists>s. pb_encode 1 no_callbacks (pb_ostream_from_buffer n) one_field 8 one_value = Some (True, s))))"
  by (rule pb_get_encoded_size_exact [OF one_field_plain]) (simp only: one_field_emit, simp)

text \<open>
  What \<^verbatim>\<open>pb_encode_delimited\<close> appends to a buffer is the encoding of the message with its length in
  front as a varint, and the length it writes in the first pass is never contradicted by the second.
\<close>

theorem pb_encode_delimited_wire:
  assumes "plain depth fs" "emit depth fs src m = Some bs" "length (string_wire bs) \<le> n" "n < 2 ^ 64"
  shows "pb_encode_delimited depth env (pb_ostream_from_buffer n) fs src m =
     Some (True, (pb_ostream_from_buffer n)\<lparr>sink := Buffer_sink (leb128 (length bs) @ bs),
                    bytes_written := length (leb128 (length bs)) + length bs\<rparr>)"
proof -
  have small: "length bs < 2 ^ 64" using assms(3,4) by (simp add: string_wire_def)
  have "writes (\<lambda>s. pb_encode_submessage (pb_encode depth env) s fs src m) (string_wire bs)"
    using assms(3,4) by (intro writes_submessage pb_encode_writes [OF assms(1,2) small]) simp
  from writesE_buffer [OF this, of "pb_ostream_from_buffer n" "[]"] show ?thesis
    using assms(3,4) string_wire_leb128 [OF small]
    by (simp add: pb_encode_delimited_def pb_ostream_from_buffer_def)
qed

theorem pb_encode_delimited_wire_witness:
  "pb_encode_delimited 1 no_callbacks (pb_ostream_from_buffer 9) one_field 8 one_value =
     Some (True, (pb_ostream_from_buffer 9)\<lparr>sink := Buffer_sink (leb128 (length [0x08, 0x05 :: byte]) @ [0x08, 0x05]),
                    bytes_written := length (leb128 (length [0x08, 0x05 :: byte])) + length [0x08, 0x05 :: byte]\<rparr>)"
  by (rule pb_encode_delimited_wire [OF one_field_plain one_field_emit])
    (simp_all add: string_wire_def varint_wire_leb128 leb128.simps)

end
