(* ===== verification/PB_Defaults.thy ===== *)
theory PB_Defaults
  imports PB_Common PB_Env
begin

text \<open>
  The parts of \<^verbatim>\<open>nanopb/pb_decode.c\<close> that touch only memory: default values (\<^verbatim>\<open>pb_field_set_to_default\<close>,
  \<^verbatim>\<open>pb_message_set_to_defaults\<close>) and release (\<^verbatim>\<open>pb_release_single_field\<close>, \<^verbatim>\<open>pb_release\<close>). Both recurse into
  submessages and extensions; the first argument bounds the nesting depth, and \<open>None\<close> means that the
  call does not return (depth used up, cyclic extension list, or a null descriptor dereferenced).
\<close>

section \<open>Access through the iterator\<close>

definition load_size :: "pb_field_iter \<Rightarrow> cmem \<Rightarrow> nat" where
  "load_size it m = (case pSize it of Size_at a \<Rightarrow> load 4 m a | Size_local \<Rightarrow> local_count m)"

definition store_size :: "nat \<Rightarrow> pb_field_iter \<Rightarrow> nat \<Rightarrow> cmem \<Rightarrow> cmem" where
  "store_size n it v m =
     (case pSize it of
        Size_at a \<Rightarrow> store n m a v
      | Size_local \<Rightarrow> m\<lparr>local_count := v mod 256 ^ n\<rparr>)"

definition iter_from_extension :: "pb_env \<Rightarrow> cmem \<Rightarrow> addr \<Rightarrow> pb_field_iter" where
  "iter_from_extension env m ext =
     (let f = extension_field env m ext;
          dest = load_ptr m (extension_dest ext);
          it = snd (pb_field_iter_begin [f] dest) in
      it\<lparr>pData := (if PB_ATYPE (ftype f) = PB_ATYPE_POINTER then extension_dest ext else dest),
         pSize := Size_at (extension_found ext)\<rparr>)"

text \<open>One call per field of a message.\<close>

fun each_field ::
  "(pb_field_iter \<Rightarrow> cmem \<Rightarrow> cmem option) \<Rightarrow> pb_field_iter list \<Rightarrow> cmem \<Rightarrow> cmem option" where
  "each_field g [] m = Some m"
| "each_field g (it # its) m = do { m' \<leftarrow> g it m; each_field g its m' }"

section \<open>Default values\<close>

partial_function (option) default_extensions ::
  "(pb_field_iter \<Rightarrow> cmem \<Rightarrow> cmem option) \<Rightarrow> pb_env \<Rightarrow> addr \<Rightarrow> cmem \<Rightarrow> cmem option" where
  [code]: "default_extensions g env ext m =
     (if ext = 0 then Some m
      else
        do {
          let m1 = store 1 m (extension_found ext) 0;
          m2 \<leftarrow> g (iter_from_extension env m1 ext) m1;
          default_extensions g env (load_ptr m2 (extension_next ext)) m2
        })"

primrec pb_field_set_to_default :: "nat \<Rightarrow> pb_env \<Rightarrow> pb_field_iter \<Rightarrow> cmem \<Rightarrow> cmem option" where
  "pb_field_set_to_default 0 env it m = None"
| "pb_field_set_to_default (Suc depth) env it m =
     (let f = cur it; ty = ftype f; h = PB_HTYPE ty; a = PB_ATYPE ty in
      if PB_LTYPE ty = PB_LTYPE_EXTENSION
      then default_extensions (pb_field_set_to_default depth env) env (load_ptr m (pData it)) m
      else if a = PB_ATYPE_STATIC then
        (let counted = (h = PB_HTYPE_REPEATED \<or> h = PB_HTYPE_ONEOF);
             m1 = (if h = PB_HTYPE_OPTIONAL \<and> pSize it \<noteq> Size_at (pData it) then store_size 1 it 0 m
                   else if counted then store_size 4 it 0 m
                   else m) in
         if counted then Some m1
         else if PB_LTYPE ty = PB_LTYPE_SUBMESSAGE then
           (case fptr f of
              Submsg_fields fs \<Rightarrow>
                each_field (pb_field_set_to_default depth env) (pb_fields_walk fs (pData it)) m1
            | _ \<Rightarrow> None)
         else
           (case fptr f of
              Default_value bs \<Rightarrow> Some (store_bytes m1 (pData it) (fill (data_size f) bs))
            | Null_ptr \<Rightarrow> Some (memset m1 (pData it) 0 (data_size f))
            | Submsg_fields _ \<Rightarrow> None))
      else if a = PB_ATYPE_POINTER then
        (let m1 = store_ptr m (pData it) 0 in
         Some (if h = PB_HTYPE_REPEATED \<or> h = PB_HTYPE_ONEOF then store_size 4 it 0 m1 else m1))
      else Some m)"

definition pb_message_set_to_defaults ::
  "nat \<Rightarrow> pb_env \<Rightarrow> pb_field list \<Rightarrow> addr \<Rightarrow> cmem \<Rightarrow> cmem option" where
  "pb_message_set_to_defaults depth env fs dest m =
     each_field (pb_field_set_to_default depth env) (pb_fields_walk fs dest) m"

section \<open>Release\<close>

partial_function (option) release_extensions ::
  "(pb_field_iter \<Rightarrow> cmem \<Rightarrow> cmem option) \<Rightarrow> pb_env \<Rightarrow> addr \<Rightarrow> cmem \<Rightarrow> cmem option" where
  [code]: "release_extensions g env ext m =
     (if ext = 0 then Some m
      else
        do {
          m1 \<leftarrow> g (iter_from_extension env m ext) m;
          release_extensions g env (load_ptr m1 (extension_next ext)) m1
        })"

text \<open>\<open>count\<close> calls of \<open>pb_release\<close>, one per array entry.\<close>

fun release_items :: "(addr \<Rightarrow> cmem \<Rightarrow> cmem option) \<Rightarrow> nat \<Rightarrow> nat \<Rightarrow> addr \<Rightarrow> cmem \<Rightarrow> cmem option" where
  "release_items g step 0 p m = Some m"
| "release_items g step (Suc n) p m = do { m' \<leftarrow> g p m; release_items g step n (p + step) m' }"

text \<open>Free the entries of a repeated string or bytes array and clear their pointers.\<close>

fun free_items :: "nat \<Rightarrow> addr \<Rightarrow> cmem \<Rightarrow> cmem" where
  "free_items 0 p m = m"
| "free_items (Suc n) p m = free_items n (p + 8) (store_ptr (c_free m (load_ptr m p)) p 0)"

definition release_pointer :: "pb_field_iter \<Rightarrow> cmem \<Rightarrow> cmem" where
  "release_pointer it m =
     (let ty = ftype (cur it); l = PB_LTYPE ty; rep = (PB_HTYPE ty = PB_HTYPE_REPEATED);
          m1 = (if rep \<and> (l = PB_LTYPE_STRING \<or> l = PB_LTYPE_BYTES)
                then free_items (load_size it m) (load_ptr m (pData it)) m else m);
          m2 = (if rep then store_size 4 it 0 m1 else m1) in
      store_ptr (c_free m2 (load_ptr m2 (pData it))) (pData it) 0)"

text \<open>How many submessages a field holds.\<close>

definition release_count :: "pb_field_iter \<Rightarrow> cmem \<Rightarrow> nat" where
  "release_count it m =
     (let ty = ftype (cur it); static = (PB_ATYPE ty = PB_ATYPE_STATIC); n = array_size (cur it) in
      if PB_HTYPE ty = PB_HTYPE_REPEATED then
        (let count = (if static \<and> pSize it = Size_at (pData it) then n else load_size it m) in
         if static \<and> count > n then n else count)
      else 1)"

primrec pb_release_single_field :: "nat \<Rightarrow> pb_env \<Rightarrow> pb_field_iter \<Rightarrow> cmem \<Rightarrow> cmem option" where
  "pb_release_single_field 0 env it m = None"
| "pb_release_single_field (Suc depth) env it m =
     (let f = cur it; ty = ftype f; h = PB_HTYPE ty; a = PB_ATYPE ty; l = PB_LTYPE ty in
      if h = PB_HTYPE_ONEOF \<and> load_size it m \<noteq> tag f then Some m
      else
        do {
          m1 \<leftarrow>
            (if l = PB_LTYPE_EXTENSION
             then release_extensions (pb_release_single_field depth env) env (load_ptr m (pData it)) m
             else if l = PB_LTYPE_SUBMESSAGE \<and> a \<noteq> PB_ATYPE_CALLBACK then
               (let item = (if a = PB_ATYPE_POINTER then load_ptr m (pData it) else pData it) in
                if item \<noteq> 0 then
                  release_items
                    (\<lambda>p m. if p = 0 then Some m
                            else case fptr f of
                              Submsg_fields fs \<Rightarrow>
                                each_field (pb_release_single_field depth env) (pb_fields_walk fs p) m
                            | _ \<Rightarrow> None)
                    (data_size f) (release_count it m) item m
                else Some m)
             else Some m);
          Some (if a = PB_ATYPE_POINTER then release_pointer it m1 else m1)
        })"

definition pb_release :: "nat \<Rightarrow> pb_env \<Rightarrow> pb_field list \<Rightarrow> addr \<Rightarrow> cmem \<Rightarrow> cmem option" where
  "pb_release depth env fs dest m =
     (if dest = 0 then Some m
      else each_field (pb_release_single_field depth env) (pb_fields_walk fs dest) m)"

end
