(* ===== verification/PB_Decode.thy ===== *)
theory PB_Decode
  imports PB_Defaults
begin

text \<open>
  \<^verbatim>\<open>nanopb/pb_decode.c\<close>: the field decoders, allocation, and \<^verbatim>\<open>pb_decode\<close>. The decoder reads an input
  stream and writes the message struct and heap blocks. As in the encoder, the functions on the
  recursion path take the recursive call of \<^verbatim>\<open>pb_decode_noinit\<close> as argument \<open>dec\<close> and the nesting depth
  for \<open>pb_message_set_to_defaults\<close> and \<open>pb_release\<close>; \<open>pb_decode_noinit\<close> closes the knot. A result \<open>None\<close>
  means that the call does not return.
\<close>

type_synonym dec_result = "(bool \<times> pb_istream \<times> cmem) option"
type_synonym msg_decoder = "pb_istream \<Rightarrow> pb_field list \<Rightarrow> addr \<Rightarrow> cmem \<Rightarrow> dec_result"
type_synonym field_decoder = "pb_istream \<Rightarrow> pb_field \<Rightarrow> addr \<Rightarrow> cmem \<Rightarrow> dec_result"

section \<open>Allocation\<close>

definition allocate_field ::
  "pb_istream \<Rightarrow> addr \<Rightarrow> nat \<Rightarrow> nat \<Rightarrow> cmem \<Rightarrow> bool \<times> pb_istream \<times> cmem" where
  "allocate_field s pdata dsize asize m =
     (let check_limit = 2 ^ 32; size_max = SIZE_MOD - 1 in
      if dsize = 0 \<or> asize = 0 then (False, pb_istream_error ''invalid size'' s, m)
      else if (dsize \<ge> check_limit \<or> asize \<ge> check_limit) \<and> size_max div asize < dsize
      then (False, pb_istream_error ''size too large'' s, m)
      else
        case c_realloc m (load_ptr m pdata) ((asize * dsize) mod SIZE_MOD) of
          (p, m') \<Rightarrow>
            if p = 0 then (False, pb_istream_error ''realloc failed'' s, m')
            else (True, s, store_ptr m' pdata p))"

definition initialize_pointer_field ::
  "nat \<Rightarrow> pb_env \<Rightarrow> addr \<Rightarrow> pb_field_iter \<Rightarrow> cmem \<Rightarrow> cmem option" where
  "initialize_pointer_field depth env item it m =
     (let f = cur it; l = PB_LTYPE (ftype f) in
      if l = PB_LTYPE_STRING \<or> l = PB_LTYPE_BYTES then Some (store_ptr m item 0)
      else if l = PB_LTYPE_SUBMESSAGE then
        (case fptr f of
           Submsg_fields fs \<Rightarrow>
             pb_message_set_to_defaults depth env fs item (memset m item 0 (data_size f))
         | _ \<Rightarrow> None)
      else Some m)"

section \<open>Decoders for single values\<close>

definition pb_dec_bool :: "pb_istream \<Rightarrow> pb_field \<Rightarrow> addr \<Rightarrow> cmem \<Rightarrow> bool \<times> pb_istream \<times> cmem" where
  "pb_dec_bool s f dest m =
     (case pb_decode_varint32 s of
        (None, s') \<Rightarrow> (False, s', m)
      | (Some v, s') \<Rightarrow> (True, s', store 1 m dest (of_bool (v \<noteq> 0))))"

text \<open>
  Store a signed value in a member of \<open>n\<close> bytes (the two's complement of its low bits), and the value
  that is read back for the overflow check.
\<close>

definition store_signed :: "nat \<Rightarrow> cmem \<Rightarrow> addr \<Rightarrow> int \<Rightarrow> cmem" where
  "store_signed n m a v = store n m a (nat (v mod 256 ^ n))"

definition pb_dec_varint :: "pb_istream \<Rightarrow> pb_field \<Rightarrow> addr \<Rightarrow> cmem \<Rightarrow> bool \<times> pb_istream \<times> cmem" where
  "pb_dec_varint s f dest m =
     (case pb_decode_varint s of
        (None, s') \<Rightarrow> (False, s', m)
      | (Some v, s') \<Rightarrow>
          (let n = data_size f;
               svalue = (if n = 8 then sint v else signed_take_bit 31 (uint v));
               clamped = signed_take_bit (8 * n - 1) svalue in
           if \<not> int_size n then (False, pb_istream_error ''invalid data_size'' s', m)
           else if clamped \<noteq> svalue
           then (False, pb_istream_error ''integer too large'' s', store_signed n m dest svalue)
           else (True, s', store_signed n m dest svalue)))"

definition pb_dec_uvarint :: "pb_istream \<Rightarrow> pb_field \<Rightarrow> addr \<Rightarrow> cmem \<Rightarrow> bool \<times> pb_istream \<times> cmem" where
  "pb_dec_uvarint s f dest m =
     (case pb_decode_varint s of
        (None, s') \<Rightarrow> (False, s', m)
      | (Some v, s') \<Rightarrow>
          (let n = data_size f; clamped = unat v mod 256 ^ n in
           if \<not> int_size n then (False, pb_istream_error ''invalid data_size'' s', m)
           else if clamped \<noteq> unat v
           then (False, pb_istream_error ''integer too large'' s', store n m dest (unat v))
           else (True, s', store n m dest (unat v))))"

definition pb_dec_svarint :: "pb_istream \<Rightarrow> pb_field \<Rightarrow> addr \<Rightarrow> cmem \<Rightarrow> bool \<times> pb_istream \<times> cmem" where
  "pb_dec_svarint s f dest m =
     (case pb_decode_svarint s of
        (None, s') \<Rightarrow> (False, s', m)
      | (Some v, s') \<Rightarrow>
          (let n = data_size f; clamped = signed_take_bit (8 * n - 1) v in
           if \<not> int_size n then (False, pb_istream_error ''invalid data_size'' s', m)
           else if clamped \<noteq> v
           then (False, pb_istream_error ''integer too large'' s', store_signed n m dest v)
           else (True, s', store_signed n m dest v)))"

definition pb_dec_fixed32 :: "pb_istream \<Rightarrow> pb_field \<Rightarrow> addr \<Rightarrow> cmem \<Rightarrow> bool \<times> pb_istream \<times> cmem" where
  "pb_dec_fixed32 s f dest m =
     (case pb_decode_fixed32 s of
        (None, s') \<Rightarrow> (False, s', m)
      | (Some v, s') \<Rightarrow> (True, s', store 4 m dest (unat v)))"

definition pb_dec_fixed64 :: "pb_istream \<Rightarrow> pb_field \<Rightarrow> addr \<Rightarrow> cmem \<Rightarrow> bool \<times> pb_istream \<times> cmem" where
  "pb_dec_fixed64 s f dest m =
     (case pb_decode_fixed64 s of
        (None, s') \<Rightarrow> (False, s', m)
      | (Some v, s') \<Rightarrow> (True, s', store 8 m dest (unat v)))"

text \<open>\<^verbatim>\<open>pb_read\<close> into memory.\<close>

definition pb_read_to :: "pb_istream \<Rightarrow> addr \<Rightarrow> nat \<Rightarrow> cmem \<Rightarrow> bool \<times> pb_istream \<times> cmem" where
  "pb_read_to s dest count m =
     (case pb_read s count of (ok, bs, s') \<Rightarrow> (ok, s', store_bytes m dest bs))"

definition pb_dec_bytes :: "pb_istream \<Rightarrow> pb_field \<Rightarrow> addr \<Rightarrow> cmem \<Rightarrow> bool \<times> pb_istream \<times> cmem" where
  "pb_dec_bytes s f dest m =
     (case pb_decode_varint32 s of
        (None, s1) \<Rightarrow> (False, s1, m)
      | (Some sz, s1) \<Rightarrow>
          (let n = unat sz; alloc_size = PB_BYTES_ARRAY_T_ALLOCSIZE n in
           if n > PB_SIZE_MAX then (False, pb_istream_error ''bytes overflow'' s1, m)
           else if n > alloc_size then (False, pb_istream_error ''size too large'' s1, m)
           else if PB_ATYPE (ftype f) = PB_ATYPE_POINTER then
             (case allocate_field s1 dest alloc_size 1 m of
                (False, s2, m1) \<Rightarrow> (False, s2, m1)
              | (True, s2, m1) \<Rightarrow>
                  (let bdest = load_ptr m1 dest in
                   pb_read_to s2 (bdest + 4) n (store 4 m1 bdest n)))
           else if alloc_size > data_size f then (False, pb_istream_error ''bytes overflow'' s1, m)
           else pb_read_to s1 (dest + 4) n (store 4 m dest n)))"

definition pb_dec_string :: "pb_istream \<Rightarrow> pb_field \<Rightarrow> addr \<Rightarrow> cmem \<Rightarrow> bool \<times> pb_istream \<times> cmem" where
  "pb_dec_string s f dest m =
     (case pb_decode_varint32 s of
        (None, s1) \<Rightarrow> (False, s1, m)
      | (Some sz, s1) \<Rightarrow>
          (let n = unat sz; alloc_size = (n + 1) mod UINT32_MOD;
               read_and_terminate = (\<lambda>s d m.
                 (case pb_read_to s d n m of (ok, s', m') \<Rightarrow> (ok, s', store 1 m' (d + n) 0))) in
           if alloc_size < n then (False, pb_istream_error ''size too large'' s1, m)
           else if PB_ATYPE (ftype f) = PB_ATYPE_POINTER then
             (case allocate_field s1 dest alloc_size 1 m of
                (False, s2, m1) \<Rightarrow> (False, s2, m1)
              | (True, s2, m1) \<Rightarrow> read_and_terminate s2 (load_ptr m1 dest) m1)
           else if alloc_size > data_size f then (False, pb_istream_error ''string overflow'' s1, m)
           else read_and_terminate s1 dest m))"

definition pb_dec_fixed_length_bytes ::
  "pb_istream \<Rightarrow> pb_field \<Rightarrow> addr \<Rightarrow> cmem \<Rightarrow> bool \<times> pb_istream \<times> cmem" where
  "pb_dec_fixed_length_bytes s f dest m =
     (case pb_decode_varint32 s of
        (None, s1) \<Rightarrow> (False, s1, m)
      | (Some sz, s1) \<Rightarrow>
          (let n = unat sz in
           if n > PB_SIZE_MAX then (False, pb_istream_error ''bytes overflow'' s1, m)
           else if n = 0 then (True, s1, memset m dest 0 (data_size f))
           else if n \<noteq> data_size f
           then (False, pb_istream_error ''incorrect fixed length bytes size'' s1, m)
           else pb_read_to s1 dest (data_size f) m))"

section \<open>Submessages\<close>

text \<open>\<^verbatim>\<open>pb_decode\<close> over the recursive call: defaults, fields, and release after a failure.\<close>

definition decode_with_defaults :: "msg_decoder \<Rightarrow> nat \<Rightarrow> pb_env \<Rightarrow> msg_decoder" where
  "decode_with_defaults dec depth env s fs dest m =
     do {
       m1 \<leftarrow> pb_message_set_to_defaults depth env fs dest m;
       (status, s', m2) \<leftarrow> dec s fs dest m1;
       if status then Some (True, s', m2)
       else do { m3 \<leftarrow> pb_release depth env fs dest m2; Some (False, s', m3) }
     }"

definition pb_dec_submessage :: "msg_decoder \<Rightarrow> nat \<Rightarrow> pb_env \<Rightarrow> field_decoder" where
  "pb_dec_submessage dec depth env s f dest m =
     (case pb_make_string_substream s of
        (None, s1) \<Rightarrow> Some (False, s1, m)
      | (Some sub, s1) \<Rightarrow>
          (case fptr f of
             Null_ptr \<Rightarrow> Some (False, pb_istream_error ''invalid field descriptor'' s1, m)
           | Default_value _ \<Rightarrow> None
           | Submsg_fields fs \<Rightarrow>
               do {
                 (status, sub', m1) \<leftarrow>
                   (if PB_HTYPE (ftype f) = PB_HTYPE_REPEATED
                    then decode_with_defaults dec depth env sub fs dest m
                    else dec sub fs dest m);
                 case pb_close_string_substream s1 sub' of
                   (False, s2) \<Rightarrow> Some (False, s2, m1)
                 | (True, s2) \<Rightarrow> Some (status, s2, m1)
               }))"

text \<open>The table \<^verbatim>\<open>PB_DECODERS\<close>; its entry for extensions is a null pointer.\<close>

definition PB_DECODERS :: "msg_decoder \<Rightarrow> nat \<Rightarrow> pb_env \<Rightarrow> byte \<Rightarrow> field_decoder" where
  "PB_DECODERS dec depth env l s f dest m =
     (if l = PB_LTYPE_BOOL then Some (pb_dec_bool s f dest m)
      else if l = PB_LTYPE_VARINT then Some (pb_dec_varint s f dest m)
      else if l = PB_LTYPE_UVARINT then Some (pb_dec_uvarint s f dest m)
      else if l = PB_LTYPE_SVARINT then Some (pb_dec_svarint s f dest m)
      else if l = PB_LTYPE_FIXED32 then Some (pb_dec_fixed32 s f dest m)
      else if l = PB_LTYPE_FIXED64 then Some (pb_dec_fixed64 s f dest m)
      else if l = PB_LTYPE_BYTES then Some (pb_dec_bytes s f dest m)
      else if l = PB_LTYPE_STRING then Some (pb_dec_string s f dest m)
      else if l = PB_LTYPE_SUBMESSAGE then pb_dec_submessage dec depth env s f dest m
      else if l = PB_LTYPE_FIXED_LENGTH_BYTES then Some (pb_dec_fixed_length_bytes s f dest m)
      else None)"

section \<open>Static fields\<close>

text \<open>
  The distance \<^verbatim>\<open>iter->pos->data_size * (*size)\<close> of an array entry from the first one: both factors have
  type \<^verbatim>\<open>pb_size_t\<close>, and the product is taken in 32 bits before it is added to the pointer.
\<close>

definition item_offset :: "pb_field \<Rightarrow> nat \<Rightarrow> nat" where
  "item_offset f i = (data_size f * i) mod UINT32_MOD"

text \<open>The loop over a packed array; \<open>store_size\<close> increments the count in place.\<close>

partial_function (option) packed_static_loop ::
  "field_decoder \<Rightarrow> pb_field_iter \<Rightarrow> pb_istream \<Rightarrow> cmem \<Rightarrow> dec_result" where
  [code]: "packed_static_loop func it sub m =
     (if bytes_left sub > 0 \<and> load_size it m < array_size (cur it) then
        do {
          (ok, sub', m') \<leftarrow> func sub (cur it) (pData it + item_offset (cur it) (load_size it m)) m;
          if \<not> ok then Some (False, sub', m')
          else packed_static_loop func it sub' (store_size 4 it (load_size it m' + 1) m')
        }
      else Some (True, sub, m))"

definition decode_static_field ::
  "msg_decoder \<Rightarrow> nat \<Rightarrow> pb_env \<Rightarrow> pb_istream \<Rightarrow> nat \<Rightarrow> pb_field_iter \<Rightarrow> cmem \<Rightarrow> dec_result" where
  "decode_static_field dec depth env s wire_type it m =
     (let f = cur it; h = PB_HTYPE (ftype f); l = PB_LTYPE (ftype f);
          func = PB_DECODERS dec depth env l in
      if h = PB_HTYPE_REQUIRED then func s f (pData it) m
      else if h = PB_HTYPE_OPTIONAL then
        func s f (pData it) (if pSize it \<noteq> Size_at (pData it) then store_size 1 it 1 m else m)
      else if h = PB_HTYPE_REPEATED then
        (if wire_type = PB_WT_STRING \<and> l \<le> PB_LTYPE_LAST_PACKABLE then
           (case pb_make_string_substream s of
              (None, s1) \<Rightarrow> Some (False, s1, m)
            | (Some sub, s1) \<Rightarrow>
                do {
                  (status, sub', m1) \<leftarrow> packed_static_loop func it sub m;
                  if bytes_left sub' \<noteq> 0
                  then Some (False, pb_istream_error ''array overflow'' s1, m1)
                  else
                    case pb_close_string_substream s1 sub' of
                      (False, s2) \<Rightarrow> Some (False, s2, m1)
                    | (True, s2) \<Rightarrow> Some (status, s2, m1)
                })
         else
           (let size = load_size it m; m1 = store_size 4 it (size + 1) m in
            if size \<ge> array_size f then Some (False, pb_istream_error ''array overflow'' s, m1)
            else func s f (pData it + item_offset f size) m1))
      else if h = PB_HTYPE_ONEOF then
        do {
          let m1 = store_size 4 it (tag f) m;
          m2 \<leftarrow>
            (if l = PB_LTYPE_SUBMESSAGE then
               (case fptr f of
                  Submsg_fields fs \<Rightarrow>
                    pb_message_set_to_defaults depth env fs (pData it)
                      (memset m1 (pData it) 0 (data_size f))
                | _ \<Rightarrow> None)
             else Some m1);
          func s f (pData it) m2
        }
      else Some (False, pb_istream_error ''invalid field type'' s, m))"

section \<open>Pointer fields\<close>

text \<open>
  The loop over a packed array that grows its allocation. The third component of the result tells
  whether the loop stopped because the count is \<open>PB_SIZE_MAX\<close>. A division by \<open>data_size = 0\<close> traps.
\<close>

partial_function (option) packed_pointer_loop ::
  "field_decoder \<Rightarrow> nat \<Rightarrow> pb_env \<Rightarrow> pb_field_iter \<Rightarrow> pb_istream \<Rightarrow> nat \<Rightarrow> cmem \<Rightarrow>
     (bool \<times> pb_istream \<times> bool \<times> cmem) option" where
  [code]: "packed_pointer_loop func depth env it sub allocated m =
     (let f = cur it; size = load_size it m in
      if bytes_left sub = 0 then Some (True, sub, False, m)
      else if size = PB_SIZE_MAX then Some (False, sub, True, m)
      else if size + 1 > allocated \<and> data_size f = 0 then None
      else
        let remain = (bytes_left sub - 1) div data_size f + 1;
            allocated' =
              (if size + 1 > allocated
               then (if remain < PB_SIZE_MAX - allocated then allocated + remain else allocated + 1)
               else allocated) in
        case (if size + 1 > allocated
              then allocate_field sub (pData it) (data_size f) allocated' m else (True, sub, m)) of
          (ok1, sub1, m1) \<Rightarrow>
            if \<not> ok1 then Some (False, sub1, False, m1)
            else do {
              let item = load_ptr m1 (pData it) + item_offset f (load_size it m1);
              m2 \<leftarrow> initialize_pointer_field depth env item it m1;
              (ok, sub2, m3) \<leftarrow> func sub1 f item m2;
              if \<not> ok then Some (False, sub2, False, m3)
              else packed_pointer_loop func depth env it sub2 allocated'
                     (store_size 4 it (load_size it m3 + 1) m3)
            })"

definition decode_pointer_field ::
  "msg_decoder \<Rightarrow> nat \<Rightarrow> pb_env \<Rightarrow> pb_istream \<Rightarrow> nat \<Rightarrow> pb_field_iter \<Rightarrow> cmem \<Rightarrow> dec_result" where
  "decode_pointer_field dec depth env s wire_type it m =
     (let f = cur it; h = PB_HTYPE (ftype f); l = PB_LTYPE (ftype f);
          func = PB_DECODERS dec depth env l in
      if h = PB_HTYPE_REQUIRED \<or> h = PB_HTYPE_OPTIONAL \<or> h = PB_HTYPE_ONEOF then
        do {
          m1 \<leftarrow> (if l = PB_LTYPE_SUBMESSAGE \<and> load_ptr m (pData it) \<noteq> 0
                 then pb_release_single_field depth env it m else Some m);
          let m2 = (if h = PB_HTYPE_ONEOF then store_size 4 it (tag f) m1 else m1);
          if l = PB_LTYPE_STRING \<or> l = PB_LTYPE_BYTES then func s f (pData it) m2
          else
            case allocate_field s (pData it) (data_size f) 1 m2 of
              (False, s1, m3) \<Rightarrow> Some (False, s1, m3)
            | (True, s1, m3) \<Rightarrow>
                do {
                  m4 \<leftarrow> initialize_pointer_field depth env (load_ptr m3 (pData it)) it m3;
                  func s1 f (load_ptr m4 (pData it)) m4
                }
        }
      else if h = PB_HTYPE_REPEATED then
        (if wire_type = PB_WT_STRING \<and> l \<le> PB_LTYPE_LAST_PACKABLE then
           (case pb_make_string_substream s of
              (None, s1) \<Rightarrow> Some (False, s1, m)
            | (Some sub, s1) \<Rightarrow>
                do {
                  (status, sub', too_many, m1) \<leftarrow>
                    packed_pointer_loop func depth env it sub (load_size it m) m;
                  let s2 = (if too_many then s1\<lparr>is_errmsg := Some ''too many array entries''\<rparr> else s1);
                  case pb_close_string_substream s2 sub' of
                    (False, s3) \<Rightarrow> Some (False, s3, m1)
                  | (True, s3) \<Rightarrow> Some (status, s3, m1)
                })
         else if load_size it m = PB_SIZE_MAX
         then Some (False, pb_istream_error ''too many array entries'' s, m)
         else
           case allocate_field s (pData it) (data_size f) (load_size it m + 1) m of
             (False, s1, m1) \<Rightarrow> Some (False, s1, m1)
           | (True, s1, m1) \<Rightarrow>
               do {
                 let item = load_ptr m1 (pData it) + item_offset f (load_size it m1);
                 m2 \<leftarrow> initialize_pointer_field depth env item it
                         (store_size 4 it (load_size it m1 + 1) m1);
                 func s1 f item m2
               })
      else Some (False, pb_istream_error ''invalid field type'' s, m))"

section \<open>Callback fields\<close>

text \<open>
  The call of \<^verbatim>\<open>pCallback->funcs.decode\<close>. The function pointer is loaded for each call, so a callback that
  overwrites it decides who decodes the rest; a call through a null pointer does not return.
\<close>

definition call_decode ::
  "pb_env \<Rightarrow> pb_field_iter \<Rightarrow> pb_istream \<Rightarrow> cmem \<Rightarrow> (bool \<times> pb_istream \<times> cmem) option" where
  "call_decode env it sub m =
     (let fn = load_ptr m (callback_funcs (pData it)) in
      if fn = 0 then None else Some (env_decode env fn sub (cur it) (callback_arg (pData it)) m))"

partial_function (option) callback_loop ::
  "pb_env \<Rightarrow> pb_field_iter \<Rightarrow> pb_istream \<Rightarrow> cmem \<Rightarrow> dec_result" where
  [code]: "callback_loop env it sub m =
     do {
       (ok, sub', m') \<leftarrow> call_decode env it sub m;
       if \<not> ok then Some (False, sub', m')
       else if bytes_left sub' \<noteq> 0 then callback_loop env it sub' m'
       else Some (True, sub', m')
     }"

definition decode_callback_field ::
  "pb_env \<Rightarrow> pb_istream \<Rightarrow> nat \<Rightarrow> pb_field_iter \<Rightarrow> cmem \<Rightarrow> dec_result" where
  "decode_callback_field env s wire_type it m =
     (if pData it = 0 \<or> load_ptr m (callback_funcs (pData it)) = 0
      then (case pb_skip_field s wire_type of (ok, s') \<Rightarrow> Some (ok, s', m))
      else if wire_type = PB_WT_STRING then
        (case pb_make_string_substream s of
           (None, s1) \<Rightarrow> Some (False, s1, m)
         | (Some sub, s1) \<Rightarrow>
             do {
               (ok, sub', m1) \<leftarrow> callback_loop env it sub m;
               if \<not> ok then Some (False, pb_istream_error ''callback failed'' s1, m1)
               else
                 case pb_close_string_substream s1 sub' of (ok2, s2) \<Rightarrow> Some (ok2, s2, m1)
             })
      else
        (case read_raw_value s wire_type 10 of
           (False, _, s1) \<Rightarrow> Some (False, s1, m)
         | (True, buf, s1) \<Rightarrow>
             do {
               (ok, _, m1) \<leftarrow> call_decode env it (pb_istream_from_buffer buf (length buf)) m;
               Some (ok, s1, m1)
             }))"

section \<open>Any field\<close>

text \<open>The result carries the iterator, which the search for the old member of a union moves.\<close>

definition pb_release_union_field ::
  "nat \<Rightarrow> pb_env \<Rightarrow> pb_istream \<Rightarrow> pb_field_iter \<Rightarrow> cmem \<Rightarrow>
     (bool \<times> pb_istream \<times> pb_field_iter \<times> cmem) option" where
  "pb_release_union_field depth env s it m =
     (let old_tag = load_size it m; new_tag = tag (cur it) in
      if old_tag = 0 then Some (True, s, it, m)
      else if old_tag = new_tag then Some (True, s, it, m)
      else
        case pb_field_iter_find it old_tag of
          (False, it1) \<Rightarrow> Some (False, pb_istream_error ''invalid union tag'' s, it1, m)
        | (True, it1) \<Rightarrow>
            do {
              m1 \<leftarrow> pb_release_single_field depth env it1 m;
              case pb_field_iter_find it1 new_tag of
                (False, it2) \<Rightarrow> Some (False, pb_istream_error ''iterator error'' s, it2, m1)
              | (True, it2) \<Rightarrow> Some (True, s, it2, m1)
            })"

definition decode_field ::
  "msg_decoder \<Rightarrow> nat \<Rightarrow> pb_env \<Rightarrow> pb_istream \<Rightarrow> nat \<Rightarrow> pb_field_iter \<Rightarrow> cmem \<Rightarrow>
     (bool \<times> pb_istream \<times> pb_field_iter \<times> cmem) option" where
  "decode_field dec depth env s wire_type it m =
     do {
       (ok, s1, it1, m1) \<leftarrow>
         (if PB_HTYPE (ftype (cur it)) = PB_HTYPE_ONEOF
          then pb_release_union_field depth env s it m else Some (True, s, it, m));
       if \<not> ok then Some (False, s1, it1, m1)
       else
         do {
           let a = PB_ATYPE (ftype (cur it1));
           (ok2, s2, m2) \<leftarrow>
             (if a = PB_ATYPE_STATIC then decode_static_field dec depth env s1 wire_type it1 m1
              else if a = PB_ATYPE_POINTER then decode_pointer_field dec depth env s1 wire_type it1 m1
              else if a = PB_ATYPE_CALLBACK then decode_callback_field env s1 wire_type it1 m1
              else Some (False, pb_istream_error ''invalid field type'' s1, m1));
           Some (ok2, s2, it1, m2)
         }
     }"

section \<open>Extensions\<close>

definition default_extension_decoder ::
  "msg_decoder \<Rightarrow> nat \<Rightarrow> pb_env \<Rightarrow> pb_istream \<Rightarrow> addr \<Rightarrow> nat \<Rightarrow> nat \<Rightarrow> cmem \<Rightarrow> dec_result" where
  "default_extension_decoder dec depth env s ext t wire_type m =
     (let f = extension_field env m ext in
      if tag f \<noteq> t then Some (True, s, m)
      else
        do {
          let it = iter_from_extension env m ext;
          (ok, s', _, m') \<leftarrow> decode_field dec depth env s wire_type it (store 1 m (extension_found ext) 1);
          Some (ok, s', m')
        })"

partial_function (option) extension_loop ::
  "msg_decoder \<Rightarrow> nat \<Rightarrow> pb_env \<Rightarrow> nat \<Rightarrow> pb_istream \<Rightarrow> addr \<Rightarrow> nat \<Rightarrow> nat \<Rightarrow> cmem \<Rightarrow> dec_result" where
  [code]: "extension_loop dec depth env start_left s ext t wire_type m =
     (if ext \<noteq> 0 \<and> start_left = bytes_left s then
        do {
          (ok, s', m') \<leftarrow>
            (case ext_decode (extension_type_of env m ext) of
               Some g \<Rightarrow> Some (g s ext t wire_type m)
             | None \<Rightarrow> default_extension_decoder dec depth env s ext t wire_type m);
          if \<not> ok then Some (False, s', m')
          else extension_loop dec depth env start_left s' (load_ptr m' (extension_next ext)) t wire_type m'
        }
      else Some (True, s, m))"

definition decode_extension ::
  "msg_decoder \<Rightarrow> nat \<Rightarrow> pb_env \<Rightarrow> pb_istream \<Rightarrow> nat \<Rightarrow> nat \<Rightarrow> pb_field_iter \<Rightarrow> cmem \<Rightarrow> dec_result" where
  "decode_extension dec depth env s t wire_type it m =
     extension_loop dec depth env (bytes_left s) s (load_ptr m (pData it)) t wire_type m"

text \<open>
  The search of \<^verbatim>\<open>find_extension_field\<close> ends when the iterator is back at the position \<open>s\<close> it started from;
  lemma \<open>find_extension_absent\<close> shows that a search from a valid position comes back there.
\<close>

partial_function (option) find_extension_loop ::
  "nat \<Rightarrow> pb_field_iter \<Rightarrow> (bool \<times> pb_field_iter) option" where
  [code]: "find_extension_loop s it =
     (if PB_LTYPE (ftype (cur it)) = PB_LTYPE_EXTENSION then Some (True, it)
      else let it' = snd (pb_field_iter_next it) in
           if pos it' = s then Some (False, it') else find_extension_loop s it')"

definition find_extension_field :: "pb_field_iter \<Rightarrow> (bool \<times> pb_field_iter) option" where
  "find_extension_field it = find_extension_loop (pos it) it"

section \<open>All fields\<close>

text \<open>
  The local variables of \<^verbatim>\<open>pb_decode_noinit\<close> that live across its loop. \<^verbatim>\<open>fixed_count_field\<close> is a pointer into
  the descriptor array, here an index; \<^verbatim>\<open>fixed_count_size\<close> is \<open>local_count\<close> of the memory.
\<close>

record decode_locals =
  l_stream :: pb_istream
  l_iter :: pb_field_iter
  l_mem :: cmem
  fields_seen :: "u32 list"
  extension_range_start :: nat
  fixed_count_field :: "nat option"

datatype decode_exit =
  Continue decode_locals
| Break decode_locals
| Fail pb_istream cmem

text \<open>An unknown field: the branch \<^verbatim>\<open>if (!pb_field_iter_find(&iter, tag))\<close>.\<close>

definition skip_unknown :: "nat \<Rightarrow> decode_locals \<Rightarrow> decode_exit" where
  "skip_unknown wire_type st =
     (case pb_skip_field (l_stream st) wire_type of
        (False, s) \<Rightarrow> Fail s (l_mem st)
      | (True, s) \<Rightarrow> Continue (st\<lparr>l_stream := s\<rparr>))"

definition decode_unknown ::
  "msg_decoder \<Rightarrow> nat \<Rightarrow> pb_env \<Rightarrow> nat \<Rightarrow> nat \<Rightarrow> decode_locals \<Rightarrow> decode_exit option" where
  "decode_unknown dec depth env t wire_type st =
     (if t \<ge> extension_range_start st then
        do {
          (found, it1) \<leftarrow> find_extension_field (l_iter st);
          let ext_start = (if found then tag (cur it1) else PB_SIZE_MAX);
          let st1 = st\<lparr>l_iter := it1, extension_range_start := ext_start\<rparr>;
          if t \<ge> ext_start then
            do {
              (ok, s', m') \<leftarrow> decode_extension dec depth env (l_stream st) t wire_type it1 (l_mem st);
              if \<not> ok then Some (Fail s' m')
              else
                let st2 = st1\<lparr>l_stream := s', l_mem := m'\<rparr> in
                if bytes_left (l_stream st) \<noteq> bytes_left s' then Some (Continue st2)
                else Some (skip_unknown wire_type st2)
            }
          else Some (skip_unknown wire_type st1)
        }
      else Some (skip_unknown wire_type st))"

text \<open>
  A known field: select the counter of a fixed count array (\<open>None\<close> for the error return), mark a
  required field as seen, decode.
\<close>

definition fixed_count_check :: "pb_field list \<Rightarrow> decode_locals \<Rightarrow> bool" where
  "fixed_count_check fs st \<longleftrightarrow>
     (case fixed_count_field st of
        None \<Rightarrow> True
      | Some i \<Rightarrow> local_count (l_mem st) = array_size (field_at fs i))"

definition select_fixed_count :: "pb_field list \<Rightarrow> decode_locals \<Rightarrow> decode_locals option" where
  "select_fixed_count fs st =
     (let it = l_iter st in
      if PB_HTYPE (ftype (cur it)) = PB_HTYPE_REPEATED \<and> pSize it = Size_at (pData it) then
        (if fixed_count_field st \<noteq> Some (pos it) then
           (if \<not> fixed_count_check fs st then None
            else Some (st\<lparr>fixed_count_field := Some (pos it), l_mem := (l_mem st)\<lparr>local_count := 0\<rparr>,
                          l_iter := it\<lparr>pSize := Size_local\<rparr>\<rparr>))
         else Some (st\<lparr>l_iter := it\<lparr>pSize := Size_local\<rparr>\<rparr>))
      else Some st)"

definition mark_seen :: "decode_locals \<Rightarrow> decode_locals" where
  "mark_seen st =
     (let i = required_field_index (l_iter st) in
      if PB_HTYPE (ftype (cur (l_iter st))) = PB_HTYPE_REQUIRED \<and> i < PB_MAX_REQUIRED_FIELDS
      then st\<lparr>fields_seen := (fields_seen st)[i div 32 := (fields_seen st ! (i div 32)) OR push_bit (i mod 32) 1]\<rparr>
      else st)"

definition decode_known ::
  "msg_decoder \<Rightarrow> nat \<Rightarrow> pb_env \<Rightarrow> pb_field list \<Rightarrow> nat \<Rightarrow> decode_locals \<Rightarrow> decode_exit option" where
  "decode_known dec depth env fs wire_type st =
     (case select_fixed_count fs st of
        None \<Rightarrow> Some (Fail (pb_istream_error ''wrong size for fixed count field'' (l_stream st)) (l_mem st))
      | Some st0 \<Rightarrow>
          do {
            let st1 = mark_seen st0;
            (ok, s', it', m') \<leftarrow>
              decode_field dec depth env (l_stream st1) wire_type (l_iter st1) (l_mem st1);
            if \<not> ok then Some (Fail s' m')
            else Some (Continue (st1\<lparr>l_stream := s', l_iter := it', l_mem := m'\<rparr>))
          })"

text \<open>One round of the loop \<^verbatim>\<open>while (stream->bytes_left)\<close>.\<close>

definition decode_round ::
  "msg_decoder \<Rightarrow> nat \<Rightarrow> pb_env \<Rightarrow> pb_field list \<Rightarrow> decode_locals \<Rightarrow> decode_exit option" where
  "decode_round dec depth env fs st =
     (case pb_decode_tag (l_stream st) of
        (None, eof, s) \<Rightarrow>
          (if eof then Some (Break (st\<lparr>l_stream := s\<rparr>)) else Some (Fail s (l_mem st)))
      | (Some (wire_type, t), _, s) \<Rightarrow>
          (case pb_field_iter_find (l_iter st) t of
             (False, it) \<Rightarrow> decode_unknown dec depth env t wire_type (st\<lparr>l_stream := s, l_iter := it\<rparr>)
           | (True, it) \<Rightarrow> decode_known dec depth env fs wire_type (st\<lparr>l_stream := s, l_iter := it\<rparr>)))"

partial_function (option) decode_loop ::
  "(decode_locals \<Rightarrow> decode_exit option) \<Rightarrow> decode_locals \<Rightarrow> decode_exit option" where
  [code]: "decode_loop body st =
     (if bytes_left (l_stream st) = 0 then Some (Break st)
      else
        do {
          r \<leftarrow> body st;
          (case r of Continue st' \<Rightarrow> decode_loop body st' | _ \<Rightarrow> Some r)
        })"

text \<open>
  The number of required fields, found by running the iterator to the end of the array, and the check
  of the bits of \<^verbatim>\<open>fields_seen\<close> against it.
\<close>

definition required_count :: "pb_field_iter \<Rightarrow> nat" where
  "required_count it =
     (let it1 = last (iter_walk it);
          it2 = snd (pb_field_iter_next it1);
          n = required_field_index it1;
          n1 = (if PB_HTYPE (ftype (cur it1)) = PB_HTYPE_REQUIRED \<and> tag (cur it2) \<noteq> 0 then n + 1 else n) in
      min n1 PB_MAX_REQUIRED_FIELDS)"

definition required_ok :: "u32 list \<Rightarrow> nat \<Rightarrow> bool" where
  "required_ok seen n \<longleftrightarrow>
     list_all (\<lambda>i. seen ! i = - 1) [0..<n div 32] \<and>
     (n mod 32 \<noteq> 0 \<longrightarrow> seen ! (n div 32) = drop_bit (32 - n mod 32) (- 1))"

definition decode_finish :: "pb_field list \<Rightarrow> decode_locals \<Rightarrow> bool \<times> pb_istream \<times> cmem" where
  "decode_finish fs st =
     (if \<not> fixed_count_check fs st
      then (False, pb_istream_error ''wrong size for fixed count field'' (l_stream st), l_mem st)
      else if \<not> required_ok (fields_seen st) (required_count (l_iter st))
      then (False, pb_istream_error ''missing required field'' (l_stream st), l_mem st)
      else (True, l_stream st, l_mem st))"

text \<open>The caller's \<open>local_count\<close> is another activation's variable: it is put back on return.\<close>

primrec pb_decode_noinit :: "nat \<Rightarrow> pb_env \<Rightarrow> msg_decoder" where
  "pb_decode_noinit 0 env s fs dest m = None"
| "pb_decode_noinit (Suc depth) env s fs dest m =
     do {
       let st = \<lparr>l_stream = s, l_iter = snd (pb_field_iter_begin fs dest),
                 l_mem = m\<lparr>local_count := 0\<rparr>, fields_seen = [0, 0], extension_range_start = 0,
                 fixed_count_field = None\<rparr>;
       r \<leftarrow> decode_loop (decode_round (pb_decode_noinit depth env) depth env fs) st;
       let (ok, s', m') = (case r of
         Break st' \<Rightarrow> decode_finish fs st'
       | Continue st' \<Rightarrow> decode_finish fs st'
       | Fail s' m' \<Rightarrow> (False, s', m'));
       Some (ok, s', m'\<lparr>local_count := local_count m\<rparr>)
     }"

section \<open>Entry points\<close>

definition pb_decode :: "nat \<Rightarrow> pb_env \<Rightarrow> msg_decoder" where
  "pb_decode depth env s fs dest m =
     decode_with_defaults (pb_decode_noinit depth env) depth env s fs dest m"

definition pb_decode_delimited_noinit :: "nat \<Rightarrow> pb_env \<Rightarrow> msg_decoder" where
  "pb_decode_delimited_noinit depth env s fs dest m =
     (case pb_make_string_substream s of
        (None, s1) \<Rightarrow> Some (False, s1, m)
      | (Some sub, s1) \<Rightarrow>
          do {
            (status, sub', m1) \<leftarrow> pb_decode_noinit depth env sub fs dest m;
            case pb_close_string_substream s1 sub' of
              (False, s2) \<Rightarrow> Some (False, s2, m1)
            | (True, s2) \<Rightarrow> Some (status, s2, m1)
          })"

definition pb_decode_delimited :: "nat \<Rightarrow> pb_env \<Rightarrow> msg_decoder" where
  "pb_decode_delimited depth env s fs dest m =
     (case pb_make_string_substream s of
        (None, s1) \<Rightarrow> Some (False, s1, m)
      | (Some sub, s1) \<Rightarrow>
          do {
            (status, sub', m1) \<leftarrow> pb_decode depth env sub fs dest m;
            case pb_close_string_substream s1 sub' of
              (False, s2) \<Rightarrow> Some (False, s2, m1)
            | (True, s2) \<Rightarrow> Some (status, s2, m1)
          })"

definition pb_decode_nullterminated :: "nat \<Rightarrow> pb_env \<Rightarrow> msg_decoder" where
  "pb_decode_nullterminated depth env s fs dest m = pb_decode depth env s fs dest m"

definition pb_decode_bool :: "pb_istream \<Rightarrow> addr \<Rightarrow> cmem \<Rightarrow> bool \<times> pb_istream \<times> cmem" where
  "pb_decode_bool s dest m = pb_dec_bool s PB_LAST_FIELD dest m"

section \<open>The search for an extension field ends\<close>

lemma find_extension_loop_absent:
  assumes "iter_ok it" "pos it < nfields (start it)" "s < nfields (start it)" "j < nfields (start it)"
    and "pos it = (s + j) mod nfields (start it)"
    and "\<And>it'. iter_ok it' \<Longrightarrow> start it' = start it \<Longrightarrow> dest_struct it' = dest_struct it \<Longrightarrow>
           PB_LTYPE (ftype (cur it')) \<noteq> PB_LTYPE_EXTENSION"
  shows "\<exists>it'. find_extension_loop s it = Some (False, it') \<and> iter_ok it' \<and> start it' = start it \<and>
           dest_struct it' = dest_struct it"
  using assms
proof (induction "nfields (start it) - j" arbitrary: it j)
  case 0
  then show ?case by simp
next
  case (Suc k)
  let ?it = "snd (pb_field_iter_next it)" and ?n = "nfields (start it)"
  note no = Suc.prems(6)
  have ok: "iter_ok ?it" using Suc.prems by (simp add: iter_ok_next)
  have p: "pos ?it = (s + Suc j) mod ?n" using Suc.prems next_pos [of it] by (simp add: mod_Suc_eq)
  show ?case
  proof (cases "pos ?it = s")
    case True
    with no [of it] Suc.prems(1) ok show ?thesis by (subst find_extension_loop.simps) (simp add: Let_def)
  next
    case False
    with p Suc.prems have j: "Suc j < ?n" by (cases "Suc j = ?n") auto
    have "\<exists>it'. find_extension_loop s ?it = Some (False, it') \<and> iter_ok it' \<and> start it' = start ?it \<and>
            dest_struct it' = dest_struct ?it"
      using Suc.hyps(2) Suc.prems(2-3) ok p j no by (intro Suc.hyps(1) [of _ "Suc j"]) auto
    with False no [of it] Suc.prems(1) show ?thesis by (subst find_extension_loop.simps) (simp add: Let_def)
  qed
qed

lemma find_extension_absent:
  assumes ok: "iter_ok it"
    and no: "\<And>it'. iter_ok it' \<Longrightarrow> start it' = start it \<Longrightarrow> dest_struct it' = dest_struct it \<Longrightarrow>
           PB_LTYPE (ftype (cur it')) \<noteq> PB_LTYPE_EXTENSION"
  shows "\<exists>it'. find_extension_field it = Some (False, it') \<and> iter_ok it' \<and> start it' = start it \<and>
           dest_struct it' = dest_struct it"
proof (cases "pos it < nfields (start it)")
  case True
  then show ?thesis
    unfolding find_extension_field_def
    by (intro find_extension_loop_absent [OF ok _ _ _ _ no, of _ 0]) auto
next
  case False
  with ok have "tag (cur it) = 0"
    using tag_at_nfields [of "start it"] by (auto simp: iter_ok_def Let_def cur_def)
  with no [OF ok] ok show ?thesis
    unfolding find_extension_field_def
    by (subst find_extension_loop.simps) (simp add: next_at_terminator Let_def)
qed

end
