(* ===== verification/PB_Read_Safety.thy ===== *)
theory PB_Read_Safety
  imports PB_Istream
begin

text \<open>
  How the readers of \<open>PB_Istream\<close> move a stream. \<open>adv s s'\<close> says that a call took from the source no more
  bytes than it subtracted from \<^verbatim>\<open>bytes_left\<close>; with a buffer that holds \<^verbatim>\<open>bytes_left\<close> bytes at the start no
  call then reads past its end. \<open>consumes\<close> adds that a successful call took at least one byte, which is
  what ends the loops of the decoder.
\<close>

section \<open>Advancing\<close>

definition adv :: "pb_istream \<Rightarrow> pb_istream \<Rightarrow> bool" where
  "adv s s' \<longleftrightarrow> bytes_left s' \<le> bytes_left s \<and>
     (\<forall>src. source s = Buffer src \<longrightarrow>
        (\<exists>src'. source s' = Buffer src' \<and> length src \<le> length src' + (bytes_left s - bytes_left s')))"

lemma adv_refl [intro, simp]: "adv s s"
  by (simp add: adv_def)

lemma adv_trans [trans]: "adv s s' \<Longrightarrow> adv s' s'' \<Longrightarrow> adv s s''"
  by (fastforce simp: adv_def)

lemma adv_error [simp]: "adv s (pb_istream_error e s') \<longleftrightarrow> adv s s'"
  by (simp add: adv_def pb_istream_error_def)

lemma adv_errmsg [simp]: "adv s (s'\<lparr>is_errmsg := e\<rparr>) \<longleftrightarrow> adv s s'"
  by (simp add: adv_def)

lemma adv_left: "adv s s' \<Longrightarrow> bytes_left s' \<le> bytes_left s"
  by (simp add: adv_def)

section \<open>Primitives\<close>

lemma adv_callback:
  assumes "istream_callback (source s) n = (ok, bs, src')" "n \<le> bytes_left s"
  shows "adv s (s\<lparr>source := src', bytes_left := bytes_left s - n\<rparr>)"
  using assms by (cases "source s") (auto simp: adv_def buf_read_def)

lemma adv_io_error:
  "istream_callback (source s) n = (False, bs, src') \<Longrightarrow> adv s (s\<lparr>source := src'\<rparr>)"
  by (cases "source s") (auto simp: adv_def buf_read_def split: prod.splits)

lemma pb_read_adv:
  assumes "pb_read s n = (ok, bs, s')"
  shows "adv s s' \<and> (ok \<longrightarrow> length bs = n \<and> bytes_left s' = bytes_left s - n)"
proof -
  have "length cs = n" if "istream_callback (source s) n = (c, cs, src)" for c cs src
    using that by (cases "source s") (auto simp: buf_read_def split: prod.splits)
  then show ?thesis
    using assms adv_callback [of s n] adv_io_error [of s n]
    by (auto simp: pb_read_def split: if_splits prod.splits)
qed

lemma pb_read_adv': "pb_read s n = (ok, bs, s') \<Longrightarrow> adv s s'"
  using pb_read_adv by blast

lemma pb_readbyte_adv:
  assumes "pb_readbyte s = (r, s')"
  shows "adv s s' \<and> (r \<noteq> None \<longrightarrow> bytes_left s' < bytes_left s)"
  using assms adv_callback [of s 1] adv_io_error [of s 1]
  by (auto simp: pb_readbyte_def split: if_splits prod.splits)

lemma pb_read_skip_adv: "pb_read_skip s n = (ok, s') \<Longrightarrow> adv s s' \<and> (ok \<longrightarrow> bytes_left s' = bytes_left s - n)"
proof (induction s n rule: pb_read_skip.induct)
  case (1 s n)
  show ?case
  proof (cases "n > 16")
    case False
    with 1(2) show ?thesis by (auto simp: pb_read_skip.simps [of s n] dest!: pb_read_adv split: prod.splits)
  next
    case True
    obtain ok1 bs s1 where r: "pb_read s 16 = (ok1, bs, s1)" by (rule prod_cases3)
    note a = pb_read_adv [OF r]
    show ?thesis
    proof (cases ok1)
      case False
      with 1(2) True r a show ?thesis by (auto simp: pb_read_skip.simps [of s n])
    next
      case ok: True
      with 1(2) True r have "pb_read_skip s1 (n - 16) = (ok, s')" by (simp add: pb_read_skip.simps [of s n])
      with 1(1) [OF True r [symmetric] refl] ok a True show ?thesis
        by (auto intro: adv_trans)
    qed
  qed
qed

lemma pb_read_null_adv: "pb_read_null s n = (ok, s') \<Longrightarrow> adv s s' \<and> (ok \<longrightarrow> bytes_left s' = bytes_left s - n)"
  by (auto simp: pb_read_null_def dest!: pb_read_adv pb_read_skip_adv
      split: if_splits istream_source.splits prod.splits)

section \<open>Varints, tags, skipping\<close>

lemma varint32_loop_adv: "varint32_loop s b r = (v, s') \<Longrightarrow> adv s s'"
proof (induction s b r rule: varint32_loop.induct)
  case (1 s b r)
  obtain c s1 where c: "pb_readbyte s = (c, s1)" by fastforce
  note a = pb_readbyte_adv [OF c]
  show ?case
  proof (cases c)
    case None
    with 1(2) c a show ?thesis by (simp add: varint32_loop.simps [of s])
  next
    case (Some x)
    with 1(2) c a 1(1) [OF c [symmetric] Some refl] show ?thesis
      by (auto simp: varint32_loop.simps [of s] Let_def intro: adv_trans split: if_splits)
  qed
qed

text \<open>\<open>consumes\<close>: an advance that takes at least one byte when it succeeds.\<close>

definition consumes :: "bool \<Rightarrow> pb_istream \<Rightarrow> pb_istream \<Rightarrow> bool" where
  "consumes ok s s' \<longleftrightarrow> adv s s' \<and> (ok \<longrightarrow> bytes_left s' < bytes_left s)"

lemma consumes_adv: "consumes ok s s' \<Longrightarrow> adv s s'"
  by (simp add: consumes_def)

lemma consumes_then: "consumes True s s1 \<Longrightarrow> adv s1 s' \<Longrightarrow> consumes ok s s'"
  using adv_trans [of s s1 s'] adv_left [of s1 s'] by (auto simp: consumes_def)

lemma consumes_fail: "consumes False s s' \<longleftrightarrow> adv s s'"
  by (simp add: consumes_def)

lemma pb_readbyte_consumes: "pb_readbyte s = (r, s') \<Longrightarrow> consumes (r \<noteq> None) s s'"
  using pb_readbyte_adv by (simp add: consumes_def)

lemma pb_decode_varint32_eof_consumes:
  assumes "pb_decode_varint32_eof s = (r, eof, s')"
  shows "consumes (r \<noteq> None) s s'"
proof -
  obtain c s1 where c: "pb_readbyte s = (c, s1)" by fastforce
  show ?thesis
  proof (cases c)
    case None
    with assms c pb_readbyte_consumes [OF c] show ?thesis by (auto simp: pb_decode_varint32_eof_def)
  next
    case (Some b)
    with pb_readbyte_consumes [OF c] have "consumes True s s1" by simp
    with assms c Some show ?thesis
      by (auto simp: pb_decode_varint32_eof_def intro: consumes_then dest: varint32_loop_adv split: if_splits prod.splits)
  qed
qed

lemma pb_decode_varint32_consumes: "pb_decode_varint32 s = (r, s') \<Longrightarrow> consumes (r \<noteq> None) s s'"
  by (auto simp: pb_decode_varint32_def dest: pb_decode_varint32_eof_consumes split: prod.splits)

lemma varint_loop_consumes: "varint_loop s b r = (v, s') \<Longrightarrow> consumes (v \<noteq> None) s s'"
proof (induction s b r rule: varint_loop.induct)
  case (1 s b r)
  obtain c s1 where c: "pb_readbyte s = (c, s1)" by fastforce
  note a = pb_readbyte_consumes [OF c]
  show ?case
  proof (cases "b \<ge> 64 \<or> c = None")
    case True
    with 1(2) c a show ?thesis by (auto simp: varint_loop.simps [of s] consumes_fail split: if_splits)
  next
    case False
    then obtain x where x: "c = Some x" by auto
    with a have a1: "consumes True s s1" by simp
    from False have "\<not> 64 \<le> b" by simp
    with 1(2) c a1 1(1) [OF _ c [symmetric] x refl] x show ?thesis
      by (auto simp: varint_loop.simps [of s] Let_def intro: consumes_then dest: consumes_adv split: if_splits)
  qed
qed

lemma pb_decode_varint_consumes: "pb_decode_varint s = (r, s') \<Longrightarrow> consumes (r \<noteq> None) s s'"
  unfolding pb_decode_varint_def by (rule varint_loop_consumes)

lemma pb_decode_svarint_consumes: "pb_decode_svarint s = (r, s') \<Longrightarrow> consumes (r \<noteq> None) s s'"
  by (auto simp: pb_decode_svarint_def dest!: pb_decode_varint_consumes split: prod.splits option.splits if_splits)

lemma pb_read_consumes: "pb_read s n = (ok, bs, s') \<Longrightarrow> 0 < n \<Longrightarrow> consumes ok s s'"
proof -
  assume r: "pb_read s n = (ok, bs, s')" and n: "0 < n"
  then have "ok \<Longrightarrow> n \<le> bytes_left s" by (auto simp: pb_read_def split: if_splits)
  with pb_read_adv [OF r] n show ?thesis by (cases ok) (simp_all add: consumes_def)
qed

lemma pb_decode_fixed_consumes:
  "pb_decode_fixed32 s = (r, s') \<Longrightarrow> consumes (r \<noteq> None) s s'"
  "pb_decode_fixed64 s = (w, s') \<Longrightarrow> consumes (w \<noteq> None) s s'"
  by (auto simp: pb_decode_fixed32_def pb_decode_fixed64_def dest!: pb_read_consumes split: prod.splits bool.splits)

lemma pb_skip_varint_adv: "pb_skip_varint s = (ok, s') \<Longrightarrow> adv s s'"
proof (induction s rule: pb_skip_varint.induct)
  case (1 s)
  obtain ok1 bs s1 where r: "pb_read s 1 = (ok1, bs, s1)" by (rule prod_cases3)
  from pb_read_adv' [OF r] 1(2) 1(1) [OF r [symmetric] _ refl] r show ?case
    by (cases ok1) (auto simp: pb_skip_varint.simps [of s] intro: adv_trans split: if_splits)
qed

lemma pb_skip_string_adv: "pb_skip_string s = (ok, s') \<Longrightarrow> adv s s'"
  by (auto simp: pb_skip_string_def dest!: pb_decode_varint32_consumes pb_read_null_adv consumes_adv
      intro: adv_trans split: prod.splits option.splits)

lemma pb_skip_field_adv: "pb_skip_field s wt = (ok, s') \<Longrightarrow> adv s s'"
  by (auto simp: pb_skip_field_def dest: pb_skip_varint_adv pb_skip_string_adv pb_read_null_adv split: if_splits)

lemma pb_decode_tag_consumes: "pb_decode_tag s = (r, eof, s') \<Longrightarrow> consumes (r \<noteq> None) s s'"
  by (auto simp: pb_decode_tag_def consumes_fail dest!: pb_decode_varint32_eof_consumes intro: consumes_adv
      split: prod.splits option.splits if_splits)


section \<open>Substreams\<close>

text \<open>
  A substream takes its bytes from the parent at once; after it is closed the parent stands behind
  them, whether or not they were all read.
\<close>

lemma pb_make_string_substream_adv:
  assumes "pb_make_string_substream s = (r, s1)"
  shows "consumes (r \<noteq> None) s s1"
proof -
  obtain v s0 where v: "pb_decode_varint32 s = (v, s0)" by fastforce
  note c = pb_decode_varint32_consumes [OF v]
  show ?thesis
  proof (cases v)
    case None
    with assms v c show ?thesis by (auto simp: pb_make_string_substream_def)
  next
    case (Some sz)
    with assms v c have "consumes True s s0" "adv s0 s1"
      by (auto simp: pb_make_string_substream_def adv_def pb_istream_error_def split: if_splits)
    then show ?thesis by (rule consumes_then)
  qed
qed

definition substream_of :: "pb_istream \<Rightarrow> pb_istream \<Rightarrow> pb_istream \<Rightarrow> bool" where
  "substream_of s s1 sub \<longleftrightarrow> (\<exists>s0. adv s s0 \<and> s1 = s0\<lparr>bytes_left := bytes_left s1\<rparr> \<and>
     sub = s0\<lparr>bytes_left := bytes_left sub\<rparr> \<and> bytes_left s0 = bytes_left s1 + bytes_left sub \<and>
     bytes_left s0 < bytes_left s)"

lemma pb_make_string_substream_sub:
  "pb_make_string_substream s = (Some sub, s1) \<Longrightarrow> substream_of s s1 sub"
  by (auto simp: pb_make_string_substream_def substream_of_def dest!: pb_decode_varint32_consumes
      simp: consumes_def split: prod.splits option.splits if_splits
      intro!: exI [of _ "s1\<lparr>bytes_left := bytes_left s1 + bytes_left sub\<rparr>"])

lemma pb_close_string_substream_adv:
  assumes "substream_of s s1 sub" "adv sub sub'" "pb_close_string_substream s1 sub' = (ok, s2)"
  shows "consumes ok' s s2"
proof -
  from assms(1) obtain s0 where s0: "adv s s0" "s1 = s0\<lparr>bytes_left := bytes_left s1\<rparr>"
      "sub = s0\<lparr>bytes_left := bytes_left sub\<rparr>" "bytes_left s0 = bytes_left s1 + bytes_left sub"
      "bytes_left s0 < bytes_left s" by (auto simp: substream_of_def)
  have src: "source s1 = source s0" "source sub = source s0"
    using arg_cong [OF s0(2), of source] arg_cong [OF s0(3), of source] by simp_all
  obtain c sub2 where c: "(if bytes_left sub' \<noteq> 0 then pb_read_null sub' (bytes_left sub') else (True, sub')) = (c, sub2)"
    by fastforce
  have "adv sub' sub2 \<and> (c \<longrightarrow> bytes_left sub2 = 0)"
    using c pb_read_null_adv [of sub' "bytes_left sub'" c sub2] by (auto split: if_splits)
  with assms(2) have a: "adv sub sub2" "c \<Longrightarrow> bytes_left sub2 = 0" by (auto intro: adv_trans)
  have "adv s0 s2"
  proof (cases c)
    case True
    then have "s2 = s1\<lparr>source := source sub2, is_errmsg := is_errmsg sub2\<rparr>"
      using assms(3) c by (simp add: pb_close_string_substream_def Let_def)
    with True a s0(4) src show ?thesis by (auto simp: adv_def)
  next
    case False
    then have "s2 = s1" using assms(3) c by (simp add: pb_close_string_substream_def Let_def)
    with s0(4) src show ?thesis by (auto simp: adv_def)
  qed
  moreover have "consumes True s s0" using s0 by (simp add: consumes_def)
  ultimately show ?thesis by (rule consumes_then [rotated])
qed

lemma substream_parent: "pb_make_string_substream s = (Some sub, s1) \<Longrightarrow> consumes ok s s1"
  using pb_make_string_substream_adv [of s "Some sub" s1] consumes_then [of s s1 s1 ok] by simp

end
