(* ===== verification/PB_Decode_Safety.thy ===== *)
theory PB_Decode_Safety
  imports PB_Decode PB_Read_Safety
begin

text \<open>
  \<^verbatim>\<open>pb_decode\<close> returns on every input and keeps within its input. The first part shows that every function
  the decoder calls returns on descriptors without callbacks and extensions whose nesting is bounded
  (\<open>decodable\<close>); the loops end because each round consumes input. The locale \<open>field_reader\<close> is the contract
  of the entries of \<^verbatim>\<open>PB_DECODERS\<close> that the array loops rely on.
\<close>

section \<open>Descriptors the decoder can work on\<close>

definition dec_field :: "(pb_field list \<Rightarrow> bool) \<Rightarrow> pb_field \<Rightarrow> bool" where
  "dec_field sub f \<longleftrightarrow>
     (let a = PB_ATYPE (ftype f); l = PB_LTYPE (ftype f) in
      (a = PB_ATYPE_STATIC \<or> a = PB_ATYPE_POINTER) \<and>
      l \<le> PB_LTYPE_FIXED_LENGTH_BYTES \<and> l \<noteq> PB_LTYPE_EXTENSION \<and>
      (a = PB_ATYPE_POINTER \<longrightarrow> 0 < data_size f) \<and>
      (case fptr f of Submsg_fields fs \<Rightarrow> l = PB_LTYPE_SUBMESSAGE \<and> sub fs | _ \<Rightarrow> l \<noteq> PB_LTYPE_SUBMESSAGE))"

primrec decodable :: "nat \<Rightarrow> pb_field list \<Rightarrow> bool" where
  "decodable 0 fs = False"
| "decodable (Suc depth) fs = list_all (dec_field (decodable depth)) fs"

lemma dec_field_last [simp]: "dec_field sub PB_LAST_FIELD"
  by (simp add: dec_field_def layout_defs)

lemma dec_field_at: "decodable (Suc d) fs \<Longrightarrow> dec_field (decodable d) (field_at fs i)"
  by (simp add: field_at_def list_all_length)

lemma walk_dec_field: "decodable (Suc d) fs \<Longrightarrow> it \<in> set (pb_fields_walk fs dest) \<Longrightarrow> dec_field (decodable d) (cur it)"
  by (auto simp: pb_fields_walk_eq cur_iter_at simp del: decodable.simps intro: dec_field_at)

section \<open>Defaults and release return\<close>

lemma each_field_returns:
  assumes "\<And>it m. it \<in> set its \<Longrightarrow> \<exists>m'. g it m = Some m'"
  shows "\<exists>m'. each_field g its m = Some m'"
  using assms
proof (induction its arbitrary: m)
  case (Cons it its)
  from Cons.prems [of it m] obtain m1 where "g it m = Some m1" by auto
  with Cons.IH [of m1] Cons.prems show ?case by auto
qed simp

lemma set_to_default_returns:
  assumes "dec_field (decodable d) (cur it)" "d < e"
  shows "\<exists>m'. pb_field_set_to_default e env it m = Some m'"
  using assms
proof (induction d arbitrary: e it m)
  case 0
  then obtain e' where e: "e = Suc e'" by (cases e) auto
  from 0 show ?case by (auto simp: e dec_field_def Let_def split: pb_field_ptr.splits)
next
  case (Suc d)
  then obtain e' where e: "e = Suc e'" "d < e'" by (cases e) auto
  have sub: "\<exists>m'. each_field (pb_field_set_to_default e' env) (pb_fields_walk fs p) m = Some m'"
    if "decodable (Suc d) fs" for fs p m
    using that Suc.IH e(2) by (intro each_field_returns) (blast dest: walk_dec_field)
  from Suc.prems sub show ?case
    by (auto simp: e(1) dec_field_def Let_def simp del: decodable.simps split: pb_field_ptr.splits)
qed

lemma set_to_defaults_returns:
  assumes "decodable d fs" "d \<le> e"
  shows "\<exists>m'. pb_message_set_to_defaults e env fs dest m = Some m'"
proof -
  obtain d' where "d = Suc d'" using assms by (cases d) auto
  with assms show ?thesis unfolding pb_message_set_to_defaults_def
    by (intro each_field_returns set_to_default_returns [of d']) (auto simp del: decodable.simps dest: walk_dec_field)
qed

lemma bind_Some_returns: "\<exists>a. x = Some a \<Longrightarrow> \<exists>r. x \<bind> (\<lambda>a. Some (f a)) = Some r"
  by auto

lemma release_items_returns:
  assumes "\<And>p m. \<exists>m'. g p m = Some m'"
  shows "\<exists>m'. release_items g step n p m = Some m'"
proof (induction n arbitrary: p m)
  case (Suc n)
  obtain m1 where "g p m = Some m1" using assms by blast
  with Suc show ?case by simp
qed simp

lemma release_field_returns:
  assumes "dec_field (decodable d) (cur it)" "d < e"
  shows "\<exists>m'. pb_release_single_field e env it m = Some m'"
  using assms
proof (induction d arbitrary: e it m)
  case 0
  then obtain e' where e: "e = Suc e'" by (cases e) auto
  from 0 show ?case by (auto simp: e dec_field_def Let_def split: pb_field_ptr.splits)
next
  case (Suc d)
  then obtain e' where e: "e = Suc e'" "d < e'" by (cases e) auto
  let ?g = "\<lambda>p m. if p = 0 then Some m
                  else case fptr (cur it) of
                    Submsg_fields fs \<Rightarrow> each_field (pb_release_single_field e' env) (pb_fields_walk fs p) m
                  | _ \<Rightarrow> None"
  have "\<exists>m'. ?g p m = Some m'" if "PB_LTYPE (ftype (cur it)) = PB_LTYPE_SUBMESSAGE" for p m
  proof -
    from that Suc.prems obtain fs where fs: "fptr (cur it) = Submsg_fields fs" "decodable (Suc d) fs"
      by (auto simp: dec_field_def Let_def simp del: decodable.simps split: pb_field_ptr.splits)
    then have "\<exists>m'. each_field (pb_release_single_field e' env) (pb_fields_walk fs p) m = Some m'"
      using Suc.IH e(2) by (intro each_field_returns) (blast dest: walk_dec_field)
    with fs show ?thesis by simp
  qed
  then have "\<exists>m'. release_items ?g step n p m = Some m'"
    if "PB_LTYPE (ftype (cur it)) = PB_LTYPE_SUBMESSAGE" for step n p m
    using that by (intro release_items_returns)
  moreover have "PB_LTYPE (ftype (cur it)) \<noteq> PB_LTYPE_EXTENSION"
    using Suc.prems by (simp add: dec_field_def Let_def)
  ultimately show ?case by (auto simp: e(1) Let_def intro!: bind_Some_returns)
qed

lemma release_returns:
  assumes "decodable d fs" "d \<le> e"
  shows "\<exists>m'. pb_release e env fs dest m = Some m'"
proof -
  obtain d' where "d = Suc d'" using assms by (cases d) auto
  with assms have "\<exists>m'. each_field (pb_release_single_field e env) (pb_fields_walk fs dest) m = Some m'"
    by (intro each_field_returns release_field_returns [of d']) (auto simp del: decodable.simps dest: walk_dec_field)
  then show ?thesis by (simp add: pb_release_def)
qed


section \<open>Field decoders\<close>

lemma allocate_field_stream:
  "allocate_field s p d a m = (ok, s', m') \<Longrightarrow> adv s s' \<and> (ok \<longrightarrow> s' = s)"
  by (auto simp: allocate_field_def Let_def split: if_splits prod.splits)

locale field_reader =
  fixes func :: field_decoder and f :: pb_field
  assumes reads: "\<exists>ok s' m'. func s f dest m = Some (ok, s', m') \<and> consumes ok s s'"
begin

lemma readsE:
  obtains ok s' m' where "func s f dest m = Some (ok, s', m')" "consumes ok s s'"
  using reads by blast

lemma packed_static_loop_returns:
  assumes "cur it = f"
  shows "\<exists>ok sub' m'. packed_static_loop func it sub m = Some (ok, sub', m') \<and> adv sub sub'"
proof (induction "bytes_left sub" arbitrary: sub m rule: less_induct)
  case less
  show ?case
  proof (cases "bytes_left sub > 0 \<and> load_size it m < array_size (cur it)")
    case False
    then show ?thesis by (subst packed_static_loop.simps) auto
  next
    case True
    obtain ok s1 m1 where r: "func sub f (pData it + item_offset f (load_size it m)) m = Some (ok, s1, m1)"
      "consumes ok sub s1" by (rule readsE)
    show ?thesis
    proof (cases ok)
      case False
      with True r assms show ?thesis by (subst packed_static_loop.simps) (auto dest: consumes_adv)
    next
      case ok: True
      let ?m = "store_size 4 it (load_size it m1 + 1) m1"
      from r ok have "bytes_left s1 < bytes_left sub" "adv sub s1" by (auto simp: consumes_def)
      moreover from less [OF this(1), of ?m] obtain ok' sub' m' where
        "packed_static_loop func it s1 ?m = Some (ok', sub', m')" "adv s1 sub'" by blast
      ultimately show ?thesis using True r ok assms
        by (subst packed_static_loop.simps) (auto intro: adv_trans)
    qed
  qed
qed

lemma packed_pointer_loop_returns:
  assumes "cur it = f" "0 < data_size f"
    and init: "\<And>item m. \<exists>m'. initialize_pointer_field depth env item it m = Some m'"
  shows "\<exists>ok sub' b m'. packed_pointer_loop func depth env it sub allocated m = Some (ok, sub', b, m') \<and> adv sub sub'"
proof (induction "bytes_left sub" arbitrary: sub allocated m rule: less_induct)
  case less
  let ?size = "load_size it m"
  let ?remain = "(bytes_left sub - 1) div data_size f + 1"
  let ?alloc = "if ?size + 1 > allocated
      then (if ?remain < PB_SIZE_MAX - allocated then allocated + ?remain else allocated + 1) else allocated"
  obtain ok1 sub1 m1 where a: "(if ?size + 1 > allocated
      then allocate_field sub (pData it) (data_size f) ?alloc m else (True, sub, m)) = (ok1, sub1, m1)"
    by (rule prod_cases3)
  have a1: "adv sub sub1" "ok1 \<Longrightarrow> sub1 = sub"
    using a allocate_field_stream [of sub "pData it" "data_size f" ?alloc m ok1 sub1 m1] by (auto split: if_splits)
  let ?item = "load_ptr m1 (pData it) + item_offset f (load_size it m1)"
  obtain m2 where i: "initialize_pointer_field depth env ?item it m1 = Some m2" using init by blast
  obtain ok s2 m3 where r: "func sub1 f ?item m2 = Some (ok, s2, m3)" "consumes ok sub1 s2" by (rule readsE)
  let ?m = "store_size 4 it (load_size it m3 + 1) m3"
  have nz: "(data_size f = 0) = False" using assms(2) by simp
  have step: "packed_pointer_loop func depth env it sub allocated m =
     (if bytes_left sub = 0 then Some (True, sub, False, m)
      else if ?size = PB_SIZE_MAX then Some (False, sub, True, m)
      else if \<not> ok1 then Some (False, sub1, False, m1)
      else if \<not> ok then Some (False, s2, False, m3)
      else packed_pointer_loop func depth env it s2 ?alloc ?m)"
    by (subst packed_pointer_loop.simps)
      (simp only: Let_def assms(1) nz a prod.case bind.bind_lunit i r(1) simp_thms if_False)
  show ?case
  proof (cases "bytes_left sub = 0 \<or> ?size = PB_SIZE_MAX \<or> \<not> ok1 \<or> \<not> ok")
    case True
    then show ?thesis using step a1 r(2) by (auto dest: consumes_adv intro: adv_trans)
  next
    case False
    then have "bytes_left s2 < bytes_left sub" "adv sub s2" using a1 r(2) by (auto simp: consumes_def)
    moreover from less [OF this(1), of ?alloc ?m] obtain ok' sub' b m' where
      "packed_pointer_loop func depth env it s2 ?alloc ?m = Some (ok', sub', b, m')" "adv s2 sub'" by blast
    ultimately show ?thesis using False step by (auto intro: adv_trans)
  qed
qed

end

definition msg_reader :: "msg_decoder \<Rightarrow> pb_field list \<Rightarrow> bool" where
  "msg_reader dec fs \<longleftrightarrow> (\<forall>s dest m. \<exists>ok s' m'. dec s fs dest m = Some (ok, s', m') \<and> adv s s')"

lemma pb_read_to_adv: "pb_read_to s d n m = (ok, s', m') \<Longrightarrow> adv s s'"
  by (auto simp: pb_read_to_def dest: pb_read_adv' split: prod.splits)

lemma value_decoders:
  "pb_dec_bool s f d m = (ok, s', m') \<Longrightarrow> consumes ok s s'"
  "pb_dec_varint s f d m = (ok, s', m') \<Longrightarrow> consumes ok s s'"
  "pb_dec_uvarint s f d m = (ok, s', m') \<Longrightarrow> consumes ok s s'"
  "pb_dec_svarint s f d m = (ok, s', m') \<Longrightarrow> consumes ok s s'"
  "pb_dec_fixed32 s f d m = (ok, s', m') \<Longrightarrow> consumes ok s s'"
  "pb_dec_fixed64 s f d m = (ok, s', m') \<Longrightarrow> consumes ok s s'"
  by (auto simp: pb_dec_bool_def pb_dec_varint_def pb_dec_uvarint_def pb_dec_svarint_def pb_dec_fixed32_def
      pb_dec_fixed64_def Let_def consumes_fail
      dest!: pb_decode_varint32_consumes pb_decode_varint_consumes pb_decode_svarint_consumes
        pb_decode_fixed_consumes intro: consumes_adv split: prod.splits option.splits if_splits)

text \<open>The three decoders of length-prefixed values share their first step.\<close>

lemma length_prefix_consumes:
  assumes "r = (case pb_decode_varint32 s of (None, s1) \<Rightarrow> (False, s1, m) | (Some sz, s1) \<Rightarrow> body sz s1)"
    and body: "\<And>sz s1 ok s' m'. body sz s1 = (ok, s', m') \<Longrightarrow> adv s1 s'" and "r = (ok, s', m' :: cmem)"
  shows "consumes ok s s'"
proof (cases "pb_decode_varint32 s")
  case v: (Pair v s1)
  note c = pb_decode_varint32_consumes [OF v]
  show ?thesis
  proof (cases v)
    case None
    with assms(1,3) v c show ?thesis by simp
  next
    case (Some sz)
    with assms(1,3) v have "adv s1 s'" by (auto intro: body [OF sym])
    moreover have "consumes True s s1" using c Some by simp
    ultimately show ?thesis by (rule consumes_then [rotated])
  qed
qed

lemma length_prefixed_decoders:
  "pb_dec_bytes s f d m = (ok, s', m') \<Longrightarrow> consumes ok s s'"
  "pb_dec_string s f d m = (ok, s', m') \<Longrightarrow> consumes ok s s'"
  "pb_dec_fixed_length_bytes s f d m = (ok, s', m') \<Longrightarrow> consumes ok s s'"
  by (rule length_prefix_consumes [OF pb_dec_bytes_def] length_prefix_consumes [OF pb_dec_string_def]
        length_prefix_consumes [OF pb_dec_fixed_length_bytes_def];
      auto simp: Let_def dest!: pb_read_to_adv allocate_field_stream intro: adv_trans
        split: if_splits prod.splits bool.splits)+

lemma total_reader:
  assumes "\<And>s d m ok s' m'. g s f d m = (ok, s', m') \<Longrightarrow> consumes ok s s'"
  shows "field_reader (\<lambda>s f d m. Some (g s f d m)) f"
proof
  fix s d m
  show "\<exists>ok s' m'. Some (g s f d m) = Some (ok, s', m') \<and> consumes ok s s'"
    using assms by (cases "g s f d m") auto
qed

interpretation dec_bool: field_reader "\<lambda>s f d m. Some (pb_dec_bool s f d m)" f for f
  by (rule total_reader) (rule value_decoders)

interpretation dec_varint: field_reader "\<lambda>s f d m. Some (pb_dec_varint s f d m)" f for f
  by (rule total_reader) (rule value_decoders)

interpretation dec_uvarint: field_reader "\<lambda>s f d m. Some (pb_dec_uvarint s f d m)" f for f
  by (rule total_reader) (rule value_decoders)

interpretation dec_svarint: field_reader "\<lambda>s f d m. Some (pb_dec_svarint s f d m)" f for f
  by (rule total_reader) (rule value_decoders)

interpretation dec_fixed32: field_reader "\<lambda>s f d m. Some (pb_dec_fixed32 s f d m)" f for f
  by (rule total_reader) (rule value_decoders)

interpretation dec_fixed64: field_reader "\<lambda>s f d m. Some (pb_dec_fixed64 s f d m)" f for f
  by (rule total_reader) (rule value_decoders)

interpretation dec_bytes: field_reader "\<lambda>s f d m. Some (pb_dec_bytes s f d m)" f for f
  by (rule total_reader) (rule length_prefixed_decoders)

interpretation dec_string: field_reader "\<lambda>s f d m. Some (pb_dec_string s f d m)" f for f
  by (rule total_reader) (rule length_prefixed_decoders)

interpretation dec_fixed_length_bytes: field_reader "\<lambda>s f d m. Some (pb_dec_fixed_length_bytes s f d m)" f for f
  by (rule total_reader) (rule length_prefixed_decoders)

section \<open>Submessages and the table\<close>

lemma decode_with_defaults_returns:
  assumes "msg_reader dec fs" "decodable d fs" "d \<le> e"
  shows "\<exists>ok s' m'. decode_with_defaults dec e env s fs dest m = Some (ok, s', m') \<and> adv s s'"
proof -
  obtain m1 where 1: "pb_message_set_to_defaults e env fs dest m = Some m1"
    using set_to_defaults_returns [OF assms(2,3)] by blast
  obtain ok s' m2 where 2: "dec s fs dest m1 = Some (ok, s', m2)" "adv s s'"
    using assms(1) unfolding msg_reader_def by blast
  obtain m3 where 3: "pb_release e env fs dest m2 = Some m3" using release_returns [OF assms(2,3)] by blast
  from 1 2 3 show ?thesis by (cases ok) (auto simp: decode_with_defaults_def)
qed

lemma dec_field_submsg:
  assumes "dec_field sub f" "PB_LTYPE (ftype f) = PB_LTYPE_SUBMESSAGE"
  obtains fs where "fptr f = Submsg_fields fs" "sub fs"
  using assms by (auto simp: dec_field_def Let_def split: pb_field_ptr.splits)

lemma pb_dec_submessage_reads:
  assumes "fptr f = Submsg_fields fs" "msg_reader dec fs" "decodable d fs" "d \<le> e"
  shows "\<exists>ok s' m'. pb_dec_submessage dec e env s f dest m = Some (ok, s', m') \<and> consumes ok s s'"
proof -
  obtain r s1 where r: "pb_make_string_substream s = (r, s1)" by fastforce
  show ?thesis
  proof (cases r)
    case None
    with r pb_make_string_substream_adv [OF r] show ?thesis by (auto simp: pb_dec_submessage_def)
  next
    case (Some sub)
    note sub = pb_make_string_substream_sub [OF r [unfolded Some]]
    obtain ok sub' m1 where d: "(if PB_HTYPE (ftype f) = PB_HTYPE_REPEATED
        then decode_with_defaults dec e env sub fs dest m else dec sub fs dest m) = Some (ok, sub', m1)"
      and a: "adv sub sub'"
      using decode_with_defaults_returns [OF assms(2-4)] assms(2) unfolding msg_reader_def
      by (metis (full_types))
    obtain c s2 where c: "pb_close_string_substream s1 sub' = (c, s2)" by fastforce
    note con = pb_close_string_substream_adv [OF sub a c]
    from r Some assms(1) d c con show ?thesis
      by (cases c) (auto simp: pb_dec_submessage_def)
  qed
qed

lemma PB_DECODERS_reads:
  assumes f: "dec_field (decodable d) f" and dec: "\<And>fs. decodable d fs \<Longrightarrow> msg_reader dec fs" and "d \<le> e"
  shows "field_reader (PB_DECODERS dec e env (PB_LTYPE (ftype f))) f"
proof
  fix s dest m
  let ?l = "PB_LTYPE (ftype f)"
  have "?l \<le> PB_LTYPE_FIXED_LENGTH_BYTES" "?l \<noteq> PB_LTYPE_EXTENSION" using f by (simp_all add: dec_field_def Let_def)
  from ltype_cases [OF this] show "\<exists>ok s' m'. PB_DECODERS dec e env ?l s f dest m = Some (ok, s', m') \<and> consumes ok s s'"
  proof (elim disjE)
    assume l: "?l = PB_LTYPE_SUBMESSAGE"
    obtain fs where fs: "fptr f = Submsg_fields fs" "decodable d fs" using dec_field_submsg [OF f l] .
    with pb_dec_submessage_reads [OF fs(1) dec [OF fs(2)] fs(2) assms(3)] l show ?thesis
      by (simp add: PB_DECODERS_def layout_defs)
  qed (use dec_bool.reads dec_varint.reads dec_uvarint.reads dec_svarint.reads dec_fixed32.reads dec_fixed64.reads
      dec_bytes.reads dec_string.reads dec_fixed_length_bytes.reads in \<open>simp_all add: PB_DECODERS_def layout_defs\<close>)
qed

section \<open>Static and pointer fields\<close>

lemma substream_reads:
  assumes "pb_make_string_substream s = (Some sub, s1)" "adv sub sub'"
    "pb_close_string_substream s1 sub' = (c, s2)"
  shows "adv s s2"
  using pb_close_string_substream_adv [OF pb_make_string_substream_sub [OF assms(1)] assms(2,3), of True]
  by (rule consumes_adv)

lemma initialize_pointer_field_returns:
  assumes "dec_field (decodable d) (cur it)" "d \<le> e"
  shows "\<exists>m'. initialize_pointer_field e env item it m = Some m'"
proof (cases "PB_LTYPE (ftype (cur it)) = PB_LTYPE_SUBMESSAGE")
  case True
  from dec_field_submsg [OF assms(1) this] obtain fs where "fptr (cur it) = Submsg_fields fs" "decodable d fs" .
  with True set_to_defaults_returns [OF this(2) assms(2)] show ?thesis
    by (simp add: initialize_pointer_field_def Let_def layout_defs)
qed (simp add: initialize_pointer_field_def Let_def)


text \<open>A call that returns, with the stream advanced.\<close>

definition advances :: "pb_istream \<Rightarrow> dec_result \<Rightarrow> bool" where
  "advances s r \<longleftrightarrow> (\<exists>ok s' m'. r = Some (ok, s', m') \<and> adv s s')"

lemma advances_Some [simp]: "advances s (Some (ok, s', m')) \<longleftrightarrow> adv s s'"
  by (simp add: advances_def)

lemma advances_func: "field_reader func f \<Longrightarrow> advances s (func s f p m)"
  by (rule field_reader.readsE [of func f s p m]) (auto simp: consumes_adv)

lemma packed_static_advances:
  assumes "field_reader func f" "cur it = f"
  shows "advances s
     (case pb_make_string_substream s of
        (None, s1) \<Rightarrow> Some (False, s1, m)
      | (Some sub, s1) \<Rightarrow>
          do {
            (status, sub', m1) \<leftarrow> packed_static_loop func it sub m;
            if bytes_left sub' \<noteq> 0
            then Some (False, pb_istream_error ''array overflow'' s1, m1)
            else
              case pb_close_string_substream s1 sub' of
                (False, s2) \<Rightarrow> Some (False, s2, m1)
              | (True, s2) \<Rightarrow> Some (status, s2, m1)
          })"
proof (cases "pb_make_string_substream s")
  case r: (Pair r s1)
  show ?thesis
  proof (cases r)
    case None
    with r pb_make_string_substream_adv [OF r] show ?thesis by (auto dest: consumes_adv)
  next
    case (Some sub)
    obtain ok sub' m' where l: "packed_static_loop func it sub m = Some (ok, sub', m')" "adv sub sub'"
      using field_reader.packed_static_loop_returns [OF assms] by blast
    obtain c s2 where c: "pb_close_string_substream s1 sub' = (c, s2)" by fastforce
    from substream_reads [OF r [unfolded Some] l(2) c] substream_parent [OF r [unfolded Some]] r Some l c
    show ?thesis by (auto dest: consumes_adv split: bool.splits)
  qed
qed

lemma packed_pointer_advances:
  assumes "field_reader func f" "cur it = f" "0 < data_size f"
    and "\<And>item m. \<exists>m'. initialize_pointer_field e env item it m = Some m'"
  shows "advances s
     (case pb_make_string_substream s of
        (None, s1) \<Rightarrow> Some (False, s1, m)
      | (Some sub, s1) \<Rightarrow>
          do {
            (status, sub', too_many, m1) \<leftarrow> packed_pointer_loop func e env it sub (load_size it m) m;
            let s2 = (if too_many then s1\<lparr>is_errmsg := Some ''too many array entries''\<rparr> else s1);
            case pb_close_string_substream s2 sub' of
              (False, s3) \<Rightarrow> Some (False, s3, m1)
            | (True, s3) \<Rightarrow> Some (status, s3, m1)
          })"
proof (cases "pb_make_string_substream s")
  case r: (Pair r s1)
  show ?thesis
  proof (cases r)
    case None
    with r pb_make_string_substream_adv [OF r] show ?thesis by (auto dest: consumes_adv)
  next
    case (Some sub)
    obtain ok sub' b m' where l: "packed_pointer_loop func e env it sub (load_size it m) m = Some (ok, sub', b, m')"
      "adv sub sub'" using field_reader.packed_pointer_loop_returns [OF assms] by blast
    let ?s1 = "if b then s1\<lparr>is_errmsg := Some ''too many array entries''\<rparr> else s1"
    obtain c s2 where c: "pb_close_string_substream ?s1 sub' = (c, s2)" by fastforce
    obtain c0 s0 where c0: "pb_close_string_substream s1 sub' = (c0, s0)" by fastforce
    have "adv s s2"
      using substream_reads [OF r [unfolded Some] l(2) c0] c c0
      by (auto simp: pb_close_string_substream_def Let_def adv_def split: if_splits prod.splits)
    with r Some l c show ?thesis by (auto simp: Let_def split: bool.splits)
  qed
qed

lemma decode_static_field_returns:
  assumes f: "dec_field (decodable d) (cur it)" and dec: "\<And>fs. decodable d fs \<Longrightarrow> msg_reader dec fs"
    and "d \<le> e"
  shows "advances s (decode_static_field dec e env s wt it m)"
proof -
  let ?f = "cur it" and ?l = "PB_LTYPE (ftype (cur it))"
  let ?func = "PB_DECODERS dec e env ?l"
  have fr: "field_reader ?func ?f" by (rule PB_DECODERS_reads [OF assms])
  note [simp] = advances_func [OF fr]
  have oneof: "advances s (do { m2 \<leftarrow>
            (if ?l = PB_LTYPE_SUBMESSAGE then
               (case fptr ?f of
                  Submsg_fields fs \<Rightarrow> pb_message_set_to_defaults e env fs (pData it) (m' fs)
                | _ \<Rightarrow> None)
             else Some m1);
          ?func s ?f (pData it) m2 })" for m1 m'
  proof (cases "?l = PB_LTYPE_SUBMESSAGE")
    case True
    from dec_field_submsg [OF f this] obtain fs where fs: "fptr ?f = Submsg_fields fs" "decodable d fs" .
    obtain m2 where "pb_message_set_to_defaults e env fs (pData it) (m' fs) = Some m2"
      using set_to_defaults_returns [OF fs(2) assms(3)] by blast
    with True fs advances_func [OF fr] show ?thesis by simp
  qed simp
  show ?thesis
    unfolding decode_static_field_def Let_def
    by (simp add: oneof packed_static_advances [OF fr refl])
qed

lemma decode_pointer_field_returns:
  assumes f: "dec_field (decodable d) (cur it)" and dec: "\<And>fs. decodable d fs \<Longrightarrow> msg_reader dec fs"
    and "d < e" "0 < data_size (cur it)"
  shows "advances s (decode_pointer_field dec e env s wt it m)"
proof -
  let ?f = "cur it" and ?l = "PB_LTYPE (ftype (cur it))"
  let ?func = "PB_DECODERS dec e env ?l"
  have "d \<le> e" using assms(3) by simp
  have fr: "field_reader ?func ?f" by (rule PB_DECODERS_reads [OF f _ \<open>d \<le> e\<close>]) (rule dec)
  note func = advances_func [OF fr]
  have init: "\<exists>m'. initialize_pointer_field e env item it m = Some m'" for item m
    by (rule initialize_pointer_field_returns [OF f \<open>d \<le> e\<close>])
  have alloc: "advances s (case allocate_field s p n k m of
       (False, s1, m3) \<Rightarrow> Some (False, s1, m3)
     | (True, s1, m3) \<Rightarrow> do { m4 \<leftarrow> initialize_pointer_field e env (i m3) it (g m3); ?func s1 ?f (j m3 m4) m4 })"
    for p n k m i g j
  proof (cases "allocate_field s p n k m")
    case (fields ok s1 m3)
    obtain m4 where "initialize_pointer_field e env (i m3) it (g m3) = Some m4" using init by blast
    with fields allocate_field_stream [OF fields] func show ?thesis by (cases ok) auto
  qed
  obtain m1 where rel: "(if ?l = PB_LTYPE_SUBMESSAGE \<and> load_ptr m (pData it) \<noteq> 0
                 then pb_release_single_field e env it m else Some m) = Some m1"
    by (metis release_field_returns [OF f assms(3)])
  show ?thesis
    unfolding decode_pointer_field_def Let_def rel bind.bind_lunit
    using alloc [where g = "\<lambda>m. m" and j = "\<lambda>_ m. load_ptr m (pData it)"]
      alloc [where g = "\<lambda>m. store_size 4 it (load_size it m + 1) m"]
    by (simp add: func packed_pointer_advances [OF fr refl assms(4) init, unfolded Let_def])
qed


section \<open>Any field, one round, the loop\<close>

lemma find_start: "start (snd (pb_field_iter_find it t)) = start it"
proof -
  have "start (snd (find_loop k s t it)) = start it" for k s
    by (induction k arbitrary: it) (simp_all add: Let_def)
  then show ?thesis unfolding pb_field_iter_find_def by blast
qed

lemma find_startE: "pb_field_iter_find it t = (b, it') \<Longrightarrow> start it' = start it"
  using find_start [of it t] by simp

lemma decodable_cur: "decodable (Suc d) (start it) \<Longrightarrow> dec_field (decodable d) (cur it)"
  unfolding cur_def by (rule dec_field_at)

lemma find_iter_ok: "iter_ok it \<Longrightarrow> pb_field_iter_find it t = (b, it') \<Longrightarrow> iter_ok it'"
proof -
  have "iter_ok it \<Longrightarrow> iter_ok (snd (find_loop k s t it))" for k s it
    by (induction k arbitrary: it) (simp_all add: Let_def iter_ok_next)
  then show "iter_ok it \<Longrightarrow> pb_field_iter_find it t = (b, it') \<Longrightarrow> iter_ok it'"
    by (metis pb_field_iter_find_def snd_conv)
qed

lemma find_extension_none:
  assumes "decodable (Suc d) (start it)" "iter_ok it"
  shows "\<exists>it'. find_extension_field it = Some (False, it') \<and> start it' = start it \<and> iter_ok it'"
proof -
  have "PB_LTYPE (ftype (cur it')) \<noteq> PB_LTYPE_EXTENSION" if "start it' = start it" for it'
    using decodable_cur [of d it'] assms(1) that by (simp add: dec_field_def Let_def del: decodable.simps)
  from find_extension_absent [OF assms(2) this] show ?thesis by blast
qed

lemma pb_release_union_field_returns:
  assumes "decodable (Suc d) (start it)" "d < e" "iter_ok it"
  shows "\<exists>ok s' it' m'. pb_release_union_field e env s it m = Some (ok, s', it', m') \<and> adv s s' \<and>
           start it' = start it \<and> iter_ok it'"
proof (cases "load_size it m = 0 \<or> load_size it m = tag (cur it)")
  case True
  with assms(3) show ?thesis by (auto simp: pb_release_union_field_def Let_def)
next
  case False
  obtain b1 it1 where 1: "pb_field_iter_find it (load_size it m) = (b1, it1)" by fastforce
  note st = find_startE [OF 1]
  with assms have "dec_field (decodable d) (cur it1)" by (simp add: decodable_cur del: decodable.simps)
  from release_field_returns [OF this assms(2)] obtain m1 where m1: "pb_release_single_field e env it1 m = Some m1"
    by blast
  obtain b2 it2 where 2: "pb_field_iter_find it1 (tag (cur it)) = (b2, it2)" by fastforce
  note ok = find_iter_ok [OF assms(3) 1]
  from False 1 m1 2 st find_startE [OF 2] ok find_iter_ok [OF ok 2] show ?thesis
    by (auto simp: pb_release_union_field_def Let_def split: bool.splits)
qed

lemma decode_field_returns:
  assumes fs: "decodable (Suc d) (start it)" and dec: "\<And>fs. decodable d fs \<Longrightarrow> msg_reader dec fs" and "d < e"
    and "iter_ok it"
  shows "\<exists>ok s' it' m'. decode_field dec e env s wt it m = Some (ok, s', it', m') \<and> adv s s' \<and>
           start it' = start it \<and> iter_ok it'"
proof -
  obtain ok s1 it1 m1 where u: "(if PB_HTYPE (ftype (cur it)) = PB_HTYPE_ONEOF
        then pb_release_union_field e env s it m else Some (True, s, it, m)) = Some (ok, s1, it1, m1)"
      "adv s s1" "start it1 = start it" "iter_ok it1"
    using pb_release_union_field_returns [OF fs assms(3,4)] assms(4) by (metis adv_refl)
  have f: "dec_field (decodable d) (cur it1)" using fs u(3) by (simp add: decodable_cur del: decodable.simps)
  have le: "d \<le> e" using assms(3) by simp
  let ?a = "PB_ATYPE (ftype (cur it1))"
  have "?a = PB_ATYPE_POINTER \<Longrightarrow> 0 < data_size (cur it1)"
    "?a = PB_ATYPE_STATIC \<or> ?a = PB_ATYPE_POINTER" using f by (auto simp: dec_field_def Let_def)
  then have "advances s1
     (if ?a = PB_ATYPE_STATIC then decode_static_field dec e env s1 wt it1 m1
      else if ?a = PB_ATYPE_POINTER then decode_pointer_field dec e env s1 wt it1 m1
      else if ?a = PB_ATYPE_CALLBACK then decode_callback_field env s1 wt it1 m1
      else Some (False, pb_istream_error ''invalid field type'' s1, m1))" (is "advances _ ?r")
    using decode_static_field_returns [OF f dec le] decode_pointer_field_returns [OF f dec assms(3)] by auto
  then obtain ok2 s2 m2 where "?r = Some (ok2, s2, m2)" "adv s1 s2" by (auto simp: advances_def)
  with u show ?thesis by (cases ok) (auto simp: decode_field_def Let_def intro: adv_trans)
qed

text \<open>The state the loop keeps: a valid iterator over the message's fields, and a stream behind the first one.\<close>

definition iter_over :: "pb_field list \<Rightarrow> pb_field_iter \<Rightarrow> bool" where
  "iter_over fs it \<longleftrightarrow> iter_ok it \<and> start it = fs"

definition exits :: "pb_field list \<Rightarrow> pb_istream \<Rightarrow> decode_exit option \<Rightarrow> bool" where
  "exits fs s r \<longleftrightarrow>
     (\<exists>st. (r = Some (Continue st) \<or> r = Some (Break st)) \<and> adv s (l_stream st) \<and> iter_over fs (l_iter st)) \<or>
     (\<exists>s' m'. r = Some (Fail s' m') \<and> adv s s')"

lemma exits_simps [simp]:
  "exits fs s (Some (Continue st)) \<longleftrightarrow> adv s (l_stream st) \<and> iter_over fs (l_iter st)"
  "exits fs s (Some (Break st)) \<longleftrightarrow> adv s (l_stream st) \<and> iter_over fs (l_iter st)"
  "exits fs s (Some (Fail s' m')) \<longleftrightarrow> adv s s'"
  by (auto simp: exits_def)

lemma skip_unknown_exits:
  "iter_over fs (l_iter st) \<Longrightarrow> exits fs (l_stream st) (Some (skip_unknown wt st))"
  by (auto simp: skip_unknown_def dest: pb_skip_field_adv split: prod.splits bool.splits)

lemma pb_decode_tag_small: "pb_decode_tag s = (Some (wt, t), eof, s') \<Longrightarrow> t < PB_SIZE_MAX"
proof -
  assume "pb_decode_tag s = (Some (wt, t), eof, s')"
  then obtain w :: u32 where "t = unat (drop_bit 3 w)"
    by (auto simp: pb_decode_tag_def split: prod.splits option.splits if_splits)
  moreover have "unat (drop_bit 3 w) < PB_SIZE_MAX"
    using unsigned_less [of w, where 'a = nat]
    by (simp add: unat_drop_bit_eq drop_bit_eq_div [of 3 "unat w"] layout_defs)
  ultimately show ?thesis by simp
qed

lemma decode_unknown_exits:
  assumes "decodable (Suc d) fs" "iter_over fs (l_iter st)" "t < PB_SIZE_MAX"
  shows "exits fs (l_stream st) (decode_unknown dec e env t wt st)"
proof -
  from find_extension_none [of d "l_iter st"] assms(1,2) [unfolded iter_over_def] obtain it1 where
    "find_extension_field (l_iter st) = Some (False, it1)" "iter_over fs it1"
    unfolding iter_over_def by blast
  with assms(2,3) skip_unknown_exits [of fs "st\<lparr>l_iter := it1, extension_range_start := PB_SIZE_MAX\<rparr>" wt]
    skip_unknown_exits [of fs st wt]
  show ?thesis by (simp add: decode_unknown_def Let_def)
qed

lemma decode_known_exits:
  assumes fs: "decodable (Suc d) fs" "iter_over fs (l_iter st)"
    and dec: "\<And>fs. decodable d fs \<Longrightarrow> msg_reader dec fs" and "d < e"
  shows "exits fs (l_stream st) (decode_known dec e env fs wt st)"
proof (cases "select_fixed_count fs st")
  case None
  then show ?thesis by (simp add: decode_known_def)
next
  case (Some st0)
  let ?st = "mark_seen st0"
  have st: "l_stream ?st = l_stream st" "iter_over fs (l_iter ?st)"
    using Some fs(2)
    by (auto simp: select_fixed_count_def mark_seen_def Let_def iter_over_def iter_ok_def cur_def split: if_splits)
  with fs have "decodable (Suc d) (start (l_iter ?st))" "iter_ok (l_iter ?st)" by (simp_all add: iter_over_def)
  from decode_field_returns [OF this(1) dec assms(4) this(2)] obtain ok s' it' m' where
    "decode_field dec e env (l_stream ?st) wt (l_iter ?st) (l_mem ?st) = Some (ok, s', it', m')"
    "adv (l_stream ?st) s'" "start it' = start (l_iter ?st)" "iter_ok it'" by blast
  with Some st show ?thesis by (simp add: decode_known_def Let_def iter_over_def)
qed

lemma decode_round_exits:
  assumes fs: "decodable (Suc d) fs" "iter_over fs (l_iter st)"
    and dec: "\<And>fs. decodable d fs \<Longrightarrow> msg_reader dec fs" and "d < e"
  shows "exits fs (l_stream st) (decode_round dec e env fs st) \<and>
     (\<forall>st'. decode_round dec e env fs st = Some (Continue st') \<longrightarrow> bytes_left (l_stream st') < bytes_left (l_stream st))"
proof (cases "pb_decode_tag (l_stream st)")
  case tg: (fields r eof s)
  note c = pb_decode_tag_consumes [OF tg]
  show ?thesis
  proof (cases r)
    case None
    with tg c fs(2) show ?thesis by (auto simp: decode_round_def consumes_def)
  next
    case (Some wtt)
    obtain wt t where w: "wtt = (wt, t)" by fastforce
    obtain b it where i: "pb_field_iter_find (l_iter st) t = (b, it)" by fastforce
    let ?st = "st\<lparr>l_stream := s, l_iter := it\<rparr>"
    have st: "iter_over fs (l_iter ?st)"
      using find_startE [OF i] find_iter_ok [OF _ i] fs(2) by (simp add: iter_over_def)
    let ?r = "if b then decode_known dec e env fs wt ?st else decode_unknown dec e env t wt ?st"
    have r: "decode_round dec e env fs st = ?r" using tg Some w i by (simp add: decode_round_def split: bool.splits)
    have "exits fs (l_stream ?st) ?r"
      using decode_known_exits [OF fs(1) st dec assms(4)] decode_unknown_exits [OF fs(1) st]
        pb_decode_tag_small [OF tg [unfolded Some w]] by simp
    moreover have "adv (l_stream st) s" "bytes_left s < bytes_left (l_stream st)"
      using c Some by (auto simp: consumes_def)
    ultimately show ?thesis unfolding r exits_def
      by (auto intro: adv_trans dest: adv_left)
  qed
qed

lemma decode_loop_exits:
  assumes body: "\<And>st. iter_over fs (l_iter st) \<Longrightarrow> exits fs (l_stream st) (body st) \<and>
     (\<forall>st'. body st = Some (Continue st') \<longrightarrow> bytes_left (l_stream st') < bytes_left (l_stream st))"
    and "iter_over fs (l_iter st)"
  shows "exits fs (l_stream st) (decode_loop body st)"
  using assms(2)
proof (induction "bytes_left (l_stream st)" arbitrary: st rule: less_induct)
  case less
  note b = body [OF less.prems]
  show ?case
  proof (cases "bytes_left (l_stream st) = 0 \<or> (\<forall>st'. body st \<noteq> Some (Continue st'))")
    case True
    with b less.prems show ?thesis by (subst decode_loop.simps) (auto simp: exits_def)
  next
    case False
    then obtain st' where st': "body st = Some (Continue st')" by blast
    with b have "bytes_left (l_stream st') < bytes_left (l_stream st)" "iter_over fs (l_iter st')"
      "adv (l_stream st) (l_stream st')" by simp_all
    with less.hyps [OF this(1,2)] have "exits fs (l_stream st) (decode_loop body st')"
      by (auto simp: exits_def intro: adv_trans)
    with False st' show ?thesis by (subst decode_loop.simps) simp
  qed
qed

lemma decode_finish_stream: "decode_finish fs st = (ok, s', m') \<Longrightarrow> adv s (l_stream st) \<Longrightarrow> adv s s'"
  by (auto simp: decode_finish_def split: if_splits)

lemma pb_decode_noinit_reader: "decodable d fs \<Longrightarrow> d < e \<Longrightarrow> msg_reader (pb_decode_noinit e env) fs"
proof (induction d arbitrary: fs e)
  case (Suc d)
  then obtain e' where e: "e = Suc e'" "d < e'" by (cases e) auto
  show ?case unfolding msg_reader_def
  proof (intro allI)
    fix s dest m
    let ?st = "\<lparr>l_stream = s, l_iter = snd (pb_field_iter_begin fs dest), l_mem = m\<lparr>local_count := 0\<rparr>,
                fields_seen = [0, 0], extension_range_start = 0, fixed_count_field = None\<rparr>"
    let ?r = "decode_loop (decode_round (pb_decode_noinit e' env) e' env fs) ?st"
    have "exits fs (l_stream ?st) ?r"
      by (rule decode_loop_exits, rule decode_round_exits [OF Suc.prems(1)])
         (simp_all add: Suc.IH e(2) iter_over_def iter_ok_begin)
    then show "\<exists>ok s' m'. pb_decode_noinit e env s fs dest m = Some (ok, s', m') \<and> adv s s'"
      using decode_finish_stream
      by (auto simp: e(1) exits_def Let_def split: prod.splits)
  qed
qed simp


section \<open>Properties\<close>

lemma pb_decode_advances:
  assumes "decodable d fs" "d < depth"
  shows "advances s (pb_decode depth env s fs dest m)"
  unfolding pb_decode_def advances_def
  using assms by (intro decode_with_defaults_returns [of _ _ d] pb_decode_noinit_reader) auto

text \<open>
  C10. \<^verbatim>\<open>pb_decode\<close> returns: on every stream, whatever bytes it delivers, every destination and every memory, for
  every descriptor without callbacks and extensions whose nesting is below the depth bound. The stream
  it leaves has no more bytes left than before.
\<close>

theorem pb_decode_returns:
  assumes "decodable d fs" "d < depth"
  shows "\<exists>ok s' m'. pb_decode depth env s fs dest m = Some (ok, s', m') \<and> bytes_left s' \<le> bytes_left s"
  using pb_decode_advances [OF assms, of s env dest m] by (auto simp: advances_def dest: adv_left)

definition bool_message :: "pb_field list" where
  "bool_message = [Pb_field 1 (PB_ATYPE_STATIC OR PB_HTYPE_REPEATED OR PB_LTYPE_BOOL) 4 (-4) 1 3 Null_ptr]"

definition no_env :: pb_env where
  "no_env = \<lparr>env_decode = (\<lambda>_ s _ _ m. (False, s, m)), env_encode = (\<lambda>_ s _ _ m. (False, s)),
     env_extension = (\<lambda>_. \<lparr>ext_decode = None, ext_encode = None, ext_arg = PB_LAST_FIELD\<rparr>)\<rparr>"

lemma decodable_bool_message: "decodable 1 bool_message"
  by (simp add: bool_message_def dec_field_def layout_defs)

theorem pb_decode_returns_witness:
  "\<exists>ok s' m'. pb_decode 2 no_env (pb_istream_from_buffer [10, 2, 1, 0] 4) bool_message 64 empty_mem =
     Some (ok, s', m') \<and> bytes_left s' \<le> bytes_left (pb_istream_from_buffer [10, 2, 1, 0] 4)"
  by (rule pb_decode_returns [OF decodable_bool_message]) simp

text \<open>
  C18. \<^verbatim>\<open>pb_decode\<close> keeps within its input: on a buffer of at least \<open>n\<close> bytes and a stream limited to \<open>n\<close>, what
  is left of the buffer afterwards is at least what \<^verbatim>\<open>bytes_left\<close> still allows, so no byte behind the
  first \<open>n\<close> is ever taken, for valid and for malformed input alike.
\<close>

theorem pb_decode_in_bounds:
  assumes "decodable d fs" "d < depth" "n \<le> length buf"
  shows "\<exists>ok s' m' rest. pb_decode depth env (pb_istream_from_buffer buf n) fs dest m = Some (ok, s', m') \<and>
           source s' = Buffer rest \<and> bytes_left s' \<le> length rest \<and>
           length buf - n \<le> length rest - bytes_left s'"
  using pb_decode_advances [OF assms(1,2), of "pb_istream_from_buffer buf n" env dest m] assms(3)
  by (auto simp: advances_def adv_def pb_istream_from_buffer_def)

theorem pb_decode_in_bounds_witness:
  "\<exists>ok s' m' rest. pb_decode 2 no_env (pb_istream_from_buffer [10, 9, 1, 0, 77] 4) bool_message 64 empty_mem =
     Some (ok, s', m') \<and> source s' = Buffer rest \<and> bytes_left s' \<le> length rest \<and>
     length [10, 9, 1, 0, 77 :: byte] - 4 \<le> length rest - bytes_left s'"
  by (rule pb_decode_in_bounds [OF decodable_bool_message]) simp_all

end
