(* ===== verification/PB_Static_Layout.thy ===== *)
theory PB_Static_Layout
  imports PB_Decode
begin

text \<open>
  Which bytes of a message struct the fields of a descriptor array occupy when all of them are static
  members: the condition \<open>contained d n fs\<close> on the descriptors, which can be evaluated, and what it means
  for every iterator the decoder works with (\<open>cell\<close>).
\<close>

section \<open>Static layouts\<close>

text \<open>
  The offsets of the data and of the count or presence member of the \<open>i\<close>-th field in the message struct,
  and the layout condition: all members lie in the first \<open>n\<close> bytes.
\<close>

primrec field_off :: "pb_field list \<Rightarrow> nat \<Rightarrow> nat \<times> int" where
  "field_off fs 0 =
     (let f = field_at fs 0 in (data_offset f, int (data_offset f) + size_offset f))"
| "field_off fs (Suc i) =
     (let prev = field_at fs i; f = field_at fs (Suc i) in
      if PB_HTYPE (ftype prev) = PB_HTYPE_ONEOF \<and> PB_HTYPE (ftype f) = PB_HTYPE_ONEOF \<and> data_offset f = PB_SIZE_MAX
      then field_off fs i
      else let d = fst (field_off fs i) + prev_field_size prev + data_offset f in (d, int d + size_offset f))"

definition value_size :: "pb_field \<Rightarrow> nat" where
  "value_size f =
     (let l = PB_LTYPE (ftype f) in
      if l = PB_LTYPE_BOOL then 1 else if l = PB_LTYPE_FIXED32 then 4 else if l = PB_LTYPE_FIXED64 then 8
      else data_size f)"

definition static_type :: "(nat \<Rightarrow> pb_field list \<Rightarrow> bool) \<Rightarrow> pb_field \<Rightarrow> bool" where
  "static_type sub f \<longleftrightarrow>
     (let l = PB_LTYPE (ftype f) in
      PB_ATYPE (ftype f) = PB_ATYPE_STATIC \<and> l \<noteq> PB_LTYPE_EXTENSION \<and>
      (case fptr f of Submsg_fields fs \<Rightarrow> l = PB_LTYPE_SUBMESSAGE \<and> sub (data_size f) fs
       | _ \<Rightarrow> l \<noteq> PB_LTYPE_SUBMESSAGE))"

definition data_extent :: "pb_field \<Rightarrow> nat" where
  "data_extent f =
     (if PB_HTYPE (ftype f) = PB_HTYPE_REPEATED then data_size f * array_size f
      else max (data_size f) (value_size f))"

definition slot_extent :: "pb_field \<Rightarrow> nat" where
  "slot_extent f = (if PB_HTYPE (ftype f) = PB_HTYPE_OPTIONAL then 1 else 4)"

definition static_field :: "(nat \<Rightarrow> pb_field list \<Rightarrow> bool) \<Rightarrow> nat \<Rightarrow> pb_field \<Rightarrow> nat \<times> int \<Rightarrow> bool" where
  "static_field sub n f off \<longleftrightarrow>
     static_type sub f \<and> fst off + data_extent f \<le> n \<and>
     (PB_HTYPE (ftype f) = PB_HTYPE_REPEATED \<longrightarrow> value_size f \<le> data_size f) \<and>
     (PB_HTYPE (ftype f) \<noteq> PB_HTYPE_REQUIRED \<longrightarrow> 0 \<le> snd off \<and> nat (snd off) + slot_extent f \<le> n)"

primrec contained :: "nat \<Rightarrow> nat \<Rightarrow> pb_field list \<Rightarrow> bool" where
  "contained 0 n fs = False"
| "contained (Suc d) n fs =
     list_all (\<lambda>i. static_field (contained d) n (field_at fs i) (field_off fs i)) [0..<max 1 (nfields fs)]"

text \<open>The same for an iterator and a region of memory.\<close>

definition cell :: "(nat \<Rightarrow> pb_field list \<Rightarrow> bool) \<Rightarrow> addr \<Rightarrow> nat \<Rightarrow> pb_field_iter \<Rightarrow> bool" where
  "cell sub a n it \<longleftrightarrow>
     (let f = cur it; h = PB_HTYPE (ftype f) in
      static_type sub f \<and> a \<le> pData it \<and> pData it + data_extent f \<le> a + n \<and>
      (h = PB_HTYPE_REPEATED \<longrightarrow> value_size f \<le> data_size f) \<and>
      (h \<noteq> PB_HTYPE_REQUIRED \<longrightarrow>
        (case pSize it of Size_at z \<Rightarrow> a \<le> z \<and> z + slot_extent f \<le> a + n | Size_local \<Rightarrow> True)))"

lemma iter_at_off:
  assumes "i < max 1 (nfields fs)"
  shows "pData (iter_at fs dest i) = dest + fst (field_off fs i) \<and>
     pSize (iter_at fs dest i) = Size_at (nat (int dest + snd (field_off fs i)))"
  using assms
proof (induction i)
  case 0
  then show ?case by (simp add: pb_field_iter_begin_def Let_def ptr_add_def algebra_simps)
next
  case (Suc i)
  let ?it = "iter_at fs dest i"
  from Suc.prems have i: "i < nfields fs" "Suc i < nfields fs" by simp_all
  then have c: "cur ?it = field_at fs i" "pos ?it = i" "tag (field_at fs i) \<noteq> 0" "tag (field_at fs (Suc i)) \<noteq> 0"
    using tag_before_nfields [of i fs] tag_before_nfields [of "Suc i" fs] by (simp_all add: cur_iter_at pos_iter_at)
  have c2: "cur (?it\<lparr>pos := Suc i\<rparr>) = field_at fs (Suc i)" by (simp add: cur_def)
  from Suc.IH i have "pData ?it = dest + fst (field_off fs i) \<and>
     pSize ?it = Size_at (nat (int dest + snd (field_off fs i)))" by simp
  with c c2 show ?case
    by (simp add: pb_field_iter_next_def Let_def ptr_add_def algebra_simps)
qed

lemma contained_cell:
  assumes "contained (Suc d) n (start it)" "iter_ok it"
  shows "cell (contained d) (dest_struct it) n it"
proof -
  have p: "pos it < max 1 (nfields (start it))" using assms(2) by (auto simp: iter_ok_def Let_def)
  note off = iter_at_off [OF p, of "dest_struct it"]
  have sf: "static_field (contained d) n (cur it) (field_off (start it) (pos it))"
    using assms(1) p by (simp add: list_all_iff cur_def)
  show ?thesis
    using off sf assms(2) by (auto simp: cell_def static_field_def iter_ok_def Let_def nat_add_distrib split: size_ptr.splits)
qed

lemma iter_ok_iter_at: "iter_ok (iter_at fs dest i)"
proof (induction i)
  case 0
  show ?case by (simp add: iter_ok_begin)
next
  case (Suc i)
  then show ?case by (simp add: iter_ok_next)
qed

lemma walk_cell:
  "contained (Suc d) n fs \<Longrightarrow> it \<in> set (pb_fields_walk fs dest) \<Longrightarrow> cell (contained d) dest n it"
  using contained_cell [of d n "iter_at fs dest _"] iter_ok_iter_at
  by (auto simp: pb_fields_walk_eq simp del: contained.simps)

end
