(* ===== verification/PB_Decode_Frame.thy ===== *)
theory PB_Decode_Frame
  imports PB_Decode_Safety PB_Static_Layout
begin

text \<open>
  Memory safety of the decoder on messages without pointer fields: whatever the input, \<^verbatim>\<open>pb_decode\<close> writes
  only the bytes of the message struct. The lemmas follow the calls from the default values and the
  value decoders up to the main loop.
\<close>

section \<open>Defaults and release\<close>

lemma each_field_frame:
  assumes "each_field g its m = Some m'"
    and "\<And>it m m'. it \<in> set its \<Longrightarrow> g it m = Some m' \<Longrightarrow> same_outside m m' a n"
  shows "same_outside m m' a n"
  using assms
proof (induction its arbitrary: m)
  case (Cons it its)
  from Cons.prems(1) obtain m1 where "g it m = Some m1" "each_field g its m1 = Some m'"
    by (auto simp: bind_eq_Some_conv)
  with Cons show ?case by (meson list.set_intros same_outside_trans)
qed simp

lemma same_outside_store_size:
  assumes "cell sub a n it" "PB_HTYPE (ftype (cur it)) \<noteq> PB_HTYPE_REQUIRED" "k \<le> slot_extent (cur it)"
  shows "same_outside m (store_size k it v m) a n"
  using assms by (auto simp: cell_def Let_def store_size_def same_outside_def mem_simps store_def split: size_ptr.splits)

lemma cell_data:
  assumes "cell sub a n it" "PB_HTYPE (ftype (cur it)) \<noteq> PB_HTYPE_REPEATED" "k \<le> data_extent (cur it)"
  shows "same_outside m m' (pData it) k \<Longrightarrow> same_outside m m' a n"
  using assms by (auto simp: cell_def Let_def intro: same_outside_mono)

lemma cell_submsg:
  assumes "cell sub a n it" "PB_LTYPE (ftype (cur it)) = PB_LTYPE_SUBMESSAGE"
  obtains fs where "fptr (cur it) = Submsg_fields fs" "sub (data_size (cur it)) fs"
  using assms by (auto simp: cell_def static_type_def Let_def split: pb_field_ptr.splits)

lemma cell_static: "cell sub a n it \<Longrightarrow> PB_ATYPE (ftype (cur it)) = PB_ATYPE_STATIC \<and>
    PB_LTYPE (ftype (cur it)) \<noteq> PB_LTYPE_EXTENSION"
  by (simp add: cell_def static_type_def Let_def)

lemma set_to_default_frame:
  assumes "cell (contained d) a n it" "pb_field_set_to_default e env it m = Some m'"
  shows "same_outside m m' a n"
  using assms
proof (induction e arbitrary: d a n it m m')
  case (Suc e)
  let ?f = "cur it" and ?h = "PB_HTYPE (ftype (cur it))" and ?l = "PB_LTYPE (ftype (cur it))"
  let ?m1 = "if ?h = PB_HTYPE_OPTIONAL \<and> pSize it \<noteq> Size_at (pData it) then store_size 1 it 0 m
             else if ?h = PB_HTYPE_REPEATED \<or> ?h = PB_HTYPE_ONEOF then store_size 4 it 0 m else m"
  note st = cell_static [OF Suc.prems(1)]
  have m1: "same_outside m ?m1 a n"
    using same_outside_store_size [OF Suc.prems(1)] by (auto simp: slot_extent_def layout_defs)
  show ?case
  proof (cases "?h = PB_HTYPE_REPEATED \<or> ?h = PB_HTYPE_ONEOF")
    case True
    with Suc.prems(2) st m1 show ?thesis by (auto simp: Let_def)
  next
    case False
    have data: "same_outside ?m1 m' (pData it) (data_size ?f) \<Longrightarrow> ?thesis"
      using m1 cell_data [OF Suc.prems(1), of "data_size ?f" ?m1 m'] False
      by (auto simp: data_extent_def intro: same_outside_trans)
    show ?thesis
    proof (cases "?l = PB_LTYPE_SUBMESSAGE")
      case True
      from cell_submsg [OF Suc.prems(1) this] obtain fs where fs: "fptr ?f = Submsg_fields fs" "contained d (data_size ?f) fs" .
      then obtain d' where d: "d = Suc d'" by (cases d) auto
      have "each_field (pb_field_set_to_default e env) (pb_fields_walk fs (pData it)) ?m1 = Some m'"
        using Suc.prems(2) st False True fs by (auto simp: Let_def split: if_splits)
      then have "same_outside ?m1 m' (pData it) (data_size ?f)"
        by (rule each_field_frame) (blast intro: Suc.IH walk_cell [OF fs(2) [unfolded d]])
      then show ?thesis by (rule data)
    next
      case no: False
      have "same_outside ?m1 m' (pData it) (data_size ?f)"
        using Suc.prems(2) st False no
        by (auto simp: Let_def intro!: same_outside_store_bytes same_outside_memset split: pb_field_ptr.splits)
      then show ?thesis by (rule data)
    qed
  qed
qed simp

lemma set_to_defaults_frame:
  assumes "contained d n fs" "pb_message_set_to_defaults e env fs dest m = Some m'"
  shows "same_outside m m' dest n"
proof -
  obtain d' where d: "d = Suc d'" using assms by (cases d) auto
  show ?thesis
    using assms(2) unfolding pb_message_set_to_defaults_def
    by (rule each_field_frame) (blast intro: set_to_default_frame walk_cell [OF assms(1) [unfolded d]])
qed

text \<open>Releasing a message without pointers changes nothing.\<close>

lemma each_field_same:
  assumes "each_field g its m = Some m'" "\<And>it m m'. it \<in> set its \<Longrightarrow> g it m = Some m' \<Longrightarrow> m' = m"
  shows "m' = m"
  using assms
proof (induction its arbitrary: m)
  case (Cons it its)
  from Cons.prems(1) obtain m1 where "g it m = Some m1" "each_field g its m1 = Some m'"
    by (auto simp: bind_eq_Some_conv)
  with Cons show ?case by (metis list.set_intros)
qed simp

lemma release_items_same:
  assumes "release_items g step k p m = Some m'" "\<And>p m m'. g p m = Some m' \<Longrightarrow> m' = m"
  shows "m' = m"
  using assms
proof (induction k arbitrary: p m)
  case (Suc k)
  from Suc.prems(1) obtain m1 where "g p m = Some m1" "release_items g step k (p + step) m1 = Some m'"
    by (auto simp: bind_eq_Some_conv)
  with Suc show ?case by metis
qed simp

lemma release_field_same:
  assumes "cell (contained d) a n it" "pb_release_single_field e env it m = Some m'"
  shows "m' = m"
  using assms
proof (induction e arbitrary: d a n it m m')
  case (Suc e)
  note st = cell_static [OF Suc.prems(1)]
  have sub: "m2 = m1" if "PB_LTYPE (ftype (cur it)) = PB_LTYPE_SUBMESSAGE"
      "(if p = 0 then Some m1 else case fptr (cur it) of
          Submsg_fields fs \<Rightarrow> each_field (pb_release_single_field e env) (pb_fields_walk fs p) m1
        | _ \<Rightarrow> None) = Some m2" for p m1 m2
  proof -
    from cell_submsg [OF Suc.prems(1) that(1)] obtain fs where fs: "fptr (cur it) = Submsg_fields fs"
      "contained d (data_size (cur it)) fs" .
    then obtain d' where d: "d = Suc d'" by (cases d) auto
    show ?thesis
    proof (cases "p = 0")
      case False
      with that fs have "each_field (pb_release_single_field e env) (pb_fields_walk fs p) m1 = Some m2" by simp
      then show ?thesis by (rule each_field_same) (blast intro: Suc.IH walk_cell [OF fs(2) [unfolded d]])
    qed (use that in simp)
  qed
  have "PB_ATYPE_STATIC \<noteq> PB_ATYPE_POINTER" by (simp add: layout_defs)
  with Suc.prems(2) st show ?case
    by (auto simp: Let_def bind_eq_Some_conv dest!: release_items_same [OF _ sub] split: if_splits)
qed simp

lemma release_same: "contained d n fs \<Longrightarrow> pb_release e env fs dest m = Some m' \<Longrightarrow> m' = m"
proof -
  assume c: "contained d n fs" and r: "pb_release e env fs dest m = Some m'"
  obtain d' where d: "d = Suc d'" using c by (cases d) auto
  show ?thesis
  proof (cases "dest = 0")
    case False
    with r have "each_field (pb_release_single_field e env) (pb_fields_walk fs dest) m = Some m'"
      by (simp add: pb_release_def)
    then show ?thesis
      by (rule each_field_same) (blast intro: release_field_same walk_cell [OF c [unfolded d]])
  qed (use r in \<open>simp add: pb_release_def\<close>)
qed

section \<open>Values\<close>

lemma pb_read_length: "pb_read s n = (ok, bs, s') \<Longrightarrow> length bs \<le> n"
proof -
  have "istream_callback src n = (ok, bs, src') \<Longrightarrow> length bs = n" for src ok bs src'
    by (cases src) (auto simp: buf_read_def split: prod.splits)
  then show "pb_read s n = (ok, bs, s') \<Longrightarrow> length bs \<le> n"
    by (auto simp: pb_read_def split: if_splits prod.splits)
qed

lemma pb_read_to_frame:
  "pb_read_to s b k m = (ok, s', m') \<Longrightarrow> a \<le> b \<Longrightarrow> b + k \<le> a + n \<Longrightarrow> same_outside m m' a n"
  by (auto simp: pb_read_to_def dest!: pb_read_length intro!: same_outside_store_bytes split: prod.splits)

lemma leaf_frames:
  "pb_dec_bool s f p m = (ok, s', m') \<Longrightarrow> same_outside m m' p 1"
  "pb_dec_varint s f p m = (ok, s', m') \<Longrightarrow> same_outside m m' p (data_size f)"
  "pb_dec_uvarint s f p m = (ok, s', m') \<Longrightarrow> same_outside m m' p (data_size f)"
  "pb_dec_svarint s f p m = (ok, s', m') \<Longrightarrow> same_outside m m' p (data_size f)"
  "pb_dec_fixed32 s f p m = (ok, s', m') \<Longrightarrow> same_outside m m' p 4"
  "pb_dec_fixed64 s f p m = (ok, s', m') \<Longrightarrow> same_outside m m' p 8"
  by (auto simp: pb_dec_bool_def pb_dec_varint_def pb_dec_uvarint_def pb_dec_svarint_def pb_dec_fixed32_def
      pb_dec_fixed64_def Let_def store_signed_def intro!: same_outside_store split: prod.splits option.splits if_splits)

lemma pb_dec_fixed_length_bytes_frame:
  "pb_dec_fixed_length_bytes s f p m = (ok, s', m') \<Longrightarrow> same_outside m m' p (data_size f)"
  by (auto simp: pb_dec_fixed_length_bytes_def Let_def dest: pb_read_to_frame intro!: same_outside_memset
      split: prod.splits option.splits if_splits)

lemma pb_dec_bytes_frame:
  assumes "PB_ATYPE (ftype f) = PB_ATYPE_STATIC" "pb_dec_bytes s f p m = (ok, s', m')"
  shows "same_outside m m' p (data_size f)"
proof -
  have "PB_ATYPE_STATIC \<noteq> PB_ATYPE_POINTER" by (simp add: layout_defs)
  moreover have "same_outside m m' p (data_size f)"
    if "pb_read_to s1 (p + 4) (unat (sz :: u32)) (store 4 m p v) = (ok, s', m')"
       "\<not> data_size f < PB_BYTES_ARRAY_T_ALLOCSIZE (unat sz)" for s1 sz v
  proof -
    have "unat sz < 2 ^ 32" using unsigned_less [of sz] by simp
    with that have "p + 4 + unat sz \<le> p + data_size f" by (simp add: PB_BYTES_ARRAY_T_ALLOCSIZE_def)
    with that(1) have "same_outside (store 4 m p v) m' p (data_size f)" by (auto intro: pb_read_to_frame)
    moreover have "same_outside m (store 4 m p v) p (data_size f)"
      using \<open>p + 4 + unat sz \<le> p + data_size f\<close> by (auto intro: same_outside_store)
    ultimately show ?thesis by (rule same_outside_trans [rotated])
  qed
  ultimately show ?thesis using assms
    by (auto simp: pb_dec_bytes_def Let_def split: prod.splits option.splits if_splits)
qed

lemma string_room:
  assumes "n < UINT32_MOD" "\<not> (n + 1) mod UINT32_MOD < n" "\<not> k < (n + 1) mod UINT32_MOD" "0 < n"
  shows "n + 1 \<le> k"
proof -
  have "n + 1 \<noteq> UINT32_MOD"
  proof
    assume "n + 1 = UINT32_MOD"
    then have "(n + 1) mod UINT32_MOD = 0" by (simp only: mod_self)
    with assms(2,4) show False by simp
  qed
  with assms(1) have "(n + 1) mod UINT32_MOD = n + 1" by (intro mod_less) simp
  with assms(3) show ?thesis by simp
qed

lemma pb_dec_string_frame:
  assumes "PB_ATYPE (ftype f) = PB_ATYPE_STATIC" "pb_dec_string s f p m = (ok, s', m')"
  shows "same_outside m m' p (data_size f)"
proof (cases "pb_decode_varint32 s")
  case v: (Pair v s1)
  show ?thesis
  proof (cases v)
    case None
    with assms v show ?thesis by (simp add: pb_dec_string_def)
  next
    case (Some sz)
    let ?n = "unat sz"
    obtain ok1 s2 m1 where r: "pb_read_to s1 p ?n m = (ok1, s2, m1)" by (rule prod_cases3)
    have st: "\<not> PB_ATYPE (ftype f) = PB_ATYPE_POINTER" using assms(1) by (simp add: layout_defs)
    show ?thesis
    proof (cases "(?n + 1) mod UINT32_MOD < ?n \<or> data_size f < (?n + 1) mod UINT32_MOD")
      case True
      with assms(2) v Some st have "m' = m"
        by (auto simp only: pb_dec_string_def Let_def prod.case option.case if_False prod.inject split: if_splits)
      then show ?thesis by simp
    next
      case False
      have "?n + 1 \<le> data_size f"
        using False string_room [of ?n "data_size f"] unsigned_less [of sz, where 'a = nat]
        by (cases "?n = 0") (auto simp del: Suc_eq_plus1)
      moreover have "m' = store 1 m1 (p + ?n) 0"
        using assms(2) v Some st False r
        by (simp only: pb_dec_string_def Let_def prod.case option.case if_False de_Morgan_disj simp_thms prod.inject)
      ultimately show ?thesis using pb_read_to_frame [OF r, of p "data_size f"]
        by (auto intro: same_outside_trans [OF _ same_outside_store])
    qed
  qed
qed

section \<open>Submessages and the table\<close>

text \<open>What the recursive call keeps, and what a decoder that runs on it keeps.\<close>

definition msg_frame :: "msg_decoder \<Rightarrow> nat \<Rightarrow> pb_field list \<Rightarrow> bool" where
  "msg_frame dec n fs \<longleftrightarrow>
     (\<forall>s dest m ok s' m'. dec s fs dest m = Some (ok, s', m') \<longrightarrow> same_outside m m' dest n)"

lemma msg_frameD: "msg_frame dec n fs \<Longrightarrow> dec s fs dest m = Some (ok, s', m') \<Longrightarrow> same_outside m m' dest n"
  unfolding msg_frame_def by blast

lemma decode_with_defaults_frame:
  assumes "msg_frame dec n fs" "contained d n fs" "decode_with_defaults dec e env s fs dest m = Some (ok, s', m')"
  shows "same_outside m m' dest n"
proof -
  from assms(3) obtain m1 st m2 where
    1: "pb_message_set_to_defaults e env fs dest m = Some m1" and 2: "dec s fs dest m1 = Some (st, s', m2)"
    and 3: "m' = m2 \<or> pb_release e env fs dest m2 = Some m'"
    by (auto simp: decode_with_defaults_def bind_eq_Some_conv split: if_splits)
  have "m' = m2" using 3 release_same [OF assms(2)] by blast
  with set_to_defaults_frame [OF assms(2) 1] msg_frameD [OF assms(1) 2] show ?thesis by (auto intro: same_outside_trans)
qed

lemma pb_dec_submessage_frame:
  assumes "fptr f = Submsg_fields fs" "msg_frame dec n fs" "contained d n fs"
    and "pb_dec_submessage dec e env s f p m = Some (ok, s', m')"
  shows "same_outside m m' p n"
proof (cases "pb_make_string_substream s")
  case (Pair r s1)
  show ?thesis
  proof (cases r)
    case None
    with assms Pair show ?thesis by (simp add: pb_dec_submessage_def)
  next
    case (Some sub)
    let ?call = "if PB_HTYPE (ftype f) = PB_HTYPE_REPEATED then decode_with_defaults dec e env sub fs p m
                 else dec sub fs p m"
    from Some assms(1,4) Pair obtain st sub' m1 where call: "?call = Some (st, sub', m1)"
      by (cases ?call) (auto simp: pb_dec_submessage_def)
    moreover obtain c s2 where "pb_close_string_substream s1 sub' = (c, s2)" by fastforce
    ultimately have "m1 = m'" using Some assms(1,4) Pair by (cases c) (auto simp: pb_dec_submessage_def)
    with call have "?call = Some (st, sub', m')" by simp
    then show ?thesis
      using decode_with_defaults_frame [OF assms(2,3)] msg_frameD [OF assms(2)] by (auto split: if_splits)
  qed
qed

lemma PB_DECODERS_frame:
  assumes st: "static_type (contained d) f" and dec: "\<And>n fs. contained d n fs \<Longrightarrow> msg_frame dec n fs"
    and r: "PB_DECODERS dec e env (PB_LTYPE (ftype f)) s f p m = Some (ok, s', m')"
  shows "same_outside m m' p (value_size f)"
proof (cases "PB_LTYPE (ftype f) = PB_LTYPE_SUBMESSAGE")
  case True
  from st this obtain fs where fs: "fptr f = Submsg_fields fs" "contained d (data_size f) fs"
    by (auto simp: static_type_def Let_def split: pb_field_ptr.splits)
  have "pb_dec_submessage dec e env s f p m = Some (ok, s', m')"
    using r True by (simp add: PB_DECODERS_def layout_defs)
  from pb_dec_submessage_frame [OF fs(1) dec [OF fs(2)] fs(2) this] True
  show ?thesis by (simp add: value_size_def layout_defs)
next
  case False
  have a: "PB_ATYPE (ftype f) = PB_ATYPE_STATIC" using st by (simp add: static_type_def Let_def)
  note frames = leaf_frames pb_dec_fixed_length_bytes_frame pb_dec_bytes_frame [OF a] pb_dec_string_frame [OF a]
  show ?thesis
    using r False unfolding PB_DECODERS_def
    by (auto simp: value_size_def Let_def split: if_splits dest: frames)
      (auto simp: layout_defs dest: frames)
qed

section \<open>Fields\<close>

text \<open>A value written into entry \<open>k\<close> of an array, or at the member itself.\<close>

lemma cell_entry:
  assumes "cell sub a n it" "PB_HTYPE (ftype (cur it)) = PB_HTYPE_REPEATED" "k < array_size (cur it)"
    and "same_outside m m' (pData it + item_offset (cur it) k) (value_size (cur it))"
  shows "same_outside m m' a n"
proof -
  let ?f = "cur it"
  have "value_size ?f \<le> data_size ?f" "a \<le> pData it" "pData it + data_size ?f * array_size ?f \<le> a + n"
    using assms(1,2) by (auto simp: cell_def data_extent_def Let_def)
  moreover have "data_size ?f * k + data_size ?f \<le> data_size ?f * array_size ?f"
    using assms(3) mult_le_mono2 [of "Suc k" "array_size ?f" "data_size ?f"] by simp
  moreover have "item_offset ?f k \<le> data_size ?f * k" by (simp add: item_offset_def)
  ultimately show ?thesis using assms(4) by (auto elim: same_outside_mono)
qed

lemma cell_value:
  assumes "cell sub a n it" "PB_HTYPE (ftype (cur it)) \<noteq> PB_HTYPE_REPEATED"
    and "same_outside m m' (pData it) (value_size (cur it))"
  shows "same_outside m m' a n"
  using cell_data [OF assms(1,2) _ assms(3)] assms(2) by (simp add: data_extent_def)

lemma packed_static_frame:
  assumes c: "cell sub a n it" "PB_HTYPE (ftype (cur it)) = PB_HTYPE_REPEATED"
    and func: "\<And>s p m ok s' m'. func s (cur it) p m = Some (ok, s', m') \<Longrightarrow> same_outside m m' p (value_size (cur it))"
    and "packed_static_loop func it s m = Some (ok, s', m')"
  shows "same_outside m m' a n"
proof -
  have "fn = func \<longrightarrow> itr = it \<longrightarrow> same_outside m (snd (snd r)) a n"
    if "packed_static_loop fn itr s m = Some r" for fn itr s m r
    using that
  proof (induction fn itr s m r rule: packed_static_loop.raw_induct [rotated 1, consumes 1, case_names step])
    case (step loop fn itr s m r)
    show ?case
    proof (intro impI)
      assume fn: "fn = func" and itr: "itr = it"
      show "same_outside m (snd (snd r)) a n"
      proof (cases "bytes_left s > 0 \<and> load_size it m < array_size (cur it)")
        case False
        with step(2) fn itr show ?thesis by auto
      next
        case True
        with step(2) fn itr obtain ok s1 m1 where
          f: "func s (cur it) (pData it + item_offset (cur it) (load_size it m)) m = Some (ok, s1, m1)"
          and r: "r = (False, s1, m1) \<or>
             loop func it s1 (store_size 4 it (load_size it m1 + 1) m1) = Some r"
          by (auto simp: bind_eq_Some_conv split: if_splits)
        from cell_entry [OF c _ func [OF f]] True have 2: "same_outside m m1 a n" by simp
        have "same_outside m1 (store_size 4 it (load_size it m1 + 1) m1) a n"
          using c by (intro same_outside_store_size) (auto simp: slot_extent_def layout_defs)
        with r 2 step(1) [of func it s1 "store_size 4 it (load_size it m1 + 1) m1" r] show ?thesis
          by (auto intro: same_outside_trans)
      qed
    qed
  qed
  from this [OF assms(4)] show ?thesis by simp
qed


lemma packed_field_frame:
  assumes "cell sub a n it" "PB_HTYPE (ftype (cur it)) = PB_HTYPE_REPEATED"
    and "\<And>s p m ok s' m'. func s (cur it) p m = Some (ok, s', m') \<Longrightarrow> same_outside m m' p (value_size (cur it))"
    and r: "(case pb_make_string_substream s of
        (None, s1) \<Rightarrow> Some (False, s1, m)
      | (Some sub, s1) \<Rightarrow>
          do {
            (status, sub', m1) \<leftarrow> packed_static_loop func it sub m;
            if bytes_left sub' \<noteq> 0
            then Some (False, pb_istream_error ''array overflow'' s1, m1)
            else
              case pb_close_string_substream s1 sub' of
                (False, s2) \<Rightarrow> Some (False, s2, m1)
              | (True, s2) \<Rightarrow> Some (status, s2, m1)
          }) = Some (ok, s', m')"
  shows "same_outside m m' a n"
proof (cases "pb_make_string_substream s")
  case (Pair x s1)
  show ?thesis
  proof (cases x)
    case None
    with r Pair show ?thesis by simp
  next
    case (Some sub)
    with r Pair obtain st sub' m1 where l: "packed_static_loop func it sub m = Some (st, sub', m1)"
      by (cases "packed_static_loop func it sub m") auto
    moreover obtain c s2 where "pb_close_string_substream s1 sub' = (c, s2)" by fastforce
    ultimately have "m1 = m'" using Some r Pair by (cases c) (auto split: if_splits)
    with packed_static_frame [OF assms(1-3) l] show ?thesis by simp
  qed
qed

lemma htype_neqs:
  "PB_HTYPE_REQUIRED \<noteq> PB_HTYPE_OPTIONAL" "PB_HTYPE_REQUIRED \<noteq> PB_HTYPE_REPEATED"
  "PB_HTYPE_REQUIRED \<noteq> PB_HTYPE_ONEOF" "PB_HTYPE_OPTIONAL \<noteq> PB_HTYPE_REPEATED"
  "PB_HTYPE_OPTIONAL \<noteq> PB_HTYPE_ONEOF" "PB_HTYPE_REPEATED \<noteq> PB_HTYPE_ONEOF"
  by (simp_all add: layout_defs)

lemma decode_static_field_frame:
  assumes c: "cell (contained d) a n it" and dec: "\<And>n fs. contained d n fs \<Longrightarrow> msg_frame dec n fs"
    and r: "decode_static_field dec e env s wt it m = Some (ok, s', m')"
  shows "same_outside m m' a n"
proof -
  let ?f = "cur it" and ?h = "PB_HTYPE (ftype (cur it))" and ?l = "PB_LTYPE (ftype (cur it))"
  let ?func = "PB_DECODERS dec e env ?l"
  have st: "static_type (contained d) ?f" using c by (simp add: cell_def Let_def)
  have func: "?func s ?f p m = Some (ok, s', m') \<Longrightarrow> same_outside m m' p (value_size ?f)" for s p m ok s' m'
    by (rule PB_DECODERS_frame [OF st dec])
  note r = r [unfolded decode_static_field_def Let_def]
  note [simp] = htype_neqs htype_neqs [symmetric]
  note slot = same_outside_store_size [OF c]
  consider "?h = PB_HTYPE_REQUIRED" | "?h = PB_HTYPE_OPTIONAL" | "?h = PB_HTYPE_REPEATED" | "?h = PB_HTYPE_ONEOF"
    | "?h \<noteq> PB_HTYPE_REQUIRED" "?h \<noteq> PB_HTYPE_OPTIONAL" "?h \<noteq> PB_HTYPE_REPEATED" "?h \<noteq> PB_HTYPE_ONEOF" by blast
  then show ?thesis
  proof cases
    case 1
    with r have "?func s ?f (pData it) m = Some (ok, s', m')" by simp
    from cell_value [OF c _ func [OF this]] 1 show ?thesis by simp
  next
    case 2
    let ?m = "if pSize it \<noteq> Size_at (pData it) then store_size 1 it 1 m else m"
    have "?func s ?f (pData it) ?m = Some (ok, s', m')" using r 2 by simp
    from cell_value [OF c _ func [OF this]] 2 have "same_outside ?m m' a n" by simp
    moreover have "same_outside m ?m a n" using slot [of 1] 2 by (simp add: slot_extent_def)
    ultimately show ?thesis by (rule same_outside_trans [rotated])
  next
    case 3
    let ?z = "load_size it m"
    let ?m = "store_size 4 it (?z + 1) m"
    have m: "same_outside m ?m a n" using 3 by (intro slot) (simp_all add: slot_extent_def)
    show ?thesis
    proof (cases "wt = PB_WT_STRING \<and> ?l \<le> PB_LTYPE_LAST_PACKABLE")
      case True
      with r 3 show ?thesis by (intro packed_field_frame [OF c 3 func]) simp_all
    next
      case False
      with r 3 consider "m' = ?m" | "?z < array_size ?f" "?func s ?f (pData it + item_offset ?f ?z) ?m = Some (ok, s', m')"
        by (auto split: if_splits)
      then show ?thesis
      proof cases
        case 2
        from cell_entry [OF c 3 2(1) func [OF 2(2)]] m show ?thesis by (rule same_outside_trans [rotated])
      qed (use m in simp)
    qed
  next
    case 4
    let ?m1 = "store_size 4 it (tag ?f) m"
    have m1: "same_outside m ?m1 a n" using 4 by (intro slot) (simp_all add: slot_extent_def)
    from r 4 obtain m2 where m2: "(if ?l = PB_LTYPE_SUBMESSAGE then
               (case fptr ?f of
                  Submsg_fields fs \<Rightarrow>
                    pb_message_set_to_defaults e env fs (pData it) (memset ?m1 (pData it) 0 (data_size ?f))
                | _ \<Rightarrow> None)
             else Some ?m1) = Some m2" and f: "?func s ?f (pData it) m2 = Some (ok, s', m')"
      by (auto simp: bind_eq_Some_conv)
    have "same_outside ?m1 m2 (pData it) (data_size ?f)"
      using m2 st by (auto simp: static_type_def Let_def split: if_splits pb_field_ptr.splits
          dest!: set_to_defaults_frame intro: same_outside_trans [OF same_outside_memset])
    with cell_data [OF c _ _ this] 4 have "same_outside ?m1 m2 a n" by (simp add: data_extent_def)
    moreover have "same_outside m2 m' a n" using cell_value [OF c _ func [OF f]] 4 by simp
    ultimately show ?thesis using m1 by (blast intro: same_outside_trans)
  next
    case 5
    with r show ?thesis by simp
  qed
qed

section \<open>Any field, one round, the loop\<close>

text \<open>An iterator over the fields \<open>fs\<close> of the message at \<open>dest\<close>.\<close>

definition iterates :: "pb_field list \<Rightarrow> addr \<Rightarrow> pb_field_iter \<Rightarrow> bool" where
  "iterates fs dest it \<longleftrightarrow> iter_ok it \<and> start it = fs \<and> dest_struct it = dest"

lemma iterates_next: "iterates fs dest it \<Longrightarrow> iterates fs dest (snd (pb_field_iter_next it))"
  by (simp add: iterates_def iter_ok_next)

lemma iterates_begin: "iterates fs dest (snd (pb_field_iter_begin fs dest))"
  by (simp add: iterates_def iter_ok_begin)

lemma iterates_cell: "contained (Suc d) n fs \<Longrightarrow> iterates fs dest it \<Longrightarrow> cell (contained d) dest n it"
  using contained_cell [of d n it] by (simp add: iterates_def del: contained.simps)

lemma iterates_find: "iterates fs dest it \<Longrightarrow> pb_field_iter_find it t = (b, it') \<Longrightarrow> iterates fs dest it'"
proof -
  have "iterates fs dest it \<Longrightarrow> iterates fs dest (snd (find_loop k s t it))" for k s it
    by (induction k arbitrary: it) (simp_all add: Let_def iterates_next)
  then show "iterates fs dest it \<Longrightarrow> pb_field_iter_find it t = (b, it') \<Longrightarrow> iterates fs dest it'"
    by (metis pb_field_iter_find_def snd_conv)
qed

lemma iterates_find_extension:
  assumes "contained (Suc d) n fs" "iterates fs dest it"
  shows "\<exists>it'. find_extension_field it = Some (False, it') \<and> iterates fs dest it'"
proof -
  have "PB_LTYPE (ftype (cur it')) \<noteq> PB_LTYPE_EXTENSION"
    if "iter_ok it'" "start it' = start it" "dest_struct it' = dest_struct it" for it'
    using cell_static [OF iterates_cell [OF assms(1)], of dest it'] assms(2) that by (simp add: iterates_def)
  from find_extension_absent [OF _ this] assms(2) show ?thesis by (auto simp: iterates_def)
qed

lemma decode_field_frame:
  assumes fs: "contained (Suc d) n fs" "iterates fs dest it"
    and dec: "\<And>n fs. contained d n fs \<Longrightarrow> msg_frame dec n fs"
    and r: "decode_field dec e env s wt it m = Some (ok, s', it', m')"
  shows "same_outside m m' dest n \<and> iterates fs dest it'"
proof -
  from r obtain ok1 s1 it1 m1 where u: "(if PB_HTYPE (ftype (cur it)) = PB_HTYPE_ONEOF
      then pb_release_union_field e env s it m else Some (True, s, it, m)) = Some (ok1, s1, it1, m1)"
    by (auto simp: decode_field_def bind_eq_Some_conv)
  have 1: "m1 = m \<and> iterates fs dest it1"
  proof (cases "PB_HTYPE (ftype (cur it)) = PB_HTYPE_ONEOF \<and> load_size it m \<noteq> 0 \<and> load_size it m \<noteq> tag (cur it)")
    case False
    with u fs(2) show ?thesis by (auto simp: pb_release_union_field_def Let_def split: if_splits)
  next
    case True
    obtain b2 it2 where 2: "pb_field_iter_find it (load_size it m) = (b2, it2)" by fastforce
    obtain b3 it3 where 3: "pb_field_iter_find it2 (tag (cur it)) = (b3, it3)" by fastforce
    note i2 = iterates_find [OF fs(2) 2]
    from release_field_same [OF iterates_cell [OF fs(1) i2]] u True 2 3 i2 iterates_find [OF i2 3]
    show ?thesis by (auto simp: pb_release_union_field_def Let_def bind_eq_Some_conv split: bool.splits)
  qed
  note c = iterates_cell [OF fs(1) conjunct2 [OF 1]]
  show ?thesis
  proof (cases ok1)
    case False
    with r u 1 show ?thesis by (auto simp: decode_field_def)
  next
    case True
    with r u cell_static [OF c] have "decode_static_field dec e env s1 wt it1 m1 = Some (ok, s', m')" "it' = it1"
      by (auto simp: decode_field_def Let_def bind_eq_Some_conv)
    with decode_static_field_frame [OF c dec this(1)] 1 show ?thesis by simp
  qed
qed

definition keeps :: "pb_field list \<Rightarrow> addr \<Rightarrow> nat \<Rightarrow> cmem \<Rightarrow> decode_exit \<Rightarrow> bool" where
  "keeps fs dest n m r \<longleftrightarrow>
     (case r of Fail _ m' \<Rightarrow> same_outside m m' dest n
      | Continue st \<Rightarrow> same_outside m (l_mem st) dest n \<and> iterates fs dest (l_iter st)
      | Break st \<Rightarrow> same_outside m (l_mem st) dest n \<and> iterates fs dest (l_iter st))"

lemma keeps_skip: "iterates fs dest (l_iter st) \<Longrightarrow> keeps fs dest n (l_mem st) (skip_unknown wt st)"
  by (auto simp: keeps_def skip_unknown_def split: prod.splits bool.splits)

lemma select_fixed_count_keeps:
  assumes "select_fixed_count fs st = Some st'" "iterates fs dest (l_iter st)"
  shows "iterates fs dest (l_iter st') \<and> bytes (l_mem st') = bytes (l_mem st)"
  using assms by (auto simp: select_fixed_count_def iterates_def iter_ok_def cur_def Let_def split: if_splits)

lemma decode_round_keeps:
  assumes fs: "contained (Suc d) n fs" "iterates fs dest (l_iter st)"
    and dec: "\<And>n fs. contained d n fs \<Longrightarrow> msg_frame dec n fs"
    and r: "decode_round dec e env fs st = Some r"
  shows "keeps fs dest n (l_mem st) r"
proof (cases "pb_decode_tag (l_stream st)")
  case tg: (fields x eof s)
  show ?thesis
  proof (cases x)
    case None
    with r tg fs(2) show ?thesis by (auto simp: decode_round_def keeps_def split: if_splits)
  next
    case (Some wtt)
    obtain wt t where w: "wtt = (wt, t)" by fastforce
    obtain b it where i: "pb_field_iter_find (l_iter st) t = (b, it)" by fastforce
    note it = iterates_find [OF fs(2) i]
    let ?st = "st\<lparr>l_stream := s, l_iter := it\<rparr>"
    show ?thesis
    proof (cases b)
      case False
      obtain it1 where x: "find_extension_field it = Some (False, it1)" and x1: "iterates fs dest it1"
        using iterates_find_extension [OF fs(1) it] by blast
      from False r tg Some w i have "decode_unknown dec e env t wt ?st = Some r" by (simp add: decode_round_def)
      with x x1 pb_decode_tag_small [OF tg [unfolded Some w]]
      have "r = skip_unknown wt ?st \<or>
            r = skip_unknown wt (?st\<lparr>l_iter := it1, extension_range_start := PB_SIZE_MAX\<rparr>)"
        by (auto simp: decode_unknown_def Let_def split: if_splits)
      with x1 it keeps_skip [of fs dest ?st n wt]
        keeps_skip [of fs dest "?st\<lparr>l_iter := it1, extension_range_start := PB_SIZE_MAX\<rparr>" n wt]
      show ?thesis by auto
    next
      case True
      with r tg Some w i have known: "decode_known dec e env fs wt ?st = Some r" by (simp add: decode_round_def)
      show ?thesis
      proof (cases "select_fixed_count fs ?st")
        case None
        with known show ?thesis by (auto simp: decode_known_def keeps_def)
      next
        case (Some st0)
        let ?s1 = "mark_seen st0"
        have 0: "iterates fs dest (l_iter ?s1)" "bytes (l_mem ?s1) = bytes (l_mem st)"
          using select_fixed_count_keeps [OF Some] it by (simp_all add: mark_seen_def Let_def)
        from known Some obtain ok s' it' m' where
          f: "decode_field dec e env (l_stream ?s1) wt (l_iter ?s1) (l_mem ?s1) = Some (ok, s', it', m')"
          and r: "r = Fail s' m' \<or> r = Continue (?s1\<lparr>l_stream := s', l_iter := it', l_mem := m'\<rparr>)"
          by (auto simp: decode_known_def Let_def bind_eq_Some_conv split: if_splits)
        from decode_field_frame [OF fs(1) 0(1) dec f] r 0(2) show ?thesis
          by (auto simp: keeps_def same_outside_def)
      qed
    qed
  qed
qed

lemma keeps_trans: "same_outside m m1 dest n \<Longrightarrow> keeps fs dest n m1 r \<Longrightarrow> keeps fs dest n m r"
  by (auto simp: keeps_def intro: same_outside_trans split: decode_exit.splits)

lemma decode_loop_keeps:
  assumes body: "\<And>st r. iterates fs dest (l_iter st) \<Longrightarrow> body st = Some r \<Longrightarrow> keeps fs dest n (l_mem st) r"
    and "iterates fs dest (l_iter st)" "decode_loop body st = Some r"
  shows "keeps fs dest n (l_mem st) r"
proof -
  have "b = body \<longrightarrow> iterates fs dest (l_iter st) \<longrightarrow> keeps fs dest n (l_mem st) r"
    if "decode_loop b st = Some r" for b st r
    using that
  proof (induction b st r rule: decode_loop.raw_induct [rotated 1, consumes 1, case_names step])
    case (step loop b st r)
    show ?case
    proof (intro impI)
      assume b: "b = body" and it: "iterates fs dest (l_iter st)"
      show "keeps fs dest n (l_mem st) r"
      proof (cases "bytes_left (l_stream st) = 0")
        case True
        with step(2) it show ?thesis by (auto simp: keeps_def)
      next
        case False
        with step(2) b obtain r1 where r1: "body st = Some r1" "(case r1 of Continue st' \<Rightarrow> loop body st' | _ \<Rightarrow> Some r1) = Some r"
          by (auto simp: bind_eq_Some_conv)
        note k = body [OF it r1(1)]
        show ?thesis
        proof (cases r1)
          case (Continue st')
          with r1(2) step(1) [of body st' r] k show ?thesis by (auto simp: keeps_def intro: keeps_trans same_outside_trans split: decode_exit.splits)
        qed (use r1(2) k in auto)
      qed
    qed
  qed
  with assms show ?thesis by blast
qed

lemma decode_finish_mem: "decode_finish fs st = (ok, s', m') \<Longrightarrow> m' = l_mem st"
  by (auto simp: decode_finish_def split: if_splits)

lemma pb_decode_noinit_frame: "contained d n fs \<Longrightarrow> msg_frame (pb_decode_noinit e env) n fs"
proof (induction d arbitrary: n fs e)
  case (Suc d)
  show ?case
  proof (cases e)
    case 0
    then show ?thesis by (simp add: msg_frame_def)
  next
    case e: (Suc e')
    show ?thesis unfolding msg_frame_def
    proof (intro allI impI)
      fix s dest m ok s' m'
      let ?st = "\<lparr>l_stream = s, l_iter = snd (pb_field_iter_begin fs dest), l_mem = m\<lparr>local_count := 0\<rparr>,
                  fields_seen = [0, 0], extension_range_start = 0, fixed_count_field = None\<rparr>"
      assume "pb_decode_noinit e env s fs dest m = Some (ok, s', m')"
      then obtain r where loop: "decode_loop (decode_round (pb_decode_noinit e' env) e' env fs) ?st = Some r"
        and fin: "(let (ok, s', m') = (case r of Break st' \<Rightarrow> decode_finish fs st'
           | Continue st' \<Rightarrow> decode_finish fs st' | Fail s' m' \<Rightarrow> (False, s', m'))
           in Some (ok, s', m'\<lparr>local_count := local_count m\<rparr>)) = Some (ok, s', m')"
        by (auto simp: e Let_def bind_eq_Some_conv)
      have "keeps fs dest n (l_mem ?st) r"
        by (rule decode_loop_keeps [OF decode_round_keeps [OF Suc.prems _ Suc.IH] _ loop]) (simp_all add: iterates_begin)
      with fin show "same_outside m m' dest n"
        by (auto simp: keeps_def same_outside_def Let_def dest!: decode_finish_mem split: decode_exit.splits prod.splits)
    qed
  qed
qed simp

section \<open>Properties\<close>

text \<open>
  C2. Decoding stays within the message, for a descriptor array that is \<open>contained\<close> in \<open>n\<close> bytes: every field is
  static (no callback, extension or pointer fields, in submessages neither), every member lies in the
  first \<open>n\<close> bytes of its struct, and so does every four byte slot that a count, a presence flag or a
  union tag is stored to, which leaves out the fixed count arrays of fewer than four bytes at the end of
  a struct. Then \<^verbatim>\<open>pb_decode\<close> returns on every input and changes no byte outside these \<open>n\<close> bytes, whether it
  succeeds or fails.
\<close>

theorem pb_decode_writes_inside:
  assumes "contained d n fs" "decodable d fs" "d < depth"
  shows "\<exists>ok s' m'. pb_decode depth env s fs dest m = Some (ok, s', m') \<and> same_outside m m' dest n"
proof -
  obtain ok s' m' where r: "pb_decode depth env s fs dest m = Some (ok, s', m')"
    using pb_decode_advances [OF assms(2,3)] unfolding advances_def by blast
  from decode_with_defaults_frame [OF pb_decode_noinit_frame [OF assms(1)] assms(1) r [unfolded pb_decode_def]] r
  show ?thesis by blast
qed

theorem pb_decode_writes_inside_witness:
  "\<exists>ok s' m'. pb_decode 2 no_env (pb_istream_from_buffer [10, 4, 1, 0, 1, 1] 6) bool_message 64 empty_mem =
     Some (ok, s', m') \<and> same_outside empty_mem m' 64 7"
proof -
  have "contained 1 7 bool_message"
    by (simp add: bool_message_def nfields_def field_at_def static_field_def static_type_def data_extent_def
        value_size_def slot_extent_def layout_defs)
  from pb_decode_writes_inside [OF this decodable_bool_message] show ?thesis by simp
qed

text \<open>A struct with one array of one bool, declared with a fixed count.\<close>

definition fixed_bool :: c_struct where
  "fixed_bool = [\<lparr>mname = ''flags'', msize = 1, malign = 1, melem = 1\<rparr>]"

definition fixed_bool_fields :: "pb_field list" where
  "fixed_bool_fields =
     [PB_REPEATED_FIXED_COUNT 1 BOOL FIRST fixed_bool ''flags'' ''flags'' Null_ptr, PB_LAST_FIELD]"

text \<open>
  C26. The default value of a fixed count array is not safe in this sense: \<^verbatim>\<open>pb_field_set_to_default\<close> clears a
  four byte count at \<^verbatim>\<open>pSize\<close>, which for a fixed count array is the array itself. For every message whose
  only field is a fixed count array of fewer than four bytes, at every address and in every memory whose
  byte behind the array is not zero, setting the defaults succeeds and overwrites that byte.
\<close>

theorem fixed_count_default_overrun:
  assumes "tag f \<noteq> 0" "PB_ATYPE (ftype f) = PB_ATYPE_STATIC" "PB_HTYPE (ftype f) = PB_HTYPE_REPEATED"
    and "PB_LTYPE (ftype f) \<noteq> PB_LTYPE_EXTENSION" "size_offset f = 0" "data_size f * array_size f < 4"
    and "bytes m (dest + data_offset f + data_size f * array_size f) \<noteq> 0"
  shows "\<exists>m'. pb_message_set_to_defaults (Suc depth) env [f, PB_LAST_FIELD] dest m = Some m' \<and>
     bytes m' (dest + data_offset f + data_size f * array_size f) = 0 \<and>
     \<not> same_outside m m' (dest + data_offset f) (data_size f * array_size f)"
proof -
  let ?d = "dest + data_offset f" and ?n = "data_size f * array_size f"
  have p: "ptr_add x 0 = x" for x by (simp add: ptr_add_def)
  have "pb_fields_walk [f, PB_LAST_FIELD] dest = [snd (pb_field_iter_begin [f, PB_LAST_FIELD] dest)]"
    using assms(1) by (simp add: pb_fields_walk_eq nfields_def PB_LAST_FIELD_def)
  then have d: "pb_message_set_to_defaults (Suc depth) env [f, PB_LAST_FIELD] dest m =
      Some (store_bytes m ?d (le_bytes 4 0))"
    using assms(2-5)
    by (simp add: pb_message_set_to_defaults_def cur_def field_at_def pb_field_iter_begin_def Let_def
        store_size_def store_def p layout_defs)
  have "le_bytes 4 0 = replicate 4 (0 :: byte)" by (simp add: le_bytes_def) (simp add: numeral_eq_Suc)
  then have z: "bytes (store_bytes m ?d (le_bytes 4 0)) (?d + ?n) = 0"
    using assms(6) by (simp add: store_bytes_def)
  have "\<not> same_outside m (store_bytes m ?d (le_bytes 4 0)) ?d ?n"
  proof
    assume "same_outside m (store_bytes m ?d (le_bytes 4 0)) ?d ?n"
    then have "bytes (store_bytes m ?d (le_bytes 4 0)) (?d + ?n) = bytes m (?d + ?n)"
      unfolding same_outside_def by blast
    with z assms(7) show False by simp
  qed
  with d z show ?thesis by blast
qed

theorem fixed_count_default_overrun_witness:
  "\<exists>m'. pb_message_set_to_defaults 1 no_env fixed_bool_fields 64 (store_bytes empty_mem 64 [1, 1]) = Some m' \<and>
     bytes m' 65 = 0 \<and> \<not> same_outside (store_bytes empty_mem 64 [1, 1]) m' 64 (c_sizeof fixed_bool)"
proof -
  let ?f = "Pb_field 1 0x20 0 0 1 1 Null_ptr"
  have f: "fixed_bool_fields = [?f, PB_LAST_FIELD]"
    by (simp add: fixed_bool_fields_def PB_REPEATED_FIXED_COUNT_def fixed_bool_def PB_DATAOFFSET_FIRST_def c_offsetof_def
        pb_elemsize_def pb_arraysize_def pb_membersize_def align_up_def layout_defs)
  have n: "c_sizeof fixed_bool = 1"
    by (simp add: c_sizeof_def fixed_bool_def struct_align_def align_up_def)
  from fixed_count_default_overrun [of ?f "store_bytes empty_mem 64 [1, 1]" 64 0 no_env] show ?thesis
    unfolding f n by (simp add: layout_defs mem_simps)
qed

end
