(* ===== verification/CCT_Messages.thy ===== *)
theory CCT_Messages
  imports PB_Common PB_Defaults
begin

text \<open>
  The messages of the CCT backend of GoogleDataTransport, \<^verbatim>\<open>cct.nanopb.h\<close> and \<^verbatim>\<open>cct.nanopb.c\<close>: what the
  uploader encodes (\<^verbatim>\<open>BatchedLogRequest\<close>) and the response it decodes (\<^verbatim>\<open>LogResponse\<close>). Enumerations are
  datatypes with the value of each constant, structs are member lists, descriptor arrays are built by
  \<open>PB_FIELD\<close> from them. A definition stands before those that use it, so the order of the arrays differs
  from the file's. The lemmas give each descriptor as the numbers the macros expand to.
\<close>

section \<open>Enumerations\<close>

datatype gdt_cct_NetworkConnectionInfo_NetworkType =
  gdt_cct_NetworkConnectionInfo_NetworkType_NONE
| gdt_cct_NetworkConnectionInfo_NetworkType_MOBILE
| gdt_cct_NetworkConnectionInfo_NetworkType_WIFI
| gdt_cct_NetworkConnectionInfo_NetworkType_MOBILE_MMS
| gdt_cct_NetworkConnectionInfo_NetworkType_MOBILE_SUPL
| gdt_cct_NetworkConnectionInfo_NetworkType_MOBILE_DUN
| gdt_cct_NetworkConnectionInfo_NetworkType_MOBILE_HIPRI
| gdt_cct_NetworkConnectionInfo_NetworkType_WIMAX
| gdt_cct_NetworkConnectionInfo_NetworkType_BLUETOOTH
| gdt_cct_NetworkConnectionInfo_NetworkType_DUMMY
| gdt_cct_NetworkConnectionInfo_NetworkType_ETHERNET
| gdt_cct_NetworkConnectionInfo_NetworkType_MOBILE_FOTA
| gdt_cct_NetworkConnectionInfo_NetworkType_MOBILE_IMS
| gdt_cct_NetworkConnectionInfo_NetworkType_MOBILE_CBS
| gdt_cct_NetworkConnectionInfo_NetworkType_WIFI_P2P
| gdt_cct_NetworkConnectionInfo_NetworkType_MOBILE_IA
| gdt_cct_NetworkConnectionInfo_NetworkType_MOBILE_EMERGENCY
| gdt_cct_NetworkConnectionInfo_NetworkType_PROXY
| gdt_cct_NetworkConnectionInfo_NetworkType_VPN

fun gdt_cct_NetworkConnectionInfo_NetworkType_value :: "gdt_cct_NetworkConnectionInfo_NetworkType \<Rightarrow> int" where
  "gdt_cct_NetworkConnectionInfo_NetworkType_value gdt_cct_NetworkConnectionInfo_NetworkType_NONE = - 1"
| "gdt_cct_NetworkConnectionInfo_NetworkType_value gdt_cct_NetworkConnectionInfo_NetworkType_MOBILE = 0"
| "gdt_cct_NetworkConnectionInfo_NetworkType_value gdt_cct_NetworkConnectionInfo_NetworkType_WIFI = 1"
| "gdt_cct_NetworkConnectionInfo_NetworkType_value gdt_cct_NetworkConnectionInfo_NetworkType_MOBILE_MMS = 2"
| "gdt_cct_NetworkConnectionInfo_NetworkType_value gdt_cct_NetworkConnectionInfo_NetworkType_MOBILE_SUPL = 3"
| "gdt_cct_NetworkConnectionInfo_NetworkType_value gdt_cct_NetworkConnectionInfo_NetworkType_MOBILE_DUN = 4"
| "gdt_cct_NetworkConnectionInfo_NetworkType_value gdt_cct_NetworkConnectionInfo_NetworkType_MOBILE_HIPRI = 5"
| "gdt_cct_NetworkConnectionInfo_NetworkType_value gdt_cct_NetworkConnectionInfo_NetworkType_WIMAX = 6"
| "gdt_cct_NetworkConnectionInfo_NetworkType_value gdt_cct_NetworkConnectionInfo_NetworkType_BLUETOOTH = 7"
| "gdt_cct_NetworkConnectionInfo_NetworkType_value gdt_cct_NetworkConnectionInfo_NetworkType_DUMMY = 8"
| "gdt_cct_NetworkConnectionInfo_NetworkType_value gdt_cct_NetworkConnectionInfo_NetworkType_ETHERNET = 9"
| "gdt_cct_NetworkConnectionInfo_NetworkType_value gdt_cct_NetworkConnectionInfo_NetworkType_MOBILE_FOTA = 10"
| "gdt_cct_NetworkConnectionInfo_NetworkType_value gdt_cct_NetworkConnectionInfo_NetworkType_MOBILE_IMS = 11"
| "gdt_cct_NetworkConnectionInfo_NetworkType_value gdt_cct_NetworkConnectionInfo_NetworkType_MOBILE_CBS = 12"
| "gdt_cct_NetworkConnectionInfo_NetworkType_value gdt_cct_NetworkConnectionInfo_NetworkType_WIFI_P2P = 13"
| "gdt_cct_NetworkConnectionInfo_NetworkType_value gdt_cct_NetworkConnectionInfo_NetworkType_MOBILE_IA = 14"
| "gdt_cct_NetworkConnectionInfo_NetworkType_value gdt_cct_NetworkConnectionInfo_NetworkType_MOBILE_EMERGENCY = 15"
| "gdt_cct_NetworkConnectionInfo_NetworkType_value gdt_cct_NetworkConnectionInfo_NetworkType_PROXY = 16"
| "gdt_cct_NetworkConnectionInfo_NetworkType_value gdt_cct_NetworkConnectionInfo_NetworkType_VPN = 17"

definition gdt_cct_NetworkConnectionInfo_NetworkType_MIN :: gdt_cct_NetworkConnectionInfo_NetworkType where
  [layout_defs]: "gdt_cct_NetworkConnectionInfo_NetworkType_MIN = gdt_cct_NetworkConnectionInfo_NetworkType_NONE"

definition gdt_cct_NetworkConnectionInfo_NetworkType_MAX :: gdt_cct_NetworkConnectionInfo_NetworkType where
  [layout_defs]: "gdt_cct_NetworkConnectionInfo_NetworkType_MAX = gdt_cct_NetworkConnectionInfo_NetworkType_VPN"

definition gdt_cct_NetworkConnectionInfo_NetworkType_ARRAYSIZE :: int where
  [layout_defs]: "gdt_cct_NetworkConnectionInfo_NetworkType_ARRAYSIZE = gdt_cct_NetworkConnectionInfo_NetworkType_value gdt_cct_NetworkConnectionInfo_NetworkType_VPN + 1"

datatype gdt_cct_NetworkConnectionInfo_MobileSubtype =
  gdt_cct_NetworkConnectionInfo_MobileSubtype_UNKNOWN_MOBILE_SUBTYPE
| gdt_cct_NetworkConnectionInfo_MobileSubtype_GPRS
| gdt_cct_NetworkConnectionInfo_MobileSubtype_EDGE
| gdt_cct_NetworkConnectionInfo_MobileSubtype_UMTS
| gdt_cct_NetworkConnectionInfo_MobileSubtype_CDMA
| gdt_cct_NetworkConnectionInfo_MobileSubtype_EVDO_0
| gdt_cct_NetworkConnectionInfo_MobileSubtype_EVDO_A
| gdt_cct_NetworkConnectionInfo_MobileSubtype_RTT
| gdt_cct_NetworkConnectionInfo_MobileSubtype_HSDPA
| gdt_cct_NetworkConnectionInfo_MobileSubtype_HSUPA
| gdt_cct_NetworkConnectionInfo_MobileSubtype_HSPA
| gdt_cct_NetworkConnectionInfo_MobileSubtype_IDEN
| gdt_cct_NetworkConnectionInfo_MobileSubtype_EVDO_B
| gdt_cct_NetworkConnectionInfo_MobileSubtype_LTE
| gdt_cct_NetworkConnectionInfo_MobileSubtype_EHRPD
| gdt_cct_NetworkConnectionInfo_MobileSubtype_HSPAP
| gdt_cct_NetworkConnectionInfo_MobileSubtype_GSM
| gdt_cct_NetworkConnectionInfo_MobileSubtype_TD_SCDMA
| gdt_cct_NetworkConnectionInfo_MobileSubtype_IWLAN
| gdt_cct_NetworkConnectionInfo_MobileSubtype_LTE_CA
| gdt_cct_NetworkConnectionInfo_MobileSubtype_COMBINED

fun gdt_cct_NetworkConnectionInfo_MobileSubtype_value :: "gdt_cct_NetworkConnectionInfo_MobileSubtype \<Rightarrow> int" where
  "gdt_cct_NetworkConnectionInfo_MobileSubtype_value gdt_cct_NetworkConnectionInfo_MobileSubtype_UNKNOWN_MOBILE_SUBTYPE = 0"
| "gdt_cct_NetworkConnectionInfo_MobileSubtype_value gdt_cct_NetworkConnectionInfo_MobileSubtype_GPRS = 1"
| "gdt_cct_NetworkConnectionInfo_MobileSubtype_value gdt_cct_NetworkConnectionInfo_MobileSubtype_EDGE = 2"
| "gdt_cct_NetworkConnectionInfo_MobileSubtype_value gdt_cct_NetworkConnectionInfo_MobileSubtype_UMTS = 3"
| "gdt_cct_NetworkConnectionInfo_MobileSubtype_value gdt_cct_NetworkConnectionInfo_MobileSubtype_CDMA = 4"
| "gdt_cct_NetworkConnectionInfo_MobileSubtype_value gdt_cct_NetworkConnectionInfo_MobileSubtype_EVDO_0 = 5"
| "gdt_cct_NetworkConnectionInfo_MobileSubtype_value gdt_cct_NetworkConnectionInfo_MobileSubtype_EVDO_A = 6"
| "gdt_cct_NetworkConnectionInfo_MobileSubtype_value gdt_cct_NetworkConnectionInfo_MobileSubtype_RTT = 7"
| "gdt_cct_NetworkConnectionInfo_MobileSubtype_value gdt_cct_NetworkConnectionInfo_MobileSubtype_HSDPA = 8"
| "gdt_cct_NetworkConnectionInfo_MobileSubtype_value gdt_cct_NetworkConnectionInfo_MobileSubtype_HSUPA = 9"
| "gdt_cct_NetworkConnectionInfo_MobileSubtype_value gdt_cct_NetworkConnectionInfo_MobileSubtype_HSPA = 10"
| "gdt_cct_NetworkConnectionInfo_MobileSubtype_value gdt_cct_NetworkConnectionInfo_MobileSubtype_IDEN = 11"
| "gdt_cct_NetworkConnectionInfo_MobileSubtype_value gdt_cct_NetworkConnectionInfo_MobileSubtype_EVDO_B = 12"
| "gdt_cct_NetworkConnectionInfo_MobileSubtype_value gdt_cct_NetworkConnectionInfo_MobileSubtype_LTE = 13"
| "gdt_cct_NetworkConnectionInfo_MobileSubtype_value gdt_cct_NetworkConnectionInfo_MobileSubtype_EHRPD = 14"
| "gdt_cct_NetworkConnectionInfo_MobileSubtype_value gdt_cct_NetworkConnectionInfo_MobileSubtype_HSPAP = 15"
| "gdt_cct_NetworkConnectionInfo_MobileSubtype_value gdt_cct_NetworkConnectionInfo_MobileSubtype_GSM = 16"
| "gdt_cct_NetworkConnectionInfo_MobileSubtype_value gdt_cct_NetworkConnectionInfo_MobileSubtype_TD_SCDMA = 17"
| "gdt_cct_NetworkConnectionInfo_MobileSubtype_value gdt_cct_NetworkConnectionInfo_MobileSubtype_IWLAN = 18"
| "gdt_cct_NetworkConnectionInfo_MobileSubtype_value gdt_cct_NetworkConnectionInfo_MobileSubtype_LTE_CA = 19"
| "gdt_cct_NetworkConnectionInfo_MobileSubtype_value gdt_cct_NetworkConnectionInfo_MobileSubtype_COMBINED = 100"

definition gdt_cct_NetworkConnectionInfo_MobileSubtype_MIN :: gdt_cct_NetworkConnectionInfo_MobileSubtype where
  [layout_defs]: "gdt_cct_NetworkConnectionInfo_MobileSubtype_MIN = gdt_cct_NetworkConnectionInfo_MobileSubtype_UNKNOWN_MOBILE_SUBTYPE"

definition gdt_cct_NetworkConnectionInfo_MobileSubtype_MAX :: gdt_cct_NetworkConnectionInfo_MobileSubtype where
  [layout_defs]: "gdt_cct_NetworkConnectionInfo_MobileSubtype_MAX = gdt_cct_NetworkConnectionInfo_MobileSubtype_COMBINED"

definition gdt_cct_NetworkConnectionInfo_MobileSubtype_ARRAYSIZE :: int where
  [layout_defs]: "gdt_cct_NetworkConnectionInfo_MobileSubtype_ARRAYSIZE = gdt_cct_NetworkConnectionInfo_MobileSubtype_value gdt_cct_NetworkConnectionInfo_MobileSubtype_COMBINED + 1"

datatype gdt_cct_ClientInfo_ClientType =
  gdt_cct_ClientInfo_ClientType_CLIENT_UNKNOWN
| gdt_cct_ClientInfo_ClientType_IOS_FIREBASE

fun gdt_cct_ClientInfo_ClientType_value :: "gdt_cct_ClientInfo_ClientType \<Rightarrow> int" where
  "gdt_cct_ClientInfo_ClientType_value gdt_cct_ClientInfo_ClientType_CLIENT_UNKNOWN = 0"
| "gdt_cct_ClientInfo_ClientType_value gdt_cct_ClientInfo_ClientType_IOS_FIREBASE = 15"

definition gdt_cct_ClientInfo_ClientType_MIN :: gdt_cct_ClientInfo_ClientType where
  [layout_defs]: "gdt_cct_ClientInfo_ClientType_MIN = gdt_cct_ClientInfo_ClientType_CLIENT_UNKNOWN"

definition gdt_cct_ClientInfo_ClientType_MAX :: gdt_cct_ClientInfo_ClientType where
  [layout_defs]: "gdt_cct_ClientInfo_ClientType_MAX = gdt_cct_ClientInfo_ClientType_IOS_FIREBASE"

definition gdt_cct_ClientInfo_ClientType_ARRAYSIZE :: int where
  [layout_defs]: "gdt_cct_ClientInfo_ClientType_ARRAYSIZE = gdt_cct_ClientInfo_ClientType_value gdt_cct_ClientInfo_ClientType_IOS_FIREBASE + 1"

datatype gdt_cct_QosTierConfiguration_QosTier =
  gdt_cct_QosTierConfiguration_QosTier_DEFAULT
| gdt_cct_QosTierConfiguration_QosTier_UNMETERED_ONLY
| gdt_cct_QosTierConfiguration_QosTier_UNMETERED_OR_DAILY
| gdt_cct_QosTierConfiguration_QosTier_FAST_IF_RADIO_AWAKE
| gdt_cct_QosTierConfiguration_QosTier_NEVER

fun gdt_cct_QosTierConfiguration_QosTier_value :: "gdt_cct_QosTierConfiguration_QosTier \<Rightarrow> int" where
  "gdt_cct_QosTierConfiguration_QosTier_value gdt_cct_QosTierConfiguration_QosTier_DEFAULT = 0"
| "gdt_cct_QosTierConfiguration_QosTier_value gdt_cct_QosTierConfiguration_QosTier_UNMETERED_ONLY = 1"
| "gdt_cct_QosTierConfiguration_QosTier_value gdt_cct_QosTierConfiguration_QosTier_UNMETERED_OR_DAILY = 2"
| "gdt_cct_QosTierConfiguration_QosTier_value gdt_cct_QosTierConfiguration_QosTier_FAST_IF_RADIO_AWAKE = 3"
| "gdt_cct_QosTierConfiguration_QosTier_value gdt_cct_QosTierConfiguration_QosTier_NEVER = 4"

definition gdt_cct_QosTierConfiguration_QosTier_MIN :: gdt_cct_QosTierConfiguration_QosTier where
  [layout_defs]: "gdt_cct_QosTierConfiguration_QosTier_MIN = gdt_cct_QosTierConfiguration_QosTier_DEFAULT"

definition gdt_cct_QosTierConfiguration_QosTier_MAX :: gdt_cct_QosTierConfiguration_QosTier where
  [layout_defs]: "gdt_cct_QosTierConfiguration_QosTier_MAX = gdt_cct_QosTierConfiguration_QosTier_NEVER"

definition gdt_cct_QosTierConfiguration_QosTier_ARRAYSIZE :: int where
  [layout_defs]: "gdt_cct_QosTierConfiguration_QosTier_ARRAYSIZE = gdt_cct_QosTierConfiguration_QosTier_value gdt_cct_QosTierConfiguration_QosTier_NEVER + 1"

section \<open>Structs\<close>

definition gdt_cct_IosClientInfo :: c_struct where
  [layout_defs]: "gdt_cct_IosClientInfo =
     [c_ptr ''os_major_version'' (c_sizeof pb_bytes_array_t),
      c_ptr ''os_full_version'' (c_sizeof pb_bytes_array_t),
      c_ptr ''application_build'' (c_sizeof pb_bytes_array_t),
      c_ptr ''country'' (c_sizeof pb_bytes_array_t),
      c_ptr ''model'' (c_sizeof pb_bytes_array_t),
      c_ptr ''language_code'' (c_sizeof pb_bytes_array_t),
      c_ptr ''application_bundle_id'' (c_sizeof pb_bytes_array_t)]"

definition gdt_cct_ClientInfo :: c_struct where
  [layout_defs]: "gdt_cct_ClientInfo =
     [c_bool ''has_client_type'',
      c_int32 ''client_type'',
      c_bool ''has_ios_client_info'',
      c_sub ''ios_client_info'' gdt_cct_IosClientInfo]"

definition gdt_cct_NetworkConnectionInfo :: c_struct where
  [layout_defs]: "gdt_cct_NetworkConnectionInfo =
     [c_bool ''has_network_type'',
      c_int32 ''network_type'',
      c_bool ''has_mobile_subtype'',
      c_int32 ''mobile_subtype'']"

definition gdt_cct_LogEvent :: c_struct where
  [layout_defs]: "gdt_cct_LogEvent =
     [c_bool ''has_event_time_ms'',
      c_int64 ''event_time_ms'',
      c_ptr ''source_extension'' (c_sizeof pb_bytes_array_t),
      c_bool ''has_event_code'',
      c_int32 ''event_code'',
      c_bool ''has_timezone_offset_seconds'',
      c_int64 ''timezone_offset_seconds'',
      c_bool ''has_event_uptime_ms'',
      c_int64 ''event_uptime_ms'',
      c_bool ''has_network_connection_info'',
      c_sub ''network_connection_info'' gdt_cct_NetworkConnectionInfo]"

definition gdt_cct_LogRequest :: c_struct where
  [layout_defs]: "gdt_cct_LogRequest =
     [c_bool ''has_client_info'',
      c_sub ''client_info'' gdt_cct_ClientInfo,
      c_bool ''has_log_source'',
      c_int32 ''log_source'',
      c_int32 ''log_event_count'',
      c_ptr ''log_event'' (c_sizeof gdt_cct_LogEvent),
      c_bool ''has_request_time_ms'',
      c_int64 ''request_time_ms'',
      c_bool ''has_request_uptime_ms'',
      c_int64 ''request_uptime_ms'',
      c_bool ''has_qos_tier'',
      c_int32 ''qos_tier'']"

definition gdt_cct_BatchedLogRequest :: c_struct where
  [layout_defs]: "gdt_cct_BatchedLogRequest =
     [c_int32 ''log_request_count'',
      c_ptr ''log_request'' (c_sizeof gdt_cct_LogRequest)]"

definition gdt_cct_QosTierConfiguration :: c_struct where
  [layout_defs]: "gdt_cct_QosTierConfiguration =
     [c_bool ''has_qos_tier'',
      c_int32 ''qos_tier'',
      c_bool ''has_log_source'',
      c_int32 ''log_source'']"

definition gdt_cct_QosTiersOverride :: c_struct where
  [layout_defs]: "gdt_cct_QosTiersOverride =
     [c_int32 ''qos_tier_configuration_count'',
      c_ptr ''qos_tier_configuration'' (c_sizeof gdt_cct_QosTierConfiguration),
      c_bool ''has_qos_tier_fingerprint'',
      c_int64 ''qos_tier_fingerprint'']"

definition gdt_cct_LogResponse :: c_struct where
  [layout_defs]: "gdt_cct_LogResponse =
     [c_bool ''has_next_request_wait_millis'',
      c_int64 ''next_request_wait_millis'',
      c_bool ''has_qos_tier'',
      c_sub ''qos_tier'' gdt_cct_QosTiersOverride]"

section \<open>Default values\<close>

definition gdt_cct_NetworkConnectionInfo_network_type_default :: int where
  [layout_defs]: "gdt_cct_NetworkConnectionInfo_network_type_default = 
     gdt_cct_NetworkConnectionInfo_NetworkType_value gdt_cct_NetworkConnectionInfo_NetworkType_NONE"

definition gdt_cct_NetworkConnectionInfo_mobile_subtype_default :: int where
  [layout_defs]: "gdt_cct_NetworkConnectionInfo_mobile_subtype_default = 
     gdt_cct_NetworkConnectionInfo_MobileSubtype_value gdt_cct_NetworkConnectionInfo_MobileSubtype_UNKNOWN_MOBILE_SUBTYPE"

definition gdt_cct_LogRequest_qos_tier_default :: int where
  [layout_defs]: "gdt_cct_LogRequest_qos_tier_default = 
     gdt_cct_QosTierConfiguration_QosTier_value gdt_cct_QosTierConfiguration_QosTier_DEFAULT"

definition gdt_cct_QosTierConfiguration_log_source_default :: int where
  [layout_defs]: "gdt_cct_QosTierConfiguration_log_source_default = 0"

section \<open>Field tags\<close>

definition gdt_cct_BatchedLogRequest_log_request_tag :: nat where [layout_defs]: "gdt_cct_BatchedLogRequest_log_request_tag = 1"
definition gdt_cct_IosClientInfo_os_major_version_tag :: nat where [layout_defs]: "gdt_cct_IosClientInfo_os_major_version_tag = 3"
definition gdt_cct_IosClientInfo_os_full_version_tag :: nat where [layout_defs]: "gdt_cct_IosClientInfo_os_full_version_tag = 4"
definition gdt_cct_IosClientInfo_application_build_tag :: nat where [layout_defs]: "gdt_cct_IosClientInfo_application_build_tag = 5"
definition gdt_cct_IosClientInfo_country_tag :: nat where [layout_defs]: "gdt_cct_IosClientInfo_country_tag = 6"
definition gdt_cct_IosClientInfo_model_tag :: nat where [layout_defs]: "gdt_cct_IosClientInfo_model_tag = 7"
definition gdt_cct_IosClientInfo_language_code_tag :: nat where [layout_defs]: "gdt_cct_IosClientInfo_language_code_tag = 8"
definition gdt_cct_IosClientInfo_application_bundle_id_tag :: nat where [layout_defs]: "gdt_cct_IosClientInfo_application_bundle_id_tag = 11"
definition gdt_cct_ClientInfo_client_type_tag :: nat where [layout_defs]: "gdt_cct_ClientInfo_client_type_tag = 1"
definition gdt_cct_ClientInfo_ios_client_info_tag :: nat where [layout_defs]: "gdt_cct_ClientInfo_ios_client_info_tag = 4"
definition gdt_cct_NetworkConnectionInfo_network_type_tag :: nat where [layout_defs]: "gdt_cct_NetworkConnectionInfo_network_type_tag = 1"
definition gdt_cct_NetworkConnectionInfo_mobile_subtype_tag :: nat where [layout_defs]: "gdt_cct_NetworkConnectionInfo_mobile_subtype_tag = 2"
definition gdt_cct_QosTierConfiguration_qos_tier_tag :: nat where [layout_defs]: "gdt_cct_QosTierConfiguration_qos_tier_tag = 2"
definition gdt_cct_QosTierConfiguration_log_source_tag :: nat where [layout_defs]: "gdt_cct_QosTierConfiguration_log_source_tag = 3"
definition gdt_cct_QosTiersOverride_qos_tier_configuration_tag :: nat where [layout_defs]: "gdt_cct_QosTiersOverride_qos_tier_configuration_tag = 1"
definition gdt_cct_QosTiersOverride_qos_tier_fingerprint_tag :: nat where [layout_defs]: "gdt_cct_QosTiersOverride_qos_tier_fingerprint_tag = 2"
definition gdt_cct_LogEvent_event_time_ms_tag :: nat where [layout_defs]: "gdt_cct_LogEvent_event_time_ms_tag = 1"
definition gdt_cct_LogEvent_event_code_tag :: nat where [layout_defs]: "gdt_cct_LogEvent_event_code_tag = 11"
definition gdt_cct_LogEvent_event_uptime_ms_tag :: nat where [layout_defs]: "gdt_cct_LogEvent_event_uptime_ms_tag = 17"
definition gdt_cct_LogEvent_source_extension_tag :: nat where [layout_defs]: "gdt_cct_LogEvent_source_extension_tag = 6"
definition gdt_cct_LogEvent_timezone_offset_seconds_tag :: nat where [layout_defs]: "gdt_cct_LogEvent_timezone_offset_seconds_tag = 15"
definition gdt_cct_LogEvent_network_connection_info_tag :: nat where [layout_defs]: "gdt_cct_LogEvent_network_connection_info_tag = 23"
definition gdt_cct_LogRequest_request_time_ms_tag :: nat where [layout_defs]: "gdt_cct_LogRequest_request_time_ms_tag = 4"
definition gdt_cct_LogRequest_request_uptime_ms_tag :: nat where [layout_defs]: "gdt_cct_LogRequest_request_uptime_ms_tag = 8"
definition gdt_cct_LogRequest_client_info_tag :: nat where [layout_defs]: "gdt_cct_LogRequest_client_info_tag = 1"
definition gdt_cct_LogRequest_log_source_tag :: nat where [layout_defs]: "gdt_cct_LogRequest_log_source_tag = 2"
definition gdt_cct_LogRequest_log_event_tag :: nat where [layout_defs]: "gdt_cct_LogRequest_log_event_tag = 3"
definition gdt_cct_LogRequest_qos_tier_tag :: nat where [layout_defs]: "gdt_cct_LogRequest_qos_tier_tag = 9"
definition gdt_cct_LogResponse_next_request_wait_millis_tag :: nat where [layout_defs]: "gdt_cct_LogResponse_next_request_wait_millis_tag = 1"
definition gdt_cct_LogResponse_qos_tier_tag :: nat where [layout_defs]: "gdt_cct_LogResponse_qos_tier_tag = 3"

section \<open>Field descriptors\<close>

definition gdt_cct_NetworkConnectionInfo_fields :: "pb_field list" where
  "gdt_cct_NetworkConnectionInfo_fields =
     [PB_FIELD 1 ENUM OPTIONAL STATIC FIRST gdt_cct_NetworkConnectionInfo
        ''network_type'' ''network_type'' (Default_value (c_int32_bytes gdt_cct_NetworkConnectionInfo_network_type_default)),
      PB_FIELD 2 UENUM OPTIONAL STATIC OTHER gdt_cct_NetworkConnectionInfo
        ''mobile_subtype'' ''network_type'' (Default_value (c_int32_bytes gdt_cct_NetworkConnectionInfo_mobile_subtype_default)),
      PB_LAST_FIELD]"

definition gdt_cct_LogEvent_fields :: "pb_field list" where
  "gdt_cct_LogEvent_fields =
     [PB_FIELD 1 INT64 OPTIONAL STATIC FIRST gdt_cct_LogEvent
        ''event_time_ms'' ''event_time_ms'' Null_ptr,
      PB_FIELD 6 BYTES OPTIONAL POINTER OTHER gdt_cct_LogEvent
        ''source_extension'' ''event_time_ms'' Null_ptr,
      PB_FIELD 11 INT32 OPTIONAL STATIC OTHER gdt_cct_LogEvent
        ''event_code'' ''source_extension'' Null_ptr,
      PB_FIELD 15 SINT64 OPTIONAL STATIC OTHER gdt_cct_LogEvent
        ''timezone_offset_seconds'' ''event_code'' Null_ptr,
      PB_FIELD 17 INT64 OPTIONAL STATIC OTHER gdt_cct_LogEvent
        ''event_uptime_ms'' ''timezone_offset_seconds'' Null_ptr,
      PB_FIELD 23 MESSAGE OPTIONAL STATIC OTHER gdt_cct_LogEvent
        ''network_connection_info'' ''event_uptime_ms'' (Submsg_fields gdt_cct_NetworkConnectionInfo_fields),
      PB_LAST_FIELD]"

definition gdt_cct_IosClientInfo_fields :: "pb_field list" where
  "gdt_cct_IosClientInfo_fields =
     [PB_FIELD 3 BYTES OPTIONAL POINTER FIRST gdt_cct_IosClientInfo
        ''os_major_version'' ''os_major_version'' Null_ptr,
      PB_FIELD 4 BYTES OPTIONAL POINTER OTHER gdt_cct_IosClientInfo
        ''os_full_version'' ''os_major_version'' Null_ptr,
      PB_FIELD 5 BYTES OPTIONAL POINTER OTHER gdt_cct_IosClientInfo
        ''application_build'' ''os_full_version'' Null_ptr,
      PB_FIELD 6 BYTES OPTIONAL POINTER OTHER gdt_cct_IosClientInfo
        ''country'' ''application_build'' Null_ptr,
      PB_FIELD 7 BYTES OPTIONAL POINTER OTHER gdt_cct_IosClientInfo ''model'' ''country'' Null_ptr,
      PB_FIELD 8 BYTES OPTIONAL POINTER OTHER gdt_cct_IosClientInfo ''language_code'' ''model'' Null_ptr,
      PB_FIELD 11 BYTES OPTIONAL POINTER OTHER gdt_cct_IosClientInfo
        ''application_bundle_id'' ''language_code'' Null_ptr,
      PB_LAST_FIELD]"

definition gdt_cct_ClientInfo_fields :: "pb_field list" where
  "gdt_cct_ClientInfo_fields =
     [PB_FIELD 1 UENUM OPTIONAL STATIC FIRST gdt_cct_ClientInfo ''client_type'' ''client_type'' Null_ptr,
      PB_FIELD 4 MESSAGE OPTIONAL STATIC OTHER gdt_cct_ClientInfo
        ''ios_client_info'' ''client_type'' (Submsg_fields gdt_cct_IosClientInfo_fields),
      PB_LAST_FIELD]"

definition gdt_cct_LogRequest_fields :: "pb_field list" where
  "gdt_cct_LogRequest_fields =
     [PB_FIELD 1 MESSAGE OPTIONAL STATIC FIRST gdt_cct_LogRequest
        ''client_info'' ''client_info'' (Submsg_fields gdt_cct_ClientInfo_fields),
      PB_FIELD 2 INT32 OPTIONAL STATIC OTHER gdt_cct_LogRequest ''log_source'' ''client_info'' Null_ptr,
      PB_FIELD 3 MESSAGE REPEATED POINTER OTHER gdt_cct_LogRequest
        ''log_event'' ''log_source'' (Submsg_fields gdt_cct_LogEvent_fields),
      PB_FIELD 4 INT64 OPTIONAL STATIC OTHER gdt_cct_LogRequest
        ''request_time_ms'' ''log_event'' Null_ptr,
      PB_FIELD 8 INT64 OPTIONAL STATIC OTHER gdt_cct_LogRequest
        ''request_uptime_ms'' ''request_time_ms'' Null_ptr,
      PB_FIELD 9 UENUM OPTIONAL STATIC OTHER gdt_cct_LogRequest
        ''qos_tier'' ''request_uptime_ms'' (Default_value (c_int32_bytes gdt_cct_LogRequest_qos_tier_default)),
      PB_LAST_FIELD]"

definition gdt_cct_BatchedLogRequest_fields :: "pb_field list" where
  "gdt_cct_BatchedLogRequest_fields =
     [PB_FIELD 1 MESSAGE REPEATED POINTER FIRST gdt_cct_BatchedLogRequest
        ''log_request'' ''log_request'' (Submsg_fields gdt_cct_LogRequest_fields),
      PB_LAST_FIELD]"

definition gdt_cct_QosTierConfiguration_fields :: "pb_field list" where
  "gdt_cct_QosTierConfiguration_fields =
     [PB_FIELD 2 UENUM OPTIONAL STATIC FIRST gdt_cct_QosTierConfiguration
        ''qos_tier'' ''qos_tier'' Null_ptr,
      PB_FIELD 3 INT32 OPTIONAL STATIC OTHER gdt_cct_QosTierConfiguration
        ''log_source'' ''qos_tier'' (Default_value (c_int32_bytes gdt_cct_QosTierConfiguration_log_source_default)),
      PB_LAST_FIELD]"

definition gdt_cct_QosTiersOverride_fields :: "pb_field list" where
  "gdt_cct_QosTiersOverride_fields =
     [PB_FIELD 1 MESSAGE REPEATED POINTER FIRST gdt_cct_QosTiersOverride
        ''qos_tier_configuration'' ''qos_tier_configuration'' (Submsg_fields gdt_cct_QosTierConfiguration_fields),
      PB_FIELD 2 INT64 OPTIONAL STATIC OTHER gdt_cct_QosTiersOverride
        ''qos_tier_fingerprint'' ''qos_tier_configuration'' Null_ptr,
      PB_LAST_FIELD]"

definition gdt_cct_LogResponse_fields :: "pb_field list" where
  "gdt_cct_LogResponse_fields =
     [PB_FIELD 1 INT64 OPTIONAL STATIC FIRST gdt_cct_LogResponse
        ''next_request_wait_millis'' ''next_request_wait_millis'' Null_ptr,
      PB_FIELD 3 MESSAGE OPTIONAL STATIC OTHER gdt_cct_LogResponse
        ''qos_tier'' ''next_request_wait_millis'' (Submsg_fields gdt_cct_QosTiersOverride_fields),
      PB_LAST_FIELD]"

section \<open>Initializers\<close>

definition gdt_cct_IosClientInfo_init_default :: "c_init list" where
  [layout_defs]: "gdt_cct_IosClientInfo_init_default =
     [Init_int 0, Init_int 0, Init_int 0, Init_int 0, Init_int 0, Init_int 0, Init_int 0]"

definition gdt_cct_ClientInfo_init_default :: "c_init list" where
  [layout_defs]: "gdt_cct_ClientInfo_init_default =
     [Init_int 0, Init_int (gdt_cct_ClientInfo_ClientType_value gdt_cct_ClientInfo_ClientType_MIN),
      Init_int 0, Init_struct gdt_cct_IosClientInfo gdt_cct_IosClientInfo_init_default]"

definition gdt_cct_NetworkConnectionInfo_init_default :: "c_init list" where
  [layout_defs]: "gdt_cct_NetworkConnectionInfo_init_default =
     [Init_int 0,
      Init_int (gdt_cct_NetworkConnectionInfo_NetworkType_value gdt_cct_NetworkConnectionInfo_NetworkType_NONE),
      Init_int 0,
      Init_int (gdt_cct_NetworkConnectionInfo_MobileSubtype_value gdt_cct_NetworkConnectionInfo_MobileSubtype_UNKNOWN_MOBILE_SUBTYPE)]"

definition gdt_cct_LogEvent_init_default :: "c_init list" where
  [layout_defs]: "gdt_cct_LogEvent_init_default =
     [Init_int 0, Init_int 0, Init_int 0, Init_int 0, Init_int 0, Init_int 0, Init_int 0, Init_int 0,
      Init_int 0, Init_int 0,
      Init_struct gdt_cct_NetworkConnectionInfo gdt_cct_NetworkConnectionInfo_init_default]"

definition gdt_cct_LogRequest_init_default :: "c_init list" where
  [layout_defs]: "gdt_cct_LogRequest_init_default =
     [Init_int 0, Init_struct gdt_cct_ClientInfo gdt_cct_ClientInfo_init_default, Init_int 0,
      Init_int 0, Init_int 0, Init_int 0, Init_int 0, Init_int 0, Init_int 0, Init_int 0, Init_int 0,
      Init_int (gdt_cct_QosTierConfiguration_QosTier_value gdt_cct_QosTierConfiguration_QosTier_DEFAULT)]"

definition gdt_cct_BatchedLogRequest_init_default :: "c_init list" where
  [layout_defs]: "gdt_cct_BatchedLogRequest_init_default =
     [Init_int 0, Init_int 0]"

definition gdt_cct_QosTierConfiguration_init_default :: "c_init list" where
  [layout_defs]: "gdt_cct_QosTierConfiguration_init_default =
     [Init_int 0,
      Init_int (gdt_cct_QosTierConfiguration_QosTier_value gdt_cct_QosTierConfiguration_QosTier_MIN),
      Init_int 0, Init_int 0]"

definition gdt_cct_QosTiersOverride_init_default :: "c_init list" where
  [layout_defs]: "gdt_cct_QosTiersOverride_init_default =
     [Init_int 0, Init_int 0, Init_int 0, Init_int 0]"

definition gdt_cct_LogResponse_init_default :: "c_init list" where
  [layout_defs]: "gdt_cct_LogResponse_init_default =
     [Init_int 0, Init_int 0, Init_int 0,
      Init_struct gdt_cct_QosTiersOverride gdt_cct_QosTiersOverride_init_default]"

definition gdt_cct_IosClientInfo_init_zero :: "c_init list" where
  [layout_defs]: "gdt_cct_IosClientInfo_init_zero =
     [Init_int 0, Init_int 0, Init_int 0, Init_int 0, Init_int 0, Init_int 0, Init_int 0]"

definition gdt_cct_ClientInfo_init_zero :: "c_init list" where
  [layout_defs]: "gdt_cct_ClientInfo_init_zero =
     [Init_int 0, Init_int (gdt_cct_ClientInfo_ClientType_value gdt_cct_ClientInfo_ClientType_MIN),
      Init_int 0, Init_struct gdt_cct_IosClientInfo gdt_cct_IosClientInfo_init_zero]"

definition gdt_cct_NetworkConnectionInfo_init_zero :: "c_init list" where
  [layout_defs]: "gdt_cct_NetworkConnectionInfo_init_zero =
     [Init_int 0,
      Init_int (gdt_cct_NetworkConnectionInfo_NetworkType_value gdt_cct_NetworkConnectionInfo_NetworkType_MIN),
      Init_int 0,
      Init_int (gdt_cct_NetworkConnectionInfo_MobileSubtype_value gdt_cct_NetworkConnectionInfo_MobileSubtype_MIN)]"

definition gdt_cct_LogEvent_init_zero :: "c_init list" where
  [layout_defs]: "gdt_cct_LogEvent_init_zero =
     [Init_int 0, Init_int 0, Init_int 0, Init_int 0, Init_int 0, Init_int 0, Init_int 0, Init_int 0,
      Init_int 0, Init_int 0,
      Init_struct gdt_cct_NetworkConnectionInfo gdt_cct_NetworkConnectionInfo_init_zero]"

definition gdt_cct_LogRequest_init_zero :: "c_init list" where
  [layout_defs]: "gdt_cct_LogRequest_init_zero =
     [Init_int 0, Init_struct gdt_cct_ClientInfo gdt_cct_ClientInfo_init_zero, Init_int 0, Init_int 0,
      Init_int 0, Init_int 0, Init_int 0, Init_int 0, Init_int 0, Init_int 0, Init_int 0,
      Init_int (gdt_cct_QosTierConfiguration_QosTier_value gdt_cct_QosTierConfiguration_QosTier_MIN)]"

definition gdt_cct_BatchedLogRequest_init_zero :: "c_init list" where
  [layout_defs]: "gdt_cct_BatchedLogRequest_init_zero =
     [Init_int 0, Init_int 0]"

definition gdt_cct_QosTierConfiguration_init_zero :: "c_init list" where
  [layout_defs]: "gdt_cct_QosTierConfiguration_init_zero =
     [Init_int 0,
      Init_int (gdt_cct_QosTierConfiguration_QosTier_value gdt_cct_QosTierConfiguration_QosTier_MIN),
      Init_int 0, Init_int 0]"

definition gdt_cct_QosTiersOverride_init_zero :: "c_init list" where
  [layout_defs]: "gdt_cct_QosTiersOverride_init_zero =
     [Init_int 0, Init_int 0, Init_int 0, Init_int 0]"

definition gdt_cct_LogResponse_init_zero :: "c_init list" where
  [layout_defs]: "gdt_cct_LogResponse_init_zero =
     [Init_int 0, Init_int 0, Init_int 0,
      Init_struct gdt_cct_QosTiersOverride gdt_cct_QosTiersOverride_init_zero]"

definition gdt_cct_NetworkConnectionInfo_size :: nat where [layout_defs]: "gdt_cct_NetworkConnectionInfo_size = 13"

definition gdt_cct_QosTierConfiguration_size :: nat where [layout_defs]: "gdt_cct_QosTierConfiguration_size = 13"

end
