(* ===== verification/PB_Layout_Eval.thy ===== *)
theory PB_Layout_Eval
  imports PB_Decode_Frame
begin

text \<open>
  Evaluation rules for generated descriptors: struct layouts, the descriptor macros, the offsets the
  iterator computes, default values and the \<open>decodable\<close> check, each as a bundle for \<open>simp\<close>.
\<close>

section \<open>Layouts and macros\<close>

lemmas member_defs = c_bool_def c_int32_def c_int64_def c_ptr_def c_sub_def
lemmas macro_defs = PB_FIELD_def PB_OPTIONAL_STATIC_def PB_OPTIONAL_POINTER_def PB_REPEATED_POINTER_def
  PB_DATAOFFSET_FIRST_def PB_DATAOFFSET_OTHER_def pb_delta_def pb_membersize_def pb_elemsize_def c_offsetof_def
lemmas type_defs = PB_ATYPE_STATIC_def PB_ATYPE_POINTER_def PB_HTYPE_OPTIONAL_def PB_HTYPE_REPEATED_def
  PB_LTYPE_BOOL_def PB_LTYPE_VARINT_def PB_LTYPE_UVARINT_def PB_LTYPE_SVARINT_def PB_LTYPE_BYTES_def
  PB_LTYPE_SUBMESSAGE_def

lemma size_Cons:
  "c_sizeof (c # cs) = align_up (struct_align (c # cs)) (end_from 0 (c # cs))"
  "struct_align (c # cs) = fold (\<lambda>c al. max (malign c) al) (c # cs) 1"
  by (simp_all add: c_sizeof_def struct_align_def)

lemma pb_bytes_array_t_layout: "c_sizeof pb_bytes_array_t = 8"
  by (simp add: pb_bytes_array_t_def member_defs c_sizeof_def struct_align_def align_up_def)

text \<open>One member at a time, so that each offset is computed once.\<close>

lemma layout_step:
  "align_up (malign c) off = o1 \<Longrightarrow> layout_from off (c # cs) = (mname c, o1, c) # layout_from (o1 + msize c) cs"
  by simp

section \<open>Offsets and default values\<close>

lemma memset_store: "memset m a 0 n = store n m a 0"
proof -
  have "le_bytes n 0 = replicate n 0" by (induction n) simp_all
  then show ?thesis by (simp add: memset_def store_def)
qed

lemma int32_default: "store_bytes m a (fill 4 (c_int32_bytes v)) = store 4 m a (nat (v mod 2 ^ 32))"
  by (simp add: c_int32_bytes_def store_def fill_def)

lemmas type_bits = PB_LTYPE_def PB_HTYPE_def PB_ATYPE_def PB_LTYPE_MASK_def PB_HTYPE_MASK_def PB_ATYPE_MASK_def
  PB_LTYPE_EXTENSION_def PB_HTYPE_ONEOF_def PB_HTYPE_REQUIRED_def type_defs

lemmas off_simps = prev_field_size_def type_bits Let_def

lemma field_off_numeral:
  "field_off fs (numeral k) =
     (let prev = field_at fs (pred_numeral k); f = field_at fs (numeral k); p = field_off fs (pred_numeral k) in
      if PB_HTYPE (ftype prev) = PB_HTYPE_ONEOF \<and> PB_HTYPE (ftype f) = PB_HTYPE_ONEOF \<and> data_offset f = PB_SIZE_MAX
      then p else let d = fst p + prev_field_size prev + data_offset f in (d, int d + size_offset f))"
  by (simp only: numeral_eq_Suc field_off.simps Let_def)


lemma nat_int_add: "nat (int a + numeral k) = a + numeral k"
  by (simp add: nat_add_distrib)

text \<open>One step at a time, so that the memory is computed once.\<close>

lemma each_field_step: "g it m = Some m1 \<Longrightarrow> each_field g (it # its) m = each_field g its m1"
  by simp

lemmas default_simps = each_field_step numeral_2_eq_2 [symmetric] pb_message_set_to_defaults_def pb_fields_walk_eq
  upt_rec cur_iter_at iter_at_off Let_def type_bits store_size_def int32_default memset_store nat_add_distrib
  nat_int_add

section \<open>Descriptors the decoder accepts\<close>

lemma decodable_Suc: "decodable (Suc d) fs \<longleftrightarrow> list_all (dec_field (decodable d)) fs"
  by simp

lemma dec_field_eq:
  "dec_field sub (Pb_field t ty a b c d p) \<longleftrightarrow>
     (PB_ATYPE ty = PB_ATYPE_STATIC \<or> PB_ATYPE ty = PB_ATYPE_POINTER \<and> 0 < c) \<and>
     PB_LTYPE ty \<le> PB_LTYPE_FIXED_LENGTH_BYTES \<and> PB_LTYPE ty \<noteq> PB_LTYPE_EXTENSION \<and>
     (case p of Submsg_fields fs \<Rightarrow> PB_LTYPE ty = PB_LTYPE_SUBMESSAGE \<and> sub fs
      | _ \<Rightarrow> PB_LTYPE ty \<noteq> PB_LTYPE_SUBMESSAGE)"
  by (cases p) (auto simp: dec_field_def Let_def layout_defs)

lemmas decodable_simps = dec_field_eq type_bits PB_LTYPE_FIXED_LENGTH_BYTES_def

lemma decodable_mono: "decodable d fs \<Longrightarrow> d \<le> e \<Longrightarrow> decodable e fs"
proof (induction d arbitrary: fs e)
  case (Suc d)
  then obtain e' where e: "e = Suc e'" "d \<le> e'" by (cases e) auto
  have "dec_field (decodable d) f \<Longrightarrow> dec_field (decodable e') f" for f
    using Suc.IH e(2) by (auto simp: dec_field_def Let_def split: pb_field_ptr.splits)
  with Suc.prems show ?case by (simp add: e(1) list_all_iff)
qed simp

end
