(* ===== verification/CCT_Spec.thy ===== *)
theory CCT_Spec
  imports CCT_Messages PB_Layout_Eval
begin

text \<open>
  The descriptors generated for the Clearcut protocol fit the structs generated for it, and what the
  decoder guarantees for them: evaluation of every layout and descriptor array, the offsets, the default
  values, and decoding.
\<close>

lemmas enum_mins = gdt_cct_QosTierConfiguration_QosTier_MIN_def gdt_cct_ClientInfo_ClientType_MIN_def

section \<open>Layouts and descriptors\<close>

lemma gdt_cct_IosClientInfo_layout:
  "layout_from 0 gdt_cct_IosClientInfo =
     [(''os_major_version'', 0, \<lparr>mname = ''os_major_version'', msize = 8, malign = 8, melem = 8\<rparr>),
      (''os_full_version'', 8, \<lparr>mname = ''os_full_version'', msize = 8, malign = 8, melem = 8\<rparr>),
      (''application_build'', 16, \<lparr>mname = ''application_build'', msize = 8, malign = 8, melem = 8\<rparr>),
      (''country'', 24, \<lparr>mname = ''country'', msize = 8, malign = 8, melem = 8\<rparr>),
      (''model'', 32, \<lparr>mname = ''model'', msize = 8, malign = 8, melem = 8\<rparr>),
      (''language_code'', 40, \<lparr>mname = ''language_code'', msize = 8, malign = 8, melem = 8\<rparr>),
      (''application_bundle_id'', 48, \<lparr>mname = ''application_bundle_id'', msize = 8, malign = 8, melem = 8\<rparr>)]"
  "c_sizeof gdt_cct_IosClientInfo = 56" "struct_align gdt_cct_IosClientInfo = 8"
  by (simp_all add: gdt_cct_IosClientInfo_def size_Cons layout_step member_defs align_up_def pb_bytes_array_t_layout del: layout_from.simps(2))

lemma gdt_cct_ClientInfo_layout:
  "layout_from 0 gdt_cct_ClientInfo =
     [(''has_client_type'', 0, \<lparr>mname = ''has_client_type'', msize = 1, malign = 1, melem = 1\<rparr>),
      (''client_type'', 4, \<lparr>mname = ''client_type'', msize = 4, malign = 4, melem = 4\<rparr>),
      (''has_ios_client_info'', 8, \<lparr>mname = ''has_ios_client_info'', msize = 1, malign = 1, melem = 1\<rparr>),
      (''ios_client_info'', 16, \<lparr>mname = ''ios_client_info'', msize = 56, malign = 8, melem = 56\<rparr>)]"
  "c_sizeof gdt_cct_ClientInfo = 72" "struct_align gdt_cct_ClientInfo = 8"
  by (simp_all add: gdt_cct_ClientInfo_def size_Cons layout_step member_defs align_up_def gdt_cct_IosClientInfo_layout del: layout_from.simps(2))

lemma gdt_cct_NetworkConnectionInfo_layout:
  "layout_from 0 gdt_cct_NetworkConnectionInfo =
     [(''has_network_type'', 0, \<lparr>mname = ''has_network_type'', msize = 1, malign = 1, melem = 1\<rparr>),
      (''network_type'', 4, \<lparr>mname = ''network_type'', msize = 4, malign = 4, melem = 4\<rparr>),
      (''has_mobile_subtype'', 8, \<lparr>mname = ''has_mobile_subtype'', msize = 1, malign = 1, melem = 1\<rparr>),
      (''mobile_subtype'', 12, \<lparr>mname = ''mobile_subtype'', msize = 4, malign = 4, melem = 4\<rparr>)]"
  "c_sizeof gdt_cct_NetworkConnectionInfo = 16" "struct_align gdt_cct_NetworkConnectionInfo = 4"
  by (simp_all add: gdt_cct_NetworkConnectionInfo_def size_Cons layout_step member_defs align_up_def del: layout_from.simps(2))

lemma gdt_cct_LogEvent_layout:
  "layout_from 0 gdt_cct_LogEvent =
     [(''has_event_time_ms'', 0, \<lparr>mname = ''has_event_time_ms'', msize = 1, malign = 1, melem = 1\<rparr>),
      (''event_time_ms'', 8, \<lparr>mname = ''event_time_ms'', msize = 8, malign = 8, melem = 8\<rparr>),
      (''source_extension'', 16, \<lparr>mname = ''source_extension'', msize = 8, malign = 8, melem = 8\<rparr>),
      (''has_event_code'', 24, \<lparr>mname = ''has_event_code'', msize = 1, malign = 1, melem = 1\<rparr>),
      (''event_code'', 28, \<lparr>mname = ''event_code'', msize = 4, malign = 4, melem = 4\<rparr>),
      (''has_timezone_offset_seconds'', 32, \<lparr>mname = ''has_timezone_offset_seconds'', msize = 1, malign = 1, melem = 1\<rparr>),
      (''timezone_offset_seconds'', 40, \<lparr>mname = ''timezone_offset_seconds'', msize = 8, malign = 8, melem = 8\<rparr>),
      (''has_event_uptime_ms'', 48, \<lparr>mname = ''has_event_uptime_ms'', msize = 1, malign = 1, melem = 1\<rparr>),
      (''event_uptime_ms'', 56, \<lparr>mname = ''event_uptime_ms'', msize = 8, malign = 8, melem = 8\<rparr>),
      (''has_network_connection_info'', 64, \<lparr>mname = ''has_network_connection_info'', msize = 1, malign = 1, melem = 1\<rparr>),
      (''network_connection_info'', 68, \<lparr>mname = ''network_connection_info'', msize = 16, malign = 4, melem = 16\<rparr>)]"
  "c_sizeof gdt_cct_LogEvent = 88" "struct_align gdt_cct_LogEvent = 8"
  by (simp_all add: gdt_cct_LogEvent_def size_Cons layout_step member_defs align_up_def gdt_cct_NetworkConnectionInfo_layout pb_bytes_array_t_layout del: layout_from.simps(2))

lemma gdt_cct_LogRequest_layout:
  "layout_from 0 gdt_cct_LogRequest =
     [(''has_client_info'', 0, \<lparr>mname = ''has_client_info'', msize = 1, malign = 1, melem = 1\<rparr>),
      (''client_info'', 8, \<lparr>mname = ''client_info'', msize = 72, malign = 8, melem = 72\<rparr>),
      (''has_log_source'', 80, \<lparr>mname = ''has_log_source'', msize = 1, malign = 1, melem = 1\<rparr>),
      (''log_source'', 84, \<lparr>mname = ''log_source'', msize = 4, malign = 4, melem = 4\<rparr>),
      (''log_event_count'', 88, \<lparr>mname = ''log_event_count'', msize = 4, malign = 4, melem = 4\<rparr>),
      (''log_event'', 96, \<lparr>mname = ''log_event'', msize = 8, malign = 8, melem = 88\<rparr>),
      (''has_request_time_ms'', 104, \<lparr>mname = ''has_request_time_ms'', msize = 1, malign = 1, melem = 1\<rparr>),
      (''request_time_ms'', 112, \<lparr>mname = ''request_time_ms'', msize = 8, malign = 8, melem = 8\<rparr>),
      (''has_request_uptime_ms'', 120, \<lparr>mname = ''has_request_uptime_ms'', msize = 1, malign = 1, melem = 1\<rparr>),
      (''request_uptime_ms'', 128, \<lparr>mname = ''request_uptime_ms'', msize = 8, malign = 8, melem = 8\<rparr>),
      (''has_qos_tier'', 136, \<lparr>mname = ''has_qos_tier'', msize = 1, malign = 1, melem = 1\<rparr>),
      (''qos_tier'', 140, \<lparr>mname = ''qos_tier'', msize = 4, malign = 4, melem = 4\<rparr>)]"
  "c_sizeof gdt_cct_LogRequest = 144" "struct_align gdt_cct_LogRequest = 8"
  by (simp_all add: gdt_cct_LogRequest_def size_Cons layout_step member_defs align_up_def gdt_cct_ClientInfo_layout gdt_cct_LogEvent_layout del: layout_from.simps(2))

lemma gdt_cct_BatchedLogRequest_layout:
  "layout_from 0 gdt_cct_BatchedLogRequest =
     [(''log_request_count'', 0, \<lparr>mname = ''log_request_count'', msize = 4, malign = 4, melem = 4\<rparr>),
      (''log_request'', 8, \<lparr>mname = ''log_request'', msize = 8, malign = 8, melem = 144\<rparr>)]"
  "c_sizeof gdt_cct_BatchedLogRequest = 16" "struct_align gdt_cct_BatchedLogRequest = 8"
  by (simp_all add: gdt_cct_BatchedLogRequest_def size_Cons layout_step member_defs align_up_def gdt_cct_LogRequest_layout del: layout_from.simps(2))

lemma gdt_cct_QosTierConfiguration_layout:
  "layout_from 0 gdt_cct_QosTierConfiguration =
     [(''has_qos_tier'', 0, \<lparr>mname = ''has_qos_tier'', msize = 1, malign = 1, melem = 1\<rparr>),
      (''qos_tier'', 4, \<lparr>mname = ''qos_tier'', msize = 4, malign = 4, melem = 4\<rparr>),
      (''has_log_source'', 8, \<lparr>mname = ''has_log_source'', msize = 1, malign = 1, melem = 1\<rparr>),
      (''log_source'', 12, \<lparr>mname = ''log_source'', msize = 4, malign = 4, melem = 4\<rparr>)]"
  "c_sizeof gdt_cct_QosTierConfiguration = 16" "struct_align gdt_cct_QosTierConfiguration = 4"
  by (simp_all add: gdt_cct_QosTierConfiguration_def size_Cons layout_step member_defs align_up_def del: layout_from.simps(2))

lemma gdt_cct_QosTiersOverride_layout:
  "layout_from 0 gdt_cct_QosTiersOverride =
     [(''qos_tier_configuration_count'', 0, \<lparr>mname = ''qos_tier_configuration_count'', msize = 4, malign = 4, melem = 4\<rparr>),
      (''qos_tier_configuration'', 8, \<lparr>mname = ''qos_tier_configuration'', msize = 8, malign = 8, melem = 16\<rparr>),
      (''has_qos_tier_fingerprint'', 16, \<lparr>mname = ''has_qos_tier_fingerprint'', msize = 1, malign = 1, melem = 1\<rparr>),
      (''qos_tier_fingerprint'', 24, \<lparr>mname = ''qos_tier_fingerprint'', msize = 8, malign = 8, melem = 8\<rparr>)]"
  "c_sizeof gdt_cct_QosTiersOverride = 32" "struct_align gdt_cct_QosTiersOverride = 8"
  by (simp_all add: gdt_cct_QosTiersOverride_def size_Cons layout_step member_defs align_up_def gdt_cct_QosTierConfiguration_layout del: layout_from.simps(2))

lemma gdt_cct_LogResponse_layout:
  "layout_from 0 gdt_cct_LogResponse =
     [(''has_next_request_wait_millis'', 0, \<lparr>mname = ''has_next_request_wait_millis'', msize = 1, malign = 1, melem = 1\<rparr>),
      (''next_request_wait_millis'', 8, \<lparr>mname = ''next_request_wait_millis'', msize = 8, malign = 8, melem = 8\<rparr>),
      (''has_qos_tier'', 16, \<lparr>mname = ''has_qos_tier'', msize = 1, malign = 1, melem = 1\<rparr>),
      (''qos_tier'', 24, \<lparr>mname = ''qos_tier'', msize = 32, malign = 8, melem = 32\<rparr>)]"
  "c_sizeof gdt_cct_LogResponse = 56" "struct_align gdt_cct_LogResponse = 8"
  by (simp_all add: gdt_cct_LogResponse_def size_Cons layout_step member_defs align_up_def gdt_cct_QosTiersOverride_layout del: layout_from.simps(2))

lemma gdt_cct_NetworkConnectionInfo_members:
  "map_of (layout_from 0 gdt_cct_NetworkConnectionInfo) ''has_network_type'' = Some (0, \<lparr>mname = ''has_network_type'', msize = 1, malign = 1, melem = 1\<rparr>)"
  "map_of (layout_from 0 gdt_cct_NetworkConnectionInfo) ''network_type'' = Some (4, \<lparr>mname = ''network_type'', msize = 4, malign = 4, melem = 4\<rparr>)"
  "map_of (layout_from 0 gdt_cct_NetworkConnectionInfo) ''has_mobile_subtype'' = Some (8, \<lparr>mname = ''has_mobile_subtype'', msize = 1, malign = 1, melem = 1\<rparr>)"
  "map_of (layout_from 0 gdt_cct_NetworkConnectionInfo) ''mobile_subtype'' = Some (12, \<lparr>mname = ''mobile_subtype'', msize = 4, malign = 4, melem = 4\<rparr>)"
  by (simp_all add: gdt_cct_NetworkConnectionInfo_layout(1))

lemma gdt_cct_NetworkConnectionInfo_fields_eq:
  "gdt_cct_NetworkConnectionInfo_fields =
     [Pb_field 1 0x11 4 (- 4) 4 0 (Default_value (c_int32_bytes gdt_cct_NetworkConnectionInfo_network_type_default)),
      Pb_field 2 0x12 4 (- 4) 4 0 (Default_value (c_int32_bytes gdt_cct_NetworkConnectionInfo_mobile_subtype_default)),
      PB_LAST_FIELD]"
  by (simp add: gdt_cct_NetworkConnectionInfo_fields_def macro_defs gdt_cct_NetworkConnectionInfo_members type_defs)

lemma gdt_cct_LogEvent_members:
  "map_of (layout_from 0 gdt_cct_LogEvent) ''has_event_time_ms'' = Some (0, \<lparr>mname = ''has_event_time_ms'', msize = 1, malign = 1, melem = 1\<rparr>)"
  "map_of (layout_from 0 gdt_cct_LogEvent) ''event_time_ms'' = Some (8, \<lparr>mname = ''event_time_ms'', msize = 8, malign = 8, melem = 8\<rparr>)"
  "map_of (layout_from 0 gdt_cct_LogEvent) ''source_extension'' = Some (16, \<lparr>mname = ''source_extension'', msize = 8, malign = 8, melem = 8\<rparr>)"
  "map_of (layout_from 0 gdt_cct_LogEvent) ''has_event_code'' = Some (24, \<lparr>mname = ''has_event_code'', msize = 1, malign = 1, melem = 1\<rparr>)"
  "map_of (layout_from 0 gdt_cct_LogEvent) ''event_code'' = Some (28, \<lparr>mname = ''event_code'', msize = 4, malign = 4, melem = 4\<rparr>)"
  "map_of (layout_from 0 gdt_cct_LogEvent) ''has_timezone_offset_seconds'' = Some (32, \<lparr>mname = ''has_timezone_offset_seconds'', msize = 1, malign = 1, melem = 1\<rparr>)"
  "map_of (layout_from 0 gdt_cct_LogEvent) ''timezone_offset_seconds'' = Some (40, \<lparr>mname = ''timezone_offset_seconds'', msize = 8, malign = 8, melem = 8\<rparr>)"
  "map_of (layout_from 0 gdt_cct_LogEvent) ''has_event_uptime_ms'' = Some (48, \<lparr>mname = ''has_event_uptime_ms'', msize = 1, malign = 1, melem = 1\<rparr>)"
  "map_of (layout_from 0 gdt_cct_LogEvent) ''event_uptime_ms'' = Some (56, \<lparr>mname = ''event_uptime_ms'', msize = 8, malign = 8, melem = 8\<rparr>)"
  "map_of (layout_from 0 gdt_cct_LogEvent) ''has_network_connection_info'' = Some (64, \<lparr>mname = ''has_network_connection_info'', msize = 1, malign = 1, melem = 1\<rparr>)"
  "map_of (layout_from 0 gdt_cct_LogEvent) ''network_connection_info'' = Some (68, \<lparr>mname = ''network_connection_info'', msize = 16, malign = 4, melem = 16\<rparr>)"
  by (simp_all add: gdt_cct_LogEvent_layout(1))

lemma gdt_cct_LogEvent_fields_eq:
  "gdt_cct_LogEvent_fields =
     [Pb_field 1 0x11 8 (- 8) 8 0 Null_ptr,
      Pb_field 6 0x96 0 0 8 0 Null_ptr,
      Pb_field 11 0x11 4 (- 4) 4 0 Null_ptr,
      Pb_field 15 0x13 8 (- 8) 8 0 Null_ptr,
      Pb_field 17 0x11 8 (- 8) 8 0 Null_ptr,
      Pb_field 23 0x18 4 (- 4) 16 0 (Submsg_fields gdt_cct_NetworkConnectionInfo_fields),
      PB_LAST_FIELD]"
  by (simp add: gdt_cct_LogEvent_fields_def macro_defs gdt_cct_LogEvent_members type_defs)

lemma gdt_cct_IosClientInfo_members:
  "map_of (layout_from 0 gdt_cct_IosClientInfo) ''os_major_version'' = Some (0, \<lparr>mname = ''os_major_version'', msize = 8, malign = 8, melem = 8\<rparr>)"
  "map_of (layout_from 0 gdt_cct_IosClientInfo) ''os_full_version'' = Some (8, \<lparr>mname = ''os_full_version'', msize = 8, malign = 8, melem = 8\<rparr>)"
  "map_of (layout_from 0 gdt_cct_IosClientInfo) ''application_build'' = Some (16, \<lparr>mname = ''application_build'', msize = 8, malign = 8, melem = 8\<rparr>)"
  "map_of (layout_from 0 gdt_cct_IosClientInfo) ''country'' = Some (24, \<lparr>mname = ''country'', msize = 8, malign = 8, melem = 8\<rparr>)"
  "map_of (layout_from 0 gdt_cct_IosClientInfo) ''model'' = Some (32, \<lparr>mname = ''model'', msize = 8, malign = 8, melem = 8\<rparr>)"
  "map_of (layout_from 0 gdt_cct_IosClientInfo) ''language_code'' = Some (40, \<lparr>mname = ''language_code'', msize = 8, malign = 8, melem = 8\<rparr>)"
  "map_of (layout_from 0 gdt_cct_IosClientInfo) ''application_bundle_id'' = Some (48, \<lparr>mname = ''application_bundle_id'', msize = 8, malign = 8, melem = 8\<rparr>)"
  by (simp_all add: gdt_cct_IosClientInfo_layout(1))

lemma gdt_cct_IosClientInfo_fields_eq:
  "gdt_cct_IosClientInfo_fields =
     [Pb_field 3 0x96 0 0 8 0 Null_ptr,
      Pb_field 4 0x96 0 0 8 0 Null_ptr,
      Pb_field 5 0x96 0 0 8 0 Null_ptr,
      Pb_field 6 0x96 0 0 8 0 Null_ptr,
      Pb_field 7 0x96 0 0 8 0 Null_ptr,
      Pb_field 8 0x96 0 0 8 0 Null_ptr,
      Pb_field 11 0x96 0 0 8 0 Null_ptr,
      PB_LAST_FIELD]"
  by (simp add: gdt_cct_IosClientInfo_fields_def macro_defs gdt_cct_IosClientInfo_members type_defs)

lemma gdt_cct_ClientInfo_members:
  "map_of (layout_from 0 gdt_cct_ClientInfo) ''has_client_type'' = Some (0, \<lparr>mname = ''has_client_type'', msize = 1, malign = 1, melem = 1\<rparr>)"
  "map_of (layout_from 0 gdt_cct_ClientInfo) ''client_type'' = Some (4, \<lparr>mname = ''client_type'', msize = 4, malign = 4, melem = 4\<rparr>)"
  "map_of (layout_from 0 gdt_cct_ClientInfo) ''has_ios_client_info'' = Some (8, \<lparr>mname = ''has_ios_client_info'', msize = 1, malign = 1, melem = 1\<rparr>)"
  "map_of (layout_from 0 gdt_cct_ClientInfo) ''ios_client_info'' = Some (16, \<lparr>mname = ''ios_client_info'', msize = 56, malign = 8, melem = 56\<rparr>)"
  by (simp_all add: gdt_cct_ClientInfo_layout(1))

lemma gdt_cct_ClientInfo_fields_eq:
  "gdt_cct_ClientInfo_fields =
     [Pb_field 1 0x12 4 (- 4) 4 0 Null_ptr,
      Pb_field 4 0x18 8 (- 8) 56 0 (Submsg_fields gdt_cct_IosClientInfo_fields),
      PB_LAST_FIELD]"
  by (simp add: gdt_cct_ClientInfo_fields_def macro_defs gdt_cct_ClientInfo_members type_defs)

lemma gdt_cct_LogRequest_members:
  "map_of (layout_from 0 gdt_cct_LogRequest) ''has_client_info'' = Some (0, \<lparr>mname = ''has_client_info'', msize = 1, malign = 1, melem = 1\<rparr>)"
  "map_of (layout_from 0 gdt_cct_LogRequest) ''client_info'' = Some (8, \<lparr>mname = ''client_info'', msize = 72, malign = 8, melem = 72\<rparr>)"
  "map_of (layout_from 0 gdt_cct_LogRequest) ''has_log_source'' = Some (80, \<lparr>mname = ''has_log_source'', msize = 1, malign = 1, melem = 1\<rparr>)"
  "map_of (layout_from 0 gdt_cct_LogRequest) ''log_source'' = Some (84, \<lparr>mname = ''log_source'', msize = 4, malign = 4, melem = 4\<rparr>)"
  "map_of (layout_from 0 gdt_cct_LogRequest) ''log_event_count'' = Some (88, \<lparr>mname = ''log_event_count'', msize = 4, malign = 4, melem = 4\<rparr>)"
  "map_of (layout_from 0 gdt_cct_LogRequest) ''log_event'' = Some (96, \<lparr>mname = ''log_event'', msize = 8, malign = 8, melem = 88\<rparr>)"
  "map_of (layout_from 0 gdt_cct_LogRequest) ''has_request_time_ms'' = Some (104, \<lparr>mname = ''has_request_time_ms'', msize = 1, malign = 1, melem = 1\<rparr>)"
  "map_of (layout_from 0 gdt_cct_LogRequest) ''request_time_ms'' = Some (112, \<lparr>mname = ''request_time_ms'', msize = 8, malign = 8, melem = 8\<rparr>)"
  "map_of (layout_from 0 gdt_cct_LogRequest) ''has_request_uptime_ms'' = Some (120, \<lparr>mname = ''has_request_uptime_ms'', msize = 1, malign = 1, melem = 1\<rparr>)"
  "map_of (layout_from 0 gdt_cct_LogRequest) ''request_uptime_ms'' = Some (128, \<lparr>mname = ''request_uptime_ms'', msize = 8, malign = 8, melem = 8\<rparr>)"
  "map_of (layout_from 0 gdt_cct_LogRequest) ''has_qos_tier'' = Some (136, \<lparr>mname = ''has_qos_tier'', msize = 1, malign = 1, melem = 1\<rparr>)"
  "map_of (layout_from 0 gdt_cct_LogRequest) ''qos_tier'' = Some (140, \<lparr>mname = ''qos_tier'', msize = 4, malign = 4, melem = 4\<rparr>)"
  by (simp_all add: gdt_cct_LogRequest_layout(1))

lemma gdt_cct_LogRequest_fields_eq:
  "gdt_cct_LogRequest_fields =
     [Pb_field 1 0x18 8 (- 8) 72 0 (Submsg_fields gdt_cct_ClientInfo_fields),
      Pb_field 2 0x11 4 (- 4) 4 0 Null_ptr,
      Pb_field 3 0xA8 8 (- 8) 88 0 (Submsg_fields gdt_cct_LogEvent_fields),
      Pb_field 4 0x11 8 (- 8) 8 0 Null_ptr,
      Pb_field 8 0x11 8 (- 8) 8 0 Null_ptr,
      Pb_field 9 0x12 4 (- 4) 4 0 (Default_value (c_int32_bytes gdt_cct_LogRequest_qos_tier_default)),
      PB_LAST_FIELD]"
  by (simp add: gdt_cct_LogRequest_fields_def macro_defs gdt_cct_LogRequest_members type_defs)

lemma gdt_cct_BatchedLogRequest_members:
  "map_of (layout_from 0 gdt_cct_BatchedLogRequest) ''log_request_count'' = Some (0, \<lparr>mname = ''log_request_count'', msize = 4, malign = 4, melem = 4\<rparr>)"
  "map_of (layout_from 0 gdt_cct_BatchedLogRequest) ''log_request'' = Some (8, \<lparr>mname = ''log_request'', msize = 8, malign = 8, melem = 144\<rparr>)"
  by (simp_all add: gdt_cct_BatchedLogRequest_layout(1))

lemma gdt_cct_BatchedLogRequest_fields_eq:
  "gdt_cct_BatchedLogRequest_fields =
     [Pb_field 1 0xA8 8 (- 8) 144 0 (Submsg_fields gdt_cct_LogRequest_fields),
      PB_LAST_FIELD]"
  by (simp add: gdt_cct_BatchedLogRequest_fields_def macro_defs gdt_cct_BatchedLogRequest_members type_defs)

lemma gdt_cct_QosTierConfiguration_members:
  "map_of (layout_from 0 gdt_cct_QosTierConfiguration) ''has_qos_tier'' = Some (0, \<lparr>mname = ''has_qos_tier'', msize = 1, malign = 1, melem = 1\<rparr>)"
  "map_of (layout_from 0 gdt_cct_QosTierConfiguration) ''qos_tier'' = Some (4, \<lparr>mname = ''qos_tier'', msize = 4, malign = 4, melem = 4\<rparr>)"
  "map_of (layout_from 0 gdt_cct_QosTierConfiguration) ''has_log_source'' = Some (8, \<lparr>mname = ''has_log_source'', msize = 1, malign = 1, melem = 1\<rparr>)"
  "map_of (layout_from 0 gdt_cct_QosTierConfiguration) ''log_source'' = Some (12, \<lparr>mname = ''log_source'', msize = 4, malign = 4, melem = 4\<rparr>)"
  by (simp_all add: gdt_cct_QosTierConfiguration_layout(1))

lemma gdt_cct_QosTierConfiguration_fields_eq:
  "gdt_cct_QosTierConfiguration_fields =
     [Pb_field 2 0x12 4 (- 4) 4 0 Null_ptr,
      Pb_field 3 0x11 4 (- 4) 4 0 (Default_value (c_int32_bytes gdt_cct_QosTierConfiguration_log_source_default)),
      PB_LAST_FIELD]"
  by (simp add: gdt_cct_QosTierConfiguration_fields_def macro_defs gdt_cct_QosTierConfiguration_members type_defs)

lemma gdt_cct_QosTiersOverride_members:
  "map_of (layout_from 0 gdt_cct_QosTiersOverride) ''qos_tier_configuration_count'' = Some (0, \<lparr>mname = ''qos_tier_configuration_count'', msize = 4, malign = 4, melem = 4\<rparr>)"
  "map_of (layout_from 0 gdt_cct_QosTiersOverride) ''qos_tier_configuration'' = Some (8, \<lparr>mname = ''qos_tier_configuration'', msize = 8, malign = 8, melem = 16\<rparr>)"
  "map_of (layout_from 0 gdt_cct_QosTiersOverride) ''has_qos_tier_fingerprint'' = Some (16, \<lparr>mname = ''has_qos_tier_fingerprint'', msize = 1, malign = 1, melem = 1\<rparr>)"
  "map_of (layout_from 0 gdt_cct_QosTiersOverride) ''qos_tier_fingerprint'' = Some (24, \<lparr>mname = ''qos_tier_fingerprint'', msize = 8, malign = 8, melem = 8\<rparr>)"
  by (simp_all add: gdt_cct_QosTiersOverride_layout(1))

lemma gdt_cct_QosTiersOverride_fields_eq:
  "gdt_cct_QosTiersOverride_fields =
     [Pb_field 1 0xA8 8 (- 8) 16 0 (Submsg_fields gdt_cct_QosTierConfiguration_fields),
      Pb_field 2 0x11 8 (- 8) 8 0 Null_ptr,
      PB_LAST_FIELD]"
  by (simp add: gdt_cct_QosTiersOverride_fields_def macro_defs gdt_cct_QosTiersOverride_members type_defs)

lemma gdt_cct_LogResponse_members:
  "map_of (layout_from 0 gdt_cct_LogResponse) ''has_next_request_wait_millis'' = Some (0, \<lparr>mname = ''has_next_request_wait_millis'', msize = 1, malign = 1, melem = 1\<rparr>)"
  "map_of (layout_from 0 gdt_cct_LogResponse) ''next_request_wait_millis'' = Some (8, \<lparr>mname = ''next_request_wait_millis'', msize = 8, malign = 8, melem = 8\<rparr>)"
  "map_of (layout_from 0 gdt_cct_LogResponse) ''has_qos_tier'' = Some (16, \<lparr>mname = ''has_qos_tier'', msize = 1, malign = 1, melem = 1\<rparr>)"
  "map_of (layout_from 0 gdt_cct_LogResponse) ''qos_tier'' = Some (24, \<lparr>mname = ''qos_tier'', msize = 32, malign = 8, melem = 32\<rparr>)"
  by (simp_all add: gdt_cct_LogResponse_layout(1))

lemma gdt_cct_LogResponse_fields_eq:
  "gdt_cct_LogResponse_fields =
     [Pb_field 1 0x11 8 (- 8) 8 0 Null_ptr,
      Pb_field 3 0x18 8 (- 8) 32 0 (Submsg_fields gdt_cct_QosTiersOverride_fields),
      PB_LAST_FIELD]"
  by (simp add: gdt_cct_LogResponse_fields_def macro_defs gdt_cct_LogResponse_members type_defs)

section \<open>Where the iterator finds the members\<close>

lemma gdt_cct_NetworkConnectionInfo_at:
  "nfields gdt_cct_NetworkConnectionInfo_fields = 2"
  "field_at gdt_cct_NetworkConnectionInfo_fields 0 = Pb_field 1 0x11 4 (- 4) 4 0 (Default_value (c_int32_bytes gdt_cct_NetworkConnectionInfo_network_type_default))"
  "field_at gdt_cct_NetworkConnectionInfo_fields (Suc 0) = Pb_field 2 0x12 4 (- 4) 4 0 (Default_value (c_int32_bytes gdt_cct_NetworkConnectionInfo_mobile_subtype_default))"
  by (simp_all add: nfields_def field_at_def gdt_cct_NetworkConnectionInfo_fields_eq PB_LAST_FIELD_def)

lemma gdt_cct_NetworkConnectionInfo_off:
  "field_off gdt_cct_NetworkConnectionInfo_fields 0 = (4, 0)"
  "field_off gdt_cct_NetworkConnectionInfo_fields (Suc 0) = (12, 8)"
  by (simp_all add: field_off_numeral gdt_cct_NetworkConnectionInfo_at off_simps)

lemma gdt_cct_LogEvent_at:
  "nfields gdt_cct_LogEvent_fields = 6"
  "field_at gdt_cct_LogEvent_fields 0 = Pb_field 1 0x11 8 (- 8) 8 0 Null_ptr"
  "field_at gdt_cct_LogEvent_fields (Suc 0) = Pb_field 6 0x96 0 0 8 0 Null_ptr"
  "field_at gdt_cct_LogEvent_fields 2 = Pb_field 11 0x11 4 (- 4) 4 0 Null_ptr"
  "field_at gdt_cct_LogEvent_fields 3 = Pb_field 15 0x13 8 (- 8) 8 0 Null_ptr"
  "field_at gdt_cct_LogEvent_fields 4 = Pb_field 17 0x11 8 (- 8) 8 0 Null_ptr"
  "field_at gdt_cct_LogEvent_fields 5 = Pb_field 23 0x18 4 (- 4) 16 0 (Submsg_fields gdt_cct_NetworkConnectionInfo_fields)"
  by (simp_all add: nfields_def field_at_def gdt_cct_LogEvent_fields_eq PB_LAST_FIELD_def)

lemma gdt_cct_LogEvent_off:
  "field_off gdt_cct_LogEvent_fields 0 = (8, 0)"
  "field_off gdt_cct_LogEvent_fields (Suc 0) = (16, 16)"
  "field_off gdt_cct_LogEvent_fields 2 = (28, 24)"
  "field_off gdt_cct_LogEvent_fields 3 = (40, 32)"
  "field_off gdt_cct_LogEvent_fields 4 = (56, 48)"
  "field_off gdt_cct_LogEvent_fields 5 = (68, 64)"
  by (simp_all add: field_off_numeral gdt_cct_LogEvent_at off_simps)

lemma gdt_cct_IosClientInfo_at:
  "nfields gdt_cct_IosClientInfo_fields = 7"
  "field_at gdt_cct_IosClientInfo_fields 0 = Pb_field 3 0x96 0 0 8 0 Null_ptr"
  "field_at gdt_cct_IosClientInfo_fields (Suc 0) = Pb_field 4 0x96 0 0 8 0 Null_ptr"
  "field_at gdt_cct_IosClientInfo_fields 2 = Pb_field 5 0x96 0 0 8 0 Null_ptr"
  "field_at gdt_cct_IosClientInfo_fields 3 = Pb_field 6 0x96 0 0 8 0 Null_ptr"
  "field_at gdt_cct_IosClientInfo_fields 4 = Pb_field 7 0x96 0 0 8 0 Null_ptr"
  "field_at gdt_cct_IosClientInfo_fields 5 = Pb_field 8 0x96 0 0 8 0 Null_ptr"
  "field_at gdt_cct_IosClientInfo_fields 6 = Pb_field 11 0x96 0 0 8 0 Null_ptr"
  by (simp_all add: nfields_def field_at_def gdt_cct_IosClientInfo_fields_eq PB_LAST_FIELD_def)

lemma gdt_cct_IosClientInfo_off:
  "field_off gdt_cct_IosClientInfo_fields 0 = (0, 0)"
  "field_off gdt_cct_IosClientInfo_fields (Suc 0) = (8, 8)"
  "field_off gdt_cct_IosClientInfo_fields 2 = (16, 16)"
  "field_off gdt_cct_IosClientInfo_fields 3 = (24, 24)"
  "field_off gdt_cct_IosClientInfo_fields 4 = (32, 32)"
  "field_off gdt_cct_IosClientInfo_fields 5 = (40, 40)"
  "field_off gdt_cct_IosClientInfo_fields 6 = (48, 48)"
  by (simp_all add: field_off_numeral gdt_cct_IosClientInfo_at off_simps)

lemma gdt_cct_ClientInfo_at:
  "nfields gdt_cct_ClientInfo_fields = 2"
  "field_at gdt_cct_ClientInfo_fields 0 = Pb_field 1 0x12 4 (- 4) 4 0 Null_ptr"
  "field_at gdt_cct_ClientInfo_fields (Suc 0) = Pb_field 4 0x18 8 (- 8) 56 0 (Submsg_fields gdt_cct_IosClientInfo_fields)"
  by (simp_all add: nfields_def field_at_def gdt_cct_ClientInfo_fields_eq PB_LAST_FIELD_def)

lemma gdt_cct_ClientInfo_off:
  "field_off gdt_cct_ClientInfo_fields 0 = (4, 0)"
  "field_off gdt_cct_ClientInfo_fields (Suc 0) = (16, 8)"
  by (simp_all add: field_off_numeral gdt_cct_ClientInfo_at off_simps)

lemma gdt_cct_LogRequest_at:
  "nfields gdt_cct_LogRequest_fields = 6"
  "field_at gdt_cct_LogRequest_fields 0 = Pb_field 1 0x18 8 (- 8) 72 0 (Submsg_fields gdt_cct_ClientInfo_fields)"
  "field_at gdt_cct_LogRequest_fields (Suc 0) = Pb_field 2 0x11 4 (- 4) 4 0 Null_ptr"
  "field_at gdt_cct_LogRequest_fields 2 = Pb_field 3 0xA8 8 (- 8) 88 0 (Submsg_fields gdt_cct_LogEvent_fields)"
  "field_at gdt_cct_LogRequest_fields 3 = Pb_field 4 0x11 8 (- 8) 8 0 Null_ptr"
  "field_at gdt_cct_LogRequest_fields 4 = Pb_field 8 0x11 8 (- 8) 8 0 Null_ptr"
  "field_at gdt_cct_LogRequest_fields 5 = Pb_field 9 0x12 4 (- 4) 4 0 (Default_value (c_int32_bytes gdt_cct_LogRequest_qos_tier_default))"
  by (simp_all add: nfields_def field_at_def gdt_cct_LogRequest_fields_eq PB_LAST_FIELD_def)

lemma gdt_cct_LogRequest_off:
  "field_off gdt_cct_LogRequest_fields 0 = (8, 0)"
  "field_off gdt_cct_LogRequest_fields (Suc 0) = (84, 80)"
  "field_off gdt_cct_LogRequest_fields 2 = (96, 88)"
  "field_off gdt_cct_LogRequest_fields 3 = (112, 104)"
  "field_off gdt_cct_LogRequest_fields 4 = (128, 120)"
  "field_off gdt_cct_LogRequest_fields 5 = (140, 136)"
  by (simp_all add: field_off_numeral gdt_cct_LogRequest_at off_simps)

lemma gdt_cct_BatchedLogRequest_at:
  "nfields gdt_cct_BatchedLogRequest_fields = 1"
  "field_at gdt_cct_BatchedLogRequest_fields 0 = Pb_field 1 0xA8 8 (- 8) 144 0 (Submsg_fields gdt_cct_LogRequest_fields)"
  by (simp_all add: nfields_def field_at_def gdt_cct_BatchedLogRequest_fields_eq PB_LAST_FIELD_def)

lemma gdt_cct_BatchedLogRequest_off:
  "field_off gdt_cct_BatchedLogRequest_fields 0 = (8, 0)"
  by (simp_all add: field_off_numeral gdt_cct_BatchedLogRequest_at off_simps)

lemma gdt_cct_QosTierConfiguration_at:
  "nfields gdt_cct_QosTierConfiguration_fields = 2"
  "field_at gdt_cct_QosTierConfiguration_fields 0 = Pb_field 2 0x12 4 (- 4) 4 0 Null_ptr"
  "field_at gdt_cct_QosTierConfiguration_fields (Suc 0) = Pb_field 3 0x11 4 (- 4) 4 0 (Default_value (c_int32_bytes gdt_cct_QosTierConfiguration_log_source_default))"
  by (simp_all add: nfields_def field_at_def gdt_cct_QosTierConfiguration_fields_eq PB_LAST_FIELD_def)

lemma gdt_cct_QosTierConfiguration_off:
  "field_off gdt_cct_QosTierConfiguration_fields 0 = (4, 0)"
  "field_off gdt_cct_QosTierConfiguration_fields (Suc 0) = (12, 8)"
  by (simp_all add: field_off_numeral gdt_cct_QosTierConfiguration_at off_simps)

lemma gdt_cct_QosTiersOverride_at:
  "nfields gdt_cct_QosTiersOverride_fields = 2"
  "field_at gdt_cct_QosTiersOverride_fields 0 = Pb_field 1 0xA8 8 (- 8) 16 0 (Submsg_fields gdt_cct_QosTierConfiguration_fields)"
  "field_at gdt_cct_QosTiersOverride_fields (Suc 0) = Pb_field 2 0x11 8 (- 8) 8 0 Null_ptr"
  by (simp_all add: nfields_def field_at_def gdt_cct_QosTiersOverride_fields_eq PB_LAST_FIELD_def)

lemma gdt_cct_QosTiersOverride_off:
  "field_off gdt_cct_QosTiersOverride_fields 0 = (8, 0)"
  "field_off gdt_cct_QosTiersOverride_fields (Suc 0) = (24, 16)"
  by (simp_all add: field_off_numeral gdt_cct_QosTiersOverride_at off_simps)

lemma gdt_cct_LogResponse_at:
  "nfields gdt_cct_LogResponse_fields = 2"
  "field_at gdt_cct_LogResponse_fields 0 = Pb_field 1 0x11 8 (- 8) 8 0 Null_ptr"
  "field_at gdt_cct_LogResponse_fields (Suc 0) = Pb_field 3 0x18 8 (- 8) 32 0 (Submsg_fields gdt_cct_QosTiersOverride_fields)"
  by (simp_all add: nfields_def field_at_def gdt_cct_LogResponse_fields_eq PB_LAST_FIELD_def)

lemma gdt_cct_LogResponse_off:
  "field_off gdt_cct_LogResponse_fields 0 = (8, 0)"
  "field_off gdt_cct_LogResponse_fields (Suc 0) = (24, 16)"
  by (simp_all add: field_off_numeral gdt_cct_LogResponse_at off_simps)

lemma gdt_cct_NetworkConnectionInfo_offsets:
  "map pData (pb_fields_walk gdt_cct_NetworkConnectionInfo_fields dest) =
     map (\<lambda>x. dest + c_offsetof gdt_cct_NetworkConnectionInfo x)
       [''network_type'', ''mobile_subtype'']"
  by (simp add: gdt_cct_NetworkConnectionInfo_at gdt_cct_NetworkConnectionInfo_off gdt_cct_NetworkConnectionInfo_members c_offsetof_def default_simps del: iter_at.simps field_off.simps)

lemma gdt_cct_LogEvent_offsets:
  "map pData (pb_fields_walk gdt_cct_LogEvent_fields dest) =
     map (\<lambda>x. dest + c_offsetof gdt_cct_LogEvent x)
       [''event_time_ms'', ''source_extension'', ''event_code'', ''timezone_offset_seconds'', ''event_uptime_ms'', ''network_connection_info'']"
  by (simp add: gdt_cct_LogEvent_at gdt_cct_LogEvent_off gdt_cct_LogEvent_members c_offsetof_def default_simps del: iter_at.simps field_off.simps)

lemma gdt_cct_IosClientInfo_offsets:
  "map pData (pb_fields_walk gdt_cct_IosClientInfo_fields dest) =
     map (\<lambda>x. dest + c_offsetof gdt_cct_IosClientInfo x)
       [''os_major_version'', ''os_full_version'', ''application_build'', ''country'', ''model'', ''language_code'', ''application_bundle_id'']"
  by (simp add: gdt_cct_IosClientInfo_at gdt_cct_IosClientInfo_off gdt_cct_IosClientInfo_members c_offsetof_def default_simps del: iter_at.simps field_off.simps)

lemma gdt_cct_ClientInfo_offsets:
  "map pData (pb_fields_walk gdt_cct_ClientInfo_fields dest) =
     map (\<lambda>x. dest + c_offsetof gdt_cct_ClientInfo x)
       [''client_type'', ''ios_client_info'']"
  by (simp add: gdt_cct_ClientInfo_at gdt_cct_ClientInfo_off gdt_cct_ClientInfo_members c_offsetof_def default_simps del: iter_at.simps field_off.simps)

lemma gdt_cct_LogRequest_offsets:
  "map pData (pb_fields_walk gdt_cct_LogRequest_fields dest) =
     map (\<lambda>x. dest + c_offsetof gdt_cct_LogRequest x)
       [''client_info'', ''log_source'', ''log_event'', ''request_time_ms'', ''request_uptime_ms'', ''qos_tier'']"
  by (simp add: gdt_cct_LogRequest_at gdt_cct_LogRequest_off gdt_cct_LogRequest_members c_offsetof_def default_simps del: iter_at.simps field_off.simps)

lemma gdt_cct_BatchedLogRequest_offsets:
  "map pData (pb_fields_walk gdt_cct_BatchedLogRequest_fields dest) =
     map (\<lambda>x. dest + c_offsetof gdt_cct_BatchedLogRequest x)
       [''log_request'']"
  by (simp add: gdt_cct_BatchedLogRequest_at gdt_cct_BatchedLogRequest_off gdt_cct_BatchedLogRequest_members c_offsetof_def default_simps del: iter_at.simps field_off.simps)

lemma gdt_cct_QosTierConfiguration_offsets:
  "map pData (pb_fields_walk gdt_cct_QosTierConfiguration_fields dest) =
     map (\<lambda>x. dest + c_offsetof gdt_cct_QosTierConfiguration x)
       [''qos_tier'', ''log_source'']"
  by (simp add: gdt_cct_QosTierConfiguration_at gdt_cct_QosTierConfiguration_off gdt_cct_QosTierConfiguration_members c_offsetof_def default_simps del: iter_at.simps field_off.simps)

lemma gdt_cct_QosTiersOverride_offsets:
  "map pData (pb_fields_walk gdt_cct_QosTiersOverride_fields dest) =
     map (\<lambda>x. dest + c_offsetof gdt_cct_QosTiersOverride x)
       [''qos_tier_configuration'', ''qos_tier_fingerprint'']"
  by (simp add: gdt_cct_QosTiersOverride_at gdt_cct_QosTiersOverride_off gdt_cct_QosTiersOverride_members c_offsetof_def default_simps del: iter_at.simps field_off.simps)

lemma gdt_cct_LogResponse_offsets:
  "map pData (pb_fields_walk gdt_cct_LogResponse_fields dest) =
     map (\<lambda>x. dest + c_offsetof gdt_cct_LogResponse x)
       [''next_request_wait_millis'', ''qos_tier'']"
  by (simp add: gdt_cct_LogResponse_at gdt_cct_LogResponse_off gdt_cct_LogResponse_members c_offsetof_def default_simps del: iter_at.simps field_off.simps)

section \<open>Default values\<close>

lemma gdt_cct_NetworkConnectionInfo_defaults:
  "\<exists>m'. pb_message_set_to_defaults (Suc e) env gdt_cct_NetworkConnectionInfo_fields dest m = Some m' \<and>
     struct_holds m' dest gdt_cct_NetworkConnectionInfo gdt_cct_NetworkConnectionInfo_init_default"
  by (simp add: gdt_cct_NetworkConnectionInfo_at gdt_cct_NetworkConnectionInfo_off default_simps
      del: each_field.simps(2) iter_at.simps field_off.simps)
    (simp add: struct_holds_def enum_mins gdt_cct_NetworkConnectionInfo_layout gdt_cct_NetworkConnectionInfo_init_default_def
      gdt_cct_NetworkConnectionInfo_network_type_default_def
      gdt_cct_NetworkConnectionInfo_mobile_subtype_default_def mem_simps)

lemma gdt_cct_LogEvent_defaults:
  "\<exists>m'. pb_message_set_to_defaults (Suc (Suc e)) env gdt_cct_LogEvent_fields dest m = Some m' \<and>
     struct_holds m' dest gdt_cct_LogEvent gdt_cct_LogEvent_init_default"
  by (simp add: gdt_cct_LogEvent_at gdt_cct_LogEvent_off
      gdt_cct_NetworkConnectionInfo_at gdt_cct_NetworkConnectionInfo_off default_simps
      del: each_field.simps(2) iter_at.simps field_off.simps)
    (simp add: struct_holds_def enum_mins gdt_cct_LogEvent_layout gdt_cct_LogEvent_init_default_def
      gdt_cct_NetworkConnectionInfo_layout gdt_cct_NetworkConnectionInfo_init_default_def
      gdt_cct_NetworkConnectionInfo_network_type_default_def
      gdt_cct_NetworkConnectionInfo_mobile_subtype_default_def mem_simps)

lemma gdt_cct_IosClientInfo_defaults:
  "\<exists>m'. pb_message_set_to_defaults (Suc e) env gdt_cct_IosClientInfo_fields dest m = Some m' \<and>
     struct_holds m' dest gdt_cct_IosClientInfo gdt_cct_IosClientInfo_init_default"
  by (simp add: gdt_cct_IosClientInfo_at gdt_cct_IosClientInfo_off default_simps
      del: each_field.simps(2) iter_at.simps field_off.simps)
    (simp add: struct_holds_def enum_mins gdt_cct_IosClientInfo_layout gdt_cct_IosClientInfo_init_default_def mem_simps)

lemma gdt_cct_ClientInfo_defaults:
  "\<exists>m'. pb_message_set_to_defaults (Suc (Suc e)) env gdt_cct_ClientInfo_fields dest m = Some m' \<and>
     struct_holds m' dest gdt_cct_ClientInfo gdt_cct_ClientInfo_init_default"
  by (simp add: gdt_cct_ClientInfo_at gdt_cct_ClientInfo_off
      gdt_cct_IosClientInfo_at gdt_cct_IosClientInfo_off default_simps
      del: each_field.simps(2) iter_at.simps field_off.simps)
    (simp add: struct_holds_def enum_mins gdt_cct_ClientInfo_layout gdt_cct_ClientInfo_init_default_def
      gdt_cct_IosClientInfo_layout gdt_cct_IosClientInfo_init_default_def mem_simps)

lemma gdt_cct_LogRequest_defaults:
  "\<exists>m'. pb_message_set_to_defaults (Suc (Suc (Suc e))) env gdt_cct_LogRequest_fields dest m = Some m' \<and>
     struct_holds m' dest gdt_cct_LogRequest gdt_cct_LogRequest_init_default"
  by (simp add: gdt_cct_LogRequest_at gdt_cct_LogRequest_off
      gdt_cct_ClientInfo_at gdt_cct_ClientInfo_off
      gdt_cct_IosClientInfo_at gdt_cct_IosClientInfo_off default_simps
      del: each_field.simps(2) iter_at.simps field_off.simps)
    (simp add: struct_holds_def enum_mins gdt_cct_LogRequest_layout gdt_cct_LogRequest_init_default_def
      gdt_cct_LogRequest_qos_tier_default_def
      gdt_cct_ClientInfo_layout gdt_cct_ClientInfo_init_default_def
      gdt_cct_IosClientInfo_layout gdt_cct_IosClientInfo_init_default_def mem_simps)

lemma gdt_cct_BatchedLogRequest_defaults:
  "\<exists>m'. pb_message_set_to_defaults (Suc e) env gdt_cct_BatchedLogRequest_fields dest m = Some m' \<and>
     struct_holds m' dest gdt_cct_BatchedLogRequest gdt_cct_BatchedLogRequest_init_default"
  by (simp add: gdt_cct_BatchedLogRequest_at gdt_cct_BatchedLogRequest_off default_simps
      del: each_field.simps(2) iter_at.simps field_off.simps)
    (simp add: struct_holds_def enum_mins gdt_cct_BatchedLogRequest_layout gdt_cct_BatchedLogRequest_init_default_def mem_simps)

lemma gdt_cct_QosTierConfiguration_defaults:
  "\<exists>m'. pb_message_set_to_defaults (Suc e) env gdt_cct_QosTierConfiguration_fields dest m = Some m' \<and>
     struct_holds m' dest gdt_cct_QosTierConfiguration gdt_cct_QosTierConfiguration_init_default"
  by (simp add: gdt_cct_QosTierConfiguration_at gdt_cct_QosTierConfiguration_off default_simps
      del: each_field.simps(2) iter_at.simps field_off.simps)
    (simp add: struct_holds_def enum_mins gdt_cct_QosTierConfiguration_layout gdt_cct_QosTierConfiguration_init_default_def
      gdt_cct_QosTierConfiguration_log_source_default_def mem_simps)

lemma gdt_cct_QosTiersOverride_defaults:
  "\<exists>m'. pb_message_set_to_defaults (Suc e) env gdt_cct_QosTiersOverride_fields dest m = Some m' \<and>
     struct_holds m' dest gdt_cct_QosTiersOverride gdt_cct_QosTiersOverride_init_default"
  by (simp add: gdt_cct_QosTiersOverride_at gdt_cct_QosTiersOverride_off default_simps
      del: each_field.simps(2) iter_at.simps field_off.simps)
    (simp add: struct_holds_def enum_mins gdt_cct_QosTiersOverride_layout gdt_cct_QosTiersOverride_init_default_def mem_simps)

lemma gdt_cct_LogResponse_defaults:
  "\<exists>m'. pb_message_set_to_defaults (Suc (Suc e)) env gdt_cct_LogResponse_fields dest m = Some m' \<and>
     struct_holds m' dest gdt_cct_LogResponse gdt_cct_LogResponse_init_default"
  by (simp add: gdt_cct_LogResponse_at gdt_cct_LogResponse_off
      gdt_cct_QosTiersOverride_at gdt_cct_QosTiersOverride_off default_simps
      del: each_field.simps(2) iter_at.simps field_off.simps)
    (simp add: struct_holds_def enum_mins gdt_cct_LogResponse_layout gdt_cct_LogResponse_init_default_def
      gdt_cct_QosTiersOverride_layout gdt_cct_QosTiersOverride_init_default_def mem_simps)

section \<open>Decodable descriptors\<close>

lemma gdt_cct_NetworkConnectionInfo_decodable: "decodable (Suc d) gdt_cct_NetworkConnectionInfo_fields"
  unfolding decodable_Suc [of d] gdt_cct_NetworkConnectionInfo_fields_eq
  by (simp add: decodable_simps del: decodable.simps)

lemma gdt_cct_LogEvent_decodable: "decodable (Suc (Suc d)) gdt_cct_LogEvent_fields"
  unfolding decodable_Suc [of "Suc d"] gdt_cct_LogEvent_fields_eq
  by (simp add: gdt_cct_NetworkConnectionInfo_decodable decodable_simps del: decodable.simps)

lemma gdt_cct_IosClientInfo_decodable: "decodable (Suc d) gdt_cct_IosClientInfo_fields"
  unfolding decodable_Suc [of d] gdt_cct_IosClientInfo_fields_eq
  by (simp add: decodable_simps del: decodable.simps)

lemma gdt_cct_ClientInfo_decodable: "decodable (Suc (Suc d)) gdt_cct_ClientInfo_fields"
  unfolding decodable_Suc [of "Suc d"] gdt_cct_ClientInfo_fields_eq
  by (simp add: gdt_cct_IosClientInfo_decodable decodable_simps del: decodable.simps)

lemma gdt_cct_LogRequest_decodable: "decodable (Suc (Suc (Suc d))) gdt_cct_LogRequest_fields"
  unfolding decodable_Suc [of "Suc (Suc d)"] gdt_cct_LogRequest_fields_eq
  by (simp add: gdt_cct_ClientInfo_decodable gdt_cct_LogEvent_decodable decodable_simps del: decodable.simps)

lemma gdt_cct_BatchedLogRequest_decodable: "decodable (Suc (Suc (Suc (Suc d)))) gdt_cct_BatchedLogRequest_fields"
  unfolding decodable_Suc [of "Suc (Suc (Suc d))"] gdt_cct_BatchedLogRequest_fields_eq
  by (simp add: gdt_cct_LogRequest_decodable decodable_simps del: decodable.simps)

lemma gdt_cct_QosTierConfiguration_decodable: "decodable (Suc d) gdt_cct_QosTierConfiguration_fields"
  unfolding decodable_Suc [of d] gdt_cct_QosTierConfiguration_fields_eq
  by (simp add: decodable_simps del: decodable.simps)

lemma gdt_cct_QosTiersOverride_decodable: "decodable (Suc (Suc d)) gdt_cct_QosTiersOverride_fields"
  unfolding decodable_Suc [of "Suc d"] gdt_cct_QosTiersOverride_fields_eq
  by (simp add: gdt_cct_QosTierConfiguration_decodable decodable_simps del: decodable.simps)

lemma gdt_cct_LogResponse_decodable: "decodable (Suc (Suc (Suc d))) gdt_cct_LogResponse_fields"
  unfolding decodable_Suc [of "Suc (Suc d)"] gdt_cct_LogResponse_fields_eq
  by (simp add: gdt_cct_QosTiersOverride_decodable decodable_simps del: decodable.simps)

section \<open>Properties\<close>

text \<open>The messages of the protocol: descriptors, struct, initializer, and the members of the fields in order.\<close>

definition cct_messages :: "(pb_field list \<times> c_struct \<times> c_init list \<times> string list) list" where
  "cct_messages =
     [(gdt_cct_NetworkConnectionInfo_fields, gdt_cct_NetworkConnectionInfo, gdt_cct_NetworkConnectionInfo_init_default,
       [''network_type'', ''mobile_subtype'']),
      (gdt_cct_LogEvent_fields, gdt_cct_LogEvent, gdt_cct_LogEvent_init_default,
       [''event_time_ms'', ''source_extension'', ''event_code'', ''timezone_offset_seconds'', ''event_uptime_ms'', ''network_connection_info'']),
      (gdt_cct_IosClientInfo_fields, gdt_cct_IosClientInfo, gdt_cct_IosClientInfo_init_default,
       [''os_major_version'', ''os_full_version'', ''application_build'', ''country'', ''model'', ''language_code'', ''application_bundle_id'']),
      (gdt_cct_ClientInfo_fields, gdt_cct_ClientInfo, gdt_cct_ClientInfo_init_default,
       [''client_type'', ''ios_client_info'']),
      (gdt_cct_LogRequest_fields, gdt_cct_LogRequest, gdt_cct_LogRequest_init_default,
       [''client_info'', ''log_source'', ''log_event'', ''request_time_ms'', ''request_uptime_ms'', ''qos_tier'']),
      (gdt_cct_BatchedLogRequest_fields, gdt_cct_BatchedLogRequest, gdt_cct_BatchedLogRequest_init_default,
       [''log_request'']),
      (gdt_cct_QosTierConfiguration_fields, gdt_cct_QosTierConfiguration, gdt_cct_QosTierConfiguration_init_default,
       [''qos_tier'', ''log_source'']),
      (gdt_cct_QosTiersOverride_fields, gdt_cct_QosTiersOverride, gdt_cct_QosTiersOverride_init_default,
       [''qos_tier_configuration'', ''qos_tier_fingerprint'']),
      (gdt_cct_LogResponse_fields, gdt_cct_LogResponse, gdt_cct_LogResponse_init_default,
       [''next_request_wait_millis'', ''qos_tier''])]"

text \<open>
  The decoder is total on the Clearcut protocol: whatever bytes the server sends, decoding any message of
  the protocol returns, and it does not read past the input it was given.
\<close>

theorem cct_decode_returns:
  "list_all (\<lambda>(fs, _). \<exists>ok s' m'. pb_decode 5 env s fs dest m = Some (ok, s', m') \<and> adv s s') cct_messages"
proof -
  have "list_all (\<lambda>(fs, _). decodable 4 fs) cct_messages"
    by (simp add: cct_messages_def numeral_eq_Suc gdt_cct_NetworkConnectionInfo_decodable
      gdt_cct_LogEvent_decodable
      gdt_cct_IosClientInfo_decodable
      gdt_cct_ClientInfo_decodable
      gdt_cct_LogRequest_decodable
      gdt_cct_BatchedLogRequest_decodable
      gdt_cct_QosTierConfiguration_decodable
      gdt_cct_QosTiersOverride_decodable
      gdt_cct_LogResponse_decodable
      del: decodable.simps)
  moreover have "\<exists>ok s' m'. pb_decode 5 env s fs dest m = Some (ok, s', m') \<and> adv s s'" if "decodable 4 fs" for fs
    using pb_decode_advances [OF that, of 5 s env dest m] by (simp add: advances_def)
  ultimately show ?thesis by (auto elim!: list.pred_mono_strong)
qed

text \<open>
  C24. The descriptors describe the structs: for every message, the address of the data of each field, which
  the iterator computes by adding the sizes and paddings of the descriptors, is the address of the
  struct member of the field.
\<close>

theorem cct_descriptor_offsets:
  "list_all (\<lambda>(fs, st, _, ms). map pData (pb_fields_walk fs dest) = map (\<lambda>x. dest + c_offsetof st x) ms) cct_messages"
  unfolding cct_messages_def list.pred_inject prod.case
  by (intro conjI list.pred_inject(1)
      gdt_cct_NetworkConnectionInfo_offsets
      gdt_cct_LogEvent_offsets
      gdt_cct_IosClientInfo_offsets
      gdt_cct_ClientInfo_offsets
      gdt_cct_LogRequest_offsets
      gdt_cct_BatchedLogRequest_offsets
      gdt_cct_QosTierConfiguration_offsets
      gdt_cct_QosTiersOverride_offsets
      gdt_cct_LogResponse_offsets)

text \<open>
  C20. \<^verbatim>\<open>pb_message_set_to_defaults\<close> agrees with the generated initializers: from any memory it leaves every
  message struct with exactly the values of its \<^verbatim>\<open>_init_default\<close>.
\<close>

theorem cct_defaults_initializer:
  "list_all (\<lambda>(fs, st, ini, _). \<exists>m'. pb_message_set_to_defaults 3 env fs dest m = Some m' \<and>
     struct_holds m' dest st ini) cct_messages"
  unfolding cct_messages_def list.pred_inject prod.case numeral_3_eq_3
  by (intro conjI list.pred_inject(1)
      gdt_cct_NetworkConnectionInfo_defaults
      gdt_cct_LogEvent_defaults
      gdt_cct_IosClientInfo_defaults
      gdt_cct_ClientInfo_defaults
      gdt_cct_LogRequest_defaults
      gdt_cct_BatchedLogRequest_defaults
      gdt_cct_QosTierConfiguration_defaults
      gdt_cct_QosTiersOverride_defaults
      gdt_cct_LogResponse_defaults)

text \<open>
  The two messages without pointers are decoded in place: whatever the input, decoding one changes no byte
  outside the \<^verbatim>\<open>sizeof\<close> of its struct.
\<close>

theorem cct_static_decode_inside:
  "list_all (\<lambda>(fs, st). \<exists>ok s' m'. pb_decode 2 env s fs dest m = Some (ok, s', m') \<and>
       same_outside m m' dest (c_sizeof st))
     [(gdt_cct_NetworkConnectionInfo_fields, gdt_cct_NetworkConnectionInfo),
      (gdt_cct_QosTierConfiguration_fields, gdt_cct_QosTierConfiguration)]"
proof -
  note eval = static_field_def static_type_def data_extent_def value_size_def slot_extent_def type_bits
    PB_LTYPE_FIXED32_def PB_LTYPE_FIXED64_def
  have "contained 1 16 gdt_cct_NetworkConnectionInfo_fields"
    by (simp add: upt_rec gdt_cct_NetworkConnectionInfo_at gdt_cct_NetworkConnectionInfo_off eval del: field_off.simps)
  moreover have "contained 1 16 gdt_cct_QosTierConfiguration_fields"
    by (simp add: upt_rec gdt_cct_QosTierConfiguration_at gdt_cct_QosTierConfiguration_off eval del: field_off.simps)
  ultimately show ?thesis
    using gdt_cct_NetworkConnectionInfo_decodable [of 0] gdt_cct_QosTierConfiguration_decodable [of 0]
    by (auto simp: gdt_cct_NetworkConnectionInfo_layout gdt_cct_QosTierConfiguration_layout simp del: contained.simps decodable.simps
        intro!: pb_decode_writes_inside [where d = 1])
qed

end
