(* ===== verification/FirebaseCore_Spec.thy ===== *)
theory FirebaseCore_Spec
  imports FirebaseCore_Messages PB_Layout_Eval
begin

text \<open>
  The descriptors generated for the diagnostics message fit its struct, and what the decoder guarantees for
  them.
\<close>

lemmas icore_enum_mins = logs_proto_mobilesdk_ios_ICoreConfiguration_ConfigurationType_MIN_def
  logs_proto_mobilesdk_ios_ICoreConfiguration_PodName_MIN_def
  logs_proto_mobilesdk_ios_ICoreConfiguration_ServiceType_MIN_def
  logs_proto_mobilesdk_ios_ICoreConfiguration_DeploymentType_MIN_def

section \<open>Layouts and descriptors\<close>

lemma logs_proto_mobilesdk_ios_ICoreConfiguration_layout:
  "layout_from 0 logs_proto_mobilesdk_ios_ICoreConfiguration =
     [(''has_configuration_type'', 0, \<lparr>mname = ''has_configuration_type'', msize = 1, malign = 1, melem = 1\<rparr>),
      (''configuration_type'', 4, \<lparr>mname = ''configuration_type'', msize = 4, malign = 4, melem = 4\<rparr>),
      (''sdk_service_installed_count'', 8, \<lparr>mname = ''sdk_service_installed_count'', msize = 4, malign = 4, melem = 4\<rparr>),
      (''sdk_service_installed'', 16, \<lparr>mname = ''sdk_service_installed'', msize = 8, malign = 8, melem = 4\<rparr>),
      (''device_model'', 24, \<lparr>mname = ''device_model'', msize = 8, malign = 8, melem = 8\<rparr>),
      (''app_id'', 32, \<lparr>mname = ''app_id'', msize = 8, malign = 8, melem = 8\<rparr>),
      (''bundle_id'', 40, \<lparr>mname = ''bundle_id'', msize = 8, malign = 8, melem = 8\<rparr>),
      (''has_pod_name'', 48, \<lparr>mname = ''has_pod_name'', msize = 1, malign = 1, melem = 1\<rparr>),
      (''pod_name'', 52, \<lparr>mname = ''pod_name'', msize = 4, malign = 4, melem = 4\<rparr>),
      (''icore_version'', 56, \<lparr>mname = ''icore_version'', msize = 8, malign = 8, melem = 8\<rparr>),
      (''sdk_version'', 64, \<lparr>mname = ''sdk_version'', msize = 8, malign = 8, melem = 8\<rparr>),
      (''has_sdk_name'', 72, \<lparr>mname = ''has_sdk_name'', msize = 1, malign = 1, melem = 1\<rparr>),
      (''sdk_name'', 76, \<lparr>mname = ''sdk_name'', msize = 4, malign = 4, melem = 4\<rparr>),
      (''has_app_count'', 80, \<lparr>mname = ''has_app_count'', msize = 1, malign = 1, melem = 1\<rparr>),
      (''app_count'', 84, \<lparr>mname = ''app_count'', msize = 4, malign = 4, melem = 4\<rparr>),
      (''os_version'', 88, \<lparr>mname = ''os_version'', msize = 8, malign = 8, melem = 8\<rparr>),
      (''min_supported_ios_version'', 96, \<lparr>mname = ''min_supported_ios_version'', msize = 8, malign = 8, melem = 8\<rparr>),
      (''has_use_default_app'', 104, \<lparr>mname = ''has_use_default_app'', msize = 1, malign = 1, melem = 1\<rparr>),
      (''use_default_app'', 105, \<lparr>mname = ''use_default_app'', msize = 1, malign = 1, melem = 1\<rparr>),
      (''has_deployed_in_app_store'', 106, \<lparr>mname = ''has_deployed_in_app_store'', msize = 1, malign = 1, melem = 1\<rparr>),
      (''deployed_in_app_store'', 107, \<lparr>mname = ''deployed_in_app_store'', msize = 1, malign = 1, melem = 1\<rparr>),
      (''has_dynamic_framework_count'', 108, \<lparr>mname = ''has_dynamic_framework_count'', msize = 1, malign = 1, melem = 1\<rparr>),
      (''dynamic_framework_count'', 112, \<lparr>mname = ''dynamic_framework_count'', msize = 4, malign = 4, melem = 4\<rparr>),
      (''apple_framework_version'', 120, \<lparr>mname = ''apple_framework_version'', msize = 8, malign = 8, melem = 8\<rparr>),
      (''has_using_zip_file'', 128, \<lparr>mname = ''has_using_zip_file'', msize = 1, malign = 1, melem = 1\<rparr>),
      (''using_zip_file'', 129, \<lparr>mname = ''using_zip_file'', msize = 1, malign = 1, melem = 1\<rparr>),
      (''has_deployment_type'', 130, \<lparr>mname = ''has_deployment_type'', msize = 1, malign = 1, melem = 1\<rparr>),
      (''deployment_type'', 132, \<lparr>mname = ''deployment_type'', msize = 4, malign = 4, melem = 4\<rparr>),
      (''platform_info'', 136, \<lparr>mname = ''platform_info'', msize = 8, malign = 8, melem = 8\<rparr>),
      (''has_swizzling_enabled'', 144, \<lparr>mname = ''has_swizzling_enabled'', msize = 1, malign = 1, melem = 1\<rparr>),
      (''swizzling_enabled'', 145, \<lparr>mname = ''swizzling_enabled'', msize = 1, malign = 1, melem = 1\<rparr>),
      (''has_using_gdt'', 146, \<lparr>mname = ''has_using_gdt'', msize = 1, malign = 1, melem = 1\<rparr>),
      (''using_gdt'', 147, \<lparr>mname = ''using_gdt'', msize = 1, malign = 1, melem = 1\<rparr>)]"
  "c_sizeof logs_proto_mobilesdk_ios_ICoreConfiguration = 152" "struct_align logs_proto_mobilesdk_ios_ICoreConfiguration = 8"
  by (simp_all add: logs_proto_mobilesdk_ios_ICoreConfiguration_def size_Cons layout_step member_defs align_up_def pb_bytes_array_t_layout del: layout_from.simps(2))

lemma logs_proto_mobilesdk_ios_ICoreConfiguration_members:
  "map_of (layout_from 0 logs_proto_mobilesdk_ios_ICoreConfiguration) ''has_configuration_type'' = Some (0, \<lparr>mname = ''has_configuration_type'', msize = 1, malign = 1, melem = 1\<rparr>)"
  "map_of (layout_from 0 logs_proto_mobilesdk_ios_ICoreConfiguration) ''configuration_type'' = Some (4, \<lparr>mname = ''configuration_type'', msize = 4, malign = 4, melem = 4\<rparr>)"
  "map_of (layout_from 0 logs_proto_mobilesdk_ios_ICoreConfiguration) ''sdk_service_installed_count'' = Some (8, \<lparr>mname = ''sdk_service_installed_count'', msize = 4, malign = 4, melem = 4\<rparr>)"
  "map_of (layout_from 0 logs_proto_mobilesdk_ios_ICoreConfiguration) ''sdk_service_installed'' = Some (16, \<lparr>mname = ''sdk_service_installed'', msize = 8, malign = 8, melem = 4\<rparr>)"
  "map_of (layout_from 0 logs_proto_mobilesdk_ios_ICoreConfiguration) ''device_model'' = Some (24, \<lparr>mname = ''device_model'', msize = 8, malign = 8, melem = 8\<rparr>)"
  "map_of (layout_from 0 logs_proto_mobilesdk_ios_ICoreConfiguration) ''app_id'' = Some (32, \<lparr>mname = ''app_id'', msize = 8, malign = 8, melem = 8\<rparr>)"
  "map_of (layout_from 0 logs_proto_mobilesdk_ios_ICoreConfiguration) ''bundle_id'' = Some (40, \<lparr>mname = ''bundle_id'', msize = 8, malign = 8, melem = 8\<rparr>)"
  "map_of (layout_from 0 logs_proto_mobilesdk_ios_ICoreConfiguration) ''has_pod_name'' = Some (48, \<lparr>mname = ''has_pod_name'', msize = 1, malign = 1, melem = 1\<rparr>)"
  "map_of (layout_from 0 logs_proto_mobilesdk_ios_ICoreConfiguration) ''pod_name'' = Some (52, \<lparr>mname = ''pod_name'', msize = 4, malign = 4, melem = 4\<rparr>)"
  "map_of (layout_from 0 logs_proto_mobilesdk_ios_ICoreConfiguration) ''icore_version'' = Some (56, \<lparr>mname = ''icore_version'', msize = 8, malign = 8, melem = 8\<rparr>)"
  "map_of (layout_from 0 logs_proto_mobilesdk_ios_ICoreConfiguration) ''sdk_version'' = Some (64, \<lparr>mname = ''sdk_version'', msize = 8, malign = 8, melem = 8\<rparr>)"
  "map_of (layout_from 0 logs_proto_mobilesdk_ios_ICoreConfiguration) ''has_sdk_name'' = Some (72, \<lparr>mname = ''has_sdk_name'', msize = 1, malign = 1, melem = 1\<rparr>)"
  "map_of (layout_from 0 logs_proto_mobilesdk_ios_ICoreConfiguration) ''sdk_name'' = Some (76, \<lparr>mname = ''sdk_name'', msize = 4, malign = 4, melem = 4\<rparr>)"
  "map_of (layout_from 0 logs_proto_mobilesdk_ios_ICoreConfiguration) ''has_app_count'' = Some (80, \<lparr>mname = ''has_app_count'', msize = 1, malign = 1, melem = 1\<rparr>)"
  "map_of (layout_from 0 logs_proto_mobilesdk_ios_ICoreConfiguration) ''app_count'' = Some (84, \<lparr>mname = ''app_count'', msize = 4, malign = 4, melem = 4\<rparr>)"
  "map_of (layout_from 0 logs_proto_mobilesdk_ios_ICoreConfiguration) ''os_version'' = Some (88, \<lparr>mname = ''os_version'', msize = 8, malign = 8, melem = 8\<rparr>)"
  "map_of (layout_from 0 logs_proto_mobilesdk_ios_ICoreConfiguration) ''min_supported_ios_version'' = Some (96, \<lparr>mname = ''min_supported_ios_version'', msize = 8, malign = 8, melem = 8\<rparr>)"
  "map_of (layout_from 0 logs_proto_mobilesdk_ios_ICoreConfiguration) ''has_use_default_app'' = Some (104, \<lparr>mname = ''has_use_default_app'', msize = 1, malign = 1, melem = 1\<rparr>)"
  "map_of (layout_from 0 logs_proto_mobilesdk_ios_ICoreConfiguration) ''use_default_app'' = Some (105, \<lparr>mname = ''use_default_app'', msize = 1, malign = 1, melem = 1\<rparr>)"
  "map_of (layout_from 0 logs_proto_mobilesdk_ios_ICoreConfiguration) ''has_deployed_in_app_store'' = Some (106, \<lparr>mname = ''has_deployed_in_app_store'', msize = 1, malign = 1, melem = 1\<rparr>)"
  "map_of (layout_from 0 logs_proto_mobilesdk_ios_ICoreConfiguration) ''deployed_in_app_store'' = Some (107, \<lparr>mname = ''deployed_in_app_store'', msize = 1, malign = 1, melem = 1\<rparr>)"
  "map_of (layout_from 0 logs_proto_mobilesdk_ios_ICoreConfiguration) ''has_dynamic_framework_count'' = Some (108, \<lparr>mname = ''has_dynamic_framework_count'', msize = 1, malign = 1, melem = 1\<rparr>)"
  "map_of (layout_from 0 logs_proto_mobilesdk_ios_ICoreConfiguration) ''dynamic_framework_count'' = Some (112, \<lparr>mname = ''dynamic_framework_count'', msize = 4, malign = 4, melem = 4\<rparr>)"
  "map_of (layout_from 0 logs_proto_mobilesdk_ios_ICoreConfiguration) ''apple_framework_version'' = Some (120, \<lparr>mname = ''apple_framework_version'', msize = 8, malign = 8, melem = 8\<rparr>)"
  "map_of (layout_from 0 logs_proto_mobilesdk_ios_ICoreConfiguration) ''has_using_zip_file'' = Some (128, \<lparr>mname = ''has_using_zip_file'', msize = 1, malign = 1, melem = 1\<rparr>)"
  "map_of (layout_from 0 logs_proto_mobilesdk_ios_ICoreConfiguration) ''using_zip_file'' = Some (129, \<lparr>mname = ''using_zip_file'', msize = 1, malign = 1, melem = 1\<rparr>)"
  "map_of (layout_from 0 logs_proto_mobilesdk_ios_ICoreConfiguration) ''has_deployment_type'' = Some (130, \<lparr>mname = ''has_deployment_type'', msize = 1, malign = 1, melem = 1\<rparr>)"
  "map_of (layout_from 0 logs_proto_mobilesdk_ios_ICoreConfiguration) ''deployment_type'' = Some (132, \<lparr>mname = ''deployment_type'', msize = 4, malign = 4, melem = 4\<rparr>)"
  "map_of (layout_from 0 logs_proto_mobilesdk_ios_ICoreConfiguration) ''platform_info'' = Some (136, \<lparr>mname = ''platform_info'', msize = 8, malign = 8, melem = 8\<rparr>)"
  "map_of (layout_from 0 logs_proto_mobilesdk_ios_ICoreConfiguration) ''has_swizzling_enabled'' = Some (144, \<lparr>mname = ''has_swizzling_enabled'', msize = 1, malign = 1, melem = 1\<rparr>)"
  "map_of (layout_from 0 logs_proto_mobilesdk_ios_ICoreConfiguration) ''swizzling_enabled'' = Some (145, \<lparr>mname = ''swizzling_enabled'', msize = 1, malign = 1, melem = 1\<rparr>)"
  "map_of (layout_from 0 logs_proto_mobilesdk_ios_ICoreConfiguration) ''has_using_gdt'' = Some (146, \<lparr>mname = ''has_using_gdt'', msize = 1, malign = 1, melem = 1\<rparr>)"
  "map_of (layout_from 0 logs_proto_mobilesdk_ios_ICoreConfiguration) ''using_gdt'' = Some (147, \<lparr>mname = ''using_gdt'', msize = 1, malign = 1, melem = 1\<rparr>)"
  by (simp_all add: logs_proto_mobilesdk_ios_ICoreConfiguration_layout(1))

lemma logs_proto_mobilesdk_ios_ICoreConfiguration_fields_eq:
  "logs_proto_mobilesdk_ios_ICoreConfiguration_fields =
     [Pb_field 1 0x12 4 (- 4) 4 0 Null_ptr,
      Pb_field 7 0xA2 8 (- 8) 4 0 Null_ptr,
      Pb_field 9 0x96 0 0 8 0 Null_ptr,
      Pb_field 10 0x96 0 0 8 0 Null_ptr,
      Pb_field 12 0x96 0 0 8 0 Null_ptr,
      Pb_field 16 0x12 4 (- 4) 4 0 Null_ptr,
      Pb_field 18 0x96 0 0 8 0 Null_ptr,
      Pb_field 19 0x96 0 0 8 0 Null_ptr,
      Pb_field 20 0x12 4 (- 4) 4 0 Null_ptr,
      Pb_field 21 0x11 4 (- 4) 4 0 Null_ptr,
      Pb_field 22 0x96 0 0 8 0 Null_ptr,
      Pb_field 24 0x96 0 0 8 0 Null_ptr,
      Pb_field 25 0x10 1 (- 1) 1 0 Null_ptr,
      Pb_field 26 0x10 1 (- 1) 1 0 Null_ptr,
      Pb_field 27 0x11 4 (- 4) 4 0 Null_ptr,
      Pb_field 28 0x96 4 0 8 0 Null_ptr,
      Pb_field 29 0x10 1 (- 1) 1 0 Null_ptr,
      Pb_field 30 0x12 2 (- 2) 4 0 Null_ptr,
      Pb_field 31 0x96 0 0 8 0 Null_ptr,
      Pb_field 33 0x10 1 (- 1) 1 0 Null_ptr,
      Pb_field 36 0x10 1 (- 1) 1 0 Null_ptr,
      PB_LAST_FIELD]"
  by (simp add: logs_proto_mobilesdk_ios_ICoreConfiguration_fields_def macro_defs logs_proto_mobilesdk_ios_ICoreConfiguration_members type_defs)

section \<open>Where the iterator finds the members\<close>

lemma logs_proto_mobilesdk_ios_ICoreConfiguration_at:
  "nfields logs_proto_mobilesdk_ios_ICoreConfiguration_fields = 21"
  "field_at logs_proto_mobilesdk_ios_ICoreConfiguration_fields 0 = Pb_field 1 0x12 4 (- 4) 4 0 Null_ptr"
  "field_at logs_proto_mobilesdk_ios_ICoreConfiguration_fields (Suc 0) = Pb_field 7 0xA2 8 (- 8) 4 0 Null_ptr"
  "field_at logs_proto_mobilesdk_ios_ICoreConfiguration_fields 2 = Pb_field 9 0x96 0 0 8 0 Null_ptr"
  "field_at logs_proto_mobilesdk_ios_ICoreConfiguration_fields 3 = Pb_field 10 0x96 0 0 8 0 Null_ptr"
  "field_at logs_proto_mobilesdk_ios_ICoreConfiguration_fields 4 = Pb_field 12 0x96 0 0 8 0 Null_ptr"
  "field_at logs_proto_mobilesdk_ios_ICoreConfiguration_fields 5 = Pb_field 16 0x12 4 (- 4) 4 0 Null_ptr"
  "field_at logs_proto_mobilesdk_ios_ICoreConfiguration_fields 6 = Pb_field 18 0x96 0 0 8 0 Null_ptr"
  "field_at logs_proto_mobilesdk_ios_ICoreConfiguration_fields 7 = Pb_field 19 0x96 0 0 8 0 Null_ptr"
  "field_at logs_proto_mobilesdk_ios_ICoreConfiguration_fields 8 = Pb_field 20 0x12 4 (- 4) 4 0 Null_ptr"
  "field_at logs_proto_mobilesdk_ios_ICoreConfiguration_fields 9 = Pb_field 21 0x11 4 (- 4) 4 0 Null_ptr"
  "field_at logs_proto_mobilesdk_ios_ICoreConfiguration_fields 10 = Pb_field 22 0x96 0 0 8 0 Null_ptr"
  "field_at logs_proto_mobilesdk_ios_ICoreConfiguration_fields 11 = Pb_field 24 0x96 0 0 8 0 Null_ptr"
  "field_at logs_proto_mobilesdk_ios_ICoreConfiguration_fields 12 = Pb_field 25 0x10 1 (- 1) 1 0 Null_ptr"
  "field_at logs_proto_mobilesdk_ios_ICoreConfiguration_fields 13 = Pb_field 26 0x10 1 (- 1) 1 0 Null_ptr"
  "field_at logs_proto_mobilesdk_ios_ICoreConfiguration_fields 14 = Pb_field 27 0x11 4 (- 4) 4 0 Null_ptr"
  "field_at logs_proto_mobilesdk_ios_ICoreConfiguration_fields 15 = Pb_field 28 0x96 4 0 8 0 Null_ptr"
  "field_at logs_proto_mobilesdk_ios_ICoreConfiguration_fields 16 = Pb_field 29 0x10 1 (- 1) 1 0 Null_ptr"
  "field_at logs_proto_mobilesdk_ios_ICoreConfiguration_fields 17 = Pb_field 30 0x12 2 (- 2) 4 0 Null_ptr"
  "field_at logs_proto_mobilesdk_ios_ICoreConfiguration_fields 18 = Pb_field 31 0x96 0 0 8 0 Null_ptr"
  "field_at logs_proto_mobilesdk_ios_ICoreConfiguration_fields 19 = Pb_field 33 0x10 1 (- 1) 1 0 Null_ptr"
  "field_at logs_proto_mobilesdk_ios_ICoreConfiguration_fields 20 = Pb_field 36 0x10 1 (- 1) 1 0 Null_ptr"
  by (simp_all add: nfields_def field_at_def logs_proto_mobilesdk_ios_ICoreConfiguration_fields_eq PB_LAST_FIELD_def)

lemma logs_proto_mobilesdk_ios_ICoreConfiguration_off:
  "field_off logs_proto_mobilesdk_ios_ICoreConfiguration_fields 0 = (4, 0)"
  "field_off logs_proto_mobilesdk_ios_ICoreConfiguration_fields (Suc 0) = (16, 8)"
  "field_off logs_proto_mobilesdk_ios_ICoreConfiguration_fields 2 = (24, 24)"
  "field_off logs_proto_mobilesdk_ios_ICoreConfiguration_fields 3 = (32, 32)"
  "field_off logs_proto_mobilesdk_ios_ICoreConfiguration_fields 4 = (40, 40)"
  "field_off logs_proto_mobilesdk_ios_ICoreConfiguration_fields 5 = (52, 48)"
  "field_off logs_proto_mobilesdk_ios_ICoreConfiguration_fields 6 = (56, 56)"
  "field_off logs_proto_mobilesdk_ios_ICoreConfiguration_fields 7 = (64, 64)"
  "field_off logs_proto_mobilesdk_ios_ICoreConfiguration_fields 8 = (76, 72)"
  "field_off logs_proto_mobilesdk_ios_ICoreConfiguration_fields 9 = (84, 80)"
  "field_off logs_proto_mobilesdk_ios_ICoreConfiguration_fields 10 = (88, 88)"
  "field_off logs_proto_mobilesdk_ios_ICoreConfiguration_fields 11 = (96, 96)"
  "field_off logs_proto_mobilesdk_ios_ICoreConfiguration_fields 12 = (105, 104)"
  "field_off logs_proto_mobilesdk_ios_ICoreConfiguration_fields 13 = (107, 106)"
  "field_off logs_proto_mobilesdk_ios_ICoreConfiguration_fields 14 = (112, 108)"
  "field_off logs_proto_mobilesdk_ios_ICoreConfiguration_fields 15 = (120, 120)"
  "field_off logs_proto_mobilesdk_ios_ICoreConfiguration_fields 16 = (129, 128)"
  "field_off logs_proto_mobilesdk_ios_ICoreConfiguration_fields 17 = (132, 130)"
  "field_off logs_proto_mobilesdk_ios_ICoreConfiguration_fields 18 = (136, 136)"
  "field_off logs_proto_mobilesdk_ios_ICoreConfiguration_fields 19 = (145, 144)"
  "field_off logs_proto_mobilesdk_ios_ICoreConfiguration_fields 20 = (147, 146)"
  by (simp_all add: field_off_numeral logs_proto_mobilesdk_ios_ICoreConfiguration_at off_simps)

lemma logs_proto_mobilesdk_ios_ICoreConfiguration_offsets:
  "map pData (pb_fields_walk logs_proto_mobilesdk_ios_ICoreConfiguration_fields dest) =
     map (\<lambda>x. dest + c_offsetof logs_proto_mobilesdk_ios_ICoreConfiguration x)
       [''configuration_type'', ''sdk_service_installed'', ''device_model'', ''app_id'', ''bundle_id'', ''pod_name'', ''icore_version'', ''sdk_version'', ''sdk_name'', ''app_count'', ''os_version'', ''min_supported_ios_version'', ''use_default_app'', ''deployed_in_app_store'', ''dynamic_framework_count'', ''apple_framework_version'', ''using_zip_file'', ''deployment_type'', ''platform_info'', ''swizzling_enabled'', ''using_gdt'']"
  by (simp add: logs_proto_mobilesdk_ios_ICoreConfiguration_at logs_proto_mobilesdk_ios_ICoreConfiguration_off logs_proto_mobilesdk_ios_ICoreConfiguration_members c_offsetof_def default_simps del: iter_at.simps field_off.simps)

section \<open>Default values\<close>

lemma logs_proto_mobilesdk_ios_ICoreConfiguration_defaults:
  "\<exists>m'. pb_message_set_to_defaults (Suc e) env logs_proto_mobilesdk_ios_ICoreConfiguration_fields dest m = Some m' \<and>
     struct_holds m' dest logs_proto_mobilesdk_ios_ICoreConfiguration logs_proto_mobilesdk_ios_ICoreConfiguration_init_default"
  by (simp add: logs_proto_mobilesdk_ios_ICoreConfiguration_at logs_proto_mobilesdk_ios_ICoreConfiguration_off default_simps
      del: each_field.simps(2) iter_at.simps field_off.simps)
    (simp add: struct_holds_def icore_enum_mins logs_proto_mobilesdk_ios_ICoreConfiguration_layout logs_proto_mobilesdk_ios_ICoreConfiguration_init_default_def mem_simps)

section \<open>Decodable descriptors\<close>

lemma logs_proto_mobilesdk_ios_ICoreConfiguration_decodable: "decodable (Suc d) logs_proto_mobilesdk_ios_ICoreConfiguration_fields"
  unfolding decodable_Suc [of d] logs_proto_mobilesdk_ios_ICoreConfiguration_fields_eq
  by (simp add: decodable_simps del: decodable.simps)

section \<open>Properties\<close>

text \<open>
  C25. The diagnostics message: its descriptors describe its struct, its default values are those of the
  generated initializer, and decoding it returns on every input.
\<close>

theorem icore_configuration_correct:
  "map pData (pb_fields_walk logs_proto_mobilesdk_ios_ICoreConfiguration_fields dest) =
     map (\<lambda>x. dest + c_offsetof logs_proto_mobilesdk_ios_ICoreConfiguration x)
       [''configuration_type'', ''sdk_service_installed'', ''device_model'', ''app_id'', ''bundle_id'', ''pod_name'', ''icore_version'', ''sdk_version'', ''sdk_name'', ''app_count'', ''os_version'', ''min_supported_ios_version'', ''use_default_app'', ''deployed_in_app_store'', ''dynamic_framework_count'', ''apple_framework_version'', ''using_zip_file'', ''deployment_type'', ''platform_info'', ''swizzling_enabled'', ''using_gdt''] \<and>
   (\<exists>m'. pb_message_set_to_defaults 1 env logs_proto_mobilesdk_ios_ICoreConfiguration_fields dest m = Some m' \<and>
     struct_holds m' dest logs_proto_mobilesdk_ios_ICoreConfiguration logs_proto_mobilesdk_ios_ICoreConfiguration_init_default) \<and>
   (\<exists>ok s' m'. pb_decode 2 env s logs_proto_mobilesdk_ios_ICoreConfiguration_fields dest m = Some (ok, s', m') \<and> adv s s')"
  using logs_proto_mobilesdk_ios_ICoreConfiguration_offsets logs_proto_mobilesdk_ios_ICoreConfiguration_defaults [of 0 env dest m]
    pb_decode_advances [OF logs_proto_mobilesdk_ios_ICoreConfiguration_decodable [of 0], of 2 s env dest m]
  by (simp add: advances_def)

end
