(* ===== verification/FBase64.thy ===== *)
theory FBase64
  imports C_Memory
begin

text \<open>
  \<^verbatim>\<open>SocketRocket/fbase64.c\<close>, the base64 coder of the websocket handshake: \<^verbatim>\<open>f_b64_ntop\<close> writes the
  terminated base64 text of a byte buffer, \<^verbatim>\<open>f_b64_pton\<close> reads such a text back. The target buffer is a
  region of the C memory; the source is a list of bytes, which the functions only read and which does
  not overlap the target. A C string is the list of its bytes before the terminator: reading at its
  end gives the terminator, and neither function reads further.
\<close>

section \<open>The alphabet\<close>

definition Base64 :: "byte list" where
  "Base64 = map of_char ''ABCDEFGHIJKLMNOPQRSTUVWXYZabcdefghijklmnopqrstuvwxyz0123456789+/''"

definition Pad64 :: byte where
  "Pad64 = of_char (CHR ''='')"

text \<open>\<^verbatim>\<open>isspace\<close> in the C locale, and the index \<^verbatim>\<open>strchr(Base64, ch) - Base64\<close>, \<open>None\<close> for a null result.\<close>

definition isspace :: "byte \<Rightarrow> bool" where
  "isspace ch \<longleftrightarrow> ch = 0x20 \<or> (0x09 \<le> ch \<and> ch \<le> 0x0D)"

fun strchr_index :: "byte list \<Rightarrow> byte \<Rightarrow> nat option" where
  "strchr_index [] ch = None"
| "strchr_index (c # cs) ch = (if c = ch then Some 0 else map_option Suc (strchr_index cs ch))"

section \<open>Encoding\<close>

text \<open>\<^verbatim>\<open>output[0..3]\<close> from \<^verbatim>\<open>input[0..2]\<close>.\<close>

definition b64_output :: "byte \<Rightarrow> byte \<Rightarrow> byte \<Rightarrow> byte list" where
  "b64_output i0 i1 i2 =
     [drop_bit 2 i0, push_bit 4 (i0 AND 0x03) + drop_bit 4 i1,
      push_bit 2 (i1 AND 0x0F) + drop_bit 6 i2, i2 AND 0x3F]"

definition b64_char :: "byte \<Rightarrow> byte" where
  "b64_char out = Base64 ! unat out"

text \<open>The loop \<^verbatim>\<open>while (2 < srclength)\<close>: \<open>(False, \<dots>)\<close> for the return inside it.\<close>

fun ntop_loop ::
  "byte list \<Rightarrow> nat \<Rightarrow> addr \<Rightarrow> nat \<Rightarrow> cmem \<Rightarrow> bool \<times> byte list \<times> nat \<times> cmem" where
  "ntop_loop (i0 # i1 # i2 # src) datalength target targsize m =
     (if (datalength + 4) mod SIZE_MOD > targsize then (False, src, datalength, m)
      else ntop_loop src (datalength + 4) target targsize
             (store_bytes m (target + datalength) (map b64_char (b64_output i0 i1 i2))))"
| "ntop_loop src datalength target targsize m = (True, src, datalength, m)"

text \<open>The padded last group, from the one or two bytes that are left.\<close>

definition b64_last :: "byte list \<Rightarrow> byte list" where
  "b64_last src =
     (let i0 = src ! 0; i1 = (if length src = 1 then 0 else src ! 1); out = b64_output i0 i1 0 in
      [b64_char (out ! 0), b64_char (out ! 1),
       (if length src = 1 then Pad64 else b64_char (out ! 2)), Pad64])"

definition f_b64_ntop :: "byte list \<Rightarrow> addr \<Rightarrow> nat \<Rightarrow> cmem \<Rightarrow> int \<times> cmem" where
  "f_b64_ntop src target targsize m =
     (case ntop_loop src 0 target targsize m of
        (False, _, _, m1) \<Rightarrow> (- 1, m1)
      | (True, rest, datalength, m1) \<Rightarrow>
          (if rest \<noteq> [] \<and> (datalength + 4) mod SIZE_MOD > targsize then (- 1, m1)
           else
             let (dl, m2) =
                   (if rest \<noteq> [] then (datalength + 4, store_bytes m1 (target + datalength) (b64_last rest))
                    else (datalength, m1)) in
             if dl \<ge> targsize then (- 1, m2)
             else (signed_take_bit 31 (int dl), store 1 m2 (target + dl) 0)))"

section \<open>Decoding\<close>

text \<open>
  The \<^verbatim>\<open>switch (state)\<close> of the loop for a digit \<open>d = pos - Base64\<close>: the new state, index and memory, or \<open>None\<close>
  for the return value -1. A null target is the address 0. \<^verbatim>\<open>tarindex\<close> is an unsigned int.
\<close>

definition pton_digit ::
  "byte \<Rightarrow> addr \<Rightarrow> nat \<Rightarrow> nat \<times> nat \<times> cmem \<Rightarrow> (nat \<times> nat \<times> cmem) option" where
  "pton_digit d target targsize st =
     (case st of (state, tarindex, m) \<Rightarrow>
        let next = (tarindex + 1) mod UINT32_MOD; here = target + tarindex; there = target + next in
        if state = 0 then
          (if target = 0 then Some (1, tarindex, m)
           else if tarindex \<ge> targsize then None
           else Some (1, tarindex, store_bytes m here [push_bit 2 d]))
        else if state = 1 then
          (if target = 0 then Some (2, next, m)
           else if next \<ge> targsize then None
           else Some (2, next, store_bytes (store_bytes m here [bytes m here OR drop_bit 4 d])
                                 there [push_bit 4 (d AND 0x0F)]))
        else if state = 2 then
          (if target = 0 then Some (3, next, m)
           else if next \<ge> targsize then None
           else Some (3, next, store_bytes (store_bytes m here [bytes m here OR drop_bit 2 d])
                                 there [push_bit 6 (d AND 0x03)]))
        else
          (if target = 0 then Some (0, next, m)
           else if tarindex \<ge> targsize then None
           else Some (0, next, store_bytes m here [bytes m here OR d])))"

text \<open>
  The loop over the characters. It ends with the character it stopped at, the rest of the source and
  the state; the memory is returned in every case.
\<close>

fun pton_loop ::
  "byte list \<Rightarrow> addr \<Rightarrow> nat \<Rightarrow> nat \<times> nat \<times> cmem \<Rightarrow> cmem + byte \<times> byte list \<times> nat \<times> nat \<times> cmem" where
  "pton_loop [] target targsize st = Inr (0, [], st)"
| "pton_loop (ch # src) target targsize st =
     (if ch = 0 then Inr (0, src, st)
      else if isspace ch then pton_loop src target targsize st
      else if ch = Pad64 then Inr (ch, src, st)
      else case strchr_index Base64 ch of
        None \<Rightarrow> Inl (snd (snd st))
      | Some i \<Rightarrow>
          (case pton_digit (of_nat i) target targsize st of
             None \<Rightarrow> Inl (snd (snd st))
           | Some st' \<Rightarrow> pton_loop src target targsize st'))"

text \<open>The loops \<^verbatim>\<open>for (; ch != '\0'; ch = *src++)\<close>: the first character that is no space, and what follows it.\<close>

fun skip_spaces :: "byte list \<Rightarrow> byte \<times> byte list" where
  "skip_spaces [] = (0, [])"
| "skip_spaces (ch # src) =
     (if ch = 0 then (0, src) else if isspace ch then skip_spaces src else (ch, src))"

text \<open>What follows the first pad character: whether the checks of the \<^verbatim>\<open>switch\<close> pass.\<close>

definition pton_trailer :: "byte list \<Rightarrow> addr \<Rightarrow> nat \<times> nat \<times> cmem \<Rightarrow> bool" where
  "pton_trailer src target st =
     (case st of (state, tarindex, m) \<Rightarrow>
        let tail_ok = (\<lambda>src. fst (skip_spaces src) = 0 \<and> (target \<noteq> 0 \<longrightarrow> bytes m (target + tarindex) = 0)) in
        if state = 0 \<or> state = 1 then False
        else if state = 2 then
          (case skip_spaces src of (ch, rest) \<Rightarrow> ch = Pad64 \<and> tail_ok rest)
        else tail_ok src)"

text \<open>The checks after the loop and the return value.\<close>

definition pton_finish ::
  "addr \<Rightarrow> cmem + byte \<times> byte list \<times> nat \<times> nat \<times> cmem \<Rightarrow> int \<times> cmem" where
  "pton_finish target r =
     (case r of
        Inl m \<Rightarrow> (- 1, m)
      | Inr (ch, rest, state, tarindex, m) \<Rightarrow>
          (if ch = Pad64 then
             (if pton_trailer rest target (state, tarindex, m)
              then (signed_take_bit 31 (int tarindex), m) else (- 1, m))
           else if state \<noteq> 0 then (- 1, m)
           else (signed_take_bit 31 (int tarindex), m)))"

definition f_b64_pton :: "byte list \<Rightarrow> addr \<Rightarrow> nat \<Rightarrow> cmem \<Rightarrow> int \<times> cmem" where
  "f_b64_pton src target targsize m =
     pton_finish target (pton_loop src target targsize (0, 0, m))"

lemma length_Base64 [simp]: "length Base64 = 64"
  by (simp add: Base64_def)

lemma distinct_Base64: "distinct Base64"
  by (simp add: Base64_def)

lemma Base64_plain: "list_all (\<lambda>c. \<not> isspace c \<and> c \<noteq> Pad64 \<and> c \<noteq> 0) Base64"
  by (simp add: Base64_def isspace_def Pad64_def)

lemma strchr_index_nth: "distinct cs \<Longrightarrow> i < length cs \<Longrightarrow> strchr_index cs (cs ! i) = Some i"
  by (induction cs arbitrary: i) (auto simp: nth_Cons split: nat.splits)

lemma b64_digit:
  assumes "unat d < 64"
  shows "strchr_index Base64 (b64_char d) = Some (unat d)" "\<not> isspace (b64_char d)"
    "b64_char d \<noteq> Pad64" "b64_char d \<noteq> 0"
  using Base64_plain strchr_index_nth [OF distinct_Base64] assms
  by (auto simp: list_all_length b64_char_def)

lemma and_masks:
  "(d :: byte) AND 0x03 = take_bit 2 d" "d AND 0x0F = take_bit 4 d" "d AND 0x3F = take_bit 6 d"
  by (simp_all add: take_bit_eq_mask mask_eq_exp_minus_1)

lemma b64_output_or:
  "b64_output i0 i1 i2 =
     [drop_bit 2 i0, push_bit 4 (take_bit 2 i0) OR drop_bit 4 i1,
      push_bit 2 (take_bit 4 i1) OR drop_bit 6 i2, take_bit 6 i2]"
proof -
  have "push_bit 4 (take_bit 2 i0) + drop_bit 4 i1 = push_bit 4 (take_bit 2 i0) OR drop_bit 4 i1"
    by (rule disjunctive_add_eq_or) (auto simp: bit_eq_iff bit_simps dest: bit_imp_le_length)
  moreover have "push_bit 2 (take_bit 4 i1) + drop_bit 6 i2 = push_bit 2 (take_bit 4 i1) OR drop_bit 6 i2"
    by (rule disjunctive_add_eq_or) (auto simp: bit_eq_iff bit_simps dest: bit_imp_le_length)
  ultimately show ?thesis by (simp add: b64_output_def and_masks)
qed

text \<open>The four digits are below 64, and shifting them back gives the bytes.\<close>

lemma less_64I: "take_bit 6 d = d \<Longrightarrow> unat (d :: byte) < 64"
  using take_bit_nat_less_exp [of 6 "unat d"] by (simp add: flip: unsigned_take_bit_eq)

lemma b64_output_less: "d \<in> set (b64_output i0 i1 i2) \<Longrightarrow> unat d < 64"
  by (rule less_64I) (auto simp: b64_output_or byte_eq_iff bit_simps bit_byte_out)

lemma b64_output_back:
  "push_bit 2 (b64_output i0 i1 i2 ! 0) OR drop_bit 4 (b64_output i0 i1 i2 ! 1) = i0"
  "push_bit 4 (b64_output i0 i1 i2 ! 1 AND 0x0F) OR drop_bit 2 (b64_output i0 i1 i2 ! 2) = i1"
  "push_bit 6 (b64_output i0 i1 i2 ! 2 AND 0x03) OR b64_output i0 i1 i2 ! 3 = i2"
  by (simp_all add: b64_output_or and_masks byte_eq_iff bit_simps bit_byte_out)

lemma pton_loop_digit:
  "unat d < 64 \<Longrightarrow> pton_loop (b64_char d # src) target targsize st =
     (case pton_digit d target targsize st of
        None \<Rightarrow> Inl (snd (snd st)) | Some st' \<Rightarrow> pton_loop src target targsize st')"
  by (simp add: b64_digit)

text \<open>One digit in each of the four states, writing at the end of what is stored so far.\<close>

lemma pton_digit_steps:
  assumes "target \<noteq> 0" "t + 1 < UINT32_MOD"
  shows "t < targsize \<Longrightarrow> pton_digit d target targsize (0, t, m) =
           Some (1, t, store_bytes m (target + t) [push_bit 2 d])"
    and "t + 1 < targsize \<Longrightarrow> pton_digit d target targsize (1, t, store_bytes m (target + t) [x]) =
           Some (2, t + 1, store_bytes m (target + t) [x OR drop_bit 4 d, push_bit 4 (d AND 0x0F)])"
    and "t + 1 < targsize \<Longrightarrow> pton_digit d target targsize (2, t, store_bytes m (target + t) [x]) =
           Some (3, t + 1, store_bytes m (target + t) [x OR drop_bit 2 d, push_bit 6 (d AND 0x03)])"
    and "t < targsize \<Longrightarrow> pton_digit d target targsize (3, t, store_bytes m (target + t) [x]) =
           Some (0, t + 1, store_bytes m (target + t) [x OR d])"
  using assms store_bytes_append [of m "target + t" "[y]" for y]
  by (simp_all add: pton_digit_def Let_def mem_simps store_bytes_twice)

lemma pton_group:
  assumes "target \<noteq> 0" "t + 3 < UINT32_MOD" "t + 3 \<le> targsize"
  shows "pton_loop (map b64_char (b64_output a b c) @ src) target targsize (0, t, m) =
           pton_loop src target targsize (0, t + 3, store_bytes m (target + t) [a, b, c])"
proof -
  let ?o = "b64_output a b c"
  obtain d0 d1 d2 d3 where out: "?o = [d0, d1, d2, d3]" by (simp add: b64_output_def)
  then have d: "unat d0 < 64" "unat d1 < 64" "unat d2 < 64" "unat d3 < 64"
    using b64_output_less [of _ a b c] by auto
  note restore = b64_output_back [of a b c, unfolded out, simplified]
  have "pton_loop (map b64_char ?o @ src) target targsize (0, t, m) =
     pton_loop src target targsize (0, t + 3,
       store_bytes (store_bytes (store_bytes m (target + t) [a]) (target + (t + 1)) [b])
         (target + (t + 2)) [c])"
    using assms pton_digit_steps(1) [of target t targsize d0 m]
      pton_digit_steps(2) [of target t targsize d1 m "push_bit 2 d0"]
      pton_digit_steps(3) [of target "t + 1" targsize d2 "store_bytes m (target + t) [a]" "push_bit 4 (d1 AND 0x0F)"]
      pton_digit_steps(4) [of target "t + 2" targsize d3 "store_bytes (store_bytes m (target + t) [a]) (target + (t + 1)) [b]"
         "push_bit 6 (d2 AND 0x03)"]
    by (simp add: out pton_loop_digit d restore store_split numeral_3_eq_3 del: pton_loop.simps)
  also have "store_bytes (store_bytes (store_bytes m (target + t) [a]) (target + (t + 1)) [b])
         (target + (t + 2)) [c] = store_bytes m (target + t) [a, b, c]"
    by (simp add: store_split [of _ _ a] store_split [of _ _ b])
  finally show ?thesis .
qed

definition group24 :: "byte \<Rightarrow> byte \<Rightarrow> byte \<Rightarrow> nat" where
  "group24 a b c = unat a * 65536 + unat b * 256 + unat c"

definition digit24 :: "nat \<Rightarrow> nat \<Rightarrow> byte" where
  "digit24 n k = Base64 ! (n div 64 ^ k mod 64)"

fun b64_text :: "byte list \<Rightarrow> byte list" where
  "b64_text [] = []"
| "b64_text [a] = map (digit24 (group24 a 0 0)) [3, 2] @ [Pad64, Pad64]"
| "b64_text [a, b] = map (digit24 (group24 a b 0)) [3, 2, 1] @ [Pad64]"
| "b64_text (a # b # c # src) = map (digit24 (group24 a b c)) [3, 2, 1, 0] @ b64_text src"

declare b64_text.simps [simp del]

lemma horner64:
  fixes n x d :: nat
  assumes "n = x * 64 + d" "d < 64"
  shows "n div 64 = x" "n mod 64 = d"
  using assms by simp_all

lemma regroup:
  fixes a b c :: nat
  assumes "a = 4 * qa + ra" "b = 16 * qb + rb" "c = 64 * qc + rc"
  shows "a * 65536 + b * 256 + c = ((qa * 64 + (16 * ra + qb)) * 64 + (4 * rb + qc)) * 64 + rc"
  unfolding assms by (simp add: algebra_simps)

lemma group24_digits:
  fixes a b c :: byte
  defines "q \<equiv> unat a div 4" and "d2 \<equiv> 16 * (unat a mod 4) + unat b div 16"
    and "d1 \<equiv> 4 * (unat b mod 16) + unat c div 64" and "d0 \<equiv> unat c mod 64"
  shows "group24 a b c div 64 ^ 3 mod 64 = q" "group24 a b c div 64 ^ 2 mod 64 = d2"
    "group24 a b c div 64 ^ 1 mod 64 = d1" "group24 a b c div 64 ^ 0 mod 64 = d0"
proof -
  let ?n = "group24 a b c"
  have n: "?n = ((q * 64 + d2) * 64 + d1) * 64 + d0"
    unfolding group24_def q_def d2_def d1_def d0_def by (rule regroup) simp_all
  have less: "q < 64" "d2 < 64" "d1 < 64" "d0 < 64"
    using unat_byte_bound [of a] unat_byte_bound [of b] unat_byte_bound [of c]
    by (simp_all add: q_def d2_def d1_def d0_def)
  note h0 = horner64 [OF n less(4)]
  note h1 = horner64 [OF h0(1) less(3)]
  note h2 = horner64 [OF h1(1) less(2)]
  have pow: "?n div 64 ^ 3 = ?n div 64 div 64 div 64" "?n div 64 ^ 2 = ?n div 64 div 64"
    by (simp_all flip: div_mult2_eq)
  show "?n div 64 ^ 3 mod 64 = q" "?n div 64 ^ 2 mod 64 = d2" "?n div 64 ^ 1 mod 64 = d1"
    "?n div 64 ^ 0 mod 64 = d0"
    using h0(1,2) h1(1,2) h2(1,2) less(1) pow by simp_all
qed

lemma unat_b64_output:
  "map unat (b64_output a b c) =
     [unat a div 4, 16 * (unat a mod 4) + unat b div 16, 4 * (unat b mod 16) + unat c div 64, unat c mod 64]"
  using unat_byte_bound [of a] unat_byte_bound [of b] unat_byte_bound [of c]
  by (simp add: b64_output_def and_masks unat_word_ariths unsigned_drop_bit_eq unsigned_push_bit_eq
      unsigned_take_bit_eq drop_bit_eq_div push_bit_eq_mult take_bit_eq_mod)

lemma b64_output_text: "map b64_char (b64_output a b c) = map (digit24 (group24 a b c)) [3, 2, 1, 0]"
proof -
  have "map b64_char (b64_output a b c) = map ((!) Base64) (map unat (b64_output a b c))"
    by (simp add: b64_char_def)
  then show ?thesis
    by (simp only: unat_b64_output list.map digit24_def group24_digits)
qed

definition pad_zero :: "byte list \<Rightarrow> byte list" where
  "pad_zero src = (if length src mod 3 = 0 then [] else [0])"

lemma signed_31 [simp]: "0 \<le> v \<Longrightarrow> v < 2147483648 \<Longrightarrow> signed_take_bit 31 (v::int) = v"
  by (simp add: signed_take_bit_int_eq_self)

lemma pad_not_space: "\<not> isspace Pad64" "Pad64 \<noteq> 0"
  by (simp_all add: isspace_def Pad64_def)

lemma text_partial:
  "b64_text [a] = map b64_char (take 2 (b64_output a 0 0)) @ [Pad64, Pad64]"
  "b64_text [a, b] = map b64_char (take 3 (b64_output a b 0)) @ [Pad64]"
  using b64_output_text [of a 0 0] b64_output_text [of a b 0] by (simp_all add: b64_text.simps take_map [symmetric])

lemma b64_output_last:
  "push_bit 4 (b64_output a 0 0 ! 1 AND 0x0F) = 0" "push_bit 6 (b64_output a b 0 ! 2 AND 0x03) = 0"
  by (simp_all add: b64_output_or and_masks byte_eq_iff bit_simps bit_byte_out)

lemma pton_one:
  assumes "target \<noteq> 0" "t + 1 < 2147483648" "t + 1 < targsize"
  shows "pton_finish target (pton_loop (b64_text [a]) target targsize (0, t, m)) =
           (int (t + 1), store_bytes m (target + t) [a, 0])"
proof -
  obtain d0 d1 d2 d3 where out: "b64_output a 0 0 = [d0, d1, d2, d3]" by (simp add: b64_output_def)
  then have d: "unat d0 < 64" "unat d1 < 64" using b64_output_less [of _ a 0 0] by auto
  show ?thesis
    using assms pton_digit_steps(1) [of target t targsize d0 m]
      pton_digit_steps(2) [of target t targsize d1 m "push_bit 2 d0"]
      b64_output_back(1) [of a 0 0] b64_output_last(1) [of a]
    by (simp add: text_partial out d b64_digit pad_not_space pton_finish_def pton_trailer_def mem_simps)
qed

lemma pton_two:
  assumes "target \<noteq> 0" "t + 2 < 2147483648" "t + 2 < targsize"
  shows "pton_finish target (pton_loop (b64_text [a, b]) target targsize (0, t, m)) =
           (int (t + 2), store_bytes m (target + t) [a, b, 0])"
proof -
  obtain d0 d1 d2 d3 where out: "b64_output a b 0 = [d0, d1, d2, d3]" by (simp add: b64_output_def)
  then have d: "unat d0 < 64" "unat d1 < 64" "unat d2 < 64" using b64_output_less [of _ a b 0] by auto
  show ?thesis
    using assms pton_digit_steps(1) [of target t targsize d0 m]
      pton_digit_steps(2) [of target t targsize d1 m "push_bit 2 d0"]
      pton_digit_steps(3) [of target "t + 1" targsize d2 "store_bytes m (target + t) [a]" "push_bit 4 (d1 AND 0x0F)"]
      b64_output_back(1,2) [of a b 0] b64_output_last(2) [of a b]
    by (simp add: text_partial out d b64_digit pad_not_space pton_finish_def pton_trailer_def mem_simps
        store_split add_2_eq_Suc' del: add_2_eq_Suc)
qed

lemma pton_text:
  assumes "target \<noteq> 0" "t + length src < 2147483648" "t + length src < targsize"
  shows "pton_finish target (pton_loop (b64_text src) target targsize (0, t, m)) =
           (int (t + length src), store_bytes m (target + t) (src @ pad_zero src))"
  using assms
proof (induction src arbitrary: t m rule: b64_text.induct)
  case 1
  then show ?case by (simp add: pton_finish_def pad_zero_def Pad64_def b64_text.simps)
next
  case (2 a)
  then show ?case using pton_one [of target t targsize a m] by (simp add: pad_zero_def)
next
  case (3 a b)
  then show ?case using pton_two [of target t targsize a b m] by (simp add: pad_zero_def)
next
  case (4 a b c src)
  have "b64_text (a # b # c # src) = map b64_char (b64_output a b c) @ b64_text src"
    by (simp add: b64_output_text b64_text.simps)
  then have "pton_loop (b64_text (a # b # c # src)) target targsize (0, t, m) =
      pton_loop (b64_text src) target targsize (0, t + 3, store_bytes m (target + t) [a, b, c])"
    using 4(2-) by (simp only:) (rule pton_group; simp)
  moreover have "pad_zero (a # b # c # src) = pad_zero src"
    by (simp add: pad_zero_def mod_Suc)
  ultimately show ?case
    using 4 store_bytes_append [of m "target + t" "[a, b, c]" "src @ pad_zero src"]
    by (simp add: ac_simps numeral_3_eq_3)
qed

lemma b64_last_text: "rest \<noteq> [] \<Longrightarrow> length rest \<le> 2 \<Longrightarrow> b64_last rest = b64_text rest"
  by (cases rest rule: b64_text.cases) (simp_all add: b64_last_def text_partial b64_output_def Let_def)

text \<open>The loop of \<open>f_b64_ntop\<close> with room for its output, and without.\<close>

lemma length_b64_text: "length (b64_text src) = 4 * ((length src + 2) div 3)"
proof (induction src rule: b64_text.induct)
  case (4 a b c src)
  have "(5 + n) div 3 = Suc ((n + 2) div 3)" for n :: nat by presburger
  from this [of "length src"] 4 show ?case by (simp add: b64_text.simps)
qed (simp_all add: b64_text.simps)

fun full_part :: "byte list \<Rightarrow> byte list" where
  "full_part (a # b # c # src) = a # b # c # full_part src"
| "full_part src = []"

fun last_part :: "byte list \<Rightarrow> byte list" where
  "last_part (a # b # c # src) = last_part src"
| "last_part src = src"

lemma b64_text_parts: "b64_text src = b64_text (full_part src) @ b64_text (last_part src)"
  by (induction src rule: b64_text.induct) (simp_all add: b64_text.simps)

lemma last_part_short: "length (last_part src) \<le> 2"
  by (induction src rule: b64_text.induct) simp_all

lemma ntop_loop_room:
  assumes "datalength + length (b64_text (full_part src)) \<le> targsize" "targsize < SIZE_MOD"
  shows "ntop_loop src datalength target targsize m =
     (True, last_part src, datalength + length (b64_text (full_part src)),
      store_bytes m (target + datalength) (b64_text (full_part src)))"
  using assms
proof (induction src arbitrary: datalength m rule: b64_text.induct)
  case (4 a b c src)
  have t: "b64_text (a # b # c # full_part src) =
      map b64_char (b64_output a b c) @ b64_text (full_part src)"
    by (simp add: b64_text.simps b64_output_text)
  have len: "length (map b64_char (b64_output a b c)) = 4" by (simp add: b64_output_def)
  show ?case
    using 4 store_bytes_append [of m "target + datalength" "map b64_char (b64_output a b c)"] len
    by (simp add: t ac_simps)
qed (simp_all add: b64_text.simps)

lemma ntop_loop_full:
  assumes "targsize < datalength + length (b64_text (full_part src))"
    and "datalength \<le> targsize" "targsize + 4 < SIZE_MOD"
  shows "\<exists>rest dl m'. ntop_loop src datalength target targsize m = (False, rest, dl, m')"
  using assms
proof (induction src arbitrary: datalength m rule: b64_text.induct)
  case (4 a b c src)
  then show ?case by (auto simp: b64_text.simps)
qed (simp_all add: b64_text.simps)

lemma ntop_loop_frame:
  assumes "ntop_loop src datalength target targsize m = (ok, rest, dl, m')" "datalength \<le> targsize"
    and "targsize + 4 < SIZE_MOD"
  shows "same_outside m m' target targsize \<and> datalength \<le> dl \<and> dl \<le> targsize"
  using assms
proof (induction src arbitrary: datalength m rule: b64_text.induct)
  case (4 a b c src)
  show ?case
  proof (cases "datalength + 4 \<le> targsize")
    case True
    let ?m = "store_bytes m (target + datalength) (map b64_char (b64_output a b c))"
    have "same_outside m ?m target targsize"
      using True by (intro same_outside_store_bytes) (auto simp: b64_output_def)
    with True 4(1) [of "datalength + 4" ?m] 4(2-) show ?thesis
      by (auto intro: same_outside_trans)
  next
    case False
    with 4(2-) show ?thesis by auto
  qed
qed auto

text \<open>Writing one digit and the whole loop stay within the target.\<close>

definition pton_ok :: "nat \<Rightarrow> nat \<times> nat \<times> cmem \<Rightarrow> bool" where
  "pton_ok targsize st \<longleftrightarrow> fst st \<le> 3 \<and> (fst st \<noteq> 0 \<longrightarrow> fst (snd st) < targsize)"

lemma pton_digit_frame:
  assumes "pton_digit d target targsize st = Some st'" "target \<noteq> 0" "pton_ok targsize st"
  shows "pton_ok targsize st' \<and> same_outside (snd (snd st)) (snd (snd st')) target targsize"
  using assms by (cases st) (auto simp: pton_digit_def pton_ok_def Let_def same_outside_def mem_simps split: if_splits)

lemma pton_loop_frame:
  assumes "target \<noteq> 0" "pton_ok targsize st"
  shows "same_outside (snd (snd st))
           (case pton_loop src target targsize st of Inl m' \<Rightarrow> m' | Inr (_, _, _, _, m') \<Rightarrow> m') target targsize"
  using assms(2)
proof (induction src arbitrary: st)
  case Nil
  then show ?case by (cases st) simp
next
  case (Cons ch src)
  show ?case
  proof (cases "ch = 0 \<or> isspace ch \<or> ch = Pad64 \<or> strchr_index Base64 ch = None")
    case True
    with Cons show ?thesis by (cases st) auto
  next
    case False
    then obtain i where i: "strchr_index Base64 ch = Some i" by auto
    show ?thesis
    proof (cases "pton_digit (of_nat i) target targsize st")
      case None
      with False i show ?thesis by simp
    next
      case (Some st')
      with pton_digit_frame [OF Some assms(1) Cons.prems] Cons.IH [of st'] False i show ?thesis
        by (auto intro: same_outside_trans)
    qed
  qed
qed

text \<open>The text of the bytes \<open>Ma\<close> is \<open>TWE=\<close>.\<close>

lemma b64_text_example: "b64_text [0x4D, 0x61] = [0x54, 0x57, 0x45, 0x3D]"
  by (simp add: b64_text.simps digit24_def group24_def Base64_def Pad64_def)

section \<open>Properties\<close>

text \<open>\<open>f_b64_ntop\<close> writes the base64 text of the source, as base64 is specified on 24-bit groups, with its
  terminator, and returns its length, when the target has room for both.\<close>

theorem f_b64_ntop_text:
  assumes "length (b64_text src) < targsize" "targsize \<le> 2 ^ 31" 
  shows "f_b64_ntop src target targsize m =
           (int (length (b64_text src)), store_bytes m target (b64_text src @ [0]))"
proof -
  let ?f = "b64_text (full_part src)" and ?l = "b64_text (last_part src)"
  have parts: "b64_text src = ?f @ ?l" by (rule b64_text_parts)
  have loop: "ntop_loop src 0 target targsize m =
      (True, last_part src, length ?f, store_bytes m target ?f)"
    using ntop_loop_room [of 0 src targsize target m] assms parts by simp
  have l4: "last_part src \<noteq> [] \<Longrightarrow> length ?l = 4 \<and> b64_last (last_part src) = ?l"
    using last_part_short [of src] by (cases "last_part src" rule: b64_text.cases)
      (auto simp: b64_text.simps b64_last_text)
  show ?thesis
    using assms l4 parts store_bytes_append [of m target ?f ?l] store_bytes_append [of m target "?f @ ?l" "[0]"]
    by (cases "last_part src = []") (auto simp: f_b64_ntop_def loop store_def b64_text.simps(1))
qed

theorem f_b64_ntop_text_witness:
  "f_b64_ntop [0x4D, 0x61] 64 5 empty_mem = (4, store_bytes empty_mem 64 [0x54, 0x57, 0x45, 0x3D, 0])"
  using b64_text_example f_b64_ntop_text [of "[0x4D, 0x61]" 5 64 empty_mem] by simp

text \<open>A target without room for the text and its terminator makes \<open>f_b64_ntop\<close> return -1.\<close>

theorem f_b64_ntop_short:
  assumes "targsize \<le> length (b64_text src)" "targsize + 4 < SIZE_MOD"
  shows "fst (f_b64_ntop src target targsize m) = - 1"
proof -
  let ?f = "b64_text (full_part src)" and ?l = "b64_text (last_part src)"
  have parts: "b64_text src = ?f @ ?l" by (rule b64_text_parts)
  have l4: "last_part src \<noteq> [] \<Longrightarrow> length ?l = 4" "last_part src = [] \<Longrightarrow> ?l = []"
    using last_part_short [of src] by (cases "last_part src" rule: b64_text.cases; simp add: b64_text.simps)+
  show ?thesis
  proof (cases "length ?f \<le> targsize")
    case True
    then show ?thesis using ntop_loop_room [of 0 src targsize target m] assms parts l4
      by (cases "last_part src = []") (auto simp: f_b64_ntop_def)
  next
    case False
    then show ?thesis using ntop_loop_full [of targsize 0 src target m] assms by (auto simp: f_b64_ntop_def)
  qed
qed

theorem f_b64_ntop_short_witness: "fst (f_b64_ntop [0x4D, 0x61] 64 4 empty_mem) = - 1"
  using b64_text_example f_b64_ntop_short [of 4 "[0x4D, 0x61]" 64 empty_mem] by simp

text \<open>\<open>f_b64_ntop\<close> writes nothing outside the \<open>targsize\<close> bytes of the target, whether it succeeds or fails.\<close>

theorem f_b64_ntop_frame:
  assumes "targsize + 4 < SIZE_MOD"
  shows "same_outside m (snd (f_b64_ntop src target targsize m)) target targsize"
proof -
  obtain ok rest dl m1 where loop: "ntop_loop src 0 target targsize m = (ok, rest, dl, m1)"
    by (metis prod_cases4)
  from ntop_loop_frame [OF loop] assms have f: "same_outside m m1 target targsize" "dl \<le> targsize" by simp_all
  have pad: "same_outside m (store_bytes m1 (target + dl) (b64_last rest)) target targsize"
    if "dl + 4 \<le> targsize"
    using that by (intro same_outside_trans [OF f(1)] same_outside_store_bytes) (simp_all add: b64_last_def Let_def)
  have nul: "same_outside m (store (Suc 0) m2 (target + dl') 0) target targsize"
    if "same_outside m m2 target targsize" "dl' \<le> targsize" "targsize \<noteq> dl'" for m2 dl'
    using that(2-) by (intro same_outside_trans [OF that(1)] same_outside_store) simp_all
  have "dl + 4 < SIZE_MOD" using f assms by simp
  then show ?thesis using f pad nul assms
    by (auto simp: f_b64_ntop_def loop Let_def not_less split: bool.splits)
qed

theorem f_b64_ntop_frame_witness:
  "same_outside empty_mem (snd (f_b64_ntop [0x4D, 0x61] 64 4 empty_mem)) 64 4"
  using f_b64_ntop_frame [of 4 empty_mem "[0x4D, 0x61]" 64] by simp

text \<open>C19. Decoding the base64 text of any bytes gives the bytes and their number. When their number is no multiple
  of three one zero byte is written after them, for which the target needs room too.\<close>

theorem f_b64_roundtrip:
  assumes "target \<noteq> 0" "length src < 2 ^ 31" "length src < targsize"
  shows "f_b64_pton (b64_text src) target targsize m =
     (int (length src), store_bytes m target (src @ (if length src mod 3 = 0 then [] else [0])))"
  using pton_text [of target 0 src targsize m] assms by (simp add: f_b64_pton_def pad_zero_def)

theorem f_b64_roundtrip_witness:
  "f_b64_pton [0x54, 0x57, 0x45, 0x3D] 64 3 empty_mem = (2, store_bytes empty_mem 64 [0x4D, 0x61, 0])"
  using b64_text_example f_b64_roundtrip [of 64 "[0x4D, 0x61]" 3 empty_mem] by simp

text \<open>C27. \<open>f_b64_pton\<close> writes nothing outside the \<open>targsize\<close> bytes of the target, on any input text.\<close>

theorem f_b64_pton_frame:
  "target \<noteq> 0 \<Longrightarrow> same_outside m (snd (f_b64_pton src target targsize m)) target targsize"
  using pton_loop_frame [of target targsize "(0, 0, m)" src]
  by (auto simp: f_b64_pton_def pton_finish_def pton_ok_def split: sum.splits prod.splits if_splits)

theorem f_b64_pton_frame_witness:
  "same_outside empty_mem (snd (f_b64_pton [0x54, 0x57, 0x45, 0x3D] 64 1 empty_mem)) 64 1"
  using f_b64_pton_frame [of 64 empty_mem "[0x54, 0x57, 0x45, 0x3D]" 1] by simp

end
