(* ===== verification/LDB_Coding.thy ===== *)
theory LDB_Coding
  imports Leb128
begin

unbundle bit_operations_syntax

text \<open>
  LevelDB's slices and integer coding (\<^verbatim>\<open>leveldb/slice.h\<close>, \<^verbatim>\<open>util/coding.h\<close>, \<^verbatim>\<open>util/coding.cc\<close>). A
  \<^verbatim>\<open>Slice\<close> or \<^verbatim>\<open>std::string\<close> is the list of its bytes; a pair of pointers into a buffer, the next byte and
  the limit, is the list of the bytes between them. A writer returns the bytes it appends, a reader
  the value and the rest of its input, or \<open>None\<close> where the C++ returns a null pointer or false.
\<close>

section \<open>Slices\<close>

definition Slice_remove_prefix :: "byte list \<Rightarrow> nat \<Rightarrow> byte list" where
  "Slice_remove_prefix s n = drop n s"

text \<open>\<^verbatim>\<open>memcmp\<close> of the common length, as the sign of its result.\<close>

fun memcmp :: "byte list \<Rightarrow> byte list \<Rightarrow> int" where
  "memcmp (a # as) (b # bs) = (if a < b then - 1 else if b < a then 1 else memcmp as bs)"
| "memcmp _ _ = 0"

definition Slice_compare :: "byte list \<Rightarrow> byte list \<Rightarrow> int" where
  "Slice_compare a b =
     (let min_len = (if length a < length b then length a else length b);
          r = memcmp (take min_len a) (take min_len b) in
      if r = 0 then (if length a < length b then - 1 else if length a > length b then 1 else r) else r)"

definition Slice_starts_with :: "byte list \<Rightarrow> byte list \<Rightarrow> bool" where
  "Slice_starts_with s x \<longleftrightarrow> length s \<ge> length x \<and> memcmp (take (length x) s) x = 0"

definition Slice_eq :: "byte list \<Rightarrow> byte list \<Rightarrow> bool" where
  "Slice_eq x y \<longleftrightarrow> length x = length y \<and> memcmp x y = 0"

section \<open>Fixed width integers\<close>

text \<open>The branch for little-endian machines copies the object representation.\<close>

definition EncodeFixed32 :: "u32 \<Rightarrow> byte list" where
  "EncodeFixed32 value = le_bytes 4 (unat value)"

definition EncodeFixed64 :: "u64 \<Rightarrow> byte list" where
  "EncodeFixed64 value = le_bytes 8 (unat value)"

definition PutFixed32 :: "byte list \<Rightarrow> u32 \<Rightarrow> byte list" where
  "PutFixed32 dst value = dst @ EncodeFixed32 value"

definition PutFixed64 :: "byte list \<Rightarrow> u64 \<Rightarrow> byte list" where
  "PutFixed64 dst value = dst @ EncodeFixed64 value"

definition DecodeFixed32 :: "byte list \<Rightarrow> u32" where
  "DecodeFixed32 p = of_nat (le_val (take 4 p))"

definition DecodeFixed64 :: "byte list \<Rightarrow> u64" where
  "DecodeFixed64 p = of_nat (le_val (take 8 p))"

section \<open>Varints\<close>

definition EncodeVarint32 :: "u32 \<Rightarrow> byte list" where
  "EncodeVarint32 v =
     (if v < 2 ^ 7 then [ucast v]
      else if v < 2 ^ 14 then [ucast (v OR 128), ucast (drop_bit 7 v)]
      else if v < 2 ^ 21 then [ucast (v OR 128), ucast (drop_bit 7 v OR 128), ucast (drop_bit 14 v)]
      else if v < 2 ^ 28 then
        [ucast (v OR 128), ucast (drop_bit 7 v OR 128), ucast (drop_bit 14 v OR 128), ucast (drop_bit 21 v)]
      else
        [ucast (v OR 128), ucast (drop_bit 7 v OR 128), ucast (drop_bit 14 v OR 128),
         ucast (drop_bit 21 v OR 128), ucast (drop_bit 28 v)])"

definition PutVarint32 :: "byte list \<Rightarrow> u32 \<Rightarrow> byte list" where
  "PutVarint32 dst v = dst @ EncodeVarint32 v"

function EncodeVarint64 :: "u64 \<Rightarrow> byte list" where
  "EncodeVarint64 v =
     (if v \<ge> 128 then ucast (v OR 128) # EncodeVarint64 (drop_bit 7 v) else [ucast v])"
  by pat_completeness auto
termination
  by (relation "measure unat") (auto intro!: drop_bit_7_less)

declare EncodeVarint64.simps [simp del]

definition PutVarint64 :: "byte list \<Rightarrow> u64 \<Rightarrow> byte list" where
  "PutVarint64 dst v = dst @ EncodeVarint64 v"

definition PutLengthPrefixedSlice :: "byte list \<Rightarrow> byte list \<Rightarrow> byte list" where
  "PutLengthPrefixedSlice dst value = PutVarint32 dst (of_nat (length value)) @ value"

function VarintLength_loop :: "u64 \<Rightarrow> nat \<Rightarrow> nat" where
  "VarintLength_loop v len = (if v \<ge> 128 then VarintLength_loop (drop_bit 7 v) (len + 1) else len)"
  by pat_completeness auto
termination
  by (relation "measure (\<lambda>(v, _). unat v)") (auto intro!: drop_bit_7_less)

declare VarintLength_loop.simps [simp del]

definition VarintLength :: "u64 \<Rightarrow> nat" where
  "VarintLength v = VarintLength_loop v 1"

text \<open>The loops of the two readers, on the bytes up to the limit.\<close>

fun GetVarint32_loop :: "nat \<Rightarrow> u32 \<Rightarrow> byte list \<Rightarrow> (u32 \<times> byte list) option" where
  "GetVarint32_loop shift result [] = None"
| "GetVarint32_loop shift result (b # p) =
     (if shift > 28 then None
      else if b AND 128 \<noteq> 0
      then GetVarint32_loop (shift + 7) (result OR push_bit shift (ucast (b AND 127))) p
      else Some (result OR push_bit shift (ucast b), p))"

definition GetVarint32PtrFallback :: "byte list \<Rightarrow> (u32 \<times> byte list) option" where
  "GetVarint32PtrFallback p = GetVarint32_loop 0 0 p"

definition GetVarint32Ptr :: "byte list \<Rightarrow> (u32 \<times> byte list) option" where
  "GetVarint32Ptr p =
     (case p of
        b # q \<Rightarrow> (if b AND 128 = 0 then Some (ucast b, q) else GetVarint32PtrFallback p)
      | [] \<Rightarrow> GetVarint32PtrFallback p)"

text \<open>The readers on a slice: \<^verbatim>\<open>*input\<close> keeps its value when they fail.\<close>

definition GetVarint32 :: "byte list \<Rightarrow> u32 option \<times> byte list" where
  "GetVarint32 input =
     (case GetVarint32Ptr input of None \<Rightarrow> (None, input) | Some (v, q) \<Rightarrow> (Some v, q))"

fun GetVarint64_loop :: "nat \<Rightarrow> u64 \<Rightarrow> byte list \<Rightarrow> (u64 \<times> byte list) option" where
  "GetVarint64_loop shift result [] = None"
| "GetVarint64_loop shift result (b # p) =
     (if shift > 63 then None
      else if b AND 128 \<noteq> 0
      then GetVarint64_loop (shift + 7) (result OR push_bit shift (ucast (b AND 127))) p
      else Some (result OR push_bit shift (ucast b), p))"

definition GetVarint64Ptr :: "byte list \<Rightarrow> (u64 \<times> byte list) option" where
  "GetVarint64Ptr p = GetVarint64_loop 0 0 p"

definition GetVarint64 :: "byte list \<Rightarrow> u64 option \<times> byte list" where
  "GetVarint64 input =
     (case GetVarint64Ptr input of None \<Rightarrow> (None, input) | Some (v, q) \<Rightarrow> (Some v, q))"

definition GetLengthPrefixedSlicePtr :: "byte list \<Rightarrow> (byte list \<times> byte list) option" where
  "GetLengthPrefixedSlicePtr p =
     (case GetVarint32Ptr p of
        None \<Rightarrow> None
      | Some (len, q) \<Rightarrow> (if unat len > length q then None else Some (take (unat len) q, drop (unat len) q)))"

text \<open>The version on a slice leaves the length consumed when the rest is too short.\<close>

definition GetLengthPrefixedSlice :: "byte list \<Rightarrow> byte list option \<times> byte list" where
  "GetLengthPrefixedSlice input =
     (case GetVarint32 input of
        (Some len, input1) \<Rightarrow>
          (if length input1 \<ge> unat len
           then (Some (take (unat len) input1), Slice_remove_prefix input1 (unat len))
           else (None, input1))
      | (None, input1) \<Rightarrow> (None, input1))"

section \<open>Fixed width lemmas\<close>

lemma length_EncodeFixed [simp]: "length (EncodeFixed32 a) = 4" "length (EncodeFixed64 b) = 8"
  by (simp_all add: EncodeFixed32_def EncodeFixed64_def)

lemma DecodeFixed32_Encode [simp]: "DecodeFixed32 (EncodeFixed32 v @ rest) = v"
proof -
  have "unat v < 2 ^ 32" using unsigned_less [of v, where 'a = nat] by simp
  then show ?thesis by (simp add: DecodeFixed32_def EncodeFixed32_def le_val_le_bytes)
qed

lemma DecodeFixed64_Encode [simp]: "DecodeFixed64 (EncodeFixed64 v @ rest) = v"
proof -
  have "unat v < 2 ^ 64" using unsigned_less [of v, where 'a = nat] by simp
  then show ?thesis by (simp add: DecodeFixed64_def EncodeFixed64_def le_val_le_bytes)
qed

section \<open>Varint lemmas\<close>

lemma continue_byte:
  "7 < LENGTH('a) \<Longrightarrow> ucast (v OR 128) = (of_nat (unat v mod 128 + 128) :: byte)" for v :: "'a::len word"
proof -
  assume "7 < LENGTH('a)"
  then have "ucast (v OR 128) = ucast (v AND 0x7F) OR (0x80 :: byte)"
    by (auto simp: byte_eq_iff bit_simps)
  then show ?thesis using high_bit [of "unat v mod 128"] by (simp add: low_seven)
qed

lemma unat_drop_bit_div: "unat (drop_bit k v) = unat v div 2 ^ k" for v :: "'a::len word"
  by (simp add: unat_drop_bit_eq drop_bit_eq_div [of k "unat v"])

lemma EncodeVarint64_leb128: "EncodeVarint64 v = leb128 (unat v)"
proof (induction v rule: EncodeVarint64.induct)
  case (1 v)
  show ?case
  proof (cases "v \<ge> 128")
    case True
    then have "\<not> unat v < 128" by (simp add: word_le_nat_alt)
    with True 1 [OF True] show ?thesis
      by (simp add: EncodeVarint64.simps [of v] leb128_large continue_byte unat_drop_bit_div)
  next
    case False
    then have "unat v < 128" by (simp add: word_le_nat_alt)
    with False show ?thesis by (simp add: EncodeVarint64.simps [of v] leb128_small)
  qed
qed

lemma EncodeVarint32_leb128: "EncodeVarint32 v = leb128 (unat v)"
proof -
  let ?n = "unat v"
  have n: "?n < 4294967296" using unsigned_less [of v, where 'a = nat] by simp
  have c: "ucast (drop_bit k v OR 128) = (of_nat (?n div 2 ^ k mod 128 + 128) :: byte)" for k
    using continue_byte [of "drop_bit k v"] by (simp add: unat_drop_bit_div)
  have l: "ucast (drop_bit k v) = (of_nat (?n div 2 ^ k) :: byte)" for k
    by (metis of_nat_unat unat_drop_bit_div)
  have lt: "v < 2 ^ 7 \<longleftrightarrow> ?n < 128" "v < 2 ^ 14 \<longleftrightarrow> ?n < 16384" "v < 2 ^ 21 \<longleftrightarrow> ?n < 2097152"
    "v < 2 ^ 28 \<longleftrightarrow> ?n < 268435456" by (simp_all add: word_less_nat_alt)
  have dl: "?n div 128 < 128 \<longleftrightarrow> ?n < 16384" "?n div 16384 < 128 \<longleftrightarrow> ?n < 2097152"
    "?n div 2097152 < 128 \<longleftrightarrow> ?n < 268435456" "?n div 268435456 < 128"
    using n by (simp_all add: div_less_iff_less_mult)
  note expand = leb128.simps [of ?n] leb128.simps [of "?n div 128"] leb128.simps [of "?n div 16384"]
    leb128.simps [of "?n div 2097152"] leb128.simps [of "?n div 268435456"]
  show ?thesis
    using n unfolding EncodeVarint32_def lt expand
    by (simp add: c l dl continue_byte div_mult2_eq [symmetric] expand)
qed


lemma byte_stop: "b AND 128 = 0 \<longleftrightarrow> unat b < 128" for b :: byte
  using byte_continues [of b] by simp

lemma byte_digit: "(ucast (b AND 127) :: 'a::len word) = of_nat (unat b mod 128)" for b :: byte
  using byte_low_seven [of b] by simp

lemma ucast_of_nat_byte: "n < 256 \<Longrightarrow> ucast (of_nat n :: byte) = of_nat n"
  by (metis mod_less of_nat_unat unat_of_nat_byte)

lemma GetVarint32_loop_leb128:
  assumes "shift \<le> 28" "7 dvd shift" "n < 2 ^ (32 - shift)"
  shows "GetVarint32_loop shift r (leb128 n @ rest) = Some (r OR push_bit shift (of_nat n), rest)"
  using assms
proof (induction n arbitrary: shift r rule: leb128.induct)
  case (1 n)
  show ?case
  proof (cases "n < 128")
    case True
    with 1(2) show ?thesis by (simp add: leb128_small byte_stop unat_of_nat_byte ucast_of_nat_byte)
  next
    case False
    note more = seven_more_bits [OF 1(4) False]
    obtain k where "shift = 7 * k" using 1(3) by (elim dvdE)
    with more(1) have "shift + 7 \<le> 28" "7 dvd shift + 7" by simp_all
    with 1(1) [OF False this more(2)] unat_continue [of "n mod 128"] or_push_digit [of r shift n] False 1(2)
    show ?thesis by (simp add: leb128_large byte_stop byte_digit del: of_nat_add)
  qed
qed

lemma GetVarint64_loop_leb128:
  assumes "shift \<le> 63" "n < 2 ^ (64 - shift)"
  shows "GetVarint64_loop shift r (leb128 n @ rest) = Some (r OR push_bit shift (of_nat n), rest)"
  using assms
proof (induction n arbitrary: shift r rule: leb128.induct)
  case (1 n)
  show ?case
  proof (cases "n < 128")
    case True
    with 1 show ?thesis by (simp add: leb128_small byte_stop unat_of_nat_byte ucast_of_nat_byte)
  next
    case False
    note more = seven_more_bits [OF 1(3) False]
    with 1(1) [OF False _ more(2)] unat_continue [of "n mod 128"] or_push_digit [of r shift n] False 1(2)
    show ?thesis by (simp add: leb128_large byte_stop byte_digit del: of_nat_add)
  qed
qed

lemma GetVarint32Ptr_leb128:
  assumes "n < 2 ^ 32"
  shows "GetVarint32Ptr (leb128 n @ rest) = Some (of_nat n, rest)"
proof (cases "n < 128")
  case True
  then show ?thesis by (simp add: GetVarint32Ptr_def leb128_small byte_stop unat_of_nat_byte ucast_of_nat_byte)
next
  case False
  then have "\<not> unat (of_nat (n mod 128 + 128) :: byte) < 128" by (simp add: unat_continue del: of_nat_add)
  moreover have "GetVarint32_loop 0 0 (leb128 n @ rest) = Some (of_nat n, rest)"
    using assms GetVarint32_loop_leb128 [of 0 n 0 rest] by simp
  ultimately show ?thesis
    by (simp add: GetVarint32Ptr_def GetVarint32PtrFallback_def leb128_large [OF False] byte_stop del: of_nat_add)
qed

lemma GetVarint32Ptr_Encode [simp]: "GetVarint32Ptr (EncodeVarint32 v @ rest) = Some (v, rest)"
  using GetVarint32Ptr_leb128 [of "unat v" rest] unsigned_less [of v, where 'a = nat]
  by (simp add: EncodeVarint32_leb128)

lemma GetVarint32_Encode [simp]: "GetVarint32 (EncodeVarint32 v @ rest) = (Some v, rest)"
  by (simp add: GetVarint32_def)

lemma GetVarint64_Encode [simp]: "GetVarint64 (EncodeVarint64 v @ rest) = (Some v, rest)"
  using GetVarint64_loop_leb128 [of 0 "unat v" 0 rest] unsigned_less [of v, where 'a = nat]
  by (simp add: GetVarint64_def GetVarint64Ptr_def EncodeVarint64_leb128)

lemma GetLengthPrefixedSlice_Put [simp]:
  assumes "length value < 2 ^ 32"
  shows "GetLengthPrefixedSlice (EncodeVarint32 (of_nat (length value)) @ value @ rest) = (Some value, rest)"
    "GetLengthPrefixedSlicePtr (EncodeVarint32 (of_nat (length value)) @ value @ rest) = Some (value, rest)"
proof -
  have "unat (of_nat (length value) :: u32) = length value" using assms by (simp add: unat_of_nat)
  then show "GetLengthPrefixedSlice (EncodeVarint32 (of_nat (length value)) @ value @ rest) = (Some value, rest)"
    "GetLengthPrefixedSlicePtr (EncodeVarint32 (of_nat (length value)) @ value @ rest) = Some (value, rest)"
    by (simp_all add: GetLengthPrefixedSlice_def GetLengthPrefixedSlicePtr_def Slice_remove_prefix_def)
qed

text \<open>What the readers leave is never longer than what they were given.\<close>

lemma GetVarint32_loop_length: "GetVarint32_loop shift result p = Some (v, q) \<Longrightarrow> length q < length p"
  by (induction shift result p rule: GetVarint32_loop.induct) (auto split: if_splits)

lemma GetVarint32_length: "GetVarint32 p = (r, q) \<Longrightarrow> length q \<le> length p \<and> (r \<noteq> None \<longrightarrow> length q < length p)"
  by (auto simp: GetVarint32_def GetVarint32Ptr_def GetVarint32PtrFallback_def dest!: GetVarint32_loop_length
      split: option.splits list.splits if_splits)

lemma GetLengthPrefixedSlice_length: "GetLengthPrefixedSlice p = (r, q) \<Longrightarrow> length q \<le> length p"
  by (auto simp: GetLengthPrefixedSlice_def Slice_remove_prefix_def dest!: GetVarint32_length
      split: prod.splits option.splits if_splits)

lemma GetVarint64_loop_length: "GetVarint64_loop shift result p = Some (v, q) \<Longrightarrow> length q < length p"
  by (induction shift result p rule: GetVarint64_loop.induct) (auto split: if_splits)

lemma GetVarint64_length: "GetVarint64 p = (r, q) \<Longrightarrow> length q \<le> length p"
  by (auto simp: GetVarint64_def GetVarint64Ptr_def dest!: GetVarint64_loop_length split: option.splits)

lemma VarintLength_loop_eq: "VarintLength_loop v len + 1 = len + length (EncodeVarint64 v)"
proof (induction v len rule: VarintLength_loop.induct)
  case (1 v len)
  then show ?case by (simp add: VarintLength_loop.simps [of v] EncodeVarint64.simps [of v])
qed

section \<open>Properties\<close>

text \<open>
  What LevelDB's integer coding writes it reads back: fixed width integers, both varints and length
  prefixed slices, in front of any further bytes, which are left as the rest of the input.
\<close>

theorem ldb_coding_roundtrip:
  assumes "length value < 2 ^ 32"
  shows "DecodeFixed32 (PutFixed32 [] a @ rest) = a \<and> DecodeFixed64 (PutFixed64 [] b @ rest) = b \<and>
     GetVarint32 (PutVarint32 [] a @ rest) = (Some a, rest) \<and>
     GetVarint64 (PutVarint64 [] b @ rest) = (Some b, rest) \<and>
     GetLengthPrefixedSlice (PutLengthPrefixedSlice [] value @ rest) = (Some value, rest)"
  using assms
  by (simp add: PutFixed32_def PutFixed64_def PutVarint32_def PutVarint64_def PutLengthPrefixedSlice_def)

theorem ldb_coding_roundtrip_witness:
  "GetVarint32 (PutVarint32 [] 300 @ [9]) = (Some 300, [9]) \<and>
   GetLengthPrefixedSlice (PutLengthPrefixedSlice [] [1, 2, 3] @ [9]) = (Some [1, 2, 3], [9])"
  using ldb_coding_roundtrip [of "[1, 2, 3]" 300 "[9]" 0] by simp

text \<open>
  The unrolled 32-bit encoder and the 64-bit loop write the same bytes, the minimal base-128 encoding of
  the value; \<^verbatim>\<open>VarintLength\<close> is its length, and it fits the buffers of 5 and 10 bytes on the stack of
  \<^verbatim>\<open>PutVarint32\<close> and \<^verbatim>\<open>PutVarint64\<close>.
\<close>

theorem ldb_varint_encoders_agree:
  "EncodeVarint32 v = EncodeVarint64 (ucast v) \<and> EncodeVarint64 w = leb128 (unat w) \<and>
   VarintLength w = length (EncodeVarint64 w) \<and> length (EncodeVarint32 v) \<le> 5 \<and> length (EncodeVarint64 w) \<le> 10"
proof -
  have "unat v < 128 ^ 5" "unat w < 128 ^ 10"
    using unsigned_less [of v, where 'a = nat] unsigned_less [of w, where 'a = nat] by simp_all
  moreover have "unat (ucast v :: u64) = unat v"
    using unsigned_less [of v, where 'a = nat] by (simp add: unsigned_ucast_eq take_bit_eq_mod)
  moreover have "VarintLength w = length (EncodeVarint64 w)"
    using VarintLength_loop_eq [of w 1] by (simp add: VarintLength_def)
  ultimately show ?thesis by (simp add: EncodeVarint32_leb128 EncodeVarint64_leb128 length_leb128)
qed

lemma length_EncodeVarint32_le: "length (EncodeVarint32 v) \<le> 5"
  using ldb_varint_encoders_agree [of v 0] by blast

end
