(* ===== verification/LDB_Bloom.thy ===== *)
theory LDB_Bloom
  imports LDB_Coding
begin

unbundle bit_operations_syntax

text \<open>
  LevelDB's hash (\<^verbatim>\<open>util/hash.cc\<close>) and Bloom filter policy (\<^verbatim>\<open>util/bloom.cc\<close>), and the contract of a
  \<^verbatim>\<open>FilterPolicy\<close> (\<^verbatim>\<open>leveldb/filter_policy.h\<close>) as a locale that the filter block relies on.
\<close>

section \<open>Hash\<close>

definition hash_m :: u32 where "hash_m = 0xC6A4A793"

text \<open>The loop over four bytes at a time; it returns the hash and the remaining bytes.\<close>

fun Hash_loop :: "u32 \<Rightarrow> byte list \<Rightarrow> u32 \<times> byte list" where
  "Hash_loop h (a # b # c # d # data) =
     (let w = DecodeFixed32 [a, b, c, d]; h1 = (h + w) * hash_m in
      Hash_loop (h1 XOR drop_bit 16 h1) data)"
| "Hash_loop h data = (h, data)"

definition Hash :: "byte list \<Rightarrow> u32 \<Rightarrow> u32" where
  "Hash data seed =
     (case Hash_loop (seed XOR (of_nat (length data) * hash_m)) data of
        (h, rest) \<Rightarrow>
          if rest = [] then h
          else
            let h1 = (if length rest = 3 then h + push_bit 16 (ucast (rest ! 2)) else h);
                h2 = (if length rest \<ge> 2 then h1 + push_bit 8 (ucast (rest ! 1)) else h1);
                h3 = (h2 + ucast (rest ! 0)) * hash_m in
            h3 XOR drop_bit 24 h3)"

definition BloomHash :: "byte list \<Rightarrow> u32" where
  "BloomHash key = Hash key 0xBC9F1D34"

section \<open>The Bloom filter policy\<close>

text \<open>
  The constructor multiplies in double precision; its argument here is the truncated product
  \<^verbatim>\<open>static_cast<size_t>(bits_per_key * 0.69)\<close>.
\<close>

record bloom_policy =
  bloom_bits_per_key :: nat
  bloom_k :: nat

definition BloomFilterPolicy :: "nat \<Rightarrow> nat \<Rightarrow> bloom_policy" where
  "BloomFilterPolicy bits_per_key product =
     (let k = product; k1 = (if k < 1 then 1 else k); k2 = (if k1 > 30 then 30 else k1) in
      \<lparr>bloom_bits_per_key = bits_per_key, bloom_k = k2\<rparr>)"

definition bloom_delta :: "u32 \<Rightarrow> u32" where
  "bloom_delta h = drop_bit 17 h OR push_bit 15 h"

text \<open>The probes of one key: the inner loops of the writer and of the reader.\<close>

fun bloom_set :: "nat \<Rightarrow> nat \<Rightarrow> u32 \<Rightarrow> u32 \<Rightarrow> byte list \<Rightarrow> byte list" where
  "bloom_set 0 bits h delta array = array"
| "bloom_set (Suc j) bits h delta array =
     (let bitpos = unat h mod bits in
      bloom_set j bits (h + delta) delta
        (array[bitpos div 8 := array ! (bitpos div 8) OR push_bit (bitpos mod 8) 1]))"

fun bloom_test :: "nat \<Rightarrow> nat \<Rightarrow> u32 \<Rightarrow> u32 \<Rightarrow> byte list \<Rightarrow> bool" where
  "bloom_test 0 bits h delta array = True"
| "bloom_test (Suc j) bits h delta array =
     (let bitpos = unat h mod bits in
      if array ! (bitpos div 8) AND push_bit (bitpos mod 8) 1 = 0 then False
      else bloom_test j bits (h + delta) delta array)"

text \<open>The loop over the keys.\<close>

fun bloom_keys :: "bloom_policy \<Rightarrow> nat \<Rightarrow> byte list list \<Rightarrow> byte list \<Rightarrow> byte list" where
  "bloom_keys p bits [] array = array"
| "bloom_keys p bits (key # keys) array =
     (let h = BloomHash key in
      bloom_keys p bits keys (bloom_set (bloom_k p) bits h (bloom_delta h) array))"

definition bloom_bytes :: "bloom_policy \<Rightarrow> nat \<Rightarrow> nat" where
  "bloom_bytes p n =
     (let bits = (n * bloom_bits_per_key p) mod SIZE_MOD; bits1 = (if bits < 64 then 64 else bits) in
      ((bits1 + 7) mod SIZE_MOD) div 8)"

definition Bloom_Name :: "byte list" where
  "Bloom_Name = map of_char ''leveldb.BuiltinBloomFilter2''"

definition Bloom_CreateFilter :: "bloom_policy \<Rightarrow> byte list list \<Rightarrow> byte list \<Rightarrow> byte list" where
  "Bloom_CreateFilter p keys dst =
     (let bytes = bloom_bytes p (length keys) in
      dst @ bloom_keys p (bytes * 8) keys (replicate bytes 0) @ [of_nat (bloom_k p)])"

text \<open>The last byte is a signed char; a negative one converts to a \<^verbatim>\<open>size_t\<close> above 30.\<close>

definition Bloom_KeyMayMatch :: "bloom_policy \<Rightarrow> byte list \<Rightarrow> byte list \<Rightarrow> bool" where
  "Bloom_KeyMayMatch p key bloom_filter =
     (let len = length bloom_filter in
      if len < 2 then False
      else
        let bits = (len - 1) * 8; k = unat (bloom_filter ! (len - 1)) in
        if k > 30 then True
        else let h = BloomHash key in bloom_test k bits h (bloom_delta h) bloom_filter)"

section \<open>The contract of a filter policy\<close>

text \<open>
  A \<^verbatim>\<open>FilterPolicy\<close> object \<open>p\<close> that its class has set up (\<open>valid\<close>), with the virtual functions \<^verbatim>\<open>CreateFilter\<close> and
  \<^verbatim>\<open>KeyMayMatch\<close>: the filter of an array of at most \<^verbatim>\<open>INT_MAX\<close> keys is appended to the destination, and every
  key of the array matches it.
\<close>

locale filter_policy =
  fixes valid :: "'p \<Rightarrow> bool"
    and create :: "'p \<Rightarrow> byte list list \<Rightarrow> byte list \<Rightarrow> byte list"
    and may_match :: "'p \<Rightarrow> byte list \<Rightarrow> byte list \<Rightarrow> bool"
  assumes create_appends: "create p keys dst = dst @ create p keys []"
    and no_false_negative:
      "valid p \<Longrightarrow> length keys < 2 ^ 31 \<Longrightarrow> key \<in> set keys \<Longrightarrow> may_match p key (create p keys [])"

section \<open>Bits of the filter\<close>

definition filter_bit :: "byte list \<Rightarrow> nat \<Rightarrow> bool" where
  "filter_bit array pos \<longleftrightarrow> pos div 8 < length array \<and> bit (array ! (pos div 8)) (pos mod 8)"

lemma byte_bit_AND: "(b :: byte) AND push_bit n 1 = 0 \<longleftrightarrow> \<not> bit b n"
  by (metis and_exp_eq_0_iff_not_bit push_bit_of_1)

lemma length_bloom_set [simp]: "length (bloom_set j bits h delta array) = length array"
  by (induction j arbitrary: h array) (simp_all add: Let_def)

lemma length_bloom_keys [simp]: "length (bloom_keys p bits keys array) = length array"
  by (induction keys arbitrary: array) (simp_all add: Let_def)

lemma filter_bit_update:
  assumes "pos div 8 < length array"
  shows "filter_bit (array[pos div 8 := array ! (pos div 8) OR push_bit (pos mod 8) 1]) q \<longleftrightarrow>
     q = pos \<or> filter_bit array q"
proof (cases "q div 8 = pos div 8")
  case True
  then have "q = pos \<longleftrightarrow> q mod 8 = pos mod 8" by (metis div_mult_mod_eq)
  with True assms show ?thesis by (auto simp: filter_bit_def bit_simps)
next
  case False
  with assms show ?thesis by (auto simp: filter_bit_def)
qed

lemma bloom_set_keeps:
  assumes "bits \<le> 8 * length array" "0 < bits" "filter_bit array q"
  shows "filter_bit (bloom_set j bits h delta array) q"
  using assms
proof (induction j arbitrary: h array)
  case (Suc j)
  have "unat h mod bits < bits" using Suc.prems(2) by simp
  then have "unat h mod bits div 8 < length array" using Suc.prems(1) by linarith
  from filter_bit_update [OF this] Suc show ?case by (simp add: Let_def)
qed simp

lemma bloom_keys_keeps:
  "bits \<le> 8 * length array \<Longrightarrow> 0 < bits \<Longrightarrow> filter_bit array q \<Longrightarrow> filter_bit (bloom_keys p bits keys array) q"
  by (induction keys arbitrary: array) (simp_all add: Let_def bloom_set_keeps)

text \<open>The position that the double hashing probes in round \<open>i\<close>.\<close>

definition bloom_probe :: "nat \<Rightarrow> u32 \<Rightarrow> u32 \<Rightarrow> nat \<Rightarrow> nat" where
  "bloom_probe bits h delta i = unat (h + of_nat i * delta) mod bits"

lemma bloom_probe_0 [simp]: "bloom_probe bits h delta 0 = unat h mod bits"
  by (simp add: bloom_probe_def)

lemma bloom_probe_Suc [simp]: "bloom_probe bits h delta (Suc i) = bloom_probe bits (h + delta) delta i"
  by (simp add: bloom_probe_def algebra_simps)

lemma bloom_test_probes:
  "bloom_test j bits h delta array \<longleftrightarrow>
     (\<forall>i < j. bit (array ! (bloom_probe bits h delta i div 8)) (bloom_probe bits h delta i mod 8))"
  by (induction j arbitrary: h) (simp_all add: Let_def byte_bit_AND All_less_Suc2 del: push_bit_of_1)

lemma bloom_set_probes:
  assumes "bits \<le> 8 * length array" "0 < bits" "i < j"
  shows "filter_bit (bloom_set j bits h delta array) (bloom_probe bits h delta i)"
  using assms
proof (induction j arbitrary: h array i)
  case (Suc j)
  have "unat h mod bits < bits" using Suc.prems(2) by simp
  then have inside: "unat h mod bits div 8 < length array" using Suc.prems(1) by linarith
  show ?case
  proof (cases i)
    case 0
    with Suc.prems filter_bit_update [OF inside] show ?thesis
      by (simp add: Let_def bloom_set_keeps)
  next
    case (Suc i')
    with Suc.prems show ?thesis by (simp add: Let_def Suc.IH)
  qed
qed simp

lemma bloom_keys_probes:
  assumes "bits \<le> 8 * length array" "0 < bits" "key \<in> set keys" "i < bloom_k p"
  shows "filter_bit (bloom_keys p bits keys array)
     (bloom_probe bits (BloomHash key) (bloom_delta (BloomHash key)) i)"
  using assms
proof (induction keys arbitrary: array)
  case (Cons key' keys)
  show ?case
  proof (cases "key \<in> set keys")
    case True
    with Cons show ?thesis by (simp add: Let_def)
  next
    case False
    with Cons.prems show ?thesis by (simp add: Let_def bloom_keys_keeps bloom_set_probes)
  qed
qed simp

text \<open>What the constructor establishes for a non-negative \<^verbatim>\<open>int bits_per_key\<close>.\<close>

definition bloom_ok :: "bloom_policy \<Rightarrow> bool" where
  "bloom_ok p \<longleftrightarrow> 1 \<le> bloom_k p \<and> bloom_k p \<le> 30 \<and> bloom_bits_per_key p < 2 ^ 31"

lemma BloomFilterPolicy_ok: "bits_per_key < 2 ^ 31 \<Longrightarrow> bloom_ok (BloomFilterPolicy bits_per_key product)"
  by (simp add: bloom_ok_def BloomFilterPolicy_def Let_def)

lemma bloom_bytes_pos:
  assumes "bloom_ok p" "n < 2 ^ 31"
  shows "8 \<le> bloom_bytes p n"
proof -
  have "n * bloom_bits_per_key p \<le> 2 ^ 31 * 2 ^ 31"
    using assms by (intro mult_mono) (simp_all add: bloom_ok_def)
  then have "n * bloom_bits_per_key p + 7 < SIZE_MOD" by simp
  then show ?thesis by (simp add: bloom_bytes_def Let_def) linarith
qed

lemma Bloom_matches:
  assumes "bloom_ok p" "length keys < 2 ^ 31" "key \<in> set keys"
  shows "Bloom_KeyMayMatch p key (Bloom_CreateFilter p keys [])"
proof -
  define bytes where "bytes = bloom_bytes p (length keys)"
  define arr where "arr = bloom_keys p (bytes * 8) keys (replicate bytes 0)"
  have pos: "8 \<le> bytes" using bloom_bytes_pos [OF assms(1,2)] by (simp add: bytes_def)
  have len: "length arr = bytes" by (simp add: arr_def)
  have filt: "Bloom_CreateFilter p keys [] = arr @ [of_nat (bloom_k p)]"
    by (simp add: Bloom_CreateFilter_def Let_def arr_def bytes_def)
  have k: "unat (of_nat (bloom_k p) :: byte) = bloom_k p"
    using assms(1) by (simp add: bloom_ok_def unat_of_nat)
  have "bloom_test (bloom_k p) (bytes * 8) (BloomHash key) (bloom_delta (BloomHash key))
      (arr @ [of_nat (bloom_k p)])"
    unfolding bloom_test_probes
  proof (intro allI impI)
    fix i assume "i < bloom_k p"
    with assms(3) pos have
      "filter_bit arr (bloom_probe (bytes * 8) (BloomHash key) (bloom_delta (BloomHash key)) i)"
      unfolding arr_def by (intro bloom_keys_probes) simp_all
    then show "bit ((arr @ [of_nat (bloom_k p)]) !
          (bloom_probe (bytes * 8) (BloomHash key) (bloom_delta (BloomHash key)) i div 8))
        (bloom_probe (bytes * 8) (BloomHash key) (bloom_delta (BloomHash key)) i mod 8)"
      by (simp add: filter_bit_def nth_append)
  qed
  with pos len k show ?thesis
    by (simp add: filt Bloom_KeyMayMatch_def Let_def nth_append)
qed

interpretation bloom: filter_policy bloom_ok Bloom_CreateFilter Bloom_KeyMayMatch
  by unfold_locales (simp add: Bloom_CreateFilter_def Let_def, rule Bloom_matches)

section \<open>Properties\<close>

text \<open>A Bloom filter has no false negatives: for every policy the constructor builds and every array of at
  most \<^verbatim>\<open>INT_MAX\<close> keys, \<^verbatim>\<open>KeyMayMatch\<close> answers true for each key that \<^verbatim>\<open>CreateFilter\<close> was given, whatever the
  other keys are and whatever the double hashing collides with; and the filter records the number of probes in
  its last byte, a value of 1 to 30 that is never read as a reserved encoding.\<close>

theorem bloom_no_false_negative:
  assumes "bits_per_key < 2 ^ 31" "length keys < 2 ^ 31" "key \<in> set keys"
    and "p = BloomFilterPolicy bits_per_key product"
  shows "Bloom_KeyMayMatch p key (Bloom_CreateFilter p keys []) \<and>
    unat (last (Bloom_CreateFilter p keys dst)) = bloom_k p \<and> bloom_k p \<in> {1..30}"
proof -
  have ok: "bloom_ok p" using assms BloomFilterPolicy_ok by simp
  then have "unat (of_nat (bloom_k p) :: byte) = bloom_k p"
    by (simp add: bloom_ok_def unat_of_nat)
  with ok Bloom_matches [OF ok assms(2,3)] show ?thesis
    by (simp add: Bloom_CreateFilter_def Let_def bloom_ok_def)
qed

theorem bloom_no_false_negative_witness:
  "Bloom_KeyMayMatch (BloomFilterPolicy 10 6) [104, 105] (Bloom_CreateFilter (BloomFilterPolicy 10 6) [[1], [104, 105]] [])"
  using bloom_no_false_negative [of 10 "[[1], [104, 105]]" "[104, 105]" _ 6] by simp

end
