(* ===== verification/LDB_Filter_Block.thy ===== *)
theory LDB_Filter_Block
  imports LDB_Bloom
begin

unbundle bit_operations_syntax

text \<open>
  The filter block of a table (\<^verbatim>\<open>table/filter_block.h\<close>, \<^verbatim>\<open>table/filter_block.cc\<close>): the builder that collects the
  keys of every 2 KB of table data into one filter, and the reader that finds the filter of a block offset. The
  builder calls its \<^verbatim>\<open>FilterPolicy\<close> through the interface of \<open>LDB_Bloom\<close>; the main property is proved once in the
  locale of that interface and instantiated with the Bloom policy.
\<close>

section \<open>The builder\<close>

definition kFilterBaseLg :: nat where "kFilterBaseLg = 11"

definition kFilterBase :: nat where "kFilterBase = 2 ^ kFilterBaseLg"

text \<open>\<^verbatim>\<open>tmp_keys_\<close> is empty between the calls and a local value of \<open>GenerateFilter\<close>.\<close>

record filter_block_builder =
  fb_keys :: "byte list"
  fb_start :: "nat list"
  fb_result :: "byte list"
  fb_filter_offsets :: "u32 list"

definition FilterBlockBuilder :: filter_block_builder where
  "FilterBlockBuilder = \<lparr>fb_keys = [], fb_start = [], fb_result = [], fb_filter_offsets = []\<rparr>"

definition GenerateFilter ::
    "(byte list list \<Rightarrow> byte list \<Rightarrow> byte list) \<Rightarrow> filter_block_builder \<Rightarrow> filter_block_builder" where
  "GenerateFilter CreateFilter b =
     (let num_keys = length (fb_start b) in
      if num_keys = 0 then b\<lparr>fb_filter_offsets := fb_filter_offsets b @ [of_nat (length (fb_result b))]\<rparr>
      else
        let start = fb_start b @ [length (fb_keys b)];
            tmp_keys = map (\<lambda>i. take (start ! (i + 1) - start ! i) (drop (start ! i) (fb_keys b))) [0..<num_keys] in
        \<lparr>fb_keys = [], fb_start = [], fb_result = CreateFilter tmp_keys (fb_result b),
         fb_filter_offsets = fb_filter_offsets b @ [of_nat (length (fb_result b))]\<rparr>)"

lemma length_GenerateFilter_offsets [simp]:
  "length (fb_filter_offsets (GenerateFilter create b)) = Suc (length (fb_filter_offsets b))"
  by (simp add: GenerateFilter_def Let_def)

text \<open>The \<^verbatim>\<open>while\<close> loop of \<^verbatim>\<open>StartBlock\<close>; its assertion is a requirement on the caller.\<close>

function StartBlock_loop ::
    "(byte list list \<Rightarrow> byte list \<Rightarrow> byte list) \<Rightarrow> nat \<Rightarrow> filter_block_builder \<Rightarrow> filter_block_builder" where
  "StartBlock_loop create filter_index b =
     (if filter_index > length (fb_filter_offsets b)
      then StartBlock_loop create filter_index (GenerateFilter create b) else b)"
  by pat_completeness auto
termination
  by (relation "measure (\<lambda>(_, filter_index, b). filter_index - length (fb_filter_offsets b))") auto

declare StartBlock_loop.simps [simp del]

definition StartBlock ::
    "(byte list list \<Rightarrow> byte list \<Rightarrow> byte list) \<Rightarrow> u64 \<Rightarrow> filter_block_builder \<Rightarrow> filter_block_builder" where
  "StartBlock create block_offset b = StartBlock_loop create (unat block_offset div kFilterBase) b"

definition AddKey :: "byte list \<Rightarrow> filter_block_builder \<Rightarrow> filter_block_builder" where
  "AddKey key b = b\<lparr>fb_start := fb_start b @ [length (fb_keys b)], fb_keys := fb_keys b @ key\<rparr>"

definition FilterBlock_Finish ::
    "(byte list list \<Rightarrow> byte list \<Rightarrow> byte list) \<Rightarrow> filter_block_builder \<Rightarrow> byte list" where
  "FilterBlock_Finish create b =
     (let b1 = (if fb_start b \<noteq> [] then GenerateFilter create b else b);
          array_offset = of_nat (length (fb_result b1));
          result1 = fold (\<lambda>offset result. PutFixed32 result offset) (fb_filter_offsets b1) (fb_result b1);
          result2 = PutFixed32 result1 array_offset in
      result2 @ [of_nat kFilterBaseLg])"

section \<open>The reader\<close>

text \<open>
  The pointers \<^verbatim>\<open>data_\<close> and \<^verbatim>\<open>offset_\<close> are the contents and the distance of \<^verbatim>\<open>offset_\<close> from their start; both
  pointers are null, and \<open>fr_data\<close> is empty, for contents that are too short or have a bad offset. \<^verbatim>\<open>base_lg_\<close> is a
  signed char converted to \<^verbatim>\<open>size_t\<close>.
\<close>

record filter_block_reader =
  fr_data :: "byte list"
  fr_offset :: nat
  fr_num :: nat
  fr_base_lg :: nat

definition char_to_size :: "byte \<Rightarrow> nat" where
  "char_to_size b = unat (scast b :: u64)"

definition FilterBlockReader :: "byte list \<Rightarrow> filter_block_reader" where
  "FilterBlockReader contents =
     (let n = length contents; r = \<lparr>fr_data = [], fr_offset = 0, fr_num = 0, fr_base_lg = 0\<rparr> in
      if n < 5 then r
      else
        let r1 = r\<lparr>fr_base_lg := char_to_size (contents ! (n - 1))\<rparr>;
            last_word = unat (DecodeFixed32 (drop (n - 5) contents)) in
        if last_word > n - 5 then r1
        else r1\<lparr>fr_data := contents, fr_offset := last_word, fr_num := (n - 5 - last_word) div 4\<rparr>)"

text \<open>A four byte read, \<open>None\<close> when it leaves the buffer.\<close>

definition read_fixed32 :: "byte list \<Rightarrow> nat \<Rightarrow> u32 option" where
  "read_fixed32 data pos = (if pos + 4 \<le> length data then Some (DecodeFixed32 (drop pos data)) else None)"

text \<open>\<open>None\<close> stands for undefined behaviour: a shift by 64 or more, or a read outside the contents.\<close>

definition FilterBlock_KeyMayMatch ::
    "(byte list \<Rightarrow> byte list \<Rightarrow> bool) \<Rightarrow> filter_block_reader \<Rightarrow> u64 \<Rightarrow> byte list \<Rightarrow> bool option" where
  "FilterBlock_KeyMayMatch KeyMayMatch r block_offset key =
     (if fr_base_lg r \<ge> 64 then None
      else
        let index = unat (drop_bit (fr_base_lg r) block_offset) in
        if index < fr_num r then
          (case (read_fixed32 (fr_data r) (fr_offset r + index * 4),
                 read_fixed32 (fr_data r) (fr_offset r + index * 4 + 4)) of
             (Some start, Some limit) \<Rightarrow>
               if start \<le> limit \<and> unat limit \<le> fr_offset r
               then Some (KeyMayMatch key (take (unat (limit - start)) (drop (unat start) (fr_data r))))
               else if start = limit then Some False
               else Some True
           | _ \<Rightarrow> None)
        else Some True)"

section \<open>Flattened lists\<close>

text \<open>
  Both the keys that wait for a filter and the filters themselves are stored as one string and the starting
  positions of its pieces.
\<close>

definition starts :: "'a list list \<Rightarrow> nat list" where
  "starts xs = map (\<lambda>i. length (concat (take i xs))) [0..<length xs]"

lemma starts_Nil [simp]: "starts [] = []"
  by (simp add: starts_def)

lemma length_starts [simp]: "length (starts xs) = length xs"
  by (simp add: starts_def)

lemma starts_snoc [simp]: "starts (xs @ [x]) = starts xs @ [length (concat xs)]"
  by (simp add: starts_def)

lemma starts_nth: "i \<le> length xs \<Longrightarrow> (starts xs @ [length (concat xs)]) ! i = length (concat (take i xs))"
  by (auto simp: starts_def nth_append)

lemma concat_piece:
  assumes "i < length xs"
  shows "take (length (concat (take (Suc i) xs)) - length (concat (take i xs)))
           (drop (length (concat (take i xs))) (concat xs)) = xs ! i"
proof -
  have "concat xs = concat (take i xs) @ xs ! i @ concat (drop (Suc i) xs)"
    using id_take_nth_drop [OF assms] by (metis concat.simps(2) concat_append)
  with assms show ?thesis by (simp add: take_Suc_conv_app_nth)
qed

lemma concat_take_mono: "length (concat (take i xs)) \<le> length (concat xs)"
  by (metis append_take_drop_id concat_append le_add1 length_append)

lemma concat_take_Suc_mono: "length (concat (take i xs)) \<le> length (concat (take (Suc i) xs))"
  by (metis concat_take_mono min.idem min_Suc2 take_take min.absorb1 le_SucI order_refl)

section \<open>The builder on lists of filters and keys\<close>

text \<open>
  The builder that has written the filters \<open>fs\<close> and has collected the keys \<open>ks\<close>, and the filter of a group of
  keys: the empty string without a call of the policy when there are none.
\<close>

definition builder_of :: "byte list list \<Rightarrow> byte list list \<Rightarrow> filter_block_builder" where
  "builder_of fs ks =
     \<lparr>fb_keys = concat ks, fb_start = starts ks, fb_result = concat fs, fb_filter_offsets = map of_nat (starts fs)\<rparr>"

definition group_filter :: "(byte list list \<Rightarrow> byte list \<Rightarrow> byte list) \<Rightarrow> byte list list \<Rightarrow> byte list" where
  "group_filter create ks = (if ks = [] then [] else create ks [])"

lemma FilterBlockBuilder_abs: "FilterBlockBuilder = builder_of [] []"
  by (simp add: FilterBlockBuilder_def builder_of_def)

lemma AddKey_abs [simp]: "AddKey key (builder_of fs ks) = builder_of fs (ks @ [key])"
  by (simp add: AddKey_def builder_of_def)

lemma tmp_keys_abs:
  "map (\<lambda>i. take ((starts ks @ [length (concat ks)]) ! (i + 1) - (starts ks @ [length (concat ks)]) ! i)
         (drop ((starts ks @ [length (concat ks)]) ! i) (concat ks))) [0..<length ks] = ks"
  by (rule nth_equalityI) (simp_all add: starts_nth concat_piece)

lemma GenerateFilter_abs:
  assumes "\<And>keys dst. create keys dst = dst @ create keys []"
  shows "GenerateFilter create (builder_of fs ks) = builder_of (fs @ [group_filter create ks]) []"
proof (cases "ks = []")
  case True
  then show ?thesis by (simp add: GenerateFilter_def builder_of_def group_filter_def)
next
  case False
  have "create ks (concat fs) = concat fs @ create ks []" by (rule assms)
  with False show ?thesis
    by (simp add: GenerateFilter_def builder_of_def group_filter_def Let_def tmp_keys_abs [simplified])
qed

section \<open>The contents of the block\<close>

definition offset_words :: "byte list list \<Rightarrow> u32 list" where
  "offset_words fs = map of_nat (starts fs @ [length (concat fs)])"

definition filter_contents :: "byte list list \<Rightarrow> byte list" where
  "filter_contents fs =
     concat fs @ concat (map EncodeFixed32 (offset_words fs)) @ [11]"

lemma fold_PutFixed32: "fold (\<lambda>offset result. PutFixed32 result offset) ws dst = dst @ concat (map EncodeFixed32 ws)"
  by (induction ws arbitrary: dst) (simp_all add: PutFixed32_def)

lemma length_concat_EncodeFixed32 [simp]: "length (concat (map EncodeFixed32 ws)) = 4 * length ws"
  by (induction ws) simp_all

lemma DecodeFixed32_nth:
  "i < length ws \<Longrightarrow> DecodeFixed32 (drop (i * 4) (concat (map EncodeFixed32 ws)) @ rest) = ws ! i"
  by (induction ws arbitrary: i) (auto simp: nth_Cons split: nat.split)

lemma Finish_abs:
  assumes "\<And>keys dst. create keys dst = dst @ create keys []"
  shows "FilterBlock_Finish create (builder_of fs ks) =
    filter_contents (fs @ (if ks = [] then [] else [group_filter create ks]))"
proof -
  have "starts ks \<noteq> [] \<longleftrightarrow> ks \<noteq> []" by (metis length_0_conv length_starts)
  then have "(if fb_start (builder_of fs ks) \<noteq> [] then GenerateFilter create (builder_of fs ks) else builder_of fs ks)
      = builder_of (fs @ (if ks = [] then [] else [group_filter create ks])) []"
    by (simp add: GenerateFilter_abs [OF assms]) (simp add: builder_of_def)
  then show ?thesis
    unfolding FilterBlock_Finish_def filter_contents_def
    by (simp add: fold_PutFixed32 Let_def kFilterBaseLg_def)
      (simp add: builder_of_def PutFixed32_def offset_words_def)
qed

lemma length_offset_words [simp]: "length (offset_words fs) = Suc (length fs)"
  by (simp add: offset_words_def)

lemma unat_offset_word:
  assumes "length (concat fs) < 2 ^ 32" "i \<le> length fs"
  shows "unat (offset_words fs ! i) = length (concat (take i fs))"
proof -
  have "offset_words fs ! i = of_nat (length (concat (take i fs)))"
    unfolding offset_words_def using assms(2) starts_nth [OF assms(2)] by (subst nth_map) simp_all
  with assms(1) concat_take_mono [of i fs] show ?thesis by (simp add: unat_of_nat)
qed

lemma length_filter_contents: "length (filter_contents fs) = length (concat fs) + 4 * length fs + 5"
  by (simp add: filter_contents_def)

lemma read_offset_word:
  assumes "i \<le> length fs"
  shows "DecodeFixed32 (drop (length (concat fs) + i * 4) (filter_contents fs)) = offset_words fs ! i"
  using assms DecodeFixed32_nth [of i "offset_words fs" "[11]"] by (simp add: filter_contents_def)

lemma FilterBlockReader_contents:
  assumes "length (concat fs) < 2 ^ 32"
  shows "FilterBlockReader (filter_contents fs) =
    \<lparr>fr_data = filter_contents fs, fr_offset = length (concat fs), fr_num = length fs, fr_base_lg = 11\<rparr>"
proof -
  have "DecodeFixed32 (drop (length (filter_contents fs) - 5) (filter_contents fs)) = offset_words fs ! length fs"
    using read_offset_word [of "length fs" fs] by (simp add: length_filter_contents mult.commute)
  moreover have "filter_contents fs ! (length (filter_contents fs) - 1) = 11"
    by (simp add: filter_contents_def nth_append)
  moreover have "unat (offset_words fs ! length fs) = length (concat fs)"
    using unat_offset_word [OF assms, of "length fs"] by simp
  moreover have "char_to_size 11 = 11" by (simp add: char_to_size_def)
  ultimately show ?thesis by (simp add: FilterBlockReader_def Let_def length_filter_contents)
qed

text \<open>The reader hands the policy exactly the filter of the block offset, and matches beyond the last filter.\<close>

lemma KeyMayMatch_contents:
  assumes "length (concat fs) < 2 ^ 32" "i = unat off div kFilterBase"
  shows "FilterBlock_KeyMayMatch km (FilterBlockReader (filter_contents fs)) off key =
    Some (i < length fs \<longrightarrow> km key (fs ! i))"
proof (cases "i < length fs")
  case True
  have index: "unat (drop_bit 11 off) = i"
    using assms(2) by (simp add: kFilterBase_def kFilterBaseLg_def drop_bit_eq_div unat_div)
  define s l where "s = offset_words fs ! i" and "l = offset_words fs ! Suc i"
  have u: "unat s = length (concat (take i fs))" "unat l = length (concat (take (Suc i) fs))"
    unfolding s_def l_def using True by (simp_all only: unat_offset_word [OF assms(1)] Suc_leI less_imp_le)
  then have le: "s \<le> l" using concat_take_Suc_mono [of i fs] by (simp add: word_le_nat_alt)
  have "take (unat (l - s)) (drop (unat s) (filter_contents fs)) = fs ! i"
  proof -
    have "unat (l - s) = unat l - unat s" using le by (simp add: unat_sub)
    with concat_piece [OF True] u concat_take_mono [of "Suc i" fs] show ?thesis
      by (simp add: filter_contents_def)
  qed
  moreover have "read_fixed32 (filter_contents fs) (length (concat fs) + i * 4) = Some s"
    "read_fixed32 (filter_contents fs) (length (concat fs) + i * 4 + 4) = Some l"
    using True read_offset_word [of i fs] read_offset_word [of "Suc i" fs]
    by (simp_all add: read_fixed32_def length_filter_contents s_def l_def algebra_simps)
  ultimately show ?thesis
    using True le u concat_take_mono [of "Suc i" fs]
    by (simp add: FilterBlock_KeyMayMatch_def FilterBlockReader_contents [OF assms(1)] index)
next
  case False
  then show ?thesis
    using assms(2) by (simp add: FilterBlock_KeyMayMatch_def FilterBlockReader_contents [OF assms(1)]
      kFilterBase_def kFilterBaseLg_def drop_bit_eq_div unat_div)
qed

section \<open>Runs of the builder\<close>

text \<open>
  The calls \<^verbatim>\<open>(StartBlock AddKey*)* Finish\<close> that the header of the class asks for: \<open>blocks\<close> lists the offset of
  every data block with its keys.
\<close>

definition build_block ::
    "(byte list list \<Rightarrow> byte list \<Rightarrow> byte list) \<Rightarrow> u64 \<times> byte list list \<Rightarrow> filter_block_builder \<Rightarrow> filter_block_builder"
  where "build_block create blk b = fold AddKey (snd blk) (StartBlock create (fst blk) b)"

definition filter_block ::
    "(byte list list \<Rightarrow> byte list \<Rightarrow> byte list) \<Rightarrow> (u64 \<times> byte list list) list \<Rightarrow> byte list" where
  "filter_block create blocks = FilterBlock_Finish create (fold (build_block create) blocks FilterBlockBuilder)"

definition block_index :: "u64 \<times> byte list list \<Rightarrow> nat" where
  "block_index blk = unat (fst blk) div kFilterBase"

text \<open>The same run on groups of keys: the closed groups and the open one.\<close>

definition start_group :: "nat \<Rightarrow> byte list list list \<times> byte list list \<Rightarrow> byte list list list \<times> byte list list" where
  "start_group i g =
     (if i > length (fst g) then (fst g @ snd g # replicate (i - Suc (length (fst g))) [], []) else g)"

definition add_group ::
    "u64 \<times> byte list list \<Rightarrow> byte list list list \<times> byte list list \<Rightarrow> byte list list list \<times> byte list list" where
  "add_group blk g = (let g1 = start_group (block_index blk) g in (fst g1, snd g1 @ snd blk))"

definition group_builder ::
    "(byte list list \<Rightarrow> byte list \<Rightarrow> byte list) \<Rightarrow> byte list list list \<times> byte list list \<Rightarrow> filter_block_builder" where
  "group_builder create g = builder_of (map (group_filter create) (fst g)) (snd g)"

lemma fold_AddKey_abs: "fold AddKey keys (builder_of fs ks) = builder_of fs (ks @ keys)"
  by (induction keys arbitrary: ks) simp_all

lemma length_builder_offsets [simp]: "length (fb_filter_offsets (builder_of fs ks)) = length fs"
  by (simp add: builder_of_def)

lemma StartBlock_loop_abs:
  assumes "\<And>keys dst. create keys dst = dst @ create keys []"
  shows "StartBlock_loop create i (group_builder create g) = group_builder create (start_group i g)"
proof (induction "i - length (fst g)" arbitrary: g)
  case 0
  then show ?case by (simp add: StartBlock_loop.simps group_builder_def start_group_def)
next
  case (Suc d)
  let ?g = "(fst g @ [snd g], [])"
  have "GenerateFilter create (group_builder create g) = group_builder create ?g"
    by (simp add: group_builder_def GenerateFilter_abs [of create, OF assms])
  moreover have "start_group i ?g = start_group i g"
  proof (cases "i = Suc (length (fst g))")
    case False
    from Suc(2) False have "i - Suc (length (fst g)) = Suc (i - Suc (Suc (length (fst g))))" by simp
    moreover from Suc(2) False have "length (fst g) < i" "Suc (length (fst g)) < i" by simp_all
    ultimately show ?thesis by (simp add: start_group_def)
  qed (simp add: start_group_def)
  moreover have "StartBlock_loop create i (group_builder create ?g) = group_builder create (start_group i ?g)"
    using Suc(2) by (intro Suc(1)) simp
  ultimately show ?case
    using Suc(2) by (simp add: StartBlock_loop.simps [of create i "group_builder create g"]) (simp add: group_builder_def)
qed

lemma build_blocks_abs:
  assumes "\<And>keys dst. create keys dst = dst @ create keys []"
  shows "fold (build_block create) blocks (group_builder create g) = group_builder create (fold add_group blocks g)"
proof (induction blocks arbitrary: g)
  case (Cons blk blocks)
  have "build_block create blk (group_builder create g) = group_builder create (add_group blk g)"
    using StartBlock_loop_abs [of create "block_index blk" g, OF assms]
    by (simp add: build_block_def StartBlock_def block_index_def)
      (simp add: group_builder_def add_group_def block_index_def fold_AddKey_abs Let_def)
  with Cons show ?case by simp
qed simp

definition closed_groups :: "byte list list list \<times> byte list list \<Rightarrow> byte list list list" where
  "closed_groups g = fst g @ (if snd g = [] then [] else [snd g])"

lemma filter_block_abs:
  assumes "\<And>keys dst. create keys dst = dst @ create keys []"
  shows "filter_block create blocks =
    filter_contents (map (group_filter create) (closed_groups (fold add_group blocks ([], []))))"
proof -
  have init: "FilterBlockBuilder = group_builder create ([], [])"
    by (simp add: FilterBlockBuilder_abs group_builder_def)
  have "filter_block create blocks =
      FilterBlock_Finish create (group_builder create (fold add_group blocks ([], [])))"
    unfolding filter_block_def init by (subst build_blocks_abs [of create, OF assms]) (rule refl)
  then show ?thesis
    by (simp add: group_builder_def Finish_abs [of create, OF assms] closed_groups_def)
qed

section \<open>Where the keys go\<close>

text \<open>\<open>key\<close> is in the group with index \<open>i\<close>.\<close>

definition in_group :: "nat \<Rightarrow> byte list \<Rightarrow> byte list list list \<times> byte list list \<Rightarrow> bool" where
  "in_group i key g \<longleftrightarrow> i \<le> length (fst g) \<and> key \<in> set ((fst g @ [snd g]) ! i)"

lemma in_group_add: "in_group i key g \<Longrightarrow> in_group i key (add_group blk g)"
  by (auto simp: in_group_def add_group_def start_group_def Let_def nth_append split: if_splits)

lemma in_group_fold: "in_group i key g \<Longrightarrow> in_group i key (fold add_group blocks g)"
  by (induction blocks arbitrary: g) (simp_all add: in_group_add)

lemma add_group_new:
  assumes "length (fst g) \<le> block_index blk"
  shows "length (fst (add_group blk g)) = block_index blk"
    and "key \<in> set (snd blk) \<Longrightarrow> in_group (block_index blk) key (add_group blk g)"
  using assms by (auto simp: in_group_def add_group_def start_group_def Let_def nth_append)

lemma fold_add_group:
  assumes "sorted (map block_index blocks)" "\<forall>blk \<in> set blocks. length (fst g) \<le> block_index blk"
    and "blk \<in> set blocks" "key \<in> set (snd blk)"
  shows "in_group (block_index blk) key (fold add_group blocks g)"
  using assms
proof (induction blocks arbitrary: g)
  case (Cons b blocks)
  show ?case
  proof (cases "blk = b")
    case True
    with Cons.prems show ?thesis by (auto intro: in_group_fold add_group_new)
  next
    case False
    with Cons.prems add_group_new(1) [of g b] show ?thesis
      by (simp add: Cons.IH)
  qed
qed simp

lemma total_add_group:
  "length (concat (fst (add_group blk g))) + length (snd (add_group blk g)) =
     length (concat (fst g)) + length (snd g) + length (snd blk)"
  by (simp add: add_group_def start_group_def Let_def)

lemma total_fold_add_group:
  "length (concat (fst (fold add_group blocks g))) + length (snd (fold add_group blocks g)) =
     length (concat (fst g)) + length (snd g) + length (concat (map snd blocks))"
  by (induction blocks arbitrary: g) (simp_all add: total_add_group)

lemma in_closed_groups:
  assumes "in_group i key g"
  shows "i < length (closed_groups g) \<and> key \<in> set (closed_groups g ! i) \<and>
     length (closed_groups g ! i) \<le> length (concat (fst g)) + length (snd g)"
proof -
  have "x \<in> set gs \<Longrightarrow> length x \<le> length (concat gs)" for x :: "byte list list" and gs
    by (induction gs) auto
  from this [OF nth_mem] assms show ?thesis
    by (auto simp: in_group_def closed_groups_def nth_append not_less le_Suc_eq intro: trans_le_add1)
qed

section \<open>Properties\<close>

context filter_policy
begin

lemma filter_block_matches:
  assumes "valid p" "sorted (map block_index blocks)" "length (concat (map snd blocks)) < 2 ^ 31"
    and "length (filter_block (create p) blocks) < 2 ^ 32" "(off, keys) \<in> set blocks" "key \<in> set keys"
  shows "FilterBlock_KeyMayMatch (may_match p) (FilterBlockReader (filter_block (create p) blocks)) off key = Some True"
proof -
  define g where "g = fold add_group blocks ([], [])"
  define fs where "fs = map (group_filter (create p)) (closed_groups g)"
  define i where "i = unat off div kFilterBase"
  have contents: "filter_block (create p) blocks = filter_contents fs"
    unfolding fs_def g_def by (rule filter_block_abs) (rule create_appends)
  have "in_group i key g"
    using fold_add_group [OF assms(2), of "([], [])" "(off, keys)" key] assms(5,6)
    by (simp add: g_def i_def block_index_def)
  then have "i < length (closed_groups g)" "key \<in> set (closed_groups g ! i)" "length (closed_groups g ! i) < 2 ^ 31"
    using in_closed_groups [of i key g] total_fold_add_group [of blocks "([], [])"] assms(3)
    by (auto simp: g_def)
  then have "may_match p key (fs ! i)"
    using no_false_negative [OF assms(1)] by (auto simp: fs_def group_filter_def)
  moreover have "length (concat fs) < 2 ^ 32"
    using assms(4) by (simp add: contents length_filter_contents)
  ultimately show ?thesis
    using KeyMayMatch_contents [OF _ i_def] by (simp add: contents)
qed

end

text \<open>C15. A filter block never hides a key: when a table builder starts its data blocks at offsets of
  non-decreasing filter index and adds keys to them, the reader of the finished block answers that a key may
  match for the offset it was added under, for every Bloom policy, as long as the block stays below 4 GB and
  the keys below \<^verbatim>\<open>INT_MAX\<close>.\<close>

theorem filter_block_no_false_negative:
  assumes "bits_per_key < 2 ^ 31" "p = BloomFilterPolicy bits_per_key product"
    and "sorted (map block_index blocks)" "length (concat (map snd blocks)) < 2 ^ 31"
    and "length (filter_block (Bloom_CreateFilter p) blocks) < 2 ^ 32" "(off, keys) \<in> set blocks" "key \<in> set keys"
  shows "FilterBlock_KeyMayMatch (Bloom_KeyMayMatch p) (FilterBlockReader (filter_block (Bloom_CreateFilter p) blocks))
    off key = Some True"
  using bloom.filter_block_matches [of p blocks off keys key] assms BloomFilterPolicy_ok by simp

lemma filter_block_length_two:
  "length (filter_block (Bloom_CreateFilter (BloomFilterPolicy 10 6)) [(0, [[104, 105]]), (4096, [[1], [2, 3]])]) < 2 ^ 32"
  by (subst filter_block_abs)
    (simp_all add: Bloom_CreateFilter_def Let_def add_group_def start_group_def block_index_def kFilterBase_def
      kFilterBaseLg_def closed_groups_def length_filter_contents group_filter_def bloom_bytes_def BloomFilterPolicy_def)

theorem filter_block_no_false_negative_witness:
  "FilterBlock_KeyMayMatch (Bloom_KeyMayMatch (BloomFilterPolicy 10 6))
     (FilterBlockReader (filter_block (Bloom_CreateFilter (BloomFilterPolicy 10 6))
       [(0, [[104, 105]]), (4096, [[1], [2, 3]])])) 4096 [2, 3] = Some True"
  by (rule filter_block_no_false_negative [where bits_per_key = 10 and product = 6 and keys = "[[1], [2, 3]]",
      OF _ _ _ _ filter_block_length_two])
    (simp_all add: block_index_def kFilterBase_def kFilterBaseLg_def)

lemma scast_positive: "\<not> bit b 7 \<Longrightarrow> scast b = (ucast b :: u64)" for b :: byte
proof (rule bit_word_eqI)
  fix n assume n: "\<not> bit b 7" "n < LENGTH(64)"
  have "\<not> bit b n" if "7 \<le> n"
    using that n bit_imp_le_length [of b n] by (cases "n = 7") auto
  with n show "bit (scast b :: u64) n = bit (ucast b :: u64) n"
    by (auto simp: bit_simps min_def)
qed

lemma char_to_size_small:
  assumes "unat b < 64"
  shows "char_to_size b = unat b"
proof -
  have "\<not> bit (unat b) 7" using assms by (simp add: bit_iff_odd)
  then have "\<not> bit b 7" by (simp add: bit_unsigned_iff)
  then show ?thesis
    by (simp add: char_to_size_def scast_positive unsigned_ucast_eq take_bit_nat_eq_self_iff
        less_trans [OF unsigned_less])
qed

lemma FilterBlockReader_inside:
  "fr_num (FilterBlockReader contents) = 0 \<or>
   fr_offset (FilterBlockReader contents) + 4 * fr_num (FilterBlockReader contents) + 5
     \<le> length (fr_data (FilterBlockReader contents))"
  by (auto simp: FilterBlockReader_def Let_def)

lemma KeyMayMatch_inside:
  assumes "fr_base_lg r < 64" "fr_num r = 0 \<or> fr_offset r + 4 * fr_num r + 5 \<le> length (fr_data r)"
  shows "\<exists>answer. FilterBlock_KeyMayMatch km r off key = Some answer \<and> (fr_num r = 0 \<longrightarrow> answer)"
proof (cases "unat (drop_bit (fr_base_lg r) off) < fr_num r")
  case True
  then obtain a b where "read_fixed32 (fr_data r) (fr_offset r + unat (drop_bit (fr_base_lg r) off) * 4) = Some a"
    "read_fixed32 (fr_data r) (fr_offset r + unat (drop_bit (fr_base_lg r) off) * 4 + 4) = Some b"
    using assms(2) by (auto simp: read_fixed32_def)
  with True assms(1) show ?thesis by (auto simp: FilterBlock_KeyMayMatch_def)
next
  case False
  with assms(1) show ?thesis by (auto simp: FilterBlock_KeyMayMatch_def)
qed

text \<open>Reading a filter block is safe on every input: whatever bytes the block holds, as long as its last byte
  is a shift of less than 64, a lookup reads inside the contents and gives an answer; contents of fewer than
  five bytes and contents with an offset word past the end answer that the key may match.\<close>

theorem filter_block_reader_total:
  assumes "length contents < 5 \<or> unat (last contents) < 64"
  shows "\<exists>answer. FilterBlock_KeyMayMatch km (FilterBlockReader contents) off key = Some answer \<and>
     (length contents < 5 \<or> unat (DecodeFixed32 (drop (length contents - 5) contents)) > length contents - 5 \<longrightarrow> answer)"
proof -
  have "last contents = contents ! (length contents - 1)" if "5 \<le> length contents"
    using that by (intro last_conv_nth) auto
  then have "fr_base_lg (FilterBlockReader contents) < 64"
    using assms by (auto simp: FilterBlockReader_def Let_def char_to_size_small)
  moreover have "fr_num (FilterBlockReader contents) = 0"
    if "length contents < 5 \<or> unat (DecodeFixed32 (drop (length contents - 5) contents)) > length contents - 5"
    using that by (auto simp: FilterBlockReader_def Let_def)
  ultimately show ?thesis using KeyMayMatch_inside FilterBlockReader_inside by blast
qed

theorem filter_block_reader_total_witness:
  "\<exists>answer. FilterBlock_KeyMayMatch (\<lambda>_ _. False) (FilterBlockReader [1, 2, 3, 255, 0, 0, 0, 11]) 5 [7] = Some answer"
  using filter_block_reader_total [of "[1, 2, 3, 255, 0, 0, 0, 11]" "\<lambda>_ _. False" 5 "[7]"] by auto

end
