(* ===== verification/LDB_DBFormat.thy ===== *)
theory LDB_DBFormat
  imports LDB_Filter_Block
begin

unbundle bit_operations_syntax

text \<open>
  LevelDB's key order and internal keys: the bytewise comparator (\<^verbatim>\<open>util/comparator.cc\<close>) and the internal keys,
  their comparator, filter policy and lookup keys (\<^verbatim>\<open>db/dbformat.h\<close>, \<^verbatim>\<open>db/dbformat.cc\<close>). The \<^verbatim>\<open>Comparator\<close> class is
  a locale with the contract of \<^verbatim>\<open>leveldb/comparator.h\<close>; the internal comparator is proved to satisfy it over every
  user comparator that does.
\<close>

section \<open>The bytewise comparator\<close>

fun diff_loop :: "byte list \<Rightarrow> byte list \<Rightarrow> nat" where
  "diff_loop (a # start) (b # limit) = (if a = b then Suc (diff_loop start limit) else 0)"
| "diff_loop _ _ = 0"

definition Bytewise_FindShortestSeparator :: "byte list \<Rightarrow> byte list \<Rightarrow> byte list" where
  "Bytewise_FindShortestSeparator start limit =
     (let min_length = min (length start) (length limit); diff_index = diff_loop start limit in
      if diff_index \<ge> min_length then start
      else
        let diff_byte = start ! diff_index in
        if diff_byte < 0xFF \<and> unat diff_byte + 1 < unat (limit ! diff_index)
        then take (diff_index + 1) (start[diff_index := start ! diff_index + 1])
        else start)"

fun Bytewise_FindShortSuccessor :: "byte list \<Rightarrow> byte list" where
  "Bytewise_FindShortSuccessor [] = []"
| "Bytewise_FindShortSuccessor (b # key) =
     (if b \<noteq> 0xFF then [b + 1] else b # Bytewise_FindShortSuccessor key)"

section \<open>Internal keys\<close>

datatype ValueType = kTypeDeletion | kTypeValue

fun ValueType_num :: "ValueType \<Rightarrow> u64" where
  "ValueType_num kTypeDeletion = 0"
| "ValueType_num kTypeValue = 1"

definition kValueTypeForSeek :: ValueType where "kValueTypeForSeek = kTypeValue"

definition kMaxSequenceNumber :: u64 where "kMaxSequenceNumber = push_bit 56 1 - 1"

record ParsedInternalKey =
  pik_user_key :: "byte list"
  pik_sequence :: u64
  pik_type :: ValueType

definition InternalKeyEncodingLength :: "ParsedInternalKey \<Rightarrow> nat" where
  "InternalKeyEncodingLength key = length (pik_user_key key) + 8"

text \<open>The two assertions of the function are requirements on the caller.\<close>

definition PackSequenceAndType :: "u64 \<Rightarrow> ValueType \<Rightarrow> u64" where
  "PackSequenceAndType seq t = push_bit 8 seq OR ValueType_num t"

definition AppendInternalKey :: "byte list \<Rightarrow> ParsedInternalKey \<Rightarrow> byte list" where
  "AppendInternalKey result key =
     PutFixed64 (result @ pik_user_key key) (PackSequenceAndType (pik_sequence key) (pik_type key))"

definition ParseInternalKey :: "byte list \<Rightarrow> ParsedInternalKey option" where
  "ParseInternalKey internal_key =
     (let n = length internal_key in
      if n < 8 then None
      else
        let num = DecodeFixed64 (drop (n - 8) internal_key); c = num AND 0xFF in
        if c \<le> ValueType_num kTypeValue then
          Some \<lparr>pik_user_key = take (n - 8) internal_key, pik_sequence = drop_bit 8 num,
                pik_type = (if c = 0 then kTypeDeletion else kTypeValue)\<rparr>
        else None)"

text \<open>Asserted for internal keys of at least eight bytes.\<close>

definition ExtractUserKey :: "byte list \<Rightarrow> byte list" where
  "ExtractUserKey internal_key = take (length internal_key - 8) internal_key"

definition InternalKey_tag :: "byte list \<Rightarrow> u64" where
  "InternalKey_tag key = DecodeFixed64 (drop (length key - 8) key)"

definition InternalKeyComparator_Compare :: "(byte list \<Rightarrow> byte list \<Rightarrow> int) \<Rightarrow> byte list \<Rightarrow> byte list \<Rightarrow> int" where
  "InternalKeyComparator_Compare user_compare akey bkey =
     (let r = user_compare (ExtractUserKey akey) (ExtractUserKey bkey) in
      if r = 0 then
        let anum = InternalKey_tag akey; bnum = InternalKey_tag bkey in
        if anum > bnum then - 1 else if anum < bnum then 1 else r
      else r)"

definition InternalKeyComparator_FindShortestSeparator ::
    "(byte list \<Rightarrow> byte list \<Rightarrow> int) \<Rightarrow> (byte list \<Rightarrow> byte list \<Rightarrow> byte list) \<Rightarrow> byte list \<Rightarrow> byte list \<Rightarrow> byte list" where
  "InternalKeyComparator_FindShortestSeparator user_compare user_separator start limit =
     (let user_start = ExtractUserKey start; user_limit = ExtractUserKey limit;
          tmp = user_separator user_start user_limit in
      if length tmp < length user_start \<and> user_compare user_start tmp < 0
      then PutFixed64 tmp (PackSequenceAndType kMaxSequenceNumber kValueTypeForSeek)
      else start)"

definition InternalKeyComparator_FindShortSuccessor ::
    "(byte list \<Rightarrow> byte list \<Rightarrow> int) \<Rightarrow> (byte list \<Rightarrow> byte list) \<Rightarrow> byte list \<Rightarrow> byte list" where
  "InternalKeyComparator_FindShortSuccessor user_compare user_successor key =
     (let user_key = ExtractUserKey key; tmp = user_successor user_key in
      if length tmp < length user_key \<and> user_compare user_key tmp < 0
      then PutFixed64 tmp (PackSequenceAndType kMaxSequenceNumber kValueTypeForSeek)
      else key)"

text \<open>The filter policy on internal keys; it overwrites the caller's array of slices, which the caller discards.\<close>

definition InternalFilterPolicy_CreateFilter ::
    "('p \<Rightarrow> byte list list \<Rightarrow> byte list \<Rightarrow> byte list) \<Rightarrow> 'p \<Rightarrow> byte list list \<Rightarrow> byte list \<Rightarrow> byte list" where
  "InternalFilterPolicy_CreateFilter user_create p keys dst = user_create p (map ExtractUserKey keys) dst"

definition InternalFilterPolicy_KeyMayMatch ::
    "('p \<Rightarrow> byte list \<Rightarrow> byte list \<Rightarrow> bool) \<Rightarrow> 'p \<Rightarrow> byte list \<Rightarrow> byte list \<Rightarrow> bool" where
  "InternalFilterPolicy_KeyMayMatch user_may_match p key f = user_may_match p (ExtractUserKey key) f"

text \<open>The bytes from \<^verbatim>\<open>start_\<close> to \<^verbatim>\<open>end_\<close>, the position of \<^verbatim>\<open>kstart_\<close>, and the size of the array.\<close>

record LookupKey =
  lk_bytes :: "byte list"
  lk_kstart :: nat
  lk_space :: nat

definition LookupKey_init :: "byte list \<Rightarrow> u64 \<Rightarrow> LookupKey" where
  "LookupKey_init user_key s =
     (let usize = length user_key; needed = usize + 13; klength = EncodeVarint32 (of_nat (usize + 8)) in
      \<lparr>lk_bytes = klength @ user_key @ EncodeFixed64 (PackSequenceAndType s kValueTypeForSeek),
       lk_kstart = length klength, lk_space = (if needed \<le> 200 then 200 else needed)\<rparr>)"

definition LookupKey_memtable_key :: "LookupKey \<Rightarrow> byte list" where
  "LookupKey_memtable_key k = lk_bytes k"

definition LookupKey_internal_key :: "LookupKey \<Rightarrow> byte list" where
  "LookupKey_internal_key k = drop (lk_kstart k) (lk_bytes k)"

definition LookupKey_user_key :: "LookupKey \<Rightarrow> byte list" where
  "LookupKey_user_key k = take (length (lk_bytes k) - lk_kstart k - 8) (drop (lk_kstart k) (lk_bytes k))"

section \<open>The contract of a comparator\<close>

text \<open>
  On the keys that satisfy \<open>ok\<close>, \<open>compare\<close> is a total preorder, \<open>separator start limit\<close> lies in
  \<open>[start, limit)\<close> when \<open>start < limit\<close>, and \<open>successor key\<close> is not below \<open>key\<close>. The last law is implicit in the code of
  the internal comparator, which also asks for separators of keys that compare equal.
\<close>

locale comparator =
  fixes ok :: "byte list \<Rightarrow> bool"
    and compare :: "byte list \<Rightarrow> byte list \<Rightarrow> int"
    and separator :: "byte list \<Rightarrow> byte list \<Rightarrow> byte list"
    and successor :: "byte list \<Rightarrow> byte list"
  assumes flip: "ok a \<Longrightarrow> ok b \<Longrightarrow> 0 < compare b a \<longleftrightarrow> compare a b < 0"
    and trans: "ok a \<Longrightarrow> ok b \<Longrightarrow> ok c \<Longrightarrow> compare a b \<le> 0 \<Longrightarrow> compare b c \<le> 0 \<Longrightarrow> compare a c \<le> 0"
    and separator: "ok start \<Longrightarrow> ok limit \<Longrightarrow> compare start limit < 0 \<Longrightarrow>
      ok (separator start limit) \<and> compare start (separator start limit) \<le> 0 \<and> compare (separator start limit) limit < 0"
    and successor: "ok key \<Longrightarrow> ok (successor key) \<and> compare key (successor key) \<le> 0"
    and separator_equal: "ok start \<Longrightarrow> ok limit \<Longrightarrow> compare start limit = 0 \<Longrightarrow>
      \<not> compare start (separator start limit) < 0"
begin

lemma compare_refl: "ok a \<Longrightarrow> compare a a = 0"
  using flip [of a a] by linarith

lemma compare_le_iff: "ok a \<Longrightarrow> ok b \<Longrightarrow> compare a b \<le> 0 \<longleftrightarrow> \<not> compare b a < 0"
  using flip [of b a] by auto

lemma compare_eq_sym: "ok a \<Longrightarrow> ok b \<Longrightarrow> compare a b = 0 \<longleftrightarrow> compare b a = 0"
  using flip [of b a] flip [of a b] by linarith

lemma less_le_trans: "ok a \<Longrightarrow> ok b \<Longrightarrow> ok c \<Longrightarrow> compare a b < 0 \<Longrightarrow> compare b c \<le> 0 \<Longrightarrow> compare a c < 0"
  by (metis compare_le_iff trans less_imp_le)

lemma le_less_trans: "ok a \<Longrightarrow> ok b \<Longrightarrow> ok c \<Longrightarrow> compare a b \<le> 0 \<Longrightarrow> compare b c < 0 \<Longrightarrow> compare a c < 0"
  by (metis compare_le_iff trans less_imp_le)

end

section \<open>The bytewise order\<close>

lemma Slice_compare_simps [simp]:
  "Slice_compare [] [] = 0"
  "Slice_compare [] (b # bs) = - 1"
  "Slice_compare (a # as) [] = 1"
  "Slice_compare (a # as) (b # bs) = (if a < b then - 1 else if b < a then 1 else Slice_compare as bs)"
  by (simp_all add: Slice_compare_def Let_def)

lemma Slice_compare_flip: "0 < Slice_compare b a \<longleftrightarrow> Slice_compare a b < 0"
proof (induction a arbitrary: b)
  case Nil
  show ?case by (cases b) simp_all
next
  case (Cons x a)
  then show ?case by (cases b) auto
qed

lemma Slice_compare_trans: "Slice_compare a b \<le> 0 \<Longrightarrow> Slice_compare b c \<le> 0 \<Longrightarrow> Slice_compare a c \<le> 0"
proof (induction a arbitrary: b c)
  case Nil
  show ?case by (cases c) simp_all
next
  case (Cons x a)
  then show ?case by (cases b; cases c) (auto split: if_splits)
qed

lemma Slice_compare_eq [simp]: "Slice_compare a b = 0 \<longleftrightarrow> a = b"
proof (induction a arbitrary: b)
  case Nil
  show ?case by (cases b) simp_all
next
  case (Cons x a)
  then show ?case by (cases b) auto
qed

lemma Slice_compare_le: "Slice_compare a b \<le> 0 \<longleftrightarrow> Slice_compare a b < 0 \<or> a = b"
  by (auto simp: le_less)

lemma Slice_compare_refl [simp]: "Slice_compare a a = 0"
  by simp

lemma unat_byte_plus_1:
  fixes b :: byte
  assumes "b \<noteq> 0xFF"
  shows "unat (b + 1) = unat b + 1"
proof -
  have "unat b \<noteq> 255" using assms by (simp add: word_unat_eq_iff)
  then have "unat b + 1 < 256" using unsigned_less [of b, where 'a = nat] by simp
  then show ?thesis by (simp add: unat_word_ariths)
qed

lemma byte_less_plus_1: "b \<noteq> 0xFF \<Longrightarrow> b < b + 1" for b :: byte
  by (simp add: word_less_nat_alt unat_byte_plus_1)

lemma Bytewise_separator_simps [simp]:
  "Bytewise_FindShortestSeparator [] limit = []"
  "Bytewise_FindShortestSeparator start [] = start"
  "Bytewise_FindShortestSeparator (a # start) (b # limit) =
     (if a = b then a # Bytewise_FindShortestSeparator start limit
      else if a < 0xFF \<and> unat a + 1 < unat b then [a + 1] else a # start)"
  by (simp_all add: Bytewise_FindShortestSeparator_def Let_def)

lemma Bytewise_separator_correct:
  "Slice_compare start limit < 0 \<Longrightarrow>
   Slice_compare start (Bytewise_FindShortestSeparator start limit) \<le> 0 \<and>
   Slice_compare (Bytewise_FindShortestSeparator start limit) limit < 0"
proof (induction start limit rule: diff_loop.induct)
  case (1 a start b limit)
  show ?case
  proof (cases "a = b \<or> \<not> (a < 0xFF \<and> unat a + 1 < unat b)")
    case True
    with 1 show ?thesis by (auto split: if_splits)
  next
    case False
    then have "a \<noteq> 0xFF" by auto
    with False have "a < a + 1" "a + 1 < b" "a \<noteq> b"
      by (auto simp: byte_less_plus_1 word_less_nat_alt unat_byte_plus_1)
    with False show ?thesis by simp
  qed
qed simp_all

lemma Bytewise_separator_equal [simp]: "Bytewise_FindShortestSeparator start start = start"
  by (induction start) simp_all

lemma Bytewise_successor_correct: "Slice_compare key (Bytewise_FindShortSuccessor key) \<le> 0"
  by (induction key) (simp_all add: byte_less_plus_1)

interpretation bytewise: comparator "\<lambda>_. True" Slice_compare Bytewise_FindShortestSeparator Bytewise_FindShortSuccessor
  by unfold_locales
    (simp_all add: Slice_compare_flip Bytewise_separator_correct Bytewise_successor_correct, rule Slice_compare_trans)

section \<open>The order of internal keys\<close>

lemma ExtractUserKey_append [simp]: "ExtractUserKey (user @ EncodeFixed64 tag) = user"
  by (simp add: ExtractUserKey_def)

lemma InternalKey_tag_append [simp]: "InternalKey_tag (user @ EncodeFixed64 tag) = tag"
  using DecodeFixed64_Encode [of tag "[]"] by (simp add: InternalKey_tag_def)

context comparator
begin

lemma internal_flip:
  assumes "ok (ExtractUserKey a)" "ok (ExtractUserKey b)"
  shows "0 < InternalKeyComparator_Compare compare b a \<longleftrightarrow> InternalKeyComparator_Compare compare a b < 0"
  using flip [OF assms] flip [OF assms(2,1)]
  by (auto simp: InternalKeyComparator_Compare_def Let_def)

lemma internal_trans:
  assumes "ok (ExtractUserKey a)" "ok (ExtractUserKey b)" "ok (ExtractUserKey c)"
    and "InternalKeyComparator_Compare compare a b \<le> 0" "InternalKeyComparator_Compare compare b c \<le> 0"
  shows "InternalKeyComparator_Compare compare a c \<le> 0"
proof -
  note o = assms(1-3)
  have ab: "compare (ExtractUserKey a) (ExtractUserKey b) < 0 \<or>
      compare (ExtractUserKey a) (ExtractUserKey b) = 0 \<and> InternalKey_tag b \<le> InternalKey_tag a"
    and bc: "compare (ExtractUserKey b) (ExtractUserKey c) < 0 \<or>
      compare (ExtractUserKey b) (ExtractUserKey c) = 0 \<and> InternalKey_tag c \<le> InternalKey_tag b"
    using assms(4,5) by (auto simp: InternalKeyComparator_Compare_def Let_def split: if_splits)
  from ab bc show ?thesis
    using less_le_trans [OF o] le_less_trans [OF o] trans [OF o]
    by (auto simp: InternalKeyComparator_Compare_def Let_def)
qed

lemma internal_less_user:
  "compare (ExtractUserKey a) (ExtractUserKey b) < 0 \<Longrightarrow> InternalKeyComparator_Compare compare a b < 0"
  by (simp add: InternalKeyComparator_Compare_def Let_def)

lemma internal_user_le:
  "InternalKeyComparator_Compare compare a b \<le> 0 \<Longrightarrow> compare (ExtractUserKey a) (ExtractUserKey b) \<le> 0"
  by (simp add: InternalKeyComparator_Compare_def Let_def split: if_splits)

lemma internal_refl: "ok (ExtractUserKey a) \<Longrightarrow> InternalKeyComparator_Compare compare a a = 0"
  by (simp add: InternalKeyComparator_Compare_def compare_refl)

lemma internal_separator:
  assumes "ok (ExtractUserKey start)" "ok (ExtractUserKey limit)" "8 \<le> length start"
    and less: "InternalKeyComparator_Compare compare start limit < 0"
  defines "sep \<equiv> InternalKeyComparator_FindShortestSeparator compare separator start limit"
  shows "8 \<le> length sep \<and> ok (ExtractUserKey sep) \<and> InternalKeyComparator_Compare compare start sep \<le> 0 \<and>
    InternalKeyComparator_Compare compare sep limit < 0"
proof (cases "sep = start")
  case True
  with assms internal_refl show ?thesis by simp
next
  case False
  let ?tmp = "separator (ExtractUserKey start) (ExtractUserKey limit)"
  let ?tag = "PackSequenceAndType kMaxSequenceNumber kValueTypeForSeek"
  from False have sep: "sep = ?tmp @ EncodeFixed64 ?tag" and above: "compare (ExtractUserKey start) ?tmp < 0"
    by (auto simp: sep_def InternalKeyComparator_FindShortestSeparator_def Let_def PutFixed64_def split: if_splits)
  have "compare (ExtractUserKey start) (ExtractUserKey limit) < 0"
    using internal_user_le [of start limit] less separator_equal [OF assms(1,2)] above by linarith
  with separator [OF assms(1,2)] have "ok ?tmp" "compare ?tmp (ExtractUserKey limit) < 0" by simp_all
  with sep above internal_less_user [of sep limit] internal_less_user [of start sep] show ?thesis by simp
qed

lemma internal_successor:
  assumes "ok (ExtractUserKey key)" "8 \<le> length key"
  defines "succ \<equiv> InternalKeyComparator_FindShortSuccessor compare successor key"
  shows "8 \<le> length succ \<and> ok (ExtractUserKey succ) \<and> InternalKeyComparator_Compare compare key succ \<le> 0"
proof (cases "succ = key")
  case True
  with assms internal_refl show ?thesis by simp
next
  case False
  then have "succ = successor (ExtractUserKey key) @
      EncodeFixed64 (PackSequenceAndType kMaxSequenceNumber kValueTypeForSeek)"
    "compare (ExtractUserKey key) (successor (ExtractUserKey key)) < 0"
    by (auto simp: succ_def InternalKeyComparator_FindShortSuccessor_def Let_def PutFixed64_def split: if_splits)
  with successor [OF assms(1)] internal_less_user [of key succ] show ?thesis by simp
qed

lemma internal_separator_equal:
  assumes "ok (ExtractUserKey start)" "ok (ExtractUserKey limit)"
    and "InternalKeyComparator_Compare compare start limit = 0"
  shows "InternalKeyComparator_FindShortestSeparator compare separator start limit = start"
proof -
  have "compare (ExtractUserKey start) (ExtractUserKey limit) = 0"
    using assms(3) by (simp add: InternalKeyComparator_Compare_def Let_def split: if_splits)
  from separator_equal [OF assms(1,2) this] show ?thesis
    by (simp add: InternalKeyComparator_FindShortestSeparator_def Let_def)
qed

lemma internal_comparator:
  "comparator (\<lambda>k. 8 \<le> length k \<and> ok (ExtractUserKey k)) (InternalKeyComparator_Compare compare)
     (InternalKeyComparator_FindShortestSeparator compare separator)
     (InternalKeyComparator_FindShortSuccessor compare successor)"
proof (unfold_locales, goal_cases)
  case (2 a b c)
  then show ?case using internal_trans [of a b c] by simp
qed (simp_all add: internal_flip internal_separator internal_successor internal_separator_equal internal_refl)

end

interpretation internal_bytewise: comparator "\<lambda>k. 8 \<le> length k \<and> True" "InternalKeyComparator_Compare Slice_compare"
    "InternalKeyComparator_FindShortestSeparator Slice_compare Bytewise_FindShortestSeparator"
    "InternalKeyComparator_FindShortSuccessor Slice_compare Bytewise_FindShortSuccessor"
  by (rule bytewise.internal_comparator)

section \<open>Tags\<close>

lemma unat_ValueType: "unat (ValueType_num t) = (case t of kTypeDeletion \<Rightarrow> 0 | kTypeValue \<Rightarrow> 1)"
  by (cases t) simp_all

lemma ValueType_num_small: "unat (ValueType_num t) < 256"
  by (cases t) simp_all

lemma unat_PackSequenceAndType:
  assumes "seq \<le> kMaxSequenceNumber"
  shows "unat (PackSequenceAndType seq t) = unat seq * 256 + unat (ValueType_num t)"
proof -
  have bound: "unat seq < 2 ^ 56"
    using assms by (simp add: kMaxSequenceNumber_def word_le_nat_alt)
  have "push_bit 8 seq AND ValueType_num t = 0"
    by (cases t) (auto intro!: bit_eqI simp: bit_simps)
  then have "PackSequenceAndType seq t = push_bit 8 seq + ValueType_num t"
    by (simp add: PackSequenceAndType_def disjunctive_add_eq_or)
  moreover have "unat (push_bit 8 seq) = unat seq * 256"
    using bound by (simp add: push_bit_eq_mult unat_word_ariths)
  ultimately show ?thesis
    using bound ValueType_num_small [of t] by (simp add: unat_word_ariths)
qed

lemma PackSequenceAndType_fields:
  assumes "seq \<le> kMaxSequenceNumber"
  shows "drop_bit 8 (PackSequenceAndType seq t) = seq" "PackSequenceAndType seq t AND 0xFF = ValueType_num t"
proof -
  have "unat (drop_bit 8 (PackSequenceAndType seq t)) = unat seq"
    using ValueType_num_small [of t] by (simp add: unat_drop_bit_div unat_PackSequenceAndType [OF assms])
  then show "drop_bit 8 (PackSequenceAndType seq t) = seq" by (simp add: word_unat_eq_iff)
  have "PackSequenceAndType seq t AND 0xFF = take_bit 8 (PackSequenceAndType seq t)"
    by (simp add: take_bit_eq_mask mask_eq_exp_minus_1)
  moreover have "unat (take_bit 8 (PackSequenceAndType seq t)) = unat (ValueType_num t)"
    using ValueType_num_small [of t]
    by (simp add: take_bit_eq_mod unat_mod_distrib unat_PackSequenceAndType [OF assms])
  ultimately show "PackSequenceAndType seq t AND 0xFF = ValueType_num t" by (simp add: word_unat_eq_iff)
qed

lemma PackSequenceAndType_le:
  assumes "s \<le> kMaxSequenceNumber" "s' \<le> kMaxSequenceNumber"
  shows "PackSequenceAndType s' t \<le> PackSequenceAndType s kValueTypeForSeek \<longleftrightarrow> s' \<le> s"
proof -
  have "unat (ValueType_num t) \<le> 1" by (cases t) simp_all
  with assms show ?thesis
    by (auto simp: word_le_nat_alt unat_PackSequenceAndType kValueTypeForSeek_def)
qed

section \<open>Properties\<close>

text \<open>Internal keys are read back: for every sequence number up to the maximum, \<^verbatim>\<open>ParseInternalKey\<close> returns
  the parts that \<^verbatim>\<open>AppendInternalKey\<close> wrote, the encoding has the announced length, and a key shorter than eight
  bytes or with an unknown type byte is rejected.\<close>

theorem internal_key_roundtrip:
  assumes "pik_sequence key \<le> kMaxSequenceNumber"
  shows "ParseInternalKey (AppendInternalKey [] key) = Some key \<and>
    length (AppendInternalKey [] key) = InternalKeyEncodingLength key \<and>
    (length bad < 8 \<or> InternalKey_tag bad AND 0xFF > 1 \<longrightarrow> ParseInternalKey bad = None)"
proof -
  obtain u s t where key: "key = \<lparr>pik_user_key = u, pik_sequence = s, pik_type = t\<rparr>" by (cases key)
  have "DecodeFixed64 (EncodeFixed64 w) = w" for w using DecodeFixed64_Encode [of w "[]"] by simp
  with assms key have "ParseInternalKey (AppendInternalKey [] key) = Some key"
    by (cases t) (simp_all add: ParseInternalKey_def AppendInternalKey_def PutFixed64_def PackSequenceAndType_fields)
  then show ?thesis
    by (auto simp: AppendInternalKey_def PutFixed64_def InternalKeyEncodingLength_def ParseInternalKey_def
        InternalKey_tag_def Let_def)
qed

theorem internal_key_roundtrip_witness:
  "ParseInternalKey (AppendInternalKey [] \<lparr>pik_user_key = [97], pik_sequence = 7, pik_type = kTypeDeletion\<rparr>) =
     Some \<lparr>pik_user_key = [97], pik_sequence = 7, pik_type = kTypeDeletion\<rparr>"
  using internal_key_roundtrip [of "\<lparr>pik_user_key = [97], pik_sequence = 7, pik_type = kTypeDeletion\<rparr>" "[]"]
  by (simp add: kMaxSequenceNumber_def)

text \<open>C28. Shortening index keys is sound: for internal keys \<^verbatim>\<open>start < limit\<close> over the bytewise order, the separator
  lies in \<open>[start, limit)\<close> and is no longer than \<^verbatim>\<open>start\<close>, the short successor is not below its key, and both are
  again internal keys.\<close>

theorem internal_separator_between:
  assumes "8 \<le> length start" "8 \<le> length limit"
    and "InternalKeyComparator_Compare Slice_compare start limit < 0"
    and "sep = InternalKeyComparator_FindShortestSeparator Slice_compare Bytewise_FindShortestSeparator start limit"
    and "succ = InternalKeyComparator_FindShortSuccessor Slice_compare Bytewise_FindShortSuccessor start"
  shows "InternalKeyComparator_Compare Slice_compare start sep \<le> 0 \<and>
    InternalKeyComparator_Compare Slice_compare sep limit < 0 \<and>
    InternalKeyComparator_Compare Slice_compare start succ \<le> 0 \<and>
    length sep \<in> {8..length start} \<and> length succ \<in> {8..length start}"
proof -
  have "length sep \<le> length start" "length succ \<le> length start"
    using assms(1) by (auto simp: assms(4,5) InternalKeyComparator_FindShortestSeparator_def
      InternalKeyComparator_FindShortSuccessor_def Let_def PutFixed64_def ExtractUserKey_def)
  with internal_bytewise.separator [of start limit] internal_bytewise.successor [of start] assms show ?thesis
    by simp
qed

theorem internal_separator_between_witness:
  "InternalKeyComparator_Compare Slice_compare ([1, 2, 3] @ EncodeFixed64 5)
     (InternalKeyComparator_FindShortestSeparator Slice_compare Bytewise_FindShortestSeparator
       ([1, 2, 3] @ EncodeFixed64 5) ([1, 9] @ EncodeFixed64 8)) \<le> 0"
  using internal_separator_between [of "[1, 2, 3] @ EncodeFixed64 5" "[1, 9] @ EncodeFixed64 8", OF _ _ _ refl refl]
    bytewise.internal_less_user [of "[1, 2, 3] @ EncodeFixed64 5" "[1, 9] @ EncodeFixed64 8"]
    ExtractUserKey_append [of "[1, 2, 3]" 5] ExtractUserKey_append [of "[1, 9]" 8]
  by simp

lemma LookupKey_internal_key_init [simp]:
  "LookupKey_internal_key (LookupKey_init u s) = u @ EncodeFixed64 (PackSequenceAndType s kValueTypeForSeek)"
  by (simp add: LookupKey_internal_key_def LookupKey_init_def Let_def)

text \<open>C13. A lookup key seeks to the newest visible entry: in the order of internal keys it is not above exactly the
  entries of larger user keys and the entries of its own user key whose sequence number is visible in the
  snapshot, so the first entry not below it is the one \<^verbatim>\<open>Get\<close> has to return; its parts are the user key and the
  internal key, which the memtable key holds as a length prefixed slice, and its bytes fit the array that was chosen for it.\<close>

theorem lookup_key_seek:
  assumes "s \<le> kMaxSequenceNumber" "pik_sequence entry \<le> kMaxSequenceNumber"
  shows "(InternalKeyComparator_Compare Slice_compare (LookupKey_internal_key (LookupKey_init u s))
      (AppendInternalKey [] entry) \<le> 0 \<longleftrightarrow>
      Slice_compare u (pik_user_key entry) < 0 \<or> u = pik_user_key entry \<and> pik_sequence entry \<le> s) \<and>
    LookupKey_user_key (LookupKey_init u s) = u \<and>
    LookupKey_memtable_key (LookupKey_init u s) =
      PutLengthPrefixedSlice [] (LookupKey_internal_key (LookupKey_init u s)) \<and>
    length (LookupKey_memtable_key (LookupKey_init u s)) \<le> lk_space (LookupKey_init u s)"
proof -
  have "length (EncodeVarint32 (of_nat (length u) + 8)) \<le> 5"
    by (simp add: EncodeVarint32_def)
  then have "length (LookupKey_memtable_key (LookupKey_init u s)) \<le> lk_space (LookupKey_init u s)"
    by (simp add: LookupKey_memtable_key_def LookupKey_init_def Let_def)
  moreover have "LookupKey_user_key (LookupKey_init u s) = u"
    by (simp add: LookupKey_user_key_def LookupKey_init_def Let_def)
  moreover have "InternalKeyComparator_Compare Slice_compare (LookupKey_internal_key (LookupKey_init u s))
      (AppendInternalKey [] entry) \<le> 0 \<longleftrightarrow>
      Slice_compare u (pik_user_key entry) < 0 \<or> u = pik_user_key entry \<and> pik_sequence entry \<le> s"
    using PackSequenceAndType_le [OF assms, of "pik_type entry"]
    by (cases "u = pik_user_key entry")
      (auto simp: AppendInternalKey_def PutFixed64_def InternalKeyComparator_Compare_def Slice_compare_le Let_def)
  moreover have "LookupKey_memtable_key (LookupKey_init u s) =
      PutLengthPrefixedSlice [] (LookupKey_internal_key (LookupKey_init u s))"
    by (simp add: LookupKey_memtable_key_def LookupKey_internal_key_def LookupKey_init_def Let_def PutLengthPrefixedSlice_def PutVarint32_def)
  ultimately show ?thesis by simp
qed

theorem lookup_key_seek_witness:
  "InternalKeyComparator_Compare Slice_compare (LookupKey_internal_key (LookupKey_init [97] 9))
     (AppendInternalKey [] \<lparr>pik_user_key = [97], pik_sequence = 7, pik_type = kTypeDeletion\<rparr>) \<le> 0 \<and>
   \<not> InternalKeyComparator_Compare Slice_compare (LookupKey_internal_key (LookupKey_init [97] 6))
     (AppendInternalKey [] \<lparr>pik_user_key = [97], pik_sequence = 7, pik_type = kTypeDeletion\<rparr>) \<le> 0"
  using lookup_key_seek [of 9 "\<lparr>pik_user_key = [97], pik_sequence = 7, pik_type = kTypeDeletion\<rparr>" "[97]"]
    lookup_key_seek [of 6 "\<lparr>pik_user_key = [97], pik_sequence = 7, pik_type = kTypeDeletion\<rparr>" "[97]"]
  by (simp add: kMaxSequenceNumber_def)

context filter_policy
begin

lemma internal_filter_policy:
  "filter_policy valid (InternalFilterPolicy_CreateFilter create) (InternalFilterPolicy_KeyMayMatch may_match)"
proof
  fix p keys dst
  show "InternalFilterPolicy_CreateFilter create p keys dst = dst @ InternalFilterPolicy_CreateFilter create p keys []"
    unfolding InternalFilterPolicy_CreateFilter_def by (rule create_appends)
next
  fix p keys and key :: "byte list"
  assume "valid p" "length keys < 2 ^ 31" "key \<in> set keys"
  then show "InternalFilterPolicy_KeyMayMatch may_match p key (InternalFilterPolicy_CreateFilter create p keys [])"
    unfolding InternalFilterPolicy_KeyMayMatch_def InternalFilterPolicy_CreateFilter_def
    by (intro no_false_negative) simp_all
qed

end

interpretation internal_bloom: filter_policy bloom_ok "InternalFilterPolicy_CreateFilter Bloom_CreateFilter"
    "InternalFilterPolicy_KeyMayMatch Bloom_KeyMayMatch"
  by (rule bloom.internal_filter_policy)

lemma internal_may_match_user:
  assumes "ExtractUserKey k = ExtractUserKey k'"
  shows "FilterBlock_KeyMayMatch (InternalFilterPolicy_KeyMayMatch mm p) r off k =
    FilterBlock_KeyMayMatch (InternalFilterPolicy_KeyMayMatch mm p) r off k'"
  unfolding FilterBlock_KeyMayMatch_def InternalFilterPolicy_KeyMayMatch_def assms by (rule refl)

text \<open>The filters of a database ignore sequence numbers: when a table's filter block is built from internal
  keys with the internal filter policy over a Bloom policy, a lookup with any internal key of the same user key,
  whatever its sequence number and type, may match at the offset of the block that holds the key.\<close>

theorem internal_filter_matches_lookup:
  assumes "bits_per_key < 2 ^ 31" "p = BloomFilterPolicy bits_per_key product"
    and "create = InternalFilterPolicy_CreateFilter Bloom_CreateFilter p"
    and "sorted (map block_index blocks)" "length (concat (map snd blocks)) < 2 ^ 31"
    and "length (filter_block create blocks) < 2 ^ 32" "(off, keys) \<in> set blocks" "key \<in> set keys"
    and "ExtractUserKey lookup = ExtractUserKey key"
  shows "FilterBlock_KeyMayMatch (InternalFilterPolicy_KeyMayMatch Bloom_KeyMayMatch p)
    (FilterBlockReader (filter_block create blocks)) off lookup = Some True"
  unfolding internal_may_match_user [OF assms(9)]
  using internal_bloom.filter_block_matches [of p blocks off keys key] assms BloomFilterPolicy_ok by simp

lemma internal_filter_length:
  "length (filter_block (InternalFilterPolicy_CreateFilter Bloom_CreateFilter (BloomFilterPolicy 10 6))
     [(0, [[97] @ EncodeFixed64 5])]) < 2 ^ 32"
  by (subst filter_block_abs)
    (simp_all add: InternalFilterPolicy_CreateFilter_def Bloom_CreateFilter_def Let_def add_group_def start_group_def
      block_index_def closed_groups_def length_filter_contents group_filter_def bloom_bytes_def BloomFilterPolicy_def)

theorem internal_filter_matches_lookup_witness:
  "FilterBlock_KeyMayMatch (InternalFilterPolicy_KeyMayMatch Bloom_KeyMayMatch (BloomFilterPolicy 10 6))
     (FilterBlockReader (filter_block (InternalFilterPolicy_CreateFilter Bloom_CreateFilter (BloomFilterPolicy 10 6))
       [(0, [[97] @ EncodeFixed64 5])])) 0 ([97] @ EncodeFixed64 77) = Some True"
  by (rule internal_filter_matches_lookup [where bits_per_key = 10 and product = 6 and
      keys = "[[97] @ EncodeFixed64 5]" and key = "[97] @ EncodeFixed64 5", OF _ _ _ _ _ internal_filter_length])
    (simp_all only: ExtractUserKey_append, simp_all)

end
