(* ===== verification/LDB_CRC32C.thy ===== *)
theory LDB_CRC32C
  imports LDB_Coding
begin

unbundle bit_operations_syntax

text \<open>
  LevelDB's checksum (\<^verbatim>\<open>util/crc32c.h\<close>, \<^verbatim>\<open>util/crc32c.cc\<close>): the five lookup tables, the portable \<^verbatim>\<open>Extend\<close> with its
  alignment prologue, four interleaved strides and tail, \<^verbatim>\<open>Value\<close>, \<^verbatim>\<open>Mask\<close> and \<^verbatim>\<open>Unmask\<close>. The build does not define
  \<^verbatim>\<open>HAVE_CRC32C\<close>, so \<^verbatim>\<open>port::AcceleratedCRC32C\<close> returns zero and \<^verbatim>\<open>Extend\<close> takes the portable path. \<^verbatim>\<open>Extend\<close> is proved
  equal to the bitwise definition of CRC-32C.
\<close>

section \<open>Tables\<close>

definition kByteExtensionTable :: "u32 list" where
  "kByteExtensionTable =
    [0x00000000, 0xF26B8303, 0xE13B70F7, 0x1350F3F4, 0xC79A971F, 0x35F1141C, 0x26A1E7E8, 0xD4CA64EB,
     0x8AD958CF, 0x78B2DBCC, 0x6BE22838, 0x9989AB3B, 0x4D43CFD0, 0xBF284CD3, 0xAC78BF27, 0x5E133C24,
     0x105EC76F, 0xE235446C, 0xF165B798, 0x030E349B, 0xD7C45070, 0x25AFD373, 0x36FF2087, 0xC494A384,
     0x9A879FA0, 0x68EC1CA3, 0x7BBCEF57, 0x89D76C54, 0x5D1D08BF, 0xAF768BBC, 0xBC267848, 0x4E4DFB4B,
     0x20BD8EDE, 0xD2D60DDD, 0xC186FE29, 0x33ED7D2A, 0xE72719C1, 0x154C9AC2, 0x061C6936, 0xF477EA35,
     0xAA64D611, 0x580F5512, 0x4B5FA6E6, 0xB93425E5, 0x6DFE410E, 0x9F95C20D, 0x8CC531F9, 0x7EAEB2FA,
     0x30E349B1, 0xC288CAB2, 0xD1D83946, 0x23B3BA45, 0xF779DEAE, 0x05125DAD, 0x1642AE59, 0xE4292D5A,
     0xBA3A117E, 0x4851927D, 0x5B016189, 0xA96AE28A, 0x7DA08661, 0x8FCB0562, 0x9C9BF696, 0x6EF07595,
     0x417B1DBC, 0xB3109EBF, 0xA0406D4B, 0x522BEE48, 0x86E18AA3, 0x748A09A0, 0x67DAFA54, 0x95B17957,
     0xCBA24573, 0x39C9C670, 0x2A993584, 0xD8F2B687, 0x0C38D26C, 0xFE53516F, 0xED03A29B, 0x1F682198,
     0x5125DAD3, 0xA34E59D0, 0xB01EAA24, 0x42752927, 0x96BF4DCC, 0x64D4CECF, 0x77843D3B, 0x85EFBE38,
     0xDBFC821C, 0x2997011F, 0x3AC7F2EB, 0xC8AC71E8, 0x1C661503, 0xEE0D9600, 0xFD5D65F4, 0x0F36E6F7,
     0x61C69362, 0x93AD1061, 0x80FDE395, 0x72966096, 0xA65C047D, 0x5437877E, 0x4767748A, 0xB50CF789,
     0xEB1FCBAD, 0x197448AE, 0x0A24BB5A, 0xF84F3859, 0x2C855CB2, 0xDEEEDFB1, 0xCDBE2C45, 0x3FD5AF46,
     0x7198540D, 0x83F3D70E, 0x90A324FA, 0x62C8A7F9, 0xB602C312, 0x44694011, 0x5739B3E5, 0xA55230E6,
     0xFB410CC2, 0x092A8FC1, 0x1A7A7C35, 0xE811FF36, 0x3CDB9BDD, 0xCEB018DE, 0xDDE0EB2A, 0x2F8B6829,
     0x82F63B78, 0x709DB87B, 0x63CD4B8F, 0x91A6C88C, 0x456CAC67, 0xB7072F64, 0xA457DC90, 0x563C5F93,
     0x082F63B7, 0xFA44E0B4, 0xE9141340, 0x1B7F9043, 0xCFB5F4A8, 0x3DDE77AB, 0x2E8E845F, 0xDCE5075C,
     0x92A8FC17, 0x60C37F14, 0x73938CE0, 0x81F80FE3, 0x55326B08, 0xA759E80B, 0xB4091BFF, 0x466298FC,
     0x1871A4D8, 0xEA1A27DB, 0xF94AD42F, 0x0B21572C, 0xDFEB33C7, 0x2D80B0C4, 0x3ED04330, 0xCCBBC033,
     0xA24BB5A6, 0x502036A5, 0x4370C551, 0xB11B4652, 0x65D122B9, 0x97BAA1BA, 0x84EA524E, 0x7681D14D,
     0x2892ED69, 0xDAF96E6A, 0xC9A99D9E, 0x3BC21E9D, 0xEF087A76, 0x1D63F975, 0x0E330A81, 0xFC588982,
     0xB21572C9, 0x407EF1CA, 0x532E023E, 0xA145813D, 0x758FE5D6, 0x87E466D5, 0x94B49521, 0x66DF1622,
     0x38CC2A06, 0xCAA7A905, 0xD9F75AF1, 0x2B9CD9F2, 0xFF56BD19, 0x0D3D3E1A, 0x1E6DCDEE, 0xEC064EED,
     0xC38D26C4, 0x31E6A5C7, 0x22B65633, 0xD0DDD530, 0x0417B1DB, 0xF67C32D8, 0xE52CC12C, 0x1747422F,
     0x49547E0B, 0xBB3FFD08, 0xA86F0EFC, 0x5A048DFF, 0x8ECEE914, 0x7CA56A17, 0x6FF599E3, 0x9D9E1AE0,
     0xD3D3E1AB, 0x21B862A8, 0x32E8915C, 0xC083125F, 0x144976B4, 0xE622F5B7, 0xF5720643, 0x07198540,
     0x590AB964, 0xAB613A67, 0xB831C993, 0x4A5A4A90, 0x9E902E7B, 0x6CFBAD78, 0x7FAB5E8C, 0x8DC0DD8F,
     0xE330A81A, 0x115B2B19, 0x020BD8ED, 0xF0605BEE, 0x24AA3F05, 0xD6C1BC06, 0xC5914FF2, 0x37FACCF1,
     0x69E9F0D5, 0x9B8273D6, 0x88D28022, 0x7AB90321, 0xAE7367CA, 0x5C18E4C9, 0x4F48173D, 0xBD23943E,
     0xF36E6F75, 0x0105EC76, 0x12551F82, 0xE03E9C81, 0x34F4F86A, 0xC69F7B69, 0xD5CF889D, 0x27A40B9E,
     0x79B737BA, 0x8BDCB4B9, 0x988C474D, 0x6AE7C44E, 0xBE2DA0A5, 0x4C4623A6, 0x5F16D052, 0xAD7D5351]"

definition kStrideExtensionTable0 :: "u32 list" where
  "kStrideExtensionTable0 =
    [0x00000000, 0x30D23865, 0x61A470CA, 0x517648AF, 0xC348E194, 0xF39AD9F1, 0xA2EC915E, 0x923EA93B,
     0x837DB5D9, 0xB3AF8DBC, 0xE2D9C513, 0xD20BFD76, 0x4035544D, 0x70E76C28, 0x21912487, 0x11431CE2,
     0x03171D43, 0x33C52526, 0x62B36D89, 0x526155EC, 0xC05FFCD7, 0xF08DC4B2, 0xA1FB8C1D, 0x9129B478,
     0x806AA89A, 0xB0B890FF, 0xE1CED850, 0xD11CE035, 0x4322490E, 0x73F0716B, 0x228639C4, 0x125401A1,
     0x062E3A86, 0x36FC02E3, 0x678A4A4C, 0x57587229, 0xC566DB12, 0xF5B4E377, 0xA4C2ABD8, 0x941093BD,
     0x85538F5F, 0xB581B73A, 0xE4F7FF95, 0xD425C7F0, 0x461B6ECB, 0x76C956AE, 0x27BF1E01, 0x176D2664,
     0x053927C5, 0x35EB1FA0, 0x649D570F, 0x544F6F6A, 0xC671C651, 0xF6A3FE34, 0xA7D5B69B, 0x97078EFE,
     0x8644921C, 0xB696AA79, 0xE7E0E2D6, 0xD732DAB3, 0x450C7388, 0x75DE4BED, 0x24A80342, 0x147A3B27,
     0x0C5C750C, 0x3C8E4D69, 0x6DF805C6, 0x5D2A3DA3, 0xCF149498, 0xFFC6ACFD, 0xAEB0E452, 0x9E62DC37,
     0x8F21C0D5, 0xBFF3F8B0, 0xEE85B01F, 0xDE57887A, 0x4C692141, 0x7CBB1924, 0x2DCD518B, 0x1D1F69EE,
     0x0F4B684F, 0x3F99502A, 0x6EEF1885, 0x5E3D20E0, 0xCC0389DB, 0xFCD1B1BE, 0xADA7F911, 0x9D75C174,
     0x8C36DD96, 0xBCE4E5F3, 0xED92AD5C, 0xDD409539, 0x4F7E3C02, 0x7FAC0467, 0x2EDA4CC8, 0x1E0874AD,
     0x0A724F8A, 0x3AA077EF, 0x6BD63F40, 0x5B040725, 0xC93AAE1E, 0xF9E8967B, 0xA89EDED4, 0x984CE6B1,
     0x890FFA53, 0xB9DDC236, 0xE8AB8A99, 0xD879B2FC, 0x4A471BC7, 0x7A9523A2, 0x2BE36B0D, 0x1B315368,
     0x096552C9, 0x39B76AAC, 0x68C12203, 0x58131A66, 0xCA2DB35D, 0xFAFF8B38, 0xAB89C397, 0x9B5BFBF2,
     0x8A18E710, 0xBACADF75, 0xEBBC97DA, 0xDB6EAFBF, 0x49500684, 0x79823EE1, 0x28F4764E, 0x18264E2B,
     0x18B8EA18, 0x286AD27D, 0x791C9AD2, 0x49CEA2B7, 0xDBF00B8C, 0xEB2233E9, 0xBA547B46, 0x8A864323,
     0x9BC55FC1, 0xAB1767A4, 0xFA612F0B, 0xCAB3176E, 0x588DBE55, 0x685F8630, 0x3929CE9F, 0x09FBF6FA,
     0x1BAFF75B, 0x2B7DCF3E, 0x7A0B8791, 0x4AD9BFF4, 0xD8E716CF, 0xE8352EAA, 0xB9436605, 0x89915E60,
     0x98D24282, 0xA8007AE7, 0xF9763248, 0xC9A40A2D, 0x5B9AA316, 0x6B489B73, 0x3A3ED3DC, 0x0AECEBB9,
     0x1E96D09E, 0x2E44E8FB, 0x7F32A054, 0x4FE09831, 0xDDDE310A, 0xED0C096F, 0xBC7A41C0, 0x8CA879A5,
     0x9DEB6547, 0xAD395D22, 0xFC4F158D, 0xCC9D2DE8, 0x5EA384D3, 0x6E71BCB6, 0x3F07F419, 0x0FD5CC7C,
     0x1D81CDDD, 0x2D53F5B8, 0x7C25BD17, 0x4CF78572, 0xDEC92C49, 0xEE1B142C, 0xBF6D5C83, 0x8FBF64E6,
     0x9EFC7804, 0xAE2E4061, 0xFF5808CE, 0xCF8A30AB, 0x5DB49990, 0x6D66A1F5, 0x3C10E95A, 0x0CC2D13F,
     0x14E49F14, 0x2436A771, 0x7540EFDE, 0x4592D7BB, 0xD7AC7E80, 0xE77E46E5, 0xB6080E4A, 0x86DA362F,
     0x97992ACD, 0xA74B12A8, 0xF63D5A07, 0xC6EF6262, 0x54D1CB59, 0x6403F33C, 0x3575BB93, 0x05A783F6,
     0x17F38257, 0x2721BA32, 0x7657F29D, 0x4685CAF8, 0xD4BB63C3, 0xE4695BA6, 0xB51F1309, 0x85CD2B6C,
     0x948E378E, 0xA45C0FEB, 0xF52A4744, 0xC5F87F21, 0x57C6D61A, 0x6714EE7F, 0x3662A6D0, 0x06B09EB5,
     0x12CAA592, 0x22189DF7, 0x736ED558, 0x43BCED3D, 0xD1824406, 0xE1507C63, 0xB02634CC, 0x80F40CA9,
     0x91B7104B, 0xA165282E, 0xF0136081, 0xC0C158E4, 0x52FFF1DF, 0x622DC9BA, 0x335B8115, 0x0389B970,
     0x11DDB8D1, 0x210F80B4, 0x7079C81B, 0x40ABF07E, 0xD2955945, 0xE2476120, 0xB331298F, 0x83E311EA,
     0x92A00D08, 0xA272356D, 0xF3047DC2, 0xC3D645A7, 0x51E8EC9C, 0x613AD4F9, 0x304C9C56, 0x009EA433]"

definition kStrideExtensionTable1 :: "u32 list" where
  "kStrideExtensionTable1 =
    [0x00000000, 0x54075546, 0xA80EAA8C, 0xFC09FFCA, 0x55F123E9, 0x01F676AF, 0xFDFF8965, 0xA9F8DC23,
     0xABE247D2, 0xFFE51294, 0x03ECED5E, 0x57EBB818, 0xFE13643B, 0xAA14317D, 0x561DCEB7, 0x021A9BF1,
     0x5228F955, 0x062FAC13, 0xFA2653D9, 0xAE21069F, 0x07D9DABC, 0x53DE8FFA, 0xAFD77030, 0xFBD02576,
     0xF9CABE87, 0xADCDEBC1, 0x51C4140B, 0x05C3414D, 0xAC3B9D6E, 0xF83CC828, 0x043537E2, 0x503262A4,
     0xA451F2AA, 0xF056A7EC, 0x0C5F5826, 0x58580D60, 0xF1A0D143, 0xA5A78405, 0x59AE7BCF, 0x0DA92E89,
     0x0FB3B578, 0x5BB4E03E, 0xA7BD1FF4, 0xF3BA4AB2, 0x5A429691, 0x0E45C3D7, 0xF24C3C1D, 0xA64B695B,
     0xF6790BFF, 0xA27E5EB9, 0x5E77A173, 0x0A70F435, 0xA3882816, 0xF78F7D50, 0x0B86829A, 0x5F81D7DC,
     0x5D9B4C2D, 0x099C196B, 0xF595E6A1, 0xA192B3E7, 0x086A6FC4, 0x5C6D3A82, 0xA064C548, 0xF463900E,
     0x4D4F93A5, 0x1948C6E3, 0xE5413929, 0xB1466C6F, 0x18BEB04C, 0x4CB9E50A, 0xB0B01AC0, 0xE4B74F86,
     0xE6ADD477, 0xB2AA8131, 0x4EA37EFB, 0x1AA42BBD, 0xB35CF79E, 0xE75BA2D8, 0x1B525D12, 0x4F550854,
     0x1F676AF0, 0x4B603FB6, 0xB769C07C, 0xE36E953A, 0x4A964919, 0x1E911C5F, 0xE298E395, 0xB69FB6D3,
     0xB4852D22, 0xE0827864, 0x1C8B87AE, 0x488CD2E8, 0xE1740ECB, 0xB5735B8D, 0x497AA447, 0x1D7DF101,
     0xE91E610F, 0xBD193449, 0x4110CB83, 0x15179EC5, 0xBCEF42E6, 0xE8E817A0, 0x14E1E86A, 0x40E6BD2C,
     0x42FC26DD, 0x16FB739B, 0xEAF28C51, 0xBEF5D917, 0x170D0534, 0x430A5072, 0xBF03AFB8, 0xEB04FAFE,
     0xBB36985A, 0xEF31CD1C, 0x133832D6, 0x473F6790, 0xEEC7BBB3, 0xBAC0EEF5, 0x46C9113F, 0x12CE4479,
     0x10D4DF88, 0x44D38ACE, 0xB8DA7504, 0xECDD2042, 0x4525FC61, 0x1122A927, 0xED2B56ED, 0xB92C03AB,
     0x9A9F274A, 0xCE98720C, 0x32918DC6, 0x6696D880, 0xCF6E04A3, 0x9B6951E5, 0x6760AE2F, 0x3367FB69,
     0x317D6098, 0x657A35DE, 0x9973CA14, 0xCD749F52, 0x648C4371, 0x308B1637, 0xCC82E9FD, 0x9885BCBB,
     0xC8B7DE1F, 0x9CB08B59, 0x60B97493, 0x34BE21D5, 0x9D46FDF6, 0xC941A8B0, 0x3548577A, 0x614F023C,
     0x635599CD, 0x3752CC8B, 0xCB5B3341, 0x9F5C6607, 0x36A4BA24, 0x62A3EF62, 0x9EAA10A8, 0xCAAD45EE,
     0x3ECED5E0, 0x6AC980A6, 0x96C07F6C, 0xC2C72A2A, 0x6B3FF609, 0x3F38A34F, 0xC3315C85, 0x973609C3,
     0x952C9232, 0xC12BC774, 0x3D2238BE, 0x69256DF8, 0xC0DDB1DB, 0x94DAE49D, 0x68D31B57, 0x3CD44E11,
     0x6CE62CB5, 0x38E179F3, 0xC4E88639, 0x90EFD37F, 0x39170F5C, 0x6D105A1A, 0x9119A5D0, 0xC51EF096,
     0xC7046B67, 0x93033E21, 0x6F0AC1EB, 0x3B0D94AD, 0x92F5488E, 0xC6F21DC8, 0x3AFBE202, 0x6EFCB744,
     0xD7D0B4EF, 0x83D7E1A9, 0x7FDE1E63, 0x2BD94B25, 0x82219706, 0xD626C240, 0x2A2F3D8A, 0x7E2868CC,
     0x7C32F33D, 0x2835A67B, 0xD43C59B1, 0x803B0CF7, 0x29C3D0D4, 0x7DC48592, 0x81CD7A58, 0xD5CA2F1E,
     0x85F84DBA, 0xD1FF18FC, 0x2DF6E736, 0x79F1B270, 0xD0096E53, 0x840E3B15, 0x7807C4DF, 0x2C009199,
     0x2E1A0A68, 0x7A1D5F2E, 0x8614A0E4, 0xD213F5A2, 0x7BEB2981, 0x2FEC7CC7, 0xD3E5830D, 0x87E2D64B,
     0x73814645, 0x27861303, 0xDB8FECC9, 0x8F88B98F, 0x267065AC, 0x727730EA, 0x8E7ECF20, 0xDA799A66,
     0xD8630197, 0x8C6454D1, 0x706DAB1B, 0x246AFE5D, 0x8D92227E, 0xD9957738, 0x259C88F2, 0x719BDDB4,
     0x21A9BF10, 0x75AEEA56, 0x89A7159C, 0xDDA040DA, 0x74589CF9, 0x205FC9BF, 0xDC563675, 0x88516333,
     0x8A4BF8C2, 0xDE4CAD84, 0x2245524E, 0x76420708, 0xDFBADB2B, 0x8BBD8E6D, 0x77B471A7, 0x23B324E1]"

definition kStrideExtensionTable2 :: "u32 list" where
  "kStrideExtensionTable2 =
    [0x00000000, 0x678EFD01, 0xCF1DFA02, 0xA8930703, 0x9BD782F5, 0xFC597FF4, 0x54CA78F7, 0x334485F6,
     0x3243731B, 0x55CD8E1A, 0xFD5E8919, 0x9AD07418, 0xA994F1EE, 0xCE1A0CEF, 0x66890BEC, 0x0107F6ED,
     0x6486E636, 0x03081B37, 0xAB9B1C34, 0xCC15E135, 0xFF5164C3, 0x98DF99C2, 0x304C9EC1, 0x57C263C0,
     0x56C5952D, 0x314B682C, 0x99D86F2F, 0xFE56922E, 0xCD1217D8, 0xAA9CEAD9, 0x020FEDDA, 0x658110DB,
     0xC90DCC6C, 0xAE83316D, 0x0610366E, 0x619ECB6F, 0x52DA4E99, 0x3554B398, 0x9DC7B49B, 0xFA49499A,
     0xFB4EBF77, 0x9CC04276, 0x34534575, 0x53DDB874, 0x60993D82, 0x0717C083, 0xAF84C780, 0xC80A3A81,
     0xAD8B2A5A, 0xCA05D75B, 0x6296D058, 0x05182D59, 0x365CA8AF, 0x51D255AE, 0xF94152AD, 0x9ECFAFAC,
     0x9FC85941, 0xF846A440, 0x50D5A343, 0x375B5E42, 0x041FDBB4, 0x639126B5, 0xCB0221B6, 0xAC8CDCB7,
     0x97F7EE29, 0xF0791328, 0x58EA142B, 0x3F64E92A, 0x0C206CDC, 0x6BAE91DD, 0xC33D96DE, 0xA4B36BDF,
     0xA5B49D32, 0xC23A6033, 0x6AA96730, 0x0D279A31, 0x3E631FC7, 0x59EDE2C6, 0xF17EE5C5, 0x96F018C4,
     0xF371081F, 0x94FFF51E, 0x3C6CF21D, 0x5BE20F1C, 0x68A68AEA, 0x0F2877EB, 0xA7BB70E8, 0xC0358DE9,
     0xC1327B04, 0xA6BC8605, 0x0E2F8106, 0x69A17C07, 0x5AE5F9F1, 0x3D6B04F0, 0x95F803F3, 0xF276FEF2,
     0x5EFA2245, 0x3974DF44, 0x91E7D847, 0xF6692546, 0xC52DA0B0, 0xA2A35DB1, 0x0A305AB2, 0x6DBEA7B3,
     0x6CB9515E, 0x0B37AC5F, 0xA3A4AB5C, 0xC42A565D, 0xF76ED3AB, 0x90E02EAA, 0x387329A9, 0x5FFDD4A8,
     0x3A7CC473, 0x5DF23972, 0xF5613E71, 0x92EFC370, 0xA1AB4686, 0xC625BB87, 0x6EB6BC84, 0x09384185,
     0x083FB768, 0x6FB14A69, 0xC7224D6A, 0xA0ACB06B, 0x93E8359D, 0xF466C89C, 0x5CF5CF9F, 0x3B7B329E,
     0x2A03AAA3, 0x4D8D57A2, 0xE51E50A1, 0x8290ADA0, 0xB1D42856, 0xD65AD557, 0x7EC9D254, 0x19472F55,
     0x1840D9B8, 0x7FCE24B9, 0xD75D23BA, 0xB0D3DEBB, 0x83975B4D, 0xE419A64C, 0x4C8AA14F, 0x2B045C4E,
     0x4E854C95, 0x290BB194, 0x8198B697, 0xE6164B96, 0xD552CE60, 0xB2DC3361, 0x1A4F3462, 0x7DC1C963,
     0x7CC63F8E, 0x1B48C28F, 0xB3DBC58C, 0xD455388D, 0xE711BD7B, 0x809F407A, 0x280C4779, 0x4F82BA78,
     0xE30E66CF, 0x84809BCE, 0x2C139CCD, 0x4B9D61CC, 0x78D9E43A, 0x1F57193B, 0xB7C41E38, 0xD04AE339,
     0xD14D15D4, 0xB6C3E8D5, 0x1E50EFD6, 0x79DE12D7, 0x4A9A9721, 0x2D146A20, 0x85876D23, 0xE2099022,
     0x878880F9, 0xE0067DF8, 0x48957AFB, 0x2F1B87FA, 0x1C5F020C, 0x7BD1FF0D, 0xD342F80E, 0xB4CC050F,
     0xB5CBF3E2, 0xD2450EE3, 0x7AD609E0, 0x1D58F4E1, 0x2E1C7117, 0x49928C16, 0xE1018B15, 0x868F7614,
     0xBDF4448A, 0xDA7AB98B, 0x72E9BE88, 0x15674389, 0x2623C67F, 0x41AD3B7E, 0xE93E3C7D, 0x8EB0C17C,
     0x8FB73791, 0xE839CA90, 0x40AACD93, 0x27243092, 0x1460B564, 0x73EE4865, 0xDB7D4F66, 0xBCF3B267,
     0xD972A2BC, 0xBEFC5FBD, 0x166F58BE, 0x71E1A5BF, 0x42A52049, 0x252BDD48, 0x8DB8DA4B, 0xEA36274A,
     0xEB31D1A7, 0x8CBF2CA6, 0x242C2BA5, 0x43A2D6A4, 0x70E65352, 0x1768AE53, 0xBFFBA950, 0xD8755451,
     0x74F988E6, 0x137775E7, 0xBBE472E4, 0xDC6A8FE5, 0xEF2E0A13, 0x88A0F712, 0x2033F011, 0x47BD0D10,
     0x46BAFBFD, 0x213406FC, 0x89A701FF, 0xEE29FCFE, 0xDD6D7908, 0xBAE38409, 0x1270830A, 0x75FE7E0B,
     0x107F6ED0, 0x77F193D1, 0xDF6294D2, 0xB8EC69D3, 0x8BA8EC25, 0xEC261124, 0x44B51627, 0x233BEB26,
     0x223C1DCB, 0x45B2E0CA, 0xED21E7C9, 0x8AAF1AC8, 0xB9EB9F3E, 0xDE65623F, 0x76F6653C, 0x1178983D]"

definition kStrideExtensionTable3 :: "u32 list" where
  "kStrideExtensionTable3 =
    [0x00000000, 0xF20C0DFE, 0xE1F46D0D, 0x13F860F3, 0xC604ACEB, 0x3408A115, 0x27F0C1E6, 0xD5FCCC18,
     0x89E52F27, 0x7BE922D9, 0x6811422A, 0x9A1D4FD4, 0x4FE183CC, 0xBDED8E32, 0xAE15EEC1, 0x5C19E33F,
     0x162628BF, 0xE42A2541, 0xF7D245B2, 0x05DE484C, 0xD0228454, 0x222E89AA, 0x31D6E959, 0xC3DAE4A7,
     0x9FC30798, 0x6DCF0A66, 0x7E376A95, 0x8C3B676B, 0x59C7AB73, 0xABCBA68D, 0xB833C67E, 0x4A3FCB80,
     0x2C4C517E, 0xDE405C80, 0xCDB83C73, 0x3FB4318D, 0xEA48FD95, 0x1844F06B, 0x0BBC9098, 0xF9B09D66,
     0xA5A97E59, 0x57A573A7, 0x445D1354, 0xB6511EAA, 0x63ADD2B2, 0x91A1DF4C, 0x8259BFBF, 0x7055B241,
     0x3A6A79C1, 0xC866743F, 0xDB9E14CC, 0x29921932, 0xFC6ED52A, 0x0E62D8D4, 0x1D9AB827, 0xEF96B5D9,
     0xB38F56E6, 0x41835B18, 0x527B3BEB, 0xA0773615, 0x758BFA0D, 0x8787F7F3, 0x947F9700, 0x66739AFE,
     0x5898A2FC, 0xAA94AF02, 0xB96CCFF1, 0x4B60C20F, 0x9E9C0E17, 0x6C9003E9, 0x7F68631A, 0x8D646EE4,
     0xD17D8DDB, 0x23718025, 0x3089E0D6, 0xC285ED28, 0x17792130, 0xE5752CCE, 0xF68D4C3D, 0x048141C3,
     0x4EBE8A43, 0xBCB287BD, 0xAF4AE74E, 0x5D46EAB0, 0x88BA26A8, 0x7AB62B56, 0x694E4BA5, 0x9B42465B,
     0xC75BA564, 0x3557A89A, 0x26AFC869, 0xD4A3C597, 0x015F098F, 0xF3530471, 0xE0AB6482, 0x12A7697C,
     0x74D4F382, 0x86D8FE7C, 0x95209E8F, 0x672C9371, 0xB2D05F69, 0x40DC5297, 0x53243264, 0xA1283F9A,
     0xFD31DCA5, 0x0F3DD15B, 0x1CC5B1A8, 0xEEC9BC56, 0x3B35704E, 0xC9397DB0, 0xDAC11D43, 0x28CD10BD,
     0x62F2DB3D, 0x90FED6C3, 0x8306B630, 0x710ABBCE, 0xA4F677D6, 0x56FA7A28, 0x45021ADB, 0xB70E1725,
     0xEB17F41A, 0x191BF9E4, 0x0AE39917, 0xF8EF94E9, 0x2D1358F1, 0xDF1F550F, 0xCCE735FC, 0x3EEB3802,
     0xB13145F8, 0x433D4806, 0x50C528F5, 0xA2C9250B, 0x7735E913, 0x8539E4ED, 0x96C1841E, 0x64CD89E0,
     0x38D46ADF, 0xCAD86721, 0xD92007D2, 0x2B2C0A2C, 0xFED0C634, 0x0CDCCBCA, 0x1F24AB39, 0xED28A6C7,
     0xA7176D47, 0x551B60B9, 0x46E3004A, 0xB4EF0DB4, 0x6113C1AC, 0x931FCC52, 0x80E7ACA1, 0x72EBA15F,
     0x2EF24260, 0xDCFE4F9E, 0xCF062F6D, 0x3D0A2293, 0xE8F6EE8B, 0x1AFAE375, 0x09028386, 0xFB0E8E78,
     0x9D7D1486, 0x6F711978, 0x7C89798B, 0x8E857475, 0x5B79B86D, 0xA975B593, 0xBA8DD560, 0x4881D89E,
     0x14983BA1, 0xE694365F, 0xF56C56AC, 0x07605B52, 0xD29C974A, 0x20909AB4, 0x3368FA47, 0xC164F7B9,
     0x8B5B3C39, 0x795731C7, 0x6AAF5134, 0x98A35CCA, 0x4D5F90D2, 0xBF539D2C, 0xACABFDDF, 0x5EA7F021,
     0x02BE131E, 0xF0B21EE0, 0xE34A7E13, 0x114673ED, 0xC4BABFF5, 0x36B6B20B, 0x254ED2F8, 0xD742DF06,
     0xE9A9E704, 0x1BA5EAFA, 0x085D8A09, 0xFA5187F7, 0x2FAD4BEF, 0xDDA14611, 0xCE5926E2, 0x3C552B1C,
     0x604CC823, 0x9240C5DD, 0x81B8A52E, 0x73B4A8D0, 0xA64864C8, 0x54446936, 0x47BC09C5, 0xB5B0043B,
     0xFF8FCFBB, 0x0D83C245, 0x1E7BA2B6, 0xEC77AF48, 0x398B6350, 0xCB876EAE, 0xD87F0E5D, 0x2A7303A3,
     0x766AE09C, 0x8466ED62, 0x979E8D91, 0x6592806F, 0xB06E4C77, 0x42624189, 0x519A217A, 0xA3962C84,
     0xC5E5B67A, 0x37E9BB84, 0x2411DB77, 0xD61DD689, 0x03E11A91, 0xF1ED176F, 0xE215779C, 0x10197A62,
     0x4C00995D, 0xBE0C94A3, 0xADF4F450, 0x5FF8F9AE, 0x8A0435B6, 0x78083848, 0x6BF058BB, 0x99FC5545,
     0xD3C39EC5, 0x21CF933B, 0x3237F3C8, 0xC03BFE36, 0x15C7322E, 0xE7CB3FD0, 0xF4335F23, 0x063F52DD,
     0x5A26B1E2, 0xA82ABC1C, 0xBBD2DCEF, 0x49DED111, 0x9C221D09, 0x6E2E10F7, 0x7DD67004, 0x8FDA7DFA]"

section \<open>Extend\<close>

definition AcceleratedCRC32C :: "u32 \<Rightarrow> byte list \<Rightarrow> u32" where
  "AcceleratedCRC32C crc buf = 0"

definition CanAccelerateCRC32C :: bool where
  "CanAccelerateCRC32C \<longleftrightarrow>
     AcceleratedCRC32C 0 [0x54, 0x65, 0x73, 0x74, 0x43, 0x52, 0x43, 0x42, 0x75, 0x66, 0x66, 0x65, 0x72] = 0xDCBC59FA"

definition kCRC32Xor :: u32 where "kCRC32Xor = 0xFFFFFFFF"

definition ReadUint32LE :: "byte list \<Rightarrow> u32" where
  "ReadUint32LE p = DecodeFixed32 p"

definition RoundUp4 :: "u64 \<Rightarrow> u64" where
  "RoundUp4 pointer = (pointer + 3) AND NOT 3"

definition STEP1 :: "u32 \<Rightarrow> byte \<Rightarrow> u32" where
  "STEP1 l b = kByteExtensionTable ! unat ((l AND 0xFF) XOR ucast b) XOR drop_bit 8 l"

definition STEP4 :: "u32 \<Rightarrow> byte list \<Rightarrow> u32" where
  "STEP4 crc p =
     ReadUint32LE p XOR kStrideExtensionTable3 ! unat (crc AND 0xFF) XOR
     kStrideExtensionTable2 ! unat (drop_bit 8 crc AND 0xFF) XOR
     kStrideExtensionTable1 ! unat (drop_bit 16 crc AND 0xFF) XOR
     kStrideExtensionTable0 ! unat (drop_bit 24 crc)"

type_synonym strides = "u32 \<times> u32 \<times> u32 \<times> u32"

definition STEP16 :: "strides \<Rightarrow> byte list \<Rightarrow> strides" where
  "STEP16 s p =
     (case s of (crc0, crc1, crc2, crc3) \<Rightarrow>
        (STEP4 crc0 p, STEP4 crc1 (drop 4 p), STEP4 crc2 (drop 8 p), STEP4 crc3 (drop 12 p)))"

definition STEP4W_step :: "u32 \<Rightarrow> u32" where
  "STEP4W_step w = drop_bit 8 w XOR kByteExtensionTable ! unat (w AND 0xFF)"

definition STEP4W :: "u32 \<Rightarrow> u32 \<Rightarrow> u32" where
  "STEP4W l w = (STEP4W_step ^^ 4) (w XOR l)"

text \<open>The two loops over the strides; they return the partial results and the bytes that are left.\<close>

function swath_loop :: "strides \<Rightarrow> byte list \<Rightarrow> strides \<times> byte list" where
  "swath_loop s p = (if length p \<ge> 16 then swath_loop (STEP16 s p) (drop 16 p) else (s, p))"
  by pat_completeness auto
termination
  by (relation "measure (\<lambda>(_, p). length p)") auto

function word_loop :: "strides \<Rightarrow> byte list \<Rightarrow> strides \<times> byte list" where
  "word_loop s p =
     (if length p \<ge> 4
      then (case s of (crc0, crc1, crc2, crc3) \<Rightarrow> word_loop (crc1, crc2, crc3, STEP4 crc0 p) (drop 4 p))
      else (s, p))"
  by pat_completeness auto
termination
  by (relation "measure (\<lambda>(_, p). length p)") auto

declare swath_loop.simps [simp del] word_loop.simps [simp del]

definition stride_part :: "u32 \<Rightarrow> byte list \<Rightarrow> u32 \<times> byte list" where
  "stride_part l p =
     (if length p \<ge> 16 then
        let s0 = (ReadUint32LE p XOR l, ReadUint32LE (drop 4 p), ReadUint32LE (drop 8 p), ReadUint32LE (drop 12 p));
            (s1, p1) = swath_loop s0 (drop 16 p);
            ((crc0, crc1, crc2, crc3), p2) = word_loop s1 p1 in
        (STEP4W (STEP4W (STEP4W (STEP4W 0 crc0) crc1) crc2) crc3, p2)
      else (l, p))"

text \<open>\<open>address\<close> is where the data lie; only the alignment of the strides depends on it.\<close>

definition Crc_Extend :: "u64 \<Rightarrow> u32 \<Rightarrow> byte list \<Rightarrow> u32" where
  "Crc_Extend address crc data =
     (if CanAccelerateCRC32C then AcceleratedCRC32C crc data
      else
        let l = crc XOR kCRC32Xor;
            x = unat (RoundUp4 address - address);
            (l1, p1) = (if x \<le> length data then (fold (\<lambda>b l. STEP1 l b) (take x data) l, drop x data) else (l, data));
            (l2, p2) = stride_part l1 p1 in
        fold (\<lambda>b l. STEP1 l b) p2 l2 XOR kCRC32Xor)"

definition Crc_Value :: "u64 \<Rightarrow> byte list \<Rightarrow> u32" where
  "Crc_Value address data = Crc_Extend address 0 data"

definition kMaskDelta :: u32 where "kMaskDelta = 0xA282EAD8"

definition Crc_Mask :: "u32 \<Rightarrow> u32" where
  "Crc_Mask crc = (drop_bit 15 crc OR push_bit 17 crc) + kMaskDelta"

definition Crc_Unmask :: "u32 \<Rightarrow> u32" where
  "Crc_Unmask masked_crc = (let rot = masked_crc - kMaskDelta in drop_bit 17 rot OR push_bit 15 rot)"

section \<open>The bitwise reference\<close>

definition crc_bit :: "u32 \<Rightarrow> u32" where
  "crc_bit l = (if odd l then drop_bit 1 l XOR 0x82F63B78 else drop_bit 1 l)"

definition crc_byte :: "u32 \<Rightarrow> u32" where
  "crc_byte l = (crc_bit ^^ 8) l"

definition crc_ref :: "u32 \<Rightarrow> byte list \<Rightarrow> u32" where
  "crc_ref l data = fold (\<lambda>b l. crc_byte (l XOR ucast b)) data l"

text \<open>CRC-32C of a string: polynomial \<open>0x1EDC6F41\<close> in reflected form, pre- and post-conditioned with all ones.\<close>

definition crc32c :: "byte list \<Rightarrow> u32" where
  "crc32c data = crc_ref 0xFFFFFFFF data XOR 0xFFFFFFFF"

section \<open>The tables are powers of the reference step\<close>

text \<open>The table of a linear map from its values at the powers of two, the highest one first.\<close>

fun xor_table :: "u32 list \<Rightarrow> u32 list" where
  "xor_table [] = [0]"
| "xor_table (v # vs) = (let t = xor_table vs in t @ map (\<lambda>x. v XOR x) t)"

lemma crc_bit_value:
  "crc_bit 1 = 0x82F63B78"
  "crc_bit (numeral n) =
     (if odd (numeral n :: u32) then drop_bit 1 (numeral n) XOR 0x82F63B78 else drop_bit 1 (numeral n))"
  by (simp_all add: crc_bit_def)

lemma crc_byte_unfold:
  "crc_byte l = crc_bit (crc_bit (crc_bit (crc_bit (crc_bit (crc_bit (crc_bit (crc_bit l)))))))"
  by (simp add: crc_byte_def eval_nat_numeral)

lemma funpow_numeral: "(f ^^ numeral k) x = f ((f ^^ pred_numeral k) x)"
  by (simp add: numeral_eq_Suc)

lemmas crc_eval = crc_byte_unfold crc_bit_value funpow_numeral

lemma kByteExtensionTable_basis:
  "map (crc_byte ^^ 1) [128, 64, 32, 16, 8, 4, 2, 1] =
     [0x82F63B78, 0x417B1DBC, 0x20BD8EDE, 0x105EC76F, 0x8AD958CF, 0xC79A971F, 0xE13B70F7, 0xF26B8303]"
  by (simp add: crc_eval)

lemma kByteExtensionTable_xor: "kByteExtensionTable =
    xor_table [0x82F63B78, 0x417B1DBC, 0x20BD8EDE, 0x105EC76F, 0x8AD958CF, 0xC79A971F, 0xE13B70F7, 0xF26B8303]"
  by (simp add: kByteExtensionTable_def)

lemma kStrideExtensionTable0_basis:
  "map (crc_byte ^^ 13) [128, 64, 32, 16, 8, 4, 2, 1] =
     [0x18B8EA18, 0x0C5C750C, 0x062E3A86, 0x03171D43, 0x837DB5D9, 0xC348E194, 0x61A470CA, 0x30D23865]"
  by (simp add: crc_eval)

lemma kStrideExtensionTable0_xor: "kStrideExtensionTable0 =
    xor_table [0x18B8EA18, 0x0C5C750C, 0x062E3A86, 0x03171D43, 0x837DB5D9, 0xC348E194, 0x61A470CA, 0x30D23865]"
  by (simp add: kStrideExtensionTable0_def)

lemma kStrideExtensionTable1_basis:
  "map (crc_byte ^^ 14) [128, 64, 32, 16, 8, 4, 2, 1] =
     [0x9A9F274A, 0x4D4F93A5, 0xA451F2AA, 0x5228F955, 0xABE247D2, 0x55F123E9, 0xA80EAA8C, 0x54075546]"
  by (simp add: crc_eval)

lemma kStrideExtensionTable1_xor: "kStrideExtensionTable1 =
    xor_table [0x9A9F274A, 0x4D4F93A5, 0xA451F2AA, 0x5228F955, 0xABE247D2, 0x55F123E9, 0xA80EAA8C, 0x54075546]"
  by (simp add: kStrideExtensionTable1_def)

lemma kStrideExtensionTable2_basis:
  "map (crc_byte ^^ 15) [128, 64, 32, 16, 8, 4, 2, 1] =
     [0x2A03AAA3, 0x97F7EE29, 0xC90DCC6C, 0x6486E636, 0x3243731B, 0x9BD782F5, 0xCF1DFA02, 0x678EFD01]"
  by (simp add: crc_eval)

lemma kStrideExtensionTable2_xor: "kStrideExtensionTable2 =
    xor_table [0x2A03AAA3, 0x97F7EE29, 0xC90DCC6C, 0x6486E636, 0x3243731B, 0x9BD782F5, 0xCF1DFA02, 0x678EFD01]"
  by (simp add: kStrideExtensionTable2_def)

lemma kStrideExtensionTable3_basis:
  "map (crc_byte ^^ 16) [128, 64, 32, 16, 8, 4, 2, 1] =
     [0xB13145F8, 0x5898A2FC, 0x2C4C517E, 0x162628BF, 0x89E52F27, 0xC604ACEB, 0xE1F46D0D, 0xF20C0DFE]"
  by (simp add: crc_eval)

lemma kStrideExtensionTable3_xor: "kStrideExtensionTable3 =
    xor_table [0xB13145F8, 0x5898A2FC, 0x2C4C517E, 0x162628BF, 0x89E52F27, 0xC604ACEB, 0xE1F46D0D, 0xF20C0DFE]"
  by (simp add: kStrideExtensionTable3_def)

section \<open>Linearity\<close>

definition xor_linear :: "(u32 \<Rightarrow> u32) \<Rightarrow> bool" where
  "xor_linear f \<longleftrightarrow> (\<forall>a b. f (a XOR b) = f a XOR f b)"

lemma xor_linearD: "xor_linear f \<Longrightarrow> f (a XOR b) = f a XOR f b"
  by (simp add: xor_linear_def)

lemma xor_linear_0: "xor_linear f \<Longrightarrow> f 0 = 0"
  using xor_linearD [of f 0 0] by simp

lemma xor_linear_funpow: "xor_linear f \<Longrightarrow> xor_linear (f ^^ n)"
  by (induction n) (simp_all add: xor_linear_def)

lemma odd_xor: "odd (a XOR b) \<longleftrightarrow> odd a \<noteq> odd b" for a b :: u32
  by (simp add: even_xor_iff)

lemma xor_linear_crc_bit: "xor_linear crc_bit"
  unfolding xor_linear_def crc_bit_def odd_xor drop_bit_xor
  by (auto simp: xor.left_commute xor.commute xor.assoc)

lemma xor_linear_crc_byte: "xor_linear crc_byte"
  using xor_linear_funpow [OF xor_linear_crc_bit, of 8] by (simp add: xor_linear_def crc_byte_def)

lemmas crc_pow_xor = xor_linearD [OF xor_linear_funpow [OF xor_linear_crc_byte]]
  and crc_byte_xor = xor_linearD [OF xor_linear_crc_byte]

lemmas crc_pow_0 = xor_linear_0 [OF xor_linear_funpow [OF xor_linear_crc_byte]]

lemma crc_bit_shift: "take_bit n l = 0 \<Longrightarrow> (crc_bit ^^ n) l = drop_bit n l"
proof (induction n arbitrary: l)
  case (Suc n)
  have even: "even l" using Suc.prems by (metis bit_0 bit_take_bit_iff bit_0_eq bot_apply bot_bool_def zero_less_Suc)
  have "take_bit n (drop_bit 1 l) = 0" using Suc.prems by (simp add: take_bit_drop_bit)
  moreover have "crc_bit l = drop_bit 1 l" using even by (simp add: crc_bit_def)
  ultimately show ?case using Suc.IH by (simp add: funpow_Suc_right del: funpow.simps)
qed simp

lemma crc_byte_shift: "take_bit 8 l = 0 \<Longrightarrow> crc_byte l = drop_bit 8 l"
  by (simp add: crc_byte_def crc_bit_shift)

lemma crc_byte_push: "x < 2 ^ 24 \<Longrightarrow> crc_byte (push_bit 8 x) = x"
proof -
  assume "x < 2 ^ 24"
  then have "unat x < 2 ^ 24" by (simp add: word_less_nat_alt)
  then have "drop_bit 8 (push_bit 8 x) = x"
    by (simp add: word_unat_eq_iff unat_drop_bit_div push_bit_eq_mult unat_word_ariths)
  then show ?thesis by (simp add: crc_byte_shift take_bit_push_bit)
qed

lemma xor_move: "a XOR b = c \<Longrightarrow> a = b XOR c" for a b c :: u32
  by (metis xor.left_commute xor.right_neutral xor_self_eq)

lemma crc_byte_split: "crc_byte l = crc_byte (take_bit 8 l) XOR drop_bit 8 l"
proof (rule xor_move)
  have low: "take_bit 8 (l XOR take_bit 8 l) = 0" by (simp only: take_bit_xor take_bit_take_bit) simp
  have high: "drop_bit 8 (l XOR take_bit 8 l) = drop_bit 8 l" by (simp only: drop_bit_xor drop_bit_take_bit) simp
  show "crc_byte l XOR crc_byte (take_bit 8 l) = drop_bit 8 l"
    using crc_byte_shift [OF low] by (simp only: crc_byte_xor high)
qed

section \<open>Table lookups\<close>

lemma xor_table_linear:
  assumes "xor_linear f"
  shows "length (xor_table (map (\<lambda>i. f (2 ^ i)) (rev [0..<k]))) = 2 ^ k \<and>
    (\<forall>n < 2 ^ k. xor_table (map (\<lambda>i. f (2 ^ i)) (rev [0..<k])) ! n = f (of_nat n))"
proof (induction k)
  case 0
  show ?case by (simp add: xor_linear_0 [OF assms])
next
  case (Suc k)
  have "f (2 ^ k) XOR f (of_nat (n - 2 ^ k)) = f (of_nat n)" if "n < 2 ^ Suc k" "2 ^ k \<le> n" for n
  proof -
    have "\<not> bit (n - 2 ^ k) k" using that by (simp add: bit_iff_odd)
    then have "2 ^ k AND (n - 2 ^ k) = 0" by (auto intro!: bit_eqI simp: bit_simps)
    then have "2 ^ k XOR (n - 2 ^ k) = 2 ^ k + (n - 2 ^ k)" by (simp add: disjunctive_add_eq_xor)
    with that have "2 ^ k XOR (n - 2 ^ k) = n" by simp
    then have "(2 ^ k :: u32) XOR of_nat (n - 2 ^ k) = of_nat n"
      by (metis of_nat_xor_eq of_nat_power of_nat_numeral)
    then show ?thesis by (metis xor_linearD [OF assms])
  qed
  with Suc show ?case by (auto simp: Let_def nth_append)
qed

lemma powers_of_two: "[128, 64, 32, 16, 8, 4, 2, 1] = map (\<lambda>i. 2 ^ i :: u32) (rev [0..<8])"
  by (simp add: upt_rec)

lemma table_lookup:
  assumes "T = xor_table vs" "map (crc_byte ^^ k) [128, 64, 32, 16, 8, 4, 2, 1] = vs" "n < 256"
  shows "T ! unat n = (crc_byte ^^ k) n"
proof -
  have "vs = map (\<lambda>i. (crc_byte ^^ k) (2 ^ i)) (rev [0..<8])"
    using assms(2) unfolding powers_of_two by (simp add: comp_def)
  with assms(1,3) xor_table_linear [OF xor_linear_funpow [OF xor_linear_crc_byte], of k 8] show ?thesis
    by (simp add: word_less_nat_alt)
qed

lemmas byte_table = table_lookup [OF kByteExtensionTable_xor kByteExtensionTable_basis]
  and stride_table0 = table_lookup [OF kStrideExtensionTable0_xor kStrideExtensionTable0_basis]
  and stride_table1 = table_lookup [OF kStrideExtensionTable1_xor kStrideExtensionTable1_basis]
  and stride_table2 = table_lookup [OF kStrideExtensionTable2_xor kStrideExtensionTable2_basis]
  and stride_table3 = table_lookup [OF kStrideExtensionTable3_xor kStrideExtensionTable3_basis]

section \<open>The steps of the code\<close>

lemma low_byte: "l AND 0xFF = take_bit 8 l" for l :: u32
  by (simp add: take_bit_eq_mask mask_eq_exp_minus_1)

lemma take_bit_8_less: "take_bit 8 l < 256" for l :: u32
  by (simp add: word_less_nat_alt take_bit_eq_mod unat_mod_distrib)

lemma take_bit_ucast_byte: "take_bit 8 (ucast b :: u32) = ucast b" for b :: byte
  by (rule bit_eqI) (auto simp: bit_simps dest: bit_imp_le_length)

lemma drop_bit_ucast_byte: "drop_bit 8 (ucast b :: u32) = 0" for b :: byte
  by (rule bit_eqI) (auto simp: bit_simps dest: bit_imp_le_length)

lemmas ucast_byte_bits = take_bit_ucast_byte drop_bit_ucast_byte

lemma STEP1_ref: "STEP1 l b = crc_byte (l XOR ucast b)"
proof -
  have "(l AND 0xFF) XOR ucast b = take_bit 8 (l XOR ucast b)"
    by (simp only: low_byte take_bit_xor ucast_byte_bits)
  moreover have "drop_bit 8 l = drop_bit 8 (l XOR ucast b)"
    by (simp only: drop_bit_xor ucast_byte_bits) simp
  ultimately show ?thesis
    unfolding STEP1_def by (subst crc_byte_split) (simp only: byte_table [OF take_bit_8_less] funpow_0 funpow.simps comp_def One_nat_def id_apply)
qed

lemma STEP4W_step_ref: "STEP4W_step w = crc_byte w"
  unfolding STEP4W_step_def low_byte
  by (subst crc_byte_split) (simp only: byte_table [OF take_bit_8_less] funpow.simps comp_def One_nat_def id_apply xor.commute)

lemma STEP4W_ref: "STEP4W l w = (crc_byte ^^ 4) (l XOR w)"
proof -
  have "STEP4W_step = crc_byte" by (rule ext) (rule STEP4W_step_ref)
  then show ?thesis by (simp add: STEP4W_def xor.commute)
qed

lemma crc_pow_split: "(crc_byte ^^ Suc k) l = (crc_byte ^^ Suc k) (take_bit 8 l) XOR (crc_byte ^^ k) (drop_bit 8 l)"
  by (simp only: funpow_Suc_right comp_apply crc_byte_split [of l] crc_pow_xor)

lemma drop_bit_24_less: "drop_bit 24 l < 256" for l :: u32
  using unsigned_less [of l, where 'a = nat] by (simp add: word_less_nat_alt unat_drop_bit_div)

lemma STEP4_ref: "STEP4 crc p = (crc_byte ^^ 16) crc XOR ReadUint32LE p"
proof -
  have "(crc_byte ^^ 16) crc = (crc_byte ^^ 16) (take_bit 8 crc) XOR (crc_byte ^^ 15) (drop_bit 8 crc)"
    "(crc_byte ^^ 15) (drop_bit 8 crc) =
       (crc_byte ^^ 15) (take_bit 8 (drop_bit 8 crc)) XOR (crc_byte ^^ 14) (drop_bit 16 crc)"
    "(crc_byte ^^ 14) (drop_bit 16 crc) =
       (crc_byte ^^ 14) (take_bit 8 (drop_bit 16 crc)) XOR (crc_byte ^^ 13) (drop_bit 24 crc)"
    using crc_pow_split [of 15 crc] crc_pow_split [of 14 "drop_bit 8 crc"] crc_pow_split [of 13 "drop_bit 16 crc"]
    by (simp_all del: funpow.simps)
  then show ?thesis
    unfolding STEP4_def low_byte stride_table0 [OF drop_bit_24_less] stride_table1 [OF take_bit_8_less]
      stride_table2 [OF take_bit_8_less] stride_table3 [OF take_bit_8_less]
    by (simp add: xor.assoc xor.commute xor.left_commute del: funpow.simps)
qed

text \<open>Four bytes of the reference are one step with the word they form.\<close>

lemma of_nat_digit: "of_nat (unat b + 256 * m) = (ucast b :: u32) XOR push_bit 8 (of_nat m)" for b :: byte
proof -
  have "(ucast b :: u32) AND push_bit 8 (of_nat m) = 0"
    by (rule bit_eqI) (auto simp: bit_simps dest: bit_imp_le_length)
  then show ?thesis by (simp add: disjunctive_add_eq_xor [symmetric] push_bit_eq_mult)
qed

lemma crc_pow_digit:
  fixes b :: byte
  assumes "m < 2 ^ 24"
  shows "(crc_byte ^^ Suc k) (of_nat (unat b + 256 * m)) = (crc_byte ^^ Suc k) (ucast b) XOR (crc_byte ^^ k) (of_nat m)"
proof -
  have "(of_nat m :: u32) < 2 ^ 24" using assms by (simp add: word_less_nat_alt unat_of_nat)
  then have "(crc_byte ^^ Suc k) (push_bit 8 (of_nat m)) = (crc_byte ^^ k) (of_nat m)"
    by (simp only: funpow_Suc_right comp_apply crc_byte_push)
  then show ?thesis by (simp only: of_nat_digit crc_pow_xor)
qed

lemma crc_ref_4: "crc_ref l [a, b, c, d] = (crc_byte ^^ 4) (l XOR ReadUint32LE [a, b, c, d])"
proof -
  have bounds: "le_val [b, c, d] < 2 ^ 24" "le_val [c, d] < 2 ^ 24" "le_val [d] < 2 ^ 24"
    using le_val_bound [of "[b, c, d]"] le_val_bound [of "[c, d]"] le_val_bound [of "[d]"] by simp_all
  have two: "(crc_byte ^^ 2) (of_nat (le_val [c, d])) = (crc_byte ^^ 2) (ucast c) XOR crc_byte (ucast d)"
    using crc_pow_digit [OF bounds(3), of 1 c] by (simp add: numeral_2_eq_2)
  have three: "(crc_byte ^^ 3) (of_nat (le_val [b, c, d])) =
      (crc_byte ^^ 3) (ucast b) XOR (crc_byte ^^ 2) (of_nat (le_val [c, d]))"
    using crc_pow_digit [OF bounds(2), of 2 b] by (simp only: le_val.simps(2) [of b] Suc_numeral add_num_simps)
  have four: "(crc_byte ^^ 4) (of_nat (le_val [a, b, c, d])) =
      (crc_byte ^^ 4) (ucast a) XOR (crc_byte ^^ 3) (of_nat (le_val [b, c, d]))"
    using crc_pow_digit [OF bounds(1), of 3 a] by (simp only: le_val.simps(2) [of a] Suc_numeral add_num_simps)
  have "crc_ref l [a, b, c, d] = (crc_byte ^^ 4) l XOR ((crc_byte ^^ 4) (ucast a) XOR ((crc_byte ^^ 3) (ucast b) XOR
      ((crc_byte ^^ 2) (ucast c) XOR crc_byte (ucast d))))"
    by (simp add: crc_ref_def numeral_eq_Suc crc_byte_xor xor.assoc)
  moreover have "ReadUint32LE [a, b, c, d] = of_nat (le_val [a, b, c, d])"
    by (simp add: ReadUint32LE_def DecodeFixed32_def)
  ultimately show ?thesis by (simp only: crc_pow_xor four three two)
qed

section \<open>The loops\<close>

lemma crc_ref_append: "crc_ref l (a @ b) = crc_ref (crc_ref l a) b"
  by (simp add: crc_ref_def)

lemma crc_ref_word:
  assumes "4 \<le> length p"
  shows "crc_ref l p = crc_ref ((crc_byte ^^ 4) (l XOR ReadUint32LE p)) (drop 4 p)"
proof -
  obtain a b c d q where p: "p = a # b # c # d # q"
    using assms by (cases p; cases "tl p"; cases "tl (tl p)"; cases "tl (tl (tl p))") auto
  have "ReadUint32LE p = ReadUint32LE [a, b, c, d]" by (simp add: p ReadUint32LE_def DecodeFixed32_def)
  with crc_ref_append [of l "[a, b, c, d]" q] show ?thesis by (simp only: crc_ref_4) (simp add: p)
qed

definition combine :: "strides \<Rightarrow> u32" where
  "combine s = (case s of (crc0, crc1, crc2, crc3) \<Rightarrow>
     STEP4W (STEP4W (STEP4W (STEP4W 0 crc0) crc1) crc2) crc3)"

lemma combine_rotate:
  "combine (crc1, crc2, crc3, STEP4 crc0 p) = (crc_byte ^^ 4) (combine (crc0, crc1, crc2, crc3) XOR ReadUint32LE p)"
proof -
  have "(crc_byte ^^ (4 + (4 + (4 + 4)))) crc0 = (crc_byte ^^ 4) ((crc_byte ^^ 4) ((crc_byte ^^ 4) ((crc_byte ^^ 4) crc0)))"
    by (simp only: funpow_add comp_apply)
  moreover have "4 + (4 + (4 + 4)) = (16 :: nat)" by simp
  ultimately have "(crc_byte ^^ 16) crc0 =
      (crc_byte ^^ 4) ((crc_byte ^^ 4) ((crc_byte ^^ 4) ((crc_byte ^^ 4) crc0)))" by (simp only:)
  then show ?thesis
    by (simp only: combine_def prod.case STEP4W_ref STEP4_ref crc_pow_xor crc_pow_0 xor.left_neutral
        xor.right_neutral xor.assoc xor.commute xor.left_commute)
qed

lemma word_loop_ref:
  "word_loop s p = (s', p') \<Longrightarrow> crc_ref (combine s') p' = crc_ref (combine s) p \<and> length p' < 4"
proof (induction s p rule: word_loop.induct)
  case (1 s p)
  obtain c0 c1 c2 c3 where s: "s = (c0, c1, c2, c3)" by (cases s)
  show ?case
  proof (cases "4 \<le> length p")
    case True
    then have "crc_ref (combine s') p' = crc_ref (combine (c1, c2, c3, STEP4 c0 p)) (drop 4 p) \<and> length p' < 4"
      using 1 s by (simp add: word_loop.simps [of "(c0, c1, c2, c3)" p])
    with True show ?thesis by (simp only: combine_rotate s crc_ref_word [OF True, of "combine (c0, c1, c2, c3)"])
  next
    case False
    with 1 show ?thesis by (simp add: word_loop.simps [of s p])
  qed
qed

lemma STEP16_ref:
  assumes "16 \<le> length p"
  shows "crc_ref (combine (STEP16 s p)) (drop 16 p) = crc_ref (combine s) p"
proof -
  obtain c0 c1 c2 c3 where s: "s = (c0, c1, c2, c3)" by (cases s)
  have "crc_ref (combine (c0, c1, c2, c3)) p = crc_ref (combine (c1, c2, c3, STEP4 c0 p)) (drop 4 p)"
    using assms by (simp only: combine_rotate) (simp add: crc_ref_word [of p])
  also have "\<dots> = crc_ref (combine (c2, c3, STEP4 c0 p, STEP4 c1 (drop 4 p))) (drop 8 p)"
    using assms by (simp only: combine_rotate) (simp add: crc_ref_word [of "drop 4 p"])
  also have "\<dots> = crc_ref (combine (c3, STEP4 c0 p, STEP4 c1 (drop 4 p), STEP4 c2 (drop 8 p))) (drop 12 p)"
    using assms by (simp only: combine_rotate) (simp add: crc_ref_word [of "drop 8 p"])
  also have "\<dots> = crc_ref (combine (STEP16 s p)) (drop 16 p)"
    using assms by (simp only: STEP16_def s prod.case combine_rotate) (simp add: crc_ref_word [of "drop 12 p"])
  finally show ?thesis by (simp add: s)
qed

lemma swath_loop_ref: "swath_loop s p = (s', p') \<Longrightarrow> crc_ref (combine s') p' = crc_ref (combine s) p"
proof (induction s p rule: swath_loop.induct)
  case (1 s p)
  then show ?case
    by (cases "16 \<le> length p") (simp_all add: swath_loop.simps [of s p] STEP16_ref)
qed

lemma stride_part_ref: "stride_part l p = (l', p') \<Longrightarrow> crc_ref l' p' = crc_ref l p"
proof -
  assume *: "stride_part l p = (l', p')"
  show ?thesis
  proof (cases "16 \<le> length p")
    case True
    let ?s0 = "(ReadUint32LE p XOR l, ReadUint32LE (drop 4 p), ReadUint32LE (drop 8 p), ReadUint32LE (drop 12 p))"
    obtain s1 p1 where s1: "swath_loop ?s0 (drop 16 p) = (s1, p1)" by (cases "swath_loop ?s0 (drop 16 p)")
    obtain s2 p2 where s2: "word_loop s1 p1 = (s2, p2)" by (cases "word_loop s1 p1")
    have "l' = combine s2" "p' = p2"
      using * True s1 s2 by (auto simp: stride_part_def combine_def split: prod.splits)
    moreover have "crc_ref (combine ?s0) (drop 16 p) = crc_ref l p"
      using True by (simp only: combine_def prod.case STEP4W_ref xor.left_neutral)
        (simp add: crc_ref_word [of p] crc_ref_word [of "drop 4 p"] crc_ref_word [of "drop 8 p"]
          crc_ref_word [of "drop 12 p"] xor.commute)
    ultimately show ?thesis using swath_loop_ref [OF s1] word_loop_ref [OF s2] by simp
  next
    case False
    with * show ?thesis by (simp add: stride_part_def)
  qed
qed

section \<open>Properties\<close>

lemma fold_STEP1: "fold (\<lambda>b l. STEP1 l b) p l = crc_ref l p"
  by (simp add: crc_ref_def STEP1_ref)

lemma CanAccelerateCRC32C_False [simp]: "\<not> CanAccelerateCRC32C"
  by (simp add: CanAccelerateCRC32C_def AcceleratedCRC32C_def)

lemma Crc_Extend_ref: "Crc_Extend address crc data = crc_ref (crc XOR 0xFFFFFFFF) data XOR 0xFFFFFFFF"
proof -
  define l x where "l = crc XOR kCRC32Xor" and "x = unat (RoundUp4 address - address)"
  obtain l1 p1 where 1: "(if x \<le> length data then (fold (\<lambda>b l. STEP1 l b) (take x data) l, drop x data) else (l, data)) = (l1, p1)"
    by (cases "x \<le> length data") simp_all
  obtain l2 p2 where 2: "stride_part l1 p1 = (l2, p2)" by (cases "stride_part l1 p1")
  have "crc_ref l1 p1 = crc_ref l data"
    using 1 crc_ref_append [of l "take x data" "drop x data"] by (auto simp: fold_STEP1 split: if_splits)
  with stride_part_ref [OF 2] have "fold (\<lambda>b l. STEP1 l b) p2 l2 = crc_ref l data" by (simp add: fold_STEP1)
  then have "Crc_Extend address crc data = crc_ref l data XOR kCRC32Xor"
    unfolding Crc_Extend_def Let_def l_def [symmetric] x_def [symmetric] 1 prod.case 2 by simp
  then show ?thesis by (simp add: l_def kCRC32Xor_def)
qed

lemma xor_ones_twice [simp]: "(l XOR 0xFFFFFFFF) XOR 0xFFFFFFFF = l" for l :: u32
  by (simp add: xor.assoc)

lemma Crc_Extend_Value: "Crc_Extend a (Crc_Value b x) y = Crc_Value c (x @ y)"
  by (simp add: Crc_Value_def Crc_Extend_ref crc_ref_append)

text \<open>C14. The optimised checksum is CRC-32C: for data at every address, with its alignment prologue, its four
  interleaved strides driven by four tables of 256 words and its tail, \<^verbatim>\<open>Value\<close> equals the bit by bit definition of
  the CRC, and \<^verbatim>\<open>Extend\<close> of the CRC of a string by further bytes is the CRC of the concatenation, as the header
  promises.\<close>

theorem crc32c_extend_correct:
  "Crc_Value address data = crc32c data \<and> Crc_Extend address (crc32c prefix) data = crc32c (prefix @ data)"
  by (simp add: Crc_Value_def Crc_Extend_ref crc32c_def crc_ref_append)

text \<open>The stored form of a checksum loses nothing.\<close>

lemma crc32c_mask_roundtrip: "Crc_Unmask (Crc_Mask crc) = crc \<and> Crc_Mask (Crc_Unmask m) = m"
proof -
  have rot: "drop_bit k (drop_bit j w OR push_bit k w) OR push_bit j (drop_bit j w OR push_bit k w) = w"
    if "j + k = 32" for j k and w :: u32
  proof (rule bit_word_eqI)
    fix n assume "n < LENGTH(32)"
    with that show "bit (drop_bit k (drop_bit j w OR push_bit k w) OR push_bit j (drop_bit j w OR push_bit k w)) n = bit w n"
      by (cases "n < j") (auto simp: bit_simps dest: bit_imp_le_length)
  qed
  show ?thesis using rot [of 15 17] rot [of 17 15] by (simp add: Crc_Mask_def Crc_Unmask_def Let_def del: drop_bit_or push_bit_or)
qed

end
