(* ===== verification/LDB_Cache.thy ===== *)
theory LDB_Cache
  imports LDB_Bloom "HOL-Library.Monad_Syntax"
begin

unbundle bit_operations_syntax

text \<open>
  LevelDB's LRU cache (\<^verbatim>\<open>util/cache.cc\<close>): the hash table \<^verbatim>\<open>HandleTable\<close>, one shard \<^verbatim>\<open>LRUCache\<close> with its two lists
  and reference counts, and the sharded cache. Operations are options: \<open>None\<close> stands for the use of an entry after it was
  freed, the removal of an entry that is on no list, or a loop that does not end. The mutex of a shard makes its operations
  atomic, so the behaviour under several threads is that of a sequence of operations, which the step relation of
  \<open>LDB_Cache_Spec\<close> describes.
\<close>

section \<open>Entries\<close>

text \<open>
  A pointer to an entry is its address with the fields that never change after \<^verbatim>\<open>Insert\<close> has set them; the two that
  change, \<^verbatim>\<open>in_cache\<close> and \<^verbatim>\<open>refs\<close>, are looked up in the memory of the shard. The lists that run through \<^verbatim>\<open>next\<close>,
  \<^verbatim>\<open>prev\<close> and \<^verbatim>\<open>next_hash\<close> are lists of such pointers.
\<close>

record LRUHandle =
  h_addr :: nat
  h_value :: nat
  h_deleter :: nat
  h_charge :: nat
  h_hash :: u32
  h_key :: "byte list"

record handle_state =
  in_cache :: bool
  refs :: nat

section \<open>The hash table\<close>

record HandleTable =
  ht_length :: u32
  ht_elems :: u32
  ht_list :: "LRUHandle list list"

text \<open>The slot that \<^verbatim>\<open>FindPointer\<close> returns: a bucket and a position in its chain.\<close>

fun find_slot :: "byte list \<Rightarrow> u32 \<Rightarrow> LRUHandle list \<Rightarrow> nat" where
  "find_slot key hash [] = 0"
| "find_slot key hash (h # chain) =
     (if h_hash h \<noteq> hash \<or> \<not> Slice_eq key (h_key h) then Suc (find_slot key hash chain) else 0)"

definition ht_bucket :: "u32 \<Rightarrow> u32 \<Rightarrow> nat" where
  "ht_bucket len hash = unat (hash AND (len - 1))"

definition FindPointer :: "HandleTable \<Rightarrow> byte list \<Rightarrow> u32 \<Rightarrow> nat \<times> nat" where
  "FindPointer t key hash =
     (let b = ht_bucket (ht_length t) hash in (b, find_slot key hash (ht_list t ! b)))"

definition deref_slot :: "HandleTable \<Rightarrow> nat \<times> nat \<Rightarrow> LRUHandle option" where
  "deref_slot t ptr =
     (let chain = ht_list t ! fst ptr in if snd ptr < length chain then Some (chain ! snd ptr) else None)"

definition HandleTable_Lookup :: "HandleTable \<Rightarrow> byte list \<Rightarrow> u32 \<Rightarrow> LRUHandle option" where
  "HandleTable_Lookup t key hash = deref_slot t (FindPointer t key hash)"

text \<open>The doubling wraps around and then never reaches more than \<open>2 ^ 31\<close> elements.\<close>

partial_function (option) resize_length :: "u32 \<Rightarrow> u32 \<Rightarrow> u32 option" where
  [code]: "resize_length elems new_length =
     (if new_length < elems then resize_length elems (new_length * 2) else Some new_length)"

definition rehash :: "u32 \<Rightarrow> LRUHandle \<Rightarrow> LRUHandle list list \<Rightarrow> LRUHandle list list" where
  "rehash new_length h new_list =
     (let b = ht_bucket new_length (h_hash h) in new_list[b := h # new_list ! b])"

definition Resize :: "HandleTable \<Rightarrow> HandleTable option" where
  "Resize t =
     do {
       new_length \<leftarrow> resize_length (ht_elems t) 4;
       let new_list = fold (rehash new_length) (concat (take (unat (ht_length t)) (ht_list t)))
                        (replicate (unat new_length) []);
       Some (t\<lparr>ht_list := new_list, ht_length := new_length\<rparr>)
     }"

definition HandleTable_init :: "HandleTable option" where
  "HandleTable_init = Resize \<lparr>ht_length = 0, ht_elems = 0, ht_list = []\<rparr>"

definition HandleTable_Insert :: "HandleTable \<Rightarrow> LRUHandle \<Rightarrow> (LRUHandle option \<times> HandleTable) option" where
  "HandleTable_Insert t h =
     (let ptr = FindPointer t (h_key h) (h_hash h); old = deref_slot t ptr;
          chain = ht_list t ! fst ptr;
          t1 = t\<lparr>ht_list := (ht_list t)[fst ptr := (if old = None then chain @ [h] else chain[snd ptr := h])]\<rparr> in
      if old = None then
        let t2 = t1\<lparr>ht_elems := ht_elems t + 1\<rparr> in
        if ht_elems t2 > ht_length t2 then do { t3 \<leftarrow> Resize t2; Some (old, t3) } else Some (old, t2)
      else Some (old, t1))"

definition HandleTable_Remove :: "HandleTable \<Rightarrow> byte list \<Rightarrow> u32 \<Rightarrow> LRUHandle option \<times> HandleTable" where
  "HandleTable_Remove t key hash =
     (let ptr = FindPointer t key hash; result = deref_slot t ptr; chain = ht_list t ! fst ptr in
      if result \<noteq> None
      then (result, t\<lparr>ht_list := (ht_list t)[fst ptr := take (snd ptr) chain @ drop (Suc (snd ptr)) chain],
                     ht_elems := ht_elems t - 1\<rparr>)
      else (result, t))"

section \<open>One shard\<close>

text \<open>
  \<open>lc_lru\<close> and \<open>lc_in_use\<close> list the members of the circular lists from \<^verbatim>\<open>next\<close> of the head on, so the oldest entry
  comes first. \<open>lc_deleted\<close> records the calls of the deleters.
\<close>

record LRUCache =
  lc_capacity :: nat
  lc_usage :: nat
  lc_lru :: "LRUHandle list"
  lc_in_use :: "LRUHandle list"
  lc_table :: HandleTable
  lc_mem :: "nat \<rightharpoonup> handle_state"
  lc_deleted :: "LRUHandle list"

definition LRUCache_init :: "nat \<Rightarrow> LRUCache option" where
  "LRUCache_init capacity =
     do {
       t \<leftarrow> HandleTable_init;
       Some \<lparr>lc_capacity = capacity, lc_usage = 0, lc_lru = [], lc_in_use = [], lc_table = t,
             lc_mem = Map.empty, lc_deleted = []\<rparr>
     }"

definition LRU_Remove :: "LRUHandle \<Rightarrow> LRUCache \<Rightarrow> LRUCache option" where
  "LRU_Remove e c =
     (if e \<in> set (lc_lru c) \<union> set (lc_in_use c)
      then Some (c\<lparr>lc_lru := remove1 e (lc_lru c), lc_in_use := remove1 e (lc_in_use c)\<rparr>)
      else None)"

definition set_state :: "LRUHandle \<Rightarrow> handle_state \<Rightarrow> LRUCache \<Rightarrow> LRUCache" where
  "set_state e s c = c\<lparr>lc_mem := (lc_mem c)(h_addr e \<mapsto> s)\<rparr>"

definition LRU_Ref :: "LRUHandle \<Rightarrow> LRUCache \<Rightarrow> LRUCache option" where
  "LRU_Ref e c =
     do {
       s \<leftarrow> lc_mem c (h_addr e);
       c1 \<leftarrow> (if refs s = 1 \<and> in_cache s
              then do { c' \<leftarrow> LRU_Remove e c; Some (c'\<lparr>lc_in_use := lc_in_use c' @ [e]\<rparr>) }
              else Some c);
       Some (set_state e (s\<lparr>refs := (refs s + 1) mod UINT32_MOD\<rparr>) c1)
     }"

definition LRU_Unref :: "LRUHandle \<Rightarrow> LRUCache \<Rightarrow> LRUCache option" where
  "LRU_Unref e c =
     do {
       s \<leftarrow> lc_mem c (h_addr e);
       let s' = s\<lparr>refs := (refs s + (UINT32_MOD - 1)) mod UINT32_MOD\<rparr>;
       let c1 = set_state e s' c;
       if refs s' = 0
       then Some (c1\<lparr>lc_deleted := lc_deleted c1 @ [e], lc_mem := (lc_mem c1)(h_addr e := None)\<rparr>)
       else if in_cache s' \<and> refs s' = 1
       then do { c2 \<leftarrow> LRU_Remove e c1; Some (c2\<lparr>lc_lru := lc_lru c2 @ [e]\<rparr>) }
       else Some c1
     }"

definition FinishErase :: "LRUHandle option \<Rightarrow> LRUCache \<Rightarrow> LRUCache option" where
  "FinishErase r c =
     (case r of
        None \<Rightarrow> Some c
      | Some e \<Rightarrow>
          do {
            c1 \<leftarrow> LRU_Remove e c;
            s \<leftarrow> lc_mem c1 (h_addr e);
            let c2 = set_state e (s\<lparr>in_cache := False\<rparr>) c1;
            LRU_Unref e (c2\<lparr>lc_usage := (lc_usage c2 + (SIZE_MOD - h_charge e)) mod SIZE_MOD\<rparr>)
          })"

definition table_erase :: "byte list \<Rightarrow> u32 \<Rightarrow> LRUCache \<Rightarrow> LRUCache option" where
  "table_erase key hash c =
     (case HandleTable_Remove (lc_table c) key hash of (r, t) \<Rightarrow> FinishErase r (c\<lparr>lc_table := t\<rparr>))"

text \<open>The loops of \<^verbatim>\<open>Insert\<close> and \<^verbatim>\<open>Prune\<close> over the oldest entries.\<close>

partial_function (option) lru_loop :: "(LRUCache \<Rightarrow> bool) \<Rightarrow> LRUCache \<Rightarrow> LRUCache option" where
  [code]: "lru_loop continue c =
     (if continue c \<and> lc_lru c \<noteq> []
      then do {
        c1 \<leftarrow> table_erase (h_key (hd (lc_lru c))) (h_hash (hd (lc_lru c))) c;
        lru_loop continue c1
      }
      else Some c)"

definition over_capacity :: "LRUCache \<Rightarrow> bool" where
  "over_capacity c \<longleftrightarrow> lc_usage c > lc_capacity c"

text \<open>\<open>a\<close> is the address that \<^verbatim>\<open>malloc\<close> returns.\<close>

definition LRUCache_Insert ::
    "nat \<Rightarrow> byte list \<Rightarrow> u32 \<Rightarrow> nat \<Rightarrow> nat \<Rightarrow> nat \<Rightarrow> LRUCache \<Rightarrow> (LRUHandle \<times> LRUCache) option" where
  "LRUCache_Insert a key hash value charge deleter c =
     (let e = \<lparr>h_addr = a, h_value = value, h_deleter = deleter, h_charge = charge, h_hash = hash, h_key = key\<rparr> in
      do {
        c1 \<leftarrow>
          (if lc_capacity c > 0 then
             do {
               let c2 = (set_state e \<lparr>in_cache = True, refs = 2\<rparr> c)
                          \<lparr>lc_in_use := lc_in_use c @ [e], lc_usage := (lc_usage c + charge) mod SIZE_MOD\<rparr>;
               (old, t) \<leftarrow> HandleTable_Insert (lc_table c2) e;
               FinishErase old (c2\<lparr>lc_table := t\<rparr>)
             }
           else Some (set_state e \<lparr>in_cache = False, refs = 1\<rparr> c));
        c3 \<leftarrow> lru_loop over_capacity c1;
        Some (e, c3)
      })"

definition LRUCache_Lookup :: "byte list \<Rightarrow> u32 \<Rightarrow> LRUCache \<Rightarrow> (LRUHandle option \<times> LRUCache) option" where
  "LRUCache_Lookup key hash c =
     (case HandleTable_Lookup (lc_table c) key hash of
        None \<Rightarrow> Some (None, c)
      | Some e \<Rightarrow> do { c1 \<leftarrow> LRU_Ref e c; Some (Some e, c1) })"

definition LRUCache_Release :: "LRUHandle \<Rightarrow> LRUCache \<Rightarrow> LRUCache option" where
  "LRUCache_Release handle c = LRU_Unref handle c"

definition LRUCache_Erase :: "byte list \<Rightarrow> u32 \<Rightarrow> LRUCache \<Rightarrow> LRUCache option" where
  "LRUCache_Erase key hash c = table_erase key hash c"

definition LRUCache_Prune :: "LRUCache \<Rightarrow> LRUCache option" where
  "LRUCache_Prune c = lru_loop (\<lambda>_. True) c"

definition LRUCache_TotalCharge :: "LRUCache \<Rightarrow> nat" where
  "LRUCache_TotalCharge c = lc_usage c"

text \<open>The destructor: every entry of the LRU list loses the reference of the cache.\<close>

fun destroy_entries :: "LRUHandle list \<Rightarrow> LRUCache \<Rightarrow> LRUCache option" where
  "destroy_entries [] c = Some c"
| "destroy_entries (e # es) c =
     do {
       s \<leftarrow> lc_mem c (h_addr e);
       c1 \<leftarrow> LRU_Unref e (set_state e (s\<lparr>in_cache := False\<rparr>) c);
       destroy_entries es c1
     }"

definition LRUCache_destroy :: "LRUCache \<Rightarrow> LRUCache option" where
  "LRUCache_destroy c = destroy_entries (lc_lru c) c"

section \<open>The sharded cache\<close>

definition kNumShardBits :: nat where "kNumShardBits = 4"

definition kNumShards :: nat where "kNumShards = 2 ^ kNumShardBits"

record ShardedLRUCache =
  sc_shard :: "LRUCache list"
  sc_last_id :: u64

definition HashSlice :: "byte list \<Rightarrow> u32" where
  "HashSlice s = Hash s 0"

definition Shard :: "u32 \<Rightarrow> nat" where
  "Shard hash = unat (drop_bit (32 - kNumShardBits) hash)"

definition ShardedLRUCache_init :: "nat \<Rightarrow> ShardedLRUCache option" where
  "ShardedLRUCache_init capacity =
     do {
       s \<leftarrow> LRUCache_init (((capacity + (kNumShards - 1)) mod SIZE_MOD) div kNumShards);
       Some \<lparr>sc_shard = replicate kNumShards s, sc_last_id = 0\<rparr>
     }"

definition on_shard :: "nat \<Rightarrow> (LRUCache \<Rightarrow> ('a \<times> LRUCache) option) \<Rightarrow> ShardedLRUCache \<Rightarrow> ('a \<times> ShardedLRUCache) option" where
  "on_shard i f c =
     do { (r, s) \<leftarrow> f (sc_shard c ! i); Some (r, c\<lparr>sc_shard := (sc_shard c)[i := s]\<rparr>) }"

definition Sharded_Insert ::
    "nat \<Rightarrow> byte list \<Rightarrow> nat \<Rightarrow> nat \<Rightarrow> nat \<Rightarrow> ShardedLRUCache \<Rightarrow> (LRUHandle \<times> ShardedLRUCache) option" where
  "Sharded_Insert a key value charge deleter c =
     (let hash = HashSlice key in on_shard (Shard hash) (LRUCache_Insert a key hash value charge deleter) c)"

definition Sharded_Lookup :: "byte list \<Rightarrow> ShardedLRUCache \<Rightarrow> (LRUHandle option \<times> ShardedLRUCache) option" where
  "Sharded_Lookup key c = (let hash = HashSlice key in on_shard (Shard hash) (LRUCache_Lookup key hash) c)"

definition Sharded_Release :: "LRUHandle \<Rightarrow> ShardedLRUCache \<Rightarrow> (unit \<times> ShardedLRUCache) option" where
  "Sharded_Release h c = on_shard (Shard (h_hash h)) (\<lambda>s. map_option (Pair ()) (LRUCache_Release h s)) c"

definition Sharded_Erase :: "byte list \<Rightarrow> ShardedLRUCache \<Rightarrow> (unit \<times> ShardedLRUCache) option" where
  "Sharded_Erase key c =
     (let hash = HashSlice key in on_shard (Shard hash) (\<lambda>s. map_option (Pair ()) (LRUCache_Erase key hash s)) c)"

definition Sharded_Value :: "LRUHandle \<Rightarrow> nat" where
  "Sharded_Value handle = h_value handle"

definition Sharded_NewId :: "ShardedLRUCache \<Rightarrow> u64 \<times> ShardedLRUCache" where
  "Sharded_NewId c = (sc_last_id c + 1, c\<lparr>sc_last_id := sc_last_id c + 1\<rparr>)"

fun prune_shards :: "LRUCache list \<Rightarrow> LRUCache list option" where
  "prune_shards [] = Some []"
| "prune_shards (s # ss) = do { s' \<leftarrow> LRUCache_Prune s; ss' \<leftarrow> prune_shards ss; Some (s' # ss') }"

definition Sharded_Prune :: "ShardedLRUCache \<Rightarrow> ShardedLRUCache option" where
  "Sharded_Prune c = do { ss \<leftarrow> prune_shards (sc_shard c); Some (c\<lparr>sc_shard := ss\<rparr>) }"

definition Sharded_TotalCharge :: "ShardedLRUCache \<Rightarrow> nat" where
  "Sharded_TotalCharge c = fold (\<lambda>s total. (total + LRUCache_TotalCharge s) mod SIZE_MOD) (sc_shard c) 0"

end
