(* ===== verification/LDB_Cache_Table.thy ===== *)
theory LDB_Cache_Table
  imports LDB_Cache
begin

unbundle bit_operations_syntax

text \<open>
  The contract of the cache's hash table as a locale, its proof for \<^verbatim>\<open>HandleTable\<close>, and the lemmas the cache proofs take
  from it. A table is a finite set of entries with distinct keys; the buckets, the chains and the resizing do not show.
\<close>

section \<open>The contract\<close>

definition key_hash :: "LRUHandle \<Rightarrow> byte list \<times> u32" where
  "key_hash h = (h_key h, h_hash h)"

locale handle_table =
  fixes inv :: "'t \<Rightarrow> bool"
    and entries :: "'t \<Rightarrow> LRUHandle set"
    and lookup :: "'t \<Rightarrow> byte list \<Rightarrow> u32 \<Rightarrow> LRUHandle option"
    and insert_entry :: "'t \<Rightarrow> LRUHandle \<Rightarrow> (LRUHandle option \<times> 't) option"
    and remove_entry :: "'t \<Rightarrow> byte list \<Rightarrow> u32 \<Rightarrow> LRUHandle option \<times> 't"
  assumes finite_entries: "finite (entries t)"
    and inj_entries: "inv t \<Longrightarrow> inj_on key_hash (entries t)"
    and lookup_iff: "inv t \<Longrightarrow> lookup t key hash = Some h \<longleftrightarrow> h \<in> entries t \<and> key_hash h = (key, hash)"
    and insert_law: "inv t \<Longrightarrow> card (entries t) < 2 ^ 31 \<Longrightarrow>
      \<exists>t'. insert_entry t h = Some (lookup t (h_key h) (h_hash h), t') \<and> inv t' \<and>
        entries t' = insert h (entries t - set_option (lookup t (h_key h) (h_hash h)))"
    and remove_law: "inv t \<Longrightarrow>
      \<exists>t'. remove_entry t key hash = (lookup t key hash, t') \<and> inv t' \<and>
        entries t' = entries t - set_option (lookup t key hash)"
begin

lemma lookup_none: "inv t \<Longrightarrow> lookup t key hash = None \<longleftrightarrow> (\<forall>h \<in> entries t. key_hash h \<noteq> (key, hash))"
  using lookup_iff [of t key hash] by (metis not_None_eq)

lemma lookup_member: "inv t \<Longrightarrow> h \<in> entries t \<Longrightarrow> lookup t (h_key h) (h_hash h) = Some h"
  by (simp add: lookup_iff key_hash_def)

lemma lookup_insert:
  assumes "inv t" "card (entries t) < 2 ^ 31" "insert_entry t h = Some (old, t')"
  shows "lookup t' key hash = (if (key, hash) = key_hash h then Some h else lookup t key hash)"
proof -
  obtain t'' where t'': "insert_entry t h = Some (lookup t (h_key h) (h_hash h), t'')" "inv t''"
    "entries t'' = insert h (entries t - set_option (lookup t (h_key h) (h_hash h)))"
    using insert_law [OF assms(1,2)] by blast
  with assms(3) have t': "inv t'" "entries t' = insert h (entries t - set_option (lookup t (h_key h) (h_hash h)))"
    by auto
  have gone: "set_option (lookup t (h_key h) (h_hash h)) = {g \<in> entries t. key_hash g = key_hash h}"
    using lookup_iff [OF assms(1), of "h_key h" "h_hash h"] by (auto simp: key_hash_def)
  show ?thesis
  proof (cases "(key, hash) = key_hash h")
    case True
    then show ?thesis using t' lookup_member [OF t'(1), of h] by (simp add: key_hash_def)
  next
    case False
    have "lookup t' key hash = Some g \<longleftrightarrow> lookup t key hash = Some g" for g
      unfolding lookup_iff [OF t'(1)] lookup_iff [OF assms(1)] t'(2) gone using False by auto
    then show ?thesis using False by (metis not_None_eq)
  qed
qed

lemma lookup_remove:
  assumes "inv t" "remove_entry t k hs = (r, t')"
  shows "lookup t' key hash = (if (key, hash) = (k, hs) then None else lookup t key hash)"
proof -
  have t': "inv t'" "entries t' = entries t - set_option (lookup t k hs)"
    using remove_law [OF assms(1), of k hs] assms(2) by auto
  have gone: "set_option (lookup t k hs) = {g \<in> entries t. key_hash g = (k, hs)}"
    using lookup_iff [OF assms(1), of k hs] by auto
  have "lookup t' key hash = Some g \<longleftrightarrow> (key, hash) \<noteq> (k, hs) \<and> lookup t key hash = Some g" for g
    unfolding lookup_iff [OF t'(1)] lookup_iff [OF assms(1)] t'(2) gone by auto
  then show ?thesis by (metis not_None_eq)
qed

end

section \<open>Chains\<close>

lemma memcmp_eq: "length a = length b \<Longrightarrow> memcmp a b = 0 \<longleftrightarrow> a = b"
  by (induction a b rule: memcmp.induct) auto

lemma Slice_eq_iff [simp]: "Slice_eq a b \<longleftrightarrow> a = b"
  by (auto simp: Slice_eq_def memcmp_eq)

lemma find_slot_le: "find_slot key hash chain \<le> length chain"
  by (induction chain) simp_all

lemma find_slot_hit: "find_slot key hash chain < length chain \<Longrightarrow> key_hash (chain ! find_slot key hash chain) = (key, hash)"
  by (induction chain) (auto simp: key_hash_def)

lemma find_slot_miss: "\<not> find_slot key hash chain < length chain \<Longrightarrow> h \<in> set chain \<Longrightarrow> key_hash h \<noteq> (key, hash)"
  by (induction chain) (auto simp: key_hash_def split: if_splits)

lemma ht_bucket_less: "0 < len \<Longrightarrow> ht_bucket len hash < unat len"
proof -
  assume "0 < len"
  then have "unat (len - 1) < unat len" by (simp add: unat_minus_one word_neq_0_conv unat_gt_0)
  moreover have "unat (hash AND (len - 1)) \<le> unat (len - 1)"
    by (simp add: word_and_le1 word_le_nat_alt [symmetric])
  ultimately show ?thesis by (simp add: ht_bucket_def)
qed

section \<open>The invariant of the table\<close>

definition ht_entries :: "HandleTable \<Rightarrow> LRUHandle set" where
  "ht_entries t = set (concat (ht_list t))"

definition chains_ok :: "u32 \<Rightarrow> LRUHandle list list \<Rightarrow> bool" where
  "chains_ok len ls \<longleftrightarrow> 0 < len \<and> length ls = unat len \<and>
     (\<forall>b < length ls. distinct (map key_hash (ls ! b)) \<and> (\<forall>h \<in> set (ls ! b). ht_bucket len (h_hash h) = b))"

definition ht_inv :: "HandleTable \<Rightarrow> bool" where
  "ht_inv t \<longleftrightarrow> chains_ok (ht_length t) (ht_list t) \<and> unat (ht_elems t) = card (ht_entries t)"

lemma chains_ok_bucket: "chains_ok len ls \<Longrightarrow> ht_bucket len hash < length ls"
  by (simp add: chains_ok_def ht_bucket_less)

lemma chains_ok_member:
  assumes "chains_ok len ls"
  shows "h \<in> set (concat ls) \<longleftrightarrow> h \<in> set (ls ! ht_bucket len (h_hash h))"
proof
  assume "h \<in> set (concat ls)"
  then obtain b where "b < length ls" "h \<in> set (ls ! b)" by (auto simp: in_set_conv_nth [of _ ls])
  with assms show "h \<in> set (ls ! ht_bucket len (h_hash h))" by (simp add: chains_ok_def)
next
  assume "h \<in> set (ls ! ht_bucket len (h_hash h))"
  with nth_mem [OF chains_ok_bucket [OF assms]] show "h \<in> set (concat ls)" by auto
qed

lemma chains_ok_inj: "chains_ok len ls \<Longrightarrow> inj_on key_hash (set (concat ls))"
proof (rule inj_onI)
  fix x y assume ok: "chains_ok len ls" and "x \<in> set (concat ls)" "y \<in> set (concat ls)" "key_hash x = key_hash y"
  then have "x \<in> set (ls ! ht_bucket len (h_hash x))" "y \<in> set (ls ! ht_bucket len (h_hash x))"
    using chains_ok_member [OF ok] by (auto simp: key_hash_def)
  moreover have "inj_on key_hash (set (ls ! ht_bucket len (h_hash x)))"
    using ok ht_bucket_less [of len "h_hash x"] by (simp add: chains_ok_def distinct_map)
  ultimately show "x = y" using \<open>key_hash x = key_hash y\<close> by (auto dest: inj_onD)
qed

text \<open>Replacing one chain.\<close>

lemma chains_ok_update:
  assumes "chains_ok len ls" "b < length ls" "distinct (map key_hash chain)"
    and "\<forall>h \<in> set chain. ht_bucket len (h_hash h) = b"
  shows "chains_ok len (ls[b := chain])"
    and "set (concat (ls[b := chain])) = (set (concat ls) - set (ls ! b)) \<union> set chain"
proof -
  show ok: "chains_ok len (ls[b := chain])"
    using assms by (auto simp: chains_ok_def nth_list_update)
  show "set (concat (ls[b := chain])) = (set (concat ls) - set (ls ! b)) \<union> set chain"
  proof (rule set_eqI)
    fix h
    show "h \<in> set (concat (ls[b := chain])) \<longleftrightarrow> h \<in> (set (concat ls) - set (ls ! b)) \<union> set chain"
    proof (cases "ht_bucket len (h_hash h) = b")
      case True
      then show ?thesis
        using assms(2) by (simp only: chains_ok_member [OF ok] chains_ok_member [OF assms(1)] Un_iff Diff_iff) simp
    next
      case False
      then have "h \<notin> set chain" "h \<notin> set (ls ! b)" using assms(1,2,4) by (auto simp: chains_ok_def)
      with False show ?thesis
        by (simp only: chains_ok_member [OF ok] chains_ok_member [OF assms(1)] Un_iff Diff_iff) simp
    qed
  qed
qed

lemma lookup_slot:
  assumes "chains_ok (ht_length t) (ht_list t)" "FindPointer t key hash = (b, i)"
  shows "b < length (ht_list t)" "b = ht_bucket (ht_length t) hash" "i = find_slot key hash (ht_list t ! b)"
    "HandleTable_Lookup t key hash = (if i < length (ht_list t ! b) then Some (ht_list t ! b ! i) else None)"
  using assms chains_ok_bucket [OF assms(1), of hash]
  by (auto simp: FindPointer_def HandleTable_Lookup_def deref_slot_def Let_def)

lemma HandleTable_Lookup_iff:
  assumes "chains_ok (ht_length t) (ht_list t)"
  shows "HandleTable_Lookup t key hash = Some h \<longleftrightarrow> h \<in> ht_entries t \<and> key_hash h = (key, hash)"
proof -
  obtain b i where bi: "FindPointer t key hash = (b, i)" by (cases "FindPointer t key hash")
  note slot = lookup_slot [OF assms bi]
  let ?chain = "ht_list t ! b"
  have mem: "h \<in> ht_entries t \<and> key_hash h = (key, hash) \<longleftrightarrow> h \<in> set ?chain \<and> key_hash h = (key, hash)"
    using chains_ok_member [OF assms, of h] slot(2) by (auto simp: ht_entries_def key_hash_def)
  have inj: "inj_on key_hash (set ?chain)"
    using assms slot(1) by (simp add: chains_ok_def distinct_map)
  show ?thesis
  proof (cases "i < length ?chain")
    case True
    then have "key_hash (?chain ! i) = (key, hash)" "?chain ! i \<in> set ?chain"
      using find_slot_hit slot(3) by auto
    with True mem slot(4) inj_onD [OF inj, of "?chain ! i" h] show ?thesis by auto
  next
    case False
    then show ?thesis using mem find_slot_miss slot(3,4) by auto
  qed
qed

section \<open>Removal\<close>

lemma distinct_drop_nth:
  assumes "distinct (map f xs)" "i < length xs"
  shows "distinct (map f (take i xs @ drop (Suc i) xs))" "set (take i xs @ drop (Suc i) xs) = set xs - {xs ! i}"
proof -
  have xs: "xs = take i xs @ xs ! i # drop (Suc i) xs" using assms(2) by (rule id_take_nth_drop)
  then have "distinct (map f (take i xs @ xs ! i # drop (Suc i) xs))" using assms(1) by simp
  then show "distinct (map f (take i xs @ drop (Suc i) xs))" by (auto simp: image_iff)
  have "distinct (take i xs @ xs ! i # drop (Suc i) xs)" using assms(1) xs by (metis distinct_map)
  then have "set (take i xs @ drop (Suc i) xs) = set (take i xs @ xs ! i # drop (Suc i) xs) - {xs ! i}" by auto
  then show "set (take i xs @ drop (Suc i) xs) = set xs - {xs ! i}" by (metis xs)
qed

lemma card_less_2_32: "ht_inv t \<Longrightarrow> card (ht_entries t) < 2 ^ 32"
  using unsigned_less [of "ht_elems t", where 'a = nat] by (simp add: ht_inv_def)

lemma HandleTable_Remove_law:
  assumes "ht_inv t"
  shows "\<exists>t'. HandleTable_Remove t key hash = (HandleTable_Lookup t key hash, t') \<and> ht_inv t' \<and>
    ht_entries t' = ht_entries t - set_option (HandleTable_Lookup t key hash)"
proof -
  have ok: "chains_ok (ht_length t) (ht_list t)" using assms by (simp add: ht_inv_def)
  obtain b i where bi: "FindPointer t key hash = (b, i)" by (cases "FindPointer t key hash")
  note slot = lookup_slot [OF ok bi]
  let ?chain = "ht_list t ! b" and ?r = "HandleTable_Lookup t key hash"
  have res: "deref_slot t (b, i) = ?r" by (simp add: HandleTable_Lookup_def bi)
  show ?thesis
  proof (cases "?r = None")
    case True
    with assms res show ?thesis by (simp add: HandleTable_Remove_def bi Let_def)
  next
    case False
    then have i: "i < length ?chain" and r: "?r = Some (?chain ! i)" using slot(4) by (auto split: if_splits)
    have dist: "distinct (map key_hash ?chain)" "\<forall>h \<in> set ?chain. ht_bucket (ht_length t) (h_hash h) = b"
      using ok slot(1) by (auto simp: chains_ok_def)
    note new = distinct_drop_nth [OF dist(1) i]
    note upd = chains_ok_update [OF ok slot(1) new(1)]
    let ?t' = "t\<lparr>ht_list := (ht_list t)[b := take i ?chain @ drop (Suc i) ?chain], ht_elems := ht_elems t - 1\<rparr>"
    have mem: "?chain ! i \<in> ht_entries t"
      using nth_mem [OF i] nth_mem [OF slot(1)] by (auto simp: ht_entries_def)
    have ent: "ht_entries ?t' = ht_entries t - {?chain ! i}"
      using upd(2) new(2) dist(2) i slot(1) nth_mem [OF slot(1)] by (auto simp: ht_entries_def)
    have "card (ht_entries t) \<noteq> 0" using mem by (metis card_eq_0_iff empty_iff finite_set ht_entries_def)
    then have "unat (ht_elems t - 1) = card (ht_entries t) - 1"
      using assms by (subst unat_minus_one) (auto simp: ht_inv_def)
    then have "ht_inv ?t'"
      using upd(1) new(2) dist(2) ent mem by (auto simp: ht_inv_def ht_entries_def card_Diff_singleton)
    with ent r res show ?thesis by (intro exI [of _ ?t']) (simp add: HandleTable_Remove_def bi Let_def)
  qed
qed

section \<open>Resizing\<close>

lemma resize_length_returns:
  assumes "unat elems \<le> 2 ^ 31" "2 \<le> k" "k \<le> 31"
  shows "\<exists>n. resize_length elems (2 ^ k) = Some n \<and> 0 < n \<and> elems \<le> n"
  using assms(2,3)
proof (induction "31 - k" arbitrary: k)
  case 0
  then have "k = 31" by simp
  then have "\<not> 2 ^ k < elems" using assms(1) by (simp add: word_less_nat_alt)
  then show ?case using \<open>k = 31\<close> by (subst resize_length.simps) simp
next
  case (Suc d)
  show ?case
  proof (cases "2 ^ k < elems")
    case True
    have "\<exists>n. resize_length elems (2 ^ Suc k) = Some n \<and> 0 < n \<and> elems \<le> n"
      using Suc by (intro Suc(1)) simp_all
    with True show ?thesis by (subst resize_length.simps) (simp add: mult.commute)
  next
    case False
    have "k < LENGTH(32)" using Suc by simp
    then have "0 < (2 ^ k :: u32)" by (simp add: word_gt_0)
    with False show ?thesis by (subst resize_length.simps) simp
  qed
qed

lemma length_rehash [simp]: "length (fold (rehash n) hs ls) = length ls"
  by (induction hs arbitrary: ls) (simp_all add: rehash_def Let_def)

lemma fold_rehash:
  assumes "0 < n" "length ls = unat n" "b < length ls"
  shows "fold (rehash n) hs ls ! b = rev (filter (\<lambda>h. ht_bucket n (h_hash h) = b) hs) @ ls ! b"
  using assms(2,3)
proof (induction hs arbitrary: ls)
  case (Cons h hs)
  then have "fold (rehash n) (h # hs) ls ! b =
      rev (filter (\<lambda>h. ht_bucket n (h_hash h) = b) hs) @ rehash n h ls ! b"
    unfolding fold_simps by (intro Cons.IH) (simp_all add: rehash_def Let_def)
  moreover have "rehash n h ls ! b = (if ht_bucket n (h_hash h) = b then h # ls ! b else ls ! b)"
    using Cons.prems by (simp add: rehash_def Let_def nth_list_update)
  ultimately show ?case by simp
qed simp

lemma chains_ok_distinct: "chains_ok len ls \<Longrightarrow> distinct (map key_hash (concat ls))"
proof -
  assume ok: "chains_ok len ls"
  have "distinct (map key_hash (concat (map (\<lambda>b. ls ! b) [0..<k])))" if "k \<le> length ls" for k
    using that
  proof (induction k)
    case (Suc k)
    have "key_hash x \<noteq> key_hash y" if "x \<in> set (ls ! b)" "b < k" "y \<in> set (ls ! k)" for x y b
      using ok Suc.prems that unfolding chains_ok_def key_hash_def by (metis Suc_le_lessD less_trans nat_neq_iff prod.inject)
    moreover have "distinct (map key_hash (ls ! k))" using ok Suc.prems by (simp add: chains_ok_def)
    ultimately show ?case using Suc by fastforce
  qed simp
  from this [of "length ls"] show ?thesis by (simp add: map_nth)
qed

lemma Resize_law:
  assumes "chains_ok (ht_length t) (ht_list t) \<or> ht_length t = 0 \<and> ht_list t = []"
    and "unat (ht_elems t) = card (ht_entries t)" "card (ht_entries t) \<le> 2 ^ 31"
  shows "\<exists>t'. Resize t = Some t' \<and> ht_inv t' \<and> ht_entries t' = ht_entries t"
proof -
  have len: "length (ht_list t) = unat (ht_length t)" and dist: "distinct (map key_hash (concat (ht_list t)))"
    using assms(1) chains_ok_distinct by (auto simp: chains_ok_def)
  obtain n where n: "resize_length (ht_elems t) 4 = Some n" "0 < n"
    using resize_length_returns [of "ht_elems t" 2] assms(2,3) by auto
  define ls where "ls = fold (rehash n) (concat (ht_list t)) (replicate (unat n) [])"
  have nth: "ls ! b = rev (filter (\<lambda>h. ht_bucket n (h_hash h) = b) (concat (ht_list t)))" if "b < unat n" for b
    using fold_rehash [OF n(2), of "replicate (unat n) []" b] that by (simp add: ls_def)
  have "distinct (map key_hash (rev (filter P (concat (ht_list t)))))" for P
    using dist by (auto simp: distinct_map inj_on_def)
  then have ok: "chains_ok n ls" using n(2) nth by (auto simp: chains_ok_def ls_def)
  have "h \<in> set (concat ls) \<longleftrightarrow> h \<in> set (concat (ht_list t))" for h
    using chains_ok_member [OF ok, of h] nth [OF ht_bucket_less [OF n(2)], of "h_hash h"] by simp
  then have "ht_entries (t\<lparr>ht_list := ls, ht_length := n\<rparr>) = ht_entries t" by (auto simp: ht_entries_def)
  moreover have "Resize t = Some (t\<lparr>ht_list := ls, ht_length := n\<rparr>)"
    by (simp add: Resize_def n(1) ls_def len [symmetric])
  ultimately show ?thesis using ok assms(2) by (simp add: ht_inv_def)
qed

section \<open>Insertion\<close>

lemma HandleTable_Insert_law:
  assumes "ht_inv t" "card (ht_entries t) < 2 ^ 31"
  shows "\<exists>t'. HandleTable_Insert t h = Some (HandleTable_Lookup t (h_key h) (h_hash h), t') \<and> ht_inv t' \<and>
    ht_entries t' = insert h (ht_entries t - set_option (HandleTable_Lookup t (h_key h) (h_hash h)))"
proof -
  have ok: "chains_ok (ht_length t) (ht_list t)" and elems: "unat (ht_elems t) = card (ht_entries t)"
    using assms by (simp_all add: ht_inv_def)
  obtain b i where bi: "FindPointer t (h_key h) (h_hash h) = (b, i)" by (cases "FindPointer t (h_key h) (h_hash h)")
  note slot = lookup_slot [OF ok bi]
  let ?chain = "ht_list t ! b" and ?old = "HandleTable_Lookup t (h_key h) (h_hash h)"
  have res: "deref_slot t (b, i) = ?old" by (simp add: HandleTable_Lookup_def bi)
  have dist: "distinct (map key_hash ?chain)" "\<forall>h \<in> set ?chain. ht_bucket (ht_length t) (h_hash h) = b"
    using ok slot(1) by (auto simp: chains_ok_def)
  have fresh: "g \<in> ht_entries t \<Longrightarrow> g \<notin> set_option ?old \<Longrightarrow> key_hash g \<noteq> key_hash h" for g
    using HandleTable_Lookup_iff [OF ok, of "h_key h" "h_hash h" g] by (auto simp: key_hash_def)
  show ?thesis
  proof (cases "?old = None")
    case True
    have chain: "distinct (map key_hash (?chain @ [h]))" "\<forall>g \<in> set (?chain @ [h]). ht_bucket (ht_length t) (h_hash g) = b"
    proof -
      have "g \<in> ht_entries t" if "g \<in> set ?chain" for g using that nth_mem [OF slot(1)] by (auto simp: ht_entries_def)
      with True fresh have "key_hash h \<notin> key_hash ` set ?chain" by (metis empty_iff imageE option.set(1))
      with dist slot(2) show "distinct (map key_hash (?chain @ [h]))"
        "\<forall>g \<in> set (?chain @ [h]). ht_bucket (ht_length t) (h_hash g) = b" by auto
    qed
    note upd = chains_ok_update [OF ok slot(1) chain]
    let ?t2 = "t\<lparr>ht_list := (ht_list t)[b := ?chain @ [h]], ht_elems := ht_elems t + 1\<rparr>"
    have ent: "ht_entries ?t2 = insert h (ht_entries t)"
      using upd(2) nth_mem [OF slot(1)] by (auto simp: ht_entries_def)
    moreover have "h \<notin> ht_entries t" using True fresh by auto
    ultimately have card: "unat (ht_elems ?t2) = card (ht_entries ?t2)" "card (ht_entries ?t2) \<le> 2 ^ 31"
      using assms(2) elems by (simp_all add: ht_entries_def unat_word_ariths)
    have "\<exists>t'. (if ht_elems ?t2 > ht_length ?t2 then do { t3 \<leftarrow> Resize ?t2; Some (None :: LRUHandle option, t3) }
        else Some (None, ?t2)) =
        Some (None, t') \<and> ht_inv t' \<and> ht_entries t' = insert h (ht_entries t)"
      using Resize_law [of ?t2] upd(1) card ent by (auto simp: ht_inv_def)
    then obtain t' where t': "(if ht_elems ?t2 > ht_length ?t2 then do { t3 \<leftarrow> Resize ?t2; Some (None :: LRUHandle option, t3) }
        else Some (None, ?t2)) =
        Some (None, t')" "ht_inv t'" "ht_entries t' = insert h (ht_entries t)" by blast
    from t'(1) True res have "HandleTable_Insert t h = Some (None, t')"
      by (simp add: HandleTable_Insert_def bi Let_def split: if_splits)
    with t'(2,3) True show ?thesis by simp
  next
    case False
    then have i: "i < length ?chain" and r: "?old = Some (?chain ! i)" using slot(4) by (auto split: if_splits)
    have "key_hash (?chain ! i) = key_hash h" using find_slot_hit i slot(3) by (auto simp: key_hash_def)
    then have map_eq: "map key_hash (?chain[i := h]) = map key_hash ?chain"
      using i by (metis list_update_id map_update nth_map)
    have set_eq: "set (?chain[i := h]) = insert h (set ?chain - {?chain ! i})"
      using dist(1) i by (intro set_update_distinct) (simp_all add: distinct_map)
    have chain: "distinct (map key_hash (?chain[i := h]))" "\<forall>g \<in> set (?chain[i := h]). ht_bucket (ht_length t) (h_hash g) = b"
      using map_eq dist set_eq slot(2) by auto
    note upd = chains_ok_update [OF ok slot(1) chain]
    let ?t1 = "t\<lparr>ht_list := (ht_list t)[b := ?chain[i := h]]\<rparr>"
    have mem: "?chain ! i \<in> ht_entries t" using nth_mem [OF i] nth_mem [OF slot(1)] by (auto simp: ht_entries_def)
    have ent: "ht_entries ?t1 = insert h (ht_entries t - {?chain ! i})"
      using upd(2) set_eq i nth_mem [OF slot(1)] by (auto simp: ht_entries_def)
    moreover have "h \<notin> ht_entries t - {?chain ! i}" using fresh [of h] r by auto
    moreover have "Suc (card (ht_entries t - {?chain ! i})) = card (ht_entries t)"
      using mem by (intro card_Suc_Diff1) (simp_all add: ht_entries_def)
    ultimately have "card (ht_entries ?t1) = card (ht_entries t)" by (simp add: ht_entries_def)
    with upd(1) elems have "ht_inv ?t1" by (simp add: ht_inv_def)
    with ent r res show ?thesis by (simp add: HandleTable_Insert_def bi Let_def)
  qed
qed

section \<open>The table satisfies the contract\<close>

interpretation ht: handle_table ht_inv ht_entries HandleTable_Lookup HandleTable_Insert HandleTable_Remove
proof (unfold_locales, goal_cases)
  case (1 t)
  show ?case by (simp add: ht_entries_def)
next
  case (2 t)
  then show ?case unfolding ht_inv_def ht_entries_def by (intro chains_ok_inj [of "ht_length t"]) simp
next
  case (3 t key hash h)
  then show ?case by (simp add: ht_inv_def HandleTable_Lookup_iff)
next
  case (4 t h)
  then show ?case by (rule HandleTable_Insert_law)
next
  case (5 t key hash)
  then show ?case by (rule HandleTable_Remove_law)
qed

lemma HandleTable_init_law: "\<exists>t. HandleTable_init = Some t \<and> ht_inv t \<and> ht_entries t = {}"
proof -
  have "ht_entries \<lparr>ht_length = 0, ht_elems = 0, ht_list = []\<rparr> = {}" by (simp add: ht_entries_def)
  with Resize_law [of "\<lparr>ht_length = 0, ht_elems = 0, ht_list = []\<rparr>"] show ?thesis
    by (simp add: HandleTable_init_def)
qed

end
