(* ===== verification/LDB_Cache_Spec.thy ===== *)
theory LDB_Cache_Spec
  imports LDB_Cache_Table "HOL-Library.Multiset"
begin

text \<open>
  The invariant of one cache shard and what its operations promise. The clients of a shard are described by the
  number of handles they hold to every entry; the state machine of a shard takes one operation of one client per
  step, in any order.
\<close>

section \<open>The invariant\<close>

text \<open>
  \<open>E\<close> are the entries that the cache references, \<open>held h\<close> is the number of handles to \<open>h\<close> that clients have not released,
  and \<open>created\<close> are all entries that were ever allocated.
\<close>

definition live :: "LRUHandle set \<Rightarrow> (LRUHandle \<Rightarrow> nat) \<Rightarrow> LRUHandle set" where
  "live E held = E \<union> {h. 0 < held h}"

definition entry_state :: "LRUHandle set \<Rightarrow> (LRUHandle \<Rightarrow> nat) \<Rightarrow> LRUHandle \<Rightarrow> handle_state" where
  "entry_state E held h = \<lparr>in_cache = (h \<in> E), refs = held h + (if h \<in> E then 1 else 0)\<rparr>"

definition lists_inv :: "LRUHandle set \<Rightarrow> (LRUHandle \<Rightarrow> nat) \<Rightarrow> LRUHandle list \<Rightarrow> LRUHandle list \<Rightarrow> bool" where
  "lists_inv E held lru in_use \<longleftrightarrow>
     distinct lru \<and> distinct in_use \<and> set lru = {h \<in> E. held h = 0} \<and> set in_use = {h \<in> E. 0 < held h}"

definition memory_inv :: "LRUHandle set \<Rightarrow> (LRUHandle \<Rightarrow> nat) \<Rightarrow> (nat \<rightharpoonup> handle_state) \<Rightarrow> bool" where
  "memory_inv E held mem \<longleftrightarrow>
     finite (live E held) \<and> inj_on h_addr (live E held) \<and> dom mem = h_addr ` live E held \<and>
     (\<forall>h \<in> live E held. mem (h_addr h) = Some (entry_state E held h)) \<and> (\<forall>h. held h + 1 < UINT32_MOD)"

definition charge_inv :: "LRUHandle set \<Rightarrow> nat \<Rightarrow> bool" where
  "charge_inv E usage \<longleftrightarrow> (\<forall>h \<in> E. h_charge h < SIZE_MOD) \<and> usage = sum h_charge E mod SIZE_MOD"

definition shard_inv ::
    "LRUHandle set \<Rightarrow> LRUCache \<Rightarrow> (LRUHandle \<Rightarrow> nat) \<Rightarrow> LRUHandle multiset \<Rightarrow> bool" where
  "shard_inv E c held created \<longleftrightarrow>
     lists_inv E held (lc_lru c) (lc_in_use c) \<and> memory_inv E held (lc_mem c) \<and> charge_inv E (lc_usage c) \<and>
     created = mset (lc_deleted c) + mset_set (live E held)"

definition cache_inv :: "LRUCache \<Rightarrow> (LRUHandle \<Rightarrow> nat) \<Rightarrow> LRUHandle multiset \<Rightarrow> bool" where
  "cache_inv c held created \<longleftrightarrow>
     ht_inv (lc_table c) \<and> shard_inv (ht_entries (lc_table c)) c held created"

lemma memory_lookup: "memory_inv E held mem \<Longrightarrow> h \<in> live E held \<Longrightarrow> mem (h_addr h) = Some (entry_state E held h)"
  by (simp add: memory_inv_def)

lemma memory_finite: "memory_inv E held mem \<Longrightarrow> finite E"
  by (simp add: memory_inv_def live_def)

text \<open>The memory after one entry has changed its state, appeared or gone.\<close>

definition only_at :: "LRUHandle \<Rightarrow> LRUHandle set \<Rightarrow> (LRUHandle \<Rightarrow> nat) \<Rightarrow> LRUHandle set \<Rightarrow> (LRUHandle \<Rightarrow> nat) \<Rightarrow> bool" where
  "only_at h E held E' held' \<longleftrightarrow> (\<forall>g. g \<noteq> h \<longrightarrow> (g \<in> E' \<longleftrightarrow> g \<in> E) \<and> held' g = held g)"

lemma only_at_live: "only_at h E held E' held' \<Longrightarrow> g \<noteq> h \<Longrightarrow> g \<in> live E' held' \<longleftrightarrow> g \<in> live E held"
  by (auto simp: only_at_def live_def)

lemma only_at_state: "only_at h E held E' held' \<Longrightarrow> g \<noteq> h \<Longrightarrow> entry_state E' held' g = entry_state E held g"
  by (auto simp: only_at_def entry_state_def)

lemma only_at_bound:
  "only_at h E held E' held' \<Longrightarrow> \<forall>g. held g + 1 < UINT32_MOD \<Longrightarrow> held' h + 1 < UINT32_MOD \<Longrightarrow> \<forall>g. held' g + 1 < UINT32_MOD"
  unfolding only_at_def by metis

lemma memory_inv_update:
  assumes inv: "memory_inv E held mem" and h: "h \<in> live E held" "h \<in> live E' held'"
    and at: "only_at h E held E' held'" and bound: "held' h + 1 < UINT32_MOD"
  shows "memory_inv E' held' (mem(h_addr h \<mapsto> entry_state E' held' h))" "live E' held' = live E held"
proof -
  show liv: "live E' held' = live E held" by (rule set_eqI) (metis h only_at_live [OF at])
  have "(mem(h_addr h \<mapsto> entry_state E' held' h)) (h_addr g) = Some (entry_state E' held' g)" if "g \<in> live E held" for g
    using inv h(1) that only_at_state [OF at, of g] by (cases "g = h") (auto simp: memory_inv_def dest: inj_onD)
  with inv h(1) only_at_bound [OF at _ bound] show "memory_inv E' held' (mem(h_addr h \<mapsto> entry_state E' held' h))"
    unfolding memory_inv_def liv by auto
qed

lemma memory_inv_add:
  assumes inv: "memory_inv E held mem" and h: "mem (h_addr h) = None" "h \<in> live E' held'"
    and at: "only_at h E held E' held'" and bound: "held' h + 1 < UINT32_MOD"
  shows "memory_inv E' held' (mem(h_addr h \<mapsto> entry_state E' held' h))" "live E' held' = insert h (live E held)"
    "h \<notin> live E held"
proof -
  show liv: "live E' held' = insert h (live E held)"
    by (rule set_eqI) (metis h(2) insert_iff only_at_live [OF at])
  have addr: "h_addr h \<notin> h_addr ` live E held" using inv h(1) by (metis domIff memory_inv_def)
  then show "h \<notin> live E held" by blast
  have "(mem(h_addr h \<mapsto> entry_state E' held' h)) (h_addr g) = Some (entry_state E' held' g)" if "g \<in> live E' held'" for g
  proof (cases "g = h")
    case False
    with that have g: "g \<in> live E held" by (simp add: liv)
    then have "h_addr g \<noteq> h_addr h" using addr by (metis imageI)
    with inv g False only_at_state [OF at, of g] show ?thesis by (simp add: memory_inv_def)
  qed simp
  with inv addr only_at_bound [OF at _ bound] show "memory_inv E' held' (mem(h_addr h \<mapsto> entry_state E' held' h))"
    unfolding memory_inv_def liv by auto
qed

lemma memory_inv_remove:
  assumes inv: "memory_inv E held mem" and h: "h \<in> live E held" "h \<notin> live E' held'" and at: "only_at h E held E' held'"
  shows "memory_inv E' held' (mem(h_addr h := None))" "live E' held' = live E held - {h}"
proof -
  show liv: "live E' held' = live E held - {h}"
    by (rule set_eqI) (metis h(2) Diff_iff singletonD singletonI only_at_live [OF at])
  have "held' h + 1 < UINT32_MOD" using h(2) by (simp add: live_def)
  with inv only_at_bound [OF at] have bound: "\<forall>g. held' g + 1 < UINT32_MOD" by (simp add: memory_inv_def)
  have "(mem(h_addr h := None)) (h_addr g) = Some (entry_state E' held' g)" if "g \<in> live E held" "g \<noteq> h" for g
    using inv h(1) that only_at_state [OF at, of g] by (auto simp: memory_inv_def dest: inj_onD)
  moreover have "h_addr ` (live E held - {h}) = h_addr ` live E held - {h_addr h}"
    using inv h(1) by (auto simp: memory_inv_def dest: inj_onD)
  ultimately show "memory_inv E' held' (mem(h_addr h := None))"
    using inv bound unfolding memory_inv_def liv by (auto intro: inj_on_diff)
qed

section \<open>References\<close>

lemma lists_inv_remove1:
  assumes "lists_inv E held lru in_use"
  shows "lists_inv (E - {e}) held (remove1 e lru) (remove1 e in_use)"
  using assms by (auto simp: lists_inv_def)

lemma lists_inv_member: "lists_inv E held lru in_use \<Longrightarrow> set lru \<union> set in_use = E"
  by (auto simp: lists_inv_def)

lemma charge_inv_remove:
  assumes "charge_inv E usage" "finite E" "e \<in> E"
  shows "charge_inv (E - {e}) ((usage + (SIZE_MOD - h_charge e)) mod SIZE_MOD)"
proof -
  have "sum h_charge E = h_charge e + sum h_charge (E - {e})" using assms(2,3) by (rule sum.remove)
  moreover have "h_charge e < SIZE_MOD" using assms(1,3) by (simp add: charge_inv_def)
  ultimately have "h_charge e + sum h_charge (E - {e}) + (SIZE_MOD - h_charge e) = sum h_charge (E - {e}) + SIZE_MOD"
    "usage = (h_charge e + sum h_charge (E - {e})) mod SIZE_MOD"
    using assms(1) by (simp_all add: charge_inv_def)
  then have "(usage + (SIZE_MOD - h_charge e)) mod SIZE_MOD = sum h_charge (E - {e}) mod SIZE_MOD"
    by (simp only: mod_add_left_eq mod_add_self2)
  with assms(1) show ?thesis by (simp add: charge_inv_def)
qed

lemma LRU_Remove_inv:
  assumes "lists_inv E held (lc_lru c) (lc_in_use c)" "e \<in> E"
  shows "LRU_Remove e c = Some (c\<lparr>lc_lru := remove1 e (lc_lru c), lc_in_use := remove1 e (lc_in_use c)\<rparr>)"
  using lists_inv_member [OF assms(1)] assms(2) by (simp add: LRU_Remove_def)

lemma LRU_Ref_inv:
  assumes inv: "shard_inv E c held created" and e: "e \<in> E" "held e + 2 < UINT32_MOD"
  shows "\<exists>c'. LRU_Ref e c = Some c' \<and> shard_inv E c' (held(e := held e + 1)) created \<and>
    lc_table c' = lc_table c \<and> lc_capacity c' = lc_capacity c \<and> lc_deleted c' = lc_deleted c"
proof -
  let ?held = "held(e := held e + 1)"
  have lists: "lists_inv E held (lc_lru c) (lc_in_use c)" and mem: "memory_inv E held (lc_mem c)"
    using inv by (simp_all add: shard_inv_def)
  have at: "only_at e E held E ?held" by (simp add: only_at_def)
  have in_live: "e \<in> live E held" "e \<in> live E ?held" using e(1) by (simp_all add: live_def)
  note upd = memory_inv_update [OF mem in_live at]
  have look: "lc_mem c (h_addr e) = Some (entry_state E held e)" by (rule memory_lookup [OF mem in_live(1)])
  have state: "(entry_state E held e)\<lparr>refs := (refs (entry_state E held e) + 1) mod UINT32_MOD\<rparr> = entry_state E ?held e"
    using e by (simp add: entry_state_def)
  show ?thesis
  proof (cases "held e = 0")
    case True
    have "lists_inv E ?held (remove1 e (lc_lru c)) (remove1 e (lc_in_use c) @ [e])"
      using lists e(1) True by (auto simp: lists_inv_def)
    with True e inv look state upd show ?thesis
      by (simp add: LRU_Ref_def LRU_Remove_inv [OF lists e(1)] set_state_def shard_inv_def)
        (simp add: entry_state_def)
  next
    case False
    then have "lists_inv E ?held (lc_lru c) (lc_in_use c)"
      using lists e(1) by (auto simp: lists_inv_def)
    with False e inv look state upd show ?thesis
      by (simp add: LRU_Ref_def set_state_def shard_inv_def) (simp add: entry_state_def)
  qed
qed

lemma mset_set_remove: "finite A \<Longrightarrow> a \<in> A \<Longrightarrow> mset_set A = mset_set (A - {a}) + {#a#}"
  by (simp add: mset_set.remove)

lemma dec_mod:
  assumes "0 < n" "n < UINT32_MOD"
  shows "(n + (UINT32_MOD - 1)) mod UINT32_MOD = n - 1"
proof -
  have "n + (UINT32_MOD - 1) = n - 1 + UINT32_MOD" using assms(1) by simp
  then show ?thesis using assms by (simp only: mod_add_self2) simp
qed

lemma LRU_Unref_eq:
  assumes "lc_mem c (h_addr e) = Some s" "s\<lparr>refs := (refs s + (UINT32_MOD - 1)) mod UINT32_MOD\<rparr> = s'"
  shows "LRU_Unref e c =
    (if refs s' = 0 then Some (c\<lparr>lc_deleted := lc_deleted c @ [e], lc_mem := (lc_mem c)(h_addr e := None)\<rparr>)
     else if in_cache s' \<and> refs s' = 1
     then do { c2 \<leftarrow> LRU_Remove e (set_state e s' c); Some (c2\<lparr>lc_lru := lc_lru c2 @ [e]\<rparr>) }
     else Some (set_state e s' c))"
  unfolding LRU_Unref_def Let_def assms by (simp add: assms(1) set_state_def) (auto simp: assms(2) [symmetric])

lemma LRU_Unref_client:
  assumes inv: "shard_inv E c held created" and e: "0 < held e"
  shows "\<exists>c'. LRU_Unref e c = Some c' \<and> shard_inv E c' (held(e := held e - 1)) created \<and>
    lc_table c' = lc_table c \<and> lc_capacity c' = lc_capacity c"
proof -
  let ?held = "held(e := held e - 1)"
  have lists: "lists_inv E held (lc_lru c) (lc_in_use c)" and mem: "memory_inv E held (lc_mem c)"
    and created: "created = mset (lc_deleted c) + mset_set (live E held)"
    using inv by (simp_all add: shard_inv_def)
  have at: "only_at e E held E ?held" by (simp add: only_at_def)
  have in_live: "e \<in> live E held" using e by (simp add: live_def)
  have bound: "held e + 1 < UINT32_MOD" using mem by (simp add: memory_inv_def)
  have look: "lc_mem c (h_addr e) = Some (entry_state E held e)" by (rule memory_lookup [OF mem in_live])
  have state: "(entry_state E held e)\<lparr>refs := (refs (entry_state E held e) + (UINT32_MOD - 1)) mod UINT32_MOD\<rparr> =
      entry_state E ?held e"
    using e bound dec_mod [of "held e"] dec_mod [of "held e + 1"] by (cases "e \<in> E") (simp_all add: entry_state_def)
  show ?thesis
  proof (cases "e \<in> live E ?held")
    case True
    note upd = memory_inv_update [OF mem in_live True at]
    have some: "refs (entry_state E ?held e) \<noteq> 0" using True by (auto simp: entry_state_def live_def)
    show ?thesis
    proof (cases "e \<in> E \<and> held e = 1")
      case True
      then have "lists_inv E ?held (remove1 e (lc_lru c) @ [e]) (remove1 e (lc_in_use c))"
        using lists by (auto simp: lists_inv_def)
      moreover have "in_cache (entry_state E ?held e) \<and> refs (entry_state E ?held e) = 1"
        using True by (simp add: entry_state_def)
      ultimately show ?thesis
        using True inv upd bound some LRU_Remove_inv [of E held "set_state e (entry_state E ?held e) c" e] lists
        by (simp add: LRU_Unref_eq [OF look state] set_state_def shard_inv_def)
    next
      case False
      then have "lists_inv E ?held (lc_lru c) (lc_in_use c)"
        using lists e by (auto simp: lists_inv_def)
      moreover have "\<not> (in_cache (entry_state E ?held e) \<and> refs (entry_state E ?held e) = 1)"
        using False e by (auto simp: entry_state_def)
      ultimately show ?thesis
        using inv upd bound some by (auto simp: LRU_Unref_eq [OF look state] set_state_def shard_inv_def)
    qed
  next
    case False
    then have "e \<notin> E" "held e = 1" "refs (entry_state E ?held e) = 0"
      using e by (auto simp: live_def entry_state_def)
    moreover from this have "lists_inv E ?held (lc_lru c) (lc_in_use c)"
      using lists by (auto simp: lists_inv_def)
    moreover have "created = mset (lc_deleted c @ [e]) + mset_set (live E held - {e})"
      using created mset_set_remove [of "live E held" e] mem in_live by (simp add: memory_inv_def)
    ultimately show ?thesis
      using inv memory_inv_remove [OF mem in_live False at]
      by (simp add: LRU_Unref_eq [OF look state] shard_inv_def)
  qed
qed

lemma FinishErase_inv:
  assumes inv: "shard_inv E c held created" and e: "e \<in> E"
  shows "\<exists>c'. FinishErase (Some e) c = Some c' \<and> shard_inv (E - {e}) c' held created \<and>
    lc_lru c' = remove1 e (lc_lru c) \<and> lc_table c' = lc_table c \<and> lc_capacity c' = lc_capacity c"
proof -
  have lists: "lists_inv E held (lc_lru c) (lc_in_use c)" and mem: "memory_inv E held (lc_mem c)"
    and charge: "charge_inv E (lc_usage c)" and created: "created = mset (lc_deleted c) + mset_set (live E held)"
    using inv by (simp_all add: shard_inv_def)
  have at: "only_at e E held (E - {e}) held" by (simp add: only_at_def)
  have in_live: "e \<in> live E held" using e by (simp add: live_def)
  have bound: "held e + 1 < UINT32_MOD" using mem by (simp add: memory_inv_def)
  have look: "lc_mem c (h_addr e) = Some (entry_state E held e)" by (rule memory_lookup [OF mem in_live])
  have state: "\<lparr>in_cache = False, refs = (held e + 1 + (UINT32_MOD - 1)) mod UINT32_MOD\<rparr> = entry_state (E - {e}) held e"
    using bound by (simp add: entry_state_def)
  note lists' = lists_inv_remove1 [OF lists, of e]
    and charge' = charge_inv_remove [OF charge memory_finite [OF mem] e]
  show ?thesis
  proof (cases "held e = 0")
    case True
    then have gone: "e \<notin> live (E - {e}) held" by (simp add: live_def)
    have "created = mset (lc_deleted c @ [e]) + mset_set (live E held - {e})"
      using created mset_set_remove [of "live E held" e] mem in_live by (simp add: memory_inv_def)
    with True show ?thesis
      using lists' charge' memory_inv_remove [OF mem in_live gone at] look e
      by (simp add: FinishErase_def LRU_Remove_inv [OF lists e] LRU_Unref_def set_state_def shard_inv_def entry_state_def)
  next
    case False
    then have "e \<in> live (E - {e}) held" by (simp add: live_def)
    note upd = memory_inv_update [OF mem in_live this at bound]
    from False show ?thesis
      using lists' charge' upd look e state created bound
      by (simp add: FinishErase_def LRU_Remove_inv [OF lists e] LRU_Unref_def set_state_def shard_inv_def entry_state_def)
  qed
qed

section \<open>The operations keep the invariant\<close>

lemma table_erase_inv:
  assumes inv: "cache_inv c held created"
  shows "\<exists>c'. table_erase key hash c = Some c' \<and> cache_inv c' held created \<and> lc_capacity c' = lc_capacity c \<and>
    ht_entries (lc_table c') = ht_entries (lc_table c) - set_option (HandleTable_Lookup (lc_table c) key hash) \<and>
    lc_lru c' = (case HandleTable_Lookup (lc_table c) key hash of None \<Rightarrow> lc_lru c | Some e \<Rightarrow> remove1 e (lc_lru c))"
proof -
  let ?r = "HandleTable_Lookup (lc_table c) key hash"
  have ht: "ht_inv (lc_table c)" and sh: "shard_inv (ht_entries (lc_table c)) c held created"
    using inv by (simp_all add: cache_inv_def)
  obtain t where t: "HandleTable_Remove (lc_table c) key hash = (?r, t)" "ht_inv t"
    "ht_entries t = ht_entries (lc_table c) - set_option ?r"
    using ht.remove_law [OF ht] by blast
  show ?thesis
  proof (cases ?r)
    case None
    with t sh show ?thesis by (simp add: table_erase_def FinishErase_def cache_inv_def shard_inv_def)
  next
    case (Some e)
    then have "e \<in> ht_entries (lc_table c)" using ht.lookup_iff [OF ht] by blast
    moreover have "shard_inv (ht_entries (lc_table c)) (c\<lparr>lc_table := t\<rparr>) held created"
      using sh by (simp add: shard_inv_def)
    ultimately obtain c' where "FinishErase (Some e) (c\<lparr>lc_table := t\<rparr>) = Some c'"
      "shard_inv (ht_entries (lc_table c) - {e}) c' held created" "lc_lru c' = remove1 e (lc_lru c)"
      "lc_table c' = t" "lc_capacity c' = lc_capacity c"
      using FinishErase_inv by fastforce
    with t Some show ?thesis by (simp add: table_erase_def cache_inv_def)
  qed
qed

text \<open>One round of the eviction loops takes the oldest entry.\<close>

lemma evict_oldest:
  assumes inv: "cache_inv c held created" and lru: "lc_lru c = e # es"
  shows "\<exists>c'. table_erase (h_key e) (h_hash e) c = Some c' \<and> cache_inv c' held created \<and>
    lc_capacity c' = lc_capacity c \<and> lc_lru c' = es \<and> ht_entries (lc_table c') = ht_entries (lc_table c) - {e}"
proof -
  have "e \<in> ht_entries (lc_table c)" "ht_inv (lc_table c)"
    using inv lru by (auto simp: cache_inv_def shard_inv_def lists_inv_def)
  then have "HandleTable_Lookup (lc_table c) (h_key e) (h_hash e) = Some e" by (simp add: ht.lookup_member)
  with table_erase_inv [OF inv, of "h_key e" "h_hash e"] lru show ?thesis by auto
qed

lemma lru_loop_inv:
  assumes "cache_inv c held created"
  shows "\<exists>c' n. lru_loop cont c = Some c' \<and> cache_inv c' held created \<and> lc_capacity c' = lc_capacity c \<and>
    lc_lru c' = drop n (lc_lru c) \<and> ht_entries (lc_table c') = ht_entries (lc_table c) - set (take n (lc_lru c)) \<and>
    \<not> (cont c' \<and> lc_lru c' \<noteq> [])"
  using assms
proof (induction "lc_lru c" arbitrary: c)
  case Nil
  then show ?case by (subst lru_loop.simps) (auto intro: exI [of _ 0])
next
  case (Cons e es)
  show ?case
  proof (cases "cont c")
    case True
    obtain c1 where c1: "table_erase (h_key e) (h_hash e) c = Some c1" "cache_inv c1 held created"
      "lc_capacity c1 = lc_capacity c" "lc_lru c1 = es" "ht_entries (lc_table c1) = ht_entries (lc_table c) - {e}"
      using evict_oldest [OF Cons(3), of e es] Cons(2) by auto
    from Cons(1) [OF c1(4) [symmetric] c1(2)] obtain c' n where c': "lru_loop cont c1 = Some c'"
      "cache_inv c' held created" "lc_capacity c' = lc_capacity c1" "lc_lru c' = drop n (lc_lru c1)"
      "ht_entries (lc_table c') = ht_entries (lc_table c1) - set (take n (lc_lru c1))"
      "\<not> (cont c' \<and> lc_lru c' \<noteq> [])"
      by blast
    have lru: "lc_lru c = e # es" using Cons(2) by simp
    have "lru_loop cont c = Some c'"
      using True c1(1) c'(1) by (subst lru_loop.simps) (simp add: lru)
    with c' c1 lru show ?thesis by (intro exI [of _ c'] exI [of _ "Suc n"]) auto
  next
    case False
    then show ?thesis using Cons(3) by (subst lru_loop.simps) (auto intro: exI [of _ 0])
  qed
qed

lemma new_entry_inv:
  assumes inv: "shard_inv E c held created" and fresh: "lc_mem c (h_addr e) = None"
    and charge: "h_charge e < SIZE_MOD"
  shows "shard_inv (insert e E) ((set_state e \<lparr>in_cache = True, refs = 2\<rparr> c)
      \<lparr>lc_in_use := lc_in_use c @ [e], lc_usage := (lc_usage c + h_charge e) mod SIZE_MOD\<rparr>)
      (held(e := 1)) (created + {#e#})" (is ?cached)
    and "shard_inv E (set_state e \<lparr>in_cache = False, refs = 1\<rparr> c) (held(e := 1)) (created + {#e#})" (is ?uncached)
    and "e \<notin> E" "held e = 0"
proof -
  have mem: "memory_inv E held (lc_mem c)" and lists: "lists_inv E held (lc_lru c) (lc_in_use c)"
    and created: "created = mset (lc_deleted c) + mset_set (live E held)" and ch: "charge_inv E (lc_usage c)"
    using inv by (simp_all add: shard_inv_def)
  have new: "e \<notin> live E held" using mem fresh by (auto simp: memory_inv_def)
  then show e: "e \<notin> E" "held e = 0" by (simp_all add: live_def)
  have at: "only_at e E held (insert e E) (held(e := 1))" "only_at e E held E (held(e := 1))"
    by (auto simp: only_at_def)
  have in_live: "e \<in> live (insert e E) (held(e := 1))" "e \<in> live E (held(e := 1))" by (simp_all add: live_def)
  have states: "entry_state (insert e E) (held(e := 1)) e = \<lparr>in_cache = True, refs = 2\<rparr>"
    "entry_state E (held(e := 1)) e = \<lparr>in_cache = False, refs = 1\<rparr>"
    using e by (simp_all add: entry_state_def)
  have fin: "finite (live E held)" "finite E" using mem by (simp_all add: memory_inv_def live_def)
  have ms: "created + {#e#} = mset (lc_deleted c) + mset_set (insert e (live E held))"
    using created fin new by simp
  have "charge_inv (insert e E) ((lc_usage c + h_charge e) mod SIZE_MOD)"
    using ch charge fin e by (simp add: charge_inv_def mod_add_left_eq mod_add_right_eq add.commute)
  moreover have "lists_inv (insert e E) (held(e := 1)) (lc_lru c) (lc_in_use c @ [e])"
    "lists_inv E (held(e := 1)) (lc_lru c) (lc_in_use c)"
    using lists e by (auto simp: lists_inv_def)
  ultimately show ?cached ?uncached
    using memory_inv_add [OF mem fresh in_live(1) at(1)] memory_inv_add [OF mem fresh in_live(2) at(2)] ms ch states
    by (simp_all add: shard_inv_def set_state_def)
qed

lemma LRUCache_Insert_inv:
  assumes inv: "cache_inv c held created" and room: "card (ht_entries (lc_table c)) < 2 ^ 31"
    and fresh: "lc_mem c a = None" and charge: "charge < SIZE_MOD"
    and old_def: "old = HandleTable_Lookup (lc_table c) key hash"
  shows "\<exists>e c' n. LRUCache_Insert a key hash value charge deleter c = Some (e, c') \<and>
    e = \<lparr>h_addr = a, h_value = value, h_deleter = deleter, h_charge = charge, h_hash = hash, h_key = key\<rparr> \<and>
    held e = 0 \<and> cache_inv c' (held(e := 1)) (created + {#e#}) \<and> lc_capacity c' = lc_capacity c \<and>
    \<not> (over_capacity c' \<and> lc_lru c' \<noteq> []) \<and>
    (0 < lc_capacity c \<longrightarrow>
       lc_lru c' = drop n (case old of None \<Rightarrow> lc_lru c | Some g \<Rightarrow> remove1 g (lc_lru c)) \<and>
       ht_entries (lc_table c') = insert e (ht_entries (lc_table c) - set_option old -
         set (take n (case old of None \<Rightarrow> lc_lru c | Some g \<Rightarrow> remove1 g (lc_lru c)))))"
proof -
  define e where "e = \<lparr>h_addr = a, h_value = value, h_deleter = deleter, h_charge = charge, h_hash = hash, h_key = key\<rparr>"
  let ?E = "ht_entries (lc_table c)" and ?lru = "case old of None \<Rightarrow> lc_lru c | Some g \<Rightarrow> remove1 g (lc_lru c)"
  have ht: "ht_inv (lc_table c)" and sh: "shard_inv ?E c held created" using inv by (simp_all add: cache_inv_def)
  have "lc_mem c (h_addr e) = None" "h_charge e < SIZE_MOD" using fresh charge by (simp_all add: e_def)
  note new = new_entry_inv [OF sh this]
  have old: "set_option old \<subseteq> ?E" using ht.lookup_iff [OF ht] by (auto simp: old_def)
  show ?thesis
  proof (cases "0 < lc_capacity c")
    case True
    define c2 where "c2 = (set_state e \<lparr>in_cache = True, refs = 2\<rparr> c)
      \<lparr>lc_in_use := lc_in_use c @ [e], lc_usage := (lc_usage c + h_charge e) mod SIZE_MOD\<rparr>"
    obtain t where t: "HandleTable_Insert (lc_table c) e = Some (old, t)" "ht_inv t"
      "ht_entries t = insert e (?E - set_option old)"
      using ht.insert_law [OF ht room, of e] by (auto simp: old_def e_def)
    have c2: "shard_inv (insert e ?E) (c2\<lparr>lc_table := t\<rparr>) (held(e := 1)) (created + {#e#})"
      using new(1) by (simp add: c2_def shard_inv_def)
    have "\<exists>c1. FinishErase old (c2\<lparr>lc_table := t\<rparr>) = Some c1 \<and>
      shard_inv (insert e (?E - set_option old)) c1 (held(e := 1)) (created + {#e#}) \<and> lc_lru c1 = ?lru \<and>
      lc_table c1 = t \<and> lc_capacity c1 = lc_capacity c"
    proof (cases old)
      case None
      with c2 show ?thesis by (simp add: FinishErase_def c2_def set_state_def)
    next
      case (Some g)
      then have "g \<in> insert e ?E" "insert e ?E - {g} = insert e (?E - {g})" using old new(3) by auto
      with FinishErase_inv [OF c2, of g] Some show ?thesis by (auto simp: c2_def set_state_def)
    qed
    then obtain c1 where c1: "FinishErase old (c2\<lparr>lc_table := t\<rparr>) = Some c1"
      "shard_inv (insert e (?E - set_option old)) c1 (held(e := 1)) (created + {#e#})" "lc_lru c1 = ?lru"
      "lc_table c1 = t" "lc_capacity c1 = lc_capacity c" by blast
    then have "cache_inv c1 (held(e := 1)) (created + {#e#})" using t by (simp add: cache_inv_def)
    from lru_loop_inv [OF this, of over_capacity] obtain c' n where c': "lru_loop over_capacity c1 = Some c'"
      "cache_inv c' (held(e := 1)) (created + {#e#})" "lc_capacity c' = lc_capacity c1" "lc_lru c' = drop n (lc_lru c1)"
      "ht_entries (lc_table c') = ht_entries (lc_table c1) - set (take n (lc_lru c1))"
      "\<not> (over_capacity c' \<and> lc_lru c' \<noteq> [])"
      by blast
    have "LRUCache_Insert a key hash value charge deleter c = Some (e, c')"
      using True t(1) c1(1) c'(1) by (simp add: LRUCache_Insert_def Let_def e_def [symmetric] c2_def set_state_def)
        (simp add: e_def)
    moreover have "e \<notin> set (take n ?lru)"
      using c1(2,3) by (auto simp: shard_inv_def lists_inv_def dest: in_set_takeD)
    ultimately show ?thesis
      using c' c1 t new by (intro exI [of _ e] exI [of _ c'] exI [of _ n]) (auto simp: e_def)
  next
    case False
    then have "cache_inv (set_state e \<lparr>in_cache = False, refs = 1\<rparr> c) (held(e := 1)) (created + {#e#})"
      using new(2) ht by (simp add: cache_inv_def set_state_def)
    from lru_loop_inv [OF this, of over_capacity] obtain c' n where
      "lru_loop over_capacity (set_state e \<lparr>in_cache = False, refs = 1\<rparr> c) = Some c'"
      "cache_inv c' (held(e := 1)) (created + {#e#})" "lc_capacity c' = lc_capacity c"
      "\<not> (over_capacity c' \<and> lc_lru c' \<noteq> [])"
      by (auto simp: set_state_def)
    with False new show ?thesis
      by (intro exI [of _ e] exI [of _ c']) (simp add: LRUCache_Insert_def Let_def e_def)
  qed
qed

section \<open>The state machine of a shard\<close>

type_synonym shard_state = "LRUCache \<times> (LRUHandle \<Rightarrow> nat) \<times> LRUHandle multiset"

text \<open>
  One operation of one client. \<open>malloc\<close> returns an address that is not in use, a client releases only handles it holds,
  and fewer than \<open>2 ^ 31\<close> entries and \<open>2 ^ 32 - 2\<close> handles to one entry exist.
\<close>

inductive cache_step :: "shard_state \<Rightarrow> shard_state \<Rightarrow> bool" where
  insert: "LRUCache_Insert a key hash value charge deleter c = Some (e, c') \<Longrightarrow> lc_mem c a = None \<Longrightarrow>
    charge < SIZE_MOD \<Longrightarrow> card (ht_entries (lc_table c)) < 2 ^ 31 \<Longrightarrow>
    cache_step (c, held, created) (c', held(e := held e + 1), created + {#e#})"
| lookup_hit: "LRUCache_Lookup key hash c = Some (Some e, c') \<Longrightarrow> held e + 2 < UINT32_MOD \<Longrightarrow>
    cache_step (c, held, created) (c', held(e := held e + 1), created)"
| lookup_miss: "LRUCache_Lookup key hash c = Some (None, c') \<Longrightarrow> cache_step (c, held, created) (c', held, created)"
| release: "0 < held e \<Longrightarrow> LRUCache_Release e c = Some c' \<Longrightarrow>
    cache_step (c, held, created) (c', held(e := held e - 1), created)"
| erase: "LRUCache_Erase key hash c = Some c' \<Longrightarrow> cache_step (c, held, created) (c', held, created)"
| prune: "LRUCache_Prune c = Some c' \<Longrightarrow> cache_step (c, held, created) (c', held, created)"

inductive cache_reach :: "nat \<Rightarrow> shard_state \<Rightarrow> bool" for capacity where
  init: "LRUCache_init capacity = Some c \<Longrightarrow> cache_reach capacity (c, \<lambda>_. 0, {#})"
| step: "cache_reach capacity s \<Longrightarrow> cache_step s s' \<Longrightarrow> cache_reach capacity s'"

lemma LRUCache_Lookup_inv:
  assumes inv: "cache_inv c held created" and "\<forall>e. held e + 2 < UINT32_MOD"
  shows "\<exists>c'. LRUCache_Lookup key hash c = Some (HandleTable_Lookup (lc_table c) key hash, c') \<and>
    cache_inv c' (case HandleTable_Lookup (lc_table c) key hash of None \<Rightarrow> held | Some e \<Rightarrow> held(e := held e + 1)) created \<and>
    lc_capacity c' = lc_capacity c \<and> lc_table c' = lc_table c"
proof (cases "HandleTable_Lookup (lc_table c) key hash")
  case None
  with inv show ?thesis by (simp add: LRUCache_Lookup_def)
next
  case (Some e)
  then have "e \<in> ht_entries (lc_table c)" using inv ht.lookup_iff by (auto simp: cache_inv_def)
  with LRU_Ref_inv [of "ht_entries (lc_table c)" c held created e] inv assms(2) Some show ?thesis
    by (auto simp: LRUCache_Lookup_def cache_inv_def)
qed

lemma LRUCache_Release_inv:
  assumes "cache_inv c held created" "0 < held e"
  shows "\<exists>c'. LRUCache_Release e c = Some c' \<and> cache_inv c' (held(e := held e - 1)) created \<and> lc_capacity c' = lc_capacity c"
  using LRU_Unref_client [of "ht_entries (lc_table c)" c held created e] assms
  by (auto simp: LRUCache_Release_def cache_inv_def)

lemma LRUCache_init_inv:
  "\<exists>c. LRUCache_init capacity = Some c \<and> cache_inv c (\<lambda>_. 0) {#} \<and> lc_capacity c = capacity \<and>
     lc_mem c = Map.empty \<and> ht_entries (lc_table c) = {}"
proof -
  obtain t where t: "HandleTable_init = Some t" "ht_inv t" "ht_entries t = {}" using HandleTable_init_law by blast
  define c where "c = \<lparr>lc_capacity = capacity, lc_usage = 0, lc_lru = [], lc_in_use = [], lc_table = t,
             lc_mem = Map.empty, lc_deleted = []\<rparr>"
  have "LRUCache_init capacity = Some c" by (simp add: LRUCache_init_def t(1) c_def)
  moreover have "cache_inv c (\<lambda>_. 0) {#}" "lc_capacity c = capacity" "lc_mem c = Map.empty" "ht_entries (lc_table c) = {}"
    using t(2,3)
    by (simp_all add: c_def cache_inv_def shard_inv_def lists_inv_def memory_inv_def charge_inv_def live_def)
  ultimately show ?thesis by blast
qed

lemma cache_step_inv:
  assumes "cache_step (c, held, created) (c', held', created')" "cache_inv c held created"
  shows "cache_inv c' held' created' \<and> lc_capacity c' = lc_capacity c"
  using assms(1)
proof (cases rule: cache_step.cases)
  case (insert a key hash v charge deleter e)
  with LRUCache_Insert_inv [OF assms(2) _ _ _ refl, of a charge key hash v deleter] show ?thesis by auto
next
  case (lookup_hit key hash e)
  then have "HandleTable_Lookup (lc_table c) key hash = Some e"
    by (auto simp: LRUCache_Lookup_def split: option.splits bind_splits)
  moreover from this have "e \<in> ht_entries (lc_table c)" using assms(2) ht.lookup_iff by (auto simp: cache_inv_def)
  ultimately show ?thesis
    using LRU_Ref_inv [of "ht_entries (lc_table c)" c held created e] lookup_hit assms(2)
    by (auto simp: LRUCache_Lookup_def cache_inv_def)
next
  case (lookup_miss key hash)
  then show ?thesis using assms(2) by (auto simp: LRUCache_Lookup_def split: option.splits bind_splits)
next
  case (release e)
  with LRUCache_Release_inv [OF assms(2), of e] show ?thesis by auto
next
  case (erase key hash)
  with table_erase_inv [OF assms(2), of key hash] show ?thesis by (auto simp: LRUCache_Erase_def)
next
  case prune
  with lru_loop_inv [OF assms(2), of "\<lambda>_. True"] show ?thesis by (auto simp: LRUCache_Prune_def)
qed

lemma cache_reach_inv: "cache_reach capacity (c, held, created) \<Longrightarrow> cache_inv c held created \<and> lc_capacity c = capacity"
proof (induction "(c, held, created)" arbitrary: c held created rule: cache_reach.induct)
  case (init c)
  then show ?case using LRUCache_init_inv [of capacity] by auto
next
  case (step s)
  obtain c0 held0 created0 where "s = (c0, held0, created0)" by (cases s)
  with step cache_step_inv show ?case by metis
qed

section \<open>Destruction\<close>

lemma destroy_entries_spec:
  assumes "distinct (map h_addr es)" "\<forall>e \<in> set es. \<exists>b. lc_mem c (h_addr e) = Some \<lparr>in_cache = b, refs = 1\<rparr>"
  shows "\<exists>c'. destroy_entries es c = Some c' \<and> lc_deleted c' = lc_deleted c @ es \<and>
    lc_mem c' = (lc_mem c) |` (- h_addr ` set es)"
  using assms
proof (induction es arbitrary: c)
  case Nil
  then show ?case by simp
next
  case (Cons e es)
  then obtain b where b: "lc_mem c (h_addr e) = Some \<lparr>in_cache = b, refs = 1\<rparr>" by auto
  define c1 where "c1 = c\<lparr>lc_deleted := lc_deleted c @ [e], lc_mem := (lc_mem c)(h_addr e := None)\<rparr>"
  have "LRU_Unref e (set_state e (\<lparr>in_cache = b, refs = 1\<rparr>\<lparr>in_cache := False\<rparr>) c) = Some c1"
    by (simp add: LRU_Unref_def set_state_def c1_def)
  then have "destroy_entries (e # es) c = destroy_entries es c1" by (simp add: b)
  moreover have "\<exists>c'. destroy_entries es c1 = Some c' \<and> lc_deleted c' = lc_deleted c1 @ es \<and>
      lc_mem c' = (lc_mem c1) |` (- h_addr ` set es)"
    using Cons.prems by (intro Cons.IH) (auto simp: c1_def image_iff)
  ultimately show ?case by (auto simp: c1_def restrict_map_def fun_eq_iff)
qed

section \<open>Properties\<close>

text \<open>C8. The invariant of a cache shard holds in every state that any interleaving of client operations can reach: the
  two lists are disjoint, have no duplicates and hold exactly the entries of the hash table; an entry is on the LRU list
  exactly when no client holds it, and then has one reference, otherwise its count is one more than the handles
  clients hold; entries that were erased while in use are in neither list; the memory holds no other entry; the usage is
  the sum of the charges; and every entry ever allocated is either live or was passed to its deleter exactly once.\<close>

theorem cache_invariant:
  assumes "cache_reach capacity (c, held, created)"
  shows "ht_inv (lc_table c) \<and> distinct (lc_lru c @ lc_in_use c) \<and>
    set (lc_lru c @ lc_in_use c) = ht_entries (lc_table c) \<and>
    (\<forall>h \<in> set (lc_lru c). held h = 0 \<and> lc_mem c (h_addr h) = Some \<lparr>in_cache = True, refs = 1\<rparr>) \<and>
    (\<forall>h \<in> set (lc_in_use c). 0 < held h \<and> lc_mem c (h_addr h) = Some \<lparr>in_cache = True, refs = held h + 1\<rparr>) \<and>
    (\<forall>h. 0 < held h \<and> h \<notin> ht_entries (lc_table c) \<longrightarrow>
      lc_mem c (h_addr h) = Some \<lparr>in_cache = False, refs = held h\<rparr>) \<and>
    dom (lc_mem c) = h_addr ` live (ht_entries (lc_table c)) held \<and>
    LRUCache_TotalCharge c = sum h_charge (ht_entries (lc_table c)) mod SIZE_MOD \<and>
    created = mset (lc_deleted c) + mset_set (live (ht_entries (lc_table c)) held)"
proof -
  let ?E = "ht_entries (lc_table c)"
  from cache_reach_inv [OF assms] have ht: "ht_inv (lc_table c)" and lists: "lists_inv ?E held (lc_lru c) (lc_in_use c)"
    and mem: "memory_inv ?E held (lc_mem c)" and ch: "charge_inv ?E (lc_usage c)"
    and cr: "created = mset (lc_deleted c) + mset_set (live ?E held)"
    by (simp_all add: cache_inv_def shard_inv_def)
  have state: "lc_mem c (h_addr h) = Some (entry_state ?E held h)" if "h \<in> ?E \<or> 0 < held h" for h
    using memory_lookup [OF mem] that by (simp add: live_def)
  have "distinct (lc_lru c @ lc_in_use c)" "set (lc_lru c @ lc_in_use c) = ?E"
    "\<forall>h \<in> set (lc_lru c). held h = 0 \<and> lc_mem c (h_addr h) = Some \<lparr>in_cache = True, refs = 1\<rparr>"
    "\<forall>h \<in> set (lc_in_use c). 0 < held h \<and> lc_mem c (h_addr h) = Some \<lparr>in_cache = True, refs = held h + 1\<rparr>"
    using lists state by (auto simp: lists_inv_def entry_state_def)
  moreover have "\<forall>h. 0 < held h \<and> h \<notin> ?E \<longrightarrow> lc_mem c (h_addr h) = Some \<lparr>in_cache = False, refs = held h\<rparr>"
    using state by (simp add: entry_state_def)
  ultimately show ?thesis
    using ht mem ch cr by (simp add: memory_inv_def charge_inv_def LRUCache_TotalCharge_def)
qed

theorem cache_invariant_witness:
  "\<exists>c. cache_reach 100 (c, \<lambda>_. 0, {#}) \<and> distinct (lc_lru c @ lc_in_use c) \<and> lc_deleted c = []"
proof -
  obtain c where "LRUCache_init 100 = Some c" using LRUCache_init_inv [of 100] by blast
  then have "cache_reach 100 (c, \<lambda>_. 0, {#})" by (rule cache_reach.init)
  with cache_invariant [OF this] show ?thesis by auto
qed

text \<open>C16. No operation of a reachable shard touches freed memory, unlinks an entry that is on no list or loops
  forever: lookups, releases of held handles, erasing and pruning always return, and so does an insertion at a fresh
  address while fewer than \<open>2 ^ 31\<close> entries are cached.\<close>

theorem cache_operations_return:
  assumes "cache_reach capacity (c, held, created)"
  shows "((\<forall>e. held e + 2 < UINT32_MOD) \<longrightarrow>
      (\<exists>c'. LRUCache_Lookup key hash c = Some (HandleTable_Lookup (lc_table c) key hash, c'))) \<and>
    (0 < held e \<longrightarrow> (\<exists>c'. LRUCache_Release e c = Some c')) \<and>
    (\<exists>c'. LRUCache_Erase key hash c = Some c' \<and> HandleTable_Lookup (lc_table c') key hash = None) \<and>
    (\<exists>c'. LRUCache_Prune c = Some c' \<and> lc_lru c' = []) \<and>
    (lc_mem c a = None \<and> charge < SIZE_MOD \<and> card (ht_entries (lc_table c)) < 2 ^ 31 \<longrightarrow>
      (\<exists>h c'. LRUCache_Insert a key hash value charge deleter c = Some (h, c') \<and>
        (lc_usage c' \<le> capacity \<or> lc_lru c' = [])))"
proof -
  have inv: "cache_inv c held created" and cap: "lc_capacity c = capacity" using cache_reach_inv [OF assms] by auto
  obtain c1 where c1: "table_erase key hash c = Some c1" "cache_inv c1 held created"
    "ht_entries (lc_table c1) = ht_entries (lc_table c) - set_option (HandleTable_Lookup (lc_table c) key hash)"
    using table_erase_inv [OF inv] by blast
  have "HandleTable_Lookup (lc_table c1) key hash \<noteq> Some h" for h
    using c1(2,3) inv ht.lookup_iff [of "lc_table c1" key hash h] ht.lookup_iff [of "lc_table c" key hash h]
    by (auto simp: cache_inv_def)
  then have none: "HandleTable_Lookup (lc_table c1) key hash = None" by (metis not_None_eq)
  obtain c2 where "lru_loop (\<lambda>_. True) c = Some c2" "\<not> (True \<and> lc_lru c2 \<noteq> [])"
    using lru_loop_inv [OF inv, of "\<lambda>_. True"] by blast
  moreover have "\<exists>h c'. LRUCache_Insert a key hash value charge deleter c = Some (h, c') \<and>
        (lc_usage c' \<le> capacity \<or> lc_lru c' = [])"
    if "lc_mem c a = None" "charge < SIZE_MOD" "card (ht_entries (lc_table c)) < 2 ^ 31"
    using LRUCache_Insert_inv [OF inv that(3,1,2) refl, of key hash "value" deleter] cap
    by (fastforce simp: over_capacity_def)
  ultimately show ?thesis
    using LRUCache_Lookup_inv [OF inv, of key hash] LRUCache_Release_inv [OF inv, of e] c1(1) none
    by (auto simp: LRUCache_Erase_def LRUCache_Prune_def)
qed

theorem cache_operations_return_witness:
  "\<exists>c h c'. LRUCache_init 10 = Some c \<and> LRUCache_Insert 64 [1] 7 5 3 0 c = Some (h, c') \<and>
     (lc_usage c' \<le> 10 \<or> lc_lru c' = [])"
proof -
  obtain c where c: "LRUCache_init 10 = Some c" "lc_mem c = Map.empty" "ht_entries (lc_table c) = {}"
    using LRUCache_init_inv [of 10] by blast
  then have reach: "cache_reach 10 (c, \<lambda>_. 0, {#})" by (intro cache_reach.init)
  with cache_operations_return [OF reach, of "[1]" 7 _ 64 3 5 0] c show ?thesis by auto
qed



text \<open>C30. Nothing leaks: when a reachable shard is destroyed after its clients have released all handles, the destructor
  returns, frees all memory, and has passed every entry that was ever allocated to its deleter exactly once.\<close>

theorem cache_destroy_frees_all:
  assumes "cache_reach capacity (c, \<lambda>_. 0, created)"
  shows "\<exists>c'. LRUCache_destroy c = Some c' \<and> lc_mem c' = Map.empty \<and> mset (lc_deleted c') = created"
proof -
  let ?E = "ht_entries (lc_table c)"
  have "cache_inv c (\<lambda>_. 0) created" using cache_reach_inv [OF assms] by simp
  then have lists: "lists_inv ?E (\<lambda>_. 0) (lc_lru c) (lc_in_use c)" and mem: "memory_inv ?E (\<lambda>_. 0) (lc_mem c)"
    and cr: "created = mset (lc_deleted c) + mset_set ?E" and live: "live ?E (\<lambda>_. 0) = ?E"
    by (simp_all add: cache_inv_def shard_inv_def live_def)
  have lru: "set (lc_lru c) = ?E" "distinct (lc_lru c)" using lists by (simp_all add: lists_inv_def)
  have "distinct (map h_addr (lc_lru c))" "dom (lc_mem c) = h_addr ` set (lc_lru c)"
    "\<forall>e \<in> set (lc_lru c). \<exists>b. lc_mem c (h_addr e) = Some \<lparr>in_cache = b, refs = 1\<rparr>"
    using mem lru by (auto simp: distinct_map memory_inv_def live entry_state_def)
  moreover from this(2) have "lc_mem c |` (- h_addr ` set (lc_lru c)) = Map.empty"
    by (auto simp: restrict_map_def fun_eq_iff domIff)
  moreover have "mset (lc_lru c) = mset_set ?E" using lru by (metis mset_set_set)
  ultimately show ?thesis using destroy_entries_spec [of "lc_lru c" c] cr by (auto simp: LRUCache_destroy_def)
qed

theorem cache_destroy_frees_all_witness:
  "\<exists>c c'. LRUCache_init 10 = Some c \<and> LRUCache_destroy c = Some c' \<and> lc_mem c' = Map.empty \<and> lc_deleted c' = []"
proof -
  obtain c where c: "LRUCache_init 10 = Some c" using LRUCache_init_inv [of 10] by blast
  then have "cache_reach 10 (c, \<lambda>_. 0, {#})" by (intro cache_reach.init)
  from cache_destroy_frees_all [OF this] c show ?thesis by auto
qed

end
