(* ===== verification/LDB_Env.thy ===== *)
theory LDB_Env
  imports Prelude
begin

text \<open>
  LevelDB's \<^verbatim>\<open>Status\<close> (\<^verbatim>\<open>leveldb/status.h\<close>, \<^verbatim>\<open>util/status.cc\<close>) and the POSIX files that its log is written to and read from
  (\<^verbatim>\<open>util/env_posix.cc\<close>), with the contracts of \<^verbatim>\<open>WritableFile\<close> and \<^verbatim>\<open>SequentialFile\<close> as locales. The system calls are
  not part of the program: every call of \<^verbatim>\<open>write\<close> and \<^verbatim>\<open>read\<close> takes its outcome from the plan of the file, a list that
  may hold short transfers, interruptions and errors in any order; after the plan is used up calls succeed in full.
\<close>

section \<open>Status\<close>

datatype Code = kNotFound | kCorruption | kNotSupported | kInvalidArgument | kIOError

datatype Status = OK | Status_error Code string

definition Status_init :: "Code \<Rightarrow> string \<Rightarrow> string \<Rightarrow> Status" where
  "Status_init code msg msg2 = Status_error code (if msg2 \<noteq> [] then msg @ '': '' @ msg2 else msg)"

definition Status_ok :: "Status \<Rightarrow> bool" where
  "Status_ok s \<longleftrightarrow> s = OK"

fun Status_type :: "Code \<Rightarrow> string" where
  "Status_type kNotFound = ''NotFound: ''"
| "Status_type kCorruption = ''Corruption: ''"
| "Status_type kNotSupported = ''Not implemented: ''"
| "Status_type kInvalidArgument = ''Invalid argument: ''"
| "Status_type kIOError = ''IO error: ''"

fun Status_ToString :: "Status \<Rightarrow> string" where
  "Status_ToString OK = ''OK''"
| "Status_ToString (Status_error code msg) = Status_type code @ msg"

section \<open>System calls\<close>

definition ENOENT :: nat where "ENOENT = 2"

definition EINTR :: nat where "EINTR = 4"

definition EINVAL :: nat where "EINVAL = 22"

definition EOVERFLOW :: nat where "EOVERFLOW = 75"

datatype outcome = Transferred nat | Errno nat

text \<open>
  A file that is written has its bytes in \<open>os_data\<close>; the first \<open>os_synced\<close> of them have reached the disk, and \<open>os_history\<close> lists
  the bytes and the number of synced bytes after every call that changed them. For a file that is read, \<open>os_before\<close> are the bytes before the file position
  and \<open>os_data\<close> the ones from it on, and \<open>os_gap\<close> is the distance of a position that lies behind the end of the file.
\<close>

record os_file =
  os_data :: "byte list"
  os_plan :: "outcome list"
  os_name :: string
  os_strerror :: "nat \<Rightarrow> string"
  os_before :: "byte list"
  os_gap :: nat
  os_synced :: nat
  os_history :: "(byte list \<times> nat) list"

definition os_write :: "byte list \<Rightarrow> os_file \<Rightarrow> os_file" where
  "os_write bs f = f\<lparr>os_data := os_data f @ bs, os_history := os_history f @ [(os_data f @ bs, os_synced f)]\<rparr>"

definition os_sync :: "os_file \<Rightarrow> os_file" where
  "os_sync f =
     f\<lparr>os_synced := length (os_data f), os_history := os_history f @ [(os_data f, length (os_data f))]\<rparr>"

lemma os_write_simps [simp]:
  "os_data (os_write bs f) = os_data f @ bs" "os_plan (os_write bs f) = os_plan f" "os_name (os_write bs f) = os_name f"
  "os_strerror (os_write bs f) = os_strerror f"
  by (simp_all add: os_write_def)

lemma os_sync_simps [simp]:
  "os_data (os_sync f) = os_data f" "os_plan (os_sync f) = os_plan f" "os_synced (os_sync f) = length (os_data f)"
  by (simp_all add: os_sync_def)

definition PosixError :: "string \<Rightarrow> string \<Rightarrow> nat \<Rightarrow> Status" where
  "PosixError context strerror error_number =
     (if error_number = ENOENT then Status_init kNotFound context strerror
      else Status_init kIOError context strerror)"

definition posix_error :: "os_file \<Rightarrow> nat \<Rightarrow> Status" where
  "posix_error f n = PosixError (os_name f) (os_strerror f n) n"

section \<open>Writable files\<close>

definition kWritableFileBufferSize :: nat where "kWritableFileBufferSize = 65536"

text \<open>\<open>pf_buf\<close> are the first \<^verbatim>\<open>pos_\<close> bytes of the buffer; \<open>pf_os\<close> holds what was passed to \<^verbatim>\<open>write\<close>.\<close>

record PosixWritableFile =
  pf_buf :: "byte list"
  pf_os :: os_file

function WriteUnbuffered :: "byte list \<Rightarrow> os_file \<Rightarrow> Status \<times> os_file" where
  "WriteUnbuffered data f =
     (if data = [] then (OK, f)
      else case os_plan f of
        [] \<Rightarrow> (OK, os_write data f)
      | Transferred n # plan \<Rightarrow> WriteUnbuffered (drop n data) (os_write (take n data) (f\<lparr>os_plan := plan\<rparr>))
      | Errno n # plan \<Rightarrow>
          if n = EINTR then WriteUnbuffered data (f\<lparr>os_plan := plan\<rparr>)
          else (posix_error f n, f\<lparr>os_plan := plan\<rparr>))"
  by pat_completeness auto
termination
  by (relation "measure (\<lambda>(_, f). length (os_plan f))") auto

declare WriteUnbuffered.simps [simp del]

definition FlushBuffer :: "PosixWritableFile \<Rightarrow> Status \<times> PosixWritableFile" where
  "FlushBuffer w =
     (case WriteUnbuffered (pf_buf w) (pf_os w) of (status, os) \<Rightarrow> (status, w\<lparr>pf_os := os, pf_buf := []\<rparr>))"

definition Posix_Append :: "PosixWritableFile \<Rightarrow> byte list \<Rightarrow> Status \<times> PosixWritableFile" where
  "Posix_Append w data =
     (let copy_size = min (length data) (kWritableFileBufferSize - length (pf_buf w));
          write_data = drop copy_size data;
          w1 = w\<lparr>pf_buf := pf_buf w @ take copy_size data\<rparr> in
      if write_data = [] then (OK, w1)
      else case FlushBuffer w1 of (status, w2) \<Rightarrow>
        if \<not> Status_ok status then (status, w2)
        else if length write_data < kWritableFileBufferSize then (OK, w2\<lparr>pf_buf := write_data\<rparr>)
        else case WriteUnbuffered write_data (pf_os w2) of (status2, os) \<Rightarrow> (status2, w2\<lparr>pf_os := os\<rparr>))"

definition Posix_Flush :: "PosixWritableFile \<Rightarrow> Status \<times> PosixWritableFile" where
  "Posix_Flush w = FlushBuffer w"

section \<open>Sequential files\<close>

definition os_advance :: "nat \<Rightarrow> os_file \<Rightarrow> os_file" where
  "os_advance k f = f\<lparr>os_before := os_before f @ take k (os_data f), os_data := drop k (os_data f)\<rparr>"

lemma os_advance_simps [simp]:
  "os_data (os_advance k f) = drop k (os_data f)" "os_plan (os_advance k f) = os_plan f"
  by (simp_all add: os_advance_def)

function Posix_Read :: "nat \<Rightarrow> os_file \<Rightarrow> Status \<times> byte list \<times> os_file" where
  "Posix_Read n f =
     (case os_plan f of
        [] \<Rightarrow> (OK, take n (os_data f), os_advance n f)
      | Transferred k # plan \<Rightarrow> (OK, take (min k n) (os_data f), os_advance (min k n) (f\<lparr>os_plan := plan\<rparr>))
      | Errno e # plan \<Rightarrow>
          if e = EINTR then Posix_Read n (f\<lparr>os_plan := plan\<rparr>)
          else (posix_error f e, [], f\<lparr>os_plan := plan\<rparr>))"
  by pat_completeness auto
termination
  by (relation "measure (\<lambda>(_, f). length (os_plan f))") auto

declare Posix_Read.simps [simp del]

text \<open>
  \<^verbatim>\<open>lseek(fd, n, SEEK_CUR)\<close>: the argument is converted to a signed \<^verbatim>\<open>off_t\<close>, so a distance of \<^verbatim>\<open>2^63\<close> or more moves the position
  back. The position may go past the end of the file, but not before its start or out of the range of \<^verbatim>\<open>off_t\<close>.
\<close>

definition os_seek :: "nat \<Rightarrow> os_file \<Rightarrow> os_file" where
  "os_seek position f =
     (let contents = os_before f @ os_data f in
      f\<lparr>os_before := take position contents, os_data := drop position contents, os_gap := position - length contents\<rparr>)"

definition Posix_Skip :: "u64 \<Rightarrow> os_file \<Rightarrow> Status \<times> os_file" where
  "Posix_Skip n f =
     (case os_plan f of
        Errno e # plan \<Rightarrow> (posix_error f e, f\<lparr>os_plan := plan\<rparr>)
      | plan \<Rightarrow>
          let position = int (length (os_before f) + os_gap f) + sint n; f1 = f\<lparr>os_plan := tl plan\<rparr> in
          if position < 0 then (posix_error f EINVAL, f1)
          else if position \<ge> 2 ^ 63 then (posix_error f EOVERFLOW, f1)
          else (OK, os_seek (nat position) f1))"

section \<open>The contracts\<close>

text \<open>
  A writable file accepts bytes in order: \<open>accepted\<close> are the bytes of all successful calls, and \<open>stored\<close> the ones
  that a reader of the file can see; after a successful flush these are the same.
\<close>

locale writable_file =
  fixes accepted :: "'f \<Rightarrow> byte list"
    and stored :: "'f \<Rightarrow> byte list"
    and append_bytes :: "'f \<Rightarrow> byte list \<Rightarrow> Status \<times> 'f"
    and flush :: "'f \<Rightarrow> Status \<times> 'f"
  assumes append_ok: "append_bytes f bs = (OK, f') \<Longrightarrow> accepted f' = accepted f @ bs"
    and flush_ok: "flush f = (OK, f') \<Longrightarrow> accepted f' = accepted f \<and> stored f' = accepted f"

lemma WriteUnbuffered_OK: "WriteUnbuffered data f = (OK, f') \<Longrightarrow> os_data f' = os_data f @ data"
proof (induction data f rule: WriteUnbuffered.induct)
  case (1 data f)
  from "1.prems" "1.IH" show ?case
    by (subst (asm) WriteUnbuffered.simps)
      (auto split: if_splits list.splits outcome.splits simp: posix_error_def PosixError_def Status_init_def)
qed

lemma FlushBuffer_OK: "FlushBuffer w = (OK, w') \<Longrightarrow> os_data (pf_os w') = os_data (pf_os w) @ pf_buf w \<and> pf_buf w' = []"
  by (auto simp: FlushBuffer_def dest: WriteUnbuffered_OK split: prod.splits)

interpretation posix: writable_file "\<lambda>w. os_data (pf_os w) @ pf_buf w" "\<lambda>w. os_data (pf_os w)" Posix_Append Posix_Flush
proof (unfold_locales, goal_cases)
  case (1 f bs f')
  then show ?case
    by (auto simp: Posix_Append_def Let_def Status_ok_def dest!: FlushBuffer_OK WriteUnbuffered_OK
        split: if_splits prod.splits)
next
  case (2 f f')
  then show ?case using FlushBuffer_OK [of f f'] by (simp add: Posix_Flush_def)
qed

text \<open>A file without errors other than interrupted calls.\<close>

definition plan_good :: "os_file \<Rightarrow> bool" where
  "plan_good f \<longleftrightarrow> (\<forall>e. Errno e \<in> set (os_plan f) \<longrightarrow> e = EINTR)"

lemma WriteUnbuffered_good: "plan_good f \<Longrightarrow> \<exists>f'. WriteUnbuffered data f = (OK, f') \<and> plan_good f'"
proof (induction data f rule: WriteUnbuffered.induct)
  case (1 data f)
  then show ?case
    by (subst WriteUnbuffered.simps) (auto simp: plan_good_def split: list.splits outcome.splits)
qed

lemma FlushBuffer_good: "plan_good (pf_os w) \<Longrightarrow> \<exists>w'. FlushBuffer w = (OK, w') \<and> plan_good (pf_os w')"
  using WriteUnbuffered_good [of "pf_os w" "pf_buf w"] by (auto simp: FlushBuffer_def)

lemma Posix_Append_good: "plan_good (pf_os w) \<Longrightarrow> \<exists>w'. Posix_Append w bs = (OK, w') \<and> plan_good (pf_os w')"
proof -
  assume good: "plan_good (pf_os w)"
  define n where "n = min (length bs) (kWritableFileBufferSize - length (pf_buf w))"
  obtain w1 where w1: "FlushBuffer (w\<lparr>pf_buf := pf_buf w @ take n bs\<rparr>) = (OK, w1)" "plan_good (pf_os w1)"
    using FlushBuffer_good [of "w\<lparr>pf_buf := pf_buf w @ take n bs\<rparr>"] good by auto
  obtain os where "WriteUnbuffered (drop n bs) (pf_os w1) = (OK, os)" "plan_good os"
    using WriteUnbuffered_good [OF w1(2)] by blast
  with w1 good show ?thesis by (auto simp: Posix_Append_def Let_def n_def [symmetric] Status_ok_def)
qed

locale reliable_file = writable_file accepted stored append_bytes flush
  for accepted :: "'f \<Rightarrow> byte list" and stored append_bytes flush +
  fixes good :: "'f \<Rightarrow> bool"
  assumes append_good: "good f \<Longrightarrow> \<exists>f'. append_bytes f bs = (OK, f') \<and> good f'"
    and flush_good: "good f \<Longrightarrow> \<exists>f'. flush f = (OK, f') \<and> good f'"

interpretation posix_good: reliable_file "\<lambda>w. os_data (pf_os w) @ pf_buf w" "\<lambda>w. os_data (pf_os w)" Posix_Append Posix_Flush
    "\<lambda>w. plan_good (pf_os w)"
  by unfold_locales (simp_all add: Posix_Append_good FlushBuffer_good Posix_Flush_def)

text \<open>
  A sequential file hands out its bytes in order. \<open>full\<close> says that a read returns fewer bytes than asked for only at the
  end of the file, which the log reader takes for granted.
\<close>

locale sequential_file =
  fixes rest :: "'f \<Rightarrow> byte list"
    and full :: "'f \<Rightarrow> bool"
    and read_bytes :: "nat \<Rightarrow> 'f \<Rightarrow> Status \<times> byte list \<times> 'f"
  assumes read_rest: "read_bytes n f = (s, bs, f') \<Longrightarrow> rest f = bs @ rest f' \<and> length bs \<le> n"
    and read_full: "full f \<Longrightarrow> \<exists>f'. read_bytes n f = (OK, take n (rest f), f') \<and> full f'"

definition plan_full :: "os_file \<Rightarrow> bool" where
  "plan_full f \<longleftrightarrow> set (os_plan f) \<subseteq> {Errno EINTR}"

lemma Posix_Read_rest: "Posix_Read n f = (s, bs, f') \<Longrightarrow> os_data f = bs @ os_data f' \<and> length bs \<le> n"
proof (induction n f rule: Posix_Read.induct)
  case (1 n f)
  from "1.prems" "1.IH" show ?case
    by (subst (asm) Posix_Read.simps) (auto split: list.splits outcome.splits if_splits)
qed

lemma Posix_Read_full: "plan_full f \<Longrightarrow> \<exists>f'. Posix_Read n f = (OK, take n (os_data f), f') \<and> plan_full f'"
proof (induction n f rule: Posix_Read.induct)
  case (1 n f)
  show ?case
  proof (cases "os_plan f")
    case Nil
    then show ?thesis by (subst Posix_Read.simps) (simp add: plan_full_def)
  next
    case (Cons o' plan)
    with "1.prems" have "o' = Errno EINTR" "plan_full (f\<lparr>os_plan := plan\<rparr>)" by (auto simp: plan_full_def)
    with "1.IH" [OF Cons] Cons show ?thesis by (subst Posix_Read.simps) simp
  qed
qed

interpretation posix_seq: sequential_file os_data plan_full Posix_Read
  by unfold_locales (rule Posix_Read_rest, assumption, rule Posix_Read_full)

end
