(* ===== verification/LDB_Logging.thy ===== *)
theory LDB_Logging
  imports Prelude
begin

text \<open>
  Text in LevelDB (\<^verbatim>\<open>util/logging.cc\<close>): numbers in decimal, escaped strings, and the parser of decimal numbers with its
  overflow check, which is proved equal to the value of the digits.
\<close>

section \<open>Printing\<close>

text \<open>The conversions \<^verbatim>\<open>%llu\<close>, \<^verbatim>\<open>%0<n>llu\<close> and \<^verbatim>\<open>%02x\<close> of \<^verbatim>\<open>snprintf\<close>; the buffers of the callers are long enough.\<close>

fun print_unsigned :: "nat \<Rightarrow> string" where
  "print_unsigned n = (if n < 10 then [] else print_unsigned (n div 10)) @ [char_of (48 + n mod 10)]"

declare print_unsigned.simps [simp del]

definition print_padded :: "nat \<Rightarrow> nat \<Rightarrow> string" where
  "print_padded width n = (let s = print_unsigned n in replicate (width - length s) (CHR ''0'') @ s)"

definition hex_digit :: "nat \<Rightarrow> char" where
  "hex_digit d = char_of (if d < 10 then 48 + d else 87 + d)"

definition print_hex_byte :: "byte \<Rightarrow> string" where
  "print_hex_byte b = [hex_digit (unat b div 16), hex_digit (unat b mod 16)]"

definition AppendNumberTo :: "string \<Rightarrow> u64 \<Rightarrow> string" where
  "AppendNumberTo str num = str @ print_unsigned (unat num)"

fun AppendEscapedStringTo :: "string \<Rightarrow> byte list \<Rightarrow> string" where
  "AppendEscapedStringTo str [] = str"
| "AppendEscapedStringTo str (c # cs) =
     AppendEscapedStringTo
       (if 32 \<le> sint c \<and> sint c \<le> 126 then str @ [char_of (unat c)]
        else str @ [char_of (92 :: nat), CHR ''x''] @ print_hex_byte c) cs"

definition NumberToString :: "u64 \<Rightarrow> string" where
  "NumberToString num = AppendNumberTo [] num"

definition EscapeString :: "byte list \<Rightarrow> string" where
  "EscapeString val = AppendEscapedStringTo [] val"

section \<open>Parsing\<close>

definition kMaxUint64 :: u64 where "kMaxUint64 = 0xFFFFFFFFFFFFFFFF"

definition kLastDigitOfMaxUint64 :: nat where "kLastDigitOfMaxUint64 = 48 + unat (kMaxUint64 mod 10)"

text \<open>\<open>None\<close> is the return from the loop on an overflow.\<close>

fun consume_loop :: "u64 \<Rightarrow> string \<Rightarrow> (u64 \<times> string) option" where
  "consume_loop val [] = Some (val, [])"
| "consume_loop val (ch # cs) =
     (if of_char ch < (48 :: nat) \<or> of_char ch > (57 :: nat) then Some (val, ch # cs)
      else if val > kMaxUint64 div 10 \<or> (val = kMaxUint64 div 10 \<and> of_char ch > kLastDigitOfMaxUint64) then None
      else consume_loop (val * 10 + of_nat (of_char ch - 48)) cs)"

text \<open>The new value of \<^verbatim>\<open>*val\<close> and \<^verbatim>\<open>*in\<close> after the return value.\<close>

definition ConsumeDecimalNumber :: "string \<Rightarrow> u64 \<Rightarrow> bool \<times> u64 \<times> string" where
  "ConsumeDecimalNumber s val =
     (case consume_loop 0 s of
        None \<Rightarrow> (False, val, s)
      | Some (v, rest) \<Rightarrow> (length s - length rest \<noteq> 0, v, rest))"

section \<open>The value of a number\<close>

definition is_digit :: "char \<Rightarrow> bool" where
  "is_digit ch \<longleftrightarrow> 48 \<le> (of_char ch :: nat) \<and> (of_char ch :: nat) \<le> 57"

definition decimal :: "nat \<Rightarrow> string \<Rightarrow> nat" where
  "decimal v ds = fold (\<lambda>ch v. v * 10 + (of_char ch - 48)) ds v"

lemma decimal_simps [simp]:
  "decimal v [] = v" "decimal v (ch # ds) = decimal (v * 10 + (of_char ch - 48)) ds" "decimal v (ds @ ds') = decimal (decimal v ds) ds'"
  by (simp_all add: decimal_def)

lemma decimal_mono: "v \<le> decimal v ds"
proof (induction ds arbitrary: v)
  case (Cons ch ds)
  show ?case using Cons.IH [of "v * 10 + (of_char ch - 48)"] by simp
qed simp

lemma digit_step:
  assumes "is_digit ch"
  shows "(v > kMaxUint64 div 10 \<or> (v = kMaxUint64 div 10 \<and> of_char ch > kLastDigitOfMaxUint64)) \<longleftrightarrow>
      2 ^ 64 \<le> unat v * 10 + (of_char ch - 48)" (is "?over \<longleftrightarrow> _")
    and "\<not> 2 ^ 64 \<le> unat v * 10 + (of_char ch - 48) \<Longrightarrow>
      unat (v * 10 + of_nat (of_char ch - 48)) = unat v * 10 + (of_char ch - 48)"
proof -
  have q: "unat (kMaxUint64 div 10) = 1844674407370955161" by (simp add: kMaxUint64_def unat_div)
  have l: "kLastDigitOfMaxUint64 = 53" by (simp add: kLastDigitOfMaxUint64_def kMaxUint64_def unat_mod)
  have "?over \<longleftrightarrow> unat v > 1844674407370955161 \<or> (unat v = 1844674407370955161 \<and> of_char ch > (53 :: nat))"
    unfolding word_less_nat_alt word_unat_eq_iff q l ..
  also have "\<dots> \<longleftrightarrow> 2 ^ 64 \<le> unat v * 10 + (of_char ch - 48)" using assms by (auto simp: is_digit_def)
  finally show "?over \<longleftrightarrow> 2 ^ 64 \<le> unat v * 10 + (of_char ch - 48)" .
  assume "\<not> 2 ^ 64 \<le> unat v * 10 + (of_char ch - 48)"
  then show "unat (v * 10 + of_nat (of_char ch - 48)) = unat v * 10 + (of_char ch - 48)"
    by (simp add: unat_word_ariths unat_of_nat mod_add_right_eq)
qed

lemma consume_loop_decimal:
  "consume_loop v s = (let ds = takeWhile is_digit s; n = decimal (unat v) ds in
     if n < 2 ^ 64 then Some (of_nat n, dropWhile is_digit s) else None)"
proof (induction s arbitrary: v)
  case Nil
  then show ?case using unsigned_less [of v, where 'a = nat] by (simp add: Let_def)
next
  case (Cons ch s)
  show ?case
  proof (cases "is_digit ch")
    case False
    then have "of_char ch < (48 :: nat) \<or> of_char ch > (57 :: nat)" by (auto simp: is_digit_def)
    with False show ?thesis using unsigned_less [of v, where 'a = nat] by (simp add: Let_def)
  next
    case True
    then have ch: "\<not> (of_char ch < (48 :: nat) \<or> of_char ch > (57 :: nat))" by (auto simp: is_digit_def)
    note step = digit_step [OF True, of v]
    show ?thesis
    proof (cases "2 ^ 64 \<le> unat v * 10 + (of_char ch - 48)")
      case over: True
      then have "\<not> decimal (unat v * 10 + (of_char ch - 48)) (takeWhile is_digit s) < 2 ^ 64"
        using decimal_mono [of "unat v * 10 + (of_char ch - 48)" "takeWhile is_digit s"] by linarith
      with over ch True step(1) show ?thesis by (simp add: Let_def)
    next
      case False
      then have "consume_loop v (ch # s) = consume_loop (v * 10 + of_nat (of_char ch - 48)) s"
        by (simp only: consume_loop.simps ch step(1) if_False)
      then show ?thesis
        unfolding Cons.IH step(2) [OF False] using True by (simp only: takeWhile.simps dropWhile.simps if_True decimal_simps Let_def)
    qed
  qed
qed

lemma ConsumeDecimalNumber_value:
  "ConsumeDecimalNumber s val = (let ds = takeWhile is_digit s; n = decimal 0 ds in
     if n < 2 ^ 64 then (ds \<noteq> [], of_nat n, drop (length ds) s) else (False, val, s))"
proof -
  have "length s - length (dropWhile is_digit s) = length (takeWhile is_digit s)"
    by (metis add_diff_cancel_right' length_append takeWhile_dropWhile_id)
  then have "(length s - length (dropWhile is_digit s) \<noteq> 0) = (takeWhile is_digit s \<noteq> [])" by simp
  then show ?thesis
    unfolding ConsumeDecimalNumber_def consume_loop_decimal Let_def by (simp add: dropWhile_eq_drop)
qed

text \<open>\<^verbatim>\<open>ConsumeDecimalNumber\<close> reads the longest run of digits and computes its value exactly: it succeeds when there is
  at least one digit and the value fits 64 bits, and then consumes just the digits; a number that does not fit is refused
  without a change, however long it is.\<close>

theorem consume_decimal_exact:
  "ConsumeDecimalNumber s val = (let ds = takeWhile is_digit s; n = decimal 0 ds in
     if n < 2 ^ 64 then (ds \<noteq> [], of_nat n, drop (length ds) s) else (False, val, s))"
  by (rule ConsumeDecimalNumber_value)

end
