(* ===== verification/LDB_Log.thy ===== *)
theory LDB_Log
  imports LDB_CRC32C LDB_Env LDB_Logging "HOL-Library.Monad_Syntax"
begin

unbundle bit_operations_syntax

text \<open>
  The write-ahead log of LevelDB: the writer (\<^verbatim>\<open>db/log_writer.cc\<close>) and the reader (\<^verbatim>\<open>db/log_reader.cc\<close>) of records in
  blocks of 32 KiB. Both work on files behind the interfaces \<^verbatim>\<open>WritableFile\<close> and \<^verbatim>\<open>SequentialFile\<close>, whose operations
  are arguments here; \<open>LDB_Log_Spec\<close> supplies the POSIX files. Checksums are computed at address zero, since
  \<open>Crc_Extend_ref\<close> shows that the alignment of the data does not matter.
\<close>

section \<open>Format\<close>

datatype RecordType = kZeroType | kFullType | kFirstType | kMiddleType | kLastType

fun RecordType_num :: "RecordType \<Rightarrow> nat" where
  "RecordType_num kZeroType = 0"
| "RecordType_num kFullType = 1"
| "RecordType_num kFirstType = 2"
| "RecordType_num kMiddleType = 3"
| "RecordType_num kLastType = 4"

definition kMaxRecordType :: nat where "kMaxRecordType = RecordType_num kLastType"

definition kBlockSize :: nat where "kBlockSize = 32768"

definition kHeaderSize :: nat where "kHeaderSize = 4 + 2 + 1"

lemmas log_sizes = kBlockSize_def kHeaderSize_def

section \<open>Writer\<close>

type_synonym 'f append_op = "'f \<Rightarrow> byte list \<Rightarrow> Status \<times> 'f"
type_synonym 'f flush_op = "'f \<Rightarrow> Status \<times> 'f"

record 'f Writer =
  wr_dest :: 'f
  wr_block_offset :: nat
  wr_type_crc :: "u32 list"

definition InitTypeCrc :: "u32 list" where
  "InitTypeCrc = map (\<lambda>i. Crc_Value 0 [of_nat i]) [0..<Suc kMaxRecordType]"

definition Writer_init :: "'f \<Rightarrow> 'f Writer" where
  "Writer_init dest = \<lparr>wr_dest = dest, wr_block_offset = 0, wr_type_crc = InitTypeCrc\<rparr>"

definition Writer_init_at :: "'f \<Rightarrow> u64 \<Rightarrow> 'f Writer" where
  "Writer_init_at dest dest_length =
     \<lparr>wr_dest = dest, wr_block_offset = unat (dest_length mod of_nat kBlockSize), wr_type_crc = InitTypeCrc\<rparr>"

definition EmitPhysicalRecord ::
    "'f append_op \<Rightarrow> 'f flush_op \<Rightarrow> RecordType \<Rightarrow> byte list \<Rightarrow> 'f Writer \<Rightarrow> Status \<times> 'f Writer" where
  "EmitPhysicalRecord append_bytes flush t ptr w =
     (let n = length ptr;
          crc = Crc_Mask (Crc_Extend 0 (wr_type_crc w ! RecordType_num t) ptr);
          buf = EncodeFixed32 crc @ [of_nat n AND 0xFF, of_nat (n div 256), of_nat (RecordType_num t)];
          (s, dest) =
            (case append_bytes (wr_dest w) buf of (s1, d1) \<Rightarrow>
               if Status_ok s1 then
                 (case append_bytes d1 ptr of (s2, d2) \<Rightarrow> if Status_ok s2 then flush d2 else (s2, d2))
               else (s1, d1)) in
      (s, w\<lparr>wr_dest := dest, wr_block_offset := wr_block_offset w + kHeaderSize + n\<rparr>))"

text \<open>The start of an iteration: the rest of a block that cannot hold a header is filled up, whatever the file says.\<close>

definition switch_block :: "'f append_op \<Rightarrow> 'f Writer \<Rightarrow> 'f Writer" where
  "switch_block append_bytes w =
     (let leftover = kBlockSize - wr_block_offset w in
      if leftover < kHeaderSize
      then w\<lparr>wr_dest := (if leftover > 0 then snd (append_bytes (wr_dest w) (replicate leftover 0)) else wr_dest w),
             wr_block_offset := 0\<rparr>
      else w)"

definition fragment_type :: "bool \<Rightarrow> bool \<Rightarrow> RecordType" where
  "fragment_type begin_rec end_rec =
     (if begin_rec \<and> end_rec then kFullType else if begin_rec then kFirstType
      else if end_rec then kLastType else kMiddleType)"

lemma wr_block_offset_Emit [simp]:
  "EmitPhysicalRecord append_bytes flush t ptr w = (s, w') \<Longrightarrow>
   wr_block_offset w' = wr_block_offset w + kHeaderSize + length ptr"
  by (auto simp: EmitPhysicalRecord_def Let_def split: prod.splits)

lemma wr_block_offset_switch [simp]:
  "wr_block_offset (switch_block append_bytes w) =
   (if kBlockSize - wr_block_offset w < kHeaderSize then 0 else wr_block_offset w)"
  by (simp add: switch_block_def Let_def)

lemma add_loop_measure:
  fixes off n left :: nat
  assumes "n < left" and n: "n = (let off1 = (if kBlockSize - off < kHeaderSize then 0 else off);
      avail = kBlockSize - off1 - kHeaderSize in if left < avail then left else avail)"
    and off2: "off2 = (if kBlockSize - off < kHeaderSize then 0 else off) + kHeaderSize + n"
  shows "2 * (left - n) + of_bool (off2 = kBlockSize - kHeaderSize) < 2 * left + of_bool (off = kBlockSize - kHeaderSize)"
  using assms by (auto simp: log_sizes Let_def split: if_splits)

function add_loop ::
    "'f append_op \<Rightarrow> 'f flush_op \<Rightarrow> bool \<Rightarrow> byte list \<Rightarrow> 'f Writer \<Rightarrow> Status \<times> 'f Writer" where
  "add_loop append_bytes flush begin_rec ptr w =
     (let w1 = switch_block append_bytes w;
          avail = kBlockSize - wr_block_offset w1 - kHeaderSize;
          fragment_length = (if length ptr < avail then length ptr else avail);
          end_rec = (length ptr = fragment_length) in
      case EmitPhysicalRecord append_bytes flush (fragment_type begin_rec end_rec) (take fragment_length ptr) w1 of
        (s, w2) \<Rightarrow>
          if Status_ok s \<and> drop fragment_length ptr \<noteq> []
          then add_loop append_bytes flush False (drop fragment_length ptr) w2 else (s, w2))"
  by pat_completeness auto
termination
proof (relation "measure (\<lambda>(_, _, _, ptr, w). 2 * length ptr + of_bool (wr_block_offset w = kBlockSize - kHeaderSize))",
    goal_cases)
  case (2 append_bytes flush begin_rec ptr w w1 avail n end_rec s w2)
  then have "n < length ptr" "length (take n ptr) = n" by auto
  moreover from 2 have "n = (let off1 = (if kBlockSize - wr_block_offset w < kHeaderSize then 0 else wr_block_offset w);
      avail = kBlockSize - off1 - kHeaderSize in if length ptr < avail then length ptr else avail)"
    by (simp add: Let_def)
  moreover from 2(5) [symmetric] have "wr_block_offset w2 = wr_block_offset w1 + kHeaderSize + length (take n ptr)" by simp
  ultimately show ?case using 2(1) by (simp add: add_loop_measure del: length_take)
qed simp

declare add_loop.simps [simp del]

definition AddRecord :: "'f append_op \<Rightarrow> 'f flush_op \<Rightarrow> byte list \<Rightarrow> 'f Writer \<Rightarrow> Status \<times> 'f Writer" where
  "AddRecord append_bytes flush data w = add_loop append_bytes flush True data w"

section \<open>Reader\<close>

type_synonym 'f read_op = "nat \<Rightarrow> 'f \<Rightarrow> Status \<times> byte list \<times> 'f"
type_synonym 'f skip_op = "u64 \<Rightarrow> 'f \<Rightarrow> Status \<times> 'f"

text \<open>\<open>rd_reporter\<close> tells whether there is a reporter; \<open>rd_reports\<close> are the calls of its \<^verbatim>\<open>Corruption\<close>.\<close>

record 'f Reader =
  rd_file :: 'f
  rd_reporter :: bool
  rd_checksum :: bool
  rd_buffer :: "byte list"
  rd_eof :: bool
  rd_last_record_offset :: u64
  rd_end_of_buffer_offset :: u64
  rd_initial_offset :: u64
  rd_resyncing :: bool
  rd_reports :: "(nat \<times> Status) list"

definition kEof :: u32 where "kEof = of_nat (kMaxRecordType + 1)"

definition kBadRecord :: u32 where "kBadRecord = of_nat (kMaxRecordType + 2)"

definition Reader_init :: "'f \<Rightarrow> bool \<Rightarrow> bool \<Rightarrow> u64 \<Rightarrow> 'f Reader" where
  "Reader_init file reporter checksum initial_offset =
     \<lparr>rd_file = file, rd_reporter = reporter, rd_checksum = checksum, rd_buffer = [], rd_eof = False,
      rd_last_record_offset = 0, rd_end_of_buffer_offset = 0, rd_initial_offset = initial_offset,
      rd_resyncing = (initial_offset > 0), rd_reports = []\<rparr>"

definition ReportDrop :: "nat \<Rightarrow> Status \<Rightarrow> 'f Reader \<Rightarrow> 'f Reader" where
  "ReportDrop bytes reason r =
     (if rd_reporter r \<and>
         rd_end_of_buffer_offset r - of_nat (length (rd_buffer r)) - of_nat bytes \<ge> rd_initial_offset r
      then r\<lparr>rd_reports := rd_reports r @ [(bytes, reason)]\<rparr> else r)"

definition ReportCorruption :: "nat \<Rightarrow> string \<Rightarrow> 'f Reader \<Rightarrow> 'f Reader" where
  "ReportCorruption bytes reason = ReportDrop bytes (Status_init kCorruption reason [])"

definition SkipToInitialBlock :: "'f skip_op \<Rightarrow> 'f Reader \<Rightarrow> bool \<times> 'f Reader" where
  "SkipToInitialBlock skip r =
     (let offset_in_block = rd_initial_offset r mod of_nat kBlockSize;
          start = rd_initial_offset r - offset_in_block;
          block_start_location = (if offset_in_block > of_nat (kBlockSize - 6) then start + of_nat kBlockSize else start);
          r1 = r\<lparr>rd_end_of_buffer_offset := block_start_location\<rparr> in
      if block_start_location > 0 then
        case skip block_start_location (rd_file r1) of (skip_status, file) \<Rightarrow>
          let r2 = r1\<lparr>rd_file := file\<rparr> in
          if \<not> Status_ok skip_status then (False, ReportDrop (unat block_start_location) skip_status r2)
          else (True, r2)
      else (True, r1))"

text \<open>The header that starts the buffer; a \<^verbatim>\<open>char\<close> is signed, so the type is sign extended.\<close>

definition parse_header :: "byte list \<Rightarrow> nat \<times> u32" where
  "parse_header header =
     (let a = ucast (header ! 4) AND 0xFF :: u32; b = ucast (header ! 5) AND 0xFF :: u32 in
      (unat (a OR push_bit 8 b), scast (header ! 6)))"

definition parse_physical :: "byte list \<Rightarrow> 'f Reader \<Rightarrow> u32 \<times> byte list \<times> 'f Reader" where
  "parse_physical result r =
     (let header = rd_buffer r; (len, type) = parse_header header in
      if kHeaderSize + len > length header then
        let r1 = r\<lparr>rd_buffer := []\<rparr> in
        if \<not> rd_eof r then (kBadRecord, result, ReportCorruption (length header) ''bad record length'' r1)
        else (kEof, result, r1)
      else if type = of_nat (RecordType_num kZeroType) \<and> len = 0 then (kBadRecord, result, r\<lparr>rd_buffer := []\<rparr>)
      else if rd_checksum r \<and> Crc_Value 0 (take (1 + len) (drop 6 header)) \<noteq> Crc_Unmask (DecodeFixed32 header)
      then (kBadRecord, result, ReportCorruption (length header) ''checksum mismatch'' (r\<lparr>rd_buffer := []\<rparr>))
      else
        let r1 = r\<lparr>rd_buffer := Slice_remove_prefix header (kHeaderSize + len)\<rparr> in
        if rd_end_of_buffer_offset r1 - of_nat (length (rd_buffer r1)) - of_nat kHeaderSize - of_nat len < rd_initial_offset r1
        then (kBadRecord, [], r1)
        else (type, take len (drop kHeaderSize header), r1))"

function ReadPhysicalRecord :: "'f read_op \<Rightarrow> byte list \<Rightarrow> 'f Reader \<Rightarrow> u32 \<times> byte list \<times> 'f Reader" where
  "ReadPhysicalRecord read_bytes result r =
     (if length (rd_buffer r) < kHeaderSize then
        if \<not> rd_eof r then
          case read_bytes kBlockSize (rd_file r) of (status, data, file) \<Rightarrow>
            let r1 = r\<lparr>rd_file := file, rd_buffer := data,
                       rd_end_of_buffer_offset := rd_end_of_buffer_offset r + of_nat (length data)\<rparr> in
            if \<not> Status_ok status
            then (kEof, result, (ReportDrop kBlockSize status (r1\<lparr>rd_buffer := []\<rparr>))\<lparr>rd_eof := True\<rparr>)
            else ReadPhysicalRecord read_bytes result (if length data < kBlockSize then r1\<lparr>rd_eof := True\<rparr> else r1)
        else (kEof, result, r\<lparr>rd_buffer := []\<rparr>)
      else parse_physical result r)"
  by pat_completeness auto
termination
  by (relation "measure (\<lambda>(_, _, r). of_bool (length (rd_buffer r) < kHeaderSize \<and> \<not> rd_eof r))")
    (auto simp: log_sizes)

declare ReadPhysicalRecord.simps [simp del]

text \<open>
  The variables of the loop of \<^verbatim>\<open>ReadRecord\<close>, and one iteration: \<open>Inl\<close> goes on with new variables, \<open>Inr\<close> returns, where
  \<open>None\<close> is the return value \<^verbatim>\<open>false\<close>.
\<close>

record loop_vars =
  lv_fragment :: "byte list"
  lv_in_fragmented_record :: bool
  lv_prospective_record_offset :: u64
  lv_scratch :: "byte list"

definition report_partial :: "string \<Rightarrow> loop_vars \<Rightarrow> 'f Reader \<Rightarrow> 'f Reader" where
  "report_partial reason v r =
     (if lv_in_fragmented_record v \<and> lv_scratch v \<noteq> [] then ReportCorruption (length (lv_scratch v)) reason r else r)"

definition dispatch ::
    "u32 \<Rightarrow> u64 \<Rightarrow> loop_vars \<Rightarrow> 'f Reader \<Rightarrow> loop_vars \<times> 'f Reader + byte list option \<times> 'f Reader" where
  "dispatch record_type physical_record_offset v r =
     (let fragment = lv_fragment v; scratch = lv_scratch v in
      if record_type = of_nat (RecordType_num kFullType) then
        Inr (Some fragment, (report_partial ''partial record without end(1)'' v r)
          \<lparr>rd_last_record_offset := physical_record_offset\<rparr>)
      else if record_type = of_nat (RecordType_num kFirstType) then
        Inl (v\<lparr>lv_prospective_record_offset := physical_record_offset, lv_scratch := fragment,
               lv_in_fragmented_record := True\<rparr>, report_partial ''partial record without end(2)'' v r)
      else if record_type = of_nat (RecordType_num kMiddleType) then
        if \<not> lv_in_fragmented_record v
        then Inl (v, ReportCorruption (length fragment) ''missing start of fragmented record(1)'' r)
        else Inl (v\<lparr>lv_scratch := scratch @ fragment\<rparr>, r)
      else if record_type = of_nat (RecordType_num kLastType) then
        if \<not> lv_in_fragmented_record v
        then Inl (v, ReportCorruption (length fragment) ''missing start of fragmented record(2)'' r)
        else Inr (Some (scratch @ fragment), r\<lparr>rd_last_record_offset := lv_prospective_record_offset v\<rparr>)
      else if record_type = kEof then Inr (None, r)
      else if record_type = kBadRecord then
        if lv_in_fragmented_record v
        then Inl (v\<lparr>lv_in_fragmented_record := False, lv_scratch := []\<rparr>,
                  ReportCorruption (length scratch) ''error in middle of record'' r)
        else Inl (v, r)
      else
        Inl (v\<lparr>lv_in_fragmented_record := False, lv_scratch := []\<rparr>,
             ReportCorruption (length fragment + (if lv_in_fragmented_record v then length scratch else 0))
               (''unknown record type '' @ print_unsigned (unat record_type)) r))"

definition read_record_step ::
    "'f read_op \<Rightarrow> loop_vars \<Rightarrow> 'f Reader \<Rightarrow> loop_vars \<times> 'f Reader + byte list option \<times> 'f Reader" where
  "read_record_step read_bytes v r =
     (case ReadPhysicalRecord read_bytes (lv_fragment v) r of (record_type, fragment, r1) \<Rightarrow>
        let physical_record_offset =
              rd_end_of_buffer_offset r1 - of_nat (length (rd_buffer r1)) - of_nat kHeaderSize - of_nat (length fragment);
            v1 = v\<lparr>lv_fragment := fragment\<rparr> in
        if rd_resyncing r1 then
          if record_type = of_nat (RecordType_num kMiddleType) then Inl (v1, r1)
          else if record_type = of_nat (RecordType_num kLastType) then Inl (v1, r1\<lparr>rd_resyncing := False\<rparr>)
          else dispatch record_type physical_record_offset v1 (r1\<lparr>rd_resyncing := False\<rparr>)
        else dispatch record_type physical_record_offset v1 r1)"

partial_function (option) read_record_loop ::
    "'f read_op \<Rightarrow> loop_vars \<Rightarrow> 'f Reader \<Rightarrow> (byte list option \<times> 'f Reader) option" where
  [code]: "read_record_loop read_bytes v r =
     (case read_record_step read_bytes v r of
        Inl (v', r') \<Rightarrow> read_record_loop read_bytes v' r'
      | Inr result \<Rightarrow> Some result)"

definition loop_vars_init :: loop_vars where
  "loop_vars_init = \<lparr>lv_fragment = [], lv_in_fragmented_record = False, lv_prospective_record_offset = 0, lv_scratch = []\<rparr>"

definition ReadRecord :: "'f skip_op \<Rightarrow> 'f read_op \<Rightarrow> 'f Reader \<Rightarrow> (byte list option \<times> 'f Reader) option" where
  "ReadRecord skip read_bytes r =
     (if rd_last_record_offset r < rd_initial_offset r then
        case SkipToInitialBlock skip r of (ok, r1) \<Rightarrow>
          if ok then read_record_loop read_bytes loop_vars_init r1 else Some (None, r1)
      else read_record_loop read_bytes loop_vars_init r)"

definition LastRecordOffset :: "'f Reader \<Rightarrow> u64" where
  "LastRecordOffset r = rd_last_record_offset r"

end
