(* ===== verification/LDB_Log_Spec.thy ===== *)
theory LDB_Log_Spec
  imports LDB_Log
begin

unbundle bit_operations_syntax

text \<open>
  The format of the log as a relation between records and bytes, the proof that the writer produces it on every file that
  keeps the contract of \<^verbatim>\<open>WritableFile\<close>, and that the reader, on a \<^verbatim>\<open>SequentialFile\<close>, gives back the records of a log
  that was cut off anywhere. Both contracts are interpreted on the POSIX files of \<open>LDB_Env\<close>.
\<close>

section \<open>The format\<close>

definition phys :: "byte \<Rightarrow> byte list \<Rightarrow> byte list" where
  "phys t p = EncodeFixed32 (Crc_Mask (Crc_Value 0 (t # p))) @
     [of_nat (length p) AND 0xFF, of_nat (length p div 256), t] @ p"

definition trailer :: "nat \<Rightarrow> byte list" where
  "trailer off = (if kBlockSize - off < kHeaderSize then replicate (kBlockSize - off) 0 else [])"

definition start :: "nat \<Rightarrow> nat" where
  "start off = (if kBlockSize - off < kHeaderSize then 0 else off)"

definition type_byte :: "RecordType \<Rightarrow> byte" where
  "type_byte t = of_nat (RecordType_num t)"

text \<open>
  \<open>laid_out off b data bs off'\<close>: at offset \<open>off\<close> of a block, \<open>bs\<close> holds \<open>data\<close> as the rest of a record (\<open>b\<close>: as a whole
  record) and ends at offset \<open>off'\<close>.
\<close>

inductive laid_out :: "nat \<Rightarrow> bool \<Rightarrow> byte list \<Rightarrow> byte list \<Rightarrow> nat \<Rightarrow> bool" where
  last: "start off + kHeaderSize + length p \<le> kBlockSize \<Longrightarrow>
    laid_out off b p (trailer off @ phys (type_byte (fragment_type b True)) p) (start off + kHeaderSize + length p)"
| more: "start off + kHeaderSize + length p \<le> kBlockSize \<Longrightarrow>
    laid_out (start off + kHeaderSize + length p) False q bs off' \<Longrightarrow>
    laid_out off b (p @ q) (trailer off @ phys (type_byte (fragment_type b False)) p @ bs) off'"

inductive log_format :: "nat \<Rightarrow> byte list list \<Rightarrow> byte list \<Rightarrow> nat \<Rightarrow> bool" where
  empty: "log_format off [] [] off"
| cons: "laid_out off True data bs off1 \<Longrightarrow> log_format off1 rs bs' off2 \<Longrightarrow>
    log_format off (data # rs) (bs @ bs') off2"

inductive_cases log_format_ConsE: "log_format off (data # rs) bs off'"

lemma log_format_append:
  "log_format off rs bs off1 \<Longrightarrow> log_format off1 rs' bs' off2 \<Longrightarrow> log_format off (rs @ rs') (bs @ bs') off2"
  by (induction rule: log_format.induct) (auto intro: log_format.cons)

text \<open>The first block may be entered from its start or from the end of a block before it.\<close>

lemma laid_out_first_block: "laid_out off b data bs off' \<Longrightarrow> off = 0 \<Longrightarrow> laid_out kBlockSize b data bs off'"
proof (induction rule: laid_out.induct)
  case (last off p b)
  then show ?case using laid_out.last [of kBlockSize p b] by (simp add: start_def trailer_def log_sizes)
next
  case (more off p q bs off' b)
  then show ?case using laid_out.more [of kBlockSize p q bs off' b] by (simp add: start_def trailer_def log_sizes)
qed

lemma log_format_first_block:
  "log_format 0 rs bs off' \<Longrightarrow> \<exists>o1. log_format kBlockSize rs bs o1 \<and> (o1 = off' \<or> off' = 0 \<and> o1 = kBlockSize)"
  by (cases rs) (auto elim!: log_format_ConsE intro: log_format.intros laid_out_first_block elim: log_format.cases)

lemma length_phys [simp]: "length (phys t p) = kHeaderSize + length p"
  by (simp add: phys_def kHeaderSize_def)

lemma laid_out_length: "laid_out off b data bs off' \<Longrightarrow> kHeaderSize \<le> length bs \<and> off' \<le> kBlockSize"
  by (induction rule: laid_out.induct) auto

section \<open>The writer\<close>

lemma type_crc_nth: "InitTypeCrc ! RecordType_num t = Crc_Value 0 [type_byte t]"
proof -
  have "RecordType_num t < Suc kMaxRecordType" by (cases t) (simp_all add: kMaxRecordType_def)
  then show ?thesis unfolding InitTypeCrc_def type_byte_def by (simp only: nth_map nth_upt length_upt add_0 diff_zero)
qed

fun add_records :: "'f append_op \<Rightarrow> 'f flush_op \<Rightarrow> byte list list \<Rightarrow> 'f Writer \<Rightarrow> Status \<times> 'f Writer" where
  "add_records append_bytes flush [] w = (OK, w)"
| "add_records append_bytes flush (r # rs) w =
     (case AddRecord append_bytes flush r w of
        (s, w') \<Rightarrow> if Status_ok s then add_records append_bytes flush rs w' else (s, w'))"

text \<open>
  What the log asks of its file beyond \<open>writable_file\<close>: right after a successful flush, an append of less than a header
  succeeds. \<^verbatim>\<open>AddRecord\<close> depends on it, because it ignores the status of the append that fills up a block.
\<close>

locale log_destination = writable_file accepted stored append_bytes flush
  for accepted stored :: "'f \<Rightarrow> byte list" and append_bytes :: "'f \<Rightarrow> byte list \<Rightarrow> Status \<times> 'f"
    and flush :: "'f \<Rightarrow> Status \<times> 'f" +
  fixes idle :: "'f \<Rightarrow> bool"
  assumes flush_idle: "flush f = (OK, f') \<Longrightarrow> idle f'"
    and idle_append: "idle f \<Longrightarrow> length bs < kHeaderSize \<Longrightarrow> \<exists>f'. append_bytes f bs = (OK, f')"
begin

definition writer_ok :: "'f Writer \<Rightarrow> bool" where
  "writer_ok w \<longleftrightarrow> idle (wr_dest w) \<and> stored (wr_dest w) = accepted (wr_dest w) \<and> wr_type_crc w = InitTypeCrc"

lemma switch_block_bytes:
  assumes "writer_ok w"
  shows "accepted (wr_dest (switch_block append_bytes w)) = accepted (wr_dest w) @ trailer (wr_block_offset w)"
    "wr_block_offset (switch_block append_bytes w) = start (wr_block_offset w)"
    "wr_type_crc (switch_block append_bytes w) = InitTypeCrc"
proof -
  let ?l = "kBlockSize - wr_block_offset w"
  have fill: "accepted (snd (append_bytes (wr_dest w) (replicate ?l 0))) = accepted (wr_dest w) @ replicate ?l 0"
    if l: "?l < kHeaderSize"
  proof -
    obtain f' where "append_bytes (wr_dest w) (replicate ?l 0) = (OK, f')"
      using idle_append [of "wr_dest w" "replicate ?l 0"] l assms by (auto simp: writer_ok_def)
    with append_ok [OF this] show ?thesis by simp
  qed
  then show "accepted (wr_dest (switch_block append_bytes w)) = accepted (wr_dest w) @ trailer (wr_block_offset w)"
    by (cases "0 < ?l") (simp_all add: switch_block_def trailer_def Let_def)
  show "wr_block_offset (switch_block append_bytes w) = start (wr_block_offset w)" by (simp add: start_def)
  show "wr_type_crc (switch_block append_bytes w) = InitTypeCrc"
    using assms by (simp add: switch_block_def writer_ok_def Let_def)
qed

lemma Emit_bytes:
  assumes "EmitPhysicalRecord append_bytes flush t p w = (OK, w')" and "wr_type_crc w = InitTypeCrc"
  shows "accepted (wr_dest w') = accepted (wr_dest w) @ phys (type_byte t) p \<and> writer_ok w'"
proof -
  have crc: "Crc_Extend 0 (wr_type_crc w ! RecordType_num t) p = Crc_Value 0 (type_byte t # p)"
    using assms(2) Crc_Extend_Value [of 0 0 "[type_byte t]" p 0] by (simp add: type_crc_nth)
  define h where "h = EncodeFixed32 (Crc_Mask (Crc_Value 0 (type_byte t # p))) @
      [of_nat (length p) AND 0xFF, of_nat (length p div 256), type_byte t]"
  obtain s1 d1 s2 d2 s3 d3 where d: "append_bytes (wr_dest w) h = (s1, d1)" "append_bytes d1 p = (s2, d2)"
    "flush d2 = (s3, d3)" by (metis surj_pair)
  have "EmitPhysicalRecord append_bytes flush t p w =
      (let (s, dest) = (if s1 = OK then if s2 = OK then (s3, d3) else (s2, d2) else (s1, d1)) in
       (s, w\<lparr>wr_dest := dest, wr_block_offset := wr_block_offset w + kHeaderSize + length p\<rparr>))"
    by (simp only: EmitPhysicalRecord_def Let_def crc type_byte_def [symmetric] h_def [symmetric] d prod.case Status_ok_def)
  with assms(1) have "s1 = OK" "s2 = OK" "s3 = OK"
    and w': "w' = w\<lparr>wr_dest := d3, wr_block_offset := wr_block_offset w + kHeaderSize + length p\<rparr>"
    by (simp_all split: if_splits)
  with d have "accepted d3 = accepted (wr_dest w) @ h @ p" "stored d3 = accepted d3" "idle d3"
    using append_ok [of "wr_dest w" h d1] append_ok [of d1 p d2] flush_ok [of d2 d3] flush_idle [of d2 d3] by simp_all
  with w' assms(2) show ?thesis by (simp add: phys_def h_def writer_ok_def)
qed

lemma add_loop_laid_out:
  assumes "add_loop append_bytes flush b data w = (OK, w')" and "writer_ok w" and "wr_block_offset w \<le> kBlockSize"
  shows "\<exists>bs. laid_out (wr_block_offset w) b data bs (wr_block_offset w') \<and>
    accepted (wr_dest w') = accepted (wr_dest w) @ bs \<and> writer_ok w'"
  using assms
proof (induction "2 * length data + of_bool (wr_block_offset w = kBlockSize - kHeaderSize)" arbitrary: b data w
    rule: less_induct)
  case less
  define w1 where "w1 = switch_block append_bytes w"
  define avail where "avail = kBlockSize - wr_block_offset w1 - kHeaderSize"
  define n where "n = (if length data < avail then length data else avail)"
  note w1 = switch_block_bytes [OF less.prems(2), folded w1_def]
  obtain s w2 where emit: "EmitPhysicalRecord append_bytes flush (fragment_type b (length data = n)) (take n data) w1 = (s, w2)"
    by fastforce
  have loop: "(if Status_ok s \<and> drop n data \<noteq> [] then add_loop append_bytes flush False (drop n data) w2 else (s, w2)) = (OK, w')"
    using less.prems(1) emit unfolding add_loop.simps [of _ _ b data w] w1_def [symmetric] Let_def avail_def [symmetric]
      n_def [symmetric] by simp
  then have "s = OK" by (auto simp: Status_ok_def split: if_splits)
  with emit w1(3) have w2: "accepted (wr_dest w2) = accepted (wr_dest w) @ trailer (wr_block_offset w) @
      phys (type_byte (fragment_type b (length data = n))) (take n data)" "writer_ok w2"
    using Emit_bytes [of _ "take n data" w1 w2] w1(1) by auto
  have n: "n \<le> length data" "length (take n data) = n" "start (wr_block_offset w) + kHeaderSize + n \<le> kBlockSize"
    using w1(2) less.prems(3) by (auto simp: n_def avail_def start_def log_sizes split: if_splits)
  have off2: "wr_block_offset w2 = start (wr_block_offset w) + kHeaderSize + n"
    using wr_block_offset_Emit [OF emit] w1(2) n(2) by simp
  show ?case
  proof (cases "n = length data")
    case True
    with loop \<open>s = OK\<close> have "w' = w2" by simp
    with True w2 off2 n(3) show ?thesis using laid_out.last [of "wr_block_offset w" data b] by auto
  next
    case False
    with n(1) loop \<open>s = OK\<close> have rec: "add_loop append_bytes flush False (drop n data) w2 = (OK, w')" and "n < length data"
      by (auto simp: Status_ok_def)
    then have "2 * (length data - n) + of_bool (wr_block_offset w2 = kBlockSize - kHeaderSize)
        < 2 * length data + of_bool (wr_block_offset w = kBlockSize - kHeaderSize)"
      by (intro add_loop_measure) (auto simp: n_def avail_def w1(2) off2 start_def Let_def)
    then obtain bs where "laid_out (wr_block_offset w2) False (drop n data) bs (wr_block_offset w')"
      "accepted (wr_dest w') = accepted (wr_dest w2) @ bs" "writer_ok w'"
      using less.hyps [OF _ rec w2(2)] n(3) off2 by auto
    moreover from this(1) have "laid_out (wr_block_offset w) b (take n data @ drop n data)
        (trailer (wr_block_offset w) @ phys (type_byte (fragment_type b False)) (take n data) @ bs) (wr_block_offset w')"
      using n off2 by (intro laid_out.more) simp_all
    ultimately show ?thesis using w2(1) False by (intro exI conjI) (assumption | simp)+
  qed
qed

lemma add_records_format:
  assumes "add_records append_bytes flush rs w = (OK, w')" and "writer_ok w" and "wr_block_offset w \<le> kBlockSize"
  shows "\<exists>bs. log_format (wr_block_offset w) rs bs (wr_block_offset w') \<and>
    accepted (wr_dest w') = accepted (wr_dest w) @ bs \<and> writer_ok w' \<and> wr_block_offset w' \<le> kBlockSize"
  using assms
proof (induction rs arbitrary: w)
  case Nil
  then show ?case by (auto intro: log_format.empty)
next
  case (Cons r rs)
  obtain w1 where w1: "add_loop append_bytes flush True r w = (OK, w1)" "add_records append_bytes flush rs w1 = (OK, w')"
    using Cons.prems(1) by (auto simp: AddRecord_def Status_ok_def split: prod.splits if_splits)
  obtain bs where bs: "laid_out (wr_block_offset w) True r bs (wr_block_offset w1)"
    "accepted (wr_dest w1) = accepted (wr_dest w) @ bs" "writer_ok w1"
    using add_loop_laid_out [OF w1(1) Cons.prems(2,3)] by blast
  with Cons.IH [OF w1(2) bs(3)] laid_out_length [OF bs(1)] show ?case
    by (auto intro: log_format.cons)
qed

lemma Writer_init_ok:
  assumes "idle f" "stored f = accepted f"
  shows "writer_ok (Writer_init f)" "wr_block_offset (Writer_init f) = 0"
  using assms by (simp_all add: writer_ok_def Writer_init_def)

end

interpretation posix_log: log_destination "\<lambda>w. os_data (pf_os w) @ pf_buf w" "\<lambda>w. os_data (pf_os w)" Posix_Append
    Posix_Flush "\<lambda>w. pf_buf w = []"
  by unfold_locales
    (auto simp: Posix_Flush_def Posix_Append_def kWritableFileBufferSize_def kHeaderSize_def Let_def dest: FlushBuffer_OK)

text \<open>When no system call fails, every record is added, however the calls divide the bytes.\<close>

locale reliable_log = log_destination accepted stored append_bytes flush idle
  for accepted stored :: "'f \<Rightarrow> byte list" and append_bytes :: "'f \<Rightarrow> byte list \<Rightarrow> Status \<times> 'f"
    and flush :: "'f \<Rightarrow> Status \<times> 'f" and idle :: "'f \<Rightarrow> bool" +
  fixes good :: "'f \<Rightarrow> bool"
  assumes good_append: "good f \<Longrightarrow> \<exists>f'. append_bytes f bs = (OK, f') \<and> good f'"
    and good_flush: "good f \<Longrightarrow> \<exists>f'. flush f = (OK, f') \<and> good f'"
begin

lemma Emit_succeeds:
  assumes "good (wr_dest w)"
  shows "\<exists>w'. EmitPhysicalRecord append_bytes flush t p w = (OK, w') \<and> good (wr_dest w')"
proof -
  let ?h = "EncodeFixed32 (Crc_Mask (Crc_Extend 0 (wr_type_crc w ! RecordType_num t) p)) @
      [of_nat (length p) AND 0xFF, of_nat (length p div 256), of_nat (RecordType_num t)]"
  obtain d1 where d1: "append_bytes (wr_dest w) ?h = (OK, d1)" "good d1" using good_append [OF assms] by blast
  obtain d2 where d2: "append_bytes d1 p = (OK, d2)" "good d2" using good_append [OF d1(2)] by blast
  obtain d3 where d3: "flush d2 = (OK, d3)" "good d3" using good_flush [OF d2(2)] by blast
  show ?thesis unfolding EmitPhysicalRecord_def Let_def d1(1) prod.case Status_ok_def d2(1) d3(1) simp_thms if_True
    using d3(2) by simp
qed

lemma add_loop_succeeds:
  assumes "good (wr_dest w)"
  shows "\<exists>w'. add_loop append_bytes flush b data w = (OK, w') \<and> good (wr_dest w')"
  using assms
proof (induction "2 * length data + of_bool (wr_block_offset w = kBlockSize - kHeaderSize)" arbitrary: b data w
    rule: less_induct)
  case less
  define w1 where "w1 = switch_block append_bytes w"
  define avail where "avail = kBlockSize - wr_block_offset w1 - kHeaderSize"
  define n where "n = (if length data < avail then length data else avail)"
  have "good (wr_dest w1)" using less.prems good_append [OF less.prems, of "replicate (kBlockSize - wr_block_offset w) 0"]
    by (auto simp: w1_def switch_block_def Let_def)
  from Emit_succeeds [OF this] obtain w2 where
    emit: "EmitPhysicalRecord append_bytes flush (fragment_type b (length data = n)) (take n data) w1 = (OK, w2)"
      "good (wr_dest w2)" by blast
  have loop: "add_loop append_bytes flush b data w =
      (if drop n data \<noteq> [] then add_loop append_bytes flush False (drop n data) w2 else (OK, w2))"
    using emit unfolding add_loop.simps [of _ _ b data w] w1_def [symmetric] Let_def avail_def [symmetric] n_def [symmetric]
    by (simp add: Status_ok_def)
  show ?case
  proof (cases "drop n data = []")
    case False
    have "2 * (length data - n) + of_bool (wr_block_offset w2 = kBlockSize - kHeaderSize)
        < 2 * length data + of_bool (wr_block_offset w = kBlockSize - kHeaderSize)"
      using False wr_block_offset_Emit [OF emit(1)]
      by (intro add_loop_measure) (auto simp: n_def avail_def w1_def Let_def)
    from less.hyps [of "drop n data" w2, OF _ emit(2)] this loop False show ?thesis by simp
  qed (use loop emit(2) in simp)
qed

lemma add_records_succeeds:
  "good (wr_dest w) \<Longrightarrow> \<exists>w'. add_records append_bytes flush rs w = (OK, w') \<and> good (wr_dest w')"
proof (induction rs arbitrary: w)
  case (Cons r rs)
  from add_loop_succeeds [OF Cons.prems, of True r] Cons.IH show ?case by (fastforce simp: AddRecord_def Status_ok_def)
qed simp

end

interpretation posix_reliable: reliable_log "\<lambda>w. os_data (pf_os w) @ pf_buf w" "\<lambda>w. os_data (pf_os w)" Posix_Append
    Posix_Flush "\<lambda>w. pf_buf w = []" "\<lambda>w. plan_good (pf_os w)"
  by unfold_locales (simp_all add: Posix_Append_good FlushBuffer_good Posix_Flush_def)

section \<open>The reader\<close>

text \<open>A client reads the log until \<^verbatim>\<open>ReadRecord\<close> returns false.\<close>

partial_function (option) read_all :: "'f skip_op \<Rightarrow> 'f read_op \<Rightarrow> 'f Reader \<Rightarrow> (byte list list \<times> 'f Reader) option" where
  [code]: "read_all skip read_bytes r =
     do {
       (x, r') \<leftarrow> ReadRecord skip read_bytes r;
       (case x of None \<Rightarrow> Some ([], r')
        | Some d \<Rightarrow> do { (ds, r'') \<leftarrow> read_all skip read_bytes r'; Some (d # ds, r'') })
     }"

lemma mask_byte: "(0xFF :: 'a :: len word) = mask 8" by (simp add: mask_eq_exp_minus_1)

lemma bit_high: assumes "n < 65536" "16 \<le> k" shows "\<not> bit (n::nat) k"
proof -
  have "n < 2 ^ k" using assms power_increasing [of 16 k "2::nat"] by simp
  then show ?thesis by (simp add: bit_iff_odd)
qed

lemma bit_word_of_nat: "bit (of_nat n :: 'a::len word) k \<longleftrightarrow> k < LENGTH('a) \<and> bit n k"
  by transfer (simp add: bit_take_bit_iff bit_of_nat_iff)

lemma u32_of_bytes:
  assumes "n < 65536"
  shows "(ucast (of_nat n AND 0xFF :: byte) AND 0xFF) OR push_bit 8 (ucast (of_nat (n div 256) :: byte) AND 0xFF) = (of_nat n :: u32)"
proof (rule bit_word_eqI)
  fix k assume k: "k < LENGTH(32)"
  have div: "bit (n div 256) (k - 8) = bit n k" if "8 \<le> k"
  proof -
    have "n div 256 = drop_bit 8 n" by (simp add: drop_bit_eq_div)
    with that show ?thesis by (simp add: bit_drop_bit_eq)
  qed
  show "bit ((ucast (of_nat n AND 0xFF :: byte) AND 0xFF) OR push_bit 8 (ucast (of_nat (n div 256) :: byte) AND 0xFF) :: u32) k
      = bit (of_nat n :: u32) k"
    using k bit_high [OF assms, of k] div unfolding mask_byte
    by (cases "k < 8"; cases "k < 16") (simp_all add: bit_or_iff bit_and_iff bit_push_bit_iff bit_mask_iff bit_ucast_iff bit_word_of_nat, linarith)
qed
lemma scast_eq_0: "scast (t::byte) = (0::u32) \<longleftrightarrow> t = 0"
proof
  assume "scast t = (0::u32)"
  then have "bit (scast t :: u32) k = False" for k by simp
  then have "\<not> bit t k" if "k < 8" for k using that by (auto simp: bit_word_scast_iff dest!: spec [of _ k] meta_spec [of _ k])
  then show "t = 0" by (intro bit_word_eqI) simp
qed simp
lemma parse_header_phys:
  assumes "take kHeaderSize b = take kHeaderSize (phys t p)" and "length p < 65536"
  shows "parse_header b = (length p, scast t)"
proof -
  have nth: "b ! i = phys t p ! i" if "i < 7" for i
    using arg_cong [OF assms(1), of "\<lambda>xs. xs ! i"] that by (simp add: kHeaderSize_def)
  have "phys t p ! 4 = of_nat (length p) AND 0xFF" "phys t p ! 5 = of_nat (length p div 256)" "phys t p ! 6 = t"
    by (simp_all add: phys_def nth_append)
  with nth u32_of_bytes [OF assms(2)] assms(2) show ?thesis
    by (simp add: parse_header_def Let_def unat_of_nat take_bit_nat_eq_self)
qed

lemma DecodeFixed32_phys: "DecodeFixed32 (phys t p @ rest) = Crc_Mask (Crc_Value 0 (t # p))"
  by (simp add: phys_def)

lemma drop_6_phys: "take (1 + length p) (drop 6 (phys t p @ rest)) = t # p"
  by (simp add: phys_def)

lemma drop_7_phys: "take (length p) (drop kHeaderSize (phys t p @ rest)) = p"
  by (simp add: phys_def kHeaderSize_def)

lemma scast_type_byte: "scast (type_byte t) = (of_nat (RecordType_num t) :: u32)"
  by (cases t) (simp_all add: type_byte_def)

lemma parse_physical_phys:
  assumes b: "rd_buffer r = phys t p @ Z" and len: "length p < 65536" and "t \<noteq> 0" and "rd_initial_offset r = 0"
  shows "parse_physical result r = (scast t, p, r\<lparr>rd_buffer := Z\<rparr>)"
proof -
  have hdr: "parse_header (phys t p @ Z) = (length p, scast t)" using len by (intro parse_header_phys) simp_all
  have "scast t \<noteq> (of_nat (RecordType_num kZeroType) :: u32)" using assms(3) by (simp add: scast_eq_0)
  moreover have "Crc_Value 0 (take (1 + length p) (drop 6 (phys t p @ Z))) = Crc_Unmask (DecodeFixed32 (phys t p @ Z))"
    by (simp only: drop_6_phys DecodeFixed32_phys crc32c_mask_roundtrip)
  moreover have "drop (kHeaderSize + length p) (phys t p @ Z) = Z" by simp
  ultimately show ?thesis unfolding parse_physical_def b Let_def hdr
    using assms(4) by (simp add: drop_7_phys Slice_remove_prefix_def del: drop_append take_append)
qed

definition frag_vars :: "bool \<Rightarrow> byte list \<Rightarrow> loop_vars \<Rightarrow> bool" where
  "frag_vars b acc v \<longleftrightarrow> lv_in_fragmented_record v = (\<not> b) \<and> (if b then acc = [] else lv_scratch v = acc)"

lemma dispatch_fragment:
  assumes "frag_vars b acc v"
  shows "\<exists>x. dispatch (of_nat (RecordType_num (fragment_type b True))) o' (v\<lparr>lv_fragment := p\<rparr>) r =
      Inr (Some (acc @ p), r\<lparr>rd_last_record_offset := x\<rparr>)" (is ?last)
    and "\<exists>v'. dispatch (of_nat (RecordType_num (fragment_type b False))) o' (v\<lparr>lv_fragment := p\<rparr>) r = Inl (v', r) \<and>
      frag_vars False (acc @ p) v'" (is ?more)
    and "dispatch kEof o' (v\<lparr>lv_fragment := p\<rparr>) r = Inr (None, r)"
proof -
  show ?last using assms
    by (cases b; simp add: dispatch_def frag_vars_def fragment_type_def report_partial_def Let_def; blast)
  show ?more using assms
    by (cases b) (simp_all add: dispatch_def frag_vars_def fragment_type_def report_partial_def Let_def)
  show "dispatch kEof o' (v\<lparr>lv_fragment := p\<rparr>) r = Inr (None, r)"
    by (simp add: dispatch_def kEof_def kMaxRecordType_def Let_def)
qed

lemma type_byte_fragment: "type_byte (fragment_type b e) \<noteq> 0"
  by (simp add: type_byte_def fragment_type_def)

lemma frag_vars_init: "frag_vars True [] loop_vars_init"
  by (simp add: frag_vars_def loop_vars_init_def)

context sequential_file
begin

text \<open>The reader stands at offset \<open>off\<close> of a block with the bytes \<open>D\<close> before it.\<close>

definition at_pos :: "nat \<Rightarrow> byte list \<Rightarrow> 'f Reader \<Rightarrow> bool" where
  "at_pos off D r \<longleftrightarrow> rd_buffer r @ rest (rd_file r) = D \<and> full (rd_file r) \<and> off \<le> kBlockSize \<and>
     length (rd_buffer r) \<le> kBlockSize - off \<and>
     (if rd_eof r then rest (rd_file r) = [] else length (rd_buffer r) = kBlockSize - off) \<and>
     rd_initial_offset r = 0 \<and> \<not> rd_resyncing r"

lemma refill:
  assumes "at_pos off D r" and "length (rd_buffer r) < kHeaderSize" and "\<not> rd_eof r"
  obtains r' where "ReadPhysicalRecord read_bytes result r = ReadPhysicalRecord read_bytes result r'"
    "at_pos 0 (drop (kBlockSize - off) D) r'" "rd_eof r' \<or> kHeaderSize \<le> length (rd_buffer r')"
    "rd_reports r' = rd_reports r"
proof -
  let ?rest = "rest (rd_file r)"
  obtain f' where f': "read_bytes kBlockSize (rd_file r) = (OK, take kBlockSize ?rest, f')" "full f'"
    using read_full assms(1) by (auto simp: at_pos_def)
  then have rest: "?rest = take kBlockSize ?rest @ rest f'" using read_rest by blast
  define r1 where "r1 = r\<lparr>rd_file := f', rd_buffer := take kBlockSize ?rest,
      rd_end_of_buffer_offset := rd_end_of_buffer_offset r + of_nat (length (take kBlockSize ?rest))\<rparr>"
  define r' where "r' = (if length (take kBlockSize ?rest) < kBlockSize then r1\<lparr>rd_eof := True\<rparr> else r1)"
  have "ReadPhysicalRecord read_bytes result r = ReadPhysicalRecord read_bytes result r'"
    unfolding r'_def r1_def using assms(2,3) f'(1) by (subst ReadPhysicalRecord.simps) (simp add: Let_def Status_ok_def)
  moreover have "D = rd_buffer r @ ?rest" "length (rd_buffer r) = kBlockSize - off" using assms by (auto simp: at_pos_def)
  with assms rest f'(2) have "at_pos 0 (drop (kBlockSize - off) D) r'"
    by (auto simp: at_pos_def r'_def r1_def)
  moreover have "rd_eof r' \<or> kHeaderSize \<le> length (rd_buffer r')" by (auto simp: r'_def r1_def log_sizes)
  moreover have "rd_reports r' = rd_reports r" by (simp add: r'_def r1_def)
  ultimately show thesis by (rule that)
qed

lemma parse_aligned:
  assumes pos: "at_pos off (take m (phys t p @ X)) r" and fits: "off + kHeaderSize + length p \<le> kBlockSize"
    and t: "t \<noteq> 0" and ready: "rd_eof r \<or> kHeaderSize \<le> length (rd_buffer r)"
  shows "\<exists>r'. rd_reports r' = rd_reports r \<and>
    (if kHeaderSize + length p \<le> m
     then ReadPhysicalRecord read_bytes result r = (scast t, p, r') \<and>
       at_pos (off + kHeaderSize + length p) (take (m - (kHeaderSize + length p)) X) r'
     else ReadPhysicalRecord read_bytes result r = (kEof, result, r') \<and> at_pos kBlockSize [] r')"
proof -
  let ?b = "rd_buffer r" and ?k = "kHeaderSize + length p"
  have len: "length p < 65536" using fits by (simp add: log_sizes)
  have D: "?b @ rest (rd_file r) = take m (phys t p @ X)" using pos by (simp add: at_pos_def)
  show ?thesis
  proof (cases "?k \<le> m")
    case True
    have "?k \<le> length ?b"
    proof (cases "rd_eof r")
      case eof: True
      then have "?b = take m (phys t p @ X)" using pos by (auto simp: at_pos_def)
      with True show ?thesis by simp
    next
      case False
      then show ?thesis using pos fits by (auto simp: at_pos_def)
    qed
    then have "take ?k ?b = phys t p" using arg_cong [OF D, of "take ?k"] True by (simp add: min_def)
    then obtain Z where Z: "?b = phys t p @ Z" by (metis append_take_drop_id)
    define r' where "r' = r\<lparr>rd_buffer := Z\<rparr>"
    have "ReadPhysicalRecord read_bytes result r = (scast t, p, r')"
      using pos Z parse_physical_phys [OF Z len t, of result]
      by (subst ReadPhysicalRecord.simps) (simp add: at_pos_def r'_def)
    moreover have "Z @ rest (rd_file r) = take (m - ?k) X" using D Z True by simp
    then have "at_pos (off + kHeaderSize + length p) (take (m - ?k) X) r'"
      using pos Z fits by (auto simp: at_pos_def r'_def)
    ultimately show ?thesis using True by (auto simp: r'_def)
  next
    case False
    have "length (?b @ rest (rd_file r)) \<le> m" by (simp add: D)
    moreover have "kBlockSize - off \<le> length ?b" if "\<not> rd_eof r" using pos that by (simp add: at_pos_def)
    ultimately have eof: "rd_eof r" using False fits by fastforce
    then have "?b = take m (phys t p @ X)" using pos D by (auto simp: at_pos_def)
    with False have b: "?b = take m (phys t p)" by simp
    define r' where "r' = r\<lparr>rd_buffer := []\<rparr>"
    have "ReadPhysicalRecord read_bytes result r = (kEof, result, r')"
    proof (cases "m < kHeaderSize")
      case True
      with b eof show ?thesis by (subst ReadPhysicalRecord.simps) (simp add: r'_def)
    next
      case m: False
      then have "parse_header ?b = (length p, scast t)" using b len by (intro parse_header_phys) (simp_all add: min_def)
      with m False b eof show ?thesis
        by (subst ReadPhysicalRecord.simps) (simp add: r'_def parse_physical_def Let_def)
    qed
    moreover have "at_pos kBlockSize [] r'" using pos eof by (auto simp: at_pos_def r'_def)
    ultimately show ?thesis using False by (auto simp: r'_def)
  qed
qed

lemma read_phys:
  assumes pos: "at_pos off (take m (trailer off @ phys t p @ X)) r" and fits: "start off + kHeaderSize + length p \<le> kBlockSize"
    and t: "t \<noteq> 0"
  shows "\<exists>r'. rd_reports r' = rd_reports r \<and>
    (if length (trailer off) + kHeaderSize + length p \<le> m
     then ReadPhysicalRecord read_bytes result r = (scast t, p, r') \<and>
       at_pos (start off + kHeaderSize + length p) (take (m - (length (trailer off) + kHeaderSize + length p)) X) r'
     else ReadPhysicalRecord read_bytes result r = (kEof, result, r') \<and> at_pos kBlockSize [] r')"
proof (cases "rd_eof r \<or> kHeaderSize \<le> length (rd_buffer r)")
  case True
  show ?thesis
  proof (cases "kBlockSize - off < kHeaderSize")
    case False
    then have tr: "trailer off = []" "start off = off" by (simp_all add: trailer_def start_def)
    then have "at_pos off (take m (phys t p @ X)) r" "off + kHeaderSize + length p \<le> kBlockSize" using pos fits by simp_all
    from parse_aligned [OF this t True] show ?thesis by (simp only: tr list.size add_0)
  next
    case off: True
    then have l: "length (trailer off) = kBlockSize - off" by (simp add: trailer_def)
    have b: "length (rd_buffer r) \<le> kBlockSize - off" using pos by (simp add: at_pos_def)
    with True off have eof: "rd_eof r" by linarith
    have "length (take m (trailer off @ phys t p @ X)) = length (rd_buffer r)" using pos eof by (auto simp: at_pos_def)
    with b l have m: "m \<le> length (trailer off)" by (simp add: kHeaderSize_def min_def split: if_splits)
    have "ReadPhysicalRecord read_bytes result r = (kEof, result, r\<lparr>rd_buffer := []\<rparr>)"
      using eof b off by (subst ReadPhysicalRecord.simps) simp
    moreover have "at_pos kBlockSize [] (r\<lparr>rd_buffer := []\<rparr>)" using pos eof by (auto simp: at_pos_def)
    ultimately show ?thesis using m by (auto simp: kHeaderSize_def intro!: exI [of _ "r\<lparr>rd_buffer := []\<rparr>"])
  qed
next
  case False
  then have eof: "\<not> rd_eof r" and b: "length (rd_buffer r) < kHeaderSize" by auto
  then have off: "kBlockSize - off < kHeaderSize" using pos by (simp add: at_pos_def)
  then have l: "length (trailer off) = kBlockSize - off" "start off = 0" by (simp_all add: trailer_def start_def)
  obtain r' where r': "ReadPhysicalRecord read_bytes result r = ReadPhysicalRecord read_bytes result r'"
    "at_pos 0 (drop (kBlockSize - off) (take m (trailer off @ phys t p @ X))) r'"
    "rd_eof r' \<or> kHeaderSize \<le> length (rd_buffer r')" "rd_reports r' = rd_reports r"
    using refill [OF pos b eof] by blast
  have m: "length (trailer off) \<le> m"
  proof -
    have "length (rd_buffer r) \<le> length (take m (trailer off @ phys t p @ X))"
      using pos by (auto simp: at_pos_def dest!: arg_cong [where f = length])
    also have "\<dots> \<le> m" by (simp only: length_take min.cobounded2)
    finally show ?thesis using pos eof l by (simp add: at_pos_def)
  qed
  then have "drop (kBlockSize - off) (take m (trailer off @ phys t p @ X)) = take (m - length (trailer off)) (phys t p @ X)"
    using l by (simp add: take_drop drop_take)
  with r'(2) have "at_pos 0 (take (m - length (trailer off)) (phys t p @ X)) r'" by (simp only:)
  moreover have "0 + kHeaderSize + length p \<le> kBlockSize" using fits l(2) by simp
  ultimately obtain r'' where "rd_reports r'' = rd_reports r'"
    "if kHeaderSize + length p \<le> m - length (trailer off)
     then ReadPhysicalRecord read_bytes result r' = (scast t, p, r'') \<and>
       at_pos (0 + kHeaderSize + length p) (take (m - length (trailer off) - (kHeaderSize + length p)) X) r''
     else ReadPhysicalRecord read_bytes result r' = (kEof, result, r'') \<and> at_pos kBlockSize [] r''"
    using parse_aligned [OF _ _ t r'(3)] by blast
  moreover have "kHeaderSize + length p \<le> m - length (trailer off) \<longleftrightarrow> length (trailer off) + kHeaderSize + length p \<le> m"
    "m - length (trailer off) - (kHeaderSize + length p) = m - (length (trailer off) + kHeaderSize + length p)"
    using m by auto
  ultimately show ?thesis unfolding r'(1) using r'(4) l(2) by (intro exI [of _ r'']) (simp only: simp_thms)
qed

lemma loop_unfold:
  assumes "ReadPhysicalRecord read_bytes (lv_fragment v) r = (t, p, r')" and "\<not> rd_resyncing r'"
  shows "read_record_loop read_bytes v r =
    (case dispatch t (rd_end_of_buffer_offset r' - of_nat (length (rd_buffer r')) - of_nat kHeaderSize - of_nat (length p))
            (v\<lparr>lv_fragment := p\<rparr>) r' of
       Inl (v', r'') \<Rightarrow> read_record_loop read_bytes v' r'' | Inr result \<Rightarrow> Some result)"
  by (subst read_record_loop.simps) (simp add: read_record_step_def assms Let_def)

lemma at_pos_last_offset [simp]: "at_pos off D (r\<lparr>rd_last_record_offset := x\<rparr>) = at_pos off D r"
  by (simp add: at_pos_def)

lemma read_laid_out:
  assumes "laid_out off b data bs off'" and "at_pos off (take m (bs @ X)) r" and "frag_vars b acc v"
  shows "\<exists>r'. rd_reports r' = rd_reports r \<and>
    (if length bs \<le> m then read_record_loop read_bytes v r = Some (Some (acc @ data), r') \<and> at_pos off' (take (m - length bs) X) r'
     else read_record_loop read_bytes v r = Some (None, r') \<and> at_pos kBlockSize [] r')"
  using assms
proof (induction arbitrary: m r acc v rule: laid_out.induct)
  case (last off p b)
  let ?n = "length (trailer off) + kHeaderSize + length p"
  obtain r' where r': "rd_reports r' = rd_reports r"
    "if ?n \<le> m then ReadPhysicalRecord read_bytes (lv_fragment v) r = (scast (type_byte (fragment_type b True)), p, r') \<and>
       at_pos (start off + kHeaderSize + length p) (take (m - ?n) X) r'
     else ReadPhysicalRecord read_bytes (lv_fragment v) r = (kEof, lv_fragment v, r') \<and> at_pos kBlockSize [] r'"
    using read_phys [of off m "type_byte (fragment_type b True)" p X r "lv_fragment v"] last type_byte_fragment
    by (simp split del: if_split) blast
  then have "\<not> rd_resyncing r'" by (simp add: at_pos_def split: if_splits)
  note loop = loop_unfold [of v r _ _ r', OF _ this] and d = dispatch_fragment [OF last.prems(2)]
  show ?case
  proof (cases "?n \<le> m")
    case True
    with r'(2) have "ReadPhysicalRecord read_bytes (lv_fragment v) r = (of_nat (RecordType_num (fragment_type b True)), p, r')"
      by (simp add: scast_type_byte)
    from loop [OF this] d(1) [of "rd_end_of_buffer_offset r' - of_nat (length (rd_buffer r')) - of_nat kHeaderSize - of_nat (length p)" p r'] obtain x where
      "read_record_loop read_bytes v r = Some (Some (acc @ p), r'\<lparr>rd_last_record_offset := x\<rparr>)" by force
    then show ?thesis using True r' by (intro exI [of _ "r'\<lparr>rd_last_record_offset := x\<rparr>"]) (simp add: add.assoc)
  next
    case False
    with r'(2) have "ReadPhysicalRecord read_bytes (lv_fragment v) r = (kEof, lv_fragment v, r')" by simp
    from loop [OF this] have "read_record_loop read_bytes v r = Some (None, r')" by (simp only: d(3) sum.case)
    then show ?thesis using False r' by (intro exI [of _ r']) (simp add: add.assoc)
  qed
next
  case (more off p q bs off' b)
  let ?n = "length (trailer off) + kHeaderSize + length p"
  obtain r' where r': "rd_reports r' = rd_reports r"
    "if ?n \<le> m then ReadPhysicalRecord read_bytes (lv_fragment v) r = (scast (type_byte (fragment_type b False)), p, r') \<and>
       at_pos (start off + kHeaderSize + length p) (take (m - ?n) (bs @ X)) r'
     else ReadPhysicalRecord read_bytes (lv_fragment v) r = (kEof, lv_fragment v, r') \<and> at_pos kBlockSize [] r'"
    using read_phys [of off m "type_byte (fragment_type b False)" p "bs @ X" r "lv_fragment v"] more.hyps(1) more.prems(1) type_byte_fragment
    by (simp split del: if_split) blast
  then have "\<not> rd_resyncing r'" by (simp add: at_pos_def split: if_splits)
  note loop = loop_unfold [of v r _ _ r', OF _ this] and d = dispatch_fragment [OF more.prems(2)]
  show ?case
  proof (cases "?n \<le> m")
    case True
    with r'(2) have "ReadPhysicalRecord read_bytes (lv_fragment v) r = (of_nat (RecordType_num (fragment_type b False)), p, r')"
      by (simp add: scast_type_byte)
    from loop [OF this] d(2) [of "rd_end_of_buffer_offset r' - of_nat (length (rd_buffer r')) - of_nat kHeaderSize - of_nat (length p)" p r'] obtain v' where
      v': "read_record_loop read_bytes v r = read_record_loop read_bytes v' r'" "frag_vars False (acc @ p) v'" by force
    let ?l = "length (trailer off @ phys (type_byte (fragment_type b False)) p @ bs)"
    have l: "?l = ?n + length bs" by simp
    from r'(2) True have "at_pos (start off + kHeaderSize + length p) (take (m - ?n) (bs @ X)) r'" by simp
    from more.IH [OF this v'(2)] obtain r'' where r'': "rd_reports r'' = rd_reports r'"
      "if length bs \<le> m - ?n then read_record_loop read_bytes v' r' = Some (Some ((acc @ p) @ q), r'') \<and>
         at_pos off' (take (m - ?n - length bs) X) r''
       else read_record_loop read_bytes v' r' = Some (None, r'') \<and> at_pos kBlockSize [] r''" by blast
    moreover have "length bs \<le> m - ?n \<longleftrightarrow> ?l \<le> m" "m - ?n - length bs = m - ?l" using True unfolding l by auto
    ultimately show ?thesis using r'(1) by (intro exI [of _ r'']) (simp only: v'(1) append.assoc simp_thms)
  next
    case False
    with r'(2) have "ReadPhysicalRecord read_bytes (lv_fragment v) r = (kEof, lv_fragment v, r')" by simp
    from loop [OF this] have "read_record_loop read_bytes v r = Some (None, r')" by (simp only: d(3) sum.case)
    then show ?thesis using False r' by (intro exI [of _ r']) (simp add: add.assoc)
  qed
qed

lemma read_at_end:
  assumes "at_pos off [] r"
  shows "\<exists>r'. rd_reports r' = rd_reports r \<and> read_record_loop read_bytes loop_vars_init r = Some (None, r')"
proof -
  have "start off + kHeaderSize + length [] \<le> kBlockSize" by (simp add: start_def log_sizes) arith
  from read_laid_out [OF laid_out.last [OF this, of True], of 0 "[]" r "[]" loop_vars_init] assms frag_vars_init
  show ?thesis by (auto simp: kHeaderSize_def)
qed

lemma ReadRecord_at_pos: "at_pos off D r \<Longrightarrow> ReadRecord skip read_bytes r = read_record_loop read_bytes loop_vars_init r"
  by (simp add: ReadRecord_def at_pos_def)

lemma read_all_end:
  assumes "at_pos off [] r"
  shows "\<exists>r'. read_all skip read_bytes r = Some ([], r') \<and> rd_reports r' = rd_reports r"
  using read_at_end [OF assms] by (subst read_all.simps) (auto simp: ReadRecord_at_pos [OF assms])

lemma read_all_record:
  assumes "laid_out off True data bs off1" and pos: "at_pos off (take m (bs @ X)) r"
  shows "\<exists>r1. rd_reports r1 = rd_reports r \<and>
    (if length bs \<le> m then at_pos off1 (take (m - length bs) X) r1 \<and>
       read_all skip read_bytes r = map_option (\<lambda>(ds, r'). (data # ds, r')) (read_all skip read_bytes r1)
     else read_all skip read_bytes r = Some ([], r1))"
proof -
  obtain r1 where r1: "rd_reports r1 = rd_reports r"
    "if length bs \<le> m then read_record_loop read_bytes loop_vars_init r = Some (Some ([] @ data), r1) \<and>
       at_pos off1 (take (m - length bs) X) r1
     else read_record_loop read_bytes loop_vars_init r = Some (None, r1) \<and> at_pos kBlockSize [] r1"
    using read_laid_out [OF assms frag_vars_init] by blast
  then show ?thesis
    by (intro exI [of _ r1], subst (1 3) read_all.simps)
      (auto simp: ReadRecord_at_pos [OF pos] map_option_case split: option.splits)
qed

lemma read_all_prefix:
  assumes "log_format off rs bs off'" and "at_pos off (take m (bs @ X)) r" and "length bs \<le> m"
  shows "\<exists>r1. rd_reports r1 = rd_reports r \<and> at_pos off' (take (m - length bs) X) r1 \<and>
    read_all skip read_bytes r = map_option (\<lambda>(ds, r'). (rs @ ds, r')) (read_all skip read_bytes r1)"
  using assms
proof (induction arbitrary: m r rule: log_format.induct)
  case (empty off)
  then show ?case by (auto simp: option.map_ident case_prod_eta intro!: exI [of _ r])
next
  case (cons off data bs off1 rs bs' off2)
  from read_all_record [OF cons.hyps(1), of m "bs' @ X" r skip] cons.prems obtain r1 where
    r1: "rd_reports r1 = rd_reports r" "at_pos off1 (take (m - length bs) (bs' @ X)) r1"
    "read_all skip read_bytes r = map_option (\<lambda>(ds, r'). (data # ds, r')) (read_all skip read_bytes r1)"
    by auto
  have "length bs' \<le> m - length bs" using cons.prems(2) by simp
  from cons.IH [OF r1(2) this] obtain r2 where "rd_reports r2 = rd_reports r1"
    "at_pos off2 (take (m - length bs - length bs') X) r2"
    "read_all skip read_bytes r1 = map_option (\<lambda>(ds, r'). (rs @ ds, r')) (read_all skip read_bytes r2)" by auto
  with r1 show ?case by (intro exI [of _ r2]) (auto simp: option.map_comp comp_def case_prod_beta)
qed

lemma read_all_format:
  assumes "log_format off rs bs off'" and "at_pos off (take m bs) r"
  shows "\<exists>k r'. read_all skip read_bytes r = Some (take k rs, r') \<and> rd_reports r' = rd_reports r \<and>
    (length bs \<le> m \<longrightarrow> take k rs = rs)"
  using assms
proof (induction arbitrary: m r rule: log_format.induct)
  case (empty off)
  then show ?case using read_all_end [of off r skip] by auto
next
  case (cons off data bs off1 rs bs' off2)
  obtain r1 where r1: "rd_reports r1 = rd_reports r"
    "if length bs \<le> m then at_pos off1 (take (m - length bs) bs') r1 \<and>
       read_all skip read_bytes r = map_option (\<lambda>(ds, r'). (data # ds, r')) (read_all skip read_bytes r1)
     else read_all skip read_bytes r = Some ([], r1)"
    using read_all_record [OF cons.hyps(1), of m bs' r skip] cons.prems by blast
  show ?case
  proof (cases "length bs \<le> m")
    case True
    with r1 cons.IH [of "m - length bs" r1] obtain k r' where "read_all skip read_bytes r = Some (take (Suc k) (data # rs), r')"
      "rd_reports r' = rd_reports r" "length bs' \<le> m - length bs \<longrightarrow> take k rs = rs" by auto
    with True show ?thesis by (intro exI [of _ "Suc k"] exI [of _ r']) auto
  next
    case False
    with r1 show ?thesis by (intro exI [of _ 0] exI [of _ r1]) auto
  qed
qed

text \<open>Every record, and every failed attempt, uses up bytes of the buffer or of the file.\<close>

definition left :: "'f Reader \<Rightarrow> nat" where
  "left r = length (rd_buffer r) + length (rest (rd_file r))"

lemma left_report [simp]: "left (ReportCorruption n s r) = left r" "left (ReportDrop n s' r) = left r"
  by (simp_all add: ReportCorruption_def ReportDrop_def left_def)

lemma left_parse:
  assumes "parse_physical result r = (t, p, r')" and "kHeaderSize \<le> length (rd_buffer r)"
  shows "left r' < left r"
proof -
  have "left (r\<lparr>rd_buffer := []\<rparr>) < left r" "left (r\<lparr>rd_buffer := drop (kHeaderSize + n) (rd_buffer r)\<rparr>) < left r" for n
    using assms(2) by (auto simp: left_def kHeaderSize_def)
  then show ?thesis using assms(1)
    by (auto simp: parse_physical_def Let_def Slice_remove_prefix_def split: prod.splits if_splits)
qed

lemma left_physical:
  assumes "ReadPhysicalRecord read_bytes result r = (t, p, r')"
  shows "left r' \<le> left r \<and> (t \<noteq> kEof \<longrightarrow> left r' < left r)"
  using assms
proof (induction "of_bool (length (rd_buffer r) < kHeaderSize \<and> \<not> rd_eof r) :: nat" arbitrary: r rule: less_induct)
  case less
  show ?case
  proof (cases "length (rd_buffer r) < kHeaderSize")
    case False
    then have "parse_physical result r = (t, p, r')" using less.prems by (subst (asm) ReadPhysicalRecord.simps) simp
    from left_parse [OF this] False show ?thesis by simp
  next
    case buf: True
    show ?thesis
    proof (cases "rd_eof r")
      case True
      with buf less.prems show ?thesis by (subst (asm) ReadPhysicalRecord.simps) (auto simp: left_def)
    next
      case eof: False
      obtain s bs f where rd: "read_bytes kBlockSize (rd_file r) = (s, bs, f)" by (metis surj_pair)
      define r1 where "r1 = r\<lparr>rd_file := f, rd_buffer := bs,
        rd_end_of_buffer_offset := rd_end_of_buffer_offset r + of_nat (length bs)\<rparr>"
      define r2 where "r2 = (if length bs < kBlockSize then r1\<lparr>rd_eof := True\<rparr> else r1)"
      have left: "left r2 \<le> left r" "left (r1\<lparr>rd_buffer := []\<rparr>) \<le> left r"
        using read_rest [OF rd] by (auto simp: left_def r1_def r2_def)
      show ?thesis
      proof (cases "Status_ok s")
        case True
        then have "ReadPhysicalRecord read_bytes result r2 = (t, p, r')"
          using less.prems buf eof rd by (subst (asm) ReadPhysicalRecord.simps) (simp add: Let_def r1_def r2_def split: if_splits)
        moreover have "\<not> (length (rd_buffer r2) < kHeaderSize \<and> \<not> rd_eof r2)" by (auto simp: r2_def r1_def log_sizes)
        ultimately have "left r' \<le> left r2 \<and> (t \<noteq> kEof \<longrightarrow> left r' < left r2)"
          using less.hyps [of r2] buf eof by simp
        with left(1) show ?thesis by auto
      next
        case False
        then have "r' = (ReportDrop kBlockSize s (r1\<lparr>rd_buffer := []\<rparr>))\<lparr>rd_eof := True\<rparr>" "t = kEof"
          using less.prems buf eof rd by (subst (asm) ReadPhysicalRecord.simps, simp add: Let_def r1_def)+
        with left(2) show ?thesis using left_report(2) [of kBlockSize s "r1\<lparr>rd_buffer := []\<rparr>"] by (simp add: left_def)
      qed
    qed
  qed
qed

lemma left_update [simp]:
  "left (r\<lparr>rd_resyncing := b\<rparr>) = left r" "left (r\<lparr>rd_last_record_offset := x\<rparr>) = left r"
  "left (r\<lparr>rd_end_of_buffer_offset := x\<rparr>) = left r"
  by (simp_all add: left_def)

lemma left_dispatch:
  "dispatch t o' v r = Inl (v', r') \<Longrightarrow> left r' = left r \<and> t \<noteq> kEof"
  "dispatch t o' v r = Inr (x, r') \<Longrightarrow> left r' = left r \<and> (x \<noteq> None \<longrightarrow> t \<noteq> kEof)"
  by (auto simp: dispatch_def report_partial_def Let_def kEof_def kMaxRecordType_def split: if_splits)

lemma left_step:
  "read_record_step read_bytes v r = Inl (v', r') \<Longrightarrow> left r' < left r"
  "read_record_step read_bytes v r = Inr (x, r') \<Longrightarrow> left r' \<le> left r \<and> (x \<noteq> None \<longrightarrow> left r' < left r)"
proof -
  obtain t p r1 where phys: "ReadPhysicalRecord read_bytes (lv_fragment v) r = (t, p, r1)" by (metis surj_pair)
  note l = left_physical [OF phys]
  have kEof: "of_nat (RecordType_num kMiddleType) \<noteq> kEof" "of_nat (RecordType_num kLastType) \<noteq> kEof"
    by (simp_all add: kEof_def kMaxRecordType_def)
  show "left r' < left r" if "read_record_step read_bytes v r = Inl (v', r')"
    using that l kEof by (auto simp: read_record_step_def phys Let_def dest!: left_dispatch(1) split: if_splits)
  show "left r' \<le> left r \<and> (x \<noteq> None \<longrightarrow> left r' < left r)" if "read_record_step read_bytes v r = Inr (x, r')"
    using that l by (auto simp: read_record_step_def phys Let_def dest!: left_dispatch(2) split: if_splits)
qed

lemma read_record_loop_total:
  "\<exists>x r'. read_record_loop read_bytes v r = Some (x, r') \<and> left r' \<le> left r \<and> (x \<noteq> None \<longrightarrow> left r' < left r)"
proof (induction "left r" arbitrary: v r rule: less_induct)
  case less
  show ?case
  proof (cases "read_record_step read_bytes v r")
    case (Inl a)
    then obtain v1 r1 where s: "read_record_step read_bytes v r = Inl (v1, r1)" by (cases a) simp
    from less [OF left_step(1) [OF s], of v1] left_step(1) [OF s] show ?thesis
      by (subst read_record_loop.simps) (fastforce simp: s)
  next
    case (Inr b)
    then obtain x r1 where s: "read_record_step read_bytes v r = Inr (x, r1)" by (cases b) simp
    from left_step(2) [OF s] show ?thesis by (subst read_record_loop.simps) (auto simp: s)
  qed
qed

end

text \<open>
  A record is only returned if it starts at the initial offset or later, so the reader skips to the initial block before
  the first record alone.
\<close>

definition vars_ok :: "loop_vars \<Rightarrow> u64 \<Rightarrow> bool" where
  "vars_ok v initial \<longleftrightarrow> (lv_in_fragmented_record v \<longrightarrow> initial \<le> lv_prospective_record_offset v)"

definition starts_record :: "u32 \<Rightarrow> bool" where
  "starts_record t \<longleftrightarrow> t = of_nat (RecordType_num kFullType) \<or> t = of_nat (RecordType_num kFirstType)"

lemma report_frame [simp]:
  "rd_initial_offset (ReportDrop n s r) = rd_initial_offset r" "rd_initial_offset (ReportCorruption n c r) = rd_initial_offset r"
  "rd_initial_offset (report_partial c v r) = rd_initial_offset r"
  by (simp_all add: ReportDrop_def ReportCorruption_def report_partial_def)

lemma parse_physical_offset:
  assumes "parse_physical result r = (t, p, r')"
  shows "rd_initial_offset r' = rd_initial_offset r \<and> (starts_record t \<longrightarrow>
    rd_initial_offset r \<le> rd_end_of_buffer_offset r' - of_nat (length (rd_buffer r')) - of_nat kHeaderSize - of_nat (length p))"
proof -
  have bad: "\<not> starts_record kBadRecord" "\<not> starts_record kEof"
    by (simp_all add: starts_record_def kBadRecord_def kEof_def kMaxRecordType_def)
  have len: "kHeaderSize + n \<le> length (rd_buffer r) \<Longrightarrow> length (take n (drop kHeaderSize (rd_buffer r))) = n" for n by simp
  show ?thesis using assms bad
    by (auto simp: parse_physical_def Let_def not_less len split: prod.splits if_splits)
qed

lemma ReadPhysicalRecord_offset:
  "ReadPhysicalRecord rb result r = (t, p, r') \<Longrightarrow>
     rd_initial_offset r' = rd_initial_offset r \<and> (starts_record t \<longrightarrow>
       rd_initial_offset r \<le> rd_end_of_buffer_offset r' - of_nat (length (rd_buffer r')) - of_nat kHeaderSize - of_nat (length p))"
proof (induction rb result r rule: ReadPhysicalRecord.induct)
  case (1 rb result r)
  have eof: "\<not> starts_record kEof" by (simp add: starts_record_def kEof_def kMaxRecordType_def)
  show ?case
  proof (cases "length (rd_buffer r) < kHeaderSize")
    case False
    then show ?thesis using "1.prems" parse_physical_offset by (subst (asm) ReadPhysicalRecord.simps) simp
  next
    case buf: True
    show ?thesis
    proof (cases "rd_eof r")
      case True
      with buf "1.prems" eof show ?thesis by (subst (asm) ReadPhysicalRecord.simps) auto
    next
      case ne: False
      obtain s bs f where rd: "rb kBlockSize (rd_file r) = (s, bs, f)" by (metis surj_pair)
      show ?thesis
      proof (cases "Status_ok s")
        case True
        let ?r1 = "r\<lparr>rd_file := f, rd_buffer := bs, rd_end_of_buffer_offset := rd_end_of_buffer_offset r + of_nat (length bs)\<rparr>"
        have "ReadPhysicalRecord rb result (if length bs < kBlockSize then ?r1\<lparr>rd_eof := True\<rparr> else ?r1) = (t, p, r')"
          using True "1.prems" buf ne rd by (subst (asm) ReadPhysicalRecord.simps) (simp add: Let_def)
        from "1.IH" [OF buf ne rd [symmetric] refl refl _ this] True show ?thesis by (simp split: if_splits)
      next
        case False
        with "1.prems" buf ne rd eof show ?thesis by (subst (asm) ReadPhysicalRecord.simps) (auto simp: Let_def)
      qed
    qed
  qed
qed

lemma dispatch_offset:
  assumes "vars_ok v initial" "starts_record t \<longrightarrow> initial \<le> ofs" "rd_initial_offset r = initial"
  shows "dispatch t ofs v r = Inl (v', r') \<Longrightarrow> vars_ok v' initial \<and> rd_initial_offset r' = initial"
    and "dispatch t ofs v r = Inr (Some d, r') \<Longrightarrow> rd_initial_offset r' = initial \<and> initial \<le> rd_last_record_offset r'"
  using assms by (auto simp: dispatch_def Let_def vars_ok_def starts_record_def split: if_splits)

lemma step_offset:
  assumes "vars_ok v (rd_initial_offset r)"
  shows "read_record_step rb v r = Inl (v', r') \<Longrightarrow> vars_ok v' (rd_initial_offset r) \<and> rd_initial_offset r' = rd_initial_offset r"
    and "read_record_step rb v r = Inr (Some d, r') \<Longrightarrow> rd_initial_offset r' \<le> rd_last_record_offset r'"
proof -
  obtain t p r1 where phys: "ReadPhysicalRecord rb (lv_fragment v) r = (t, p, r1)" by (metis surj_pair)
  let ?v = "v\<lparr>lv_fragment := p\<rparr>"
    and ?o = "rd_end_of_buffer_offset r1 - of_nat (length (rd_buffer r1)) - of_nat kHeaderSize - of_nat (length p)"
  note o = ReadPhysicalRecord_offset [OF phys]
  have v: "vars_ok ?v (rd_initial_offset r)" using assms by (simp add: vars_ok_def)
  note d = dispatch_offset [OF v, of t ?o]
  show "vars_ok v' (rd_initial_offset r) \<and> rd_initial_offset r' = rd_initial_offset r" if "read_record_step rb v r = Inl (v', r')"
    using that d(1) [of r1 v' r'] d(1) [of "r1\<lparr>rd_resyncing := False\<rparr>" v' r'] o v
    by (auto simp: read_record_step_def phys Let_def split: if_splits)
  show "rd_initial_offset r' \<le> rd_last_record_offset r'" if "read_record_step rb v r = Inr (Some d, r')"
    using that d(2) [of r1 d r'] d(2) [of "r1\<lparr>rd_resyncing := False\<rparr>" d r'] o
    by (auto simp: read_record_step_def phys Let_def split: if_splits)
qed

context sequential_file
begin

lemma loop_offset:
  "vars_ok v (rd_initial_offset r) \<Longrightarrow> read_record_loop read_bytes v r = Some (Some d, r') \<Longrightarrow>
     rd_initial_offset r' \<le> rd_last_record_offset r'"
proof (induction "left r" arbitrary: v r rule: less_induct)
  case less
  show ?case
  proof (cases "read_record_step read_bytes v r")
    case (Inl a)
    then obtain v1 r1 where s: "read_record_step read_bytes v r = Inl (v1, r1)" by (cases a) simp
    have "read_record_loop read_bytes v1 r1 = Some (Some d, r')"
      using less.prems(2) by (subst (asm) read_record_loop.simps) (simp add: s)
    then show ?thesis using less.hyps [OF left_step(1) [OF s], of v1] step_offset(1) [OF less.prems(1) s] by simp
  next
    case (Inr b)
    then have "read_record_step read_bytes v r = Inr (Some d, r')"
      using less.prems(2) by (subst (asm) read_record_loop.simps) simp
    then show ?thesis by (rule step_offset(2) [OF less.prems(1)])
  qed
qed

lemma vars_ok_init: "vars_ok loop_vars_init initial"
  by (simp add: vars_ok_def loop_vars_init_def)

text \<open>Whatever skipping does to the file.\<close>

lemma ReadRecord_returns:
  "\<exists>x r'. ReadRecord skip read_bytes r = Some (x, r') \<and> (x \<noteq> None \<longrightarrow> rd_initial_offset r' \<le> rd_last_record_offset r')"
proof -
  obtain ok r1 where s: "(if rd_last_record_offset r < rd_initial_offset r then SkipToInitialBlock skip r else (True, r)) = (ok, r1)"
    by fastforce
  obtain x r' where l: "read_record_loop read_bytes loop_vars_init r1 = Some (x, r')" using read_record_loop_total by blast
  have "ReadRecord skip read_bytes r = (if ok then Some (x, r') else Some (None, r1))"
    using s l by (auto simp: ReadRecord_def split: if_splits prod.splits)
  moreover have "x \<noteq> None \<longrightarrow> rd_initial_offset r' \<le> rd_last_record_offset r'" using loop_offset [OF vars_ok_init] l by (cases x) auto
  ultimately show ?thesis by (cases ok) auto
qed

lemma ReadRecord_uses:
  assumes "\<not> rd_last_record_offset r < rd_initial_offset r"
  shows "\<exists>x r'. ReadRecord skip read_bytes r = Some (x, r') \<and> (x \<noteq> None \<longrightarrow> left r' < left r)"
  using assms read_record_loop_total [of loop_vars_init r] by (auto simp: ReadRecord_def)

lemma read_all_later:
  "\<not> rd_last_record_offset r < rd_initial_offset r \<Longrightarrow> \<exists>ds r'. read_all skip read_bytes r = Some (ds, r')"
proof (induction "left r" arbitrary: r rule: less_induct)
  case less
  obtain x r1 where r1: "ReadRecord skip read_bytes r = Some (x, r1)" "x \<noteq> None \<longrightarrow> left r1 < left r"
    using ReadRecord_uses [OF less.prems] by blast
  have "x \<noteq> None \<longrightarrow> \<not> rd_last_record_offset r1 < rd_initial_offset r1" using ReadRecord_returns [of skip r] r1(1) by auto
  then show ?case using less.hyps [of r1] r1 by (subst read_all.simps) (cases x; fastforce)
qed

lemma read_all_total: "\<exists>ds r'. read_all skip read_bytes r = Some (ds, r')"
proof -
  obtain x r1 where r1: "ReadRecord skip read_bytes r = Some (x, r1)" "x \<noteq> None \<longrightarrow> rd_initial_offset r1 \<le> rd_last_record_offset r1"
    using ReadRecord_returns [of skip r] by blast
  show ?thesis
  proof (cases x)
    case None
    with r1(1) show ?thesis by (subst read_all.simps) simp
  next
    case (Some d)
    with r1(2) read_all_later [of r1 skip] obtain ds r' where "read_all skip read_bytes r1 = Some (ds, r')" by (auto simp: not_less)
    with r1(1) Some show ?thesis by (subst read_all.simps) simp
  qed
qed

end

text \<open>Skipping a distance that is positive as a signed number never gives a file more to read.\<close>

locale skippable_file = sequential_file rest full read_bytes
  for rest :: "'f \<Rightarrow> byte list" and full :: "'f \<Rightarrow> bool" and read_bytes :: "nat \<Rightarrow> 'f \<Rightarrow> Status \<times> byte list \<times> 'f" +
  fixes skip :: "u64 \<Rightarrow> 'f \<Rightarrow> Status \<times> 'f"
  assumes skip_rest: "skip n f = (s, f') \<Longrightarrow> unat n < 2 ^ 63 \<Longrightarrow> length (rest f') \<le> length (rest f)"
begin

lemma left_skip:
  assumes "SkipToInitialBlock skip r = (ok, r')" "unat (rd_initial_offset r) + kBlockSize < 2 ^ 63"
  shows "left r' \<le> left r"
proof -
  let ?o = "rd_initial_offset r mod of_nat kBlockSize"
  let ?b = "if ?o > of_nat (kBlockSize - 6) then rd_initial_offset r - ?o + of_nat kBlockSize else rd_initial_offset r - ?o"
  have "?o \<le> rd_initial_offset r" by (simp add: word_le_nat_alt unat_mod)
  then have "unat (rd_initial_offset r - ?o) \<le> unat (rd_initial_offset r)" by (simp add: unat_sub)
  moreover have "unat (x + of_nat kBlockSize :: u64) \<le> unat x + kBlockSize" for x
    using mod_less_eq_dividend [of "unat x + kBlockSize" "2 ^ 64"] by (simp add: unat_word_ariths kBlockSize_def)
  ultimately have b: "unat ?b < 2 ^ 63" using assms(2) by (smt (verit) add_le_mono1 le_less_trans le_add1)
  have *: "left (r\<lparr>rd_end_of_buffer_offset := x, rd_file := f\<rparr>) \<le> left r" if "skip ?b (rd_file r) = (s, f)" for s f x
    using skip_rest [OF that b] by (simp add: left_def)
  show ?thesis using assms(1) *
    by (auto simp: SkipToInitialBlock_def Let_def split: if_splits prod.splits)
qed

lemma ReadRecord_total:
  "\<exists>x r'. ReadRecord skip read_bytes r = Some (x, r') \<and>
     (x = None \<or> rd_last_record_offset r < rd_initial_offset r \<and> 2 ^ 63 \<le> unat (rd_initial_offset r) + kBlockSize \<or> left r' < left r)"
proof (cases "rd_last_record_offset r < rd_initial_offset r")
  case True
  obtain ok r1 where s: "SkipToInitialBlock skip r = (ok, r1)" by fastforce
  from read_record_loop_total [of loop_vars_init r1] left_skip [OF s] True s show ?thesis
    by (cases ok) (fastforce simp: ReadRecord_def)+
next
  case False
  then show ?thesis using ReadRecord_uses [of r skip] by auto
qed

end

lemma os_seek_rest: "length (os_before f) \<le> k \<Longrightarrow> length (os_data (os_seek k f)) \<le> length (os_data f)"
  by (simp add: os_seek_def Let_def)

lemma Posix_Skip_rest:
  assumes "Posix_Skip n f = (s, f')" "unat n < 2 ^ 63"
  shows "length (os_data f') \<le> length (os_data f)"
proof (cases "\<exists>e plan. os_plan f = Errno e # plan")
  case True
  with assms(1) show ?thesis by (auto simp: Posix_Skip_def)
next
  case False
  define position where "position = int (length (os_before f) + os_gap f) + sint n"
  define f1 where "f1 = f\<lparr>os_plan := tl (os_plan f)\<rparr>"
  have "int (unat n) < int (2 ^ 63)" using assms(2) unfolding of_nat_less_iff .
  then have u: "uint n < 2 ^ 63" by simp
  have z: "0 \<le> uint n" by simp
  have "signed_take_bit 63 (uint n) = uint n" by (rule signed_take_bit_int_eq_self) (use u z in linarith)+
  then have "0 \<le> sint n" using z by (simp add: sint_uint)
  then have le: "length (os_before f1) \<le> nat position" by (simp add: position_def f1_def)
  have "f' = f1 \<or> f' = os_seek (nat position) f1"
    using assms(1) False unfolding Posix_Skip_def Let_def position_def [symmetric] f1_def
    by (cases "os_plan f"; cases "hd (os_plan f)") (auto split: if_splits)
  moreover have "os_data f1 = os_data f" by (simp add: f1_def)
  ultimately show ?thesis using os_seek_rest [OF le] by auto
qed

interpretation posix_skip: skippable_file os_data plan_full Posix_Read Posix_Skip
  by unfold_locales (rule Posix_Skip_rest)

section \<open>The log on POSIX files\<close>

lemma log_reads_back:
  assumes "add_records Posix_Append Posix_Flush rs1 (Writer_init w0) = (OK, w1)"
    and "add_records Posix_Append Posix_Flush rs2 w1 = (OK, w2)"
    and "pf_buf w0 = []" "os_data (pf_os w0) = []"
    and "os_data f = take m (os_data (pf_os (wr_dest w2)))" "length (os_data (pf_os (wr_dest w1))) \<le> m" "plan_full f"
  shows "\<exists>k r. read_all Posix_Skip Posix_Read (Reader_init f reporter checksum 0) = Some (rs1 @ take k rs2, r) \<and>
    rd_reports r = [] \<and> (length (os_data (pf_os (wr_dest w2))) \<le> m \<longrightarrow> take k rs2 = rs2)"
proof -
  let ?r = "Reader_init f reporter checksum 0"
  obtain bs1 where bs1: "log_format 0 rs1 bs1 (wr_block_offset w1)" "os_data (pf_os (wr_dest w1)) @ pf_buf (wr_dest w1) = bs1"
    "posix_log.writer_ok w1" "wr_block_offset w1 \<le> kBlockSize"
    using posix_log.add_records_format [OF assms(1)] posix_log.Writer_init_ok [of w0] assms(3,4)
    by (auto simp: Writer_init_def)
  obtain bs2 where bs2: "log_format (wr_block_offset w1) rs2 bs2 (wr_block_offset w2)"
    "os_data (pf_os (wr_dest w2)) @ pf_buf (wr_dest w2) = bs1 @ bs2" "posix_log.writer_ok w2"
    using posix_log.add_records_format [OF assms(2) bs1(3,4)] bs1(2) by auto
  have data: "os_data (pf_os (wr_dest w1)) = bs1" "os_data (pf_os (wr_dest w2)) = bs1 @ bs2"
    using bs1(2,3) bs2(2,3) by (simp_all add: posix_log.writer_ok_def)
  have pos: "posix_seq.at_pos kBlockSize (take m (bs1 @ bs2)) ?r"
    using assms(5,7) by (simp add: posix_seq.at_pos_def Reader_init_def data(2))
  obtain o1 o2 where fmt: "log_format kBlockSize rs1 bs1 o1" "log_format o1 rs2 bs2 o2"
    using log_format_first_block [OF bs1(1)] log_format_first_block [of rs2 bs2] bs2(1) by metis
  obtain r1 where r1: "rd_reports r1 = rd_reports ?r" "posix_seq.at_pos o1 (take (m - length bs1) bs2) r1"
    "read_all Posix_Skip Posix_Read ?r = map_option (\<lambda>(ds, r'). (rs1 @ ds, r')) (read_all Posix_Skip Posix_Read r1)"
    using posix_seq.read_all_prefix [OF fmt(1) pos] assms(6) data(1) by auto
  obtain k r where k: "read_all Posix_Skip Posix_Read r1 = Some (take k rs2, r)" "rd_reports r = rd_reports r1"
    "length bs2 \<le> m - length bs1 \<longrightarrow> take k rs2 = rs2"
    using posix_seq.read_all_format [OF fmt(2) r1(2), of Posix_Skip] by blast
  with r1 have "read_all Posix_Skip Posix_Read ?r = Some (rs1 @ take k rs2, r)" "rd_reports r = []"
    by (simp_all add: Reader_init_def)
  moreover have "take k rs2 = rs2" if "length (os_data (pf_os (wr_dest w2))) \<le> m" using that k(3) by (simp add: data(2))
  ultimately show ?thesis by blast
qed

text \<open>C7. What was logged is recovered. When the records \<open>rs1\<close> and then \<open>rs2\<close> were added to an empty file, the writer
  reported success, and the file was cut off anywhere behind the bytes of \<open>rs1\<close> (a crash of the machine loses an end of
  the file), then the reader returns the records of \<open>rs1\<close>, followed by some of the first records of \<open>rs2\<close>, in order,
  whole and unchanged, then the end of the log, and reports no corruption; a log that was not cut off gives back all
  records. This holds for every outcome of the writes after which the writer reports success, short writes and interruptions
  included, and for records of any length, across blocks. The reads are full or interrupted: a short read before the end of
  the file or a read error, which the reader takes for the end of the log, is excluded by \<open>plan_full\<close>.\<close>

theorem log_recovery:
  assumes "add_records Posix_Append Posix_Flush rs1 (Writer_init w0) = (OK, w1)"
    and "add_records Posix_Append Posix_Flush rs2 w1 = (OK, w2)"
    and "pf_buf w0 = []" "os_data (pf_os w0) = []"
    and "os_data f = take m (os_data (pf_os (wr_dest w2)))" "length (os_data (pf_os (wr_dest w1))) \<le> m" "plan_full f"
  shows "\<exists>k r. read_all Posix_Skip Posix_Read (Reader_init f reporter checksum 0) = Some (rs1 @ take k rs2, r) \<and>
    rd_reports r = [] \<and> (length (os_data (pf_os (wr_dest w2))) \<le> m \<longrightarrow> take k rs2 = rs2)"
  using log_reads_back [OF assms] .

text \<open>A log of two records, one of them empty, written through a short and an interrupted write.\<close>

theorem log_recovery_witness:
  "\<exists>w1 w2 r. add_records Posix_Append Posix_Flush [[7]]
      (Writer_init \<lparr>pf_buf = [], pf_os = \<lparr>os_data = [], os_plan = [Transferred 3, Errno EINTR], os_name = ''log'',
         os_strerror = \<lambda>_. [], os_before = [], os_gap = 0, os_synced = 0, os_history = []\<rparr>\<rparr>) = (OK, w1) \<and>
    add_records Posix_Append Posix_Flush [[]] w1 = (OK, w2) \<and>
    read_all Posix_Skip Posix_Read (Reader_init \<lparr>os_data = os_data (pf_os (wr_dest w2)), os_plan = [Errno EINTR],
      os_name = ''log'', os_strerror = \<lambda>_. [], os_before = [], os_gap = 0, os_synced = 0, os_history = []\<rparr> True True 0) = Some ([[7], []], r) \<and> rd_reports r = []"
proof -
  let ?os = "\<lparr>os_data = [], os_plan = [Transferred 3, Errno EINTR], os_name = ''log'', os_strerror = \<lambda>_. [], os_before = [], os_gap = 0, os_synced = 0, os_history = []\<rparr> :: os_file"
  let ?w = "Writer_init \<lparr>pf_buf = [], pf_os = ?os\<rparr>"
  have "plan_good (pf_os (wr_dest ?w))" by (simp add: plan_good_def Writer_init_def)
  then obtain w1 where w1: "add_records Posix_Append Posix_Flush [[7]] ?w = (OK, w1)" "plan_good (pf_os (wr_dest w1))"
    using posix_reliable.add_records_succeeds by blast
  then obtain w2 where "add_records Posix_Append Posix_Flush [[]] w1 = (OK, w2)"
    using posix_reliable.add_records_succeeds by blast
  with w1(1) have w: "add_records Posix_Append Posix_Flush [[7]] ?w = (OK, w1)"
    "add_records Posix_Append Posix_Flush [[]] w1 = (OK, w2)" .
  let ?f = "\<lparr>os_data = os_data (pf_os (wr_dest w2)), os_plan = [Errno EINTR], os_name = ''log'', os_strerror = \<lambda>_. [], os_before = [], os_gap = 0, os_synced = 0, os_history = []\<rparr>"
  let ?m = "length (os_data (pf_os (wr_dest w1))) + length (os_data (pf_os (wr_dest w2)))"
  have "\<exists>k r. read_all Posix_Skip Posix_Read (Reader_init ?f True True 0) = Some ([[7]] @ take k [[]], r) \<and>
      rd_reports r = [] \<and> (length (os_data (pf_os (wr_dest w2))) \<le> ?m \<longrightarrow> take k [[]] = [[] :: byte list])"
    by (rule log_recovery [OF w]) (simp_all add: plan_full_def)
  then obtain r where "read_all Posix_Skip Posix_Read (Reader_init ?f True True 0) = Some ([[7], []], r)" "rd_reports r = []"
    by auto
  with w show ?thesis by blast
qed

text \<open>C31. The log reader returns on every file: whatever the bytes of the file, the state of the reader and the outcomes of the
  system calls are, \<^verbatim>\<open>ReadRecord\<close> returns a record or the end of the log, every record it returns uses up bytes, and
  reading the log to its end terminates. Only the first record after a skip by \<^verbatim>\<open>2^63\<close> bytes or more, which \<^verbatim>\<open>lseek\<close> takes for a
  step back, need not use up bytes; reading terminates then, too.\<close>

theorem log_reader_returns:
  "(\<exists>x r'. ReadRecord Posix_Skip Posix_Read r = Some (x, r') \<and>
      (x = None \<or> rd_last_record_offset r < rd_initial_offset r \<and> 2 ^ 63 \<le> unat (rd_initial_offset r) + kBlockSize \<or>
       length (rd_buffer r') + length (os_data (rd_file r')) < length (rd_buffer r) + length (os_data (rd_file r)))) \<and>
   (\<exists>ds r'. read_all Posix_Skip Posix_Read r = Some (ds, r'))"
  using posix_skip.ReadRecord_total [of r] posix_seq.read_all_total [of Posix_Skip r] unfolding posix_seq.left_def by blast

text \<open>A valid record with any type but zero at the start of a log, and how the loop goes on after it.\<close>

lemma ReadPhysicalRecord_reporter: "ReadPhysicalRecord read_bytes result r = (t, p, r') \<Longrightarrow> rd_reporter r' = rd_reporter r"
proof (induction read_bytes result r rule: ReadPhysicalRecord.induct)
  case (1 read_bytes result r)
  have "rd_reporter r1 = rd_reporter r" if "parse_physical result r = (t1, p1, r1)" for t1 p1 r1
    using that by (auto simp: parse_physical_def Let_def ReportCorruption_def ReportDrop_def split: prod.splits if_splits)
  with "1.prems" "1.IH" show ?case
    by (subst (asm) ReadPhysicalRecord.simps) (auto simp: Let_def ReportDrop_def split: if_splits prod.splits)
qed

lemma read_first_physical:
  assumes "os_data f = phys t p @ X" "kHeaderSize + length p \<le> kBlockSize" "plan_full f" "t \<noteq> 0"
  shows "\<exists>r. rd_reports r = [] \<and> posix_seq.at_pos (kHeaderSize + length p) X r \<and> rd_reporter r \<and>
    ReadPhysicalRecord Posix_Read [] (Reader_init f True True 0) = (scast t, p, r)"
proof -
  let ?r = "Reader_init f True True 0"
  have tr: "trailer kBlockSize = []" "start kBlockSize = 0" by (simp_all add: trailer_def start_def log_sizes)
  have "posix_seq.at_pos kBlockSize (take (length (phys t p @ X)) (trailer kBlockSize @ phys t p @ X)) ?r"
    using assms by (simp add: posix_seq.at_pos_def Reader_init_def tr)
  from posix_seq.read_phys [OF this _ assms(4), of "[]"] assms(2) obtain r where r: "rd_reports r = rd_reports ?r"
    "ReadPhysicalRecord Posix_Read [] ?r = (scast t, p, r)" "posix_seq.at_pos (kHeaderSize + length p) X r"
    by (auto simp: tr)
  from ReadPhysicalRecord_reporter [OF r(2)] r show ?thesis by (auto simp: Reader_init_def)
qed

lemma read_second:
  assumes "posix_seq.at_pos off (phys 1 q) r" "off + kHeaderSize + length q \<le> kBlockSize" "frag_vars True [] v"
  shows "\<exists>r'. read_record_loop Posix_Read v r = Some (Some q, r') \<and> rd_reports r' = rd_reports r"
proof -
  have tr: "trailer off = []" "start off = off" using assms(2) by (auto simp: trailer_def start_def)
  have "type_byte (fragment_type True True) = 1" by (simp add: type_byte_def fragment_type_def)
  with laid_out.last [of off q True] assms(2) tr have "laid_out off True q (phys 1 q) (off + kHeaderSize + length q)" by simp
  from posix_seq.read_laid_out [OF this, of "length (phys 1 q)" "[]" r "[]" v] assms(1,3) show ?thesis by auto
qed

lemma at_pos_report [simp]: "posix_seq.at_pos off D (ReportCorruption n s r) = posix_seq.at_pos off D r"
  by (simp add: posix_seq.at_pos_def ReportCorruption_def ReportDrop_def)

text \<open>C32. Two unknown record types are not reported. The reader reports a record whose type it does not know as a corruption;
  but the types 5 and 6 have the numbers of its own marks for the end of the file and for bad records, so a valid record
  of type 5 ends the log without a report, whatever follows it, and one of type 6 is dropped without a report.\<close>

theorem log_unknown_types:
  assumes "os_data f = phys t p @ X" "kHeaderSize + length p \<le> kBlockSize" "plan_full f"
  shows "(t = 5 \<longrightarrow> (\<exists>r. ReadRecord Posix_Skip Posix_Read (Reader_init f True True 0) = Some (None, r) \<and> rd_reports r = [])) \<and>
    (t = 6 \<and> X = phys 1 q \<and> 2 * kHeaderSize + length p + length q \<le> kBlockSize \<longrightarrow>
       (\<exists>r. ReadRecord Posix_Skip Posix_Read (Reader_init f True True 0) = Some (Some q, r) \<and> rd_reports r = [])) \<and>
    (t = 7 \<and> X = phys 1 q \<and> 2 * kHeaderSize + length p + length q \<le> kBlockSize \<longrightarrow>
       (\<exists>r. ReadRecord Posix_Skip Posix_Read (Reader_init f True True 0) = Some (Some q, r) \<and>
         rd_reports r = [(length p, Status_init kCorruption ''unknown record type 7'' [])]))"
proof (intro conjI impI)
  let ?r = "Reader_init f True True 0" and ?v = "loop_vars_init\<lparr>lv_fragment := p\<rparr>"
  have rr: "ReadRecord Posix_Skip Posix_Read ?r = read_record_loop Posix_Read loop_vars_init ?r"
    by (simp add: ReadRecord_def Reader_init_def)
  have v: "frag_vars True [] ?v" by (simp add: frag_vars_def loop_vars_init_def)
  have frag: "lv_fragment loop_vars_init = []" by (simp add: loop_vars_init_def)
  have nr: "\<not> rd_resyncing r" if "posix_seq.at_pos off D r" for off D and r :: "os_file Reader"
    using that by (simp add: posix_seq.at_pos_def)
  note step = posix_seq.loop_unfold [where v = loop_vars_init, unfolded frag]
  {
    assume "t = 5"
    with read_first_physical [OF assms] obtain r where r: "rd_reports r = []" "posix_seq.at_pos (kHeaderSize + length p) X r"
      "ReadPhysicalRecord Posix_Read [] ?r = (5, p, r)" by auto
    have "dispatch 5 o' ?v r = Inr (None, r)" for o'
      by (simp add: dispatch_def kEof_def kMaxRecordType_def Let_def)
    then show "\<exists>r. ReadRecord Posix_Skip Posix_Read ?r = Some (None, r) \<and> rd_reports r = []"
      using r rr step [OF r(3) nr [OF r(2)]] by simp
  next
    assume a: "t = 6 \<and> X = phys 1 q \<and> 2 * kHeaderSize + length p + length q \<le> kBlockSize"
    with read_first_physical [OF assms] obtain r where r: "rd_reports r = []" "posix_seq.at_pos (kHeaderSize + length p) (phys 1 q) r"
      "ReadPhysicalRecord Posix_Read [] ?r = (6, p, r)" by auto
    have "dispatch 6 o' ?v r = Inl (?v, r)" for o'
      by (simp add: dispatch_def kEof_def kBadRecord_def kMaxRecordType_def loop_vars_init_def Let_def)
    then show "\<exists>r. ReadRecord Posix_Skip Posix_Read ?r = Some (Some q, r) \<and> rd_reports r = []"
      using r rr step [OF r(3) nr [OF r(2)]] read_second [OF r(2) _ v] a by simp
  next
    assume a: "t = 7 \<and> X = phys 1 q \<and> 2 * kHeaderSize + length p + length q \<le> kBlockSize"
    with read_first_physical [OF assms] obtain r where r: "rd_reports r = []" "posix_seq.at_pos (kHeaderSize + length p) (phys 1 q) r"
      "ReadPhysicalRecord Posix_Read [] ?r = (7, p, r)" "rd_reporter r" by auto
    let ?r' = "ReportCorruption (length p) ''unknown record type 7'' r"
    have "char_of (55 :: nat) = CHR ''7''" by (simp add: char_of_def bit_0)
    then have "dispatch 7 o' ?v r = Inl (?v, ?r')" for o'
      by (simp add: dispatch_def kEof_def kBadRecord_def kMaxRecordType_def loop_vars_init_def Let_def print_unsigned.simps)
    moreover have "rd_reports ?r' = [(length p, Status_init kCorruption ''unknown record type 7'' [])]"
      using r by (simp add: ReportCorruption_def ReportDrop_def posix_seq.at_pos_def)
    ultimately show "\<exists>r. ReadRecord Posix_Skip Posix_Read ?r = Some (Some q, r) \<and>
        rd_reports r = [(length p, Status_init kCorruption ''unknown record type 7'' [])]"
      using r rr step [OF r(3) nr [OF r(2)]] read_second [OF _ _ v, of _ q ?r'] a by fastforce
  }
qed

theorem log_unknown_types_witness:
  "\<exists>r. ReadRecord Posix_Skip Posix_Read (Reader_init \<lparr>os_data = phys 5 [1] @ phys 1 [2], os_plan = [], os_name = ''log'',
      os_strerror = \<lambda>_. [], os_before = [], os_gap = 0, os_synced = 0, os_history = []\<rparr> True True 0) = Some (None, r) \<and> rd_reports r = []"
  using log_unknown_types [of "\<lparr>os_data = phys 5 [1] @ phys 1 [2], os_plan = [], os_name = ''log'', os_strerror = \<lambda>_. [], os_before = [], os_gap = 0, os_synced = 0, os_history = []\<rparr>"
      5 "[1]" "phys 1 [2]"]
  by (simp add: plan_full_def log_sizes)

end
