(* ===== verification/LDB_Write_Batch.thy ===== *)
theory LDB_Write_Batch
  imports LDB_DBFormat LDB_Env
begin

text \<open>
  Batches of updates (\<^verbatim>\<open>db/write_batch.cc\<close>): the operations on the bytes of a batch, the iteration over it with a handler,
  and the insertion into a memory table, whose \<^verbatim>\<open>Add\<close> is an argument. A batch is shown to be the encoding of a sequence
  number and a list of updates, and iteration to give the list back.
\<close>

section \<open>Batches\<close>

definition kHeader :: nat where "kHeader = 12"

record WriteBatch =
  wb_rep :: "byte list"

definition WriteBatch_Clear :: "WriteBatch \<Rightarrow> WriteBatch" where
  "WriteBatch_Clear b = b\<lparr>wb_rep := replicate kHeader 0\<rparr>"

definition WriteBatch_init :: WriteBatch where
  "WriteBatch_init = WriteBatch_Clear \<lparr>wb_rep = []\<rparr>"

definition ApproximateSize :: "WriteBatch \<Rightarrow> nat" where
  "ApproximateSize b = length (wb_rep b)"

text \<open>The count is an \<^verbatim>\<open>int\<close>; the conversions from and to the stored word wrap around.\<close>

definition Batch_Count :: "WriteBatch \<Rightarrow> int" where
  "Batch_Count b = sint (DecodeFixed32 (drop 8 (wb_rep b)))"

definition Batch_SetCount :: "WriteBatch \<Rightarrow> int \<Rightarrow> WriteBatch" where
  "Batch_SetCount b n = b\<lparr>wb_rep := take 8 (wb_rep b) @ EncodeFixed32 (word_of_int n) @ drop 12 (wb_rep b)\<rparr>"

definition Batch_Sequence :: "WriteBatch \<Rightarrow> u64" where
  "Batch_Sequence b = DecodeFixed64 (wb_rep b)"

definition Batch_SetSequence :: "WriteBatch \<Rightarrow> u64 \<Rightarrow> WriteBatch" where
  "Batch_SetSequence b seq = b\<lparr>wb_rep := EncodeFixed64 seq @ drop 8 (wb_rep b)\<rparr>"

definition WriteBatch_Put :: "byte list \<Rightarrow> byte list \<Rightarrow> WriteBatch \<Rightarrow> WriteBatch" where
  "WriteBatch_Put key val b =
     (let b1 = Batch_SetCount b (Batch_Count b + 1);
          rep = wb_rep b1 @ [ucast (ValueType_num kTypeValue)] in
      b1\<lparr>wb_rep := PutLengthPrefixedSlice (PutLengthPrefixedSlice rep key) val\<rparr>)"

definition WriteBatch_Delete :: "byte list \<Rightarrow> WriteBatch \<Rightarrow> WriteBatch" where
  "WriteBatch_Delete key b =
     (let b1 = Batch_SetCount b (Batch_Count b + 1);
          rep = wb_rep b1 @ [ucast (ValueType_num kTypeDeletion)] in
      b1\<lparr>wb_rep := PutLengthPrefixedSlice rep key\<rparr>)"

definition Batch_Append :: "WriteBatch \<Rightarrow> WriteBatch \<Rightarrow> WriteBatch" where
  "Batch_Append dst src =
     (let d1 = Batch_SetCount dst (Batch_Count dst + Batch_Count src) in d1\<lparr>wb_rep := wb_rep d1 @ drop kHeader (wb_rep src)\<rparr>)"

definition WriteBatch_Append :: "WriteBatch \<Rightarrow> WriteBatch \<Rightarrow> WriteBatch" where
  "WriteBatch_Append b source = Batch_Append b source"

definition Batch_SetContents :: "WriteBatch \<Rightarrow> byte list \<Rightarrow> WriteBatch" where
  "Batch_SetContents b contents = b\<lparr>wb_rep := contents\<rparr>"

section \<open>Iteration\<close>

text \<open>The interface \<^verbatim>\<open>WriteBatch::Handler\<close>, as functions on the state of the handler.\<close>

record 's Handler =
  hd_Put :: "byte list \<Rightarrow> byte list \<Rightarrow> 's \<Rightarrow> 's"
  hd_Delete :: "byte list \<Rightarrow> 's \<Rightarrow> 's"

text \<open>The loop over the operations: \<open>Inl\<close> is an early return, \<open>Inr\<close> the number of operations found.\<close>

function iterate_loop :: "'s Handler \<Rightarrow> byte list \<Rightarrow> int \<Rightarrow> 's \<Rightarrow> (Status + int) \<times> 's" where
  "iterate_loop handler input found s =
     (case input of
        [] \<Rightarrow> (Inr found, s)
      | tag # input0 \<Rightarrow>
          if tag = ucast (ValueType_num kTypeValue) then
            (case GetLengthPrefixedSlice input0 of
               (Some key, input1) \<Rightarrow>
                 (case GetLengthPrefixedSlice input1 of
                    (Some val, input2) \<Rightarrow> iterate_loop handler input2 (found + 1) (hd_Put handler key val s)
                  | (None, _) \<Rightarrow> (Inl (Status_init kCorruption ''bad WriteBatch Put'' []), s))
             | (None, _) \<Rightarrow> (Inl (Status_init kCorruption ''bad WriteBatch Put'' []), s))
          else if tag = ucast (ValueType_num kTypeDeletion) then
            (case GetLengthPrefixedSlice input0 of
               (Some key, input1) \<Rightarrow> iterate_loop handler input1 (found + 1) (hd_Delete handler key s)
             | (None, _) \<Rightarrow> (Inl (Status_init kCorruption ''bad WriteBatch Delete'' []), s))
          else (Inl (Status_init kCorruption ''unknown WriteBatch tag'' []), s))"
  by pat_completeness auto
termination
  by (relation "measure (\<lambda>(_, input, _, _). length input)") (auto dest!: GetLengthPrefixedSlice_length [OF sym])

declare iterate_loop.simps [simp del]

definition WriteBatch_Iterate :: "'s Handler \<Rightarrow> WriteBatch \<Rightarrow> 's \<Rightarrow> Status \<times> 's" where
  "WriteBatch_Iterate handler b s =
     (if length (wb_rep b) < kHeader then (Status_init kCorruption ''malformed WriteBatch (too small)'' [], s)
      else case iterate_loop handler (Slice_remove_prefix (wb_rep b) kHeader) 0 s of
        (Inl status, s') \<Rightarrow> (status, s')
      | (Inr found, s') \<Rightarrow>
          if found \<noteq> Batch_Count b then (Status_init kCorruption ''WriteBatch has wrong count'' [], s') else (OK, s'))"

text \<open>\<open>add\<close> is \<^verbatim>\<open>MemTable::Add\<close>; the state of the inserter is \<^verbatim>\<open>sequence_\<close> and the table.\<close>

type_synonym 'm mem_add = "u64 \<Rightarrow> ValueType \<Rightarrow> byte list \<Rightarrow> byte list \<Rightarrow> 'm \<Rightarrow> 'm"

definition MemTableInserter :: "'m mem_add \<Rightarrow> (u64 \<times> 'm) Handler" where
  "MemTableInserter add =
     \<lparr>hd_Put = \<lambda>key val (sequence, mem). (sequence + 1, add sequence kTypeValue key val mem),
      hd_Delete = \<lambda>key (sequence, mem). (sequence + 1, add sequence kTypeDeletion key [] mem)\<rparr>"

definition Batch_InsertInto :: "'m mem_add \<Rightarrow> WriteBatch \<Rightarrow> 'm \<Rightarrow> Status \<times> 'm" where
  "Batch_InsertInto add b memtable =
     (case WriteBatch_Iterate (MemTableInserter add) b (Batch_Sequence b, memtable) of (status, _, mem) \<Rightarrow> (status, mem))"

section \<open>Batches as lists of updates\<close>

datatype update = Put "byte list" "byte list" | Delete "byte list"

fun apply_update :: "update \<Rightarrow> WriteBatch \<Rightarrow> WriteBatch" where
  "apply_update (Put key val) b = WriteBatch_Put key val b"
| "apply_update (Delete key) b = WriteBatch_Delete key b"

fun handle_update :: "'s Handler \<Rightarrow> update \<Rightarrow> 's \<Rightarrow> 's" where
  "handle_update h (Put key val) s = hd_Put h key val s"
| "handle_update h (Delete key) s = hd_Delete h key s"

fun update_ok :: "update \<Rightarrow> bool" where
  "update_ok (Put key val) \<longleftrightarrow> length key < 2 ^ 32 \<and> length val < 2 ^ 32"
| "update_ok (Delete key) \<longleftrightarrow> length key < 2 ^ 32"

fun update_bytes :: "update \<Rightarrow> byte list" where
  "update_bytes (Put key val) = 1 # PutLengthPrefixedSlice (PutLengthPrefixedSlice [] key) val"
| "update_bytes (Delete key) = 0 # PutLengthPrefixedSlice [] key"

definition batch_of :: "u64 \<Rightarrow> update list \<Rightarrow> WriteBatch" where
  "batch_of seq us =
     \<lparr>wb_rep = EncodeFixed64 seq @ EncodeFixed32 (of_nat (length us)) @ concat (map update_bytes us)\<rparr>"

lemma le_bytes_0: "le_bytes n 0 = replicate n 0"
  by (induction n) simp_all

lemma batch_init: "WriteBatch_init = batch_of 0 []"
  by (simp add: WriteBatch_init_def WriteBatch_Clear_def batch_of_def kHeader_def EncodeFixed64_def EncodeFixed32_def
      le_bytes_0 replicate_add [symmetric])

lemma sint_of_nat_less: "n < 2 ^ 31 \<Longrightarrow> sint (of_nat n :: u32) = int n"
proof -
  assume "n < 2 ^ 31"
  moreover have "sint (of_nat n :: u32) = signed_take_bit 31 (int n)" by transfer simp
  ultimately show ?thesis by (simp add: signed_take_bit_int_eq_self)
qed

lemma batch_count: "Batch_Count (batch_of seq us) = sint (of_nat (length us) :: u32)"
  by (simp add: Batch_Count_def batch_of_def)

lemma batch_set_count:
  "wb_rep (Batch_SetCount (batch_of seq us) n) = EncodeFixed64 seq @ EncodeFixed32 (word_of_int n) @ concat (map update_bytes us)"
  by (simp add: Batch_SetCount_def batch_of_def)

lemma batch_update: "b\<lparr>wb_rep := rep\<rparr> = \<lparr>wb_rep = rep\<rparr>" for b :: WriteBatch
  by (cases b) simp

lemma batch_apply: "apply_update u (batch_of seq us) = batch_of seq (us @ [u])"
proof -
  have "word_of_int (Batch_Count (batch_of seq us) + 1) = (of_nat (length (us @ [u])) :: u32)"
    by (simp add: batch_count)
  then show ?thesis
    by (cases u) (simp_all add: WriteBatch_Put_def WriteBatch_Delete_def Let_def batch_of_def [of _ "us @ _"] batch_set_count
        PutLengthPrefixedSlice_def PutVarint32_def batch_update add.commute)
qed

lemma batch_append: "WriteBatch_Append (batch_of seq us) (batch_of seq' us') = batch_of seq (us @ us')"
proof -
  have "word_of_int (Batch_Count (batch_of seq us) + Batch_Count (batch_of seq' us')) = (of_nat (length (us @ us')) :: u32)"
    by (simp add: batch_count)
  then show ?thesis
    by (simp add: WriteBatch_Append_def Batch_Append_def Let_def batch_of_def [of _ "us @ _"] batch_set_count batch_update)
      (simp add: batch_of_def kHeader_def)
qed

lemma batch_set_sequence: "Batch_SetSequence (batch_of seq us) seq' = batch_of seq' us"
  by (simp add: Batch_SetSequence_def batch_of_def)

lemma batch_sequence: "Batch_Sequence (batch_of seq us) = seq"
  by (simp add: Batch_Sequence_def batch_of_def)

lemma batch_apply_all: "fold apply_update us' (batch_of seq us) = batch_of seq (us @ us')"
  by (induction us' arbitrary: us) (simp_all add: batch_apply)

lemma iterate_loop_updates:
  assumes "\<forall>u \<in> set us. update_ok u"
  shows "iterate_loop h (concat (map update_bytes us)) found s = (Inr (found + int (length us)), fold (handle_update h) us s)"
  using assms
proof (induction us arbitrary: found s)
  case Nil
  then show ?case by (simp add: iterate_loop.simps)
next
  case (Cons u us)
  then show ?case
    by (cases u) (subst iterate_loop.simps; simp add: PutLengthPrefixedSlice_def PutVarint32_def)+
qed

lemma batch_iterate:
  assumes "\<forall>u \<in> set us. update_ok u" and "length us < 2 ^ 31"
  shows "WriteBatch_Iterate h (batch_of seq us) s = (OK, fold (handle_update h) us s)"
proof -
  have "sint (of_nat (length us) :: u32) = int (length us)"
    using assms(2) by (simp add: sint_of_nat_less)
  moreover have "Slice_remove_prefix (wb_rep (batch_of seq us)) kHeader = concat (map update_bytes us)"
    "\<not> length (wb_rep (batch_of seq us)) < kHeader"
    by (simp_all add: Slice_remove_prefix_def batch_of_def kHeader_def)
  ultimately show ?thesis
    using iterate_loop_updates [OF assms(1), of h 0 s] by (simp add: WriteBatch_Iterate_def batch_count)
qed

section \<open>Properties\<close>

text \<open>The effect of a list of updates on a memory table: they get consecutive sequence numbers.\<close>

fun mem_updates :: "'m mem_add \<Rightarrow> u64 \<Rightarrow> update list \<Rightarrow> 'm \<Rightarrow> 'm" where
  "mem_updates add seq [] mem = mem"
| "mem_updates add seq (Put key val # us) mem = mem_updates add (seq + 1) us (add seq kTypeValue key val mem)"
| "mem_updates add seq (Delete key # us) mem = mem_updates add (seq + 1) us (add seq kTypeDeletion key [] mem)"

lemma inserter_updates:
  "fold (handle_update (MemTableInserter add)) us (seq, mem) = (seq + of_nat (length us), mem_updates add seq us mem)"
  by (induction add seq us mem rule: mem_updates.induct) (simp_all add: MemTableInserter_def)

lemma batch_insert_into:
  assumes "\<forall>u \<in> set us. update_ok u" and "length us < 2 ^ 31"
  shows "Batch_InsertInto add (batch_of seq us) mem = (OK, mem_updates add seq us mem)"
  by (simp add: Batch_InsertInto_def batch_sequence batch_iterate [OF assms] inserter_updates)

text \<open>C33. A batch is the list of the updates that were put into it: inserting a batch that was built by \<^verbatim>\<open>Put\<close> and \<^verbatim>\<open>Delete\<close>
  and extended with the updates of another batch by \<^verbatim>\<open>Append\<close> succeeds and adds all updates, those of both batches, in
  order to the memory table, with consecutive sequence numbers from the one that was set.\<close>

theorem write_batch_insert:
  assumes "\<forall>u \<in> set us \<union> set us'. update_ok u" and "length us + length us' < 2 ^ 31"
  shows "Batch_InsertInto add (Batch_SetSequence (WriteBatch_Append (fold apply_update us WriteBatch_init)
      (fold apply_update us' WriteBatch_init)) seq) mem = (OK, mem_updates add seq (us @ us') mem)"
proof -
  have "\<forall>u \<in> set (us @ us'). update_ok u" "length (us @ us') < 2 ^ 31" using assms by auto
  from batch_insert_into [OF this] show ?thesis
    by (simp add: batch_init batch_apply_all batch_append batch_set_sequence)
qed

theorem write_batch_insert_witness:
  "Batch_InsertInto (\<lambda>seq t key val mem. mem @ [(seq, t, key, val)])
     (Batch_SetSequence (WriteBatch_Append (fold apply_update [Put [1] [2, 3]] WriteBatch_init)
       (fold apply_update [Delete [1]] WriteBatch_init)) 7) [] = (OK, [(7, kTypeValue, [1], [2, 3]), (8, kTypeDeletion, [1], [])])"
  using write_batch_insert [of "[Put [1] [2, 3]]" "[Delete [1]]" "\<lambda>seq t key val mem. mem @ [(seq, t, key, val)]" 7 "[]"]
  by simp

lemma iterate_loop_handled:
  "\<exists>us. snd (iterate_loop h input found s) = fold (handle_update h) us s \<and>
    (\<forall>n. fst (iterate_loop h input found s) = Inr n \<longrightarrow> n = found + int (length us)) \<and>
    fst (iterate_loop h input found s) \<noteq> Inl OK"
proof (induction h input found s rule: iterate_loop.induct)
  case (1 h input found s)
  have step: ?case if "iterate_loop h input found s = iterate_loop h input' (found + 1) (handle_update h u s)"
    "\<exists>us. snd (iterate_loop h input' (found + 1) (handle_update h u s)) = fold (handle_update h) us (handle_update h u s) \<and>
      (\<forall>n. fst (iterate_loop h input' (found + 1) (handle_update h u s)) = Inr n \<longrightarrow> n = found + 1 + int (length us)) \<and>
      fst (iterate_loop h input' (found + 1) (handle_update h u s)) \<noteq> Inl OK" for input' u
  proof -
    from that(2) obtain us where us: "snd (iterate_loop h input' (found + 1) (handle_update h u s)) = fold (handle_update h) us (handle_update h u s)"
      "\<forall>n. fst (iterate_loop h input' (found + 1) (handle_update h u s)) = Inr n \<longrightarrow> n = found + 1 + int (length us)"
      "fst (iterate_loop h input' (found + 1) (handle_update h u s)) \<noteq> Inl OK" by blast
    show ?thesis unfolding that(1) using us by (intro exI [of _ "u # us"]) auto
  qed
  have stop: ?case if "iterate_loop h input found s = (r, s)" "r = Inr found \<or> (\<exists>m. r = Inl (Status_init kCorruption m []))" for r
    using that by (intro exI [of _ "[]"]) (auto simp: Status_init_def)
  show ?case
  proof (cases input)
    case Nil
    then show ?thesis by (intro stop [of "Inr found"]) (simp_all add: iterate_loop.simps)
  next
    case (Cons tag input0)
    obtain key input1 where k: "GetLengthPrefixedSlice input0 = (key, input1)" by fastforce
    obtain val input2 where v: "GetLengthPrefixedSlice input1 = (val, input2)" by fastforce
    consider "tag = 1" "key \<noteq> None" "val \<noteq> None" | "tag = 1" "key = None \<or> val = None" | "tag = 0" "key \<noteq> None"
      | "tag = 0" "key = None" | "tag \<noteq> 0" "tag \<noteq> 1" by fast
    then show ?thesis
    proof cases
      case 1
      then obtain key' val' where kv: "key = Some key'" "val = Some val'" by auto
      have "iterate_loop h input found s = iterate_loop h input2 (found + 1) (handle_update h (Put key' val') s)"
        using Cons 1 kv k v by (subst iterate_loop.simps) simp
      moreover note "1.IH"(1) [OF Cons _ k [symmetric] kv(1) v [symmetric] kv(2)]
      ultimately show ?thesis using 1 kv by (intro step [of input2 "Put key' val'"]) auto
    next
      case 2
      then show ?thesis using Cons k v
        by (intro stop [of "Inl (Status_init kCorruption ''bad WriteBatch Put'' [])"]) (subst iterate_loop.simps, auto split: option.splits)
    next
      case 3
      then obtain key' where kv: "key = Some key'" by auto
      have "iterate_loop h input found s = iterate_loop h input1 (found + 1) (handle_update h (Delete key') s)"
        using Cons 3 kv k by (subst iterate_loop.simps) simp
      then show ?thesis using "1.IH"(2) [OF Cons _ _ k [symmetric]] 3 kv by (intro step [of input1 "Delete key'"]) auto
    next
      case 4
      then show ?thesis using Cons k
        by (intro stop [of "Inl (Status_init kCorruption ''bad WriteBatch Delete'' [])"]) (subst iterate_loop.simps, auto)
    next
      case 5
      then show ?thesis using Cons
        by (intro stop [of "Inl (Status_init kCorruption ''unknown WriteBatch tag'' [])"]) (subst iterate_loop.simps, auto)
    qed
  qed
qed

text \<open>Iteration is safe on every byte string: it hands complete updates to the handler and nothing else, and when it
  reports success the number of updates is the count that the batch stores.\<close>

theorem write_batch_iterate_any:
  "\<exists>us. snd (WriteBatch_Iterate h b s) = fold (handle_update h) us s \<and>
    (fst (WriteBatch_Iterate h b s) = OK \<longrightarrow> kHeader \<le> length (wb_rep b) \<and> Batch_Count b = int (length us))"
proof (cases "length (wb_rep b) < kHeader")
  case True
  then show ?thesis by (intro exI [of _ "[]"]) (simp add: WriteBatch_Iterate_def Status_init_def)
next
  case False
  obtain r s' where r: "iterate_loop h (Slice_remove_prefix (wb_rep b) kHeader) 0 s = (r, s')" by fastforce
  with iterate_loop_handled [of h "Slice_remove_prefix (wb_rep b) kHeader" 0 s] obtain us where
    "s' = fold (handle_update h) us s" "\<forall>n. r = Inr n \<longrightarrow> n = int (length us)" "r \<noteq> Inl OK" by auto
  with False r show ?thesis
    by (intro exI [of _ us]) (auto simp: WriteBatch_Iterate_def Status_init_def split: sum.splits)
qed

theorem write_batch_iterate_any_witness:
  "fst (WriteBatch_Iterate (MemTableInserter (\<lambda>_ _ _ _ n. n + 1)) (batch_of 1 [Delete [5]]) (1, 0 :: nat)) = OK \<and>
   Batch_Count (batch_of 1 [Delete [5]]) = 1"
proof -
  have ok: "WriteBatch_Iterate (MemTableInserter (\<lambda>_ _ _ _ n. n + 1)) (batch_of 1 [Delete [5]]) (1, 0 :: nat) = (OK, 2, 1)"
    by (simp add: batch_iterate MemTableInserter_def)
  from write_batch_iterate_any [of "MemTableInserter (\<lambda>_ _ _ _ n. n + 1)" "batch_of 1 [Delete [5]]" "(1, 0 :: nat)"] ok
  show ?thesis by (simp add: batch_count)
qed

end
