(* ===== verification/LDB_Version_Edit.thy ===== *)
theory LDB_Version_Edit
  imports LDB_DBFormat LDB_Env "HOL-Library.Product_Lexorder"
begin

text \<open>
  The records of LevelDB's manifest (\<^verbatim>\<open>db/version_edit.h\<close>, \<^verbatim>\<open>db/version_edit.cc\<close>): the setters of a version edit, its
  encoding and its decoding. Levels are \<^verbatim>\<open>int\<close>, file numbers and sequence numbers 64-bit words; the set of deleted files is
  written in the order of its pairs.
\<close>

section \<open>Edits\<close>

definition kNumLevels :: u32 where "kNumLevels = 7"

record FileMetaData =
  fm_refs :: int
  fm_allowed_seeks :: int
  fm_number :: u64
  fm_file_size :: u64
  fm_smallest :: "byte list"
  fm_largest :: "byte list"

text \<open>The constructor leaves the number undefined; every use of a fresh object sets it with the three other fields.\<close>

definition FileMetaData_init :: "u64 \<Rightarrow> u64 \<Rightarrow> byte list \<Rightarrow> byte list \<Rightarrow> FileMetaData" where
  "FileMetaData_init number file_size smallest largest =
     \<lparr>fm_refs = 0, fm_allowed_seeks = 2 ^ 30, fm_number = number, fm_file_size = file_size,
      fm_smallest = smallest, fm_largest = largest\<rparr>"

record VersionEdit =
  ve_comparator :: "byte list"
  ve_log_number :: u64
  ve_prev_log_number :: u64
  ve_next_file_number :: u64
  ve_last_sequence :: u64
  has_comparator :: bool
  has_log_number :: bool
  has_prev_log_number :: bool
  has_next_file_number :: bool
  has_last_sequence :: bool
  compact_pointers :: "(int \<times> byte list) list"
  deleted_files :: "(int \<times> u64) set"
  new_files :: "(int \<times> FileMetaData) list"

text \<open>\<^verbatim>\<open>Clear\<close> does not touch the compaction pointers.\<close>

definition VersionEdit_Clear :: "VersionEdit \<Rightarrow> VersionEdit" where
  "VersionEdit_Clear e = e
     \<lparr>ve_comparator := [], ve_log_number := 0, ve_prev_log_number := 0, ve_last_sequence := 0, ve_next_file_number := 0,
      has_comparator := False, has_log_number := False, has_prev_log_number := False, has_next_file_number := False,
      has_last_sequence := False, deleted_files := {}, new_files := []\<rparr>"

definition VersionEdit_init :: VersionEdit where
  "VersionEdit_init = VersionEdit_Clear
     \<lparr>ve_comparator = [], ve_log_number = 0, ve_prev_log_number = 0, ve_next_file_number = 0, ve_last_sequence = 0,
      has_comparator = False, has_log_number = False, has_prev_log_number = False, has_next_file_number = False,
      has_last_sequence = False, compact_pointers = [], deleted_files = {}, new_files = []\<rparr>"

definition SetComparatorName :: "byte list \<Rightarrow> VersionEdit \<Rightarrow> VersionEdit" where
  "SetComparatorName name e = e\<lparr>has_comparator := True, ve_comparator := name\<rparr>"

definition SetLogNumber :: "u64 \<Rightarrow> VersionEdit \<Rightarrow> VersionEdit" where
  "SetLogNumber num e = e\<lparr>has_log_number := True, ve_log_number := num\<rparr>"

definition SetPrevLogNumber :: "u64 \<Rightarrow> VersionEdit \<Rightarrow> VersionEdit" where
  "SetPrevLogNumber num e = e\<lparr>has_prev_log_number := True, ve_prev_log_number := num\<rparr>"

definition SetNextFile :: "u64 \<Rightarrow> VersionEdit \<Rightarrow> VersionEdit" where
  "SetNextFile num e = e\<lparr>has_next_file_number := True, ve_next_file_number := num\<rparr>"

definition SetLastSequence :: "u64 \<Rightarrow> VersionEdit \<Rightarrow> VersionEdit" where
  "SetLastSequence seq e = e\<lparr>has_last_sequence := True, ve_last_sequence := seq\<rparr>"

definition SetCompactPointer :: "int \<Rightarrow> byte list \<Rightarrow> VersionEdit \<Rightarrow> VersionEdit" where
  "SetCompactPointer level key e = e\<lparr>compact_pointers := compact_pointers e @ [(level, key)]\<rparr>"

definition AddFile :: "int \<Rightarrow> u64 \<Rightarrow> u64 \<Rightarrow> byte list \<Rightarrow> byte list \<Rightarrow> VersionEdit \<Rightarrow> VersionEdit" where
  "AddFile level file file_size smallest largest e =
     e\<lparr>new_files := new_files e @ [(level, FileMetaData_init file file_size smallest largest)]\<rparr>"

definition DeleteFile :: "int \<Rightarrow> u64 \<Rightarrow> VersionEdit \<Rightarrow> VersionEdit" where
  "DeleteFile level file e = e\<lparr>deleted_files := insert (level, file) (deleted_files e)\<rparr>"

section \<open>Encoding\<close>

datatype Tag = kComparator | kLogNumber | kNextFileNumber | kLastSequence | kCompactPointer | kDeletedFile | kNewFile
  | kPrevLogNumber

fun Tag_num :: "Tag \<Rightarrow> u32" where
  "Tag_num kComparator = 1"
| "Tag_num kLogNumber = 2"
| "Tag_num kNextFileNumber = 3"
| "Tag_num kLastSequence = 4"
| "Tag_num kCompactPointer = 5"
| "Tag_num kDeletedFile = 6"
| "Tag_num kNewFile = 7"
| "Tag_num kPrevLogNumber = 9"

definition encode_pointer :: "int \<times> byte list \<Rightarrow> byte list \<Rightarrow> byte list" where
  "encode_pointer p dst =
     PutLengthPrefixedSlice (PutVarint32 (PutVarint32 dst (Tag_num kCompactPointer)) (word_of_int (fst p))) (snd p)"

definition encode_deleted :: "int \<times> u64 \<Rightarrow> byte list \<Rightarrow> byte list" where
  "encode_deleted p dst =
     PutVarint64 (PutVarint32 (PutVarint32 dst (Tag_num kDeletedFile)) (word_of_int (fst p))) (snd p)"

definition encode_new_file :: "int \<times> FileMetaData \<Rightarrow> byte list \<Rightarrow> byte list" where
  "encode_new_file p dst =
     (let f = snd p;
          d1 = PutVarint32 (PutVarint32 dst (Tag_num kNewFile)) (word_of_int (fst p));
          d2 = PutVarint64 (PutVarint64 d1 (fm_number f)) (fm_file_size f) in
      PutLengthPrefixedSlice (PutLengthPrefixedSlice d2 (fm_smallest f)) (fm_largest f))"

definition encode_number :: "bool \<Rightarrow> Tag \<Rightarrow> u64 \<Rightarrow> byte list \<Rightarrow> byte list" where
  "encode_number has tag num dst = (if has then PutVarint64 (PutVarint32 dst (Tag_num tag)) num else dst)"

definition VersionEdit_EncodeTo :: "VersionEdit \<Rightarrow> byte list \<Rightarrow> byte list" where
  "VersionEdit_EncodeTo e dst =
     (let d1 = (if has_comparator e
                then PutLengthPrefixedSlice (PutVarint32 dst (Tag_num kComparator)) (ve_comparator e) else dst);
          d2 = encode_number (has_log_number e) kLogNumber (ve_log_number e) d1;
          d3 = encode_number (has_prev_log_number e) kPrevLogNumber (ve_prev_log_number e) d2;
          d4 = encode_number (has_next_file_number e) kNextFileNumber (ve_next_file_number e) d3;
          d5 = encode_number (has_last_sequence e) kLastSequence (ve_last_sequence e) d4 in
      fold encode_new_file (new_files e)
        (fold encode_deleted (sorted_list_of_set (deleted_files e)) (fold encode_pointer (compact_pointers e) d5)))"

section \<open>Decoding\<close>

definition GetInternalKey :: "byte list \<Rightarrow> byte list option \<times> byte list" where
  "GetInternalKey input = GetLengthPrefixedSlice input"

definition GetLevel :: "byte list \<Rightarrow> int option \<times> byte list" where
  "GetLevel input =
     (case GetVarint32 input of
        (Some v, input1) \<Rightarrow> (if v < kNumLevels then (Some (uint v), input1) else (None, input1))
      | (None, input1) \<Rightarrow> (None, input1))"

text \<open>Reading a value and then more: the conditions of the source, with \<open>&&\<close> from left to right.\<close>

definition get_then :: "(byte list \<Rightarrow> 'a option \<times> byte list) \<Rightarrow> ('a \<Rightarrow> byte list \<Rightarrow> 'b option \<times> byte list) \<Rightarrow>
    byte list \<Rightarrow> 'b option \<times> byte list" where
  "get_then get cont input = (case get input of (Some x, input1) \<Rightarrow> cont x input1 | (None, input1) \<Rightarrow> (None, input1))"

definition get_done :: "'a \<Rightarrow> byte list \<Rightarrow> 'a option \<times> byte list" where
  "get_done x input = (Some x, input)"

definition or_msg :: "string \<Rightarrow> VersionEdit option \<times> byte list \<Rightarrow> (string + VersionEdit) \<times> byte list" where
  "or_msg msg r = (case r of (Some e, input) \<Rightarrow> (Inr e, input) | (None, input) \<Rightarrow> (Inl msg, input))"

definition edit_decode_field :: "u32 \<Rightarrow> byte list \<Rightarrow> VersionEdit \<Rightarrow> (string + VersionEdit) \<times> byte list" where
  "edit_decode_field tag input e =
     (if tag = Tag_num kComparator then
        or_msg ''comparator name'' (get_then GetLengthPrefixedSlice (\<lambda>str. get_done (SetComparatorName str e)) input)
      else if tag = Tag_num kLogNumber then
        or_msg ''log number'' (get_then GetVarint64 (\<lambda>n. get_done (SetLogNumber n e)) input)
      else if tag = Tag_num kPrevLogNumber then
        or_msg ''previous log number'' (get_then GetVarint64 (\<lambda>n. get_done (SetPrevLogNumber n e)) input)
      else if tag = Tag_num kNextFileNumber then
        or_msg ''next file number'' (get_then GetVarint64 (\<lambda>n. get_done (SetNextFile n e)) input)
      else if tag = Tag_num kLastSequence then
        or_msg ''last sequence number'' (get_then GetVarint64 (\<lambda>n. get_done (SetLastSequence n e)) input)
      else if tag = Tag_num kCompactPointer then
        or_msg ''compaction pointer''
          (get_then GetLevel (\<lambda>level. get_then GetInternalKey (\<lambda>key. get_done (SetCompactPointer level key e))) input)
      else if tag = Tag_num kDeletedFile then
        or_msg ''deleted file''
          (get_then GetLevel (\<lambda>level. get_then GetVarint64 (\<lambda>number. get_done (DeleteFile level number e))) input)
      else if tag = Tag_num kNewFile then
        or_msg ''new-file entry''
          (get_then GetLevel (\<lambda>level. get_then GetVarint64 (\<lambda>number. get_then GetVarint64 (\<lambda>file_size.
             get_then GetInternalKey (\<lambda>smallest. get_then GetInternalKey (\<lambda>largest.
               get_done (AddFile level number file_size smallest largest e)))))) input)
      else (Inl ''unknown tag'', input))"

lemma GetLevel_length: "GetLevel p = (r, q) \<Longrightarrow> length q \<le> length p"
  by (auto simp: GetLevel_def dest!: GetVarint32_length split: prod.splits option.splits if_splits)

definition shrinks :: "(byte list \<Rightarrow> 'a \<times> byte list) \<Rightarrow> bool" where
  "shrinks get \<longleftrightarrow> (\<forall>p. length (snd (get p)) \<le> length p)"

lemma shrinksI: "(\<And>p r q. get p = (r, q) \<Longrightarrow> length q \<le> length p) \<Longrightarrow> shrinks get"
  unfolding shrinks_def by (metis prod.collapse)

lemma shrinks_get [intro!]:
  "shrinks GetLengthPrefixedSlice" "shrinks GetVarint64" "shrinks GetInternalKey" "shrinks GetLevel" "shrinks (get_done x)"
proof -
  show len: "shrinks GetLengthPrefixedSlice" by (rule shrinksI, rule GetLengthPrefixedSlice_length)
  show "shrinks GetVarint64" by (rule shrinksI, rule GetVarint64_length)
  show "shrinks GetInternalKey" using len by (simp add: shrinks_def GetInternalKey_def)
  show "shrinks GetLevel" by (rule shrinksI, rule GetLevel_length)
  show "shrinks (get_done x)" by (simp add: shrinks_def get_done_def)
qed

lemma shrinks_then [intro!]:
  assumes "shrinks get" and "\<And>x. shrinks (cont x)"
  shows "shrinks (get_then get cont)"
proof (rule shrinksI)
  fix p r q assume q: "get_then get cont p = (r, q)"
  obtain x p1 where g: "get p = (x, p1)" by fastforce
  have "length p1 \<le> length p" using assms(1) g unfolding shrinks_def by (metis snd_conv)
  moreover have "length q \<le> length p1"
    using q g assms(2) by (cases x) (auto simp: get_then_def shrinks_def dest: spec [of _ p1], metis snd_conv)
  ultimately show "length q \<le> length p" by simp
qed

lemma shrinks_msg: "shrinks get \<Longrightarrow> length (snd (or_msg msg (get p))) \<le> length p"
  by (auto simp: shrinks_def or_msg_def split: prod.splits option.splits dest: spec [of _ p])

lemma edit_decode_field_length: "edit_decode_field tag p e = (r, q) \<Longrightarrow> length q \<le> length p"
proof -
  assume "edit_decode_field tag p e = (r, q)"
  then have "q = snd (edit_decode_field tag p e)" by simp
  then show ?thesis unfolding edit_decode_field_def by (auto intro!: shrinks_msg)
qed

function edit_decode_loop :: "byte list \<Rightarrow> VersionEdit \<Rightarrow> string option \<times> byte list \<times> VersionEdit" where
  "edit_decode_loop input e =
     (case GetVarint32 input of
        (None, input1) \<Rightarrow> (None, input1, e)
      | (Some tag, input1) \<Rightarrow>
          (case edit_decode_field tag input1 e of
             (Inl msg, input2) \<Rightarrow> (Some msg, input2, e)
           | (Inr e', input2) \<Rightarrow> edit_decode_loop input2 e'))"
  by pat_completeness auto
termination
  by (relation "measure (\<lambda>(input, _). length input)")
    (auto dest!: GetVarint32_length [OF sym] edit_decode_field_length [OF sym])

declare edit_decode_loop.simps [simp del]

definition VersionEdit_DecodeFrom :: "byte list \<Rightarrow> VersionEdit \<Rightarrow> Status \<times> VersionEdit" where
  "VersionEdit_DecodeFrom src e =
     (case edit_decode_loop src (VersionEdit_Clear e) of (msg, input, e') \<Rightarrow>
        (case (if msg = None \<and> input \<noteq> [] then Some ''invalid tag'' else msg) of
           Some m \<Rightarrow> (Status_init kCorruption ''VersionEdit'' m, e')
         | None \<Rightarrow> (OK, e')))"

section \<open>Decoding what was encoded\<close>

definition level_ok :: "int \<Rightarrow> bool" where
  "level_ok level \<longleftrightarrow> 0 \<le> level \<and> level < 7"

definition key_ok :: "byte list \<Rightarrow> bool" where
  "key_ok k \<longleftrightarrow> length k < 2 ^ 32"

lemma GetLevel_Encode [simp]:
  assumes "level_ok level"
  shows "GetLevel (EncodeVarint32 (word_of_int level) @ rest) = (Some level, rest)"
proof -
  have u: "uint (word_of_int level :: u32) = level" using assms by (simp add: level_ok_def uint_word_of_int)
  then have "(word_of_int level :: u32) < kNumLevels" using assms by (simp add: word_less_def kNumLevels_def level_ok_def)
  with u show ?thesis by (simp add: GetLevel_def)
qed

lemma GetInternalKey_Encode [simp]:
  "key_ok k \<Longrightarrow> GetInternalKey (EncodeVarint32 (of_nat (length k)) @ k @ rest) = (Some k, rest)"
  by (simp add: GetInternalKey_def key_ok_def)

lemma decode_tag:
  "edit_decode_loop (EncodeVarint32 tag @ rest) e =
     (case edit_decode_field tag rest e of (Inl msg, input) \<Rightarrow> (Some msg, input, e) | (Inr e', input) \<Rightarrow> edit_decode_loop input e')"
  by (subst edit_decode_loop.simps) simp

lemmas decode_simps = decode_tag edit_decode_field_def get_then_def get_done_def or_msg_def PutLengthPrefixedSlice_def PutVarint32_def
  PutVarint64_def

lemma decode_pointer:
  "level_ok (fst p) \<Longrightarrow> key_ok (snd p) \<Longrightarrow>
   edit_decode_loop (encode_pointer p [] @ rest) e = edit_decode_loop rest (SetCompactPointer (fst p) (snd p) e)"
  by (simp add: encode_pointer_def decode_simps)

lemma decode_deleted:
  "level_ok (fst p) \<Longrightarrow> edit_decode_loop (encode_deleted p [] @ rest) e = edit_decode_loop rest (DeleteFile (fst p) (snd p) e)"
  by (simp add: encode_deleted_def decode_simps)

definition file_ok :: "int \<times> FileMetaData \<Rightarrow> bool" where
  "file_ok p \<longleftrightarrow> level_ok (fst p) \<and> key_ok (fm_smallest (snd p)) \<and> key_ok (fm_largest (snd p)) \<and>
     snd p = FileMetaData_init (fm_number (snd p)) (fm_file_size (snd p)) (fm_smallest (snd p)) (fm_largest (snd p))"

lemma decode_new_file:
  assumes "file_ok p"
  shows "edit_decode_loop (encode_new_file p [] @ rest) e = edit_decode_loop rest (e\<lparr>new_files := new_files e @ [p]\<rparr>)"
proof -
  have "AddFile (fst p) (fm_number (snd p)) (fm_file_size (snd p)) (fm_smallest (snd p)) (fm_largest (snd p)) e =
      e\<lparr>new_files := new_files e @ [p]\<rparr>"
    using assms by (metis AddFile_def file_ok_def prod.collapse)
  with assms show ?thesis by (simp add: encode_new_file_def file_ok_def decode_simps Let_def)
qed

lemma decode_number:
  "edit_decode_loop (encode_number has kLogNumber n [] @ rest) e = edit_decode_loop rest (if has then SetLogNumber n e else e)"
  "edit_decode_loop (encode_number has kPrevLogNumber n [] @ rest) e = edit_decode_loop rest (if has then SetPrevLogNumber n e else e)"
  "edit_decode_loop (encode_number has kNextFileNumber n [] @ rest) e = edit_decode_loop rest (if has then SetNextFile n e else e)"
  "edit_decode_loop (encode_number has kLastSequence n [] @ rest) e = edit_decode_loop rest (if has then SetLastSequence n e else e)"
  by (simp_all add: encode_number_def decode_simps)

lemma fold_append:
  assumes f: "\<And>x dst. f x dst = dst @ f x []"
  shows "fold f xs dst = dst @ concat (map (\<lambda>x. f x []) xs)"
proof (induction xs arbitrary: dst)
  case (Cons x xs)
  have "fold f (x # xs) dst = (dst @ f x []) @ concat (map (\<lambda>x. f x []) xs)"
    unfolding fold_Cons comp_apply Cons.IH by (subst f) (rule refl)
  then show ?case by (simp only: append.assoc list.map concat.simps)
qed simp

lemma decode_all:
  assumes "\<And>x rest e. x \<in> set xs \<Longrightarrow> edit_decode_loop (g x @ rest) e = edit_decode_loop rest (h x e)"
  shows "edit_decode_loop (concat (map g xs) @ rest) e = edit_decode_loop rest (fold h xs e)"
  using assms by (induction xs arbitrary: e) simp_all

lemma encode_prefix:
  "encode_pointer p dst = dst @ encode_pointer p []" "encode_deleted q dst = dst @ encode_deleted q []"
  "encode_new_file f dst = dst @ encode_new_file f []" "encode_number has t n dst = dst @ encode_number has t n []"
  by (simp_all add: encode_pointer_def encode_deleted_def encode_new_file_def encode_number_def PutLengthPrefixedSlice_def
      PutVarint32_def PutVarint64_def Let_def)

definition comparator_bytes :: "VersionEdit \<Rightarrow> byte list" where
  "comparator_bytes e =
     (if has_comparator e then PutLengthPrefixedSlice (PutVarint32 [] (Tag_num kComparator)) (ve_comparator e) else [])"

lemma EncodeTo_bytes:
  "VersionEdit_EncodeTo e dst = dst @ comparator_bytes e @
     encode_number (has_log_number e) kLogNumber (ve_log_number e) [] @
     encode_number (has_prev_log_number e) kPrevLogNumber (ve_prev_log_number e) [] @
     encode_number (has_next_file_number e) kNextFileNumber (ve_next_file_number e) [] @
     encode_number (has_last_sequence e) kLastSequence (ve_last_sequence e) [] @
     concat (map (\<lambda>p. encode_pointer p []) (compact_pointers e)) @
     concat (map (\<lambda>p. encode_deleted p []) (sorted_list_of_set (deleted_files e))) @
     concat (map (\<lambda>p. encode_new_file p []) (new_files e))"
proof -
  have d1: "(if has_comparator e then PutLengthPrefixedSlice (PutVarint32 dst (Tag_num kComparator)) (ve_comparator e) else dst)
      = dst @ comparator_bytes e"
    by (simp add: comparator_bytes_def PutLengthPrefixedSlice_def PutVarint32_def)
  have n: "encode_number has t n (dst @ bs) = dst @ bs @ encode_number has t n []" for has t n bs
    by (subst encode_prefix(4)) simp
  show ?thesis unfolding VersionEdit_EncodeTo_def Let_def d1 n append.assoc fold_append [OF encode_prefix(1)]
      fold_append [OF encode_prefix(2)] fold_append [OF encode_prefix(3)] by (rule refl)
qed

lemma decode_comparator:
  "(has_comparator e \<Longrightarrow> key_ok (ve_comparator e)) \<Longrightarrow> edit_decode_loop (comparator_bytes e @ rest) e' =
     edit_decode_loop rest (if has_comparator e then SetComparatorName (ve_comparator e) e' else e')"
  by (simp add: comparator_bytes_def decode_simps key_ok_def)

lemma fold_setters:
  "fold (\<lambda>p. SetCompactPointer (fst p) (snd p)) ps e = e\<lparr>compact_pointers := compact_pointers e @ ps\<rparr>"
  "fold (\<lambda>p. DeleteFile (fst p) (snd p)) ds e = e\<lparr>deleted_files := set ds \<union> deleted_files e\<rparr>"
  "fold (\<lambda>p e. e\<lparr>new_files := new_files e @ [p]\<rparr>) fs e = e\<lparr>new_files := new_files e @ fs\<rparr>"
  by (induction ps arbitrary: e) (simp_all add: SetCompactPointer_def,
      induction ds arbitrary: e, simp_all add: DeleteFile_def, induction fs arbitrary: e, simp_all)

definition edit_ok :: "VersionEdit \<Rightarrow> bool" where
  "edit_ok e \<longleftrightarrow> key_ok (ve_comparator e) \<and> (\<forall>p \<in> set (compact_pointers e). level_ok (fst p) \<and> key_ok (snd p)) \<and>
     finite (deleted_files e) \<and> (\<forall>p \<in> deleted_files e. level_ok (fst p)) \<and> (\<forall>p \<in> set (new_files e). file_ok p) \<and>
     (has_comparator e \<or> ve_comparator e = []) \<and> (has_log_number e \<or> ve_log_number e = 0) \<and>
     (has_prev_log_number e \<or> ve_prev_log_number e = 0) \<and> (has_next_file_number e \<or> ve_next_file_number e = 0) \<and>
     (has_last_sequence e \<or> ve_last_sequence e = 0)"

lemma edit_decode_loop_Nil: "edit_decode_loop [] e = (None, [], e)"
  by (subst edit_decode_loop.simps) (simp add: GetVarint32_def GetVarint32Ptr_def GetVarint32PtrFallback_def)

lemma decode_encoded:
  assumes "edit_ok e"
  shows "edit_decode_loop (VersionEdit_EncodeTo e []) e0 = (None, [],
    fold (\<lambda>p e. e\<lparr>new_files := new_files e @ [p]\<rparr>) (new_files e)
     (fold (\<lambda>p. DeleteFile (fst p) (snd p)) (sorted_list_of_set (deleted_files e))
      (fold (\<lambda>p. SetCompactPointer (fst p) (snd p)) (compact_pointers e)
       ((if has_last_sequence e then SetLastSequence (ve_last_sequence e) else id)
        ((if has_next_file_number e then SetNextFile (ve_next_file_number e) else id)
         ((if has_prev_log_number e then SetPrevLogNumber (ve_prev_log_number e) else id)
          ((if has_log_number e then SetLogNumber (ve_log_number e) else id)
           ((if has_comparator e then SetComparatorName (ve_comparator e) else id) e0))))))))"
proof -
  have ptr: "edit_decode_loop (concat (map (\<lambda>p. encode_pointer p []) (compact_pointers e)) @ rest) x =
      edit_decode_loop rest (fold (\<lambda>p. SetCompactPointer (fst p) (snd p)) (compact_pointers e) x)" for rest x
    using assms by (intro decode_all decode_pointer) (auto simp: edit_ok_def)
  have del: "edit_decode_loop (concat (map (\<lambda>p. encode_deleted p []) (sorted_list_of_set (deleted_files e))) @ rest) x =
      edit_decode_loop rest (fold (\<lambda>p. DeleteFile (fst p) (snd p)) (sorted_list_of_set (deleted_files e)) x)" for rest x
    using assms by (intro decode_all decode_deleted) (auto simp: edit_ok_def)
  have new: "edit_decode_loop (concat (map (\<lambda>p. encode_new_file p []) (new_files e)) @ rest) x =
      edit_decode_loop rest (fold (\<lambda>p e. e\<lparr>new_files := new_files e @ [p]\<rparr>) (new_files e) x)" for rest x
    using assms by (intro decode_all decode_new_file) (auto simp: edit_ok_def)
  have cmp: "has_comparator e \<Longrightarrow> key_ok (ve_comparator e)" using assms by (simp add: edit_ok_def)
  show ?thesis unfolding EncodeTo_bytes append_Nil
    using new [of "[]"] by (simp add: decode_comparator [OF cmp] decode_number ptr del edit_decode_loop_Nil)
qed

text \<open>C11. Decoding an encoded version edit gives it back, for edits of any size with valid levels. The object it is decoded into
  loses everything but its compaction pointers: these stay in front of the decoded ones, because \<^verbatim>\<open>Clear\<close> does not
  remove them.\<close>

theorem version_edit_roundtrip:
  assumes "edit_ok e"
  shows "VersionEdit_DecodeFrom (VersionEdit_EncodeTo e []) e0 =
    (OK, e\<lparr>compact_pointers := compact_pointers e0 @ compact_pointers e\<rparr>)"
proof -
  have *: "set (sorted_list_of_set (deleted_files e)) = deleted_files e" using assms by (simp add: edit_ok_def)
  show ?thesis unfolding VersionEdit_DecodeFrom_def decode_encoded [OF assms] fold_setters *
    using assms by (cases e; cases e0) (auto simp: edit_ok_def VersionEdit_Clear_def SetComparatorName_def SetLogNumber_def
        SetPrevLogNumber_def SetNextFile_def SetLastSequence_def)
qed

theorem version_edit_roundtrip_witness:
  "VersionEdit_DecodeFrom (VersionEdit_EncodeTo
      (AddFile 2 9 4096 [1] [5] (DeleteFile 1 7 (DeleteFile 0 8 (SetCompactPointer 6 [3] (SetLogNumber 300 VersionEdit_init))))) [])
     (SetCompactPointer 0 [0] VersionEdit_init) =
   (OK, AddFile 2 9 4096 [1] [5] (DeleteFile 1 7 (DeleteFile 0 8
      (SetCompactPointer 6 [3] (SetCompactPointer 0 [0] (SetLogNumber 300 VersionEdit_init))))))"
  using version_edit_roundtrip [of "AddFile 2 9 4096 [1] [5] (DeleteFile 1 7 (DeleteFile 0 8 (SetCompactPointer 6 [3]
      (SetLogNumber 300 VersionEdit_init))))" "SetCompactPointer 0 [0] VersionEdit_init"]
  by (simp add: edit_ok_def AddFile_def DeleteFile_def SetCompactPointer_def SetLogNumber_def VersionEdit_init_def
      VersionEdit_Clear_def key_ok_def level_ok_def file_ok_def FileMetaData_init_def)

section \<open>Decoding any bytes\<close>

definition levels_ok :: "VersionEdit \<Rightarrow> bool" where
  "levels_ok e \<longleftrightarrow> (\<forall>p \<in> set (compact_pointers e). level_ok (fst p)) \<and> (\<forall>p \<in> deleted_files e. level_ok (fst p)) \<and>
     (\<forall>p \<in> set (new_files e). level_ok (fst p)) \<and> finite (deleted_files e)"

lemma GetLevel_ok: "GetLevel input = (Some level, q) \<Longrightarrow> level_ok level"
proof -
  assume "GetLevel input = (Some level, q)"
  then obtain v where v: "level = uint v" "v < kNumLevels" by (auto simp: GetLevel_def split: prod.splits option.splits if_splits)
  then have "uint v < 7" by (simp add: word_less_def kNumLevels_def)
  with v show ?thesis by (simp add: level_ok_def)
qed

lemma edit_decode_field_levels:
  assumes "edit_decode_field tag input e = (Inr e', q)" and "levels_ok e"
  shows "levels_ok e'"
  using assms
  by (auto simp: edit_decode_field_def or_msg_def get_then_def get_done_def levels_ok_def AddFile_def DeleteFile_def
      SetCompactPointer_def SetComparatorName_def SetLogNumber_def SetPrevLogNumber_def SetNextFile_def SetLastSequence_def
      dest!: GetLevel_ok split: if_splits prod.splits option.splits)

lemma edit_decode_loop_levels: "edit_decode_loop input e = (msg, q, e') \<Longrightarrow> levels_ok e \<Longrightarrow> levels_ok e'"
proof (induction input e rule: edit_decode_loop.induct)
  case (1 input e)
  obtain tag input1 where g: "GetVarint32 input = (tag, input1)" by fastforce
  show ?case
  proof (cases tag)
    case None
    then show ?thesis using "1.prems" g by (subst (asm) edit_decode_loop.simps) simp
  next
    case (Some t)
    obtain r input2 where f: "edit_decode_field t input1 e = (r, input2)" by fastforce
    show ?thesis
    proof (cases r)
      case (Inl m)
      then show ?thesis using "1.prems" g Some f by (subst (asm) edit_decode_loop.simps) simp
    next
      case (Inr e1)
      then have "edit_decode_loop input2 e1 = (msg, q, e')" using "1.prems"(1) g Some f by (subst (asm) edit_decode_loop.simps) simp
      then show ?thesis
        using "1.IH" [OF g [symmetric] Some f [symmetric] Inr] edit_decode_field_levels [of t input1 e e1 input2] f Inr "1.prems"(2)
        by simp
    qed
  qed
qed

text \<open>C34. Whatever bytes a version edit is decoded from, and whether or not decoding reports a corruption, all levels in it are
  levels of the database: the files and pointers of a damaged manifest never index past the arrays of levels.\<close>

theorem version_edit_levels:
  assumes "\<forall>p \<in> set (compact_pointers e). level_ok (fst p)"
  shows "levels_ok (snd (VersionEdit_DecodeFrom src e))"
proof -
  obtain msg q e' where d: "edit_decode_loop src (VersionEdit_Clear e) = (msg, q, e')" by (metis surj_pair)
  have "levels_ok (VersionEdit_Clear e)" using assms by (simp add: levels_ok_def VersionEdit_Clear_def)
  from edit_decode_loop_levels [OF d this] d show ?thesis by (auto simp: VersionEdit_DecodeFrom_def split: option.splits)
qed

theorem version_edit_levels_witness:
  "levels_ok (snd (VersionEdit_DecodeFrom [5, 7, 1, 65] VersionEdit_init))"
  by (rule version_edit_levels) (simp add: VersionEdit_init_def VersionEdit_Clear_def)

end
