(* ===== verification/LDB_Posix_Env.thy ===== *)
theory LDB_Posix_Env
  imports LDB_Env
begin

text \<open>
  The environment of LevelDB on POSIX systems: the rest of \<^verbatim>\<open>PosixWritableFile\<close>, the files of \<^verbatim>\<open>PosixEnv\<close>
  (\<^verbatim>\<open>util/env_posix.cc\<close>), and the functions of \<^verbatim>\<open>util/env.cc\<close> that write and read a whole file. The system calls have their
  POSIX meaning on a map from names to files; whether each call succeeds is decided by the plan, as in the theory of files.
  The history lists the file systems after every call that changed one, which is what another process or a crash can see.
\<close>

section \<open>System calls\<close>

text \<open>The outcome of a call that transfers no bytes: \<open>None\<close> for success, or the error number.\<close>

fun sys_call :: "outcome list \<Rightarrow> nat option \<times> outcome list" where
  "sys_call [] = (None, [])"
| "sys_call (Errno e # plan) = (Some e, plan)"
| "sys_call (Transferred _ # plan) = (None, plan)"

text \<open>A file in the file system: its bytes, and how many of them, from the start, a crash leaves in place.\<close>

type_synonym os_files = "string \<rightharpoonup> byte list \<times> nat"

record posix_env =
  en_files :: os_files
  en_plan :: "outcome list"
  en_strerror :: "nat \<Rightarrow> string"
  en_history :: "os_files list"

definition en_change :: "os_files \<Rightarrow> posix_env \<Rightarrow> posix_env" where
  "en_change files env = env\<lparr>en_files := files, en_history := en_history env @ [files]\<rparr>"

section \<open>Writable files\<close>

definition Dirname :: "string \<Rightarrow> string" where
  "Dirname filename =
     (if CHR ''/'' \<notin> set filename then ''.'' else rev (tl (dropWhile (\<lambda>ch. ch \<noteq> CHR ''/'') (rev filename))))"

definition Basename :: "string \<Rightarrow> string" where
  "Basename filename = rev (takeWhile (\<lambda>ch. ch \<noteq> CHR ''/'') (rev filename))"

definition IsManifest :: "string \<Rightarrow> bool" where
  "IsManifest filename \<longleftrightarrow> take 8 (Basename filename) = ''MANIFEST''"

text \<open>The build defines \<^verbatim>\<open>HAVE_FULLFSYNC\<close>: \<^verbatim>\<open>fcntl(F_FULLFSYNC)\<close>, and \<^verbatim>\<open>fsync\<close> on file systems that do not support it.\<close>

definition SyncFd :: "string \<Rightarrow> (nat \<Rightarrow> string) \<Rightarrow> outcome list \<Rightarrow> Status \<times> outcome list" where
  "SyncFd fd_path strerror plan =
     (case sys_call plan of
        (None, plan1) \<Rightarrow> (OK, plan1)
      | (Some _, plan1) \<Rightarrow>
          (case sys_call plan1 of
             (None, plan2) \<Rightarrow> (OK, plan2)
           | (Some e, plan2) \<Rightarrow> (PosixError fd_path (strerror e) e, plan2)))"

definition SyncDirIfManifest :: "PosixWritableFile \<Rightarrow> Status \<times> PosixWritableFile" where
  "SyncDirIfManifest w =
     (let f = pf_os w; dirname = Dirname (os_name f); keep = (\<lambda>plan. w\<lparr>pf_os := f\<lparr>os_plan := plan\<rparr>\<rparr>) in
      if \<not> IsManifest (os_name f) then (OK, w)
      else
        case sys_call (os_plan f) of
          (Some e, plan1) \<Rightarrow> (PosixError dirname (os_strerror f e) e, keep plan1)
        | (None, plan1) \<Rightarrow>
            (case SyncFd dirname (os_strerror f) plan1 of (status, plan2) \<Rightarrow> (status, keep (snd (sys_call plan2)))))"

definition Posix_Sync :: "PosixWritableFile \<Rightarrow> Status \<times> PosixWritableFile" where
  "Posix_Sync w =
     (case SyncDirIfManifest w of (status, w1) \<Rightarrow>
        if \<not> Status_ok status then (status, w1)
        else case FlushBuffer w1 of (status, w2) \<Rightarrow>
          if \<not> Status_ok status then (status, w2)
          else
            let f = pf_os w2 in
            case SyncFd (os_name f) (os_strerror f) (os_plan f) of (status, plan) \<Rightarrow>
              (status, w2\<lparr>pf_os := (if Status_ok status then os_sync else id) (f\<lparr>os_plan := plan\<rparr>)\<rparr>))"

definition Posix_Close :: "PosixWritableFile \<Rightarrow> Status \<times> PosixWritableFile" where
  "Posix_Close w =
     (case FlushBuffer w of (status, w1) \<Rightarrow>
        let f = pf_os w1; (close_result, plan) = sys_call (os_plan f); w2 = w1\<lparr>pf_os := f\<lparr>os_plan := plan\<rparr>\<rparr> in
        (case close_result of
           Some e \<Rightarrow> (if Status_ok status then posix_error f e else status)
         | None \<Rightarrow> status, w2))"

section \<open>The file system\<close>

text \<open>An opened file takes the plan with it, and \<open>en_close\<close> gives its bytes and the rest of the plan back.\<close>

definition en_open :: "string \<Rightarrow> byte list \<times> nat \<Rightarrow> posix_env \<Rightarrow> os_file" where
  "en_open filename contents env =
     \<lparr>os_data = fst contents, os_plan = en_plan env, os_name = filename, os_strerror = en_strerror env, os_before = [], os_gap = 0,
      os_synced = snd contents, os_history = []\<rparr>"

definition en_close :: "os_file \<Rightarrow> posix_env \<Rightarrow> posix_env" where
  "en_close f env =
     env\<lparr>en_files := (en_files env)(os_name f \<mapsto> (os_data f, os_synced f)), en_plan := os_plan f,
         en_history := en_history env @ map (\<lambda>x. (en_files env)(os_name f \<mapsto> x)) (os_history f)\<rparr>"

definition NewSequentialFile :: "string \<Rightarrow> posix_env \<Rightarrow> (Status + os_file) \<times> posix_env" where
  "NewSequentialFile filename env =
     (case sys_call (en_plan env) of
        (Some e, plan) \<Rightarrow> (Inl (PosixError filename (en_strerror env e) e), env\<lparr>en_plan := plan\<rparr>)
      | (None, plan) \<Rightarrow>
          let env1 = env\<lparr>en_plan := plan\<rparr> in
          (case en_files env filename of
             None \<Rightarrow> (Inl (PosixError filename (en_strerror env ENOENT) ENOENT), env1)
           | Some contents \<Rightarrow> (Inr (en_open filename contents env1), env1)))"

definition NewWritableFile :: "string \<Rightarrow> posix_env \<Rightarrow> (Status + PosixWritableFile) \<times> posix_env" where
  "NewWritableFile filename env =
     (case sys_call (en_plan env) of
        (Some e, plan) \<Rightarrow> (Inl (PosixError filename (en_strerror env e) e), env\<lparr>en_plan := plan\<rparr>)
      | (None, plan) \<Rightarrow>
          let env1 = en_change ((en_files env)(filename \<mapsto> ([], 0))) (env\<lparr>en_plan := plan\<rparr>) in
          (Inr \<lparr>pf_buf = [], pf_os = en_open filename ([], 0) env1\<rparr>, env1))"

definition NewAppendableFile :: "string \<Rightarrow> posix_env \<Rightarrow> (Status + PosixWritableFile) \<times> posix_env" where
  "NewAppendableFile filename env =
     (case sys_call (en_plan env) of
        (Some e, plan) \<Rightarrow> (Inl (PosixError filename (en_strerror env e) e), env\<lparr>en_plan := plan\<rparr>)
      | (None, plan) \<Rightarrow>
          let contents = (case en_files env filename of Some c \<Rightarrow> c | None \<Rightarrow> ([], 0));
              env1 = en_change ((en_files env)(filename \<mapsto> contents)) (env\<lparr>en_plan := plan\<rparr>) in
          (Inr \<lparr>pf_buf = [], pf_os = en_open filename contents env1\<rparr>, env1))"

definition FileExists :: "string \<Rightarrow> posix_env \<Rightarrow> bool \<times> posix_env" where
  "FileExists filename env =
     (case sys_call (en_plan env) of
        (r, plan) \<Rightarrow> (r = None \<and> en_files env filename \<noteq> None, env\<lparr>en_plan := plan\<rparr>))"

definition GetFileSize :: "string \<Rightarrow> posix_env \<Rightarrow> Status \<times> u64 \<times> posix_env" where
  "GetFileSize filename env =
     (case sys_call (en_plan env) of
        (Some e, plan) \<Rightarrow> (PosixError filename (en_strerror env e) e, 0, env\<lparr>en_plan := plan\<rparr>)
      | (None, plan) \<Rightarrow>
          (case en_files env filename of
             None \<Rightarrow> (PosixError filename (en_strerror env ENOENT) ENOENT, 0, env\<lparr>en_plan := plan\<rparr>)
           | Some (bs, _) \<Rightarrow> (OK, of_nat (length bs), env\<lparr>en_plan := plan\<rparr>)))"

definition Posix_DeleteFile :: "string \<Rightarrow> posix_env \<Rightarrow> Status \<times> posix_env" where
  "Posix_DeleteFile filename env =
     (case sys_call (en_plan env) of
        (Some e, plan) \<Rightarrow> (PosixError filename (en_strerror env e) e, env\<lparr>en_plan := plan\<rparr>)
      | (None, plan) \<Rightarrow>
          if en_files env filename = None
          then (PosixError filename (en_strerror env ENOENT) ENOENT, env\<lparr>en_plan := plan\<rparr>)
          else (OK, en_change ((en_files env)(filename := None)) (env\<lparr>en_plan := plan\<rparr>)))"

text \<open>\<^verbatim>\<open>rename\<close> replaces the target in one step, as POSIX demands of it.\<close>

definition RenameFile :: "string \<Rightarrow> string \<Rightarrow> posix_env \<Rightarrow> Status \<times> posix_env" where
  "RenameFile from to env =
     (case sys_call (en_plan env) of
        (Some e, plan) \<Rightarrow> (PosixError from (en_strerror env e) e, env\<lparr>en_plan := plan\<rparr>)
      | (None, plan) \<Rightarrow>
          if en_files env from = None then (PosixError from (en_strerror env ENOENT) ENOENT, env\<lparr>en_plan := plan\<rparr>)
          else (OK, en_change ((en_files env)(from := None, to := en_files env from)) (env\<lparr>en_plan := plan\<rparr>)))"

section \<open>Whole files\<close>

text \<open>The destructor closes a file that \<^verbatim>\<open>Close\<close> was not called for, and ignores the result.\<close>

definition DoWriteStringToFile :: "posix_env \<Rightarrow> byte list \<Rightarrow> string \<Rightarrow> bool \<Rightarrow> Status \<times> posix_env" where
  "DoWriteStringToFile env data fname should_sync =
     (case NewWritableFile fname env of
        (Inl s, env1) \<Rightarrow> (s, env1)
      | (Inr file, env1) \<Rightarrow>
          let (s1, file1) = Posix_Append file data;
              (s2, file2) = (if Status_ok s1 \<and> should_sync then Posix_Sync file1 else (s1, file1));
              (s3, file3) = (if Status_ok s2 then Posix_Close file2 else (s2, snd (Posix_Close file2)));
              env2 = en_close (pf_os file3) env1 in
          if \<not> Status_ok s3 then (s3, snd (Posix_DeleteFile fname env2)) else (s3, env2))"

definition WriteStringToFile :: "posix_env \<Rightarrow> byte list \<Rightarrow> string \<Rightarrow> Status \<times> posix_env" where
  "WriteStringToFile env data fname = DoWriteStringToFile env data fname False"

definition WriteStringToFileSync :: "posix_env \<Rightarrow> byte list \<Rightarrow> string \<Rightarrow> Status \<times> posix_env" where
  "WriteStringToFileSync env data fname = DoWriteStringToFile env data fname True"

definition kReadBufferSize :: nat where "kReadBufferSize = 8192"

function read_string_loop :: "byte list \<Rightarrow> os_file \<Rightarrow> Status \<times> byte list \<times> os_file" where
  "read_string_loop data f =
     (case Posix_Read kReadBufferSize f of (s, fragment, f1) \<Rightarrow>
        if \<not> Status_ok s then (s, data, f1)
        else if fragment = [] then (s, data, f1)
        else read_string_loop (data @ fragment) f1)"
  by pat_completeness auto
termination
proof (relation "measure (\<lambda>(_, f). length (os_data f))", goal_cases)
  case (2 data f s y fragment f1)
  then have "os_data f = fragment @ os_data f1" "fragment \<noteq> []" using Posix_Read_rest [of kReadBufferSize f s fragment f1] by auto
  then show ?case by simp
qed simp

declare read_string_loop.simps [simp del]

definition ReadFileToString :: "posix_env \<Rightarrow> string \<Rightarrow> Status \<times> byte list \<times> posix_env" where
  "ReadFileToString env fname =
     (case NewSequentialFile fname env of
        (Inl s, env1) \<Rightarrow> (s, [], env1)
      | (Inr file, env1) \<Rightarrow>
          (case read_string_loop [] file of (s, data, f) \<Rightarrow> (s, data, env1\<lparr>en_plan := snd (sys_call (os_plan f))\<rparr>)))"

section \<open>What writing a file changes\<close>

text \<open>A run of calls that changes no files but the ones of a set, in all file systems it passes through.\<close>

definition only_touches :: "string set \<Rightarrow> posix_env \<Rightarrow> posix_env \<Rightarrow> bool" where
  "only_touches F env env' \<longleftrightarrow>
     (\<exists>h. en_history env' = en_history env @ h \<and> (\<forall>g \<in> set h. \<forall>f. f \<notin> F \<longrightarrow> g f = en_files env f)) \<and>
     (\<forall>f. f \<notin> F \<longrightarrow> en_files env' f = en_files env f)"

lemma only_touches_trans:
  assumes "only_touches F env env1" "only_touches F env1 env2"
  shows "only_touches F env env2"
proof -
  obtain h1 h2 where h: "en_history env1 = en_history env @ h1" "en_history env2 = en_history env1 @ h2"
    and g: "\<forall>g \<in> set h1. \<forall>f. f \<notin> F \<longrightarrow> g f = en_files env f" "\<forall>g \<in> set h2. \<forall>f. f \<notin> F \<longrightarrow> g f = en_files env1 f"
    using assms unfolding only_touches_def by blast
  have "\<forall>f. f \<notin> F \<longrightarrow> en_files env1 f = en_files env f" "\<forall>f. f \<notin> F \<longrightarrow> en_files env2 f = en_files env1 f"
    using assms unfolding only_touches_def by blast+
  then show ?thesis using h g unfolding only_touches_def by (intro conjI exI [of _ "h1 @ h2"]) auto
qed

lemma only_touches_plan [simp]: "only_touches F env (env\<lparr>en_plan := plan\<rparr>)"
  by (simp add: only_touches_def)

lemma only_touches_change:
  "(\<And>f. f \<notin> F \<Longrightarrow> files f = en_files env f) \<Longrightarrow> only_touches F env (en_change files (env\<lparr>en_plan := plan\<rparr>))"
  by (simp add: only_touches_def en_change_def)

lemma only_touches_close: "only_touches {os_name f} env (en_close f env)"
  unfolding only_touches_def by (intro conjI exI [of _ "map (\<lambda>x. (en_files env)(os_name f \<mapsto> x)) (os_history f)"]) (auto simp: en_close_def)

lemma Posix_DeleteFile_touches: "only_touches {filename} env (snd (Posix_DeleteFile filename env))"
  by (auto simp: Posix_DeleteFile_def intro!: only_touches_change split: prod.splits option.splits if_splits)

lemma WriteUnbuffered_name: "os_name (snd (WriteUnbuffered data f)) = os_name f"
proof (induction data f rule: WriteUnbuffered.induct)
  case (1 data f)
  then show ?case by (subst WriteUnbuffered.simps) (auto split: list.splits outcome.splits)
qed

lemma FlushBuffer_name: "os_name (pf_os (snd (FlushBuffer w))) = os_name (pf_os w)"
  using WriteUnbuffered_name [of "pf_buf w" "pf_os w"] by (simp add: FlushBuffer_def case_prod_unfold)

lemma Posix_Append_name: "os_name (pf_os (snd (Posix_Append w data))) = os_name (pf_os w)"
proof -
  define n where "n = min (length data) (kWritableFileBufferSize - length (pf_buf w))"
  obtain s w2 where f: "FlushBuffer (w\<lparr>pf_buf := pf_buf w @ take n data\<rparr>) = (s, w2)" by fastforce
  obtain s2 os where u: "WriteUnbuffered (drop n data) (pf_os w2) = (s2, os)" by fastforce
  have "os_name (pf_os w2) = os_name (pf_os w)" "os_name os = os_name (pf_os w2)"
    using FlushBuffer_name [of "w\<lparr>pf_buf := pf_buf w @ take n data\<rparr>"] f WriteUnbuffered_name [of "drop n data" "pf_os w2"] u by simp_all
  then show ?thesis using f u by (simp add: Posix_Append_def Let_def n_def [symmetric])
qed

lemma Posix_Close_name: "os_name (pf_os (snd (Posix_Close w))) = os_name (pf_os w)"
  using FlushBuffer_name [of w] by (simp add: Posix_Close_def Let_def case_prod_unfold)

lemma SyncDirIfManifest_frame:
  "pf_buf (snd (SyncDirIfManifest w)) = pf_buf w" "os_data (pf_os (snd (SyncDirIfManifest w))) = os_data (pf_os w)"
  "os_name (pf_os (snd (SyncDirIfManifest w))) = os_name (pf_os w)"
  by (simp_all add: SyncDirIfManifest_def Let_def split: prod.splits option.splits)

lemma Posix_Sync_name: "os_name (pf_os (snd (Posix_Sync w))) = os_name (pf_os w)"
proof -
  obtain s w1 where d: "SyncDirIfManifest w = (s, w1)" by fastforce
  obtain s2 w2 where f: "FlushBuffer w1 = (s2, w2)" by fastforce
  have "os_name (pf_os w1) = os_name (pf_os w)" "os_name (pf_os w2) = os_name (pf_os w1)"
    using SyncDirIfManifest_frame(3) [of w] d FlushBuffer_name [of w1] f by simp_all
  then show ?thesis using d f by (auto simp: Posix_Sync_def Let_def os_sync_def split: prod.splits)
qed

lemma Posix_Sync_OK:
  assumes "Posix_Sync w = (OK, w')"
  shows "pf_buf w' = [] \<and> os_data (pf_os w') = os_data (pf_os w) @ pf_buf w \<and> os_synced (pf_os w') = length (os_data (pf_os w'))"
proof -
  obtain s w1 where d: "SyncDirIfManifest w = (s, w1)" by fastforce
  obtain s2 w2 where f: "FlushBuffer w1 = (s2, w2)" by fastforce
  have ok: "s = OK" "s2 = OK" using assms d f by (auto simp: Posix_Sync_def Status_ok_def Let_def split: if_splits)
  have 1: "pf_buf w1 = pf_buf w" "os_data (pf_os w1) = os_data (pf_os w)" using SyncDirIfManifest_frame(1,2) [of w] d by simp_all
  have 2: "os_data (pf_os w2) = os_data (pf_os w1) @ pf_buf w1" "pf_buf w2 = []" using FlushBuffer_OK f ok(2) by blast+
  show ?thesis using assms d f ok 1 2
    by (auto simp: Posix_Sync_def Status_ok_def Let_def split: prod.splits if_splits)
qed

text \<open>\<^verbatim>\<open>Close\<close> after a successful \<^verbatim>\<open>Sync\<close> has nothing to write.\<close>

lemma Posix_Close_flushed:
  "pf_buf w = [] \<Longrightarrow> os_data (pf_os (snd (Posix_Close w))) = os_data (pf_os w) \<and>
     os_synced (pf_os (snd (Posix_Close w))) = os_synced (pf_os w)"
  by (auto simp: Posix_Close_def FlushBuffer_def WriteUnbuffered.simps Let_def split: prod.splits)

lemma Posix_Close_OK: "Posix_Close w = (OK, w') \<Longrightarrow> os_data (pf_os w') = os_data (pf_os w) @ pf_buf w"
proof -
  assume c: "Posix_Close w = (OK, w')"
  obtain s w1 where f: "FlushBuffer w = (s, w1)" by fastforce
  have "s = OK" using c f by (auto simp: Posix_Close_def Let_def Status_ok_def posix_error_def PosixError_def Status_init_def
        split: prod.splits option.splits if_splits)
  then show ?thesis using FlushBuffer_OK [of w w1] f c by (auto simp: Posix_Close_def Let_def split: prod.splits)
qed

lemma NewWritableFile_touches:
  "only_touches {filename} env (snd (NewWritableFile filename env))"
  "NewWritableFile filename env = (Inr w, env1) \<Longrightarrow> pf_buf w = [] \<and> os_data (pf_os w) = [] \<and> os_name (pf_os w) = filename"
  "NewWritableFile filename env = (Inl s, env1) \<Longrightarrow> s \<noteq> OK"
  by (auto simp: NewWritableFile_def Let_def en_open_def PosixError_def Status_init_def intro!: only_touches_change
      split: prod.splits option.splits if_splits)

lemma DoWriteStringToFile_effect:
  assumes "DoWriteStringToFile env data fname should_sync = (s, env')"
  shows "only_touches {fname} env env'"
    and "s = OK \<Longrightarrow> \<exists>k. en_files env' fname = Some (data, k) \<and> (should_sync \<longrightarrow> k = length data)"
proof -
  obtain r env1 where n: "NewWritableFile fname env = (r, env1)" by fastforce
  have t1: "only_touches {fname} env env1" using NewWritableFile_touches(1) [of fname env] n by simp
  have both: "only_touches {fname} env env' \<and>
      (s = OK \<longrightarrow> (\<exists>k. en_files env' fname = Some (data, k) \<and> (should_sync \<longrightarrow> k = length data)))"
  proof (cases r)
    case (Inl x)
    then show ?thesis using assms n t1 NewWritableFile_touches(3) [of fname env x env1] by (auto simp: DoWriteStringToFile_def)
  next
    case (Inr w)
    note w = NewWritableFile_touches(2) [OF n [unfolded Inr]]
    obtain s1 w1 where a: "Posix_Append w data = (s1, w1)" by fastforce
    obtain s2 w2 where y: "(if Status_ok s1 \<and> should_sync then Posix_Sync w1 else (s1, w1)) = (s2, w2)" by fastforce
    obtain s3 w3 where c: "(if Status_ok s2 then Posix_Close w2 else (s2, snd (Posix_Close w2))) = (s3, w3)" by fastforce
    let ?env2 = "en_close (pf_os w3) env1"
    have r: "s = s3" "env' = (if \<not> Status_ok s3 then snd (Posix_DeleteFile fname ?env2) else ?env2)"
      using assms n Inr a y c by (auto simp: DoWriteStringToFile_def Let_def split: if_splits)
    have nm: "os_name (pf_os w1) = fname" "os_name (pf_os w2) = os_name (pf_os w1)" "os_name (pf_os w3) = os_name (pf_os w2)"
      using w a y c Posix_Append_name [of w data] Posix_Sync_name [of w1] Posix_Close_name [of w2] by (auto split: if_splits)
    then have "only_touches {fname} env1 ?env2" using only_touches_close [of "pf_os w3" env1] by simp
    with t1 have "only_touches {fname} env ?env2" by (rule only_touches_trans)
    then have "only_touches {fname} env env'" unfolding r(2) using only_touches_trans Posix_DeleteFile_touches by auto
    moreover have "\<exists>k. en_files env' fname = Some (data, k) \<and> (should_sync \<longrightarrow> k = length data)" if "s = OK"
    proof -
      have ok: "s2 = OK" "s1 = OK" "Posix_Close w2 = (OK, w3)" using that r(1) c y by (auto simp: Status_ok_def split: if_splits)
      have acc: "os_data (pf_os w1) @ pf_buf w1 = data" using posix.append_ok [of w data w1] a ok(2) w by simp
      have "os_data (pf_os w3) = data \<and> (should_sync \<longrightarrow> os_synced (pf_os w3) = length data)"
      proof (cases should_sync)
        case True
        then have "Posix_Sync w1 = (OK, w2)" using y ok by (simp add: Status_ok_def)
        from Posix_Sync_OK [OF this] Posix_Close_flushed [of w2] ok(3) acc show ?thesis by simp
      next
        case False
        then show ?thesis using y ok(3) acc Posix_Close_OK by auto
      qed
      then show ?thesis using that r nm by (auto simp: en_close_def Status_ok_def)
    qed
    ultimately show ?thesis by blast
  qed
  then show "only_touches {fname} env env'" by blast
  show "s = OK \<Longrightarrow> \<exists>k. en_files env' fname = Some (data, k) \<and> (should_sync \<longrightarrow> k = length data)" using both by blast
qed

section \<open>Reading back\<close>

lemma read_string_loop_full:
  "os_plan f = [] \<Longrightarrow> \<exists>f'. read_string_loop data f = (OK, data @ os_data f, f') \<and> os_plan f' = []"
proof (induction data f rule: read_string_loop.induct)
  case (1 data f)
  have r: "Posix_Read kReadBufferSize f = (OK, take kReadBufferSize (os_data f), os_advance kReadBufferSize f)"
    using "1.prems" by (subst Posix_Read.simps) simp
  show ?case
  proof (cases "os_data f = []")
    case True
    then show ?thesis using "1.prems" by (subst read_string_loop.simps) (simp add: r Status_ok_def)
  next
    case False
    then have ne: "take kReadBufferSize (os_data f) \<noteq> []" by (simp add: kReadBufferSize_def)
    from "1.IH" [OF r [symmetric] refl _ ne] "1.prems" ne show ?thesis
      by (subst read_string_loop.simps) (simp add: r Status_ok_def)
  qed
qed

lemma ReadFileToString_full:
  assumes "en_files env fname = Some (data, k)" "en_plan env = []"
  shows "ReadFileToString env fname = (OK, data, env)"
proof -
  have o: "os_data (en_open fname (data, k) env) = data" "os_plan (en_open fname (data, k) env) = []"
    using assms(2) by (simp_all add: en_open_def)
  have e: "env\<lparr>en_plan := []\<rparr> = env" using assms(2) by (cases env) simp
  from read_string_loop_full [OF o(2), of "[]"] obtain f' where
    "read_string_loop [] (en_open fname (data, k) env) = (OK, data, f')" "os_plan f' = []" by (auto simp: o)
  then show ?thesis using assms by (simp add: ReadFileToString_def NewSequentialFile_def Let_def e)
qed

end
