(* ===== verification/LDB_Filename.thy ===== *)
theory LDB_Filename
  imports LDB_Logging LDB_Posix_Env
begin

text \<open>
  The names of LevelDB's files (\<^verbatim>\<open>db/filename.h\<close>, \<^verbatim>\<open>db/filename.cc\<close>): their construction, \<^verbatim>\<open>ParseFileName\<close>, and
  \<^verbatim>\<open>SetCurrentFile\<close> over the files of the POSIX environment. Parsing inverts every constructor of a name. The constructors of
  numbered names (\<^verbatim>\<open>LogFileName\<close>, \<^verbatim>\<open>TableFileName\<close>, \<^verbatim>\<open>SSTTableFileName\<close>, \<^verbatim>\<open>DescriptorFileName\<close> and \<^verbatim>\<open>TempFileName\<close>) assert that
  the number is positive: this is a requirement on the caller, and the theorems about them assume it.
\<close>

section \<open>Names\<close>

datatype FileType = kLogFile | kDBLockFile | kTableFile | kDescriptorFile | kCurrentFile | kTempFile | kInfoLogFile

definition MakeFileName :: "string \<Rightarrow> u64 \<Rightarrow> string \<Rightarrow> string" where
  "MakeFileName dbname number suffix = dbname @ ''/'' @ print_padded 6 (unat number) @ ''.'' @ suffix"

definition LogFileName :: "string \<Rightarrow> u64 \<Rightarrow> string" where
  "LogFileName dbname number = MakeFileName dbname number ''log''"

definition TableFileName :: "string \<Rightarrow> u64 \<Rightarrow> string" where
  "TableFileName dbname number = MakeFileName dbname number ''ldb''"

definition SSTTableFileName :: "string \<Rightarrow> u64 \<Rightarrow> string" where
  "SSTTableFileName dbname number = MakeFileName dbname number ''sst''"

definition DescriptorFileName :: "string \<Rightarrow> u64 \<Rightarrow> string" where
  "DescriptorFileName dbname number = dbname @ ''/MANIFEST-'' @ print_padded 6 (unat number)"

definition CurrentFileName :: "string \<Rightarrow> string" where
  "CurrentFileName dbname = dbname @ ''/CURRENT''"

definition LockFileName :: "string \<Rightarrow> string" where
  "LockFileName dbname = dbname @ ''/LOCK''"

definition TempFileName :: "string \<Rightarrow> u64 \<Rightarrow> string" where
  "TempFileName dbname number = MakeFileName dbname number ''dbtmp''"

definition InfoLogFileName :: "string \<Rightarrow> string" where
  "InfoLogFileName dbname = dbname @ ''/LOG''"

definition OldInfoLogFileName :: "string \<Rightarrow> string" where
  "OldInfoLogFileName dbname = dbname @ ''/LOG.old''"

text \<open>\<open>None\<close> is the return value \<^verbatim>\<open>false\<close>; the variable \<^verbatim>\<open>num\<close> is not initialised before it is set.\<close>

definition ParseFileName :: "string \<Rightarrow> (u64 \<times> FileType) option" where
  "ParseFileName filename =
     (if filename = ''CURRENT'' then Some (0, kCurrentFile)
      else if filename = ''LOCK'' then Some (0, kDBLockFile)
      else if filename = ''LOG'' \<or> filename = ''LOG.old'' then Some (0, kInfoLogFile)
      else if take 9 filename = ''MANIFEST-'' then
        (case ConsumeDecimalNumber (drop 9 filename) 0 of (ok, num, rest) \<Rightarrow>
           if \<not> ok then None else if rest \<noteq> [] then None else Some (num, kDescriptorFile))
      else
        (case ConsumeDecimalNumber filename 0 of (ok, num, suffix) \<Rightarrow>
           if \<not> ok then None
           else if suffix = ''.log'' then Some (num, kLogFile)
           else if suffix = ''.sst'' \<or> suffix = ''.ldb'' then Some (num, kTableFile)
           else if suffix = ''.dbtmp'' then Some (num, kTempFile)
           else None))"

section \<open>The current manifest\<close>

definition string_bytes :: "string \<Rightarrow> byte list" where
  "string_bytes s = map of_char s"

definition SetCurrentFile :: "posix_env \<Rightarrow> string \<Rightarrow> u64 \<Rightarrow> Status \<times> posix_env" where
  "SetCurrentFile env dbname descriptor_number =
     (let manifest = DescriptorFileName dbname descriptor_number;
          contents = drop (length dbname + 1) manifest;
          tmp = TempFileName dbname descriptor_number;
          (s, env1) = WriteStringToFileSync env (string_bytes (contents @ [char_of (10 :: nat)])) tmp;
          (s2, env2) = (if Status_ok s then RenameFile tmp (CurrentFileName dbname) env1 else (s, env1));
          env3 = (if \<not> Status_ok s2 then snd (Posix_DeleteFile tmp env2) else env2) in
      (s2, env3))"

section \<open>Parsing names\<close>

lemma print_unsigned_digits: "\<forall>ch \<in> set (print_unsigned n). is_digit ch"
proof (induction n rule: print_unsigned.induct)
  case (1 n)
  show ?case using "1.IH" by (subst print_unsigned.simps) (auto simp: is_digit_def)
qed

lemma decimal_print_unsigned: "decimal 0 (print_unsigned n) = n"
proof (induction n rule: print_unsigned.induct)
  case (1 n)
  show ?case using "1.IH" by (subst print_unsigned.simps) (auto simp: algebra_simps)
qed

lemma print_unsigned_nonempty: "print_unsigned n \<noteq> []"
  by (subst print_unsigned.simps) simp

lemma decimal_zeros: "decimal 0 (replicate k (CHR ''0'') @ ds) = decimal 0 ds"
  by (induction k) simp_all

lemma print_padded:
  "\<forall>ch \<in> set (print_padded w n). is_digit ch" "decimal 0 (print_padded w n) = n" "print_padded w n \<noteq> []"
  using print_unsigned_digits [of n] print_unsigned_nonempty [of n] decimal_print_unsigned [of n]
  by (auto simp: print_padded_def Let_def decimal_zeros is_digit_def simp del: decimal_simps)

lemma consume_padded:
  assumes "suffix = [] \<or> \<not> is_digit (hd suffix)"
  shows "ConsumeDecimalNumber (print_padded w (unat n) @ suffix) val = (True, n, suffix)"
proof -
  have "takeWhile is_digit suffix = []" using assms by (cases suffix) auto
  then have tw: "takeWhile is_digit (print_padded w (unat n) @ suffix) = print_padded w (unat n)"
    using print_padded(1) [of w "unat n"] by (simp add: takeWhile_append2)
  have "unat n < 2 ^ 64" using unsigned_less [of n, where 'a = nat] by simp
  then show ?thesis unfolding ConsumeDecimalNumber_value tw Let_def print_padded(2) using print_padded(3) [of w "unat n"] by simp
qed

lemma padded_hd: "\<exists>ch ds. print_padded w n = ch # ds \<and> is_digit ch"
  using print_padded(1,3) [of w n] by (cases "print_padded w n") auto

lemma parse_numbered:
  assumes "suffix = ''log'' \<and> t = kLogFile \<or> suffix = ''ldb'' \<and> t = kTableFile \<or> suffix = ''sst'' \<and> t = kTableFile
      \<or> suffix = ''dbtmp'' \<and> t = kTempFile"
  shows "ParseFileName (drop (length dbname + 1) (MakeFileName dbname n suffix)) = Some (n, t)"
proof -
  obtain ch ds where p: "print_padded 6 (unat n) = ch # ds" "is_digit ch" using padded_hd by blast
  have "ch \<noteq> CHR ''C''" "ch \<noteq> CHR ''L''" "ch \<noteq> CHR ''M''" using p(2) by (auto simp: is_digit_def)
  moreover have "ConsumeDecimalNumber (print_padded 6 (unat n) @ CHR ''.'' # suffix) 0 = (True, n, CHR ''.'' # suffix)"
    by (rule consume_padded) (simp add: is_digit_def)
  ultimately show ?thesis using assms p(1) by (auto simp: ParseFileName_def MakeFileName_def)
qed

lemma parse_descriptor:
  "ParseFileName (drop (length dbname + 1) (DescriptorFileName dbname n)) = Some (n, kDescriptorFile)"
  using consume_padded [of "[]" 6 n 0] by (simp add: ParseFileName_def DescriptorFileName_def)

lemma parse_fixed:
  "ParseFileName (drop (length dbname + 1) (CurrentFileName dbname)) = Some (0, kCurrentFile)"
  "ParseFileName (drop (length dbname + 1) (LockFileName dbname)) = Some (0, kDBLockFile)"
  "ParseFileName (drop (length dbname + 1) (InfoLogFileName dbname)) = Some (0, kInfoLogFile)"
  "ParseFileName (drop (length dbname + 1) (OldInfoLogFileName dbname)) = Some (0, kInfoLogFile)"
  by (simp_all add: CurrentFileName_def LockFileName_def InfoLogFileName_def OldInfoLogFileName_def ParseFileName_def)

text \<open>C35. \<^verbatim>\<open>ParseFileName\<close> inverts the constructors of file names: the name of every file of a database, without the
  directory, is parsed to its number and type, for every positive 64-bit number, also when it has more digits than the padding.\<close>

theorem filename_roundtrip:
  assumes "0 < n"
  shows "ParseFileName (drop (length dbname + 1) (LogFileName dbname n)) = Some (n, kLogFile) \<and>
   ParseFileName (drop (length dbname + 1) (TableFileName dbname n)) = Some (n, kTableFile) \<and>
   ParseFileName (drop (length dbname + 1) (SSTTableFileName dbname n)) = Some (n, kTableFile) \<and>
   ParseFileName (drop (length dbname + 1) (TempFileName dbname n)) = Some (n, kTempFile) \<and>
   ParseFileName (drop (length dbname + 1) (DescriptorFileName dbname n)) = Some (n, kDescriptorFile) \<and>
   ParseFileName (drop (length dbname + 1) (CurrentFileName dbname)) = Some (0, kCurrentFile) \<and>
   ParseFileName (drop (length dbname + 1) (LockFileName dbname)) = Some (0, kDBLockFile) \<and>
   ParseFileName (drop (length dbname + 1) (InfoLogFileName dbname)) = Some (0, kInfoLogFile) \<and>
   ParseFileName (drop (length dbname + 1) (OldInfoLogFileName dbname)) = Some (0, kInfoLogFile)"
  unfolding LogFileName_def TableFileName_def SSTTableFileName_def TempFileName_def
  by (intro conjI parse_descriptor parse_numbered parse_fixed) simp_all

theorem filename_roundtrip_witness:
  "ParseFileName (drop (length ''db'' + 1) (LogFileName ''db'' 18446744073709551615)) = Some (18446744073709551615, kLogFile)"
  using filename_roundtrip [of 18446744073709551615 "''db''"] by simp

lemma temp_not_current: "TempFileName dbname n \<noteq> CurrentFileName dbname"
proof -
  obtain ch ds where "print_padded 6 (unat n) = ch # ds" "is_digit ch" using padded_hd by blast
  then show ?thesis by (auto simp: TempFileName_def MakeFileName_def CurrentFileName_def is_digit_def)
qed

text \<open>What a crash leaves of a file: at least the synced bytes, and maybe more of the ones that were written.\<close>

definition crash_leaves :: "(byte list \<times> nat) option \<Rightarrow> byte list option \<Rightarrow> bool" where
  "crash_leaves f x \<longleftrightarrow> (case f of None \<Rightarrow> x = None | Some (bs, synced) \<Rightarrow> \<exists>m \<ge> synced. x = Some (take m bs))"

lemma RenameFile_effect:
  assumes "RenameFile from to env = (s, env')" "from \<noteq> to"
  shows "only_touches {from, to} env env'"
    and "s = OK \<Longrightarrow> en_files env' = (en_files env)(from := None, to := en_files env from) \<and>
      en_history env' = en_history env @ [en_files env']"
    and "s \<noteq> OK \<Longrightarrow> en_files env' = en_files env \<and> en_history env' = en_history env"
  using assms(1)
  by (auto simp: RenameFile_def en_change_def only_touches_def PosixError_def Status_init_def split: prod.splits option.splits if_splits)

text \<open>Every file system that the steps of \<^verbatim>\<open>SetCurrentFile\<close> pass through.\<close>

lemma SetCurrentFile_steps:
  assumes "SetCurrentFile env dbname n = (s, env')"
  defines "cur \<equiv> CurrentFileName dbname" and "tmp \<equiv> TempFileName dbname n"
    and "new \<equiv> string_bytes (drop (length dbname + 1) (DescriptorFileName dbname n) @ [char_of (10 :: nat)])"
  shows "only_touches {cur, tmp} env env'"
    and "if s = OK
      then \<exists>env1. only_touches {tmp} env env1 \<and> en_files env' cur = Some (new, length new) \<and>
        en_history env' = en_history env1 @ [en_files env']
      else only_touches {tmp} env env'"
proof -
  have ne: "tmp \<noteq> cur" unfolding tmp_def cur_def by (rule temp_not_current)
  obtain s1 e1 where w: "WriteStringToFileSync env new tmp = (s1, e1)" by fastforce
  obtain s2 e2 where r: "(if Status_ok s1 then RenameFile tmp cur e1 else (s1, e1)) = (s2, e2)" by fastforce
  have e': "s = s2" "env' = (if s = OK then e2 else snd (Posix_DeleteFile tmp e2))"
    using assms(1) w r by (auto simp: SetCurrentFile_def Let_def Status_ok_def new_def tmp_def cur_def split: if_splits)
  note W = DoWriteStringToFile_effect [OF w [unfolded WriteStringToFileSync_def]]
  show steps: "if s = OK
      then \<exists>env1. only_touches {tmp} env env1 \<and> en_files env' cur = Some (new, length new) \<and>
        en_history env' = en_history env1 @ [en_files env']
      else only_touches {tmp} env env'"
  proof (cases "s = OK")
    case True
    then have ok: "s1 = OK" "RenameFile tmp cur e1 = (OK, e2)" using r e'(1) by (auto simp: Status_ok_def split: if_splits)
    have "en_files e1 tmp = Some (new, length new)" using W(2) ok(1) by blast
    then show ?thesis using W(1) RenameFile_effect(2) [OF ok(2) ne refl] e'(2) True ne by (auto intro!: exI [of _ e1])
  next
    case False
    have "only_touches {tmp} e1 e2"
      using r False e'(1) RenameFile_effect(3) [of tmp cur e1 s2 e2] ne by (auto simp: only_touches_def split: if_splits)
    then have "only_touches {tmp} env (snd (Posix_DeleteFile tmp e2))"
      using W(1) only_touches_trans Posix_DeleteFile_touches by blast
    then show ?thesis using False e'(2) by simp
  qed
  have wider: "only_touches {tmp} a b \<Longrightarrow> only_touches {cur, tmp} a b" for a b by (auto simp: only_touches_def)
  show "only_touches {cur, tmp} env env'"
  proof (cases "s = OK")
    case True
    then have ok: "RenameFile tmp cur e1 = (OK, e2)" using r e'(1) by (auto simp: Status_ok_def split: if_splits)
    have "only_touches {cur, tmp} e1 e2" using RenameFile_effect(1) [OF ok ne] by (simp add: insert_commute)
    then show ?thesis using wider [OF W(1)] e'(2) True only_touches_trans by auto
  next
    case False
    then show ?thesis using steps wider by simp
  qed
qed

text \<open>C36. The database switches to a new manifest in one step, whatever the outcomes of the system calls are. In every file
  system that \<^verbatim>\<open>SetCurrentFile\<close> passes through, after each single system call, the file \<^verbatim>\<open>CURRENT\<close> is as it was before or holds the
  name of the new manifest and a newline, all of it synced, and this only if \<^verbatim>\<open>SetCurrentFile\<close> reports success; so after a crash
  at any time it has the new contents, or what the crash would have left of the old file. No file but \<^verbatim>\<open>CURRENT\<close> and the temporary
  file changes. After success \<^verbatim>\<open>ReadFileToString\<close> returns the new contents, and the name in it parses to the number.\<close>

theorem set_current_atomic:
  assumes "SetCurrentFile env dbname n = (s, env')" and "0 < n"
  defines "cur \<equiv> CurrentFileName dbname"
    and "new \<equiv> string_bytes (drop (length dbname + 1) (DescriptorFileName dbname n) @ [char_of (10 :: nat)])"
  shows "en_files env' cur = (if s = OK then Some (new, length new) else en_files env cur) \<and>
    (\<exists>h. en_history env' = en_history env @ h \<and>
      (\<forall>g \<in> set h. (g cur = en_files env cur \<or> s = OK \<and> g cur = Some (new, length new)) \<and>
         (\<forall>x. crash_leaves (g cur) x \<longrightarrow> x = Some new \<or> crash_leaves (en_files env cur) x) \<and>
         (\<forall>f. f \<noteq> cur \<and> f \<noteq> TempFileName dbname n \<longrightarrow> g f = en_files env f))) \<and>
    (s = OK \<longrightarrow> ReadFileToString (env'\<lparr>en_plan := []\<rparr>) cur = (OK, new, env'\<lparr>en_plan := []\<rparr>)) \<and>
    ParseFileName (drop (length dbname + 1) (DescriptorFileName dbname n)) = Some (n, kDescriptorFile)"
proof -
  let ?tmp = "TempFileName dbname n"
  have ne: "cur \<noteq> ?tmp" unfolding cur_def by (rule temp_not_current [symmetric])
  note S = SetCurrentFile_steps [OF assms(1), folded cur_def new_def]
  obtain h where h: "en_history env' = en_history env @ h" "\<forall>g \<in> set h. \<forall>f. f \<notin> {cur, ?tmp} \<longrightarrow> g f = en_files env f"
    using S(1) unfolding only_touches_def by blast
  have final: "en_files env' cur = (if s = OK then Some (new, length new) else en_files env cur)"
    using S(2) ne by (auto simp: only_touches_def split: if_splits)
  have states: "g cur = en_files env cur \<or> s = OK \<and> g cur = Some (new, length new)" if g: "g \<in> set h" for g
  proof (cases "s = OK")
    case True
    then obtain env1 where e: "only_touches {?tmp} env env1" "en_history env' = en_history env1 @ [en_files env']" using S(2) by auto
    obtain h1 where "en_history env1 = en_history env @ h1" "\<forall>g \<in> set h1. \<forall>f. f \<notin> {?tmp} \<longrightarrow> g f = en_files env f"
      using e(1) unfolding only_touches_def by blast
    then have "h = h1 @ [en_files env']" using h(1) e(2) by simp
    then consider "g \<in> set h1" | "g = en_files env'" using g by auto
    then show ?thesis using \<open>\<forall>g \<in> set h1. _\<close> ne final True by cases auto
  next
    case False
    then obtain h1 where "en_history env' = en_history env @ h1" "\<forall>g \<in> set h1. \<forall>f. f \<notin> {?tmp} \<longrightarrow> g f = en_files env f"
      using S(2) unfolding only_touches_def by auto
    then show ?thesis using h(1) g ne by auto
  qed
  have crash: "x = Some new \<or> crash_leaves (en_files env cur) x" if "g \<in> set h" "crash_leaves (g cur) x" for g x
    using states [OF that(1)] that(2) by (auto simp: crash_leaves_def)
  have "ReadFileToString (env'\<lparr>en_plan := []\<rparr>) cur = (OK, new, env'\<lparr>en_plan := []\<rparr>)" if "s = OK"
    using that final by (intro ReadFileToString_full [of _ _ _ "length new"]) simp_all
  then show ?thesis using final h states crash parse_descriptor by (intro conjI exI [of _ h]) auto
qed

text \<open>The system calls succeed, the write in two steps.\<close>

theorem set_current_atomic_witness:
  "\<exists>env'. SetCurrentFile \<lparr>en_files = Map.empty, en_plan = [Transferred 0, Transferred 3], en_strerror = \<lambda>_. [], en_history = []\<rparr> ''db'' 5 = (OK, env') \<and>
     en_files env' ''db/CURRENT'' = Some (string_bytes (''MANIFEST-000005'' @ [char_of (10 :: nat)]), 16)"
proof -
  let ?e = "\<lparr>en_files = Map.empty, en_plan = [Transferred 0, Transferred 3], en_strerror = \<lambda>_. [], en_history = []\<rparr>"
  have "print_unsigned 5 = ''5''" by (subst print_unsigned.simps) (simp add: char_of_def bit_0)
  then have pad: "print_padded 6 5 = ''000005''" by (simp add: print_padded_def Let_def eval_nat_numeral)
  then have name: "drop (length ''db'' + 1) (DescriptorFileName ''db'' 5) = ''MANIFEST-000005''"
    by (simp add: DescriptorFileName_def)
  define data where "data = string_bytes (''MANIFEST-000005'' @ [char_of (10 :: nat)])"
  have len: "length data = 16" by (simp add: data_def string_bytes_def)
  have ne: "data \<noteq> []" "drop 3 data \<noteq> []" using len by auto
  have tmp: "IsManifest (TempFileName ''db'' 5) = False"
    by (simp add: IsManifest_def Basename_def TempFileName_def MakeFileName_def pad)
  have "fst (WriteStringToFileSync ?e data (TempFileName ''db'' 5)) = OK \<and> en_plan (snd (WriteStringToFileSync ?e data (TempFileName ''db'' 5))) = []"
    using len ne tmp
    by (simp add: WriteStringToFileSync_def DoWriteStringToFile_def NewWritableFile_def en_open_def en_change_def Posix_Append_def
        kWritableFileBufferSize_def Posix_Sync_def SyncDirIfManifest_def FlushBuffer_def WriteUnbuffered.simps SyncFd_def Posix_Close_def
        Status_ok_def os_write_def os_sync_def en_close_def Let_def)
  then obtain e1 where w: "WriteStringToFileSync ?e data (TempFileName ''db'' 5) = (OK, e1)" "en_plan e1 = []"
    by (cases "WriteStringToFileSync ?e data (TempFileName ''db'' 5)") simp
  have "en_files e1 (TempFileName ''db'' 5) \<noteq> None"
    using DoWriteStringToFile_effect(2) [OF w(1) [unfolded WriteStringToFileSync_def] refl] by auto
  then have "fst (RenameFile (TempFileName ''db'' 5) (CurrentFileName ''db'') e1) = OK" using w(2) by (auto simp: RenameFile_def)
  then have "fst (SetCurrentFile ?e ''db'' 5) = OK"
    using w(1) name unfolding SetCurrentFile_def Let_def data_def by (auto simp: Status_ok_def split: prod.splits)
  obtain s e' where set: "SetCurrentFile ?e ''db'' 5 = (s, e')" by fastforce
  note A = set_current_atomic [OF set, unfolded name, folded data_def]
  have "s = OK" using \<open>fst (SetCurrentFile ?e ''db'' 5) = OK\<close> set by simp
  then show ?thesis using set A len unfolding data_def by (auto simp: CurrentFileName_def)
qed

end
