(* ===== verification/LDB_Block.thy ===== *)
theory LDB_Block
  imports LDB_DBFormat LDB_Env "HOL-Library.Monad_Syntax"
begin

unbundle bit_operations_syntax

text \<open>
  The blocks of sorted tables: the builder with prefix compression (\<^verbatim>\<open>table/block_builder.cc\<close>) and the reader with its
  iterator (\<^verbatim>\<open>table/block.cc\<close>). Pointers into a block are offsets. The operations of the iterator are options: \<open>None\<close>
  stands for a read outside of the block, the use of a value slice that points nowhere, or a loop that does not end.
\<close>

section \<open>Builder\<close>

record BlockBuilder =
  bb_interval :: int
  bb_buffer :: "byte list"
  bb_restarts :: "u32 list"
  bb_counter :: int
  bb_finished :: bool
  bb_last_key :: "byte list"

definition BlockBuilder_init :: "int \<Rightarrow> BlockBuilder" where
  "BlockBuilder_init interval =
     \<lparr>bb_interval = interval, bb_buffer = [], bb_restarts = [0], bb_counter = 0, bb_finished = False, bb_last_key = []\<rparr>"

definition BlockBuilder_Reset :: "BlockBuilder \<Rightarrow> BlockBuilder" where
  "BlockBuilder_Reset b =
     b\<lparr>bb_buffer := [], bb_restarts := [0], bb_counter := 0, bb_finished := False, bb_last_key := []\<rparr>"

definition CurrentSizeEstimate :: "BlockBuilder \<Rightarrow> nat" where
  "CurrentSizeEstimate b = length (bb_buffer b) + length (bb_restarts b) * 4 + 4"

definition BlockBuilder_empty :: "BlockBuilder \<Rightarrow> bool" where
  "BlockBuilder_empty b \<longleftrightarrow> bb_buffer b = []"

definition BlockBuilder_Finish :: "BlockBuilder \<Rightarrow> byte list \<times> BlockBuilder" where
  "BlockBuilder_Finish b =
     (let buffer = PutFixed32 (fold (\<lambda>r buf. PutFixed32 buf r) (bb_restarts b) (bb_buffer b)) (of_nat (length (bb_restarts b))) in
      (buffer, b\<lparr>bb_buffer := buffer, bb_finished := True\<rparr>))"

text \<open>The loop that counts the common prefix of the last key and the key.\<close>

fun shared_length :: "byte list \<Rightarrow> byte list \<Rightarrow> nat" where
  "shared_length (a # as) (b # bs) = (if a = b then Suc (shared_length as bs) else 0)"
| "shared_length _ _ = 0"

text \<open>
  \<^verbatim>\<open>Add\<close> asserts that the builder is not finished, that the counter is at most the interval and that the key is greater
  than the last one. The assertions are requirements on the caller: they are compiled out of a release build, and the
  code below them, which is modelled, runs for keys in any order.
\<close>

definition BlockBuilder_Add :: "byte list \<Rightarrow> byte list \<Rightarrow> BlockBuilder \<Rightarrow> BlockBuilder" where
  "BlockBuilder_Add key val b =
     (let (shared, b1) =
            (if bb_counter b < bb_interval b then (shared_length (bb_last_key b) key, b)
             else (0, b\<lparr>bb_restarts := bb_restarts b @ [of_nat (length (bb_buffer b))], bb_counter := 0\<rparr>));
          non_shared = length key - shared;
          buf1 = PutVarint32 (PutVarint32 (PutVarint32 (bb_buffer b1) (of_nat shared)) (of_nat non_shared)) (of_nat (length val)) in
      b1\<lparr>bb_buffer := buf1 @ drop shared key @ val,
         bb_last_key := take shared (bb_last_key b1) @ drop shared key,
         bb_counter := bb_counter b1 + 1\<rparr>)"

section \<open>Reader\<close>

record Block =
  bk_data :: "byte list"
  bk_size :: nat
  bk_restart_offset :: nat

definition NumRestarts :: "Block \<Rightarrow> nat" where
  "NumRestarts b = unat (DecodeFixed32 (drop (bk_size b - 4) (bk_data b)))"

text \<open>
  A size of zero marks an error; the offset of the restart array is not set then. The sum \<^verbatim>\<open>1 + NumRestarts()\<close> has 32 bits,
  the product with \<^verbatim>\<open>sizeof(uint32_t)\<close> has the width of \<^verbatim>\<open>size_t\<close>, and \<^verbatim>\<open>restart_offset_\<close> has 32 bits again.
\<close>

definition Block_init :: "byte list \<Rightarrow> Block" where
  "Block_init contents =
     (let b = \<lparr>bk_data = contents, bk_size = length contents, bk_restart_offset = 0\<rparr> in
      if bk_size b < 4 then b\<lparr>bk_size := 0\<rparr>
      else
        let max_restarts_allowed = (bk_size b - 4) div 4 in
        if NumRestarts b > max_restarts_allowed then b\<lparr>bk_size := 0\<rparr>
        else b\<lparr>bk_restart_offset := (bk_size b - ((1 + NumRestarts b) mod UINT32_MOD) * 4) mod UINT32_MOD\<rparr>)"

text \<open>The bytes between \<^verbatim>\<open>p\<close> and \<^verbatim>\<open>limit\<close>; the result has the bytes from the key delta on. The sum of the lengths wraps around.\<close>

definition DecodeEntry :: "byte list \<Rightarrow> (byte list \<times> u32 \<times> u32 \<times> u32) option" where
  "DecodeEntry p =
     (if length p < 3 then None
      else do {
        (p1, shared, non_shared, value_length) \<leftarrow>
          (if (ucast (p ! 0) OR ucast (p ! 1) OR ucast (p ! 2) :: u32) < 128
           then Some (drop 3 p, ucast (p ! 0), ucast (p ! 1), ucast (p ! 2))
           else do {
             (shared, q1) \<leftarrow> GetVarint32Ptr p;
             (non_shared, q2) \<leftarrow> GetVarint32Ptr q1;
             (value_length, q3) \<leftarrow> GetVarint32Ptr q2;
             Some (q3, shared, non_shared, value_length)
           });
        if of_nat (length p1) < non_shared + value_length then None
        else Some (p1, shared, non_shared, value_length)
      })"

text \<open>\<open>it_value\<close> is an offset and a length, \<open>None\<close> for a slice that was never set or was cleared.\<close>

record Iter =
  it_data :: "byte list"
  it_restarts :: nat
  it_num_restarts :: nat
  it_current :: nat
  it_restart_index :: nat
  it_key :: "byte list"
  it_value :: "(nat \<times> nat) option"
  it_status :: Status

definition Iter_init :: "byte list \<Rightarrow> nat \<Rightarrow> nat \<Rightarrow> Iter" where
  "Iter_init data restarts num_restarts =
     \<lparr>it_data = data, it_restarts = restarts, it_num_restarts = num_restarts, it_current = restarts,
      it_restart_index = num_restarts, it_key = [], it_value = None, it_status = OK\<rparr>"

definition block_read :: "byte list \<Rightarrow> nat \<Rightarrow> nat \<Rightarrow> byte list option" where
  "block_read data offset n = (if offset + n \<le> length data then Some (take n (drop offset data)) else None)"

definition Iter_Valid :: "Iter \<Rightarrow> bool" where
  "Iter_Valid it \<longleftrightarrow> it_current it < it_restarts it"

definition Iter_value :: "Iter \<Rightarrow> byte list option" where
  "Iter_value it = do { (offset, n) \<leftarrow> it_value it; block_read (it_data it) offset n }"

definition NextEntryOffset :: "Iter \<Rightarrow> nat option" where
  "NextEntryOffset it = do { (offset, n) \<leftarrow> it_value it; Some ((offset + n) mod UINT32_MOD) }"

definition GetRestartPoint :: "Iter \<Rightarrow> nat \<Rightarrow> nat option" where
  "GetRestartPoint it index =
     do { bytes \<leftarrow> block_read (it_data it) (it_restarts it + index * 4) 4; Some (unat (DecodeFixed32 bytes)) }"

definition SeekToRestartPoint :: "nat \<Rightarrow> Iter \<Rightarrow> Iter option" where
  "SeekToRestartPoint index it =
     do {
       offset \<leftarrow> GetRestartPoint it index;
       Some (it\<lparr>it_key := [], it_restart_index := index, it_value := Some (offset, 0)\<rparr>)
     }"

definition CorruptionError :: "Iter \<Rightarrow> Iter" where
  "CorruptionError it =
     it\<lparr>it_current := it_restarts it, it_restart_index := it_num_restarts it,
        it_status := Status_init kCorruption ''bad entry in block'' [], it_key := [], it_value := None\<rparr>"

partial_function (option) advance_restart :: "Iter \<Rightarrow> Iter option" where
  [code]: "advance_restart it =
     (if it_restart_index it + 1 < it_num_restarts it
      then do {
        r \<leftarrow> GetRestartPoint it (it_restart_index it + 1);
        if r < it_current it then advance_restart (it\<lparr>it_restart_index := it_restart_index it + 1\<rparr>) else Some it
      }
      else Some it)"

definition ParseNextKey :: "Iter \<Rightarrow> (bool \<times> Iter) option" where
  "ParseNextKey it =
     do {
       current \<leftarrow> NextEntryOffset it;
       let limit = it_restarts it;
       if current \<ge> limit then Some (False, it\<lparr>it_current := limit, it_restart_index := it_num_restarts it\<rparr>)
       else
         (case DecodeEntry (drop current (take limit (it_data it))) of
            None \<Rightarrow> Some (False, CorruptionError (it\<lparr>it_current := current\<rparr>))
          | Some (rest, shared, non_shared, value_length) \<Rightarrow>
              if length (it_key it) < unat shared then Some (False, CorruptionError (it\<lparr>it_current := current\<rparr>))
              else do {
                let p = limit - length rest;
                delta \<leftarrow> block_read (it_data it) p (unat non_shared);
                it' \<leftarrow> advance_restart (it\<lparr>it_current := current, it_key := take (unat shared) (it_key it) @ delta,
                         it_value := Some (p + unat non_shared, unat value_length)\<rparr>);
                Some (True, it')
              })
     }"

definition Iter_Next :: "Iter \<Rightarrow> Iter option" where
  "Iter_Next it = do { (_, it') \<leftarrow> ParseNextKey it; Some it' }"

text \<open>The loops of \<^verbatim>\<open>Prev\<close>: \<open>Inl\<close> is the early return.\<close>

fun prev_restart :: "nat \<Rightarrow> nat \<Rightarrow> Iter \<Rightarrow> (Iter + nat) option" where
  "prev_restart original index it =
     do {
       r \<leftarrow> GetRestartPoint it index;
       if r \<ge> original then
         (case index of
            0 \<Rightarrow> Some (Inl (it\<lparr>it_current := it_restarts it, it_restart_index := it_num_restarts it\<rparr>))
          | Suc i \<Rightarrow> prev_restart original i it)
       else Some (Inr index)
     }"

declare prev_restart.simps [simp del]

partial_function (option) parse_until :: "nat \<Rightarrow> Iter \<Rightarrow> Iter option" where
  [code]: "parse_until end_offset it =
     do {
       (ok, it1) \<leftarrow> ParseNextKey it;
       if ok then do {
         next_offset \<leftarrow> NextEntryOffset it1;
         if next_offset < end_offset then parse_until end_offset it1 else Some it1
       }
       else Some it1
     }"

definition Iter_Prev :: "Iter \<Rightarrow> Iter option" where
  "Iter_Prev it =
     do {
       let original = it_current it;
       r \<leftarrow> prev_restart original (it_restart_index it) it;
       (case r of
          Inl it' \<Rightarrow> Some it'
        | Inr index \<Rightarrow> do { it1 \<leftarrow> SeekToRestartPoint index it; parse_until original it1 })
     }"

text \<open>The binary search of \<^verbatim>\<open>Seek\<close>: \<open>Inl\<close> is the early return, \<open>Inr\<close> the index of a restart point.\<close>

partial_function (option) seek_search ::
    "(byte list \<Rightarrow> byte list \<Rightarrow> int) \<Rightarrow> byte list \<Rightarrow> Iter \<Rightarrow> nat \<Rightarrow> nat \<Rightarrow> (Iter + nat) option" where
  [code]: "seek_search compare target it left right =
     (if left < right then
        do {
          let mid = ((left + right + 1) mod UINT32_MOD) div 2;
          region_offset \<leftarrow> GetRestartPoint it mid;
          (case DecodeEntry (drop region_offset (take (it_restarts it) (it_data it))) of
             None \<Rightarrow> Some (Inl (CorruptionError it))
           | Some (rest, shared, non_shared, value_length) \<Rightarrow>
               if shared \<noteq> 0 then Some (Inl (CorruptionError it))
               else do {
                 mid_key \<leftarrow> block_read (it_data it) (it_restarts it - length rest) (unat non_shared);
                 if compare mid_key target < 0 then seek_search compare target it mid right
                 else seek_search compare target it left (mid - 1)
               })
        }
      else Some (Inr left))"

partial_function (option) seek_linear :: "(byte list \<Rightarrow> byte list \<Rightarrow> int) \<Rightarrow> byte list \<Rightarrow> Iter \<Rightarrow> Iter option" where
  [code]: "seek_linear compare target it =
     do {
       (ok, it1) \<leftarrow> ParseNextKey it;
       if \<not> ok then Some it1
       else if compare (it_key it1) target \<ge> 0 then Some it1
       else seek_linear compare target it1
     }"

definition Iter_Seek :: "(byte list \<Rightarrow> byte list \<Rightarrow> int) \<Rightarrow> byte list \<Rightarrow> Iter \<Rightarrow> Iter option" where
  "Iter_Seek compare target it =
     do {
       r \<leftarrow> seek_search compare target it 0 (it_num_restarts it - 1);
       (case r of
          Inl it' \<Rightarrow> Some it'
        | Inr left \<Rightarrow> do { it1 \<leftarrow> SeekToRestartPoint left it; seek_linear compare target it1 })
     }"

definition Iter_SeekToFirst :: "Iter \<Rightarrow> Iter option" where
  "Iter_SeekToFirst it = do { it1 \<leftarrow> SeekToRestartPoint 0 it; (_, it2) \<leftarrow> ParseNextKey it1; Some it2 }"

definition Iter_SeekToLast :: "Iter \<Rightarrow> Iter option" where
  "Iter_SeekToLast it =
     do { it1 \<leftarrow> SeekToRestartPoint (it_num_restarts it - 1) it; parse_until (it_restarts it1) it1 }"

datatype block_iterator = Error_iterator Status | Empty_iterator | Block_iterator Iter

definition Block_NewIterator :: "Block \<Rightarrow> block_iterator" where
  "Block_NewIterator b =
     (if bk_size b < 4 then Error_iterator (Status_init kCorruption ''bad block contents'' [])
      else
        let num_restarts = NumRestarts b in
        if num_restarts = 0 then Empty_iterator else Block_iterator (Iter_init (bk_data b) (bk_restart_offset b) num_restarts))"

end
