(* ===== verification/LDB_Table_Format.thy ===== *)
theory LDB_Table_Format
  imports LDB_Block LDB_CRC32C
begin

unbundle bit_operations_syntax

text \<open>
  The layout of table files (\<^verbatim>\<open>table/format.h\<close>, \<^verbatim>\<open>table/format.cc\<close>): handles of blocks, the footer, and blocks with their
  trailers, read from random access files (\<^verbatim>\<open>util/env_posix.cc\<close>). The results of readers are options: \<open>None\<close> stands for the use
  of a byte outside of the memory it should lie in. Allocations do not fail.
\<close>

section \<open>Random access files\<close>

text \<open>
  A \<^verbatim>\<open>Slice\<close> as the readers get it: a pointer and a size. The pointer is an offset into the bytes that are there around it, the
  mapping of the file or the scratch buffer; like an address it is a 64-bit value, so that \<^verbatim>\<open>data + n\<close> wraps around and can lie
  before \<^verbatim>\<open>data\<close>. The constructor of a slice does not check that it lies in memory; reading through it does not either, and gives
  \<open>None\<close> here when a byte is read that is not there.
\<close>

record slice =
  sl_memory :: "byte list"
  sl_data :: u64
  sl_size :: u64

definition slice_empty :: slice where
  "slice_empty = \<lparr>sl_memory = [], sl_data = 0, sl_size = 0\<rparr>"

text \<open>The byte \<^verbatim>\<open>data[i]\<close>, the \<open>n\<close> bytes at \<^verbatim>\<open>data + i\<close>, and the bytes of the slice.\<close>

definition slice_at :: "slice \<Rightarrow> u64 \<Rightarrow> byte option" where
  "slice_at s i =
     (let a = unat (sl_data s + i) in if a < length (sl_memory s) then Some (sl_memory s ! a) else None)"

definition slice_read :: "slice \<Rightarrow> u64 \<Rightarrow> nat \<Rightarrow> byte list option" where
  "slice_read s i n =
     (let a = unat (sl_data s + i) in
      if n = 0 \<or> a + n \<le> length (sl_memory s) then Some (take n (drop a (sl_memory s))) else None)"

definition slice_bytes :: "slice \<Rightarrow> byte list option" where
  "slice_bytes s = slice_read s 0 (unat (sl_size s))"

text \<open>
  \<^verbatim>\<open>Read(offset, n, result, scratch)\<close>: the status, \<^verbatim>\<open>result\<close>, and whether it points to \<^verbatim>\<open>scratch\<close>. In a mapped file the sum of offset
  and size wraps around, and then the slice starts outside of the mapping.
\<close>

type_synonym random_read = "u64 \<Rightarrow> u64 \<Rightarrow> Status \<times> slice \<times> bool"

definition Mmap_Read :: "string \<Rightarrow> (nat \<Rightarrow> string) \<Rightarrow> byte list \<Rightarrow> random_read" where
  "Mmap_Read filename strerror data offset n =
     (if unat (offset + n) > length data then (PosixError filename (strerror EINVAL) EINVAL, slice_empty, False)
      else (OK, \<lparr>sl_memory = data, sl_data = offset, sl_size = n\<rparr>, False))"

text \<open>
  \<open>open_result\<close> is the outcome of \<^verbatim>\<open>open\<close> for files without a descriptor of their own; \<open>pread\<close> the outcome of the system call, which
  fills the first bytes of the scratch buffer. The bytes that it does not fill are not initialized, and are not there to be read.
\<close>

definition scratch_slice :: "byte list \<Rightarrow> slice" where
  "scratch_slice bs = \<lparr>sl_memory = bs, sl_data = 0, sl_size = of_nat (length bs)\<rparr>"

definition RandomAccess_Read ::
    "string \<Rightarrow> (nat \<Rightarrow> string) \<Rightarrow> nat option \<Rightarrow> (u64 \<Rightarrow> u64 \<Rightarrow> outcome) \<Rightarrow> byte list \<Rightarrow> random_read" where
  "RandomAccess_Read filename strerror open_result pread data offset n =
     (case open_result of
        Some e \<Rightarrow> (PosixError filename (strerror e) e, slice_empty, True)
      | None \<Rightarrow>
          (case pread offset n of
             Errno e \<Rightarrow> (PosixError filename (strerror e) e, scratch_slice [], True)
           | Transferred k \<Rightarrow> (OK, scratch_slice (take (min k (unat n)) (drop (unat offset) data)), True)))"

section \<open>Handles and footer\<close>

record BlockHandle =
  bh_offset :: u64
  bh_size :: u64

definition BlockHandle_init :: BlockHandle where
  "BlockHandle_init = \<lparr>bh_offset = NOT 0, bh_size = NOT 0\<rparr>"

text \<open>The assertions that both fields are set are requirements on the caller.\<close>

definition BlockHandle_EncodeTo :: "BlockHandle \<Rightarrow> byte list \<Rightarrow> byte list" where
  "BlockHandle_EncodeTo h dst = PutVarint64 (PutVarint64 dst (bh_offset h)) (bh_size h)"

definition BlockHandle_DecodeFrom :: "BlockHandle \<Rightarrow> byte list \<Rightarrow> Status \<times> BlockHandle \<times> byte list" where
  "BlockHandle_DecodeFrom h input =
     (case GetVarint64 input of
        (Some offset, input1) \<Rightarrow>
          (case GetVarint64 input1 of
             (Some size', input2) \<Rightarrow> (OK, \<lparr>bh_offset = offset, bh_size = size'\<rparr>, input2)
           | (None, input2) \<Rightarrow> (Status_init kCorruption ''bad block handle'' [], h\<lparr>bh_offset := offset\<rparr>, input2))
      | (None, input1) \<Rightarrow> (Status_init kCorruption ''bad block handle'' [], h, input1))"

definition kMaxEncodedLength :: nat where "kMaxEncodedLength = 10 + 10"

definition kEncodedLength :: nat where "kEncodedLength = 2 * kMaxEncodedLength + 8"

definition kTableMagicNumber :: u64 where "kTableMagicNumber = 0xDB4775248B80FB57"

record Footer =
  ft_metaindex_handle :: BlockHandle
  ft_index_handle :: BlockHandle

definition resize :: "nat \<Rightarrow> byte list \<Rightarrow> byte list" where
  "resize n s = take n s @ replicate (n - length s) 0"

definition Footer_EncodeTo :: "Footer \<Rightarrow> byte list \<Rightarrow> byte list" where
  "Footer_EncodeTo f dst =
     (let dst1 = BlockHandle_EncodeTo (ft_index_handle f) (BlockHandle_EncodeTo (ft_metaindex_handle f) dst);
          dst2 = resize (2 * kMaxEncodedLength) dst1 in
      PutFixed32 (PutFixed32 dst2 (ucast (kTableMagicNumber AND 0xFFFFFFFF))) (ucast (drop_bit 32 kTableMagicNumber)))"

definition Footer_DecodeFrom :: "Footer \<Rightarrow> byte list \<Rightarrow> (Status \<times> Footer \<times> byte list) option" where
  "Footer_DecodeFrom f input =
     (if length input < kEncodedLength then None
      else
        let magic_ptr = drop (kEncodedLength - 8) input;
            magic_lo = DecodeFixed32 magic_ptr;
            magic_hi = DecodeFixed32 (drop 4 magic_ptr);
            magic = push_bit 32 (ucast magic_hi) OR ucast magic_lo :: u64 in
        if magic \<noteq> kTableMagicNumber then Some (Status_init kCorruption ''not an sstable (bad magic number)'' [], f, input)
        else
          case BlockHandle_DecodeFrom (ft_metaindex_handle f) input of
            (s1, meta, input1) \<Rightarrow>
              if Status_ok s1 then
                (case BlockHandle_DecodeFrom (ft_index_handle f) input1 of
                   (s2, index, input2) \<Rightarrow>
                     Some (s2, \<lparr>ft_metaindex_handle = meta, ft_index_handle = index\<rparr>,
                       if Status_ok s2 then drop kEncodedLength input else input2))
              else Some (s1, f\<lparr>ft_metaindex_handle := meta\<rparr>, input1))"

section \<open>Blocks in files\<close>

datatype CompressionType = kNoCompression | kSnappyCompression

fun CompressionType_num :: "CompressionType \<Rightarrow> byte" where
  "CompressionType_num kNoCompression = 0"
| "CompressionType_num kSnappyCompression = 1"

text \<open>The build has no Snappy (\<^verbatim>\<open>port/port_stdcxx.h\<close>): compression and decompression report failure.\<close>

definition Snappy_Compress :: "byte list \<Rightarrow> byte list option" where
  "Snappy_Compress input = None"

definition Snappy_GetUncompressedLength :: "slice \<Rightarrow> nat option" where
  "Snappy_GetUncompressedLength input = None"

definition Snappy_Uncompress :: "slice \<Rightarrow> byte list option" where
  "Snappy_Uncompress input = None"

definition kBlockTrailerSize :: nat where "kBlockTrailerSize = 5"

record BlockContents =
  bc_data :: slice
  bc_cachable :: bool
  bc_heap_allocated :: bool

text \<open>
  The size of the block and of its trailer are added in 64 bits, and so is the pointer arithmetic: for a size of \<^verbatim>\<open>2^64 - 1\<close> the
  type is read from \<^verbatim>\<open>data[-1]\<close>, and the checksum from \<^verbatim>\<open>data + 0\<close>.
\<close>

definition ReadBlock :: "random_read \<Rightarrow> bool \<Rightarrow> BlockHandle \<Rightarrow> (Status \<times> BlockContents) option" where
  "ReadBlock read_at verify_checksums handle =
     (let result = \<lparr>bc_data = slice_empty, bc_cachable = False, bc_heap_allocated = False\<rparr>;
          n = bh_size handle;
          total = n + of_nat kBlockTrailerSize;
          (s, contents, in_scratch) = read_at (bh_offset handle) total in
      if \<not> Status_ok s then Some (s, result)
      else if sl_size contents \<noteq> total then Some (Status_init kCorruption ''truncated block read'' [], result)
      else do {
        mismatch \<leftarrow>
          (if verify_checksums then do {
             stored \<leftarrow> slice_read contents (n + 1) 4;
             bytes \<leftarrow> slice_read contents 0 (unat (n + 1));
             Some (Crc_Value 0 bytes \<noteq> Crc_Unmask (DecodeFixed32 stored))
           }
           else Some False);
        if mismatch then Some (Status_init kCorruption ''block checksum mismatch'' [], result)
        else do {
          type \<leftarrow> slice_at contents n;
          let data = contents\<lparr>sl_size := n\<rparr>;
          if type = CompressionType_num kNoCompression then
            Some (OK, \<lparr>bc_data = data, bc_cachable = in_scratch, bc_heap_allocated = in_scratch\<rparr>)
          else if type = CompressionType_num kSnappyCompression then
            (case Snappy_GetUncompressedLength data of
               None \<Rightarrow> Some (Status_init kCorruption ''corrupted compressed block contents'' [], result)
             | Some ulength \<Rightarrow>
                 (case Snappy_Uncompress data of
                    None \<Rightarrow> Some (Status_init kCorruption ''corrupted compressed block contents'' [], result)
                  | Some ubuf \<Rightarrow> Some (OK, \<lparr>bc_data = scratch_slice ubuf, bc_cachable = True, bc_heap_allocated = True\<rparr>)))
          else Some (Status_init kCorruption ''bad block type'' [], result)
        }
      })"

section \<open>Slices that lie in memory\<close>

definition slice_shows :: "slice \<Rightarrow> byte list \<Rightarrow> bool" where
  "slice_shows s bs \<longleftrightarrow> length (sl_memory s) < 2 ^ 64 \<and> slice_bytes s = Some bs"

lemma slice_shows_read:
  assumes "slice_shows s bs" "unat i + n \<le> length bs"
  shows "slice_read s i n = Some (take n (drop (unat i) bs))"
proof (cases "n = 0")
  case True
  then show ?thesis by (simp add: slice_read_def Let_def)
next
  case False
  then have s: "bs = take (unat (sl_size s)) (drop (unat (sl_data s)) (sl_memory s))"
    "unat (sl_data s) + unat (sl_size s) \<le> length (sl_memory s)"
    using assms by (auto simp: slice_shows_def slice_bytes_def slice_read_def Let_def split: if_splits)
  then have len: "length bs = unat (sl_size s)" by simp
  have "unat (sl_data s + i) = unat (sl_data s) + unat i"
    using assms s(2) len False by (simp add: slice_shows_def unat_word_ariths)
  moreover have "take n (drop (unat i) bs) = take n (drop (unat (sl_data s) + unat i) (sl_memory s))"
    using assms(2) len unfolding s(1) by (simp add: drop_take min_def add.commute)
  ultimately show ?thesis using assms(2) len s(2) by (simp add: slice_read_def Let_def)
qed

lemma slice_at_read: "slice_read s i 1 = Some [b] \<Longrightarrow> slice_at s i = Some b"
  by (auto simp: slice_read_def slice_at_def Let_def take_Suc hd_drop_conv_nth split: if_splits)

lemma slice_shows_at: "slice_shows s bs \<Longrightarrow> unat i < length bs \<Longrightarrow> slice_at s i = Some (bs ! unat i)"
  using slice_shows_read [of s bs i 1] by (intro slice_at_read) (simp add: take_Suc hd_drop_conv_nth)

lemma slice_shows_prefix:
  assumes "slice_shows s bs" "unat n \<le> length bs"
  shows "slice_shows (s\<lparr>sl_size := n\<rparr>) (take (unat n) bs)"
proof -
  have "slice_bytes (s\<lparr>sl_size := n\<rparr>) = slice_read s 0 (unat n)"
    by (cases s) (simp add: slice_bytes_def slice_read_def Let_def)
  with slice_shows_read [OF assms(1), of 0 "unat n"] assms show ?thesis by (simp add: slice_shows_def)
qed

lemma slice_shows_scratch: "length bs < 2 ^ 64 \<Longrightarrow> slice_shows (scratch_slice bs) bs"
  by (simp add: slice_shows_def slice_bytes_def slice_read_def scratch_slice_def unat_of_nat Let_def)

section \<open>The contract of random access files\<close>

text \<open>Reads of bytes that a usable file has succeed and return them.\<close>

locale random_access_file =
  fixes contents :: "'f \<Rightarrow> byte list"
    and usable :: "'f \<Rightarrow> bool"
    and read_at :: "'f \<Rightarrow> random_read"
    and in_scratch :: bool
  assumes read_inside: "usable f \<Longrightarrow> unat offset + unat n \<le> length (contents f) \<Longrightarrow>
      \<exists>sl. read_at f offset n = (OK, sl, in_scratch) \<and> sl_size sl = n \<and>
        slice_shows sl (take (unat n) (drop (unat offset) (contents f)))"
    and contents_small: "usable f \<Longrightarrow> length (contents f) < 2 ^ 64"

interpretation mapped: random_access_file "\<lambda>data. data" "\<lambda>data. length data < 2 ^ 64" "Mmap_Read filename strerror" False
  for filename strerror
proof (unfold_locales, goal_cases)
  case (1 data offset n)
  then have "unat (offset + n) = unat offset + unat n" by (simp add: unat_word_ariths)
  with 1 show ?case by (simp add: Mmap_Read_def slice_shows_def slice_bytes_def slice_read_def)
qed

text \<open>Files read with \<^verbatim>\<open>pread\<close> are usable if no call fails or is short.\<close>

definition pread_full :: "(u64 \<Rightarrow> u64 \<Rightarrow> outcome) \<times> byte list \<Rightarrow> bool" where
  "pread_full f \<longleftrightarrow> length (snd f) < 2 ^ 64 \<and> (\<forall>offset n. \<exists>k. fst f offset n = Transferred k \<and> unat n \<le> k)"

interpretation unmapped: random_access_file snd pread_full "\<lambda>(pread, data). RandomAccess_Read filename strerror None pread data" True
  for filename strerror
proof (unfold_locales, goal_cases)
  case (1 f offset n)
  obtain pread data where f: "f = (pread, data)" by (cases f)
  from 1(1) obtain k where "pread offset n = Transferred k" "unat n \<le> k" by (auto simp: pread_full_def f)
  moreover have "length data < 2 ^ 64" using 1(1) by (simp add: pread_full_def f)
  ultimately show ?case using 1(2)
    by (simp add: RandomAccess_Read_def f min_def slice_shows_scratch) (simp add: scratch_slice_def)
qed (simp add: pread_full_def)

section \<open>Round trips\<close>

lemma handle_roundtrip:
  "BlockHandle_DecodeFrom h0 (BlockHandle_EncodeTo h [] @ rest) = (OK, h, rest)"
  by (simp add: BlockHandle_DecodeFrom_def BlockHandle_EncodeTo_def PutVarint64_def)

lemma length_handle: "length (BlockHandle_EncodeTo h []) \<le> kMaxEncodedLength"
proof -
  have "length (EncodeVarint64 v) \<le> 10" for v using ldb_varint_encoders_agree [of 0 v] by blast
  from this [of "bh_offset h"] this [of "bh_size h"] show ?thesis
    by (simp add: BlockHandle_EncodeTo_def PutVarint64_def kMaxEncodedLength_def)
qed

lemma EncodeTo_append: "BlockHandle_EncodeTo h dst = dst @ BlockHandle_EncodeTo h []"
  by (simp add: BlockHandle_EncodeTo_def PutVarint64_def)

lemma length_footer: "length (Footer_EncodeTo f dst) = kEncodedLength"
  by (simp add: Footer_EncodeTo_def Let_def PutFixed32_def resize_def kEncodedLength_def kMaxEncodedLength_def)

lemma footer_roundtrip: "Footer_DecodeFrom f0 (Footer_EncodeTo f []) = Some (OK, f, [])"
proof -
  let ?m = "BlockHandle_EncodeTo (ft_metaindex_handle f) []" and ?i = "BlockHandle_EncodeTo (ft_index_handle f) []"
  define pad where "pad = replicate (40 - length (?m @ ?i)) (0 :: byte)"
  have len: "length (?m @ ?i) \<le> 40" using length_handle [of "ft_metaindex_handle f"] length_handle [of "ft_index_handle f"]
    by (simp add: kMaxEncodedLength_def)
  define lo hi where "lo = (ucast (kTableMagicNumber AND 0xFFFFFFFF) :: u32)" and "hi = (ucast (drop_bit 32 kTableMagicNumber) :: u32)"
  have enc: "Footer_EncodeTo f [] = ?m @ ?i @ pad @ EncodeFixed32 lo @ EncodeFixed32 hi"
    using len by (simp add: Footer_EncodeTo_def EncodeTo_append [of _ ?m] resize_def kMaxEncodedLength_def PutFixed32_def Let_def
        pad_def lo_def hi_def)
  have "length (?m @ ?i @ pad) = 40" using len by (simp add: pad_def)
  then have tail: "drop 40 (Footer_EncodeTo f []) = EncodeFixed32 lo @ EncodeFixed32 hi"
    unfolding enc by (metis append_assoc append_eq_conv_conj)
  have dec: "DecodeFixed32 (drop 40 (Footer_EncodeTo f [])) = lo" "DecodeFixed32 (drop 4 (drop 40 (Footer_EncodeTo f []))) = hi"
    using DecodeFixed32_Encode [of hi "[]"] unfolding tail by simp_all
  have magic: "push_bit 32 (ucast hi) OR ucast lo = kTableMagicNumber" by (simp add: lo_def hi_def kTableMagicNumber_def)
  have h1: "BlockHandle_DecodeFrom h (Footer_EncodeTo f []) = (OK, ft_metaindex_handle f, ?i @ pad @ EncodeFixed32 lo @ EncodeFixed32 hi)" for h
    unfolding enc by (rule handle_roundtrip)
  show ?thesis
    using length_footer [of f "[]"]
    by (simp add: Footer_DecodeFrom_def Let_def kEncodedLength_def kMaxEncodedLength_def dec [simplified] magic h1 handle_roundtrip Status_ok_def)
qed

text \<open>The bytes of a block with its trailer.\<close>

definition stored_block :: "byte list \<Rightarrow> byte list" where
  "stored_block data = data @ [0] @ EncodeFixed32 (Crc_Mask (Crc_Value 0 (data @ [0])))"

lemma length_stored_block: "length (stored_block data) = length data + kBlockTrailerSize"
  by (simp add: stored_block_def kBlockTrailerSize_def)

context random_access_file
begin

lemma ReadBlock_stored:
  assumes "usable f" "contents f = pre @ stored_block data @ post"
  shows "\<exists>sl. (\<forall>verify. ReadBlock (read_at f) verify \<lparr>bh_offset = of_nat (length pre), bh_size = of_nat (length data)\<rparr> =
      Some (OK, \<lparr>bc_data = sl, bc_cachable = in_scratch, bc_heap_allocated = in_scratch\<rparr>)) \<and> slice_bytes sl = Some data"
proof -
  let ?n = "of_nat (length data) :: u64" and ?t = "of_nat (length data + 5) :: u64"
  have small: "length pre + (length data + 5) \<le> length (contents f)" "length (contents f) < 2 ^ 64"
    using contents_small [OF assms(1)] by (simp_all add: assms(2) length_stored_block kBlockTrailerSize_def)
  then have u: "unat (of_nat (length pre) :: u64) = length pre" "unat ?n = length data" "unat (?n + 1) = length data + 1"
    "unat ?t = length data + 5"
    by (simp_all only: unat_of_nat of_nat_Suc [symmetric] add.commute [of _ 1]) simp_all
  have total: "?n + of_nat kBlockTrailerSize = ?t" by (simp add: kBlockTrailerSize_def)
  have piece: "take (length data + 5) (drop (length pre) (contents f)) = stored_block data"
    using length_stored_block [of data] by (simp add: assms(2) kBlockTrailerSize_def)
  obtain sl where sl: "read_at f (of_nat (length pre)) ?t = (OK, sl, in_scratch)" "sl_size sl = ?t" "slice_shows sl (stored_block data)"
    using read_inside [OF assms(1), of "of_nat (length pre)" ?t] small(1) unfolding u piece by auto
  have len: "length (stored_block data) = length data + 5" by (simp add: length_stored_block kBlockTrailerSize_def)
  have b: "take (length data + 1) (stored_block data) = data @ [0]" "stored_block data ! length data = 0"
    "take (length data) (stored_block data) = data"
    "take 4 (drop (length data + 1) (stored_block data)) = EncodeFixed32 (Crc_Mask (Crc_Value 0 (data @ [0])))"
    by (simp_all add: stored_block_def)
  have r: "slice_read sl (?n + 1) 4 = Some (EncodeFixed32 (Crc_Mask (Crc_Value 0 (data @ [0]))))"
    using slice_shows_read [OF sl(3), of "?n + 1" 4] unfolding u(3) b len by simp
  have r0: "slice_read sl 0 (length data + 1) = Some (data @ [0])"
    using slice_shows_read [OF sl(3), of 0 "length data + 1"] b(1) len by simp
  have ty: "slice_at sl ?n = Some 0" using slice_shows_at [OF sl(3), of ?n] unfolding u(2) b(2) len by simp
  have crc: "Crc_Unmask (DecodeFixed32 (EncodeFixed32 (Crc_Mask (Crc_Value 0 (data @ [0]))))) = Crc_Value 0 (data @ [0])"
    using crc32c_mask_roundtrip DecodeFixed32_Encode [of _ "[]"] by simp
  have "ReadBlock (read_at f) verify \<lparr>bh_offset = of_nat (length pre), bh_size = ?n\<rparr> =
      Some (OK, \<lparr>bc_data = sl\<lparr>sl_size := ?n\<rparr>, bc_cachable = in_scratch, bc_heap_allocated = in_scratch\<rparr>)" for verify
    unfolding ReadBlock_def Let_def BlockHandle.select_convs total sl(1,2) prod.case u(3) r r0 ty by (simp add: Status_ok_def crc)
  moreover have "slice_bytes (sl\<lparr>sl_size := ?n\<rparr>) = Some data"
    using slice_shows_prefix [OF sl(3), of ?n] unfolding u(2) b(3) len slice_shows_def by simp
  ultimately show ?thesis by blast
qed

end

end
