(* ===== verification/LDB_Table_Builder.thy ===== *)
theory LDB_Table_Builder
  imports LDB_Table_Format LDB_Filter_Block
begin

unbundle bit_operations_syntax

text \<open>
  The builder of table files (\<^verbatim>\<open>table/table_builder.cc\<close>). The comparator, the filter policy and the writable file are
  interfaces; their operations are arguments.
\<close>

section \<open>State\<close>

text \<open>The fields of \<^verbatim>\<open>Options\<close> that the builder uses; \<open>op_comparator\<close> is the address of the comparator.\<close>

record Options =
  op_comparator :: nat
  op_block_size :: nat
  op_restart_interval :: int
  op_compression :: CompressionType

text \<open>The operations of the comparator, of the filter policy (\<^verbatim>\<open>Name\<close> and \<^verbatim>\<open>CreateFilter\<close>), and of the file.\<close>

record 'f builder_env =
  be_separator :: "byte list \<Rightarrow> byte list \<Rightarrow> byte list"
  be_successor :: "byte list \<Rightarrow> byte list"
  be_policy :: "(byte list \<times> (byte list list \<Rightarrow> byte list \<Rightarrow> byte list)) option"
  be_append :: "'f \<Rightarrow> byte list \<Rightarrow> Status \<times> 'f"
  be_flush :: "'f \<Rightarrow> Status \<times> 'f"

record 'f TableBuilder =
  tb_options :: Options
  tb_file :: 'f
  tb_offset :: u64
  tb_status :: Status
  tb_data_block :: BlockBuilder
  tb_index_block :: BlockBuilder
  tb_last_key :: "byte list"
  tb_num_entries :: nat
  tb_closed :: bool
  tb_filter_block :: "filter_block_builder option"
  tb_pending_index_entry :: bool
  tb_pending_handle :: BlockHandle

definition TableBuilder_init :: "'f builder_env \<Rightarrow> Options \<Rightarrow> 'f \<Rightarrow> 'f TableBuilder" where
  "TableBuilder_init env options file =
     \<lparr>tb_options = options, tb_file = file, tb_offset = 0, tb_status = OK,
      tb_data_block = BlockBuilder_init (op_restart_interval options), tb_index_block = BlockBuilder_init 1,
      tb_last_key = [], tb_num_entries = 0, tb_closed = False,
      tb_filter_block = map_option (\<lambda>(_, create). StartBlock create 0 FilterBlockBuilder) (be_policy env),
      tb_pending_index_entry = False, tb_pending_handle = BlockHandle_init\<rparr>"

text \<open>The block builders point to the options of the table builder, so they see the new interval. The new options have the same filter policy.\<close>

definition ChangeOptions :: "Options \<Rightarrow> 'f TableBuilder \<Rightarrow> Status \<times> 'f TableBuilder" where
  "ChangeOptions options r =
     (if op_comparator options \<noteq> op_comparator (tb_options r)
      then (Status_init kInvalidArgument ''changing comparator while building table'' [], r)
      else (OK, r\<lparr>tb_options := options, tb_data_block := (tb_data_block r)\<lparr>bb_interval := op_restart_interval options\<rparr>,
                 tb_index_block := (tb_index_block r)\<lparr>bb_interval := 1\<rparr>\<rparr>))"

section \<open>Writing\<close>

definition WriteRawBlock :: "'f builder_env \<Rightarrow> byte list \<Rightarrow> CompressionType \<Rightarrow> 'f TableBuilder \<Rightarrow> BlockHandle \<times> 'f TableBuilder" where
  "WriteRawBlock env block_contents type r =
     (let handle = \<lparr>bh_offset = tb_offset r, bh_size = of_nat (length block_contents)\<rparr>;
          (s1, file1) = be_append env (tb_file r) block_contents;
          r1 = r\<lparr>tb_file := file1, tb_status := s1\<rparr> in
      if Status_ok s1 then
        let crc = Crc_Extend 0 (Crc_Value 0 block_contents) [CompressionType_num type];
            trailer = [CompressionType_num type] @ EncodeFixed32 (Crc_Mask crc);
            (s2, file2) = be_append env file1 trailer;
            r2 = r1\<lparr>tb_file := file2, tb_status := s2\<rparr> in
        (handle, if Status_ok s2 then r2\<lparr>tb_offset := tb_offset r2 + of_nat (length block_contents + kBlockTrailerSize)\<rparr> else r2)
      else (handle, r1))"

text \<open>The block builder is returned after its \<^verbatim>\<open>Reset\<close>.\<close>

definition WriteBlock :: "'f builder_env \<Rightarrow> BlockBuilder \<Rightarrow> 'f TableBuilder \<Rightarrow> BlockBuilder \<times> BlockHandle \<times> 'f TableBuilder" where
  "WriteBlock env block r =
     (let (raw, block1) = BlockBuilder_Finish block;
          (block_contents, type) =
            (case op_compression (tb_options r) of
               kNoCompression \<Rightarrow> (raw, kNoCompression)
             | kSnappyCompression \<Rightarrow>
                 (case Snappy_Compress raw of
                    Some compressed \<Rightarrow>
                      if length compressed < length raw - length raw div 8 then (compressed, kSnappyCompression) else (raw, kNoCompression)
                  | None \<Rightarrow> (raw, kNoCompression)));
          (handle, r1) = WriteRawBlock env block_contents type r in
      (BlockBuilder_Reset block1, handle, r1))"

definition TableBuilder_Flush :: "'f builder_env \<Rightarrow> 'f TableBuilder \<Rightarrow> 'f TableBuilder" where
  "TableBuilder_Flush env r =
     (if \<not> Status_ok (tb_status r) then r
      else if BlockBuilder_empty (tb_data_block r) then r
      else
        let (block, handle, r1) = WriteBlock env (tb_data_block r) r;
            r2 = r1\<lparr>tb_data_block := block, tb_pending_handle := handle\<rparr>;
            r3 = (if Status_ok (tb_status r2)
                  then let (s, file) = be_flush env (tb_file r2) in r2\<lparr>tb_pending_index_entry := True, tb_file := file, tb_status := s\<rparr>
                  else r2) in
        r3\<lparr>tb_filter_block := (case be_policy env of
             Some (_, create) \<Rightarrow> map_option (StartBlock create (tb_offset r3)) (tb_filter_block r3)
           | None \<Rightarrow> tb_filter_block r3)\<rparr>)"

definition TableBuilder_Add :: "'f builder_env \<Rightarrow> byte list \<Rightarrow> byte list \<Rightarrow> 'f TableBuilder \<Rightarrow> 'f TableBuilder" where
  "TableBuilder_Add env key val r =
     (if \<not> Status_ok (tb_status r) then r
      else
        let r1 = (if tb_pending_index_entry r then
                    let last_key = be_separator env (tb_last_key r) key in
                    r\<lparr>tb_last_key := last_key,
                      tb_index_block := BlockBuilder_Add last_key (BlockHandle_EncodeTo (tb_pending_handle r) []) (tb_index_block r),
                      tb_pending_index_entry := False\<rparr>
                  else r);
            r2 = r1\<lparr>tb_filter_block := map_option (AddKey key) (tb_filter_block r1), tb_last_key := key,
                    tb_num_entries := tb_num_entries r1 + 1, tb_data_block := BlockBuilder_Add key val (tb_data_block r1)\<rparr> in
        if CurrentSizeEstimate (tb_data_block r2) \<ge> op_block_size (tb_options r2) then TableBuilder_Flush env r2 else r2)"

section \<open>Finishing\<close>

definition filter_key :: "byte list \<Rightarrow> byte list" where
  "filter_key name = [102, 105, 108, 116, 101, 114, 46] @ name"

definition finish_filter :: "'f builder_env \<Rightarrow> 'f TableBuilder \<Rightarrow> BlockHandle \<times> 'f TableBuilder" where
  "finish_filter env r =
     (case (be_policy env, tb_filter_block r) of
        (Some (_, create), Some fb) \<Rightarrow>
          if Status_ok (tb_status r) then WriteRawBlock env (FilterBlock_Finish create fb) kNoCompression r else (BlockHandle_init, r)
      | _ \<Rightarrow> (BlockHandle_init, r))"

definition finish_metaindex :: "'f builder_env \<Rightarrow> BlockHandle \<Rightarrow> 'f TableBuilder \<Rightarrow> BlockHandle \<times> 'f TableBuilder" where
  "finish_metaindex env filter_handle r =
     (if Status_ok (tb_status r) then
        let meta0 = BlockBuilder_init (op_restart_interval (tb_options r));
            meta = (case be_policy env of
                      Some (name, _) \<Rightarrow> BlockBuilder_Add (filter_key name) (BlockHandle_EncodeTo filter_handle []) meta0
                    | None \<Rightarrow> meta0);
            (_, handle, r1) = WriteBlock env meta r in
        (handle, r1)
      else (BlockHandle_init, r))"

definition finish_index :: "'f builder_env \<Rightarrow> 'f TableBuilder \<Rightarrow> BlockHandle \<times> 'f TableBuilder" where
  "finish_index env r =
     (if Status_ok (tb_status r) then
        let r1 = (if tb_pending_index_entry r then
                    let last_key = be_successor env (tb_last_key r) in
                    r\<lparr>tb_last_key := last_key,
                      tb_index_block := BlockBuilder_Add last_key (BlockHandle_EncodeTo (tb_pending_handle r) []) (tb_index_block r),
                      tb_pending_index_entry := False\<rparr>
                  else r);
            (block, handle, r2) = WriteBlock env (tb_index_block r1) r1 in
        (handle, r2\<lparr>tb_index_block := block\<rparr>)
      else (BlockHandle_init, r))"

definition finish_footer :: "'f builder_env \<Rightarrow> BlockHandle \<Rightarrow> BlockHandle \<Rightarrow> 'f TableBuilder \<Rightarrow> 'f TableBuilder" where
  "finish_footer env metaindex_handle index_handle r =
     (if Status_ok (tb_status r) then
        let footer = Footer_EncodeTo \<lparr>ft_metaindex_handle = metaindex_handle, ft_index_handle = index_handle\<rparr> [];
            (s, file) = be_append env (tb_file r) footer;
            r1 = r\<lparr>tb_file := file, tb_status := s\<rparr> in
        if Status_ok s then r1\<lparr>tb_offset := tb_offset r1 + of_nat (length footer)\<rparr> else r1
      else r)"

definition TableBuilder_Finish :: "'f builder_env \<Rightarrow> 'f TableBuilder \<Rightarrow> Status \<times> 'f TableBuilder" where
  "TableBuilder_Finish env r =
     (let r1 = (TableBuilder_Flush env r)\<lparr>tb_closed := True\<rparr>;
          (filter_handle, r2) = finish_filter env r1;
          (metaindex_handle, r3) = finish_metaindex env filter_handle r2;
          (index_handle, r4) = finish_index env r3;
          r5 = finish_footer env metaindex_handle index_handle r4 in
      (tb_status r5, r5))"

definition Abandon :: "'f TableBuilder \<Rightarrow> 'f TableBuilder" where
  "Abandon r = r\<lparr>tb_closed := True\<rparr>"

definition NumEntries :: "'f TableBuilder \<Rightarrow> nat" where
  "NumEntries r = tb_num_entries r"

definition FileSize :: "'f TableBuilder \<Rightarrow> u64" where
  "FileSize r = tb_offset r"

end
