(* ===== verification/LDB_Table.thy ===== *)
theory LDB_Table
  imports LDB_Table_Builder
begin

text \<open>
  The reader of table files (\<^verbatim>\<open>table/table.cc\<close>) with the iterators for errors and empty blocks (\<^verbatim>\<open>table/iterator.cc\<close>). The file, the
  comparator, the filter policy and the block cache are interfaces; their operations are arguments.
\<close>

section \<open>Iterators over blocks\<close>

fun BI_Seek :: "(byte list \<Rightarrow> byte list \<Rightarrow> int) \<Rightarrow> byte list \<Rightarrow> block_iterator \<Rightarrow> block_iterator option" where
  "BI_Seek compare target (Block_iterator it) = map_option Block_iterator (Iter_Seek compare target it)"
| "BI_Seek compare target bi = Some bi"

fun BI_Valid :: "block_iterator \<Rightarrow> bool" where
  "BI_Valid (Block_iterator it) = Iter_Valid it"
| "BI_Valid _ = False"

fun BI_key :: "block_iterator \<Rightarrow> byte list option" where
  "BI_key (Block_iterator it) = Some (it_key it)"
| "BI_key _ = None"

fun BI_value :: "block_iterator \<Rightarrow> byte list option" where
  "BI_value (Block_iterator it) = Iter_value it"
| "BI_value _ = None"

fun BI_status :: "block_iterator \<Rightarrow> Status" where
  "BI_status (Block_iterator it) = it_status it"
| "BI_status Empty_iterator = OK"
| "BI_status (Error_iterator s) = s"

section \<open>Opening a table\<close>

record reader_env =
  re_read :: random_read
  re_paranoid_checks :: bool
  re_compare :: "byte list \<Rightarrow> byte list \<Rightarrow> int"
  re_policy :: "(byte list \<times> (byte list \<Rightarrow> byte list \<Rightarrow> bool)) option"

record Table =
  ta_cache_id :: u64
  ta_filter :: "filter_block_reader option"
  ta_metaindex_handle :: BlockHandle
  ta_index_block :: Block

text \<open>
  \<^verbatim>\<open>new Block(contents)\<close> on the contents of a block that was read. The blocks and filters of the model hold their bytes, so a
  slice that does not lie in memory has none: what the program does with such a block is not followed further.
\<close>

definition Block_of :: "BlockContents \<Rightarrow> Block option" where
  "Block_of contents = map_option Block_init (slice_bytes (bc_data contents))"

definition ReadFilter :: "reader_env \<Rightarrow> byte list \<Rightarrow> Table \<Rightarrow> Table option" where
  "ReadFilter env filter_handle_value table =
     (case BlockHandle_DecodeFrom BlockHandle_init filter_handle_value of
        (s, handle, _) \<Rightarrow>
          if \<not> Status_ok s then Some table
          else do {
            (s1, block) \<leftarrow> ReadBlock (re_read env) (re_paranoid_checks env) handle;
            if \<not> Status_ok s1 then Some table
            else do { bytes \<leftarrow> slice_bytes (bc_data block); Some (table\<lparr>ta_filter := Some (FilterBlockReader bytes)\<rparr>) }
          })"

definition ReadMeta :: "reader_env \<Rightarrow> Footer \<Rightarrow> Table \<Rightarrow> Table option" where
  "ReadMeta env footer table =
     (case re_policy env of
        None \<Rightarrow> Some table
      | Some (name, _) \<Rightarrow> do {
          (s, contents) \<leftarrow> ReadBlock (re_read env) (re_paranoid_checks env) (ft_metaindex_handle footer);
          if \<not> Status_ok s then Some table
          else do {
            let key = filter_key name;
            meta \<leftarrow> Block_of contents;
            iter \<leftarrow> BI_Seek Slice_compare key (Block_NewIterator meta);
            if BI_Valid iter \<and> BI_key iter = Some key then do {
              v \<leftarrow> BI_value iter;
              ReadFilter env v table
            }
            else Some table
          }
        })"

text \<open>\<open>cache_id\<close> is what \<^verbatim>\<open>NewId\<close> of the block cache returns, or 0 without one.\<close>

definition Table_Open :: "reader_env \<Rightarrow> u64 \<Rightarrow> u64 \<Rightarrow> (Status \<times> Table option) option" where
  "Table_Open env cache_id file_size =
     (if file_size < of_nat kEncodedLength then Some (Status_init kCorruption ''file is too short to be an sstable'' [], None)
      else do {
        let (s, footer_input, _) = re_read env (file_size - of_nat kEncodedLength) (of_nat kEncodedLength);
        if \<not> Status_ok s then Some (s, None)
        else do {
          footer_bytes \<leftarrow> slice_bytes footer_input;
          (s1, footer, _) \<leftarrow>
            Footer_DecodeFrom \<lparr>ft_metaindex_handle = BlockHandle_init, ft_index_handle = BlockHandle_init\<rparr> footer_bytes;
          if \<not> Status_ok s1 then Some (s1, None)
          else do {
            (s2, index_block_contents) \<leftarrow> ReadBlock (re_read env) (re_paranoid_checks env) (ft_index_handle footer);
            if Status_ok s2 then do {
              index_block \<leftarrow> Block_of index_block_contents;
              table \<leftarrow> ReadMeta env footer \<lparr>ta_cache_id = cache_id, ta_filter = None,
                ta_metaindex_handle = ft_metaindex_handle footer, ta_index_block = index_block\<rparr>;
              Some (s2, Some table)
            }
            else Some (s2, None)
          }
        }
      })"

section \<open>Reading blocks\<close>

text \<open>The interface of the block cache; its handles are released when the iterator of the block is deleted.\<close>

record ('c, 'h) BlockCache =
  ca_lookup :: "byte list \<Rightarrow> 'c \<Rightarrow> 'h option \<times> 'c"
  ca_value :: "'h \<Rightarrow> 'c \<Rightarrow> Block"
  ca_insert :: "byte list \<Rightarrow> Block \<Rightarrow> nat \<Rightarrow> 'c \<Rightarrow> 'h \<times> 'c"
  ca_release :: "'h \<Rightarrow> 'c \<Rightarrow> 'c"

datatype 'h cleanup = No_cleanup | DeleteBlock | ReleaseBlock 'h

fun run_cleanup :: "('c, 'h) BlockCache option \<Rightarrow> 'h cleanup \<Rightarrow> 'c \<Rightarrow> 'c" where
  "run_cleanup (Some cache) (ReleaseBlock h) c = ca_release cache h c"
| "run_cleanup _ _ c = c"

record ReadOptions =
  ro_verify_checksums :: bool
  ro_fill_cache :: bool

definition BlockReader :: "reader_env \<Rightarrow> ('c, 'h) BlockCache option \<Rightarrow> ReadOptions \<Rightarrow> Table \<Rightarrow> byte list \<Rightarrow> 'c \<Rightarrow>
    (block_iterator \<times> 'h cleanup \<times> 'c) option" where
  "BlockReader env block_cache options table index_value c =
     (case BlockHandle_DecodeFrom BlockHandle_init index_value of
        (s, handle, _) \<Rightarrow>
          if \<not> Status_ok s then Some (Error_iterator s, No_cleanup, c)
          else
            (case block_cache of
               Some cache \<Rightarrow>
                 let key = EncodeFixed64 (ta_cache_id table) @ EncodeFixed64 (bh_offset handle) in
                 (case ca_lookup cache key c of
                    (Some h, c1) \<Rightarrow> Some (Block_NewIterator (ca_value cache h c1), ReleaseBlock h, c1)
                  | (None, c1) \<Rightarrow> do {
                      (s1, contents) \<leftarrow> ReadBlock (re_read env) (ro_verify_checksums options) handle;
                      if Status_ok s1 then do {
                        block \<leftarrow> Block_of contents;
                        if bc_cachable contents \<and> ro_fill_cache options then
                          case ca_insert cache key block (bk_size block) c1 of
                            (h, c2) \<Rightarrow> Some (Block_NewIterator block, ReleaseBlock h, c2)
                        else Some (Block_NewIterator block, DeleteBlock, c1)
                      }
                      else Some (Error_iterator s1, No_cleanup, c1)
                    })
             | None \<Rightarrow> do {
                 (s1, contents) \<leftarrow> ReadBlock (re_read env) (ro_verify_checksums options) handle;
                 if Status_ok s1 then do { block \<leftarrow> Block_of contents; Some (Block_NewIterator block, DeleteBlock, c) }
                 else Some (Error_iterator s1, No_cleanup, c)
               }))"

text \<open>Whether the filter excludes the key.\<close>

definition filter_excludes :: "reader_env \<Rightarrow> Table \<Rightarrow> byte list \<Rightarrow> byte list \<Rightarrow> bool option" where
  "filter_excludes env table handle_value k =
     (case (ta_filter table, re_policy env) of
        (Some reader, Some (_, may_match)) \<Rightarrow>
          (case BlockHandle_DecodeFrom BlockHandle_init handle_value of
             (s, handle, _) \<Rightarrow>
               if Status_ok s then map_option Not (FilterBlock_KeyMayMatch may_match reader (bh_offset handle) k) else Some False)
      | _ \<Rightarrow> Some False)"

text \<open>The second component is what \<^verbatim>\<open>handle_result\<close> is called with, if it is.\<close>

definition InternalGet :: "reader_env \<Rightarrow> ('c, 'h) BlockCache option \<Rightarrow> ReadOptions \<Rightarrow> Table \<Rightarrow> byte list \<Rightarrow> 'c \<Rightarrow>
    (Status \<times> (byte list \<times> byte list) option \<times> 'c) option" where
  "InternalGet env block_cache options table k c =
     do {
       iiter \<leftarrow> BI_Seek (re_compare env) k (Block_NewIterator (ta_index_block table));
       (s, result, c1) \<leftarrow>
         (if BI_Valid iiter then do {
            handle_value \<leftarrow> BI_value iiter;
            excluded \<leftarrow> filter_excludes env table handle_value k;
            if excluded then Some (OK, None, c)
            else do {
              (block_iter, cleanup, c1) \<leftarrow> BlockReader env block_cache options table handle_value c;
              block_iter1 \<leftarrow> BI_Seek (re_compare env) k block_iter;
              result \<leftarrow>
                (if BI_Valid block_iter1 then do { key \<leftarrow> BI_key block_iter1; v \<leftarrow> BI_value block_iter1; Some (Some (key, v)) }
                 else Some None);
              Some (BI_status block_iter1, result, run_cleanup block_cache cleanup c1)
            }
          }
          else Some (OK, None, c));
       Some (if Status_ok s then BI_status iiter else s, result, c1)
     }"

definition ApproximateOffsetOf :: "reader_env \<Rightarrow> Table \<Rightarrow> byte list \<Rightarrow> u64 option" where
  "ApproximateOffsetOf env table key =
     do {
       index_iter \<leftarrow> BI_Seek (re_compare env) key (Block_NewIterator (ta_index_block table));
       if BI_Valid index_iter then do {
         v \<leftarrow> BI_value index_iter;
         (case BlockHandle_DecodeFrom BlockHandle_init v of
            (s, handle, _) \<Rightarrow> Some (if Status_ok s then bh_offset handle else bh_offset (ta_metaindex_handle table)))
       }
       else Some (bh_offset (ta_metaindex_handle table))
     }"

end
