(* ===== verification/LDB_Block_Spec.thy ===== *)
theory LDB_Block_Spec
  imports LDB_Block
begin

unbundle bit_operations_syntax

text \<open>
  What a block holds: \<open>block_image\<close> describes the bytes of a block by a list of entries, each with the number of bytes it
  shares with the key before, and the indices of the entries at restart points. The builder produces such an image, and
  the iterator moves over it as over the list of entries.
\<close>

section \<open>Images of blocks\<close>

type_synonym block_entry = "nat \<times> byte list \<times> byte list"

abbreviation en_shared :: "block_entry \<Rightarrow> nat" where "en_shared \<equiv> fst"
abbreviation en_key :: "block_entry \<Rightarrow> byte list" where "en_key \<equiv> \<lambda>e. fst (snd e)"
abbreviation en_val :: "block_entry \<Rightarrow> byte list" where "en_val \<equiv> \<lambda>e. snd (snd e)"

definition entry_header :: "block_entry \<Rightarrow> byte list" where
  "entry_header e = EncodeVarint32 (of_nat (en_shared e)) @ EncodeVarint32 (of_nat (length (en_key e) - en_shared e)) @
     EncodeVarint32 (of_nat (length (en_val e)))"

definition entry_bytes :: "block_entry \<Rightarrow> byte list" where
  "entry_bytes e = entry_header e @ drop (en_shared e) (en_key e) @ en_val e"

definition off :: "block_entry list \<Rightarrow> nat \<Rightarrow> nat" where
  "off es i = length (concat (map entry_bytes (take i es)))"

definition entries_ok :: "block_entry list \<Rightarrow> bool" where
  "entries_ok es \<longleftrightarrow> (\<forall>i < length es. en_shared (es ! i) \<le> length (en_key (es ! i)) \<and>
     (if i = 0 then en_shared (es ! i) = 0
      else en_shared (es ! i) \<le> length (en_key (es ! (i - 1))) \<and>
        take (en_shared (es ! i)) (en_key (es ! (i - 1))) = take (en_shared (es ! i)) (en_key (es ! i))))"

definition restarts_ok :: "block_entry list \<Rightarrow> nat list \<Rightarrow> bool" where
  "restarts_ok es rs \<longleftrightarrow> rs \<noteq> [] \<and> hd rs = 0 \<and> sorted_wrt (<) rs \<and>
     (\<forall>r \<in> set rs. r < max 1 (length es) \<and> (r < length es \<longrightarrow> en_shared (es ! r) = 0))"

definition block_image :: "block_entry list \<Rightarrow> nat list \<Rightarrow> byte list \<Rightarrow> bool" where
  "block_image es rs data \<longleftrightarrow> entries_ok es \<and> restarts_ok es rs \<and> length data < 2 ^ 32 \<and>
     data = concat (map entry_bytes es) @ concat (map (\<lambda>i. EncodeFixed32 (of_nat (off es i))) rs) @ EncodeFixed32 (of_nat (length rs))"

lemma off_0 [simp]: "off es 0 = 0"
  by (simp add: off_def)

lemma off_Suc: "i < length es \<Longrightarrow> off es (Suc i) = off es i + length (entry_bytes (es ! i))"
  by (simp add: off_def take_Suc_conv_app_nth)

lemma length_EncodeVarint32: "1 \<le> length (EncodeVarint32 v)"
  using GetVarint32Ptr_Encode [of v "[]"] by (cases "EncodeVarint32 v") (simp_all add: GetVarint32Ptr_def GetVarint32PtrFallback_def)

lemma length_entry_header: "3 \<le> length (entry_header e)"
  using length_EncodeVarint32 [of "of_nat (en_shared e)"] length_EncodeVarint32 [of "of_nat (length (en_key e) - en_shared e)"]
    length_EncodeVarint32 [of "of_nat (length (en_val e))"] by (simp add: entry_header_def)

lemma off_less: "i < j \<Longrightarrow> j \<le> length es \<Longrightarrow> off es i < off es j"
proof (induction j)
  case (Suc j)
  have "off es j < off es (Suc j)"
    using Suc.prems length_entry_header [of "es ! j"] by (auto simp: off_Suc entry_bytes_def)
  with Suc show ?case by (cases "i = j") auto
qed simp

lemma off_mono: "i \<le> j \<Longrightarrow> j \<le> length es \<Longrightarrow> off es i \<le> off es j"
  using off_less [of i j es] by (cases "i = j") auto

lemma off_less_iff: "i \<le> length es \<Longrightarrow> j \<le> length es \<Longrightarrow> off es i < off es j \<longleftrightarrow> i < j"
  using off_less [of i j es] off_mono [of j i es] by (cases "i < j") auto

lemma off_append: "i \<le> length es \<Longrightarrow> off (es @ es') i = off es i"
  by (simp add: off_def)

lemma off_length: "off es (length es) = length (concat (map entry_bytes es))"
  by (simp add: off_def)

lemma drop_off: "i \<le> length es \<Longrightarrow> drop (off es i) (concat (map entry_bytes es)) = concat (map entry_bytes (drop i es))"
  by (metis append_eq_conv_conj append_take_drop_id concat_append map_append off_def)

section \<open>The builder\<close>

definition built :: "(byte list \<times> byte list) list \<Rightarrow> block_entry list \<Rightarrow> nat list \<Rightarrow> BlockBuilder \<Rightarrow> bool" where
  "built kvs es rs b \<longleftrightarrow> map snd es = kvs \<and> entries_ok es \<and> restarts_ok es rs \<and>
     bb_buffer b = concat (map entry_bytes es) \<and> bb_restarts b = map (\<lambda>i. of_nat (off es i)) rs \<and>
     bb_last_key b = (if es = [] then [] else en_key (last es)) \<and> 1 \<le> bb_interval b \<and> (es = [] \<longrightarrow> bb_counter b = 0)"

lemma built_init: "1 \<le> interval \<Longrightarrow> built [] [] [0] (BlockBuilder_init interval)"
  by (simp add: built_def BlockBuilder_init_def entries_ok_def restarts_ok_def)

lemma shared_length_prefix:
  "shared_length a b \<le> length a" "shared_length a b \<le> length b" "take (shared_length a b) a = take (shared_length a b) b"
  by (induction a b rule: shared_length.induct) auto

lemma entries_ok_snoc:
  assumes "entries_ok es" and "en_shared e \<le> length (en_key e)"
    and "es = [] \<Longrightarrow> en_shared e = 0"
    and "es \<noteq> [] \<Longrightarrow> en_shared e \<le> length (en_key (last es)) \<and> take (en_shared e) (en_key (last es)) = take (en_shared e) (en_key e)"
  shows "entries_ok (es @ [e])"
  using assms by (auto simp: entries_ok_def nth_append less_Suc_eq last_conv_nth)

lemma restarts_ok_snoc:
  assumes "restarts_ok es rs"
  shows "es \<noteq> [] \<or> en_shared e = 0 \<Longrightarrow> restarts_ok (es @ [e]) rs"
    and "es \<noteq> [] \<Longrightarrow> en_shared e = 0 \<Longrightarrow> restarts_ok (es @ [e]) (rs @ [length es])"
proof -
  have rs: "rs \<noteq> []" "hd rs = 0" "sorted_wrt (<) rs" using assms by (simp_all add: restarts_ok_def)
  have bound: "r < length es \<and> en_shared (es ! r) = 0" if "r \<in> set rs" "es \<noteq> []" for r
  proof -
    have "max 1 (length es) = length es" using that(2) by (cases es) auto
    then show ?thesis using assms that(1) by (simp add: restarts_ok_def)
  qed
  have zero: "r = 0" if "r \<in> set rs" "es = []" for r using assms that by (simp add: restarts_ok_def)
  show "restarts_ok (es @ [e]) rs" if "es \<noteq> [] \<or> en_shared e = 0"
  proof (cases "es = []")
    case True
    have "\<forall>r \<in> set rs. r = 0" using zero True by blast
    with True that rs show ?thesis by (auto simp: restarts_ok_def)
  next
    case False
    then show ?thesis unfolding restarts_ok_def using rs bound by (auto simp: nth_append less_Suc_eq)
  qed
  show "restarts_ok (es @ [e]) (rs @ [length es])" if "es \<noteq> []" "en_shared e = 0"
    unfolding restarts_ok_def using rs bound that by (auto simp: nth_append sorted_wrt_append less_Suc_eq)
qed

lemma built_Add:
  assumes "built kvs es rs b"
  shows "\<exists>e rs'. built (kvs @ [(key, val)]) (es @ [e]) rs' (BlockBuilder_Add key val b)"
proof -
  have b: "entries_ok es" "restarts_ok es rs" "bb_buffer b = concat (map entry_bytes es)"
    "bb_restarts b = map (\<lambda>i. of_nat (off es i)) rs" "bb_last_key b = (if es = [] then [] else en_key (last es))"
    "1 \<le> bb_interval b" "es = [] \<longrightarrow> bb_counter b = 0" "map snd es = kvs"
    using assms by (simp_all add: built_def)
  have off: "map (\<lambda>i. of_nat (off (es @ [e]) i)) rs = (map (\<lambda>i. of_nat (off es i)) rs :: u32 list)" for e
    using b(2) by (auto simp: restarts_ok_def off_append max_def split: if_splits intro!: arg_cong [where f = of_nat] off_append)
  show ?thesis
  proof (cases "bb_counter b < bb_interval b")
    case True
    let ?n = "shared_length (bb_last_key b) key"
    let ?e = "(?n, key, val)"
    note sh = shared_length_prefix [of "bb_last_key b" key]
    have add: "BlockBuilder_Add key val b = b\<lparr>bb_buffer := bb_buffer b @ entry_bytes ?e, bb_last_key := key,
        bb_counter := bb_counter b + 1\<rparr>"
      using True sh append_take_drop_id [of ?n key]
      by (simp add: BlockBuilder_Add_def entry_bytes_def entry_header_def PutVarint32_def Let_def)
    have "entries_ok (es @ [?e])" using sh b(5) by (intro entries_ok_snoc b(1)) (auto split: if_splits)
    moreover have "restarts_ok (es @ [?e]) rs" using b(5) sh(1) by (intro restarts_ok_snoc(1) b(2)) auto
    ultimately have "built (kvs @ [(key, val)]) (es @ [?e]) rs (BlockBuilder_Add key val b)"
      unfolding add built_def using b off by simp
    then show ?thesis by blast
  next
    case False
    let ?e = "(0, key, val) :: block_entry"
    have es: "es \<noteq> []" using False b(6,7) by auto
    have add: "BlockBuilder_Add key val b = b\<lparr>bb_buffer := bb_buffer b @ entry_bytes ?e,
        bb_restarts := bb_restarts b @ [of_nat (length (bb_buffer b))], bb_last_key := key, bb_counter := 1\<rparr>"
      using False by (simp add: BlockBuilder_Add_def entry_bytes_def entry_header_def PutVarint32_def Let_def)
    have "entries_ok (es @ [?e])" by (intro entries_ok_snoc b(1)) auto
    moreover have "restarts_ok (es @ [?e]) (rs @ [length es])" using es by (intro restarts_ok_snoc(2) b(2)) auto
    moreover have "length (bb_buffer b) = off (es @ [?e]) (length es)" using b(3) by (simp add: off_append off_length)
    ultimately have "built (kvs @ [(key, val)]) (es @ [?e]) (rs @ [length es]) (BlockBuilder_Add key val b)"
      unfolding add built_def using b off es by simp
    then show ?thesis by blast
  qed
qed

definition finished_block :: "int \<Rightarrow> (byte list \<times> byte list) list \<Rightarrow> byte list" where
  "finished_block interval kvs =
     fst (BlockBuilder_Finish (fold (\<lambda>(k, v). BlockBuilder_Add k v) kvs (BlockBuilder_init interval)))"

lemma built_all:
  assumes "built kvs0 es0 rs0 b"
  shows "\<exists>es rs. built (kvs0 @ kvs) es rs (fold (\<lambda>(k, v). BlockBuilder_Add k v) kvs b)"
  using assms
proof (induction kvs arbitrary: kvs0 es0 rs0 b)
  case (Cons kv kvs)
  obtain e rs' where "built (kvs0 @ [kv]) (es0 @ [e]) rs' ((\<lambda>(k, v). BlockBuilder_Add k v) kv b)"
    using built_Add [OF Cons.prems, of "fst kv" "snd kv"] by (cases kv) auto
  from Cons.IH [OF this] show ?case by simp
qed auto

lemma finished_block_image:
  assumes "1 \<le> interval" and "length (finished_block interval kvs) < 2 ^ 32"
  shows "\<exists>es rs. block_image es rs (finished_block interval kvs) \<and> map snd es = kvs"
proof -
  let ?b = "fold (\<lambda>(k, v). BlockBuilder_Add k v) kvs (BlockBuilder_init interval)"
  obtain es rs where "built ([] @ kvs) es rs ?b" using built_all [OF built_init [OF assms(1)]] by blast
  moreover have "finished_block interval kvs = bb_buffer ?b @ concat (map EncodeFixed32 (bb_restarts ?b)) @
      EncodeFixed32 (of_nat (length (bb_restarts ?b)))"
    unfolding finished_block_def BlockBuilder_Finish_def Let_def fst_conv fold_PutFixed32 by (simp add: PutFixed32_def)
  ultimately have "block_image es rs (finished_block interval kvs)" "map snd es = kvs"
    using assms(2) by (simp_all add: built_def block_image_def comp_def)
  then show ?thesis by blast
qed

lemma Finish_size: "length (fst (BlockBuilder_Finish b)) = CurrentSizeEstimate b"
  unfolding BlockBuilder_Finish_def Let_def fst_conv fold_PutFixed32 by (simp add: PutFixed32_def CurrentSizeEstimate_def)

lemma Reset_init: "BlockBuilder_Reset b = BlockBuilder_init (bb_interval b)"
  by (simp add: BlockBuilder_Reset_def BlockBuilder_init_def)

lemma empty_init: "BlockBuilder_empty (BlockBuilder_Reset b)"
  by (simp add: BlockBuilder_Reset_def BlockBuilder_empty_def)

section \<open>Reading an image\<close>

lemma small_or:
  fixes a b c :: byte
  assumes "(ucast a OR ucast b OR ucast c :: u32) < 128"
  shows "a AND 128 = 0" "b AND 128 = 0" "c AND 128 = 0"
proof -
  let ?x = "ucast a OR ucast b OR ucast c :: u32"
  have "unat (drop_bit 7 ?x) = 0" using assms by (simp add: unat_drop_bit_div word_less_nat_alt del: drop_bit_or)
  then have "drop_bit 7 (ucast a :: u32) = 0 \<and> drop_bit 7 (ucast b :: u32) = 0 \<and> drop_bit 7 (ucast c :: u32) = 0"
    by (simp add: unsigned_eq_0_iff or_eq_0_iff)
  then have "unat (drop_bit 7 (ucast a :: u32)) = 0" "unat (drop_bit 7 (ucast b :: u32)) = 0" "unat (drop_bit 7 (ucast c :: u32)) = 0"
    by simp_all
  moreover have "unat (ucast x :: u32) = unat x" for x :: byte
    using unsigned_less [of x, where 'a = nat] by (simp add: unsigned_ucast_eq take_bit_nat_eq_self)
  ultimately have "unat a < 128" "unat b < 128" "unat c < 128" unfolding unat_drop_bit_div by simp_all
  then show "a AND 128 = 0" "b AND 128 = 0" "c AND 128 = 0" by (simp_all add: byte_stop)
qed

lemma DecodeEntry_slow:
  "DecodeEntry p = (if length p < 3 then None else do {
     (shared, q1) \<leftarrow> GetVarint32Ptr p;
     (non_shared, q2) \<leftarrow> GetVarint32Ptr q1;
     (value_length, q3) \<leftarrow> GetVarint32Ptr q2;
     if of_nat (length q3) < non_shared + value_length then None else Some (q3, shared, non_shared, value_length) })"
proof (cases "length p < 3")
  case False
  then obtain a b c r where p: "p = a # b # c # r" by (auto simp: neq_Nil_conv numeral_3_eq_3 not_less Suc_le_length_iff)
  show ?thesis
  proof (cases "(ucast a OR ucast b OR ucast c :: u32) < 128")
    case True
    then show ?thesis using small_or [OF True] by (simp add: p DecodeEntry_def GetVarint32Ptr_def)
  next
    case nf: False
    then show ?thesis using False by (simp add: p DecodeEntry_def case_prod_beta' split: Option.bind_splits)
  qed
qed (simp add: DecodeEntry_def)

lemma DecodeEntry_entry:
  assumes "en_shared e \<le> length (en_key e)" and "length (entry_bytes e) + length rest < 2 ^ 32"
  shows "DecodeEntry (entry_bytes e @ rest) = Some (drop (en_shared e) (en_key e) @ en_val e @ rest,
    of_nat (en_shared e), of_nat (length (en_key e) - en_shared e), of_nat (length (en_val e)))"
proof -
  let ?ns = "length (en_key e) - en_shared e" and ?vl = "length (en_val e)"
  have "\<not> length (entry_bytes e @ rest) < 3" using length_entry_header [of e] by (simp add: entry_bytes_def)
  moreover have "\<not> (of_nat (?ns + (?vl + length rest)) :: u32) < of_nat ?ns + of_nat ?vl"
  proof -
    have "?ns + (?vl + length rest) < 2 ^ 32" using assms(2) by (simp add: entry_bytes_def)
    then have "unat (of_nat (?ns + (?vl + length rest)) :: u32) = ?ns + (?vl + length rest)"
      "unat (of_nat (?ns + ?vl) :: u32) = ?ns + ?vl" by (simp_all only: unat_of_nat) simp_all
    then show ?thesis unfolding word_less_nat_alt of_nat_add [symmetric] by linarith
  qed
  ultimately show ?thesis
    unfolding DecodeEntry_slow by (simp add: entry_bytes_def entry_header_def)
qed

definition iter_on :: "block_entry list \<Rightarrow> nat list \<Rightarrow> byte list \<Rightarrow> Iter \<Rightarrow> bool" where
  "iter_on es rs data it \<longleftrightarrow> it_data it = data \<and> it_restarts it = off es (length es) \<and> it_num_restarts it = length rs"

lemma take_chunk:
  assumes "\<And>x. length (f x) = 4" and "j < length xs"
  shows "take 4 (drop (j * 4) (concat (map f xs) @ t)) = f (xs ! j)"
  using assms(2)
proof (induction xs arbitrary: j)
  case (Cons x xs)
  then show ?case using assms(1) by (cases j) simp_all
qed simp

lemma image_lengths:
  assumes "block_image es rs data"
  shows "length data = off es (length es) + 4 * length rs + 4" "i \<le> length es \<Longrightarrow> off es i < 2 ^ 32"
    "take (off es (length es)) data = concat (map entry_bytes es)"
proof -
  have l: "length (concat (map (\<lambda>i. EncodeFixed32 (of_nat (off es i))) xs)) = 4 * length xs" for xs
    by (induction xs) simp_all
  show len: "length data = off es (length es) + 4 * length rs + 4" using assms l by (simp add: block_image_def off_length)
  show "off es i < 2 ^ 32" if "i \<le> length es"
    using off_mono [OF that order_refl] len assms by (simp add: block_image_def)
  show "take (off es (length es)) data = concat (map entry_bytes es)" using assms by (simp add: block_image_def off_length)
qed

lemma restart_le: "block_image es rs data \<Longrightarrow> r \<in> set rs \<Longrightarrow> r \<le> length es"
  by (cases es) (auto simp: block_image_def restarts_ok_def max_def split: if_splits)

lemma GetRestartPoint_image:
  assumes "block_image es rs data" and "iter_on es rs data it" and "j < length rs"
  shows "GetRestartPoint it j = Some (off es (rs ! j))"
proof -
  have "drop (off es (length es) + j * 4) data = drop (j * 4) (concat (map (\<lambda>i. EncodeFixed32 (of_nat (off es i))) rs) @
      EncodeFixed32 (of_nat (length rs)))"
    using assms(1) by (simp add: block_image_def off_length add.commute)
  then have "take 4 (drop (off es (length es) + j * 4) data) = EncodeFixed32 (of_nat (off es (rs ! j)))"
    using take_chunk [of "\<lambda>i. EncodeFixed32 (of_nat (off es i))" j rs "EncodeFixed32 (of_nat (length rs))"] assms(3) by simp
  moreover have "unat (of_nat (off es (rs ! j)) :: u32) = off es (rs ! j)"
    using image_lengths(2) [OF assms(1) restart_le [OF assms(1) nth_mem [OF assms(3)]]] by (simp add: unat_of_nat)
  ultimately show ?thesis using assms(2,3) image_lengths(1) [OF assms(1)] DecodeFixed32_Encode [of _ "[]"]
    by (simp add: GetRestartPoint_def block_read_def iter_on_def)
qed

section \<open>Moving over an image\<close>

text \<open>\<open>at i\<close>: the iterator stands at entry \<open>i\<close>. \<open>before i\<close>: parsing reads entry \<open>i\<close> next, or the end.\<close>

definition at :: "block_entry list \<Rightarrow> nat list \<Rightarrow> byte list \<Rightarrow> nat \<Rightarrow> Iter \<Rightarrow> bool" where
  "at es rs data i it \<longleftrightarrow> iter_on es rs data it \<and> i < length es \<and> it_current it = off es i \<and> it_key it = en_key (es ! i) \<and>
     it_value it = Some (off es (Suc i) - length (en_val (es ! i)), length (en_val (es ! i))) \<and>
     it_restart_index it < length rs \<and> rs ! it_restart_index it \<le> i"

definition before :: "block_entry list \<Rightarrow> nat list \<Rightarrow> byte list \<Rightarrow> nat \<Rightarrow> Iter \<Rightarrow> bool" where
  "before es rs data i it \<longleftrightarrow> iter_on es rs data it \<and> i \<le> length es \<and> (\<exists>a l. it_value it = Some (a, l) \<and> a + l = off es i) \<and>
     (i < length es \<longrightarrow> en_shared (es ! i) \<le> length (it_key it) \<and>
       take (en_shared (es ! i)) (it_key it) = take (en_shared (es ! i)) (en_key (es ! i))) \<and>
     it_restart_index it < length rs \<and> rs ! it_restart_index it \<le> i"

definition at_end :: "block_entry list \<Rightarrow> nat list \<Rightarrow> byte list \<Rightarrow> Iter \<Rightarrow> bool" where
  "at_end es rs data it \<longleftrightarrow> iter_on es rs data it \<and> it_current it = it_restarts it"

lemma value_fits: "i < length es \<Longrightarrow> length (en_val (es ! i)) \<le> off es (Suc i)"
  by (simp add: off_Suc entry_bytes_def)

lemma at_before: "entries_ok es \<Longrightarrow> at es rs data i it \<Longrightarrow> before es rs data (Suc i) it"
  using value_fits [of i es] by (auto simp: at_def before_def entries_ok_def dest: spec [of _ "Suc i"])

lemma advance_restart_image:
  assumes "block_image es rs data" "iter_on es rs data it" "it_current it = off es i" "i < length es"
    "it_restart_index it < length rs" "rs ! it_restart_index it \<le> i"
  shows "\<exists>j. advance_restart it = Some (it\<lparr>it_restart_index := j\<rparr>) \<and> j < length rs \<and> rs ! j \<le> i"
  using assms
proof (induction "length rs - it_restart_index it" arbitrary: it rule: less_induct)
  case less
  let ?j = "it_restart_index it"
  show ?case
  proof (cases "?j + 1 < length rs \<and> off es (rs ! (?j + 1)) < off es i")
    case True
    let ?it = "it\<lparr>it_restart_index := ?j + 1\<rparr>"
    have "rs ! (?j + 1) < i"
      using True less.prems(4) restart_le [OF less.prems(1), of "rs ! (?j + 1)"] off_less_iff [of "rs ! (?j + 1)" es i] by simp
    then have "\<exists>j. advance_restart ?it = Some (?it\<lparr>it_restart_index := j\<rparr>) \<and> j < length rs \<and> rs ! j \<le> i"
      using True less.prems by (intro less.hyps) (auto simp: iter_on_def)
    moreover have "advance_restart it = advance_restart ?it"
      using True GetRestartPoint_image [OF less.prems(1,2), of "?j + 1"] less.prems(2,3)
      by (subst advance_restart.simps) (simp add: iter_on_def)
    ultimately show ?thesis by simp
  next
    case False
    then have "advance_restart it = Some it"
      using GetRestartPoint_image [OF less.prems(1,2), of "?j + 1"] less.prems(2,3)
      by (subst advance_restart.simps) (auto simp: iter_on_def)
    then show ?thesis using less.prems by (intro exI [of _ ?j]) simp
  qed
qed

lemma key_length: "entries_ok es \<Longrightarrow> i < length es \<Longrightarrow> length (en_key (es ! i)) \<le> off es (Suc i)"
proof (induction i)
  case 0
  then show ?case by (simp add: off_Suc entry_bytes_def entries_ok_def)
next
  case (Suc i)
  have "en_shared (es ! Suc i) \<le> length (en_key (es ! i))"
    using Suc.prems unfolding entries_ok_def by (auto dest!: spec [of _ "Suc i"])
  also have "\<dots> \<le> off es (Suc i)" using Suc by simp
  finally show ?case using Suc.prems(2) by (simp add: off_Suc [of "Suc i"] entry_bytes_def)
qed

lemma image_entry:
  assumes "block_image es rs data" and "i < length es"
  shows "drop (off es i) (take (off es (length es)) data) = entry_bytes (es ! i) @ concat (map entry_bytes (drop (Suc i) es))"
    "length (concat (map entry_bytes (drop (Suc i) es))) = off es (length es) - off es (Suc i)"
    "\<exists>T. drop (off es i) data = entry_bytes (es ! i) @ T"
proof -
  have d: "drop (off es i) (concat (map entry_bytes es)) = entry_bytes (es ! i) @ concat (map entry_bytes (drop (Suc i) es))"
    using assms(2) drop_off [of i es] Cons_nth_drop_Suc [OF assms(2)] by (metis concat.simps(2) less_imp_le list.simps(9))
  then show "drop (off es i) (take (off es (length es)) data) = entry_bytes (es ! i) @ concat (map entry_bytes (drop (Suc i) es))"
    by (simp add: image_lengths(3) [OF assms(1)])
  show "length (concat (map entry_bytes (drop (Suc i) es))) = off es (length es) - off es (Suc i)"
    using drop_off [of "Suc i" es] assms(2) by (metis Suc_leI length_drop off_length)
  obtain Y where Y: "data = concat (map entry_bytes es) @ Y" using assms(1) by (auto simp: block_image_def)
  have "off es i \<le> length (concat (map entry_bytes es))" using off_mono [of i "length es" es] assms(2) by (simp add: off_length)
  then have "drop (off es i) data = drop (off es i) (concat (map entry_bytes es)) @ Y" by (simp add: Y)
  then show "\<exists>T. drop (off es i) data = entry_bytes (es ! i) @ T" by (simp add: d)
qed

lemma read_delta:
  assumes "block_image es rs data" and "i < length es"
  shows "block_read data (off es i + length (entry_header (es ! i))) (length (en_key (es ! i)) - en_shared (es ! i)) =
      Some (drop (en_shared (es ! i)) (en_key (es ! i)))"
    and "block_read data (off es (Suc i) - length (en_val (es ! i))) (length (en_val (es ! i))) = Some (en_val (es ! i))"
proof -
  let ?e = "es ! i"
  let ?d = "drop (en_shared ?e) (en_key ?e)" and ?h = "entry_header ?e"
  obtain T where T: "drop (off es i) data = ?h @ ?d @ en_val ?e @ T"
    using image_entry(3) [OF assms] by (auto simp: entry_bytes_def)
  have o: "off es (Suc i) = off es i + length ?h + length ?d + length (en_val ?e)"
    using assms(2) by (simp add: off_Suc entry_bytes_def)
  have "off es (Suc i) \<le> length data"
    using off_mono [of "Suc i" "length es" es] assms(2) image_lengths(1) [OF assms(1)] by simp
  moreover have "drop (off es i + length ?h) data = ?d @ en_val ?e @ T"
    using arg_cong [OF T, of "drop (length ?h)"] by (simp add: add.commute)
  moreover have "drop (off es i + length ?h + length ?d) data = en_val ?e @ T"
    using arg_cong [OF T, of "drop (length ?h + length ?d)"] by (simp add: ac_simps)
  moreover have "off es (Suc i) - length (en_val ?e) = off es i + length ?h + length ?d" using o by simp
  ultimately show "block_read data (off es i + length ?h) (length (en_key ?e) - en_shared ?e) = Some ?d"
    "block_read data (off es (Suc i) - length (en_val ?e)) (length (en_val ?e)) = Some (en_val ?e)"
    using o by (simp_all add: block_read_def)
qed

lemma decode_image:
  assumes "block_image es rs data" and i: "i < length es"
  shows "DecodeEntry (drop (off es i) (take (off es (length es)) data)) =
    Some (drop (en_shared (es ! i)) (en_key (es ! i)) @ en_val (es ! i) @ concat (map entry_bytes (drop (Suc i) es)),
      of_nat (en_shared (es ! i)), of_nat (length (en_key (es ! i)) - en_shared (es ! i)), of_nat (length (en_val (es ! i))))"
    and "off es (length es) - length (drop (en_shared (es ! i)) (en_key (es ! i)) @ en_val (es ! i) @ concat (map entry_bytes (drop (Suc i) es)))
      = off es i + length (entry_header (es ! i))"
    and "unat (of_nat (en_shared (es ! i)) :: u32) = en_shared (es ! i)"
      "unat (of_nat (length (en_key (es ! i)) - en_shared (es ! i)) :: u32) = length (en_key (es ! i)) - en_shared (es ! i)"
      "unat (of_nat (length (en_val (es ! i))) :: u32) = length (en_val (es ! i))"
proof -
  let ?e = "es ! i" and ?rest = "concat (map entry_bytes (drop (Suc i) es))"
  have ok: "entries_ok es" and sh: "en_shared ?e \<le> length (en_key ?e)"
    using assms by (auto simp: block_image_def entries_ok_def)
  have n: "off es (Suc i) = off es i + length (entry_bytes ?e)" "off es (Suc i) \<le> off es (length es)"
    "off es (length es) < 2 ^ 32" "length ?rest = off es (length es) - off es (Suc i)"
    using i off_mono [of "Suc i" "length es" es] image_lengths(2) [OF assms(1)] image_entry(2) [OF assms] by (simp_all add: off_Suc)
  then have "length (entry_bytes ?e) + length ?rest < 2 ^ 32" by linarith
  then show "DecodeEntry (drop (off es i) (take (off es (length es)) data)) = Some (drop (en_shared ?e) (en_key ?e) @ en_val ?e @ ?rest,
      of_nat (en_shared ?e), of_nat (length (en_key ?e) - en_shared ?e), of_nat (length (en_val ?e)))"
    unfolding image_entry(1) [OF assms] by (rule DecodeEntry_entry [OF sh])
  show "off es (length es) - length (drop (en_shared ?e) (en_key ?e) @ en_val ?e @ ?rest) = off es i + length (entry_header ?e)"
    using n by (simp add: entry_bytes_def)
  have "en_shared ?e < 2 ^ 32" "length (en_key ?e) - en_shared ?e < 2 ^ 32" "length (en_val ?e) < 2 ^ 32"
    using key_length [OF ok i] sh n by (auto simp: entry_bytes_def)
  then show "unat (of_nat (en_shared ?e) :: u32) = en_shared ?e"
    "unat (of_nat (length (en_key ?e) - en_shared ?e) :: u32) = length (en_key ?e) - en_shared ?e"
    "unat (of_nat (length (en_val ?e)) :: u32) = length (en_val ?e)"
    by (simp_all only: unat_of_nat) simp_all
qed

lemma parse_entry:
  assumes img: "block_image es rs data" and bef: "before es rs data i it" and i: "i < length es"
  shows "\<exists>it'. ParseNextKey it = Some (True, it') \<and> at es rs data i it' \<and> it_status it' = it_status it"
proof -
  let ?e = "es ! i"
  note d = decode_image [OF img i]
  have it: "it_data it = data" "it_restarts it = off es (length es)" using bef by (simp_all add: before_def iter_on_def)
  obtain a l where v: "it_value it = Some (a, l)" "a + l = off es i" using bef by (auto simp: before_def)
  have o: "off es i mod UINT32_MOD = off es i" "off es i < off es (length es)"
    using image_lengths(2) [OF img, of i] i off_less [of i "length es" es] by simp_all
  let ?p = "off es i + length (entry_header ?e)" and ?ns = "length (en_key ?e) - en_shared ?e"
  have key: "take (en_shared ?e) (it_key it) @ drop (en_shared ?e) (en_key ?e) = en_key ?e" "\<not> length (it_key it) < en_shared ?e"
    using bef i by (simp_all add: before_def)
  define it1 where "it1 = it\<lparr>it_current := off es i, it_key := en_key ?e, it_value := Some (?p + ?ns, length (en_val ?e))\<rparr>"
  have "iter_on es rs data it1" "it_current it1 = off es i" "it_restart_index it1 < length rs" "rs ! it_restart_index it1 \<le> i"
    using bef by (simp_all add: it1_def before_def iter_on_def)
  then obtain j where j: "advance_restart it1 = Some (it1\<lparr>it_restart_index := j\<rparr>)" "j < length rs" "rs ! j \<le> i"
    using advance_restart_image [OF img _ _ i] by blast
  have "ParseNextKey it = Some (True, it1\<lparr>it_restart_index := j\<rparr>)"
    unfolding ParseNextKey_def NextEntryOffset_def v(1) it Let_def
    using o key v(2) read_delta(1) [OF img i] j(1) by (simp add: d it1_def del: length_append)
  moreover have "?p + ?ns = off es (Suc i) - length (en_val ?e)" using i by (simp add: off_Suc entry_bytes_def)
  then have "at es rs data i (it1\<lparr>it_restart_index := j\<rparr>)"
    using bef i j(2,3) by (simp add: at_def it1_def before_def iter_on_def)
  ultimately show ?thesis by (auto simp: it1_def)
qed

lemma parse_end:
  assumes "block_image es rs data" and "before es rs data (length es) it"
  shows "\<exists>it'. ParseNextKey it = Some (False, it') \<and> at_end es rs data it' \<and> it_status it' = it_status it"
  using assms image_lengths(2) [OF assms(1), of "length es"]
  by (auto simp: ParseNextKey_def NextEntryOffset_def before_def at_end_def iter_on_def)

lemma seek_restart:
  assumes "block_image es rs data" and "iter_on es rs data it" and "j < length rs"
  shows "\<exists>it'. SeekToRestartPoint j it = Some it' \<and> before es rs data (rs ! j) it' \<and> it_status it' = it_status it"
  using assms GetRestartPoint_image [OF assms] restart_le [OF assms(1) nth_mem [OF assms(3)]] nth_mem [OF assms(3)]
  by (auto simp: SeekToRestartPoint_def before_def iter_on_def block_image_def restarts_ok_def)

lemma next_offset:
  assumes "block_image es rs data" and "at es rs data i it"
  shows "NextEntryOffset it = Some (off es (Suc i))"
  using assms image_lengths(2) [OF assms(1), of "Suc i"] value_fits [of i es] by (auto simp: NextEntryOffset_def at_def)

lemma image_ok: "block_image es rs data \<Longrightarrow> entries_ok es"
  by (simp add: block_image_def)

lemma parse_until_image:
  assumes "block_image es rs data" and "before es rs data i it" and "i \<le> m" and "m < length es"
  shows "\<exists>it'. parse_until (off es (Suc m)) it = Some it' \<and> at es rs data m it' \<and> it_status it' = it_status it"
  using assms(2,3)
proof (induction "m - i" arbitrary: i it)
  case 0
  then have i: "i = m" by simp
  obtain it1 where it1: "ParseNextKey it = Some (True, it1)" "at es rs data m it1" "it_status it1 = it_status it"
    using parse_entry [OF assms(1) "0.prems"(1)] assms(4) i by auto
  then show ?case using next_offset [OF assms(1) it1(2)] by (subst parse_until.simps) simp
next
  case (Suc d)
  have i: "i < m" "i < length es" using Suc.hyps(2) assms(4) by auto
  obtain it1 where it1: "ParseNextKey it = Some (True, it1)" "at es rs data i it1" "it_status it1 = it_status it"
    using parse_entry [OF assms(1) Suc.prems(1) i(2)] by blast
  moreover have "off es (Suc i) < off es (Suc m)" using i assms(4) by (intro off_less) auto
  ultimately have "parse_until (off es (Suc m)) it = parse_until (off es (Suc m)) it1"
    using next_offset [OF assms(1) it1(2)] by (subst parse_until.simps) simp
  moreover have "\<exists>it'. parse_until (off es (Suc m)) it1 = Some it' \<and> at es rs data m it' \<and> it_status it' = it_status it1"
    using Suc.hyps(1) [of "Suc i" it1] Suc.hyps(2) at_before [OF image_ok [OF assms(1)] it1(2)] i by simp
  ultimately show ?case using it1(3) by simp
qed

text \<open>Positions of the iterator: an entry, or the end for \<open>length es\<close>.\<close>

definition pos :: "block_entry list \<Rightarrow> nat list \<Rightarrow> byte list \<Rightarrow> nat \<Rightarrow> Iter \<Rightarrow> bool" where
  "pos es rs data i it \<longleftrightarrow> it_status it = OK \<and> (if i < length es then at es rs data i it else at_end es rs data it)"

lemma parse_before:
  assumes "block_image es rs data" and "before es rs data i it" and "it_status it = OK"
  shows "\<exists>it'. ParseNextKey it = Some (i < length es, it') \<and> pos es rs data i it'"
proof (cases "i < length es")
  case True
  then show ?thesis using parse_entry [OF assms(1,2) True] assms(3) by (auto simp: pos_def)
next
  case False
  then have "i = length es" using assms(2) by (simp add: before_def)
  then show ?thesis using parse_end [OF assms(1), of it] assms(2,3) by (auto simp: pos_def)
qed

lemma pos_before: "block_image es rs data \<Longrightarrow> pos es rs data i it \<Longrightarrow> i < length es \<Longrightarrow> before es rs data (Suc i) it"
  using at_before [OF image_ok] by (simp add: pos_def)

lemma pos_iter_on: "pos es rs data i it \<Longrightarrow> iter_on es rs data it"
  by (auto simp: pos_def at_def at_end_def split: if_splits)

lemma restarts_nonempty: "block_image es rs data \<Longrightarrow> 0 < length rs \<and> rs ! 0 = 0"
  by (cases rs) (auto simp: block_image_def restarts_ok_def)

lemma Next_image:
  assumes "block_image es rs data" and "pos es rs data i it" and "i < length es"
  shows "\<exists>it'. Iter_Next it = Some it' \<and> pos es rs data (Suc i) it'"
  using parse_before [OF assms(1) pos_before [OF assms]] assms(2) by (auto simp: Iter_Next_def pos_def)

lemma SeekToFirst_image:
  assumes "block_image es rs data" and "iter_on es rs data it" and "it_status it = OK"
  shows "\<exists>it'. Iter_SeekToFirst it = Some it' \<and> pos es rs data 0 it'"
proof -
  obtain it1 where it1: "SeekToRestartPoint 0 it = Some it1" "before es rs data 0 it1" "it_status it1 = OK"
    using seek_restart [OF assms(1,2), of 0] restarts_nonempty [OF assms(1)] assms(3) by auto
  then show ?thesis using parse_before [OF assms(1) it1(2,3)] by (auto simp: Iter_SeekToFirst_def)
qed

lemma SeekToLast_image:
  assumes "block_image es rs data" and "iter_on es rs data it" and "it_status it = OK"
  shows "\<exists>it'. Iter_SeekToLast it = Some it' \<and> pos es rs data (length es - 1) it'"
proof -
  have n: "it_num_restarts it = length rs" "it_restarts it = off es (length es)" using assms(2) by (simp_all add: iter_on_def)
  have j: "length rs - 1 < length rs" using restarts_nonempty [OF assms(1)] by simp
  obtain it1 where it1: "SeekToRestartPoint (length rs - 1) it = Some it1" "before es rs data (rs ! (length rs - 1)) it1"
    "it_status it1 = OK"
    using seek_restart [OF assms(1,2) j] assms(3) by auto
  have r: "it_restarts it1 = off es (length es)" using it1(2) by (simp add: before_def iter_on_def)
  show ?thesis
  proof (cases "es = []")
    case True
    have "rs ! (length rs - 1) = 0" using restart_le [OF assms(1) nth_mem [OF j]] True by simp
    then obtain it2 where "ParseNextKey it1 = Some (False, it2)" "pos es rs data 0 it2"
      using parse_before [OF assms(1) it1(2,3)] True by auto
    then show ?thesis using True it1(1) n r by (auto simp: Iter_SeekToLast_def parse_until.simps)
  next
    case False
    then have l: "length es - 1 < length es" "Suc (length es - 1) = length es" by (cases es; simp)+
    have "rs ! (length rs - 1) < max 1 (length es)" using assms(1) nth_mem [OF j] by (auto simp: block_image_def restarts_ok_def)
    then have "rs ! (length rs - 1) \<le> length es - 1" using l(1) by (simp add: max_def split: if_splits)
    from parse_until_image [OF assms(1) it1(2) this l(1)] l it1 n r show ?thesis
      by (auto simp: Iter_SeekToLast_def pos_def)
  qed
qed

lemma prev_restart_image:
  assumes "block_image es rs data" and "iter_on es rs data it" and "j < length rs" and "rs ! j \<le> i" and "i < length es"
  shows "\<exists>j'. prev_restart (off es i) j it = Some (if i = 0 then Inl (it\<lparr>it_current := it_restarts it, it_restart_index := it_num_restarts it\<rparr>)
      else Inr j') \<and> (0 < i \<longrightarrow> j' < length rs \<and> rs ! j' < i)"
  using assms(3,4)
proof (induction j)
  case 0
  note g = GetRestartPoint_image [OF assms(1,2) "0.prems"(1)]
  show ?case
  proof (cases "i = 0")
    case True
    then show ?thesis using g restarts_nonempty [OF assms(1)] by (subst prev_restart.simps) simp
  next
    case False
    then have "0 < off es i" using off_less [of 0 i es] assms(5) by simp
    then show ?thesis using g restarts_nonempty [OF assms(1)] False by (subst prev_restart.simps) auto
  qed
next
  case (Suc j)
  note g = GetRestartPoint_image [OF assms(1,2) Suc.prems(1)]
  have sorted: "rs ! j < rs ! Suc j" using assms(1) Suc.prems(1) by (simp add: block_image_def restarts_ok_def sorted_wrt_nth_less)
  then have i: "0 < i" using Suc.prems(2) by simp
  show ?case
  proof (cases "rs ! Suc j < i")
    case True
    then have "off es (rs ! Suc j) < off es i" using assms(5) by (intro off_less) auto
    then show ?thesis using g i True Suc.prems(1) by (subst prev_restart.simps) auto
  next
    case False
    then have "rs ! Suc j = i" using Suc.prems(2) by simp
    then have "prev_restart (off es i) (Suc j) it = prev_restart (off es i) j it"
      using g by (subst prev_restart.simps) simp
    then show ?thesis using Suc.IH Suc.prems sorted by simp
  qed
qed

lemma Prev_image:
  assumes "block_image es rs data" and p: "pos es rs data i it" and "i < length es"
  shows "\<exists>it'. Iter_Prev it = Some it' \<and> (if i = 0 then at_end es rs data it' \<and> it_status it' = OK else pos es rs data (i - 1) it')"
proof -
  have at: "at es rs data i it" "it_status it = OK" using p assms(3) by (simp_all add: pos_def)
  then have on: "iter_on es rs data it" "it_restart_index it < length rs" "rs ! it_restart_index it \<le> i" "it_current it = off es i"
    by (simp_all add: at_def)
  obtain j' where j': "prev_restart (off es i) (it_restart_index it) it =
      Some (if i = 0 then Inl (it\<lparr>it_current := it_restarts it, it_restart_index := it_num_restarts it\<rparr>) else Inr j')"
    "0 < i \<longrightarrow> j' < length rs \<and> rs ! j' < i"
    using prev_restart_image [OF assms(1) on(1-3) assms(3)] by blast
  show ?thesis
  proof (cases "i = 0")
    case True
    then show ?thesis using j' on at by (simp add: Iter_Prev_def at_end_def iter_on_def)
  next
    case False
    obtain it1 where it1: "SeekToRestartPoint j' it = Some it1" "before es rs data (rs ! j') it1" "it_status it1 = OK"
      using seek_restart [OF assms(1) on(1)] j'(2) False at(2) by force
    have i: "rs ! j' \<le> i - 1" "i - 1 < length es" "Suc (i - 1) = i" using j'(2) False assms(3) by auto
    obtain it2 where "parse_until (off es i) it1 = Some it2" "at es rs data (i - 1) it2" "it_status it2 = OK"
      using parse_until_image [OF assms(1) it1(2) i(1,2)] it1(3) unfolding i(3) by auto
    then show ?thesis using False j'(1) it1(1) on(4) i(2) by (simp add: Iter_Prev_def pos_def)
  qed
qed

section \<open>Reading a block from end to end\<close>

text \<open>Clients walk over a block with \<^verbatim>\<open>Next\<close> or \<^verbatim>\<open>Prev\<close> while the iterator is valid.\<close>

partial_function (option) walk :: "(Iter \<Rightarrow> Iter option) \<Rightarrow> Iter \<Rightarrow> (byte list \<times> byte list) list option" where
  [code]: "walk move it =
     (if Iter_Valid it then
        do { val \<leftarrow> Iter_value it; it' \<leftarrow> move it; kvs \<leftarrow> walk move it'; Some ((it_key it, val) # kvs) }
      else Some [])"

lemma pos_observe:
  assumes "block_image es rs data" and "pos es rs data i it"
  shows "Iter_Valid it \<longleftrightarrow> i < length es" and "i < length es \<Longrightarrow> it_key it = en_key (es ! i)"
    and "i < length es \<Longrightarrow> Iter_value it = Some (en_val (es ! i))"
proof -
  show "Iter_Valid it \<longleftrightarrow> i < length es"
    using assms(2) off_less [of i "length es" es] by (auto simp: pos_def Iter_Valid_def at_def at_end_def iter_on_def split: if_splits)
  assume i: "i < length es"
  then show "it_key it = en_key (es ! i)" using assms(2) by (simp add: pos_def at_def)
  show "Iter_value it = Some (en_val (es ! i))"
    using assms(2) i read_delta(2) [OF assms(1) i] by (simp add: pos_def at_def Iter_value_def iter_on_def)
qed

lemma walk_forward:
  assumes "block_image es rs data" and "pos es rs data i it"
  shows "walk Iter_Next it = Some (map snd (drop i es))"
  using assms(2)
proof (induction "length es - i" arbitrary: i it)
  case 0
  then show ?case using pos_observe(1) [OF assms(1) "0.prems"] by (subst walk.simps) simp
next
  case (Suc d)
  have i: "i < length es" using Suc.hyps(2) by simp
  obtain it' where it': "Iter_Next it = Some it'" "pos es rs data (Suc i) it'" using Next_image [OF assms(1) Suc.prems i] by blast
  have "walk Iter_Next it' = Some (map snd (drop (Suc i) es))" using Suc.hyps(1) [OF _ it'(2)] Suc.hyps(2) by simp
  then show ?case using pos_observe [OF assms(1) Suc.prems] i it'(1)
    by (subst walk.simps) (simp add: Cons_nth_drop_Suc [symmetric])
qed

lemma walk_backward:
  assumes "block_image es rs data" and "pos es rs data i it" and "i < length es"
  shows "walk Iter_Prev it = Some (rev (map snd (take (Suc i) es)))"
  using assms(2,3)
proof (induction i arbitrary: it)
  case 0
  obtain it' where "Iter_Prev it = Some it'" "at_end es rs data it'" "it_status it' = OK"
    using Prev_image [OF assms(1) "0.prems"] by auto
  moreover from this(2) have "walk Iter_Prev it' = Some []"
    by (subst walk.simps) (simp add: Iter_Valid_def at_end_def)
  ultimately show ?case using pos_observe [OF assms(1) "0.prems"(1)] "0.prems"(2)
    by (subst walk.simps) (simp add: take_Suc_conv_app_nth)
next
  case (Suc i)
  obtain it' where it': "Iter_Prev it = Some it'" "pos es rs data i it'" using Prev_image [OF assms(1) Suc.prems] by auto
  have "walk Iter_Prev it' = Some (rev (map snd (take (Suc i) es)))" using Suc.IH [OF it'(2)] Suc.prems(2) by simp
  then show ?case using pos_observe [OF assms(1) Suc.prems(1)] Suc.prems(2) it'(1)
    by (subst walk.simps) (simp add: take_Suc_conv_app_nth [of "Suc i"])
qed

lemma NewIterator_image:
  assumes "block_image es rs data"
  shows "\<exists>it. Block_NewIterator (Block_init data) = Block_iterator it \<and> iter_on es rs data it \<and> it_status it = OK"
proof -
  note len = image_lengths(1) [OF assms]
  have small: "length data < 2 ^ 32" using assms unfolding block_image_def by blast
  obtain Y where "data = Y @ EncodeFixed32 (of_nat (length rs))"
    using assms unfolding block_image_def append_assoc [symmetric] by blast
  then have "drop (length data - 4) data = EncodeFixed32 (of_nat (length rs))" by simp
  moreover have "unat (of_nat (length rs) :: u32) = length rs" using small len by (simp add: unat_of_nat)
  ultimately have n: "unat (DecodeFixed32 (drop (length data - 4) data)) = length rs" using DecodeFixed32_Encode [of _ "[]"] by simp
  have "(length data - ((1 + length rs) mod UINT32_MOD) * 4) mod UINT32_MOD = off es (length es)" using len small by simp
  with n len restarts_nonempty [OF assms] show ?thesis
    by (simp add: Block_NewIterator_def Block_init_def NumRestarts_def Let_def iter_on_def Iter_init_def)
qed

text \<open>C37. A block gives back what was added to it: for every restart interval and every list of keys and values, the iterator
  of the finished block reads the list forwards from \<^verbatim>\<open>SeekToFirst\<close> with \<^verbatim>\<open>Next\<close> and backwards from \<^verbatim>\<open>SeekToLast\<close> with
  \<^verbatim>\<open>Prev\<close>, without reading outside of the block, as long as the block is smaller than 4 GiB.\<close>

theorem block_roundtrip:
  assumes "1 \<le> interval" and "length (finished_block interval kvs) < 2 ^ 32"
  shows "\<exists>it first last. Block_NewIterator (Block_init (finished_block interval kvs)) = Block_iterator it \<and>
    Iter_SeekToFirst it = Some first \<and> walk Iter_Next first = Some kvs \<and>
    Iter_SeekToLast it = Some last \<and> walk Iter_Prev last = Some (rev kvs)"
proof -
  obtain es rs where img: "block_image es rs (finished_block interval kvs)" and kvs: "map snd es = kvs"
    using finished_block_image [OF assms] by blast
  obtain it where it: "Block_NewIterator (Block_init (finished_block interval kvs)) = Block_iterator it"
    "iter_on es rs (finished_block interval kvs) it" "it_status it = OK" using NewIterator_image [OF img] by blast
  obtain f where f: "Iter_SeekToFirst it = Some f" "pos es rs (finished_block interval kvs) 0 f"
    using SeekToFirst_image [OF img it(2,3)] by blast
  obtain l where l: "Iter_SeekToLast it = Some l" "pos es rs (finished_block interval kvs) (length es - 1) l"
    using SeekToLast_image [OF img it(2,3)] by blast
  have "walk Iter_Prev l = Some (rev kvs)"
  proof (cases "es = []")
    case True
    then show ?thesis using pos_observe(1) [OF img l(2)] kvs by (subst walk.simps) simp
  next
    case False
    then show ?thesis using walk_backward [OF img l(2)] kvs by (cases es) auto
  qed
  then show ?thesis using it(1) f l(1) walk_forward [OF img f(2)] kvs by auto
qed

theorem block_roundtrip_witness:
  "\<exists>it first last. Block_NewIterator (Block_init (finished_block 2 [([1], [10]), ([1, 2], []), ([3], [30])])) = Block_iterator it \<and>
    Iter_SeekToFirst it = Some first \<and> walk Iter_Next first = Some [([1], [10]), ([1, 2], []), ([3], [30])] \<and>
    Iter_SeekToLast it = Some last \<and> walk Iter_Prev last = Some (rev [([1], [10]), ([1, 2], []), ([3], [30])])"
proof (rule block_roundtrip)
  show "length (finished_block 2 [([1], [10]), ([1, 2], []), ([3], [30])]) < 2 ^ 32"
    by (simp add: finished_block_def BlockBuilder_Finish_def BlockBuilder_Add_def BlockBuilder_init_def PutFixed32_def PutVarint32_def
        EncodeVarint32_def Let_def)
qed simp

section \<open>Seeking\<close>

context comparator
begin

lemma seek_search_image:
  assumes img: "block_image es rs data" and on: "iter_on es rs data it" and "l \<le> r" and "r < length rs"
    and "l = 0 \<or> compare (en_key (es ! (rs ! l))) target < 0"
  shows "\<exists>l'. seek_search compare target it l r = Some (Inr l') \<and> l' < length rs \<and>
    (l' = 0 \<or> compare (en_key (es ! (rs ! l'))) target < 0)"
  using assms(3-5)
proof (induction "r - l" arbitrary: l r rule: less_induct)
  case less
  show ?case
  proof (cases "l < r")
    case False
    then show ?thesis using less.prems by (subst seek_search.simps) auto
  next
    case True
    define mid where "mid = (l + r + 1) div 2"
    have mid: "l < mid" "mid \<le> r" using True by (auto simp: mid_def)
    have "length rs < 2 ^ 30" using image_lengths(1) [OF img] img by (simp add: block_image_def)
    then have modmid: "((l + r + 1) mod UINT32_MOD) div 2 = mid" using less.prems by (simp add: mid_def)
    have ms: "mid < length rs" using mid less.prems by simp
    have "0 < rs ! mid" using img ms mid(1) restarts_nonempty [OF img]
      by (auto simp: block_image_def restarts_ok_def dest: sorted_wrt_nth_less [of _ _ 0 mid])
    moreover have bnd: "rs ! mid < max 1 (length es) \<and> (rs ! mid < length es \<longrightarrow> en_shared (es ! (rs ! mid)) = 0)"
      using img nth_mem [OF ms] by (auto simp: block_image_def restarts_ok_def)
    ultimately have m: "rs ! mid < length es" "en_shared (es ! (rs ! mid)) = 0" by (auto simp: max_def split: if_splits)
    note d = decode_image [OF img m(1)] and rd = read_delta(1) [OF img m(1)] and g = GetRestartPoint_image [OF img on ms]
    have it: "it_data it = data" "it_restarts it = off es (length es)" using on by (simp_all add: iter_on_def)
    have step: "seek_search compare target it l r =
        (if compare (en_key (es ! (rs ! mid))) target < 0 then seek_search compare target it mid r
         else seek_search compare target it l (mid - 1))"
      using True g d rd m(2) by (subst seek_search.simps) (simp add: modmid [simplified] it del: length_append)
    show ?thesis
    proof (cases "compare (en_key (es ! (rs ! mid))) target < 0")
      case c: True
      then show ?thesis unfolding step using less.hyps [of r mid] mid less.prems True by auto
    next
      case c: False
      then show ?thesis unfolding step using less.hyps [of "mid - 1" l] mid less.prems True by auto
    qed
  qed
qed

lemma takeWhile_take_le: "length (takeWhile P (take n xs)) \<le> length (takeWhile P xs)"
  by (induction xs arbitrary: n) (auto simp: take_Cons split: nat.splits)

text \<open>The position of the first entry that is not before the target.\<close>

definition seek_pos :: "byte list \<Rightarrow> block_entry list \<Rightarrow> nat" where
  "seek_pos target es = length (takeWhile (\<lambda>e. compare (en_key e) target < 0) es)"

lemma seek_linear_image:
  assumes img: "block_image es rs data" and "before es rs data i it" and "it_status it = OK" and "i \<le> seek_pos target es"
  shows "\<exists>it'. seek_linear compare target it = Some it' \<and> pos es rs data (seek_pos target es) it'"
  using assms(2-4)
proof (induction "length es - i" arbitrary: i it rule: less_induct)
  case less
  have le: "seek_pos target es \<le> length es" by (simp add: seek_pos_def length_takeWhile_le)
  obtain it1 where it1: "ParseNextKey it = Some (i < length es, it1)" "pos es rs data i it1"
    using parse_before [OF img less.prems(1,2)] by blast
  show ?case
  proof (cases "i = seek_pos target es")
    case True
    have "\<not> compare (en_key (es ! i)) target < 0" if "i < length es"
      using that nth_length_takeWhile [of "\<lambda>e. compare (en_key e) target < 0" es] True by (simp add: seek_pos_def)
    then have "seek_linear compare target it = Some it1"
      using it1 pos_observe(2) [OF img it1(2)] by (subst seek_linear.simps) auto
    then show ?thesis using it1(2) True by blast
  next
    case False
    then have i: "i < seek_pos target es" "i < length es" using less.prems(3) le by auto
    have "compare (en_key (es ! i)) target < 0"
      using i(1) set_takeWhileD [of "es ! i" "\<lambda>e. compare (en_key e) target < 0" es]
      by (metis nth_mem seek_pos_def takeWhile_nth)
    then have "seek_linear compare target it = seek_linear compare target it1"
      using it1 pos_observe(2) [OF img it1(2)] i(2) by (subst seek_linear.simps) auto
    moreover have "\<exists>it'. seek_linear compare target it1 = Some it' \<and> pos es rs data (seek_pos target es) it'"
      using less.hyps [OF _ pos_before [OF img it1(2) i(2)]] i it1(2) by (simp add: pos_def)
    ultimately show ?thesis by simp
  qed
qed

lemma Seek_image:
  assumes img: "block_image es rs data" and on: "iter_on es rs data it" and "it_status it = OK"
    and ok: "ok target" "\<forall>e \<in> set es. ok (en_key e)" and sorted: "sorted_wrt (\<lambda>a b. compare (en_key a) (en_key b) < 0) es"
  shows "\<exists>it'. Iter_Seek compare target it = Some it' \<and> pos es rs data (seek_pos target es) it'"
proof -
  have n: "it_num_restarts it = length rs" "0 < length rs" using on restarts_nonempty [OF img] by (simp_all add: iter_on_def)
  obtain l where l: "seek_search compare target it 0 (length rs - 1) = Some (Inr l)" "l < length rs"
    "l = 0 \<or> compare (en_key (es ! (rs ! l))) target < 0"
    using seek_search_image [OF img on, of 0 "length rs - 1" target] n(2) by auto
  obtain it1 where it1: "SeekToRestartPoint l it = Some it1" "before es rs data (rs ! l) it1" "it_status it1 = OK"
    using seek_restart [OF img on l(2)] assms(3) by auto
  have "rs ! l \<le> seek_pos target es"
  proof (cases "l = 0")
    case True
    then show ?thesis using restarts_nonempty [OF img] by simp
  next
    case False
    have r: "rs ! l \<le> length es" using restart_le [OF img nth_mem [OF l(2)]] .
    have lt: "compare (en_key (es ! j)) target < 0" if "j < rs ! l" for j
    proof (cases "rs ! l < length es")
      case True
      then have "compare (en_key (es ! j)) (en_key (es ! (rs ! l))) < 0" 
        using sorted_wrt_nth_less [OF sorted that] by simp
      then show ?thesis using l(3) False True that ok less_le_trans [of "en_key (es ! j)" "en_key (es ! (rs ! l))" target] by simp
    next
      case nl: False
      have "rs ! l < max 1 (length es)" using img nth_mem [OF l(2)] by (auto simp: block_image_def restarts_ok_def)
      then show ?thesis using nl that by (simp add: max_def split: if_splits)
    qed
    have "compare (en_key e) target < 0" if e: "e \<in> set (take (rs ! l) es)" for e
    proof -
      obtain j where "j < length (take (rs ! l) es)" "take (rs ! l) es ! j = e" using e unfolding in_set_conv_nth by blast
      then have "j < rs ! l" "e = es ! j" by simp_all
      then show ?thesis using lt by simp
    qed
    then have all: "takeWhile (\<lambda>e. compare (en_key e) target < 0) (take (rs ! l) es) = take (rs ! l) es"
      unfolding takeWhile_eq_all_conv by blast
    have "rs ! l = length (takeWhile (\<lambda>e. compare (en_key e) target < 0) (take (rs ! l) es))" unfolding all using r by simp
    also have "\<dots> \<le> seek_pos target es" by (simp add: seek_pos_def takeWhile_take_le)
    finally show ?thesis .
  qed
  from seek_linear_image [OF img it1(2,3) this] show ?thesis unfolding Iter_Seek_def n(1) l(1) bind.bind_lunit sum.case it1(1) .
qed

lemma Seek_block:
  assumes "1 \<le> interval" and "length (finished_block interval kvs) < 2 ^ 32" and "ok target" and "\<forall>kv \<in> set kvs. ok (fst kv)"
    and "sorted_wrt (\<lambda>a b. compare (fst a) (fst b) < 0) kvs"
  shows "\<exists>it it'. Block_NewIterator (Block_init (finished_block interval kvs)) = Block_iterator it \<and>
    Iter_Seek compare target it = Some it' \<and> walk Iter_Next it' = Some (dropWhile (\<lambda>kv. compare (fst kv) target < 0) kvs)"
proof -
  obtain es rs where img: "block_image es rs (finished_block interval kvs)" and kvs: "map snd es = kvs"
    using finished_block_image [OF assms(1,2)] by blast
  obtain it where it: "Block_NewIterator (Block_init (finished_block interval kvs)) = Block_iterator it"
    "iter_on es rs (finished_block interval kvs) it" "it_status it = OK" using NewIterator_image [OF img] by blast
  have "sorted_wrt (\<lambda>a b. compare (en_key a) (en_key b) < 0) es" "\<forall>e \<in> set es. ok (en_key e)"
    using assms(4,5) unfolding kvs [symmetric] by (simp_all add: sorted_wrt_map)
  then obtain it' where it': "Iter_Seek compare target it = Some it'"
    "pos es rs (finished_block interval kvs) (seek_pos target es) it'" using Seek_image [OF img it(2,3) assms(3)] by blast
  have "map snd (drop (seek_pos target es) es) = dropWhile (\<lambda>kv. compare (fst kv) target < 0) kvs"
    unfolding kvs [symmetric] seek_pos_def dropWhile_eq_drop [symmetric] dropWhile_map comp_def ..
  then show ?thesis using it(1) it'(1) walk_forward [OF img it'(2)] by simp
qed

end

text \<open>C12. \<^verbatim>\<open>Seek\<close> over internal keys: in a block whose keys were added in increasing order, the binary search over the restart
  points and the scan after it stop at the first entry that is not before the target, from which \<^verbatim>\<open>Next\<close> reads the rest of
  the entries; it is not valid if there is none. The comparator is the one of internal keys over the bytewise one.\<close>

theorem block_seek_correct:
  assumes "1 \<le> interval" and "length (finished_block interval kvs) < 2 ^ 32" and "8 \<le> length target"
    and "\<forall>kv \<in> set kvs. 8 \<le> length (fst kv)"
    and "sorted_wrt (\<lambda>a b. InternalKeyComparator_Compare Slice_compare (fst a) (fst b) < 0) kvs"
  shows "\<exists>it it'. Block_NewIterator (Block_init (finished_block interval kvs)) = Block_iterator it \<and>
    Iter_Seek (InternalKeyComparator_Compare Slice_compare) target it = Some it' \<and>
    walk Iter_Next it' = Some (dropWhile (\<lambda>kv. InternalKeyComparator_Compare Slice_compare (fst kv) target < 0) kvs)"
  using assms by (intro internal_bytewise.Seek_block) auto

theorem block_seek_correct_witness:
  "\<exists>it it'. Block_NewIterator (Block_init (finished_block 1 [([1, 1, 1, 0, 0, 0, 0, 0, 0], [10]), ([2, 1, 1, 0, 0, 0, 0, 0, 0], [20])])) =
      Block_iterator it \<and>
    Iter_Seek (InternalKeyComparator_Compare Slice_compare) [2, 1, 7, 0, 0, 0, 0, 0, 0] it = Some it' \<and>
    walk Iter_Next it' = Some (dropWhile (\<lambda>kv. InternalKeyComparator_Compare Slice_compare (fst kv) [2, 1, 7, 0, 0, 0, 0, 0, 0] < 0)
      [([1, 1, 1, 0, 0, 0, 0, 0, 0], [10]), ([2, 1, 1, 0, 0, 0, 0, 0, 0], [20])])"
proof (rule block_seek_correct)
  show "length (finished_block 1 [([1, 1, 1, 0, 0, 0, 0, 0, 0], [10]), ([2, 1, 1, 0, 0, 0, 0, 0, 0], [20])]) < 2 ^ 32" 
    by (simp add: finished_block_def BlockBuilder_Finish_def BlockBuilder_Add_def BlockBuilder_init_def PutFixed32_def PutVarint32_def
        EncodeVarint32_def Let_def)
  show "sorted_wrt (\<lambda>a b. InternalKeyComparator_Compare Slice_compare (fst a) (fst b) < 0)
    [([1, 1, 1, 0, 0, 0, 0, 0, 0], [10 :: byte]), ([2, 1, 1, 0, 0, 0, 0, 0, 0], [20])]" 
    by (simp add: InternalKeyComparator_Compare_def Slice_compare_def ExtractUserKey_def Let_def)
qed simp_all

text \<open>The metaindex block of a table is ordered by the bytewise comparator.\<close>

lemmas bytewise_seek = bytewise.Seek_block [simplified]

section \<open>Damaged blocks\<close>






end
