(* ===== verification/LDB_Table_Image.thy ===== *)
theory LDB_Table_Image
  imports LDB_Table LDB_Block_Spec
begin

text \<open>
  What a table file holds: \<open>table_image\<close> describes its bytes by the list of its data blocks. The builder writes such an
  image of the entries it was given, and the reader finds entries in it.
\<close>

section \<open>Images of tables\<close>

type_synonym kv = "byte list \<times> byte list"

definition blocks_image :: "int \<Rightarrow> kv list list \<Rightarrow> byte list" where
  "blocks_image interval bs = concat (map (\<lambda>b. stored_block (finished_block interval b)) bs)"

definition block_handle :: "int \<Rightarrow> kv list list \<Rightarrow> nat \<Rightarrow> BlockHandle" where
  "block_handle interval bs i =
     \<lparr>bh_offset = of_nat (length (blocks_image interval (take i bs))), bh_size = of_nat (length (finished_block interval (bs ! i)))\<rparr>"

text \<open>The keys of the index: a separator between each block and the next one.\<close>

definition separators :: "(byte list \<Rightarrow> byte list \<Rightarrow> byte list) \<Rightarrow> kv list list \<Rightarrow> byte list list" where
  "separators separator bs = map (\<lambda>i. separator (fst (last (bs ! i))) (fst (hd (bs ! Suc i)))) [0..<length bs - 1]"

definition index_keys :: "(byte list \<Rightarrow> byte list \<Rightarrow> byte list) \<Rightarrow> (byte list \<Rightarrow> byte list) \<Rightarrow> kv list list \<Rightarrow> byte list list" where
  "index_keys separator successor bs = (if bs = [] then [] else separators separator bs @ [successor (fst (last (last bs)))])"

definition handle_bytes :: "int \<Rightarrow> kv list list \<Rightarrow> byte list list" where
  "handle_bytes interval bs = map (\<lambda>i. BlockHandle_EncodeTo (block_handle interval bs i) []) [0..<length bs]"

text \<open>The blocks as the filter block sees them.\<close>

definition filter_groups :: "int \<Rightarrow> kv list list \<Rightarrow> (u64 \<times> byte list list) list" where
  "filter_groups interval bs = map (\<lambda>i. (of_nat (length (blocks_image interval (take i bs))), map fst (bs ! i))) [0..<length bs]"

text \<open>The parts of a table file after its data blocks. The filter block has one more group, which is empty.\<close>

definition filter_part :: "(byte list \<times> (byte list list \<Rightarrow> byte list \<Rightarrow> byte list)) option \<Rightarrow> int \<Rightarrow> kv list list \<Rightarrow> byte list" where
  "filter_part policy interval bs =
     (case policy of Some (_, create) \<Rightarrow> filter_block create (filter_groups interval (bs @ [[]])) | None \<Rightarrow> [])"

definition after_filter :: "(byte list \<times> (byte list list \<Rightarrow> byte list \<Rightarrow> byte list)) option \<Rightarrow> int \<Rightarrow> kv list list \<Rightarrow> byte list" where
  "after_filter policy interval bs =
     blocks_image interval bs @ (if policy = None then [] else stored_block (filter_part policy interval bs))"

definition meta_entries :: "(byte list \<times> (byte list list \<Rightarrow> byte list \<Rightarrow> byte list)) option \<Rightarrow> int \<Rightarrow> kv list list \<Rightarrow> kv list" where
  "meta_entries policy interval bs =
     (case policy of
        Some (name, _) \<Rightarrow> [(filter_key name, BlockHandle_EncodeTo
          \<lparr>bh_offset = of_nat (length (blocks_image interval bs)), bh_size = of_nat (length (filter_part policy interval bs))\<rparr> [])]
      | None \<Rightarrow> [])"

definition index_block :: "(byte list \<Rightarrow> byte list \<Rightarrow> byte list) \<Rightarrow> (byte list \<Rightarrow> byte list) \<Rightarrow> int \<Rightarrow> kv list list \<Rightarrow> byte list" where
  "index_block separator successor interval bs = finished_block 1 (zip (index_keys separator successor bs) (handle_bytes interval bs))"

definition table_footer :: "byte list \<Rightarrow> byte list \<Rightarrow> byte list \<Rightarrow> Footer" where
  "table_footer front meta index = \<lparr>ft_metaindex_handle = \<lparr>bh_offset = of_nat (length front), bh_size = of_nat (length meta)\<rparr>,
     ft_index_handle = \<lparr>bh_offset = of_nat (length (front @ stored_block meta)), bh_size = of_nat (length index)\<rparr>\<rparr>"

definition table_image :: "'f builder_env \<Rightarrow> int \<Rightarrow> kv list list \<Rightarrow> byte list" where
  "table_image env interval bs =
     (let front = after_filter (be_policy env) interval bs;
          meta = finished_block interval (meta_entries (be_policy env) interval bs);
          index = index_block (be_separator env) (be_successor env) interval bs in
      front @ stored_block meta @ stored_block index @ Footer_EncodeTo (table_footer front meta index) [])"

text \<open>Growth by one block.\<close>

lemma blocks_image_snoc: "blocks_image interval (bs @ [b]) = blocks_image interval bs @ stored_block (finished_block interval b)"
  by (simp add: blocks_image_def)

lemma block_handle_snoc: "i < length bs \<Longrightarrow> block_handle interval (bs @ [b]) i = block_handle interval bs i"
  by (simp add: block_handle_def nth_append)

lemma handle_bytes_snoc:
  "handle_bytes interval (bs @ [b]) = handle_bytes interval bs @ [BlockHandle_EncodeTo (block_handle interval (bs @ [b]) (length bs)) []]"
  by (simp add: handle_bytes_def block_handle_snoc)

lemma filter_groups_snoc:
  "filter_groups interval (bs @ [b]) = filter_groups interval bs @ [(of_nat (length (blocks_image interval bs)), map fst b)]"
  by (simp add: filter_groups_def nth_append)

lemma separators_snoc:
  assumes "bs \<noteq> []"
  shows "separators separator (bs @ [b]) = separators separator bs @ [separator (fst (last (last bs))) (fst (hd b))]"
proof -
  obtain n where n: "length bs = Suc n" using assms by (cases bs) auto
  have "last bs = bs ! n" using assms n by (simp add: last_conv_nth)
  then show ?thesis by (auto simp: separators_def n nth_append)
qed

lemma separators_single [simp]: "separators separator [b] = []" "separators separator [] = []"
  by (simp_all add: separators_def)

lemma separators_hd: "hd b = hd b' \<Longrightarrow> separators separator (bs @ [b]) = separators separator (bs @ [b'])"
  by (cases "bs = []") (simp_all add: separators_snoc)

lemma length_separators [simp]: "length (separators separator bs) = length bs - 1"
  by (simp add: separators_def)

lemma length_handle_bytes [simp]: "length (handle_bytes interval bs) = length bs"
  by (simp add: handle_bytes_def)

section \<open>Runs of the block builder\<close>

definition added :: "int \<Rightarrow> kv list \<Rightarrow> BlockBuilder" where
  "added interval kvs = fold (\<lambda>(k, v). BlockBuilder_Add k v) kvs (BlockBuilder_init interval)"

lemma added_Nil: "added interval [] = BlockBuilder_init interval"
  by (simp add: added_def)

lemma added_snoc: "added interval (kvs @ [(k, v)]) = BlockBuilder_Add k v (added interval kvs)"
  by (simp add: added_def)

lemma finished_added: "fst (BlockBuilder_Finish (added interval kvs)) = finished_block interval kvs"
  by (simp add: finished_block_def added_def)

lemma interval_Add [simp]: "bb_interval (BlockBuilder_Add k v b) = bb_interval b"
  by (simp add: BlockBuilder_Add_def Let_def split: prod.splits)

lemma interval_added [simp]: "bb_interval (added interval kvs) = interval"
  by (induction kvs rule: rev_induct) (auto simp: added_snoc added_Nil BlockBuilder_init_def)

lemma Reset_added: "BlockBuilder_Reset (snd (BlockBuilder_Finish (added interval kvs))) = added interval []"
  by (simp add: Reset_init added_Nil BlockBuilder_Finish_def Let_def)

lemma PutVarint32_nonempty: "PutVarint32 s v \<noteq> []"
  using length_EncodeVarint32 [of v] by (auto simp: PutVarint32_def)

lemma empty_added: "BlockBuilder_empty (added interval kvs) \<longleftrightarrow> kvs = []"
proof (cases kvs rule: rev_cases)
  case Nil
  then show ?thesis by (simp add: added_Nil BlockBuilder_empty_def BlockBuilder_init_def)
next
  case (snoc ys kv)
  obtain k v where "kv = (k, v)" by (cases kv) auto
  with snoc show ?thesis
    by (simp add: added_snoc BlockBuilder_empty_def BlockBuilder_Add_def Let_def PutVarint32_nonempty split: prod.splits)
qed

section \<open>Seeking in blocks\<close>

text \<open>The first entry that is not before a key.\<close>

definition first_from :: "(byte list \<Rightarrow> byte list \<Rightarrow> int) \<Rightarrow> byte list \<Rightarrow> kv list \<Rightarrow> kv option" where
  "first_from compare k kvs = (case dropWhile (\<lambda>kv. compare (fst kv) k < 0) kvs of [] \<Rightarrow> None | kv # _ \<Rightarrow> Some kv)"

text \<open>What an iterator over a block that has been moved to an entry shows.\<close>

definition BI_shows :: "kv option \<Rightarrow> block_iterator \<Rightarrow> bool" where
  "BI_shows e bi \<longleftrightarrow> BI_status bi = OK \<and>
     (case e of None \<Rightarrow> \<not> BI_Valid bi | Some (k, v) \<Rightarrow> BI_Valid bi \<and> BI_key bi = Some k \<and> BI_value bi = Some v)"

context comparator
begin

lemma BI_Seek_block:
  assumes "1 \<le> interval" and "length (finished_block interval kvs) < 2 ^ 32" and "ok target" and "\<forall>kv \<in> set kvs. ok (fst kv)"
    and "sorted_wrt (\<lambda>a b. compare (fst a) (fst b) < 0) kvs"
  shows "\<exists>bi. BI_Seek compare target (Block_NewIterator (Block_init (finished_block interval kvs))) = Some bi \<and>
    BI_shows (first_from compare target kvs) bi"
proof -
  obtain es rs where img: "block_image es rs (finished_block interval kvs)" and kvs: "map snd es = kvs"
    using finished_block_image [OF assms(1,2)] by blast
  obtain it where it: "Block_NewIterator (Block_init (finished_block interval kvs)) = Block_iterator it"
    "iter_on es rs (finished_block interval kvs) it" "it_status it = OK" using NewIterator_image [OF img] by blast
  have "sorted_wrt (\<lambda>a b. compare (en_key a) (en_key b) < 0) es" "\<forall>e \<in> set es. ok (en_key e)"
    using assms(4,5) unfolding kvs [symmetric] by (simp_all add: sorted_wrt_map)
  then obtain it' where it': "Iter_Seek compare target it = Some it'"
    "pos es rs (finished_block interval kvs) (seek_pos target es) it'" using Seek_image [OF img it(2,3) assms(3)] by blast
  have dw: "dropWhile (\<lambda>kv. compare (fst kv) target < 0) kvs = map snd (drop (seek_pos target es) es)"
    unfolding kvs [symmetric] seek_pos_def dropWhile_eq_drop [symmetric] dropWhile_map comp_def ..
  have "BI_shows (first_from compare target kvs) (Block_iterator it')"
  proof (cases "seek_pos target es < length es")
    case True
    let ?e = "es ! seek_pos target es"
    have "drop (seek_pos target es) es = ?e # drop (Suc (seek_pos target es)) es" by (rule Cons_nth_drop_Suc [OF True, symmetric])
    then have "first_from compare target kvs = Some (en_key ?e, en_val ?e)" by (simp add: first_from_def dw)
    then show ?thesis using pos_observe [OF img it'(2)] True it'(2) by (simp add: BI_shows_def pos_def split_def)
  next
    case False
    then have "first_from compare target kvs = None" by (simp add: first_from_def dw)
    then show ?thesis using pos_observe(1) [OF img it'(2)] False it'(2) by (simp add: BI_shows_def pos_def)
  qed
  then show ?thesis using it(1) it'(1) by simp
qed

end

section \<open>The contract of tables\<close>

text \<open>
  The operations a table depends on: the comparator, the filter policy and the file it is read from. Keys that are the
  \<open>same\<close>, such as the internal keys of one user key, match the same filters, and a separator of two blocks sends a lookup to the
  block after it when that block starts with a key that is the same.
\<close>

locale table_format = comparator ok compare separator successor + filter_policy valid create may_match +
    random_access_file contents usable read_at in_scratch
  for ok compare separator successor and valid :: "'p \<Rightarrow> bool" and create may_match and contents :: "'r \<Rightarrow> byte list" and usable read_at in_scratch +
  fixes same :: "byte list \<Rightarrow> byte list \<Rightarrow> bool"
  assumes same_separated: "ok a \<Longrightarrow> ok b \<Longrightarrow> ok k \<Longrightarrow> compare a b < 0 \<Longrightarrow> compare a k < 0 \<Longrightarrow> compare k (separator a b) \<le> 0 \<Longrightarrow> \<not> same k b"
    and same_match: "same k key \<Longrightarrow> may_match p k = may_match p key"

lemma first_from_simps [simp]:
  "first_from compare k [] = None"
  "first_from compare k (kv # kvs) = (if compare (fst kv) k < 0 then first_from compare k kvs else Some kv)"
  by (simp_all add: first_from_def)

lemma first_from_append: "\<forall>kv \<in> set xs. compare (fst kv) k < 0 \<Longrightarrow> first_from compare k (xs @ ys) = first_from compare k ys"
  by (induction xs) simp_all

lemma first_from_Some_append: "first_from compare k xs = Some kv \<Longrightarrow> first_from compare k (xs @ ys) = Some kv"
  by (induction xs) (simp_all split: if_splits)

lemma first_from_None: "first_from compare k kvs = None \<longleftrightarrow> (\<forall>kv \<in> set kvs. compare (fst kv) k < 0)"
  by (induction kvs) simp_all

lemma first_from_nth:
  assumes "first_from compare k kvs = Some kv"
  shows "\<exists>i < length kvs. kv = kvs ! i \<and> (\<forall>j < i. compare (fst (kvs ! j)) k < 0) \<and> \<not> compare (fst kv) k < 0"
proof -
  define i where "i = length (takeWhile (\<lambda>kv. compare (fst kv) k < 0) kvs)"
  have dw: "dropWhile (\<lambda>kv. compare (fst kv) k < 0) kvs = drop i kvs" by (simp add: dropWhile_eq_drop i_def)
  with assms have i: "i < length kvs" by (cases "i < length kvs") (simp_all add: first_from_def)
  with assms dw have kv: "kv = kvs ! i" by (simp add: first_from_def Cons_nth_drop_Suc [symmetric])
  have "\<not> compare (fst (kvs ! i)) k < 0" using nth_length_takeWhile [of "\<lambda>kv. compare (fst kv) k < 0" kvs] i by (simp add: i_def)
  moreover have "compare (fst (kvs ! j)) k < 0" if "j < i" for j
    using that nth_mem [of j "takeWhile (\<lambda>kv. compare (fst kv) k < 0) kvs"] takeWhile_nth [of j "\<lambda>kv. compare (fst kv) k < 0" kvs]
    by (metis i_def set_takeWhileD)
  ultimately show ?thesis using i kv by blast
qed

lemma split_blocks: "i < length bs \<Longrightarrow> concat bs = concat (take i bs) @ bs ! i @ concat (drop (Suc i) bs)"
  by (metis concat.simps(2) concat_append id_take_nth_drop)

lemma index_keys_nth:
  assumes "i < length bs"
  shows "index_keys separator successor bs ! i =
    (if Suc i < length bs then separator (fst (last (bs ! i))) (fst (hd (bs ! Suc i))) else successor (fst (last (bs ! i))))"
proof -
  have "bs \<noteq> []" using assms by auto
  moreover have "\<not> Suc i < length bs \<Longrightarrow> length bs - 1 = i" using assms by simp
  ultimately show ?thesis using assms by (auto simp: index_keys_def nth_append separators_def last_conv_nth)
qed

lemma length_index_keys [simp]: "length (index_keys separator successor bs) = length bs"
  by (cases bs) (simp_all add: index_keys_def)

context comparator
begin

definition sorted_blocks :: "kv list list \<Rightarrow> bool" where
  "sorted_blocks bs \<longleftrightarrow> [] \<notin> set bs \<and> (\<forall>kv \<in> set (concat bs). ok (fst kv)) \<and> sorted_wrt (\<lambda>a b. compare (fst a) (fst b) < 0) (concat bs)"

lemma sorted_block:
  assumes "sorted_blocks bs" "i < length bs"
  shows "bs ! i \<noteq> []" "\<forall>kv \<in> set (bs ! i). ok (fst kv)" "sorted_wrt (\<lambda>a b. compare (fst a) (fst b) < 0) (bs ! i)"
    "\<forall>j < i. \<forall>a \<in> set (bs ! j). \<forall>b \<in> set (bs ! i). compare (fst a) (fst b) < 0"
proof -
  have "[] \<notin> set bs" using assms(1) by (simp add: sorted_blocks_def)
  then show "bs ! i \<noteq> []" using nth_mem [OF assms(2)] by metis
  show "\<forall>kv \<in> set (bs ! i). ok (fst kv)" using assms nth_mem [OF assms(2)] by (auto simp: sorted_blocks_def)
  have s: "sorted_wrt (\<lambda>a b. compare (fst a) (fst b) < 0) (concat (take i bs) @ bs ! i @ concat (drop (Suc i) bs))"
    using assms(1) unfolding sorted_blocks_def split_blocks [OF assms(2)] by blast
  then show "sorted_wrt (\<lambda>a b. compare (fst a) (fst b) < 0) (bs ! i)" by (simp add: sorted_wrt_append)
  have *: "compare (fst a) (fst b) < 0" if "a \<in> set (concat (take i bs))" "b \<in> set (bs ! i)" for a b
    using s that unfolding sorted_wrt_append set_append by blast
  have "a \<in> set (concat (take i bs))" if "j < i" "a \<in> set (bs ! j)" for j a
  proof -
    have "bs ! j \<in> set (take i bs)" unfolding in_set_conv_nth using that(1) assms(2) by (intro exI [of _ j]) simp
    then show ?thesis using that(2) by auto
  qed
  with * show "\<forall>j < i. \<forall>a \<in> set (bs ! j). \<forall>b \<in> set (bs ! i). compare (fst a) (fst b) < 0" by blast
qed

lemma sorted_last_le:
  assumes "sorted_wrt (\<lambda>a b. compare (fst a) (fst b) < 0) xs" "\<forall>kv \<in> set xs. ok (fst kv)" "a \<in> set xs"
  shows "compare (fst a) (fst (last xs)) \<le> 0" "compare (fst (hd xs)) (fst a) \<le> 0"
proof -
  obtain ys y where ys: "xs = ys @ [y]" using assms(3) by (cases xs rule: rev_cases) auto
  show "compare (fst a) (fst (last xs)) \<le> 0"
    using assms compare_refl [of "fst y"] by (auto simp: ys sorted_wrt_append intro: less_imp_le)
  obtain z zs where zs: "xs = z # zs" using assms(3) by (cases xs) auto
  show "compare (fst (hd xs)) (fst a) \<le> 0"
    using assms compare_refl [of "fst z"] by (auto simp: zs intro: less_imp_le)
qed

lemma index_key:
  assumes "sorted_blocks bs" "i < length bs"
  shows "ok (index_keys separator successor bs ! i)"
    "a \<in> set (bs ! i) \<Longrightarrow> compare (fst a) (index_keys separator successor bs ! i) \<le> 0"
    "j < length bs \<Longrightarrow> i < j \<Longrightarrow> b \<in> set (bs ! j) \<Longrightarrow> compare (index_keys separator successor bs ! i) (fst b) < 0"
proof -
  note B = sorted_block [OF assms]
  let ?l = "fst (last (bs ! i))" and ?k = "index_keys separator successor bs ! i"
  have l: "ok ?l" "last (bs ! i) \<in> set (bs ! i)" using B(1,2) by simp_all
  have nxt: "ok (fst (hd (bs ! Suc i))) \<and> compare ?l (fst (hd (bs ! Suc i))) < 0 \<and> hd (bs ! Suc i) \<in> set (bs ! Suc i)" if "Suc i < length bs"
    using sorted_block [OF assms(1) that] l(2) lessI [of i] by (metis hd_in_set)
  have k: "ok ?k" "compare ?l ?k \<le> 0" using nxt l separator successor by (auto simp: index_keys_nth [OF assms(2)])
  then show "ok ?k" by simp
  show "compare (fst a) ?k \<le> 0" if "a \<in> set (bs ! i)"
    using trans [OF _ l(1) k(1) _ k(2), of "fst a"] sorted_last_le(1) [OF B(3,2) that] B(2) that by simp
  show "compare ?k (fst b) < 0" if "j < length bs" "i < j" "b \<in> set (bs ! j)"
  proof -
    have si: "Suc i < length bs" using that by simp
    have kn: "compare ?k (fst (hd (bs ! Suc i))) < 0" using separator [OF l(1)] nxt [OF si] si by (simp add: index_keys_nth [OF assms(2)])
    note J = sorted_block [OF assms(1) that(1)]
    have "compare (fst (hd (bs ! Suc i))) (fst b) \<le> 0"
    proof (cases "j = Suc i")
      case True
      then show ?thesis using sorted_last_le(2) [OF J(3,2) that(3)] by simp
    next
      case False
      then have "Suc i < j" using that(2) by simp
      then show ?thesis using J(4) nxt [OF si] that(3) by (auto intro: less_imp_le)
    qed
    then show ?thesis using less_le_trans [OF k(1) _ _ kn] nxt [OF si] J(2) that(3) by simp
  qed
qed

lemma index_sorted:
  assumes "sorted_blocks bs"
  shows "sorted_wrt (\<lambda>a b. compare (fst a) (fst b) < 0) (zip (index_keys separator successor bs) (handle_bytes interval bs))"
    "\<forall>kv \<in> set (zip (index_keys separator successor bs) (handle_bytes interval bs)). ok (fst kv)"
proof -
  have "compare (index_keys separator successor bs ! i) (index_keys separator successor bs ! j) < 0" if "i < j" "j < length bs" for i j
  proof -
    have i: "i < length bs" using that by simp
    note J = sorted_block [OF assms that(2)]
    have l: "last (bs ! j) \<in> set (bs ! j)" using J(1) by simp
    show ?thesis
      using less_le_trans [OF index_key(1) [OF assms i] _ index_key(1) [OF assms that(2)] index_key(3) [OF assms i that(2,1) l]
          index_key(2) [OF assms that(2) l]] J(2) l by simp
  qed
  then show "sorted_wrt (\<lambda>a b. compare (fst a) (fst b) < 0) (zip (index_keys separator successor bs) (handle_bytes interval bs))"
    by (simp add: sorted_wrt_iff_nth_less)
  show "\<forall>kv \<in> set (zip (index_keys separator successor bs) (handle_bytes interval bs)). ok (fst kv)"
    using index_key(1) [OF assms] by (auto simp: in_set_conv_nth)
qed

end

end
