(* ===== verification/LDB_Table_Get.thy ===== *)
theory LDB_Table_Get
  imports LDB_Table_Image
begin

text \<open>
  The reader of tables on the image of a table: opening gives a table with the index block and the filter of the image, and a
  lookup finds the entries. The lemmas are proved for every comparator, filter policy and file that satisfy their contracts.
\<close>

section \<open>Opening\<close>

lemma entries_fit:
  assumes "1 \<le> interval" "length (finished_block interval b) < 2 ^ 32"
  shows "3 * length b \<le> length (finished_block interval b)"
proof -
  obtain es rs where img: "block_image es rs (finished_block interval b)" "map snd es = b" using finished_block_image [OF assms] by blast
  have "3 * length es \<le> length (concat (map entry_bytes es))"
  proof (induction es)
    case (Cons e es)
    then show ?case using length_entry_header [of e] by (simp add: entry_bytes_def)
  qed simp
  then show ?thesis using img unfolding block_image_def by (metis length_append length_map trans_le_add1)
qed

lemma blocks_image_fit:
  assumes "1 \<le> interval" "length (blocks_image interval bs) < 2 ^ 32"
  shows "3 * length (concat bs) \<le> length (blocks_image interval bs)"
  using assms(2)
proof (induction bs)
  case (Cons b bs)
  then show ?case using entries_fit [OF assms(1), of b] by (simp add: blocks_image_def length_stored_block)
qed simp

lemma blocks_image_split:
  "i < length bs \<Longrightarrow> blocks_image interval bs = blocks_image interval (take i bs) @ stored_block (finished_block interval (bs ! i)) @
     blocks_image interval (drop (Suc i) bs)"
  unfolding blocks_image_def by (metis (no_types, lifting) concat.simps(2) concat_append id_take_nth_drop list.simps(9) map_append)

lemma blocks_image_take: "i \<le> j \<Longrightarrow> length (blocks_image interval (take i bs)) \<le> length (blocks_image interval (take j bs))"
  by (auto simp: le_iff_add take_add blocks_image_def)

lemma filter_groups_keys: "map snd (filter_groups interval bs) = map (map fst) bs"
  by (rule nth_equalityI) (simp_all add: filter_groups_def)

lemma length_empty_block: "length (finished_block interval []) = 8"
  by (simp add: finished_block_def Finish_size CurrentSizeEstimate_def BlockBuilder_init_def)

lemma filter_groups_sorted:
  assumes "length (blocks_image interval bs) < 2 ^ 64"
  shows "sorted (map block_index (filter_groups interval bs))"
proof -
  have "unat (of_nat (length (blocks_image interval (take i bs))) :: u64) = length (blocks_image interval (take i bs))" for i
    using blocks_image_take [of i "max i (length bs)" interval bs] assms by (simp add: unat_of_nat)
  then show ?thesis
    unfolding filter_groups_def block_index_def
    by (simp add: sorted_map sorted_wrt_iff_nth_less blocks_image_take div_le_mono)
qed

lemma table_image_index:
  "\<exists>middle rest. table_image env interval bs =
     blocks_image interval bs @ middle @ stored_block (index_block (be_separator env) (be_successor env) interval bs) @ rest"
  unfolding table_image_def Let_def after_filter_def by (metis append_assoc)

context table_format
begin

text \<open>A table written with one filter policy or none, and read with the same.\<close>

definition table_at :: "'f builder_env \<Rightarrow> reader_env \<Rightarrow> 'p option \<Rightarrow> int \<Rightarrow> kv list list \<Rightarrow> 'r \<Rightarrow> bool" where
  "table_at env renv po interval bs f \<longleftrightarrow> 1 \<le> interval \<and> sorted_blocks bs \<and>
     be_separator env = separator \<and> be_successor env = successor \<and> re_compare renv = compare \<and>
     (\<exists>name. be_policy env = map_option (\<lambda>p. (name, create p)) po \<and> re_policy renv = map_option (\<lambda>p. (name, may_match p)) po) \<and>
     (\<forall>p. po = Some p \<longrightarrow> valid p) \<and> usable f \<and> re_read renv = read_at f \<and>
     contents f = table_image env interval bs \<and> length (contents f) < 2 ^ 32"

definition opened_table :: "'f builder_env \<Rightarrow> u64 \<Rightarrow> int \<Rightarrow> kv list list \<Rightarrow> Table" where
  "opened_table env cache_id interval bs =
     (let front = after_filter (be_policy env) interval bs in
      \<lparr>ta_cache_id = cache_id,
       ta_filter = map_option (\<lambda>_. FilterBlockReader (filter_part (be_policy env) interval bs)) (be_policy env),
       ta_metaindex_handle = \<lparr>bh_offset = of_nat (length front),
         bh_size = of_nat (length (finished_block interval (meta_entries (be_policy env) interval bs)))\<rparr>,
       ta_index_block = Block_init (index_block (be_separator env) (be_successor env) interval bs)\<rparr>)"

lemma ReadMeta_table:
  assumes "table_at env renv po interval bs f" and "ft_metaindex_handle footer = \<lparr>bh_offset = of_nat (length (after_filter (be_policy env) interval bs)),
      bh_size = of_nat (length (finished_block interval (meta_entries (be_policy env) interval bs)))\<rparr>"
  shows "ReadMeta renv footer table =
    Some (if be_policy env = None then table else table\<lparr>ta_filter := Some (FilterBlockReader (filter_part (be_policy env) interval bs))\<rparr>)"
proof (cases po)
  case None
  then show ?thesis using assms(1) by (auto simp: table_at_def ReadMeta_def)
next
  case (Some p)
  note T = assms(1) [unfolded table_at_def]
  obtain name where pol: "be_policy env = Some (name, create p)" "re_policy renv = Some (name, may_match p)" using T Some by auto
  have np: "be_policy env \<noteq> None" using pol by simp
  define fp where "fp = filter_part (be_policy env) interval bs"
  define fh where "fh = \<lparr>bh_offset = of_nat (length (blocks_image interval bs)), bh_size = of_nat (length fp)\<rparr>"
  define meta where "meta = finished_block interval (meta_entries (be_policy env) interval bs)"
  obtain rest where c: "contents f = blocks_image interval bs @ stored_block fp @ stored_block meta @ rest"
    using T by (auto simp: table_image_def Let_def after_filter_def pol fp_def meta_def)
  have entries: "meta_entries (be_policy env) interval bs = [(filter_key name, BlockHandle_EncodeTo fh [])]"
    by (simp add: meta_entries_def pol(1) fh_def fp_def)
  have u: "usable f" "re_read renv = read_at f" "1 \<le> interval" using T by simp_all
  have small: "length meta < 2 ^ 32" using T c by (simp add: length_stored_block)
  obtain sm where rm: "\<And>v. ReadBlock (re_read renv) v (ft_metaindex_handle footer) =
      Some (OK, \<lparr>bc_data = sm, bc_cachable = in_scratch, bc_heap_allocated = in_scratch\<rparr>)" and sm: "slice_bytes sm = Some meta"
    using ReadBlock_stored [OF u(1), of "blocks_image interval bs @ stored_block fp" meta rest] c u(2)
    by (auto simp: assms(2) after_filter_def pol meta_def fp_def)
  obtain sf where rf: "\<And>v. ReadBlock (re_read renv) v fh =
      Some (OK, \<lparr>bc_data = sf, bc_cachable = in_scratch, bc_heap_allocated = in_scratch\<rparr>)" and sf: "slice_bytes sf = Some fp"
    using ReadBlock_stored [OF u(1), of "blocks_image interval bs" fp "stored_block meta @ rest"] c u(2) by (auto simp: fh_def)
  obtain bi where bi: "BI_Seek Slice_compare (filter_key name) (Block_NewIterator (Block_init meta)) = Some bi"
      "BI_shows (Some (filter_key name, BlockHandle_EncodeTo fh [])) bi"
    using bytewise.BI_Seek_block [OF u(3), of "[(filter_key name, BlockHandle_EncodeTo fh [])]" "filter_key name"] small
    unfolding meta_def entries by auto
  have dec: "BlockHandle_DecodeFrom BlockHandle_init (BlockHandle_EncodeTo fh []) = (OK, fh, [])"
    using handle_roundtrip [of BlockHandle_init fh "[]"] by simp
  have b: "BI_Valid bi" "BI_key bi = Some (filter_key name)" "BI_value bi = Some (BlockHandle_EncodeTo fh [])"
    using bi(2) by (simp_all add: BI_shows_def)
  have "ReadFilter renv (BlockHandle_EncodeTo fh []) table = Some (table\<lparr>ta_filter := Some (FilterBlockReader fp)\<rparr>)"
    unfolding ReadFilter_def dec by (simp add: Status_ok_def rf sf)
  then show ?thesis
    unfolding ReadMeta_def pol(2) option.case prod.case rm
    by (simp add: Status_ok_def Block_of_def sm bi(1) b fp_def [symmetric] np)
qed

lemma Open_table:
  assumes "table_at env renv po interval bs f"
  shows "Table_Open renv cache_id (of_nat (length (contents f))) = Some (OK, Some (opened_table env cache_id interval bs))"
proof -
  note T = assms [unfolded table_at_def]
  define front where "front = after_filter (be_policy env) interval bs"
  define meta where "meta = finished_block interval (meta_entries (be_policy env) interval bs)"
  define index where "index = index_block (be_separator env) (be_successor env) interval bs"
  define footer where "footer = Footer_EncodeTo (table_footer front meta index) []"
  have c: "contents f = front @ stored_block meta @ stored_block index @ footer"
    using T by (simp add: table_image_def Let_def front_def meta_def index_def footer_def)
  have u: "usable f" "re_read renv = read_at f" "length (contents f) < 2 ^ 32" using T by auto
  have len: "length footer = 48" by (simp add: footer_def length_footer kEncodedLength_def kMaxEncodedLength_def)
  define n where "n = length (contents f)"
  have n: "48 \<le> n" "n < 2 ^ 32" using u(3) by (simp_all add: n_def c len)
  have off: "of_nat n - of_nat kEncodedLength = (of_nat (n - 48) :: u64)" using n(1) by (simp add: kEncodedLength_def kMaxEncodedLength_def)
  have long: "\<not> (of_nat n :: u64) < of_nat kEncodedLength"
    using n by (simp add: word_less_nat_alt unat_of_nat kEncodedLength_def kMaxEncodedLength_def)
  have un: "unat (of_nat (n - 48) :: u64) = n - 48" "unat (of_nat kEncodedLength :: u64) = 48"
    unfolding unat_of_nat using n(2) by (simp_all add: kEncodedLength_def kMaxEncodedLength_def)
  have "drop (n - 48) (contents f) = footer" by (simp add: n_def c len)
  then obtain st where rd: "re_read renv (of_nat n - of_nat kEncodedLength) (of_nat kEncodedLength) = (OK, st, in_scratch)"
      and st: "slice_bytes st = Some footer"
    using read_inside [OF u(1), of "of_nat (n - 48)" "of_nat kEncodedLength"] n(1) len unfolding off un u(2)
    by (auto simp: n_def slice_shows_def)
  obtain si where ri: "\<And>v. ReadBlock (re_read renv) v (ft_index_handle (table_footer front meta index)) =
      Some (OK, \<lparr>bc_data = si, bc_cachable = in_scratch, bc_heap_allocated = in_scratch\<rparr>)" and si: "slice_bytes si = Some index"
    using ReadBlock_stored [OF u(1), of "front @ stored_block meta" index footer] c u(2) by (auto simp: table_footer_def)
  have mh: "ft_metaindex_handle (table_footer front meta index) = \<lparr>bh_offset = of_nat (length front), bh_size = of_nat (length meta)\<rparr>"
    by (simp add: table_footer_def)
  note rm = ReadMeta_table [OF assms, of "table_footer front meta index", folded front_def meta_def, OF mh]
  show ?thesis
    unfolding n_def [symmetric] Table_Open_def
    by (simp add: long rd st Status_ok_def footer_def footer_roundtrip ri Block_of_def si rm mh opened_table_def Let_def)
       (cases "be_policy env"; simp add: front_def meta_def index_def)
qed

section \<open>Lookups\<close>

text \<open>The blocks before the one that the index gives hold only smaller keys, and the first block after it starts with a different one.\<close>

lemma index_lookup:
  assumes "sorted_blocks bs" "ok k" "i < length bs"
    and before: "\<forall>j < i. compare (index_keys separator successor bs ! j) k < 0"
    and at: "\<not> compare (index_keys separator successor bs ! i) k < 0"
  shows "first_from compare k (concat bs) = first_from compare k (bs ! i @ concat (drop (Suc i) bs))"
    and "first_from compare k (bs ! i) = None \<Longrightarrow> first_from compare k (concat bs) = Some kv \<Longrightarrow> \<not> same k (fst kv)"
proof -
  have "compare (fst a) k < 0" if a: "a \<in> set (concat (take i bs))" for a
  proof -
    from a obtain b where b: "b \<in> set (take i bs)" "a \<in> set b" by auto
    then obtain j where "j < length (take i bs)" "take i bs ! j = b" unfolding in_set_conv_nth by blast
    with b(2) have j: "j < i" "a \<in> set (bs ! j)" by auto
    then have jl: "j < length bs" using assms(3) by simp
    show ?thesis
      using le_less_trans [OF _ index_key(1) [OF assms(1) jl] assms(2) index_key(2) [OF assms(1) jl j(2)]] before j
        sorted_block(2) [OF assms(1) jl] by simp
  qed
  then show eq: "first_from compare k (concat bs) = first_from compare k (bs ! i @ concat (drop (Suc i) bs))"
    unfolding split_blocks [OF assms(3)] by (intro first_from_append) blast
  assume none: "first_from compare k (bs ! i) = None" and some: "first_from compare k (concat bs) = Some kv"
  note B = sorted_block [OF assms(1,3)]
  have lt: "\<forall>a \<in> set (bs ! i). compare (fst a) k < 0" using none by (simp add: first_from_None)
  have rest: "first_from compare k (concat (drop (Suc i) bs)) = Some kv" using some eq first_from_append [of "bs ! i" compare k] lt by simp
  show "\<not> same k (fst kv)"
  proof (cases "Suc i < length bs")
    case False
    then show ?thesis using rest by simp
  next
    case True
    note C = sorted_block [OF assms(1) True]
    let ?l = "fst (last (bs ! i))" and ?h = "fst (hd (bs ! Suc i))" and ?s = "index_keys separator successor bs ! i"
    have h: "ok ?h" "hd (bs ! Suc i) \<in> set (bs ! Suc i)" using C(1,2) by simp_all
    have l: "ok ?l" "last (bs ! i) \<in> set (bs ! i)" "compare ?l k < 0" using B(1,2) lt by simp_all
    have s: "?s = separator ?l ?h" "ok ?s" using index_keys_nth [OF assms(3)] True index_key(1) [OF assms(1,3)] by simp_all
    have ks: "compare k ?s \<le> 0" using at compare_le_iff [OF assms(2) s(2)] by simp
    have lh: "compare ?l ?h < 0" using C(4) l(2) h(2) by (metis lessI)
    have kh: "compare k ?h < 0" using le_less_trans [OF assms(2) s(2) h(1) ks] separator [OF l(1) h(1) lh] s(1) by simp
    obtain c cs where c: "bs ! Suc i = c # cs" using C(1) by (cases "bs ! Suc i") auto
    have "drop (Suc i) bs = (c # cs) # drop (Suc (Suc i)) bs" using Cons_nth_drop_Suc [OF True] c by simp
    then have "kv = c" using rest kh flip [OF assms(2) h(1)] c by (simp split: if_splits)
    then show ?thesis using same_separated [OF l(1) h(1) assms(2) lh l(3)] ks s(1) c by simp
  qed
qed

lemma filter_lookup:
  assumes T: "table_at env renv po interval bs f" and i: "i < length bs"
  shows "\<exists>excluded. filter_excludes renv (opened_table env cache_id interval bs) (handle_bytes interval bs ! i) k = Some excluded \<and>
    (excluded \<longrightarrow> (\<forall>kv \<in> set (bs ! i). \<not> same k (fst kv)))"
proof (cases po)
  case None
  then show ?thesis using T by (auto simp: filter_excludes_def opened_table_def Let_def table_at_def)
next
  case (Some p)
  note T' = T [unfolded table_at_def]
  obtain name where pol: "be_policy env = Some (name, create p)" "re_policy renv = Some (name, may_match p)" using T' Some by auto
  have valid: "valid p" using T' Some by simp
  define groups where "groups = filter_groups interval (bs @ [[]])"
  have fp: "filter_part (be_policy env) interval bs = filter_block (create p) groups" by (simp add: filter_part_def pol groups_def)
  obtain rest where c: "contents f = blocks_image interval bs @ stored_block (filter_block (create p) groups) @ rest"
    using T' by (auto simp: table_image_def Let_def after_filter_def pol fp [unfolded pol])
  have small: "length (contents f) < 2 ^ 32" using T' by auto
  have keys: "length (concat (map snd groups)) = length (concat bs)"
  proof -
    have "map snd groups = map (map fst) (bs @ [[]])" unfolding groups_def by (rule filter_groups_keys)
    then show ?thesis by (simp add: length_concat comp_def)
  qed
  have few: "length (concat (map snd groups)) < 2 ^ 31"
    using blocks_image_fit [of interval bs] T' c small unfolding keys by (simp add: length_stored_block)
  have filter_small: "length (filter_block (create p) groups) < 2 ^ 32" using c small by (simp add: length_stored_block)
  have sorted: "sorted (map block_index groups)"
  proof -
    have "length (blocks_image interval (bs @ [[]])) < 2 ^ 64"
      using c small by (simp add: blocks_image_snoc length_stored_block kBlockTrailerSize_def length_empty_block)
    then show ?thesis unfolding groups_def by (rule filter_groups_sorted)
  qed
  have dec: "BlockHandle_DecodeFrom BlockHandle_init (handle_bytes interval bs ! i) = (OK, block_handle interval bs i, [])"
    using handle_roundtrip [of BlockHandle_init "block_handle interval bs i" "[]"] i by (simp add: handle_bytes_def)
  define off where "off = bh_offset (block_handle interval bs i)"
  have group: "(off, map fst (bs ! i)) \<in> set groups"
    using i by (auto simp: groups_def filter_groups_def off_def block_handle_def nth_append intro!: image_eqI [of _ _ i])
  define fs where "fs = map (group_filter (create p)) (closed_groups (fold add_group groups ([], [])))"
  have contents: "filter_block (create p) groups = filter_contents fs"
    unfolding fs_def by (rule filter_block_abs) (rule create_appends)
  have "length (concat fs) < 2 ^ 32" using filter_small by (simp add: contents length_filter_contents)
  then obtain m where m: "FilterBlock_KeyMayMatch (may_match p) (FilterBlockReader (filter_block (create p) groups)) off k = Some m"
    using KeyMayMatch_contents [of fs _ off "may_match p" k] by (simp add: contents)
  have "\<not> same k (fst kv)" if "\<not> m" "kv \<in> set (bs ! i)" for kv
  proof
    assume same: "same k (fst kv)"
    have "FilterBlock_KeyMayMatch (may_match p) (FilterBlockReader (filter_block (create p) groups)) off (fst kv) = Some True"
      by (rule filter_block_matches [OF valid sorted few filter_small group]) (use that in auto)
    moreover have "FilterBlock_KeyMayMatch (may_match p) r off k = FilterBlock_KeyMayMatch (may_match p) r off (fst kv)" for r
      unfolding FilterBlock_KeyMayMatch_def same_match [OF same] ..
    ultimately show False using m that(1) by simp
  qed
  moreover have "filter_excludes renv (opened_table env cache_id interval bs) (handle_bytes interval bs ! i) k = Some (\<not> m)"
    by (simp add: filter_excludes_def opened_table_def Let_def pol dec Status_ok_def fp [unfolded pol] m off_def [symmetric])
  ultimately show ?thesis by auto
qed

lemma InternalGet_table:
  assumes T: "table_at env renv po interval bs f" and k: "ok k"
  shows "\<exists>result. InternalGet renv (None :: ('c, 'h) BlockCache option) options (opened_table env cache_id interval bs) k c = Some (OK, result, c) \<and>
    (result = first_from compare k (concat bs) \<or>
     result = None \<and> (\<forall>kv. first_from compare k (concat bs) = Some kv \<longrightarrow> \<not> same k (fst kv)))"
proof -
  note T' = T [unfolded table_at_def]
  let ?ks = "index_keys separator successor bs" and ?hs = "handle_bytes interval bs"
  have u: "usable f" "re_read renv = read_at f" "length (contents f) < 2 ^ 32" "1 \<le> interval" "sorted_blocks bs" "re_compare renv = compare"
    "be_separator env = separator" "be_successor env = successor" using T' by auto
  obtain front rest where c: "contents f = blocks_image interval bs @ front @ stored_block (index_block separator successor interval bs) @ rest"
    using T' table_image_index [of env interval bs] by auto
  have small: "length (index_block separator successor interval bs) < 2 ^ 32" using u(3) by (simp add: c length_stored_block)
  obtain bi where bi: "BI_Seek compare k (Block_NewIterator (Block_init (index_block separator successor interval bs))) = Some bi"
      "BI_shows (first_from compare k (zip ?ks ?hs)) bi"
    using BI_Seek_block [of 1 "zip ?ks ?hs" k] small k index_sorted [OF u(5)] unfolding index_block_def by auto
  have ta: "ta_index_block (opened_table env cache_id interval bs) = Block_init (index_block separator successor interval bs)"
    by (simp add: opened_table_def Let_def u)
  show ?thesis
  proof (cases "first_from compare k (zip ?ks ?hs)")
    case None
    then have "\<forall>kv \<in> set (zip ?ks ?hs). compare (fst kv) k < 0" unfolding first_from_None .
    from bspec [OF this nth_mem] have all: "\<forall>i < length bs. compare (?ks ! i) k < 0" by simp
    have "compare (fst a) k < 0" if a: "a \<in> set (concat bs)" for a
    proof -
      from a obtain i where i: "i < length bs" "a \<in> set (bs ! i)" by (auto simp: in_set_conv_nth) (metis nth_mem)
      show ?thesis
        using le_less_trans [OF _ index_key(1) [OF u(5) i(1)] k index_key(2) [OF u(5) i]] all i sorted_block(2) [OF u(5) i(1)] by simp
    qed
    then have "first_from compare k (concat bs) = None" by (simp add: first_from_None)
    moreover have "InternalGet renv None options (opened_table env cache_id interval bs) k c = Some (OK, None, c)"
      using bi None by (simp add: InternalGet_def ta u BI_shows_def Status_ok_def)
    ultimately show ?thesis by simp
  next
    case (Some e)
    then obtain i where i: "i < length bs" "e = (?ks ! i, ?hs ! i)" "\<forall>j < i. compare (?ks ! j) k < 0" "\<not> compare (?ks ! i) k < 0"
      using first_from_nth [OF Some] by auto
    note L = index_lookup [OF u(5) k i(1,3,4)]
    have b: "BI_status bi = OK" "BI_Valid bi" "BI_value bi = Some (?hs ! i)" using bi(2) Some i(2) by (simp_all add: BI_shows_def)
    obtain ex where ex: "filter_excludes renv (opened_table env cache_id interval bs) (?hs ! i) k = Some ex"
        "ex \<longrightarrow> (\<forall>kv \<in> set (bs ! i). \<not> same k (fst kv))" using filter_lookup [OF T i(1)] by blast
    have dec: "BlockHandle_DecodeFrom BlockHandle_init (?hs ! i) = (OK, block_handle interval bs i, [])"
      using handle_roundtrip [of BlockHandle_init "block_handle interval bs i" "[]"] i(1) by (simp add: handle_bytes_def)
    let ?d = "finished_block interval (bs ! i)"
    have split: "contents f = blocks_image interval (take i bs) @ stored_block ?d @
        (blocks_image interval (drop (Suc i) bs) @ front @ stored_block (index_block separator successor interval bs) @ rest)"
      unfolding c blocks_image_split [OF i(1), of interval] by simp
    obtain sd where rb: "\<And>v. ReadBlock (re_read renv) v (block_handle interval bs i) =
        Some (OK, \<lparr>bc_data = sd, bc_cachable = in_scratch, bc_heap_allocated = in_scratch\<rparr>)" and sd: "slice_bytes sd = Some ?d"
      using ReadBlock_stored [OF u(1) split] by (auto simp: u(2) block_handle_def)
    have br: "BlockReader renv (None :: ('c, 'h) BlockCache option) options (opened_table env cache_id interval bs) (?hs ! i) c = Some (Block_NewIterator (Block_init ?d), DeleteBlock, c)"
      by (simp add: BlockReader_def dec Status_ok_def rb Block_of_def sd)
    have dsmall: "length ?d < 2 ^ 32" using u(3) unfolding split by (simp add: length_stored_block)
    obtain bj where bj: "BI_Seek compare k (Block_NewIterator (Block_init ?d)) = Some bj" "BI_shows (first_from compare k (bs ! i)) bj"
      using BI_Seek_block [OF u(4) dsmall k] sorted_block(2,3) [OF u(5) i(1)] by blast
    have get: "InternalGet renv (None :: ('c, 'h) BlockCache option) options (opened_table env cache_id interval bs) k c = Some (OK, if ex then None else first_from compare k (bs ! i), c)"
      using bi(1) b ex(1) br bj by (cases "first_from compare k (bs ! i)") (auto simp: InternalGet_def ta u Status_ok_def BI_shows_def)
    show ?thesis
    proof (cases "first_from compare k (bs ! i)")
      case None
      then show ?thesis using get L(2) by auto
    next
      case (Some kv)
      then have first: "first_from compare k (concat bs) = Some kv" using L(1) first_from_Some_append by metis
      have "kv \<in> set (bs ! i)" using first_from_nth [OF Some] by auto
      then show ?thesis using get first Some ex(2) by auto
    qed
  qed
qed

end

end
