(* ===== verification/LDB_Table_Spec.thy ===== *)
theory LDB_Table_Spec
  imports LDB_Table_Get
begin

unbundle bit_operations_syntax

text \<open>
  The builder writes the image of a table (\<open>LDB_Table_Image\<close>) with the entries it was given, and the table that is opened on
  the bytes finds them (\<open>LDB_Table_Get\<close>).
\<close>

section \<open>The builder\<close>

text \<open>The state of the builder after the blocks \<open>bs\<close> were written and the entries \<open>cur\<close> added to the current block.\<close>

definition builder_repr :: "'f builder_env \<Rightarrow> Options \<Rightarrow> ('f \<Rightarrow> byte list) \<Rightarrow> kv list list \<Rightarrow> kv list \<Rightarrow> 'f TableBuilder \<Rightarrow> bool" where
  "builder_repr env options accepted bs cur r \<longleftrightarrow>
     (let interval = op_restart_interval options in
      tb_status r = OK \<and> tb_options r = options \<and> accepted (tb_file r) = blocks_image interval bs \<and>
      tb_offset r = of_nat (length (blocks_image interval bs)) \<and> tb_data_block r = added interval cur \<and>
      tb_index_block r = added 1 (zip (separators (be_separator env) (if cur = [] then bs else bs @ [cur])) (handle_bytes interval bs)) \<and>
      (tb_pending_index_entry r \<longleftrightarrow> cur = [] \<and> bs \<noteq> []) \<and>
      (bs \<noteq> [] \<longrightarrow> tb_pending_handle r = block_handle interval bs (length bs - 1)) \<and>
      (bs \<noteq> [] \<or> cur \<noteq> [] \<longrightarrow> tb_last_key r = fst (last (concat bs @ cur))) \<and>
      tb_filter_block r =
        map_option (\<lambda>(_, create). fold (build_block create) (filter_groups interval (bs @ [cur])) FilterBlockBuilder) (be_policy env) \<and>
      [] \<notin> set bs \<and> tb_num_entries r = length (concat bs @ cur))"

lemma repr_init:
  assumes "accepted file = []"
  shows "builder_repr env options accepted [] [] (TableBuilder_init env options file)"
  using assms by (simp add: builder_repr_def TableBuilder_init_def blocks_image_def added_Nil handle_bytes_def filter_groups_def
      build_block_def split: prod.splits)

text \<open>Blocks are stored as they are, because Snappy is missing.\<close>

lemma WriteBlock_raw:
  "WriteBlock env block r =
     (case WriteRawBlock env (fst (BlockBuilder_Finish block)) kNoCompression r of
        (handle, r1) \<Rightarrow> (BlockBuilder_Reset (snd (BlockBuilder_Finish block)), handle, r1))"
  by (simp add: WriteBlock_def Snappy_Compress_def split: CompressionType.splits prod.splits)

locale table_writer = comparator ok compare "be_separator env" "be_successor env" + writable_file accepted stored "be_append env" "be_flush env"
  for ok compare and env :: "'f builder_env" and accepted stored +
  fixes options :: Options
begin

abbreviation interval :: int where "interval \<equiv> op_restart_interval options"

lemma WriteRawBlock_ok:
  assumes "Status_ok (tb_status (snd (WriteRawBlock env contents kNoCompression r)))"
  shows "\<exists>file. WriteRawBlock env contents kNoCompression r = (\<lparr>bh_offset = tb_offset r, bh_size = of_nat (length contents)\<rparr>,
      r\<lparr>tb_file := file, tb_status := OK, tb_offset := tb_offset r + of_nat (length (stored_block contents))\<rparr>) \<and>
    accepted file = accepted (tb_file r) @ stored_block contents"
proof -
  obtain s1 f1 where 1: "be_append env (tb_file r) contents = (s1, f1)" by (cases "be_append env (tb_file r) contents")
  have s1: "s1 = OK" using assms 1 by (auto simp: WriteRawBlock_def Let_def Status_ok_def split: if_splits prod.splits)
  let ?trailer = "[0] @ EncodeFixed32 (Crc_Mask (Crc_Value 0 (contents @ [0])))"
  obtain s2 f2 where 2: "be_append env f1 ?trailer = (s2, f2)" by (cases "be_append env f1 ?trailer")
  have crc: "Crc_Extend 0 (Crc_Value 0 contents) [0] = Crc_Value 0 (contents @ [0])" by (rule Crc_Extend_Value)
  have w: "WriteRawBlock env contents kNoCompression r = (\<lparr>bh_offset = tb_offset r, bh_size = of_nat (length contents)\<rparr>,
      let r2 = r\<lparr>tb_file := f2, tb_status := s2\<rparr> in
      if Status_ok s2 then r2\<lparr>tb_offset := tb_offset r2 + of_nat (length contents + kBlockTrailerSize)\<rparr> else r2)"
    unfolding WriteRawBlock_def Let_def 1 prod.case s1 CompressionType_num.simps crc 2 by (simp add: Status_ok_def)
  have s2: "s2 = OK" using assms unfolding w by (auto simp: Let_def Status_ok_def split: if_splits)
  have "accepted f2 = accepted (tb_file r) @ stored_block contents"
    using append_ok [OF 1 [unfolded s1]] append_ok [OF 2 [unfolded s2]] by (simp add: stored_block_def)
  then show ?thesis using w s2 by (auto simp: Status_ok_def Let_def length_stored_block)
qed

lemma Flush_ok:
  assumes "builder_repr env options accepted bs cur r" and "cur \<noteq> []" and "Status_ok (tb_status (TableBuilder_Flush env r))"
  shows "builder_repr env options accepted (bs @ [cur]) [] (TableBuilder_Flush env r)"
proof -
  note R = assms(1) [unfolded builder_repr_def Let_def]
  have nf: "\<not> BlockBuilder_empty (tb_data_block r)" "Status_ok (tb_status r)" using R assms(2) by (simp_all add: empty_added Status_ok_def)
  let ?data = "finished_block interval cur"
  obtain h r1 where w: "WriteRawBlock env ?data kNoCompression r = (h, r1)" by (cases "WriteRawBlock env ?data kNoCompression r")
  have wb: "WriteBlock env (tb_data_block r) r = (added interval [], h, r1)"
    using R by (simp add: WriteBlock_raw finished_added Reset_added w)
  have fl: "TableBuilder_Flush env r =
     (let r2 = r1\<lparr>tb_data_block := added interval [], tb_pending_handle := h\<rparr>;
          r3 = (if Status_ok (tb_status r2)
                then let (s, file) = be_flush env (tb_file r2) in r2\<lparr>tb_pending_index_entry := True, tb_file := file, tb_status := s\<rparr>
                else r2) in
      r3\<lparr>tb_filter_block := (case be_policy env of
             Some (_, create) \<Rightarrow> map_option (StartBlock create (tb_offset r3)) (tb_filter_block r3)
           | None \<Rightarrow> tb_filter_block r3)\<rparr>)"
    using nf by (simp add: TableBuilder_Flush_def wb)
  have "Status_ok (tb_status r1)" using assms(3) unfolding fl Let_def by (simp split: if_splits)
  then obtain f1 where f1: "h = \<lparr>bh_offset = tb_offset r, bh_size = of_nat (length ?data)\<rparr>"
      "r1 = r\<lparr>tb_file := f1, tb_status := OK, tb_offset := tb_offset r + of_nat (length (stored_block ?data))\<rparr>"
      "accepted f1 = accepted (tb_file r) @ stored_block ?data"
    using WriteRawBlock_ok [of ?data r] w by auto
  obtain s2 f2 where 2: "be_flush env f1 = (s2, f2)" by (cases "be_flush env f1")
  have fl2: "TableBuilder_Flush env r = r\<lparr>tb_file := f2, tb_status := s2, tb_offset := tb_offset r + of_nat (length (stored_block ?data)),
      tb_data_block := added interval [], tb_pending_handle := h, tb_pending_index_entry := True,
      tb_filter_block := (case be_policy env of
             Some (_, create) \<Rightarrow> map_option (StartBlock create (tb_offset r + of_nat (length (stored_block ?data)))) (tb_filter_block r)
           | None \<Rightarrow> tb_filter_block r)\<rparr>"
    unfolding fl f1(2) by (simp add: Status_ok_def 2 split: prod.splits option.splits)
  have s2: "s2 = OK" using assms(3) unfolding fl2 by (simp add: Status_ok_def)
  have off: "tb_offset r + of_nat (length (stored_block ?data)) = (of_nat (length (blocks_image interval (bs @ [cur]))) :: u64)"
    using R by (simp add: blocks_image_snoc)
  have h: "h = block_handle interval (bs @ [cur]) (length bs)" using R by (simp add: f1(1) block_handle_def)
  have z: "zip (separators (be_separator env) (bs @ [cur])) (handle_bytes interval (bs @ [cur])) =
      zip (separators (be_separator env) (bs @ [cur])) (handle_bytes interval bs)"
    by (simp add: handle_bytes_snoc zip_append2)
  have acc: "accepted f2 = blocks_image interval (bs @ [cur])"
    using R f1(3) flush_ok [OF 2 [unfolded s2]] by (simp add: blocks_image_snoc)
  have fb: "(case be_policy env of
             Some (_, create) \<Rightarrow> map_option (StartBlock create (tb_offset r + of_nat (length (stored_block ?data)))) (tb_filter_block r)
           | None \<Rightarrow> tb_filter_block r) =
      map_option (\<lambda>(_, create). fold (build_block create) (filter_groups interval ((bs @ [cur]) @ [[]])) FilterBlockBuilder) (be_policy env)"
    unfolding off filter_groups_snoc [of interval "bs @ [cur]"]
    using R by (simp add: build_block_def split: option.splits prod.splits)
  have rest: "tb_options r = options" "tb_num_entries r = length (concat bs @ cur)" "[] \<notin> set bs"
    "tb_index_block r = added 1 (zip (separators (be_separator env) (bs @ [cur])) (handle_bytes interval bs))"
    "tb_last_key r = fst (last (concat bs @ cur))"
    using R assms(2) by simp_all
  show ?thesis
    unfolding builder_repr_def Let_def fl2 TableBuilder.simps fb unfolding off
    using rest assms(2) by (simp add: s2 acc h z)
qed

lemma Add_ok:
  assumes "builder_repr env options accepted bs cur r" and "Status_ok (tb_status (TableBuilder_Add env k v r))"
  shows "\<exists>bs' cur'. concat bs' @ cur' = concat bs @ cur @ [(k, v)] \<and> builder_repr env options accepted bs' cur' (TableBuilder_Add env k v r)"
proof -
  note R = assms(1) [unfolded builder_repr_def Let_def]
  define r1 where "r1 = (if tb_pending_index_entry r then
                    let last_key = be_separator env (tb_last_key r) k in
                    r\<lparr>tb_last_key := last_key,
                      tb_index_block := BlockBuilder_Add last_key (BlockHandle_EncodeTo (tb_pending_handle r) []) (tb_index_block r),
                      tb_pending_index_entry := False\<rparr>
                  else r)"
  define r2 where "r2 = r1\<lparr>tb_filter_block := map_option (AddKey k) (tb_filter_block r1), tb_last_key := k,
                    tb_num_entries := tb_num_entries r1 + 1, tb_data_block := BlockBuilder_Add k v (tb_data_block r1)\<rparr>"
  have add: "TableBuilder_Add env k v r =
      (if CurrentSizeEstimate (tb_data_block r2) \<ge> op_block_size (tb_options r2) then TableBuilder_Flush env r2 else r2)"
    using R unfolding TableBuilder_Add_def r2_def r1_def Let_def by (simp add: Status_ok_def)
  have idx: "tb_index_block r1 =
      added 1 (zip (separators (be_separator env) (bs @ [cur @ [(k, v)]])) (handle_bytes interval bs))" and pend: "\<not> tb_pending_index_entry r1"
  proof -
    show "\<not> tb_pending_index_entry r1" by (simp add: r1_def Let_def)
    show "tb_index_block r1 = added 1 (zip (separators (be_separator env) (bs @ [cur @ [(k, v)]])) (handle_bytes interval bs))"
    proof (cases "cur = [] \<and> bs \<noteq> []")
      case True
      obtain ys y where bs: "bs = ys @ [y]" "y \<noteq> []" using True R by (cases bs rule: rev_cases) auto
      have "zip (separators (be_separator env) (bs @ [cur @ [(k, v)]])) (handle_bytes interval bs) =
          zip (separators (be_separator env) bs) (handle_bytes interval bs) @
            [(be_separator env (fst (last y)) k, BlockHandle_EncodeTo (block_handle interval bs (length bs - 1)) [])]"
        using separators_snoc [of bs "be_separator env"] True unfolding bs(1) handle_bytes_snoc by (simp add: zip_append2)
      moreover have "tb_last_key r = fst (last y)" using R True bs by simp
      ultimately show ?thesis using R True by (simp add: r1_def Let_def added_snoc)
    next
      case False
      then have "separators (be_separator env) (bs @ [cur @ [(k, v)]]) = separators (be_separator env) (if cur = [] then bs else bs @ [cur])"
        using separators_hd [of "cur @ [(k, v)]" cur] by (cases "cur = []") simp_all
      then show ?thesis using R False by (simp add: r1_def)
    qed
  qed
  have same: "tb_filter_block r1 = tb_filter_block r" "tb_num_entries r1 = tb_num_entries r" "tb_data_block r1 = tb_data_block r"
    "tb_status r1 = tb_status r" "tb_options r1 = tb_options r" "tb_file r1 = tb_file r" "tb_offset r1 = tb_offset r"
    "tb_pending_handle r1 = tb_pending_handle r" by (simp_all add: r1_def Let_def)
  have fb: "map_option (AddKey k) (tb_filter_block r) =
      map_option (\<lambda>(_, create). fold (build_block create) (filter_groups interval (bs @ [cur @ [(k, v)]])) FilterBlockBuilder) (be_policy env)"
    using R by (simp add: filter_groups_snoc build_block_def option.map_comp comp_def split_def)
  have repr2: "builder_repr env options accepted bs (cur @ [(k, v)]) r2"
    unfolding builder_repr_def Let_def r2_def TableBuilder.simps same fb using R idx pend same by (simp add: added_snoc)
  show ?thesis
  proof (cases "CurrentSizeEstimate (tb_data_block r2) \<ge> op_block_size (tb_options r2)")
    case True
    then show ?thesis
      using Flush_ok [OF repr2] assms(2) unfolding add by (intro exI [of _ "bs @ [cur @ [(k, v)]]"] exI [of _ "[]"]) simp
  next
    case False
    then show ?thesis using repr2 unfolding add by (intro exI [of _ bs] exI [of _ "cur @ [(k, v)]"]) simp
  qed
qed

lemma Adds_ok:
  assumes "builder_repr env options accepted bs cur r"
    and "Status_ok (tb_status (fold (\<lambda>(k, v). TableBuilder_Add env k v) kvs r))"
  shows "\<exists>bs' cur'. concat bs' @ cur' = concat bs @ cur @ kvs \<and>
    builder_repr env options accepted bs' cur' (fold (\<lambda>(k, v). TableBuilder_Add env k v) kvs r)"
  using assms(2)
proof (induction kvs rule: rev_induct)
  case Nil
  then show ?case using assms(1) by auto
next
  case (snoc kv kvs)
  obtain k v where kv: "kv = (k, v)" by (cases kv) auto
  let ?r = "fold (\<lambda>(k, v). TableBuilder_Add env k v) kvs r"
  have add: "fold (\<lambda>(k, v). TableBuilder_Add env k v) (kvs @ [kv]) r = TableBuilder_Add env k v ?r" by (simp add: kv)
  have "Status_ok (tb_status ?r)" using snoc.prems unfolding add by (auto simp: TableBuilder_Add_def split: if_splits)
  from snoc.IH [OF this] obtain bs' cur' where IH: "concat bs' @ cur' = concat bs @ cur @ kvs" "builder_repr env options accepted bs' cur' ?r"
    by blast
  have eq: "concat bs' @ cur' @ [(k, v)] = concat bs @ cur @ kvs @ [kv]" using IH(1) by (metis append_assoc kv)
  show ?case using Add_ok [OF IH(2) snoc.prems [unfolded add]] unfolding add eq .
qed

text \<open>Writing bytes to the file changes nothing else of the builder.\<close>

definition wrote :: "byte list \<Rightarrow> 'f TableBuilder \<Rightarrow> 'f TableBuilder \<Rightarrow> bool" where
  "wrote c r r' \<longleftrightarrow> (\<exists>file. accepted file = accepted (tb_file r) @ c \<and>
     r' = r\<lparr>tb_file := file, tb_status := OK, tb_offset := tb_offset r + of_nat (length c)\<rparr>)"

lemma WriteRawBlock_wrote:
  "WriteRawBlock env contents kNoCompression r = (h, r') \<Longrightarrow> Status_ok (tb_status r') \<Longrightarrow>
     h = \<lparr>bh_offset = tb_offset r, bh_size = of_nat (length contents)\<rparr> \<and> wrote (stored_block contents) r r'"
  using WriteRawBlock_ok [of contents r] by (auto simp: wrote_def)

lemma WriteBlock_wrote:
  "WriteBlock env (added n kvs) r = (b, h, r') \<Longrightarrow> Status_ok (tb_status r') \<Longrightarrow>
     h = \<lparr>bh_offset = tb_offset r, bh_size = of_nat (length (finished_block n kvs))\<rparr> \<and> wrote (stored_block (finished_block n kvs)) r r'"
  unfolding WriteBlock_raw finished_added using WriteRawBlock_wrote by (auto split: prod.splits)

lemma finish_filter_ok:
  assumes "finish_filter env r = (h, r')" "Status_ok (tb_status r')" "tb_status r = OK"
    and "tb_filter_block r = map_option (\<lambda>(_, create). fold (build_block create) (filter_groups interval (bs @ [[]])) FilterBlockBuilder) (be_policy env)"
    and "accepted (tb_file r) = blocks_image interval bs"
  shows "(be_policy env \<noteq> None \<longrightarrow> h = \<lparr>bh_offset = tb_offset r, bh_size = of_nat (length (filter_part (be_policy env) interval bs))\<rparr>) \<and>
    wrote (if be_policy env = None then [] else stored_block (filter_part (be_policy env) interval bs)) r r'"
proof (cases "be_policy env")
  case None
  then show ?thesis using assms by (auto simp: finish_filter_def wrote_def intro!: exI [of _ "tb_file r"])
next
  case (Some p)
  obtain name create where p: "p = (name, create)" by (cases p)
  have "WriteRawBlock env (filter_part (be_policy env) interval bs) kNoCompression r = (h, r')"
    using assms by (simp add: finish_filter_def Some p Status_ok_def filter_part_def filter_block_def)
  from WriteRawBlock_wrote [OF this assms(2)] Some show ?thesis by simp
qed

lemma finish_metaindex_ok:
  assumes "finish_metaindex env fh r = (h, r')" "Status_ok (tb_status r')" "tb_status r = OK" "tb_options r = options"
    and "be_policy env \<noteq> None \<Longrightarrow>
      fh = \<lparr>bh_offset = of_nat (length (blocks_image interval bs)), bh_size = of_nat (length (filter_part (be_policy env) interval bs))\<rparr>"
  defines "meta \<equiv> finished_block interval (meta_entries (be_policy env) interval bs)"
  shows "h = \<lparr>bh_offset = tb_offset r, bh_size = of_nat (length meta)\<rparr> \<and> wrote (stored_block meta) r r'"
proof -
  have "(case be_policy env of
       Some (name, _) \<Rightarrow> BlockBuilder_Add (filter_key name) (BlockHandle_EncodeTo fh []) (BlockBuilder_init interval)
     | None \<Rightarrow> BlockBuilder_init interval) = added interval (meta_entries (be_policy env) interval bs)"
    using assms(5) by (simp add: meta_entries_def added_def split: option.splits prod.splits)
  then obtain b where "WriteBlock env (added interval (meta_entries (be_policy env) interval bs)) r = (b, h, r')"
    using assms(1,3,4) by (auto simp: finish_metaindex_def Status_ok_def Let_def split: prod.splits)
  from WriteBlock_wrote [OF this assms(2)] show ?thesis by (simp add: meta_def)
qed

lemma finish_index_ok:
  assumes "finish_index env r = (h, r')" "Status_ok (tb_status r')" "tb_status r = OK" "[] \<notin> set bs"
    and "tb_index_block r = added 1 (zip (separators (be_separator env) bs) (handle_bytes interval bs))"
    and "tb_pending_index_entry r \<longleftrightarrow> bs \<noteq> []" "bs \<noteq> [] \<Longrightarrow> tb_pending_handle r = block_handle interval bs (length bs - 1)"
    and "bs \<noteq> [] \<Longrightarrow> tb_last_key r = fst (last (concat bs))"
  defines "index \<equiv> index_block (be_separator env) (be_successor env) interval bs"
  shows "h = \<lparr>bh_offset = tb_offset r, bh_size = of_nat (length index)\<rparr> \<and>
    accepted (tb_file r') = accepted (tb_file r) @ stored_block index \<and> tb_offset r' = tb_offset r + of_nat (length (stored_block index)) \<and>
    tb_num_entries r' = tb_num_entries r"
proof -
  define r1 where "r1 = (if tb_pending_index_entry r then
                    let last_key = be_successor env (tb_last_key r) in
                    r\<lparr>tb_last_key := last_key,
                      tb_index_block := BlockBuilder_Add last_key (BlockHandle_EncodeTo (tb_pending_handle r) []) (tb_index_block r),
                      tb_pending_index_entry := False\<rparr>
                  else r)"
  obtain b r2 where w: "WriteBlock env (tb_index_block r1) r1 = (b, h, r2)" and r': "r' = r2\<lparr>tb_index_block := b\<rparr>"
    using assms(1,3) by (auto simp: finish_index_def Status_ok_def r1_def [symmetric] split: prod.splits)
  have "tb_index_block r1 = added 1 (zip (index_keys (be_separator env) (be_successor env) bs) (handle_bytes interval bs))"
  proof (cases bs rule: rev_cases)
    case Nil
    then show ?thesis using assms(5,6) by (simp add: r1_def index_keys_def)
  next
    case (snoc ys y)
    then have "last (concat bs) = last y" "bs \<noteq> []" using assms(4) by auto
    then show ?thesis
      using assms(5-8) snoc unfolding r1_def Let_def
      by (simp add: index_keys_def handle_bytes_snoc zip_append1 added_snoc [symmetric] take_Suc_conv_app_nth zip_append2)
  qed
  from WriteBlock_wrote [OF w [unfolded this]] assms(2) r' show ?thesis
    by (auto simp: wrote_def index_def index_block_def r1_def Let_def)
qed

lemma Finish_ok:
  assumes "builder_repr env options accepted bs cur r" and "TableBuilder_Finish env r = (OK, r')"
  shows "\<exists>bs'. concat bs' = concat bs @ cur \<and> [] \<notin> set bs' \<and> accepted (tb_file r') = table_image env interval bs' \<and>
    FileSize r' = of_nat (length (table_image env interval bs')) \<and> NumEntries r' = length (concat bs @ cur)"
proof -
  define r0 where "r0 = TableBuilder_Flush env r"
  obtain fh r2 where 2: "finish_filter env (r0\<lparr>tb_closed := True\<rparr>) = (fh, r2)" by fastforce
  obtain mh r3 where 3: "finish_metaindex env fh r2 = (mh, r3)" by fastforce
  obtain ih r4 where 4: "finish_index env r3 = (ih, r4)" by fastforce
  have 5: "finish_footer env mh ih r4 = r'" "Status_ok (tb_status r')"
    using assms(2) by (auto simp: TableBuilder_Finish_def Let_def r0_def [symmetric] 2 3 4 Status_ok_def)
  have s4: "Status_ok (tb_status r4)" using 5 by (auto simp: finish_footer_def split: if_splits)
  have s3: "Status_ok (tb_status r3)" using 4 s4 by (auto simp: finish_index_def split: if_splits)
  have s2: "Status_ok (tb_status r2)" using 3 s3 by (auto simp: finish_metaindex_def split: if_splits)
  have s0: "Status_ok (tb_status r0)" using 2 s2 by (auto simp: finish_filter_def split: if_splits option.splits prod.splits)
  obtain bs' where bs': "concat bs' = concat bs @ cur" and "builder_repr env options accepted bs' [] r0"
  proof (cases "cur = []")
    case True
    then have "r0 = r" using assms(1) by (simp add: r0_def TableBuilder_Flush_def builder_repr_def Let_def empty_added)
    then show thesis using that assms(1) True by simp
  next
    case False
    then show thesis using that [of "bs @ [cur]"] Flush_ok [OF assms(1) False] s0 by (simp add: r0_def)
  qed
  note R = this(2) [unfolded builder_repr_def Let_def]
  have f: "(be_policy env \<noteq> None \<longrightarrow> fh = \<lparr>bh_offset = tb_offset r0, bh_size = of_nat (length (filter_part (be_policy env) interval bs'))\<rparr>) \<and>
      wrote (if be_policy env = None then [] else stored_block (filter_part (be_policy env) interval bs')) (r0\<lparr>tb_closed := True\<rparr>) r2"
    using finish_filter_ok [OF 2 s2, of bs'] R by simp
  define meta where "meta = finished_block interval (meta_entries (be_policy env) interval bs')"
  define index where "index = index_block (be_separator env) (be_successor env) interval bs'"
  have m: "mh = \<lparr>bh_offset = tb_offset r2, bh_size = of_nat (length meta)\<rparr>" "wrote (stored_block meta) r2 r3"
    using finish_metaindex_ok [OF 3 s3, of bs'] f R by (auto simp: wrote_def meta_def)
  have i: "ih = \<lparr>bh_offset = tb_offset r3, bh_size = of_nat (length index)\<rparr> \<and>
    accepted (tb_file r4) = accepted (tb_file r3) @ stored_block index \<and> tb_offset r4 = tb_offset r3 + of_nat (length (stored_block index)) \<and>
    tb_num_entries r4 = tb_num_entries r3"
    unfolding index_def by (rule finish_index_ok [OF 4 s4]) (use f m R in \<open>auto simp: wrote_def\<close>)
  define front where "front = after_filter (be_policy env) interval bs'"
  have a2: "accepted (tb_file r2) = front" "tb_offset r2 = of_nat (length front)" using f R by (auto simp: wrote_def front_def after_filter_def)
  have a3: "accepted (tb_file r3) = front @ stored_block meta" "tb_offset r3 = of_nat (length (front @ stored_block meta))"
    using a2 m(2) by (auto simp: wrote_def)
  have ft: "\<lparr>ft_metaindex_handle = mh, ft_index_handle = ih\<rparr> = table_footer front meta index"
    using m(1) i a2 a3 by (simp add: table_footer_def)
  obtain s f5 where ap: "be_append env (tb_file r4) (Footer_EncodeTo (table_footer front meta index) []) = (s, f5)" by fastforce
  have r': "s = OK" "r' = r4\<lparr>tb_file := f5, tb_status := OK, tb_offset := tb_offset r4 + of_nat kEncodedLength\<rparr>"
    using 5 s4 by (auto simp: finish_footer_def Let_def ft ap Status_ok_def length_footer split: if_splits)
  have img: "table_image env interval bs' = front @ stored_block meta @ stored_block index @ Footer_EncodeTo (table_footer front meta index) []"
    by (simp add: table_image_def Let_def front_def meta_def index_def)
  have "accepted (tb_file r') = table_image env interval bs'" "FileSize r' = of_nat (length (table_image env interval bs'))"
    using append_ok [OF ap [unfolded r'(1)]] i a3 by (simp_all add: r'(2) img FileSize_def length_footer)
  moreover have "NumEntries r' = length (concat bs @ cur)" using R i m(2) f bs' by (auto simp: r'(2) NumEntries_def wrote_def)
  ultimately show ?thesis using bs' R by auto
qed

lemma build_ok:
  assumes "accepted file = []"
    and "TableBuilder_Finish env (fold (\<lambda>(k, v). TableBuilder_Add env k v) kvs (TableBuilder_init env options file)) = (OK, r)"
  shows "\<exists>bs. concat bs = kvs \<and> [] \<notin> set bs \<and> accepted (tb_file r) = table_image env interval bs \<and>
    FileSize r = of_nat (length (table_image env interval bs)) \<and> NumEntries r = length kvs"
proof -
  let ?r = "fold (\<lambda>(k, v). TableBuilder_Add env k v) kvs (TableBuilder_init env options file)"
  have st: "Status_ok (tb_status ?r)"
  proof (rule ccontr)
    assume "\<not> Status_ok (tb_status ?r)"
    then show False using assms(2) by (simp add: TableBuilder_Finish_def TableBuilder_Flush_def finish_filter_def finish_metaindex_def
        finish_index_def finish_footer_def Let_def Status_ok_def split: option.splits prod.splits)
  qed
  obtain bs cur where bs: "concat bs @ cur = kvs" and repr: "builder_repr env options accepted bs cur ?r"
    using Adds_ok [OF repr_init [of accepted, OF assms(1)] st] by auto
  show ?thesis using Finish_ok [OF repr assms(2)] unfolding bs .
qed

end

text \<open>When no operation of the file fails, \<^verbatim>\<open>Finish\<close> reports no error.\<close>

locale reliable_table_writer = table_writer ok compare env accepted stored options + reliable_file accepted stored "be_append env" "be_flush env" good
  for ok compare and env :: "'f builder_env" and accepted stored options good
begin

definition sound :: "'f TableBuilder \<Rightarrow> bool" where
  "sound r \<longleftrightarrow> tb_status r = OK \<and> good (tb_file r)"

lemma WriteRawBlock_sound:
  assumes "sound r"
  shows "sound (snd (WriteRawBlock env contents type r))"
proof -
  obtain f1 where f1: "be_append env (tb_file r) contents = (OK, f1)" "good f1" using assms append_good by (auto simp: sound_def)
  obtain f2 where "be_append env f1 ([CompressionType_num type] @
      EncodeFixed32 (Crc_Mask (Crc_Extend 0 (Crc_Value 0 contents) [CompressionType_num type]))) = (OK, f2)" "good f2"
    using f1(2) append_good by blast
  with f1 show ?thesis by (simp add: WriteRawBlock_def sound_def Status_ok_def)
qed

lemma WriteBlock_sound: "sound r \<Longrightarrow> WriteBlock env b r = (b', h, r') \<Longrightarrow> sound r'"
  using WriteRawBlock_sound [of r "fst (BlockBuilder_Finish b)" kNoCompression] by (simp add: WriteBlock_raw split: prod.splits)

lemma sound_update [simp]:
  "sound (r\<lparr>tb_data_block := b\<rparr>) = sound r" "sound (r\<lparr>tb_pending_handle := h\<rparr>) = sound r" "sound (r\<lparr>tb_pending_index_entry := x\<rparr>) = sound r"
  "sound (r\<lparr>tb_filter_block := y\<rparr>) = sound r" "sound (r\<lparr>tb_closed := x\<rparr>) = sound r" "sound (r\<lparr>tb_last_key := z\<rparr>) = sound r"
  "sound (r\<lparr>tb_index_block := b\<rparr>) = sound r" "sound (r\<lparr>tb_num_entries := n\<rparr>) = sound r" "sound (r\<lparr>tb_offset := w\<rparr>) = sound r"
  by (simp_all add: sound_def)

lemma Flush_sound:
  assumes "sound r"
  shows "sound (TableBuilder_Flush env r)"
proof (cases "BlockBuilder_empty (tb_data_block r)")
  case True
  then show ?thesis using assms by (simp add: TableBuilder_Flush_def)
next
  case False
  obtain b h r1 where w: "WriteBlock env (tb_data_block r) r = (b, h, r1)" by (metis prod.exhaust)
  have r1: "tb_status r1 = OK" "good (tb_file r1)" using WriteBlock_sound [OF assms w] by (simp_all add: sound_def)
  obtain f where f: "be_flush env (tb_file r1) = (OK, f)" "good f" using flush_good [OF r1(2)] by blast
  show ?thesis using False assms r1(1) f(2) by (simp add: TableBuilder_Flush_def w Let_def f(1) Status_ok_def) (simp add: sound_def)
qed

lemma Add_sound: "sound r \<Longrightarrow> sound (TableBuilder_Add env k v r)"
  by (simp add: TableBuilder_Add_def Let_def Flush_sound)

lemma Finish_sound:
  assumes "sound r"
  shows "\<exists>r'. TableBuilder_Finish env r = (OK, r')"
proof -
  obtain fh r2 where 2: "finish_filter env ((TableBuilder_Flush env r)\<lparr>tb_closed := True\<rparr>) = (fh, r2)" by fastforce
  obtain mh r3 where 3: "finish_metaindex env fh r2 = (mh, r3)" by fastforce
  obtain ih r4 where 4: "finish_index env r3 = (ih, r4)" by fastforce
  have "sound r2" using 2 Flush_sound [OF assms] WriteRawBlock_sound
    by (auto simp: finish_filter_def split: option.splits if_splits prod.splits) (metis snd_conv sound_update(5))+
  then have "sound r3" using 3 WriteBlock_sound by (auto simp: finish_metaindex_def Let_def split: if_splits prod.splits)
  then have s4: "sound r4" using 4
    by (auto simp: finish_index_def Let_def dest!: WriteBlock_sound [rotated] split: if_splits prod.splits)
  obtain f where "be_append env (tb_file r4) (Footer_EncodeTo \<lparr>ft_metaindex_handle = mh, ft_index_handle = ih\<rparr> []) = (OK, f)"
    using s4 append_good unfolding sound_def by blast
  then have "tb_status (finish_footer env mh ih r4) = OK" by (simp add: finish_footer_def Status_ok_def s4 [unfolded sound_def])
  then show ?thesis by (simp add: TableBuilder_Finish_def 2 3 4)
qed

lemma build_succeeds:
  assumes "good file"
  shows "\<exists>r. TableBuilder_Finish env (fold (\<lambda>(k, v). TableBuilder_Add env k v) kvs (TableBuilder_init env options file)) = (OK, r)"
proof -
  have init: "sound (TableBuilder_init env options file)" using assms by (simp add: TableBuilder_init_def sound_def)
  have "sound (fold (\<lambda>(k, v). TableBuilder_Add env k v) kvs r)" if "sound r" for r
    using that by (induction kvs arbitrary: r) (auto simp: Add_sound)
  from Finish_sound [OF this [OF init]] show ?thesis .
qed

end

section \<open>Tables of a database\<close>

text \<open>
  The tables of a database: internal keys over the bytewise comparator, the internal filter policy over a Bloom policy if there
  is one, files written by \<^verbatim>\<open>PosixWritableFile\<close>.
\<close>

definition internal_builder_env :: "bloom_policy option \<Rightarrow> PosixWritableFile builder_env" where
  "internal_builder_env po =
     \<lparr>be_separator = InternalKeyComparator_FindShortestSeparator Slice_compare Bytewise_FindShortestSeparator,
      be_successor = InternalKeyComparator_FindShortSuccessor Slice_compare Bytewise_FindShortSuccessor,
      be_policy = map_option (\<lambda>p. (Bloom_Name, InternalFilterPolicy_CreateFilter Bloom_CreateFilter p)) po,
      be_append = Posix_Append, be_flush = Posix_Flush\<rparr>"

definition internal_reader_env :: "bloom_policy option \<Rightarrow> bool \<Rightarrow> random_read \<Rightarrow> reader_env" where
  "internal_reader_env po paranoid_checks read_at =
     \<lparr>re_read = read_at, re_paranoid_checks = paranoid_checks, re_compare = InternalKeyComparator_Compare Slice_compare,
      re_policy = map_option (\<lambda>p. (Bloom_Name, InternalFilterPolicy_KeyMayMatch Bloom_KeyMayMatch p)) po\<rparr>"

lemma internal_envs:
  "be_separator (internal_builder_env po) = InternalKeyComparator_FindShortestSeparator Slice_compare Bytewise_FindShortestSeparator"
  "be_successor (internal_builder_env po) = InternalKeyComparator_FindShortSuccessor Slice_compare Bytewise_FindShortSuccessor"
  "be_policy (internal_builder_env po) = map_option (\<lambda>p. (Bloom_Name, InternalFilterPolicy_CreateFilter Bloom_CreateFilter p)) po"
  "be_append (internal_builder_env po) = Posix_Append" "be_flush (internal_builder_env po) = Posix_Flush"
  "re_read (internal_reader_env po paranoid_checks read_at) = read_at"
  "re_compare (internal_reader_env po paranoid_checks read_at) = InternalKeyComparator_Compare Slice_compare"
  "re_policy (internal_reader_env po paranoid_checks read_at) =
     map_option (\<lambda>p. (Bloom_Name, InternalFilterPolicy_KeyMayMatch Bloom_KeyMayMatch p)) po"
  by (simp_all add: internal_builder_env_def internal_reader_env_def)

interpretation internal_writer: table_writer "\<lambda>k. 8 \<le> length k \<and> True" "InternalKeyComparator_Compare Slice_compare"
    "internal_builder_env po" "\<lambda>w. os_data (pf_os w) @ pf_buf w" "\<lambda>w. os_data (pf_os w)" options
  for po options
  unfolding table_writer_def internal_envs using internal_bytewise.comparator_axioms posix.writable_file_axioms by blast

interpretation internal_reliable_writer: reliable_table_writer "\<lambda>k. 8 \<le> length k \<and> True" "InternalKeyComparator_Compare Slice_compare"
    "internal_builder_env po" "\<lambda>w. os_data (pf_os w) @ pf_buf w" "\<lambda>w. os_data (pf_os w)" options "\<lambda>w. plan_good (pf_os w)"
  for po options
  unfolding reliable_table_writer_def internal_envs using internal_writer.table_writer_axioms posix_good.reliable_file_axioms by blast

lemma user_key_separated:
  assumes "InternalKeyComparator_Compare Slice_compare a k < 0"
    and "InternalKeyComparator_Compare Slice_compare k
      (InternalKeyComparator_FindShortestSeparator Slice_compare Bytewise_FindShortestSeparator a b) \<le> 0"
    and "8 \<le> length a" "8 \<le> length b" "8 \<le> length k" "InternalKeyComparator_Compare Slice_compare a b < 0"
  shows "ExtractUserKey k \<noteq> ExtractUserKey b"
proof
  let ?sep = "InternalKeyComparator_FindShortestSeparator Slice_compare Bytewise_FindShortestSeparator a b"
  assume same: "ExtractUserKey k = ExtractUserKey b"
  have sep: "InternalKeyComparator_Compare Slice_compare ?sep b < 0" "8 \<le> length ?sep"
    using internal_bytewise.separator [of a b] assms by auto
  have "?sep \<noteq> a" using assms(1,2) internal_bytewise.compare_le_iff [of k a] assms(3,5) by auto
  then have tmp: "Slice_compare (ExtractUserKey a) (Bytewise_FindShortestSeparator (ExtractUserKey a) (ExtractUserKey b)) < 0"
      "ExtractUserKey ?sep = Bytewise_FindShortestSeparator (ExtractUserKey a) (ExtractUserKey b)"
    by (auto simp: InternalKeyComparator_FindShortestSeparator_def Let_def PutFixed64_def split: if_splits)
  have "ExtractUserKey a \<noteq> ExtractUserKey b" using tmp(1) by auto
  then have "Slice_compare (ExtractUserKey a) (ExtractUserKey b) < 0"
    using bytewise.internal_user_le [of a b] assms(6) by (simp add: Slice_compare_le)
  then have "Slice_compare (ExtractUserKey ?sep) (ExtractUserKey b) < 0" using bytewise.separator tmp(2) by simp
  moreover have "Slice_compare (ExtractUserKey b) (ExtractUserKey ?sep) \<le> 0" using bytewise.internal_user_le [OF assms(2)] same by simp
  ultimately show False using bytewise.compare_le_iff by blast
qed

interpretation internal_tables: table_format "\<lambda>k. 8 \<le> length k \<and> True" "InternalKeyComparator_Compare Slice_compare"
    "InternalKeyComparator_FindShortestSeparator Slice_compare Bytewise_FindShortestSeparator"
    "InternalKeyComparator_FindShortSuccessor Slice_compare Bytewise_FindShortSuccessor"
    bloom_ok "InternalFilterPolicy_CreateFilter Bloom_CreateFilter" "InternalFilterPolicy_KeyMayMatch Bloom_KeyMayMatch"
    "\<lambda>data. data" "\<lambda>data. length data < 2 ^ 64" "Mmap_Read filename strerror" False "\<lambda>k b. ExtractUserKey k = ExtractUserKey b"
  for filename strerror
proof (unfold_locales, goal_cases)
  case (1 a b k)
  then show ?case using user_key_separated [of a k b] by simp
next
  case (2 k key p)
  then show ?case by (intro ext) (simp add: InternalFilterPolicy_KeyMayMatch_def)
qed

lemma length_single_block: "length (finished_block interval [(k, v)]) \<le> length k + length v + 27"
  using length_EncodeVarint32_le [of 0] length_EncodeVarint32_le [of "of_nat (length k)"] length_EncodeVarint32_le [of "of_nat (length v)"]
  by (auto simp: finished_block_def Finish_size CurrentSizeEstimate_def BlockBuilder_Add_def BlockBuilder_init_def PutVarint32_def Let_def)

lemma length_successor: "length (Bytewise_FindShortSuccessor key) \<le> length key"
  by (induction key) (simp_all)

lemma length_single_table:
  assumes "length k + length v < 1000"
  shows "length (table_image (internal_builder_env (Some (BloomFilterPolicy 10 product))) 16 [[(k, v)]]) < 2 ^ 32"
proof -
  let ?env = "internal_builder_env (Some (BloomFilterPolicy 10 product))" and ?bs = "[[(k, v)]]"
  have b: "length (blocks_image 16 ?bs) \<le> 1032" using length_single_block [of 16 k v] assms by (simp add: blocks_image_def length_stored_block kBlockTrailerSize_def)
  then have "unat (of_nat (length (blocks_image 16 ?bs)) :: u64) div 2048 = 0" by (simp add: unat_of_nat)
  then have f: "length (filter_part (be_policy ?env) 16 ?bs) \<le> 1000"
    unfolding filter_part_def internal_envs
    by (simp add: filter_block_abs InternalFilterPolicy_CreateFilter_def filter_groups_def upt_rec Bloom_CreateFilter_def Let_def
      add_group_def start_group_def block_index_def kFilterBase_def kFilterBaseLg_def blocks_image_def closed_groups_def length_filter_contents
      group_filter_def bloom_bytes_def BloomFilterPolicy_def)
  have h: "length (BlockHandle_EncodeTo x []) \<le> 20" for x using length_handle [of x] by (simp add: kMaxEncodedLength_def)
  have "length (finished_block 16 [(filter_key Bloom_Name, x)]) \<le> 1000" if "length x \<le> 20" for x
    using length_single_block [of 16 "filter_key Bloom_Name" x] that by (simp add: filter_key_def Bloom_Name_def)
  then have m: "length (finished_block 16 (meta_entries (be_policy ?env) 16 ?bs)) \<le> 1000"
    using h unfolding meta_entries_def internal_envs by simp
  have s: "length (InternalKeyComparator_FindShortSuccessor Slice_compare Bytewise_FindShortSuccessor k) \<le> 1008"
    using assms length_successor [of "ExtractUserKey k"]
    by (auto simp: InternalKeyComparator_FindShortSuccessor_def Let_def PutFixed64_def ExtractUserKey_def)
  have "length (finished_block 1 [(y, x)]) \<le> 3000" if "length x \<le> 20" "length y \<le> 1008" for x y
    using length_single_block [of 1 y x] that by simp
  then have i: "length (index_block (be_separator ?env) (be_successor ?env) 16 ?bs) \<le> 3000"
    using s h unfolding index_block_def internal_envs by (simp add: index_keys_def handle_bytes_def)
  show ?thesis using b f m i by (simp add: table_image_def Let_def after_filter_def length_stored_block length_footer kBlockTrailerSize_def
     kEncodedLength_def kMaxEncodedLength_def internal_envs)
qed

text \<open>C3. Tables: when entries with increasing internal keys are added to a table builder and \<^verbatim>\<open>Finish\<close> reports no error, whatever
  the outcomes of the system calls, the table that is opened on the bytes of the file, if there are less than 4 GiB, opens
  without error, with or without checks and with or without a Bloom filter, and a lookup gives the first entry that is not before
  the key, or nothing. It gives nothing only if there is no such entry or the entry has another user key.\<close>

theorem table_get:
  assumes "TableBuilder_Finish env (fold (\<lambda>(k, v). TableBuilder_Add env k v) kvs (TableBuilder_init env options file)) = (OK, r)"
    and "env = internal_builder_env (map_option (\<lambda>bits. BloomFilterPolicy bits product) bits_per_key)"
    and "\<forall>bits. bits_per_key = Some bits \<longrightarrow> bits < 2 ^ 31" and "1 \<le> op_restart_interval options"
    and "os_data (pf_os file) @ pf_buf file = []"
    and "\<forall>kv \<in> set kvs. 8 \<le> length (fst kv)" and "8 \<le> length k"
    and "sorted_wrt (\<lambda>a b. InternalKeyComparator_Compare Slice_compare (fst a) (fst b) < 0) kvs"
    and "data = os_data (pf_os (tb_file r)) @ pf_buf (tb_file r)" and "length data < 2 ^ 32"
    and "renv = internal_reader_env (map_option (\<lambda>bits. BloomFilterPolicy bits product) bits_per_key) paranoid_checks
      (Mmap_Read filename strerror data)"
  shows "\<exists>table result. FileSize r = of_nat (length data) \<and>
    Table_Open renv cache_id (FileSize r) = Some (OK, Some table) \<and>
    InternalGet renv (None :: ('c, 'h) BlockCache option) roptions table k c = Some (OK, result, c) \<and>
    (result = first_from (InternalKeyComparator_Compare Slice_compare) k kvs \<or>
     result = None \<and> (\<forall>kv. first_from (InternalKeyComparator_Compare Slice_compare) k kvs = Some kv \<longrightarrow>
       ExtractUserKey k \<noteq> ExtractUserKey (fst kv)))"
proof -
  obtain bs where bs: "concat bs = kvs" "[] \<notin> set bs" "data = table_image env (op_restart_interval options) bs" "FileSize r = of_nat (length data)"
    using internal_writer.build_ok [OF assms(5) assms(1) [unfolded assms(2)]] unfolding assms(2,9) by auto
  have "internal_bytewise.sorted_blocks bs" unfolding internal_bytewise.sorted_blocks_def using bs(1,2) assms(6,8) by auto
  then have T: "internal_tables.table_at filename strerror env renv (map_option (\<lambda>bits. BloomFilterPolicy bits product) bits_per_key)
      (op_restart_interval options) bs data"
    unfolding internal_tables.table_at_def assms(2,11) internal_envs
    using assms(3,4,10) bs(3) [unfolded assms(2)] by (auto intro: BloomFilterPolicy_ok)
  show ?thesis
    using internal_tables.Open_table [OF T] internal_tables.InternalGet_table [OF T, of k roptions _ c] assms(7) bs(1,4) by fastforce
qed

theorem table_get_witness:
  "\<exists>r table. TableBuilder_Finish (internal_builder_env (Some (BloomFilterPolicy 10 6)))
      (fold (\<lambda>(k, v). TableBuilder_Add (internal_builder_env (Some (BloomFilterPolicy 10 6))) k v) [([97, 1, 7, 0, 0, 0, 0, 0, 0], [5, 5])]
        (TableBuilder_init (internal_builder_env (Some (BloomFilterPolicy 10 6)))
          \<lparr>op_comparator = 1, op_block_size = 4096, op_restart_interval = 16, op_compression = kSnappyCompression\<rparr>
          \<lparr>pf_buf = [], pf_os = \<lparr>os_data = [], os_plan = [Errno EINTR, Transferred 3], os_name = ''t'', os_strerror = \<lambda>_. [], os_before = [], os_gap = 0, os_synced = 0, os_history = []\<rparr>\<rparr>)) = (OK, r) \<and>
    Table_Open (internal_reader_env (Some (BloomFilterPolicy 10 6)) True
      (Mmap_Read ''t'' (\<lambda>_. []) (os_data (pf_os (tb_file r)) @ pf_buf (tb_file r)))) 1 (FileSize r) = Some (OK, Some table) \<and>
    InternalGet (internal_reader_env (Some (BloomFilterPolicy 10 6)) True
      (Mmap_Read ''t'' (\<lambda>_. []) (os_data (pf_os (tb_file r)) @ pf_buf (tb_file r)))) (None :: (unit, unit) BlockCache option)
      \<lparr>ro_verify_checksums = True, ro_fill_cache = False\<rparr> table [97, 1, 9, 0, 0, 0, 0, 0, 0] () =
      Some (OK, Some ([97, 1, 7, 0, 0, 0, 0, 0, 0], [5, 5]), ())"
proof -
  let ?p = "Some (BloomFilterPolicy 10 6)" and ?kv = "([97, 1, 7, 0, 0, 0, 0, 0, 0], [5, 5]) :: kv" and ?k = "[97, 1, 9, 0, 0, 0, 0, 0, 0] :: byte list"
  let ?os = "\<lparr>os_data = [], os_plan = [Errno EINTR, Transferred 3], os_name = ''t'', os_strerror = \<lambda>_. [], os_before = [], os_gap = 0, os_synced = 0, os_history = []\<rparr> :: os_file"
  let ?o = "\<lparr>op_comparator = 1, op_block_size = 4096, op_restart_interval = 16, op_compression = kSnappyCompression\<rparr>"
  let ?build = "TableBuilder_Finish (internal_builder_env ?p) (fold (\<lambda>(k, v). TableBuilder_Add (internal_builder_env ?p) k v) [?kv]
        (TableBuilder_init (internal_builder_env ?p) ?o \<lparr>pf_buf = [], pf_os = ?os\<rparr>))"
  have "plan_good (pf_os \<lparr>pf_buf = [], pf_os = ?os\<rparr>)" by (simp add: plan_good_def)
  from internal_reliable_writer.build_succeeds [OF this] obtain r where r: "?build = (OK, r)" by blast
  define data where "data = os_data (pf_os (tb_file r)) @ pf_buf (tb_file r)"
  obtain bs where bs: "concat bs = [?kv]" "[] \<notin> set bs" "data = table_image (internal_builder_env ?p) 16 bs"
    using internal_writer.build_ok [OF _ r] by (auto simp: data_def)
  have "bs = [[?kv]]" using bs(1,2) by (cases bs; cases "tl bs") (auto simp: append_eq_Cons_conv)
  then have small: "length data < 2 ^ 32" using length_single_table [of "fst ?kv" "snd ?kv" 6] bs(3) by simp
  have lt: "\<not> InternalKeyComparator_Compare Slice_compare (fst ?kv) ?k < 0"
    by (simp add: InternalKeyComparator_Compare_def Slice_compare_def ExtractUserKey_def InternalKey_tag_def DecodeFixed64_def Let_def)
  have uk: "ExtractUserKey ?k = ExtractUserKey (fst ?kv)" by (simp add: ExtractUserKey_def)
  obtain table result where t: "Table_Open (internal_reader_env ?p True (Mmap_Read ''t'' (\<lambda>_. []) data)) 1 (FileSize r) = Some (OK, Some table)"
    "InternalGet (internal_reader_env ?p True (Mmap_Read ''t'' (\<lambda>_. []) data)) (None :: (unit, unit) BlockCache option)
      \<lparr>ro_verify_checksums = True, ro_fill_cache = False\<rparr> table ?k () = Some (OK, result, ())"
    "result = first_from (InternalKeyComparator_Compare Slice_compare) ?k [?kv] \<or>
     result = None \<and> (\<forall>kv. first_from (InternalKeyComparator_Compare Slice_compare) ?k [?kv] = Some kv \<longrightarrow> ExtractUserKey ?k \<noteq> ExtractUserKey (fst kv))"
    using table_get [where bits_per_key = "Some 10" and product = 6 and k = ?k and c = "()" and cache_id = 1 and paranoid_checks = True and
        filename = "''t''" and strerror = "\<lambda>_. []" and roptions = "\<lparr>ro_verify_checksums = True, ro_fill_cache = False\<rparr>",
        OF r _ _ _ _ _ _ _ data_def small refl] by auto
  have "result = Some ?kv" using t(3) lt uk by auto
  then show ?thesis using r t(1,2) unfolding data_def by auto
qed
section \<open>Damaged tables\<close>






end
