(* ===== verification/LDB_Skiplist.thy ===== *)
theory LDB_Skiplist
  imports LDB_Coding "HOL-Library.Monad_Syntax"
begin

unbundle bit_operations_syntax

text \<open>
  The skip list of the memory table (\<^verbatim>\<open>db/skiplist.h\<close>) with its random numbers (\<^verbatim>\<open>util/random.h\<close>). Nodes are addressed by
  their position in a list of nodes, which only grows; node 0 is \<^verbatim>\<open>head_\<close>. The operations are options: \<open>None\<close> stands for
  the use of a link that a node does not have or that was not written yet, of a key that is not there, or for a loop
  that does not end.
\<close>

section \<open>Random numbers\<close>

record Random =
  rn_seed :: u32

definition Random_init :: "u32 \<Rightarrow> Random" where
  "Random_init s = (let seed = s AND 0x7FFFFFFF in \<lparr>rn_seed = (if seed = 0 \<or> seed = 2147483647 then 1 else seed)\<rparr>)"

definition Random_Next :: "Random \<Rightarrow> u32 \<times> Random" where
  "Random_Next r =
     (let M = 2147483647;
          product = ucast (rn_seed r) * 16807 :: u64;
          seed1 = ucast (drop_bit 31 product + (product AND ucast M)) :: u32;
          seed2 = (if seed1 > M then seed1 - M else seed1) in
      (seed2, r\<lparr>rn_seed := seed2\<rparr>))"

definition Uniform :: "u32 \<Rightarrow> Random \<Rightarrow> u32 \<times> Random" where
  "Uniform n r = (let (v, r') = Random_Next r in (v mod n, r'))"

definition OneIn :: "u32 \<Rightarrow> Random \<Rightarrow> bool \<times> Random" where
  "OneIn n r = (let (v, r') = Random_Next r in (v mod n = 0, r'))"

definition Skewed :: "u32 \<Rightarrow> Random \<Rightarrow> u32 \<times> Random" where
  "Skewed max_log r = (let (b, r') = Uniform (max_log + 1) r in Uniform (push_bit (unat b) 1) r')"

section \<open>Nodes\<close>

text \<open>\<open>Undef\<close> is a link of a new node that was not stored yet. The key of \<^verbatim>\<open>head_\<close> is a null pointer.\<close>

datatype link = Undef | Null | Ptr nat

record 'k Node =
  nd_key :: "'k option"
  nd_next :: "link list"

record 'k SkipList =
  sl_nodes :: "'k Node list"
  sl_max_height :: nat
  sl_rnd :: Random

definition kMaxHeight :: nat where "kMaxHeight = 12"

definition Node_Next :: "'k SkipList \<Rightarrow> nat \<Rightarrow> nat \<Rightarrow> link option" where
  "Node_Next sl x n =
     (if x < length (sl_nodes sl) \<and> n < length (nd_next (sl_nodes sl ! x))
      then (case nd_next (sl_nodes sl ! x) ! n of Undef \<Rightarrow> None | l \<Rightarrow> Some l)
      else None)"

definition Node_SetNext :: "nat \<Rightarrow> nat \<Rightarrow> link \<Rightarrow> 'k SkipList \<Rightarrow> 'k SkipList option" where
  "Node_SetNext x n l sl =
     (if x < length (sl_nodes sl) \<and> n < length (nd_next (sl_nodes sl ! x))
      then Some (sl\<lparr>sl_nodes := (sl_nodes sl)[x := (sl_nodes sl ! x)\<lparr>nd_next := (nd_next (sl_nodes sl ! x))[n := l]\<rparr>]\<rparr>)
      else None)"

definition node_key :: "'k SkipList \<Rightarrow> nat \<Rightarrow> 'k option" where
  "node_key sl x = (if x < length (sl_nodes sl) then nd_key (sl_nodes sl ! x) else None)"

definition NewNode :: "'k option \<Rightarrow> nat \<Rightarrow> 'k SkipList \<Rightarrow> nat \<times> 'k SkipList" where
  "NewNode key height sl =
     (length (sl_nodes sl), sl\<lparr>sl_nodes := sl_nodes sl @ [\<lparr>nd_key = key, nd_next = replicate height Undef\<rparr>]\<rparr>)"

section \<open>Searching\<close>

definition KeyIsAfterNode :: "('k \<Rightarrow> 'k \<Rightarrow> int) \<Rightarrow> 'k \<Rightarrow> link \<Rightarrow> 'k SkipList \<Rightarrow> bool option" where
  "KeyIsAfterNode cmp key n sl =
     (case n of Ptr y \<Rightarrow> do { k \<leftarrow> node_key sl y; Some (cmp k key < 0) } | _ \<Rightarrow> Some False)"

text \<open>What an iteration of the loop of \<^verbatim>\<open>FindGreaterOrEqual\<close> reads: the link, and whether to follow it.\<close>

definition find_ge_read :: "('k \<Rightarrow> 'k \<Rightarrow> int) \<Rightarrow> 'k \<Rightarrow> nat \<Rightarrow> nat \<Rightarrow> 'k SkipList \<Rightarrow> (link \<times> bool) option" where
  "find_ge_read cmp key x level sl =
     do { next \<leftarrow> Node_Next sl x level; after \<leftarrow> KeyIsAfterNode cmp key next sl; Some (next, after) }"

text \<open>The array \<^verbatim>\<open>prev\<close> may be a null pointer; its entries are not initialized.\<close>

definition set_prev :: "nat \<Rightarrow> nat \<Rightarrow> nat option list option \<Rightarrow> nat option list option option" where
  "set_prev level x prev =
     (case prev of None \<Rightarrow> Some None | Some p \<Rightarrow> if level < length p then Some (Some (p[level := Some x])) else None)"

partial_function (option) find_ge_loop ::
    "('k \<Rightarrow> 'k \<Rightarrow> int) \<Rightarrow> 'k \<Rightarrow> nat option list option \<Rightarrow> nat \<Rightarrow> nat \<Rightarrow> 'k SkipList \<Rightarrow> (link \<times> nat option list option) option" where
  [code]: "find_ge_loop cmp key prev x level sl =
     do {
       (next, after) \<leftarrow> find_ge_read cmp key x level sl;
       if after then (case next of Ptr y \<Rightarrow> find_ge_loop cmp key prev y level sl | _ \<Rightarrow> None)
       else do {
         prev1 \<leftarrow> set_prev level x prev;
         if level = 0 then Some (next, prev1) else find_ge_loop cmp key prev1 x (level - 1) sl
       }
     }"

definition FindGreaterOrEqual ::
    "('k \<Rightarrow> 'k \<Rightarrow> int) \<Rightarrow> 'k \<Rightarrow> nat option list option \<Rightarrow> 'k SkipList \<Rightarrow> (link \<times> nat option list option) option" where
  "FindGreaterOrEqual cmp key prev sl = find_ge_loop cmp key prev 0 (sl_max_height sl - 1) sl"

partial_function (option) find_lt_loop :: "('k \<Rightarrow> 'k \<Rightarrow> int) \<Rightarrow> 'k \<Rightarrow> nat \<Rightarrow> nat \<Rightarrow> 'k SkipList \<Rightarrow> nat option" where
  [code]: "find_lt_loop cmp key x level sl =
     do {
       next \<leftarrow> Node_Next sl x level;
       stop \<leftarrow> (case next of Ptr y \<Rightarrow> do { k \<leftarrow> node_key sl y; Some (cmp k key \<ge> 0) } | _ \<Rightarrow> Some True);
       if stop then if level = 0 then Some x else find_lt_loop cmp key x (level - 1) sl
       else (case next of Ptr y \<Rightarrow> find_lt_loop cmp key y level sl | _ \<Rightarrow> None)
     }"

definition FindLessThan :: "('k \<Rightarrow> 'k \<Rightarrow> int) \<Rightarrow> 'k \<Rightarrow> 'k SkipList \<Rightarrow> nat option" where
  "FindLessThan cmp key sl = find_lt_loop cmp key 0 (sl_max_height sl - 1) sl"

partial_function (option) find_last_loop :: "nat \<Rightarrow> nat \<Rightarrow> 'k SkipList \<Rightarrow> nat option" where
  [code]: "find_last_loop x level sl =
     do {
       next \<leftarrow> Node_Next sl x level;
       (case next of
          Ptr y \<Rightarrow> find_last_loop y level sl
        | _ \<Rightarrow> if level = 0 then Some x else find_last_loop x (level - 1) sl)
     }"

definition FindLast :: "'k SkipList \<Rightarrow> nat option" where
  "FindLast sl = find_last_loop 0 (sl_max_height sl - 1) sl"

section \<open>Construction and insertion\<close>

function random_height_loop :: "nat \<Rightarrow> Random \<Rightarrow> nat \<times> Random" where
  "random_height_loop height rnd =
     (if height < kMaxHeight
      then let (v, rnd1) = Random_Next rnd in if v mod 4 = 0 then random_height_loop (height + 1) rnd1 else (height, rnd1)
      else (height, rnd))"
  by pat_completeness auto
termination by (relation "measure (\<lambda>(height, _). kMaxHeight - height)") auto

declare random_height_loop.simps [simp del]

definition RandomHeight :: "Random \<Rightarrow> nat \<times> Random" where
  "RandomHeight rnd = random_height_loop 1 rnd"

definition SkipList_init :: "'k SkipList" where
  "SkipList_init =
     \<lparr>sl_nodes = [\<lparr>nd_key = None, nd_next = replicate kMaxHeight Null\<rparr>], sl_max_height = 1, sl_rnd = Random_init 0xDEADBEEF\<rparr>"

text \<open>
  \<^verbatim>\<open>Insert\<close> up to the loop that links the new node: the result has the node, the predecessors and the height. The assertion
  that no equal key is in the list is a requirement on the caller.
\<close>

definition Insert_prepare ::
    "('k \<Rightarrow> 'k \<Rightarrow> int) \<Rightarrow> 'k \<Rightarrow> 'k SkipList \<Rightarrow> (nat \<times> nat option list \<times> nat \<times> 'k SkipList) option" where
  "Insert_prepare cmp key sl =
     do {
       (_, filled) \<leftarrow> FindGreaterOrEqual cmp key (Some (replicate kMaxHeight None)) sl;
       prev \<leftarrow> filled;
       let (height, rnd) = RandomHeight (sl_rnd sl);
           sl1 = sl\<lparr>sl_rnd := rnd\<rparr>;
           (prev1, sl2) =
             (if height > sl_max_height sl
              then (fold (\<lambda>i p. p[i := Some 0]) [sl_max_height sl..<height] prev, sl1\<lparr>sl_max_height := height\<rparr>)
              else (prev, sl1));
           (n, sl3) = NewNode (Some key) height sl2
       in Some (n, prev1, height, sl3)
     }"

definition link_store :: "nat \<Rightarrow> nat option list \<Rightarrow> nat \<Rightarrow> 'k SkipList \<Rightarrow> 'k SkipList option" where
  "link_store n prev i sl =
     do { p \<leftarrow> (if i < length prev then prev ! i else None); next \<leftarrow> Node_Next sl p i; Node_SetNext n i next sl }"

definition link_publish :: "nat \<Rightarrow> nat option list \<Rightarrow> nat \<Rightarrow> 'k SkipList \<Rightarrow> 'k SkipList option" where
  "link_publish n prev i sl =
     do { p \<leftarrow> (if i < length prev then prev ! i else None); Node_SetNext p i (Ptr n) sl }"

fun link_levels :: "nat \<Rightarrow> nat option list \<Rightarrow> nat list \<Rightarrow> 'k SkipList \<Rightarrow> 'k SkipList option" where
  "link_levels n prev [] sl = Some sl"
| "link_levels n prev (i # is) sl =
     do { sl1 \<leftarrow> link_store n prev i sl; sl2 \<leftarrow> link_publish n prev i sl1; link_levels n prev is sl2 }"

definition Insert :: "('k \<Rightarrow> 'k \<Rightarrow> int) \<Rightarrow> 'k \<Rightarrow> 'k SkipList \<Rightarrow> 'k SkipList option" where
  "Insert cmp key sl = do { (n, prev, height, sl1) \<leftarrow> Insert_prepare cmp key sl; link_levels n prev [0..<height] sl1 }"

definition Contains :: "('k \<Rightarrow> 'k \<Rightarrow> int) \<Rightarrow> 'k \<Rightarrow> 'k SkipList \<Rightarrow> bool option" where
  "Contains cmp key sl =
     do {
       (x, _) \<leftarrow> FindGreaterOrEqual cmp key None sl;
       (case x of Ptr y \<Rightarrow> do { k \<leftarrow> node_key sl y; Some (cmp key k = 0) } | _ \<Rightarrow> Some False)
     }"

section \<open>Iterators\<close>

text \<open>The state of an iterator is \<^verbatim>\<open>node_\<close>; the list is an argument.\<close>

definition SkipIter_init :: link where "SkipIter_init = Null"

definition SkipIter_Valid :: "link \<Rightarrow> bool" where "SkipIter_Valid node \<longleftrightarrow> node \<noteq> Null"

definition SkipIter_key :: "'k SkipList \<Rightarrow> link \<Rightarrow> 'k option" where
  "SkipIter_key sl node = (case node of Ptr x \<Rightarrow> node_key sl x | _ \<Rightarrow> None)"

definition SkipIter_Next :: "'k SkipList \<Rightarrow> link \<Rightarrow> link option" where
  "SkipIter_Next sl node = (case node of Ptr x \<Rightarrow> Node_Next sl x 0 | _ \<Rightarrow> None)"

definition SkipIter_Prev :: "('k \<Rightarrow> 'k \<Rightarrow> int) \<Rightarrow> 'k SkipList \<Rightarrow> link \<Rightarrow> link option" where
  "SkipIter_Prev cmp sl node =
     do { k \<leftarrow> SkipIter_key sl node; x \<leftarrow> FindLessThan cmp k sl; Some (if x = 0 then Null else Ptr x) }"

definition SkipIter_Seek :: "('k \<Rightarrow> 'k \<Rightarrow> int) \<Rightarrow> 'k SkipList \<Rightarrow> 'k \<Rightarrow> link option" where
  "SkipIter_Seek cmp sl target = do { (x, _) \<leftarrow> FindGreaterOrEqual cmp target None sl; Some x }"

definition SkipIter_SeekToFirst :: "'k SkipList \<Rightarrow> link option" where
  "SkipIter_SeekToFirst sl = Node_Next sl 0 0"

definition SkipIter_SeekToLast :: "'k SkipList \<Rightarrow> link option" where
  "SkipIter_SeekToLast sl = do { x \<leftarrow> FindLast sl; Some (if x = 0 then Null else Ptr x) }"

section \<open>Concurrent readers\<close>

text \<open>
  Writers are synchronized by the caller, readers are not: between any two steps of \<^verbatim>\<open>Insert\<close> that other threads can see, a
  reader may take steps. The writer is in the loop of \<^verbatim>\<open>Insert\<close> before one of the two stores of level \<open>i\<close>; the store of
  \<^verbatim>\<open>max_height_\<close> and the creation of the node, which no reader can reach yet, are one step. The reader is in
  \<^verbatim>\<open>FindGreaterOrEqual\<close>; each iteration of its loop loads one link. Loads and stores take effect in one order; for the links
  the release stores and acquire loads of the code give what the proofs use of it.
\<close>

datatype 'k writer = W_idle | W_store 'k nat "nat option list" nat nat | W_publish 'k nat "nat option list" nat nat

datatype 'k reader = R_idle | R_search 'k nat nat | R_found 'k link

inductive skip_step :: "('k \<Rightarrow> 'k \<Rightarrow> int) \<Rightarrow> ('k \<Rightarrow> bool) \<Rightarrow> 'k SkipList \<times> 'k writer \<times> 'k reader \<Rightarrow>
    'k SkipList \<times> 'k writer \<times> 'k reader \<Rightarrow> bool" for cmp ok where
  insert_start: "ok key \<Longrightarrow> Contains cmp key sl = Some False \<Longrightarrow> Insert_prepare cmp key sl = Some (n, prev, h, sl') \<Longrightarrow>
    skip_step cmp ok (sl, W_idle, r) (sl', W_store key n prev h 0, r)"
| insert_store: "i < h \<Longrightarrow> link_store n prev i sl = Some sl' \<Longrightarrow>
    skip_step cmp ok (sl, W_store key n prev h i, r) (sl', W_publish key n prev h i, r)"
| insert_publish: "link_publish n prev i sl = Some sl' \<Longrightarrow>
    skip_step cmp ok (sl, W_publish key n prev h i, r) (sl', W_store key n prev h (i + 1), r)"
| insert_end: "skip_step cmp ok (sl, W_store key n prev h h, r) (sl, W_idle, r)"
| seek_start: "ok t \<Longrightarrow> skip_step cmp ok (sl, w, R_idle) (sl, w, R_search t 0 (sl_max_height sl - 1))"
| seek_right: "find_ge_read cmp t x level sl = Some (Ptr y, True) \<Longrightarrow>
    skip_step cmp ok (sl, w, R_search t x level) (sl, w, R_search t y level)"
| seek_down: "find_ge_read cmp t x level sl = Some (next, False) \<Longrightarrow> level \<noteq> 0 \<Longrightarrow>
    skip_step cmp ok (sl, w, R_search t x level) (sl, w, R_search t x (level - 1))"
| seek_end: "find_ge_read cmp t x 0 sl = Some (next, False) \<Longrightarrow> skip_step cmp ok (sl, w, R_search t x 0) (sl, w, R_found t next)"
| seek_again: "skip_step cmp ok (sl, w, R_found t l) (sl, w, R_idle)"

inductive skip_reach :: "('k \<Rightarrow> 'k \<Rightarrow> int) \<Rightarrow> ('k \<Rightarrow> bool) \<Rightarrow> 'k SkipList \<times> 'k writer \<times> 'k reader \<Rightarrow> bool" for cmp ok where
  start: "skip_reach cmp ok (SkipList_init, W_idle, R_idle)"
| step: "skip_reach cmp ok s \<Longrightarrow> skip_step cmp ok s s' \<Longrightarrow> skip_reach cmp ok s'"

end
