(* ===== verification/LDB_Skiplist_Spec.thy ===== *)
theory LDB_Skiplist_Spec
  imports LDB_Skiplist
begin

unbundle bit_operations_syntax

text \<open>
  Correctness of the skip list, over any comparator that is a total preorder on the keys in use (the locale \<open>key_order\<close>).
  The invariant describes a list by the sequences of nodes of its levels; the sequence of level 0 is its contents.
\<close>

section \<open>Random numbers\<close>

lemma Random_Next_exact:
  assumes "1 \<le> unat (rn_seed r)" "unat (rn_seed r) < 2147483647"
  shows "unat (fst (Random_Next r)) = unat (rn_seed r) * 16807 mod 2147483647"
    and "snd (Random_Next r) = \<lparr>rn_seed = fst (Random_Next r)\<rparr>"
    and "1 \<le> unat (fst (Random_Next r))" "unat (fst (Random_Next r)) < 2147483647"
proof -
  let ?s = "unat (rn_seed r)" and ?M = "2147483647 :: nat"
  let ?p = "ucast (rn_seed r) * 16807 :: u64"
  have p: "unat ?p = ?s * 16807"
  proof -
    have "?s * 16807 < 2 ^ 64" using assms(2) by simp
    moreover have "unat (ucast (rn_seed r) :: u64) = ?s"
      using unsigned_less [of "rn_seed r", where 'a = nat] by (simp add: unsigned_ucast_eq take_bit_nat_eq_self)
    ultimately show ?thesis by (simp add: unat_word_ariths)
  qed
  let ?q = "?s * 16807 div 2 ^ 31" and ?r = "?s * 16807 mod 2 ^ 31"
  have hi: "unat (drop_bit 31 ?p) = ?q" by (simp only: unat_drop_bit_div p)
  have lo: "unat (?p AND 2147483647) = ?r"
  proof -
    have "(2147483647 :: u64) = mask 31" by (simp add: mask_eq_exp_minus_1)
    then have "?p AND 2147483647 = take_bit 31 ?p" by (simp add: take_bit_eq_mask)
    then show ?thesis by (simp only: unsigned_take_bit_eq p take_bit_eq_mod [of 31 "?s * 16807"])
  qed
  have q: "?q < 16807" using assms(2) by simp
  have sum: "unat (drop_bit 31 ?p + (?p AND 2147483647)) = ?q + ?r"
    using hi lo q by (simp add: unat_word_ariths)
  let ?s1 = "ucast (drop_bit 31 ?p + (?p AND 2147483647)) :: u32"
  have "?q + ?r < 2 ^ 32" using q by simp
  then have s1: "unat ?s1 = ?q + ?r"
    unfolding unsigned_ucast_eq sum by (simp add: take_bit_nat_eq_self)
  have cong: "(?q + ?r) mod ?M = ?s * 16807 mod ?M"
  proof -
    have "?s * 16807 = ?q * ?M + (?q + ?r)" by simp
    then show ?thesis by (metis mod_mult_self3)
  qed
  have nz: "?s * 16807 mod ?M \<noteq> 0"
  proof
    assume "?s * 16807 mod ?M = 0"
    then have "?M dvd ?s * 16807" by presburger
    moreover have "coprime ?M 16807" by (simp add: coprime_iff_gcd_eq_1 gcd_non_0_nat)
    ultimately have "?M dvd ?s" by (simp add: coprime_dvd_mult_left_iff)
    then show False using assms by (auto dest: dvd_imp_le)
  qed
  have next1: "fst (Random_Next r) = (if ?s1 > 2147483647 then ?s1 - 2147483647 else ?s1)"
    by (simp add: Random_Next_def Let_def)
  show res: "unat (fst (Random_Next r)) = ?s * 16807 mod ?M"
  proof (cases "?s1 > 2147483647")
    case True
    then have gt: "?q + ?r > ?M" unfolding word_less_nat_alt s1 by simp
    have "unat (?s1 - 2147483647) = ?q + ?r - ?M"
      using True by (simp add: unat_sub_if' word_less_nat_alt s1)
    moreover have "?q + ?r - ?M < ?M" using q by simp
    moreover have "(?q + ?r) mod ?M = (?q + ?r - ?M) mod ?M" by (rule le_mod_geq) (use gt in simp)
    ultimately show ?thesis using True next1 cong by simp
  next
    case False
    then have "?q + ?r \<le> ?M" unfolding word_less_nat_alt s1 by simp
    moreover have "?q + ?r \<noteq> ?M" using nz cong by auto
    ultimately show ?thesis using False next1 cong s1 by simp
  qed
  show "1 \<le> unat (fst (Random_Next r))" "unat (fst (Random_Next r)) < ?M" using res nz by simp_all
  show "snd (Random_Next r) = \<lparr>rn_seed = fst (Random_Next r)\<rparr>" by (simp add: Random_Next_def Let_def)
qed

lemma random_height_bounds:
  "1 \<le> h \<Longrightarrow> h \<le> kMaxHeight \<Longrightarrow> fst (random_height_loop h rnd) \<in> {1..kMaxHeight}"
proof (induction h rnd rule: random_height_loop.induct)
  case (1 h rnd)
  then show ?case by (subst random_height_loop.simps) (auto split: prod.splits)
qed

lemma RandomHeight_bounds: "1 \<le> fst (RandomHeight rnd)" "fst (RandomHeight rnd) \<le> kMaxHeight"
  using random_height_bounds [of 1 rnd] by (simp_all add: RandomHeight_def kMaxHeight_def)

section \<open>Levels\<close>

definition lk :: "nat list \<Rightarrow> nat \<Rightarrow> link" where
  "lk ys i = (if i < length ys then Ptr (ys ! i) else Null)"

lemma lk_defined: "lk ys i \<noteq> Undef"
  by (simp add: lk_def)

definition chain :: "'k SkipList \<Rightarrow> nat \<Rightarrow> nat list \<Rightarrow> bool" where
  "chain sl l ys \<longleftrightarrow> (\<forall>i \<le> length ys. Node_Next sl ((0 # ys) ! i) l = Some (lk ys i))"

abbreviation K :: "'k SkipList \<Rightarrow> nat \<Rightarrow> 'k" where
  "K sl x \<equiv> the (node_key sl x)"

abbreviation node_height :: "'k SkipList \<Rightarrow> nat \<Rightarrow> nat" where
  "node_height sl x \<equiv> length (nd_next (sl_nodes sl ! x))"

lemma SetNext_effect:
  assumes "x < length (sl_nodes sl)" "j < node_height sl x" "l \<noteq> Undef"
  shows "\<exists>sl'. Node_SetNext x j l sl = Some sl' \<and> node_key sl' = node_key sl \<and> sl_max_height sl' = sl_max_height sl \<and>
    length (sl_nodes sl') = length (sl_nodes sl) \<and> (\<forall>y. node_height sl' y = node_height sl y) \<and>
    (\<forall>y m. Node_Next sl' y m = (if y = x \<and> m = j then Some l else Node_Next sl y m))"
  using assms unfolding Node_SetNext_def
  by (auto simp: node_key_def Node_Next_def nth_list_update fun_eq_iff split: link.splits)

lemma Node_Next_inside: "Node_Next sl x n = Some l \<Longrightarrow> x < length (sl_nodes sl) \<and> n < node_height sl x \<and> l \<noteq> Undef"
  by (auto simp: Node_Next_def split: if_splits link.splits)

definition ins :: "nat \<Rightarrow> nat \<Rightarrow> nat list \<Rightarrow> nat list" where
  "ins n c ys = take c ys @ n # drop c ys"

lemma ins_nth:
  assumes "c \<le> length ys"
  shows "length (ins n c ys) = Suc (length ys)" "j < c \<Longrightarrow> ins n c ys ! j = ys ! j" "ins n c ys ! c = n"
    "c \<le> j \<Longrightarrow> ins n c ys ! Suc j = ys ! j"
  using assms by (simp_all add: ins_def nth_append Suc_diff_le)

lemma chain_insert:
  assumes ch: "chain sl l ys" and d: "distinct (0 # ys)" "n \<notin> set (0 # ys)" and c: "c \<le> length ys"
    and next_n: "Node_Next sl n l = Some (lk ys c)"
    and upd: "\<And>y m. Node_Next sl' y m = (if y = (0 # ys) ! c \<and> m = l then Some (Ptr n) else Node_Next sl y m)"
  shows "chain sl' l (ins n c ys)"
  unfolding chain_def
proof (intro allI impI)
  fix j assume "j \<le> length (ins n c ys)"
  then have j: "j \<le> Suc (length ys)" by (simp add: ins_nth c)
  have same: "Node_Next sl' ((0 # ys) ! i) l = Some (lk ys i)" if "i \<noteq> c" "i \<le> length ys" for i
  proof -
    have "(0 # ys) ! i \<noteq> (0 # ys) ! c" using d(1) c that nth_eq_iff_index_eq [of "0 # ys" i c] by simp
    then show ?thesis unfolding upd using ch that(2) by (simp add: chain_def)
  qed
  have cases4: "j < c \<or> j = c \<or> j = Suc c \<or> (Suc c < j \<and> j - 1 \<le> length ys)" using j by linarith
  show "Node_Next sl' ((0 # ins n c ys) ! j) l = Some (lk (ins n c ys) j)"
    using cases4
  proof (elim disjE)
    assume 1: "j < c"
    then have "(0 # ins n c ys) ! j = (0 # ys) ! j" by (cases j) (simp_all add: ins_nth c)
    moreover have "lk (ins n c ys) j = lk ys j" using 1 c by (simp add: lk_def ins_nth)
    ultimately show ?thesis using same [of j] 1 c by simp
  next
    assume 2: "j = c"
    have "(0 # ins n c ys) ! c = (0 # ys) ! c" using c by (cases c) (simp_all add: ins_nth)
    moreover have "lk (ins n c ys) c = Ptr n" using c by (simp add: lk_def ins_nth)
    ultimately show ?thesis unfolding 2 upd by simp
  next
    assume 3: "j = Suc c"
    have "(0 # ins n c ys) ! Suc c = n" "lk (ins n c ys) (Suc c) = lk ys c" using c by (simp_all add: lk_def ins_nth)
    moreover have "n \<noteq> (0 # ys) ! c" using d(2) c nth_mem [of c "0 # ys"] by (metis le_imp_less_Suc length_Cons)
    ultimately show ?thesis unfolding 3 upd using next_n by simp
  next
    assume 4: "Suc c < j \<and> j - 1 \<le> length ys"
    then obtain i where i: "j = Suc (Suc i)" "c \<le> i" "Suc i \<le> length ys" by (metis Suc_le_D Suc_le_mono diff_Suc_1 less_eq_Suc_le)
    have "(0 # ins n c ys) ! j = (0 # ys) ! Suc i" "lk (ins n c ys) j = lk ys (Suc i)"
      using i c by (simp_all add: lk_def ins_nth)
    then show ?thesis using same [of "Suc i"] i by simp
  qed
qed

lemma chain_frame:
  assumes "chain sl l ys" and "\<And>y. y \<in> set (0 # ys) \<Longrightarrow> Node_Next sl' y l = Node_Next sl y l"
  shows "chain sl' l ys"
  unfolding chain_def using assms(1) assms(2) [OF nth_mem] by (simp add: chain_def less_Suc_eq_le)

text \<open>Clients walk over the list with \<^verbatim>\<open>Next\<close> or \<^verbatim>\<open>Prev\<close> while the iterator is valid.\<close>

partial_function (option) skip_walk :: "(link \<Rightarrow> link option) \<Rightarrow> 'k SkipList \<Rightarrow> link \<Rightarrow> 'k list option" where
  [code]: "skip_walk move sl node =
     (if SkipIter_Valid node then
        do { k \<leftarrow> SkipIter_key sl node; node' \<leftarrow> move node; ks \<leftarrow> skip_walk move sl node'; Some (k # ks) }
      else Some [])"

text \<open>A total preorder on the keys that are used.\<close>

locale key_order =
  fixes ok :: "'k \<Rightarrow> bool"
    and cmp :: "'k \<Rightarrow> 'k \<Rightarrow> int"
  assumes flip: "ok a \<Longrightarrow> ok b \<Longrightarrow> 0 < cmp b a \<longleftrightarrow> cmp a b < 0"
    and trans: "ok a \<Longrightarrow> ok b \<Longrightarrow> ok c \<Longrightarrow> cmp a b \<le> 0 \<Longrightarrow> cmp b c \<le> 0 \<Longrightarrow> cmp a c \<le> 0"
begin

lemma not_less: "ok a \<Longrightarrow> ok b \<Longrightarrow> cmp a b \<le> 0 \<longleftrightarrow> \<not> cmp b a < 0"
  using flip [of b a] by auto

lemma eq_sym: "ok a \<Longrightarrow> ok b \<Longrightarrow> cmp a b = 0 \<longleftrightarrow> cmp b a = 0"
  using flip [of b a] flip [of a b] by linarith

lemma le_less_trans: "ok a \<Longrightarrow> ok b \<Longrightarrow> ok c \<Longrightarrow> cmp a b \<le> 0 \<Longrightarrow> cmp b c < 0 \<Longrightarrow> cmp a c < 0"
  by (metis not_less trans less_imp_le)

lemma less_le_trans: "ok a \<Longrightarrow> ok b \<Longrightarrow> ok c \<Longrightarrow> cmp a b < 0 \<Longrightarrow> cmp b c \<le> 0 \<Longrightarrow> cmp a c < 0"
  by (metis not_less trans less_imp_le)

definition sorted_keys :: "'k list \<Rightarrow> bool" where
  "sorted_keys ks \<longleftrightarrow> (\<forall>k \<in> set ks. ok k) \<and> sorted_wrt (\<lambda>a b. cmp a b < 0) ks"

text \<open>The number of keys in front of a target, and what it separates.\<close>

definition below :: "'k \<Rightarrow> 'k list \<Rightarrow> nat" where
  "below t ks = length (takeWhile (\<lambda>k. cmp k t < 0) ks)"

lemma below_le: "below t ks \<le> length ks"
  by (simp add: below_def length_takeWhile_le)

lemma below_iff:
  assumes "sorted_keys ks" "ok t" "i < length ks"
  shows "cmp (ks ! i) t < 0 \<longleftrightarrow> i < below t ks"
proof
  assume "i < below t ks"
  then have "i < length (takeWhile (\<lambda>k. cmp k t < 0) ks)" by (simp only: below_def)
  from nth_mem [OF this] takeWhile_nth [OF this] show "cmp (ks ! i) t < 0" by (auto dest: set_takeWhileD)
next
  assume lt: "cmp (ks ! i) t < 0"
  show "i < below t ks"
  proof (rule ccontr)
    assume "\<not> i < below t ks"
    then have m: "below t ks \<le> i" "below t ks < length ks" using assms(3) by simp_all
    then have "\<not> cmp (ks ! below t ks) t < 0" using nth_length_takeWhile [of "\<lambda>k. cmp k t < 0" ks] by (simp add: below_def)
    moreover have "cmp (ks ! below t ks) (ks ! i) \<le> 0"
    proof (cases "below t ks = i")
      case True
      then show ?thesis using lt \<open>\<not> cmp (ks ! below t ks) t < 0\<close> by simp
    next
      case False
      then have "cmp (ks ! below t ks) (ks ! i) < 0"
        using m(1) assms(1,3) sorted_wrt_nth_less [of "\<lambda>a b. cmp a b < 0" ks "below t ks" i] by (simp add: sorted_keys_def)
      then show ?thesis by simp
    qed
    ultimately show False
      using le_less_trans [of "ks ! below t ks" "ks ! i" t] lt m assms by (simp add: sorted_keys_def)
  qed
qed

lemma take_below: "take (below t ks) ks = takeWhile (\<lambda>k. cmp k t < 0) ks"
  unfolding below_def by (rule takeWhile_eq_take [symmetric])

lemma drop_below: "drop (below t ks) ks = dropWhile (\<lambda>k. cmp k t < 0) ks"
  unfolding below_def by (rule dropWhile_eq_drop [symmetric])

text \<open>The invariant; \<open>L l\<close> are the nodes of level \<open>l\<close> without the head.\<close>

definition skip_inv :: "'k SkipList \<Rightarrow> (nat \<Rightarrow> nat list) \<Rightarrow> bool" where
  "skip_inv sl L \<longleftrightarrow> 1 \<le> sl_max_height sl \<and> sl_max_height sl \<le> kMaxHeight \<and> node_key sl 0 = None \<and>
     (\<forall>l < kMaxHeight. chain sl l (L l) \<and> (\<forall>x \<in> set (L l). node_key sl x \<noteq> None) \<and> sorted_keys (map (K sl) (L l)) \<and>
       set (L (Suc l)) \<subseteq> set (L l) \<and> (sl_max_height sl \<le> l \<longrightarrow> L l = []))"

lemma skip_invD:
  assumes "skip_inv sl L" "l < kMaxHeight"
  shows "chain sl l (L l)" "x \<in> set (L l) \<Longrightarrow> \<exists>k. node_key sl x = Some k" "sorted_keys (map (K sl) (L l))"
    "set (L (Suc l)) \<subseteq> set (L l)" "sl_max_height sl \<le> l \<Longrightarrow> L l = []" "0 \<notin> set (L l)"
  using assms unfolding skip_inv_def by (fastforce dest: spec [of _ l])+

definition cut :: "'k SkipList \<Rightarrow> 'k \<Rightarrow> nat list \<Rightarrow> nat" where
  "cut sl t ys = below t (map (K sl) ys)"

lemma cut_le: "cut sl t ys \<le> length ys"
  using below_le [of t "map (K sl) ys"] by (simp add: cut_def)

text \<open>A search stands at a node that is in front of the target.\<close>

definition stands :: "'k SkipList \<Rightarrow> (nat \<Rightarrow> nat list) \<Rightarrow> 'k \<Rightarrow> nat \<Rightarrow> nat \<Rightarrow> bool" where
  "stands sl L t x level \<longleftrightarrow> x = 0 \<or> x \<in> set (L level) \<and> cmp (K sl x) t < 0"

lemma stands_index:
  assumes "skip_inv sl L" "level < kMaxHeight" "ok t" "stands sl L t x level"
  shows "\<exists>i \<le> cut sl t (L level). x = (0 # L level) ! i"
proof (cases "x = 0")
  case True
  then show ?thesis by (intro exI [of _ 0]) simp
next
  case False
  then obtain i where i: "i < length (L level)" "L level ! i = x" "cmp (K sl x) t < 0"
    using assms(4) by (auto simp: stands_def in_set_conv_nth)
  then have "i < cut sl t (L level)"
    using below_iff [OF skip_invD(3) [OF assms(1,2)] assms(3), of i] by (simp add: cut_def)
  then show ?thesis using i by (intro exI [of _ "Suc i"]) simp
qed

lemma stands_down:
  "skip_inv sl L \<Longrightarrow> Suc level < kMaxHeight \<Longrightarrow> stands sl L t x (Suc level) \<Longrightarrow> stands sl L t x level"
  using skip_invD(4) [of sl L level] by (auto simp: stands_def)

lemma find_ge_read_image:
  assumes "skip_inv sl L" "level < kMaxHeight" "ok t" "i \<le> cut sl t (L level)" "x = (0 # L level) ! i"
  shows "find_ge_read cmp t x level sl = Some (lk (L level) i, i < cut sl t (L level))"
proof -
  have i: "i \<le> length (L level)" using assms(4) cut_le [of sl t "L level"] by simp
  then have "Node_Next sl x level = Some (lk (L level) i)"
    using skip_invD(1) [OF assms(1,2)] assms(5) by (simp add: chain_def)
  moreover have "KeyIsAfterNode cmp t (lk (L level) i) sl = Some (i < cut sl t (L level))"
  proof (cases "i < length (L level)")
    case True
    obtain k where "node_key sl (L level ! i) = Some k" using skip_invD(2) [OF assms(1,2) nth_mem [OF True]] by blast
    then show ?thesis using True below_iff [OF skip_invD(3) [OF assms(1,2)] assms(3), of i]
      by (simp add: lk_def KeyIsAfterNode_def cut_def)
  next
    case False
    then show ?thesis using i cut_le [of sl t "L level"] by (simp add: lk_def KeyIsAfterNode_def)
  qed
  ultimately show ?thesis by (simp add: find_ge_read_def)
qed

lemma stands_at:
  assumes "skip_inv sl L" "level < kMaxHeight" "ok t" "i \<le> cut sl t (L level)"
  shows "stands sl L t ((0 # L level) ! i) level"
proof (cases i)
  case (Suc j)
  then have j: "j < cut sl t (L level)" "j < length (L level)" using assms(4) cut_le [of sl t "L level"] by simp_all
  then show ?thesis using below_iff [OF skip_invD(3) [OF assms(1,2)] assms(3), of j] Suc by (simp add: stands_def cut_def)
qed (simp add: stands_def)

text \<open>The array of predecessors that a search fills in, from a level down.\<close>

definition pred_at :: "'k SkipList \<Rightarrow> (nat \<Rightarrow> nat list) \<Rightarrow> 'k \<Rightarrow> nat \<Rightarrow> nat" where
  "pred_at sl L t l = (0 # L l) ! cut sl t (L l)"

definition fill_prev :: "'k SkipList \<Rightarrow> (nat \<Rightarrow> nat list) \<Rightarrow> 'k \<Rightarrow> nat \<Rightarrow> nat option list \<Rightarrow> nat option list" where
  "fill_prev sl L t level p = map (\<lambda>l. if l \<le> level then Some (pred_at sl L t l) else p ! l) [0..<length p]"

lemma find_ge_right:
  assumes inv: "skip_inv sl L" and "ok t" and "level < kMaxHeight" and "i \<le> cut sl t (L level)"
  shows "find_ge_loop cmp t prev ((0 # L level) ! i) level sl = find_ge_loop cmp t prev (pred_at sl L t level) level sl"
  using assms(4)
proof (induction "cut sl t (L level) - i" arbitrary: i)
  case (Suc d)
  then have i: "i < cut sl t (L level)" "i < length (L level)" using cut_le [of sl t "L level"] by simp_all
  have "find_ge_loop cmp t prev ((0 # L level) ! i) level sl = find_ge_loop cmp t prev ((0 # L level) ! Suc i) level sl"
    using find_ge_read_image [OF inv assms(3,2) Suc.prems refl] i by (subst find_ge_loop.simps) (simp add: lk_def)
  also have "\<dots> = find_ge_loop cmp t prev (pred_at sl L t level) level sl" using Suc i by (intro Suc.hyps(1)) simp_all
  finally show ?case .
qed (simp add: pred_at_def)

lemma find_ge_down:
  assumes inv: "skip_inv sl L" and "ok t" and "level < kMaxHeight" and "\<forall>p. prev = Some p \<longrightarrow> length p = kMaxHeight"
  shows "find_ge_loop cmp t prev (pred_at sl L t level) level sl =
    (let prev1 = map_option (\<lambda>p. p[level := Some (pred_at sl L t level)]) prev in
     if level = 0 then Some (lk (L 0) (cut sl t (L 0)), prev1) else find_ge_loop cmp t prev1 (pred_at sl L t level) (level - 1) sl)"
  using find_ge_read_image [OF inv assms(3,2) order_refl, folded pred_at_def, OF refl] assms(3,4)
  by (subst find_ge_loop.simps) (auto simp: set_prev_def split: option.splits)

lemma fill_prev_step: "level < length p \<Longrightarrow>
  fill_prev sl L t level (p[Suc level := Some (pred_at sl L t (Suc level))]) = fill_prev sl L t (Suc level) p"
  by (rule nth_equalityI) (auto simp: fill_prev_def nth_list_update le_Suc_eq)

lemma fill_prev_0: "fill_prev sl L t 0 p = p[0 := Some (pred_at sl L t 0)]"
  by (rule nth_equalityI) (auto simp: fill_prev_def nth_list_update)

lemma find_ge_loop_image:
  assumes inv: "skip_inv sl L" and "ok t" and "level < kMaxHeight" and "stands sl L t x level"
    and "\<forall>p. prev = Some p \<longrightarrow> length p = kMaxHeight"
  shows "find_ge_loop cmp t prev x level sl = Some (lk (L 0) (cut sl t (L 0)), map_option (fill_prev sl L t level) prev)"
  using assms(3-5)
proof (induction level arbitrary: x prev)
  case 0
  obtain i where i: "i \<le> cut sl t (L 0)" "x = (0 # L 0) ! i"
    using stands_index [OF inv "0.prems"(1) assms(2) "0.prems"(2)] by blast
  show ?case
    unfolding i(2) find_ge_right [OF inv assms(2) "0.prems"(1) i(1)] find_ge_down [OF inv assms(2) "0.prems"(1,3)]
    by (simp add: fill_prev_0 [abs_def])
next
  case (Suc level)
  obtain i where i: "i \<le> cut sl t (L (Suc level))" "x = (0 # L (Suc level)) ! i"
    using stands_index [OF inv Suc.prems(1) assms(2) Suc.prems(2)] by blast
  let ?prev = "map_option (\<lambda>p. p[Suc level := Some (pred_at sl L t (Suc level))]) prev"
  have "stands sl L t (pred_at sl L t (Suc level)) level"
    using stands_at [OF inv Suc.prems(1) assms(2) order_refl] stands_down [OF inv Suc.prems(1)] by (simp add: pred_at_def)
  then have "find_ge_loop cmp t ?prev (pred_at sl L t (Suc level)) level sl =
      Some (lk (L 0) (cut sl t (L 0)), map_option (fill_prev sl L t level) ?prev)"
    using Suc.prems by (intro Suc.IH) auto
  moreover have "map_option (fill_prev sl L t level) ?prev = map_option (fill_prev sl L t (Suc level)) prev"
    using Suc.prems by (cases prev) (simp_all add: fill_prev_step)
  ultimately show ?case
    unfolding i(2) find_ge_right [OF inv assms(2) Suc.prems(1) i(1)] find_ge_down [OF inv assms(2) Suc.prems(1,3)] by simp
qed

lemma max_height:
  assumes "skip_inv sl L"
  shows "sl_max_height sl - 1 < kMaxHeight" "stands sl L t 0 l" "1 \<le> sl_max_height sl"
  using assms by (auto simp: skip_inv_def stands_def)

lemma FindGreaterOrEqual_image:
  assumes "skip_inv sl L" "ok t" "\<forall>p. prev = Some p \<longrightarrow> length p = kMaxHeight"
  shows "FindGreaterOrEqual cmp t prev sl =
    Some (lk (L 0) (cut sl t (L 0)), map_option (fill_prev sl L t (sl_max_height sl - 1)) prev)"
  unfolding FindGreaterOrEqual_def
  by (rule find_ge_loop_image [OF assms(1,2) max_height(1) [OF assms(1)] max_height(2) [OF assms(1)] assms(3)])

lemma find_lt_read:
  assumes inv: "skip_inv sl L" and "ok t" and "level < kMaxHeight" and "i \<le> cut sl t (L level)"
  shows "find_lt_loop cmp t ((0 # L level) ! i) level sl =
    (if i < cut sl t (L level) then find_lt_loop cmp t ((0 # L level) ! Suc i) level sl
     else if level = 0 then Some ((0 # L 0) ! i) else find_lt_loop cmp t ((0 # L level) ! i) (level - 1) sl)"
proof -
  have "Node_Next sl ((0 # L level) ! i) level = Some (lk (L level) i)"
    "KeyIsAfterNode cmp t (lk (L level) i) sl = Some (i < cut sl t (L level))"
    using find_ge_read_image [OF inv assms(3,2,4) refl] by (auto simp: find_ge_read_def split: Option.bind_splits)
  moreover have "i < length (L level)" if "i < cut sl t (L level)" using that cut_le [of sl t "L level"] by simp
  ultimately show ?thesis
    by (subst find_lt_loop.simps) (auto simp: KeyIsAfterNode_def lk_def split: Option.bind_splits if_splits)
qed

lemma find_lt_right:
  assumes inv: "skip_inv sl L" and "ok t" and "level < kMaxHeight" and "i \<le> cut sl t (L level)"
  shows "find_lt_loop cmp t ((0 # L level) ! i) level sl = find_lt_loop cmp t (pred_at sl L t level) level sl"
  using assms(4)
proof (induction "cut sl t (L level) - i" arbitrary: i)
  case (Suc d)
  then have i: "i < cut sl t (L level)" by simp
  have "find_lt_loop cmp t ((0 # L level) ! i) level sl = find_lt_loop cmp t ((0 # L level) ! Suc i) level sl"
    unfolding find_lt_read [OF inv assms(2,3) Suc.prems] using i by simp
  also have "\<dots> = find_lt_loop cmp t (pred_at sl L t level) level sl" using Suc i by (intro Suc.hyps(1)) simp_all
  finally show ?case .
qed (simp add: pred_at_def)

lemma find_lt_down:
  assumes inv: "skip_inv sl L" and "ok t" and "level < kMaxHeight"
  shows "find_lt_loop cmp t (pred_at sl L t level) level sl =
    (if level = 0 then Some (pred_at sl L t 0) else find_lt_loop cmp t (pred_at sl L t level) (level - 1) sl)"
  using find_lt_read [OF assms order_refl] by (simp add: pred_at_def)

lemma find_lt_image:
  assumes inv: "skip_inv sl L" and "ok t" and "level < kMaxHeight" and "stands sl L t x level"
  shows "find_lt_loop cmp t x level sl = Some (pred_at sl L t 0)"
  using assms(3,4)
proof (induction level arbitrary: x)
  case (Suc level)
  obtain i where "i \<le> cut sl t (L (Suc level))" "x = (0 # L (Suc level)) ! i"
    using stands_index [OF inv Suc.prems(1) assms(2) Suc.prems(2)] by blast
  moreover have "stands sl L t (pred_at sl L t (Suc level)) level"
    using stands_at [OF inv Suc.prems(1) assms(2) order_refl] stands_down [OF inv Suc.prems(1)] by (simp add: pred_at_def)
  ultimately show ?case
    using find_lt_right [OF inv assms(2) Suc.prems(1)] find_lt_down [OF inv assms(2) Suc.prems(1)] Suc.IH Suc.prems(1) by simp
next
  case 0
  obtain i where "i \<le> cut sl t (L 0)" "x = (0 # L 0) ! i"
    using stands_index [OF inv "0.prems"(1) assms(2) "0.prems"(2)] by blast
  then show ?case using find_lt_right [OF inv assms(2) "0.prems"(1)] find_lt_down [OF inv assms(2) "0.prems"(1)] by simp
qed

lemma FindLessThan_image:
  assumes "skip_inv sl L" "ok t"
  shows "FindLessThan cmp t sl = Some (pred_at sl L t 0)"
  unfolding FindLessThan_def by (rule find_lt_image [OF assms max_height(1) [OF assms(1)] max_height(2) [OF assms(1)]])

lemma find_last_right:
  assumes inv: "skip_inv sl L" and "level < kMaxHeight" and "i \<le> length (L level)"
  shows "find_last_loop ((0 # L level) ! i) level sl =
    (if level = 0 then Some (last (0 # L 0)) else find_last_loop (last (0 # L level)) (level - 1) sl)"
  using assms(3)
proof (induction "length (L level) - i" arbitrary: i)
  case 0
  then have "i = length (L level)" by simp
  moreover have "Node_Next sl ((0 # L level) ! length (L level)) level = Some Null"
    using skip_invD(1) [OF inv assms(2)] by (simp add: chain_def lk_def)
  moreover have "(0 # L level) ! length (L level) = last (0 # L level)" by (cases "L level") (simp_all add: last_conv_nth)
  ultimately show ?case by (subst find_last_loop.simps) auto
next
  case (Suc d)
  then have i: "i < length (L level)" by simp
  then have "Node_Next sl ((0 # L level) ! i) level = Some (Ptr ((0 # L level) ! Suc i))"
    using skip_invD(1) [OF inv assms(2)] by (simp add: chain_def lk_def)
  then have "find_last_loop ((0 # L level) ! i) level sl = find_last_loop ((0 # L level) ! Suc i) level sl"
    by (subst find_last_loop.simps) simp
  also have "\<dots> = (if level = 0 then Some (last (0 # L 0)) else find_last_loop (last (0 # L level)) (level - 1) sl)"
    using Suc i by (intro Suc.hyps(1)) simp_all
  finally show ?case .
qed

lemma find_last_image:
  assumes inv: "skip_inv sl L" and "level < kMaxHeight" and "x = 0 \<or> x \<in> set (L level)"
  shows "find_last_loop x level sl = Some (last (0 # L 0))"
  using assms(2,3)
proof (induction level arbitrary: x)
  case 0
  obtain i where "i \<le> length (L 0)" "x = (0 # L 0) ! i"
    using "0.prems"(2) by (metis in_set_conv_nth le0 less_eq_Suc_le nth_Cons_0 nth_Cons_Suc)
  then show ?case using find_last_right [OF inv "0.prems"(1)] by simp
next
  case (Suc level)
  obtain i where i: "i \<le> length (L (Suc level))" "x = (0 # L (Suc level)) ! i"
    using Suc.prems(2) by (metis in_set_conv_nth le0 less_eq_Suc_le nth_Cons_0 nth_Cons_Suc)
  have "last (0 # L (Suc level)) = 0 \<or> last (0 # L (Suc level)) \<in> set (L level)"
    using skip_invD(4) [OF inv, of level] Suc.prems(1) by (cases "L (Suc level)" rule: rev_cases) auto
  then show ?case using find_last_right [OF inv Suc.prems(1) i(1)] Suc.IH Suc.prems(1) i(2) by simp
qed

lemma FindLast_image: "skip_inv sl L \<Longrightarrow> FindLast sl = Some (last (0 # L 0))"
  unfolding FindLast_def using find_last_image max_height(1) by blast

lemma irreflexive: "ok k \<Longrightarrow> \<not> cmp k k < 0"
  using flip [of k k] by auto

lemma sorted_distinct: "sorted_keys (map f ys) \<Longrightarrow> distinct ys"
proof (induction ys)
  case (Cons y ys)
  then have "y \<notin> set ys" using irreflexive [of "f y"] by (auto simp: sorted_keys_def)
  with Cons show ?case by (simp add: sorted_keys_def)
qed simp

lemma sorted_insert:
  assumes "sorted_keys ks" "ok key" "\<forall>k \<in> set ks. cmp k key \<noteq> 0"
  shows "sorted_keys (take (below key ks) ks @ key # drop (below key ks) ks)"
proof -
  let ?c = "below key ks"
  have s: "sorted_wrt (\<lambda>a b. cmp a b < 0) (take ?c ks @ drop ?c ks)" and ok: "\<forall>k \<in> set ks. ok k"
    using assms(1) by (simp_all add: sorted_keys_def)
  have "cmp k key < 0" if "k \<in> set (take ?c ks)" for k using that unfolding take_below by (auto dest: set_takeWhileD)
  moreover have "cmp key k < 0" if k: "k \<in> set (drop ?c ks)" for k
  proof -
    obtain j where j: "j < length (drop ?c ks)" "drop ?c ks ! j = k" using k unfolding in_set_conv_nth by blast
    then have "\<not> cmp k key < 0" using below_iff [OF assms(1,2), of "?c + j"] by simp
    moreover have "cmp k key \<noteq> 0" "ok k" using k assms(3) ok by (auto dest: in_set_dropD)
    ultimately show ?thesis using flip [of key k] assms(2) by linarith
  qed
  moreover have "\<forall>x \<in> set (take ?c ks). \<forall>y \<in> set (drop ?c ks). cmp x y < 0" "sorted_wrt (\<lambda>a b. cmp a b < 0) (take ?c ks)"
    "sorted_wrt (\<lambda>a b. cmp a b < 0) (drop ?c ks)" using s unfolding sorted_wrt_append by blast+
  ultimately show ?thesis
    unfolding sorted_keys_def using ok assms(2) by (auto simp: sorted_wrt_append dest: in_set_takeD in_set_dropD)
qed

lemma level_subset: "skip_inv sl L \<Longrightarrow> l < kMaxHeight \<Longrightarrow> set (L l) \<subseteq> set (L 0)"
proof (induction l)
  case (Suc l)
  then show ?case using skip_invD(4) [of sl L l] by auto
qed simp

text \<open>An insertion that has linked the new node \<open>n\<close> on the levels below \<open>i\<close>, and one that has also stored the link of \<open>n\<close> on level \<open>i\<close>.\<close>

definition linking :: "'k SkipList \<Rightarrow> (nat \<Rightarrow> nat list) \<Rightarrow> 'k \<Rightarrow> nat \<Rightarrow> nat option list \<Rightarrow> nat \<Rightarrow> nat \<Rightarrow> bool" where
  "linking sl L key n prev h i \<longleftrightarrow> skip_inv sl L \<and> i \<le> h \<and> h \<le> sl_max_height sl \<and> ok key \<and> node_key sl n = Some key \<and>
     node_height sl n = h \<and> length prev = kMaxHeight \<and> (\<forall>l < kMaxHeight. n \<in> set (L l) \<longleftrightarrow> l < i) \<and>
     (\<forall>x \<in> set (L 0). x \<noteq> n \<longrightarrow> cmp (K sl x) key \<noteq> 0) \<and>
     (\<forall>l. i \<le> l \<and> l < h \<longrightarrow> prev ! l = Some (pred_at sl L key l))"

definition stored :: "'k SkipList \<Rightarrow> (nat \<Rightarrow> nat list) \<Rightarrow> 'k \<Rightarrow> nat \<Rightarrow> nat option list \<Rightarrow> nat \<Rightarrow> nat \<Rightarrow> bool" where
  "stored sl L key n prev h i \<longleftrightarrow>
     linking sl L key n prev h i \<and> i < h \<and> Node_Next sl n i = Some (lk (L i) (cut sl key (L i)))"

lemma linkingD:
  assumes "linking sl L key n prev h i"
  shows "skip_inv sl L" "h \<le> kMaxHeight" "n < length (sl_nodes sl)" "n \<noteq> 0" "ok key" "node_key sl n = Some key"
    "i \<le> l \<Longrightarrow> l < kMaxHeight \<Longrightarrow> n \<notin> set (L l)"
    "i \<le> l \<Longrightarrow> l < h \<Longrightarrow> (if l < length prev then prev ! l else None) = Some (pred_at sl L key l)"
proof -
  show "skip_inv sl L" "h \<le> kMaxHeight" "ok key" "node_key sl n = Some key"
    "i \<le> l \<Longrightarrow> l < kMaxHeight \<Longrightarrow> n \<notin> set (L l)"
    "i \<le> l \<Longrightarrow> l < h \<Longrightarrow> (if l < length prev then prev ! l else None) = Some (pred_at sl L key l)"
    using assms by (auto simp: linking_def skip_inv_def)
  show "n < length (sl_nodes sl)" using \<open>node_key sl n = Some key\<close> by (simp add: node_key_def split: if_splits)
  have "node_key sl 0 = None" using \<open>skip_inv sl L\<close> by (simp add: skip_inv_def)
  then show "n \<noteq> 0" using \<open>node_key sl n = Some key\<close> by (intro notI) simp
qed

lemma pred_next:
  assumes "skip_inv sl L" "l < kMaxHeight"
  shows "Node_Next sl (pred_at sl L t l) l = Some (lk (L l) (cut sl t (L l)))"
  using skip_invD(1) [OF assms] cut_le [of sl t "L l"] by (simp add: chain_def pred_at_def)

lemma link_store_inv:
  assumes lin: "linking sl L key n prev h i" and "i < h"
  shows "\<exists>sl'. link_store n prev i sl = Some sl' \<and> stored sl' L key n prev h i \<and> node_key sl' = node_key sl"
proof -
  note D = linkingD [OF lin]
  have i: "i < kMaxHeight" using D(2) assms(2) by simp
  let ?l = "lk (L i) (cut sl key (L i))"
  obtain sl' where sl': "Node_SetNext n i ?l sl = Some sl'" "node_key sl' = node_key sl" "sl_max_height sl' = sl_max_height sl"
    "\<forall>y. node_height sl' y = node_height sl y"
    "\<And>y m. Node_Next sl' y m = (if y = n \<and> m = i then Some ?l else Node_Next sl y m)"
    using SetNext_effect [of n sl i ?l, OF D(3)] lin assms(2) lk_defined [of "L i"] by (auto simp: linking_def)
  have "link_store n prev i sl = Some sl'"
    using D(8) [OF order_refl assms(2)] pred_next [OF D(1) i, of key] sl'(1) by (simp add: link_store_def)
  moreover have "chain sl' l (L l)" if "l < kMaxHeight" for l
    by (rule chain_frame [OF skip_invD(1) [OF D(1) that]]) (use D(4) D(7) [of l] that in \<open>auto simp: sl'(5)\<close>)
  then have "skip_inv sl' L" using D(1) by (simp add: skip_inv_def sl'(2,3))
  then have "stored sl' L key n prev h i"
    using lin assms(2) by (simp add: stored_def linking_def pred_at_def cut_def sl')
  ultimately show ?thesis using sl'(2) by blast
qed

lemma link_publish_inv:
  assumes st: "stored sl L key n prev h i"
  shows "\<exists>sl'. link_publish n prev i sl = Some sl' \<and> linking sl' (L(i := ins n (cut sl key (L i)) (L i))) key n prev h (Suc i) \<and>
    node_key sl' = node_key sl"
proof -
  have lin: "linking sl L key n prev h i" and ih: "i < h" using st by (simp_all add: stored_def)
  note D = linkingD [OF lin]
  have i: "i < kMaxHeight" using D(2) ih by simp
  let ?c = "cut sl key (L i)" and ?p = "pred_at sl L key i"
  let ?L = "L(i := ins n ?c (L i))"
  note pn = Node_Next_inside [OF pred_next [OF D(1) i, of key]]
  obtain sl' where sl': "Node_SetNext ?p i (Ptr n) sl = Some sl'" "node_key sl' = node_key sl" "sl_max_height sl' = sl_max_height sl"
    "\<forall>y. node_height sl' y = node_height sl y"
    "\<And>y m. Node_Next sl' y m = (if y = ?p \<and> m = i then Some (Ptr n) else Node_Next sl y m)"
    using SetNext_effect [of ?p sl i "Ptr n"] pn by auto
  have "link_publish n prev i sl = Some sl'"
    using D(8) [OF order_refl ih] sl'(1) by (simp add: link_publish_def)
  moreover have "linking sl' ?L key n prev h (Suc i)"
  proof -
    have dist: "distinct (0 # L i)" "n \<notin> set (0 # L i)"
      using sorted_distinct [OF skip_invD(3) [OF D(1) i]] skip_invD(6) [OF D(1) i] D(4) D(7) [OF order_refl i] by simp_all
    have set_ins: "set (ins n c ys) = insert n (set ys)" for c ys
      unfolding ins_def using set_append [of "take c ys" "drop c ys"] by auto
    have chain: "chain sl' l (?L l)" if "l < kMaxHeight" for l
    proof (cases "l = i")
      case True
      then show ?thesis using st
        by (simp only: fun_upd_same True)
          (rule chain_insert [OF skip_invD(1) [OF D(1) i] dist cut_le _ sl'(5) [unfolded pred_at_def]], simp add: stored_def)
    next
      case False
      then show ?thesis by (simp add: chain_frame [OF skip_invD(1) [OF D(1) that]] sl'(5))
    qed
    have sorted: "sorted_keys (map (K sl) (?L l))" if "l < kMaxHeight" for l
    proof (cases "l = i")
      case True
      have "\<forall>k \<in> set (map (K sl) (L i)). cmp k key \<noteq> 0"
        using level_subset [OF D(1) i] lin D(7) [OF order_refl i] by (auto simp: linking_def)
      from sorted_insert [OF skip_invD(3) [OF D(1) i] D(5) this] True show ?thesis
        using D(6) by (simp add: ins_def cut_def take_map drop_map)
    qed (simp add: skip_invD(3) [OF D(1) that])
    have sub: "set (?L (Suc l)) \<subseteq> set (?L l)" if "l < kMaxHeight" for l
      using skip_invD(4) [OF D(1) that] lin that by (auto simp: set_ins linking_def)
    have "skip_inv sl' ?L"
      unfolding skip_inv_def sl'(2,3)
    proof (intro conjI allI impI)
      fix l assume l: "l < kMaxHeight"
      show "chain sl' l (?L l)" "sorted_keys (map (K sl) (?L l))" "set (?L (Suc l)) \<subseteq> set (?L l)"
        using chain sorted sub l by blast+
      show "\<forall>x \<in> set (?L l). node_key sl x \<noteq> None"
        using skip_invD(2) [OF D(1) l] D(6) by (auto simp: set_ins)
      show "?L l = []" if "sl_max_height sl \<le> l" using skip_invD(5) [OF D(1) l] that lin ih by (auto simp: linking_def)
    qed (use D(1) in \<open>auto simp: skip_inv_def\<close>)
    then show ?thesis using lin ih by (auto simp: linking_def sl' set_ins pred_at_def cut_def)
  qed
  ultimately show ?thesis using sl'(2) by blast
qed

lemma level_steps:
  assumes "linking sl L key n prev h i" and "i < h"
  shows "\<exists>sl1 sl2. link_store n prev i sl = Some sl1 \<and> link_publish n prev i sl1 = Some sl2 \<and>
    linking sl2 (L(i := ins n (cut sl key (L i)) (L i))) key n prev h (Suc i) \<and> node_key sl2 = node_key sl"
proof -
  obtain sl1 where sl1: "link_store n prev i sl = Some sl1" "stored sl1 L key n prev h i" "node_key sl1 = node_key sl"
    using link_store_inv [OF assms] by blast
  from link_publish_inv [OF sl1(2)] sl1 show ?thesis by (simp add: cut_def)
qed

lemma link_levels_inv:
  assumes "linking sl L key n prev h i"
  shows "\<exists>sl' L'. link_levels n prev [i..<h] sl = Some sl' \<and> linking sl' L' key n prev h h \<and> node_key sl' = node_key sl \<and>
    L' 0 = (if i = 0 \<and> 0 < h then ins n (cut sl key (L 0)) (L 0) else L 0)"
  using assms
proof (induction "h - i" arbitrary: i sl L)
  case 0
  then have "i = h" by (simp add: linking_def)
  then show ?case using "0.prems" by (intro exI [of _ sl] exI [of _ L]) auto
next
  case (Suc d)
  then have i: "i < h" by simp
  obtain sl1 sl2 where step: "link_store n prev i sl = Some sl1" "link_publish n prev i sl1 = Some sl2"
    "linking sl2 (L(i := ins n (cut sl key (L i)) (L i))) key n prev h (Suc i)" "node_key sl2 = node_key sl"
    using level_steps [OF Suc.prems i] by blast
  obtain sl' L' where "link_levels n prev [Suc i..<h] sl2 = Some sl'" "linking sl' L' key n prev h h" "node_key sl' = node_key sl2"
    "L' 0 = (L(i := ins n (cut sl key (L i)) (L i))) 0"
  proof -
    have "d = h - Suc i" using Suc.hyps(2) by simp
    from Suc.hyps(1) [OF this step(3)] that show thesis by (auto simp del: fun_upd_apply)
  qed
  then show ?case using step i
    by (intro exI [of _ sl'] exI [of _ L']) (simp add: upt_conv_Cons)
qed

lemma fold_set_nth:
  "l < length p \<Longrightarrow> fold (\<lambda>i p. p[i := v]) [a..<b] p ! l = (if a \<le> l \<and> l < b then v else p ! l)"
  "length (fold (\<lambda>i p. p[i := v]) [a..<b] p) = length p"
proof -
  have "length (fold (\<lambda>i p. p[i := v]) [a..<b] p) = length p \<and>
      (\<forall>l < length p. fold (\<lambda>i p. p[i := v]) [a..<b] p ! l = (if a \<le> l \<and> l < b then v else p ! l))"
    by (induction b) (auto simp: nth_list_update less_Suc_eq)
  then show "l < length p \<Longrightarrow> fold (\<lambda>i p. p[i := v]) [a..<b] p ! l = (if a \<le> l \<and> l < b then v else p ! l)"
    "length (fold (\<lambda>i p. p[i := v]) [a..<b] p) = length p" by simp_all
qed

lemma NewNode_effect:
  assumes "NewNode (Some key) h sl = (n, sl')"
  shows "n = length (sl_nodes sl)" "node_key sl' y = (if y = n then Some key else node_key sl y)"
    "Node_Next sl' y m = Node_Next sl y m" "node_height sl' n = h" "sl_max_height sl' = sl_max_height sl"
  using assms by (auto simp: NewNode_def node_key_def Node_Next_def nth_append)

lemma prepare_inv:
  assumes inv: "skip_inv sl L" and "ok key" and "\<forall>x \<in> set (L 0). cmp (K sl x) key \<noteq> 0"
  shows "\<exists>n prev h sl'. Insert_prepare cmp key sl = Some (n, prev, h, sl') \<and> linking sl' L key n prev h 0 \<and> 0 < h \<and>
    (\<forall>x \<in> set (L 0). node_key sl' x = node_key sl x)"
proof -
  let ?m = "sl_max_height sl"
  obtain h rnd where h: "RandomHeight (sl_rnd sl) = (h, rnd)" "1 \<le> h" "h \<le> kMaxHeight"
    using RandomHeight_bounds [of "sl_rnd sl"] by (cases "RandomHeight (sl_rnd sl)") simp
  define p0 where "p0 = fill_prev sl L key (?m - 1) (replicate kMaxHeight None)"
  define prev where "prev = (if h > ?m then fold (\<lambda>i p. p[i := Some 0]) [?m..<h] p0 else p0)"
  define sl2 where "sl2 = (if h > ?m then sl\<lparr>sl_rnd := rnd, sl_max_height := h\<rparr> else sl\<lparr>sl_rnd := rnd\<rparr>)"
  obtain n sl' where n: "NewNode (Some key) h sl2 = (n, sl')" by fastforce
  note N = NewNode_effect [OF n]
  have prep: "Insert_prepare cmp key sl = Some (n, prev, h, sl')"
    using FindGreaterOrEqual_image [OF inv assms(2), of "Some (replicate kMaxHeight None)"] h(1) n
    by (cases "h > ?m") (simp_all add: Insert_prepare_def prev_def sl2_def p0_def)
  have same: "node_key sl2 = node_key sl" "Node_Next sl2 = Node_Next sl" "sl_max_height sl2 = max h ?m" "sl_nodes sl2 = sl_nodes sl"
    by (auto simp: sl2_def node_key_def Node_Next_def fun_eq_iff)
  have new: "node_key sl n = None" using N(1) same(4) by (simp add: node_key_def)
  have out: "n \<notin> set (L l)" if "l < kMaxHeight" for l using skip_invD(2) [OF inv that, of n] new by auto
  have keys: "node_key sl' x = node_key sl x" if "x \<in> set (L l)" "l < kMaxHeight" for x l
    using out [OF that(2)] that(1) N(2) same(1) by auto
  have K: "map (K sl') (L l) = map (K sl) (L l)" if "l < kMaxHeight" for l using keys that by simp
  have inv': "skip_inv sl' L"
    unfolding skip_inv_def
  proof (intro conjI allI impI)
    show "1 \<le> sl_max_height sl'" "sl_max_height sl' \<le> kMaxHeight" using inv h N(5) same(3) by (simp_all add: skip_inv_def)
    have "Node_Next sl 0 0 = Some (lk (L 0) 0)" using skip_invD(1) [OF inv, of 0] by (auto simp: chain_def kMaxHeight_def dest: spec [of _ 0])
    then have "n \<noteq> 0" using Node_Next_inside N(1) same(4) by fastforce
    then show "node_key sl' 0 = None" using inv N(2) [of 0] same(1) by (simp add: skip_inv_def)
    fix l assume l: "l < kMaxHeight"
    show "chain sl' l (L l)" using skip_invD(1) [OF inv l] N(3) same(2) by (simp add: chain_def)
    show "\<forall>x \<in> set (L l). node_key sl' x \<noteq> None" using keys [OF _ l] skip_invD(2) [OF inv l] by auto
    show "sorted_keys (map (K sl') (L l))" "set (L (Suc l)) \<subseteq> set (L l)" unfolding K [OF l] by (fact skip_invD(3,4) [OF inv l])+
    show "L l = []" if "sl_max_height sl' \<le> l" using skip_invD(5) [OF inv l] that N(5) same(3) by simp
  qed
  have pred: "pred_at sl' L key l = pred_at sl L key l" if "l < kMaxHeight" for l
    unfolding pred_at_def cut_def K [OF that] ..
  have "prev ! l = Some (pred_at sl' L key l)" if l: "l < h" for l
  proof -
    have lm: "l < kMaxHeight" using l h(3) by simp
    have "pred_at sl L key l = 0" if "?m \<le> l" using skip_invD(5) [OF inv lm that] by (simp add: pred_at_def cut_def below_def)
    moreover have "length p0 = kMaxHeight" by (simp add: p0_def fill_prev_def)
    moreover have "p0 ! l = Some (pred_at sl L key l)" if "l < ?m" using that lm by (simp add: p0_def fill_prev_def)
    ultimately show ?thesis using l lm unfolding prev_def by (auto simp: fold_set_nth pred)
  qed
  moreover have "length prev = kMaxHeight" by (simp add: prev_def fold_set_nth p0_def fill_prev_def)
  ultimately have "linking sl' L key n prev h 0"
    unfolding linking_def using inv' assms(2,3) h(3) N(2,4,5) same(1,3) out keys by (auto simp: kMaxHeight_def)
  then show ?thesis using prep h(2) keys by (auto simp: kMaxHeight_def)
qed

lemma Insert_image:
  assumes inv: "skip_inv sl L" and "ok key" and "\<forall>x \<in> set (L 0). cmp (K sl x) key \<noteq> 0"
  shows "\<exists>sl' L'. Insert cmp key sl = Some sl' \<and> skip_inv sl' L' \<and>
    map (K sl') (L' 0) = takeWhile (\<lambda>k. cmp k key < 0) (map (K sl) (L 0)) @ key # dropWhile (\<lambda>k. cmp k key < 0) (map (K sl) (L 0))"
proof -
  obtain n prev h sl1 where p: "Insert_prepare cmp key sl = Some (n, prev, h, sl1)" "linking sl1 L key n prev h 0" "0 < h"
    "\<forall>x \<in> set (L 0). node_key sl1 x = node_key sl x" using prepare_inv [OF assms] by blast
  obtain sl' L' where l: "link_levels n prev [0..<h] sl1 = Some sl'" "linking sl' L' key n prev h h" "node_key sl' = node_key sl1"
    "L' 0 = ins n (cut sl1 key (L 0)) (L 0)" using link_levels_inv [OF p(2)] p(3) by auto
  have K: "map (K sl1) (L 0) = map (K sl) (L 0)" using p(4) by simp
  have "map (K sl') (L' 0) = take (below key (map (K sl) (L 0))) (map (K sl) (L 0)) @ key # drop (below key (map (K sl) (L 0))) (map (K sl) (L 0))"
    using linkingD(6) [OF p(2)] by (simp add: l(3,4) ins_def cut_def K [symmetric] take_map drop_map)
  then show ?thesis using p(1) l(1) linkingD(1) [OF l(2)]
    by (intro exI [of _ sl'] exI [of _ L']) (simp add: Insert_def take_below drop_below)
qed

lemma SkipList_init_inv: "skip_inv SkipList_init (\<lambda>_. [])"
  by (simp add: skip_inv_def SkipList_init_def chain_def lk_def Node_Next_def node_key_def sorted_keys_def kMaxHeight_def)

section \<open>What clients see\<close>

text \<open>The list represents a sequence of keys.\<close>

definition represents :: "'k SkipList \<Rightarrow> 'k list \<Rightarrow> bool" where
  "represents sl ks \<longleftrightarrow> (\<exists>L. skip_inv sl L \<and> ks = map (K sl) (L 0))"

lemma represents_init: "represents SkipList_init []"
  unfolding represents_def by (intro exI [of _ "\<lambda>_. []"]) (simp add: SkipList_init_inv)

lemma represents_sorted: "represents sl ks \<Longrightarrow> sorted_keys ks"
  by (auto simp: represents_def kMaxHeight_def dest: skip_invD(3) [of _ _ 0])

lemma represents_insert:
  assumes "represents sl ks" "ok key" "\<forall>k \<in> set ks. cmp k key \<noteq> 0"
  shows "\<exists>sl'. Insert cmp key sl = Some sl' \<and>
    represents sl' (takeWhile (\<lambda>k. cmp k key < 0) ks @ key # dropWhile (\<lambda>k. cmp k key < 0) ks)"
proof -
  obtain L where "skip_inv sl L" "ks = map (K sl) (L 0)" using assms(1) by (auto simp: represents_def)
  with Insert_image [of sl L key] assms(2,3) show ?thesis by (fastforce simp: represents_def)
qed

lemma level0: "skip_inv sl L \<Longrightarrow> i < length (L 0) \<Longrightarrow> \<exists>k. node_key sl (L 0 ! i) = Some k"
  "skip_inv sl L \<Longrightarrow> i \<le> length (L 0) \<Longrightarrow> Node_Next sl ((0 # L 0) ! i) 0 = Some (lk (L 0) i)"
  using skip_invD(1,2) [of sl L 0] by (simp_all add: kMaxHeight_def chain_def)

lemma walk_next:
  assumes "skip_inv sl L" "i \<le> length (L 0)"
  shows "skip_walk (SkipIter_Next sl) sl (lk (L 0) i) = Some (map (K sl) (drop i (L 0)))"
  using assms(2)
proof (induction "length (L 0) - i" arbitrary: i)
  case 0
  then show ?case by (subst skip_walk.simps) (simp add: SkipIter_Valid_def lk_def)
next
  case (Suc d)
  then have i: "i < length (L 0)" by simp
  obtain k where k: "node_key sl (L 0 ! i) = Some k" using level0(1) [OF assms(1) i] by blast
  have "SkipIter_Next sl (Ptr (L 0 ! i)) = Some (lk (L 0) (Suc i))"
    using level0(2) [OF assms(1), of "Suc i"] i by (simp add: SkipIter_Next_def)
  moreover have "skip_walk (SkipIter_Next sl) sl (lk (L 0) (Suc i)) = Some (map (K sl) (drop (Suc i) (L 0)))"
    using Suc i by (intro Suc.hyps(1)) simp_all
  ultimately show ?case using i k Cons_nth_drop_Suc [OF i, symmetric]
    by (subst skip_walk.simps) (simp add: SkipIter_Valid_def SkipIter_key_def lk_def)
qed

lemma below_self:
  assumes "sorted_keys ks" "i < length ks"
  shows "below (ks ! i) ks = i"
proof -
  have ok: "\<forall>k \<in> set ks. ok k" and s: "sorted_wrt (\<lambda>a b. cmp a b < 0) ks" using assms(1) by (simp_all add: sorted_keys_def)
  have lt: "j < below (ks ! i) ks \<longleftrightarrow> j < i" if "j < length ks" for j
  proof -
    have "cmp (ks ! j) (ks ! i) < 0 \<longleftrightarrow> j < i"
      using sorted_wrt_nth_less [OF s, of j i] sorted_wrt_nth_less [OF s, of i j] irreflexive [of "ks ! i"]
        flip [of "ks ! i" "ks ! j"] ok assms(2) that by (cases j i rule: linorder_cases) auto
    then show ?thesis using below_iff [OF assms(1) _ that] ok assms(2) by simp
  qed
  show ?thesis using lt [of i] lt [of "i - 1"] below_le [of "ks ! i" ks] lt [of "below (ks ! i) ks"] assms(2)
    by (cases "below (ks ! i) ks" i rule: linorder_cases) auto
qed

lemma prev_at:
  assumes inv: "skip_inv sl L" and i: "i < length (L 0)"
  shows "SkipIter_Prev cmp sl (lk (L 0) i) = Some (if i = 0 then Null else lk (L 0) (i - 1))"
proof -
  obtain k where k: "node_key sl (L 0 ! i) = Some k" using level0(1) [OF assms] by blast
  have s: "sorted_keys (map (K sl) (L 0))" using skip_invD(3) [OF inv] by (simp add: kMaxHeight_def)
  then have "ok (map (K sl) (L 0) ! i)" using i by (simp add: sorted_keys_def)
  then have "ok k" using i k by simp
  moreover have "cut sl k (L 0) = i" using below_self [OF s, of i] i k by (simp add: cut_def)
  moreover have "L 0 ! (i - 1) \<noteq> 0" if "i \<noteq> 0"
  proof -
    have "L 0 ! (i - 1) \<in> set (L 0)" using i by simp
    then show ?thesis using skip_invD(6) [OF inv, of 0] by (metis kMaxHeight_def zero_less_numeral)
  qed
  ultimately show ?thesis
    using FindLessThan_image [OF inv, of k] i k
    by (cases "i = 0") (simp_all add: SkipIter_Prev_def SkipIter_key_def lk_def pred_at_def nth_Cons' less_imp_diff_less)
qed

lemma walk_prev:
  assumes "skip_inv sl L" "i < length (L 0)"
  shows "skip_walk (SkipIter_Prev cmp sl) sl (lk (L 0) i) = Some (rev (map (K sl) (take (Suc i) (L 0))))"
  using assms(2)
proof (induction i)
  case 0
  obtain k where k: "node_key sl (L 0 ! 0) = Some k" using level0(1) [OF assms(1) "0.prems"] by blast
  have "skip_walk (SkipIter_Prev cmp sl) sl Null = Some []" by (subst skip_walk.simps) (simp add: SkipIter_Valid_def)
  then show ?case using prev_at [OF assms(1) "0.prems"] k "0.prems"
    by (subst skip_walk.simps) (simp add: SkipIter_Valid_def SkipIter_key_def lk_def take_Suc_conv_app_nth)
next
  case (Suc i)
  obtain k where k: "node_key sl (L 0 ! Suc i) = Some k" using level0(1) [OF assms(1) Suc.prems] by blast
  show ?case using prev_at [OF assms(1) Suc.prems] k Suc
    by (subst skip_walk.simps) (simp add: SkipIter_Valid_def SkipIter_key_def lk_def take_Suc_conv_app_nth [of "Suc i"])
qed

lemma represents_iterate:
  assumes "represents sl ks"
  shows "\<exists>first. SkipIter_SeekToFirst sl = Some first \<and> skip_walk (SkipIter_Next sl) sl first = Some ks"
    and "\<exists>final. SkipIter_SeekToLast sl = Some final \<and> skip_walk (SkipIter_Prev cmp sl) sl final = Some (rev ks)"
proof -
  obtain L where inv: "skip_inv sl L" and ks: "ks = map (K sl) (L 0)" using assms by (auto simp: represents_def)
  show "\<exists>first. SkipIter_SeekToFirst sl = Some first \<and> skip_walk (SkipIter_Next sl) sl first = Some ks"
    using level0(2) [OF inv, of 0] walk_next [OF inv, of 0] by (simp add: SkipIter_SeekToFirst_def ks)
  show "\<exists>final. SkipIter_SeekToLast sl = Some final \<and> skip_walk (SkipIter_Prev cmp sl) sl final = Some (rev ks)"
  proof (cases "L 0 = []")
    case True
    then show ?thesis using FindLast_image [OF inv]
      by (simp add: SkipIter_SeekToLast_def ks) (subst skip_walk.simps, simp add: SkipIter_Valid_def)
  next
    case False
    let ?i = "length (L 0) - 1"
    have "0 \<notin> set (L 0)" using skip_invD(6) [OF inv, of 0] by (simp add: kMaxHeight_def)
    then have "last (L 0) \<noteq> 0" using False last_in_set by metis
    then have "SkipIter_SeekToLast sl = Some (lk (L 0) ?i)"
      using FindLast_image [OF inv] False by (simp add: SkipIter_SeekToLast_def lk_def last_conv_nth)
    then show ?thesis using walk_prev [OF inv, of ?i] False by (simp add: ks)
  qed
qed

lemma represents_seek:
  assumes "represents sl ks" "ok t"
  shows "\<exists>node. SkipIter_Seek cmp sl t = Some node \<and> skip_walk (SkipIter_Next sl) sl node = Some (dropWhile (\<lambda>k. cmp k t < 0) ks) \<and>
    (SkipIter_Valid node \<longleftrightarrow> dropWhile (\<lambda>k. cmp k t < 0) ks \<noteq> []) \<and>
    (dropWhile (\<lambda>k. cmp k t < 0) ks \<noteq> [] \<longrightarrow> SkipIter_key sl node = Some (hd (dropWhile (\<lambda>k. cmp k t < 0) ks)))"
proof -
  obtain L where inv: "skip_inv sl L" and ks: "ks = map (K sl) (L 0)" using assms(1) by (auto simp: represents_def)
  let ?c = "cut sl t (L 0)"
  have s: "SkipIter_Seek cmp sl t = Some (lk (L 0) ?c)"
    using FindGreaterOrEqual_image [OF inv assms(2), of None] by (simp add: SkipIter_Seek_def)
  have dw: "dropWhile (\<lambda>k. cmp k t < 0) ks = map (K sl) (drop ?c (L 0))"
    unfolding drop_below [symmetric] by (simp add: ks cut_def drop_map)
  have "SkipIter_key sl (lk (L 0) ?c) = Some (hd (map (K sl) (drop ?c (L 0))))" if "?c < length (L 0)"
    using level0(1) [OF inv that] that by (auto simp: lk_def SkipIter_key_def hd_map hd_drop_conv_nth)
  then show ?thesis using s walk_next [OF inv cut_le] cut_le [of sl t "L 0"]
    by (auto simp: dw SkipIter_Valid_def lk_def)
qed

lemma represents_contains:
  assumes "represents sl ks" "ok key"
  shows "Contains cmp key sl = Some (\<exists>k \<in> set ks. cmp k key = 0)"
proof -
  obtain L where inv: "skip_inv sl L" and ks: "ks = map (K sl) (L 0)" using assms(1) by (auto simp: represents_def)
  have s: "sorted_keys ks" by (rule represents_sorted [OF assms(1)])
  then have ok: "\<forall>k \<in> set ks. ok k" by (simp add: sorted_keys_def)
  let ?c = "below key ks"
  have c: "cut sl key (L 0) = ?c" by (simp add: cut_def ks)
  have only: "(\<exists>k \<in> set ks. cmp k key = 0) \<longleftrightarrow> ?c < length ks \<and> cmp (ks ! ?c) key = 0"
  proof
    assume "\<exists>k \<in> set ks. cmp k key = 0"
    then obtain i where i: "i < length ks" "cmp (ks ! i) key = 0" by (auto simp: in_set_conv_nth)
    then have "\<not> i < ?c" using below_iff [OF s assms(2) i(1)] by simp
    moreover have "\<not> ?c < i"
    proof
      assume lt: "?c < i"
      have "cmp (ks ! ?c) (ks ! i) < 0" using s lt i(1) sorted_wrt_nth_less by (fastforce simp: sorted_keys_def)
      then have "cmp (ks ! ?c) key < 0" using less_le_trans [of "ks ! ?c" "ks ! i" key] ok i lt assms(2) by simp
      then show False using below_iff [OF s assms(2), of ?c] lt i(1) by simp
    qed
    ultimately show "?c < length ks \<and> cmp (ks ! ?c) key = 0" using i by (cases i ?c rule: linorder_cases) auto
  qed auto
  show ?thesis
  proof (cases "?c < length ks")
    case True
    then obtain k where k: "node_key sl (L 0 ! ?c) = Some k" "ks ! ?c = k" using level0(1) [OF inv, of ?c] by (auto simp: ks)
    then have "cmp key k = 0 \<longleftrightarrow> cmp k key = 0" using eq_sym [of key k] ok assms(2) True nth_mem [OF True] by simp
    then show ?thesis unfolding only using FindGreaterOrEqual_image [OF inv assms(2), of None] k True c
      by (simp add: Contains_def lk_def ks)
  next
    case False
    then show ?thesis unfolding only using FindGreaterOrEqual_image [OF inv assms(2), of None] c
      by (simp add: Contains_def lk_def ks)
  qed
qed

section \<open>Readers during an insertion\<close>

text \<open>The part of the invariant for the writer, and what a reader knows whatever the writer does.\<close>

fun writer_inv :: "'k SkipList \<Rightarrow> (nat \<Rightarrow> nat list) \<Rightarrow> 'k writer \<Rightarrow> bool" where
  "writer_inv sl L W_idle \<longleftrightarrow> skip_inv sl L"
| "writer_inv sl L (W_store key n prev h i) \<longleftrightarrow> linking sl L key n prev h i"
| "writer_inv sl L (W_publish key n prev h i) \<longleftrightarrow> stored sl L key n prev h i"

fun reader_inv :: "'k SkipList \<Rightarrow> (nat \<Rightarrow> nat list) \<Rightarrow> 'k reader \<Rightarrow> bool" where
  "reader_inv sl L (R_search t x level) \<longleftrightarrow> ok t \<and> level < kMaxHeight \<and> stands sl L t x level"
| "reader_inv sl L _ \<longleftrightarrow> True"

lemma writer_inv_skip: "writer_inv sl L w \<Longrightarrow> skip_inv sl L"
  by (cases w) (auto simp: stored_def linking_def)

lemma reader_grows:
  assumes "reader_inv sl L r" and "\<And>l. set (L l) \<subseteq> set (L' l)" and "\<And>l x. x \<in> set (L l) \<Longrightarrow> l < kMaxHeight \<Longrightarrow> node_key sl' x = node_key sl x"
  shows "reader_inv sl' L' r"
  using assms by (cases r) (auto simp: stands_def)

lemma set_ins: "set (ins n c ys) = insert n (set ys)"
  unfolding ins_def using set_append [of "take c ys" "drop c ys"] by auto

lemma reader_steps:
  assumes "writer_inv sl L w" "reader_inv sl L (R_search t x level)"
  shows "\<exists>next after. find_ge_read cmp t x level sl = Some (next, after) \<and>
    (after \<longrightarrow> (\<exists>y. next = Ptr y \<and> reader_inv sl L (R_search t y level))) \<and>
    (\<not> after \<and> level \<noteq> 0 \<longrightarrow> reader_inv sl L (R_search t x (level - 1))) \<and>
    (\<not> after \<and> level = 0 \<longrightarrow> SkipIter_Seek cmp sl t = Some next)"
proof -
  have inv: "skip_inv sl L" and t: "ok t" and l: "level < kMaxHeight" and st: "stands sl L t x level"
    using writer_inv_skip [OF assms(1)] assms(2) by simp_all
  obtain i where i: "i \<le> cut sl t (L level)" "x = (0 # L level) ! i" using stands_index [OF inv l t st] by blast
  note read = find_ge_read_image [OF inv l t i]
  have "lk (L level) i = Ptr ((0 # L level) ! Suc i)" "stands sl L t ((0 # L level) ! Suc i) level" if "i < cut sl t (L level)"
    using that cut_le [of sl t "L level"] stands_at [OF inv l t, of "Suc i"] by (simp_all add: lk_def)
  moreover have "stands sl L t x (level - 1)" if "level \<noteq> 0" using stands_down [OF inv, of "level - 1" t x] st l that by simp
  moreover have "SkipIter_Seek cmp sl t = Some (lk (L 0) (cut sl t (L 0)))"
    using FindGreaterOrEqual_image [OF inv t, of None] by (simp add: SkipIter_Seek_def)
  moreover have "i = cut sl t (L level)" if "\<not> i < cut sl t (L level)" using that i(1) by simp
  ultimately show ?thesis using read t l by auto
qed

lemma skip_step_inv:
  assumes "skip_step cmp ok s s'" and "writer_inv (fst s) L (fst (snd s))" and "reader_inv (fst s) L (snd (snd s))"
  shows "\<exists>L'. writer_inv (fst s') L' (fst (snd s')) \<and> reader_inv (fst s') L' (snd (snd s'))"
  using assms
proof (cases rule: skip_step.cases)
  case (insert_start key sl n prev h sl' r)
  then have inv: "skip_inv sl L" using assms(2) by simp
  have "\<not> (\<exists>k \<in> set (map (K sl) (L 0)). cmp k key = 0)"
    using represents_contains [of sl "map (K sl) (L 0)" key] insert_start inv by (auto simp: represents_def)
  then obtain "linking sl' L key n prev h 0" "\<forall>x \<in> set (L 0). node_key sl' x = node_key sl x"
    using prepare_inv [OF inv, of key] insert_start by auto
  moreover have "node_key sl' x = node_key sl x" if "x \<in> set (L l)" "l < kMaxHeight" for x l
    using calculation(2) level_subset [OF inv that(2)] that(1) by auto
  ultimately show ?thesis using insert_start assms(3) reader_grows [of sl L r L sl'] by auto
next
  case (insert_store i h n prev sl sl' key r)
  then obtain "stored sl' L key n prev h i" "node_key sl' = node_key sl" using link_store_inv [of sl L key n prev h i] assms(2) by auto
  then show ?thesis using insert_store assms(3) reader_grows [of sl L r L sl'] by auto
next
  case (insert_publish n prev i sl sl' key h r)
  let ?L = "L(i := ins n (cut sl key (L i)) (L i))"
  obtain "linking sl' ?L key n prev h (Suc i)" "node_key sl' = node_key sl"
    using link_publish_inv [of sl L key n prev h i] assms(2) insert_publish by auto
  moreover have "set (L l) \<subseteq> set (?L l)" for l by (auto simp: set_ins)
  then have "reader_inv sl' ?L r" using insert_publish assms(3) \<open>node_key sl' = node_key sl\<close> by (intro reader_grows [of sl L r ?L]) auto
  ultimately show ?thesis using insert_publish by (intro exI [of _ ?L]) auto
next
  case (insert_end sl key n prev h r)
  then show ?thesis using assms(2,3) by (auto simp: linking_def)
next
  case (seek_start t sl w)
  then show ?thesis using assms(2) max_height [OF writer_inv_skip [OF assms(2)]] by auto
next
  case (seek_right t x level sl y w)
  then show ?thesis using reader_steps [of sl L w t x level] assms(2,3) by auto
next
  case (seek_down t x level sl "next" w)
  then show ?thesis using reader_steps [of sl L w t x level] assms(2,3) by auto
qed auto

lemma skip_reach_inv:
  assumes "skip_reach cmp ok s"
  shows "\<exists>L. writer_inv (fst s) L (fst (snd s)) \<and> reader_inv (fst s) L (snd (snd s))"
  using assms
proof (induction rule: skip_reach.induct)
  case start
  then show ?case using SkipList_init_inv by (intro exI [of _ "\<lambda>_. []"]) simp
next
  case (step s s')
  then show ?case using skip_step_inv by blast
qed

end

end
