(* ===== verification/LDB_Arena.thy ===== *)
theory LDB_Arena
  imports Prelude
begin

text \<open>
  The arena of the memory table (\<^verbatim>\<open>util/arena.cc\<close>, \<^verbatim>\<open>util/arena.h\<close>). Where \<^verbatim>\<open>new char[n]\<close> places a block is an argument, a function
  of the blocks that exist and of the size; \<open>new_ok\<close> is what \<^verbatim>\<open>operator new\<close> guarantees, which does not run out of memory here.
  Sizes have the 64 bits of \<^verbatim>\<open>size_t\<close>, so that sums of them wrap around; addresses are natural numbers.
\<close>

unbundle bit_operations_syntax

section \<open>Operations\<close>

type_synonym new_array = "(nat \<times> nat) list \<Rightarrow> nat \<Rightarrow> nat"

text \<open>A block is its address and its size.\<close>

record Arena =
  ar_alloc_ptr :: nat
  ar_remaining :: u64
  ar_blocks :: "(nat \<times> nat) list"
  ar_memory_usage :: u64

definition kArenaBlockSize :: u64 where "kArenaBlockSize = 4096"

definition Arena_init :: Arena where
  "Arena_init = \<lparr>ar_alloc_ptr = 0, ar_remaining = 0, ar_blocks = [], ar_memory_usage = 0\<rparr>"

definition MemoryUsage :: "Arena \<Rightarrow> u64" where
  "MemoryUsage a = ar_memory_usage a"

definition AllocateNewBlock :: "new_array \<Rightarrow> u64 \<Rightarrow> Arena \<Rightarrow> nat \<times> Arena" where
  "AllocateNewBlock new block_bytes a =
     (let result = new (ar_blocks a) (unat block_bytes) in
      (result, a\<lparr>ar_blocks := ar_blocks a @ [(result, unat block_bytes)], ar_memory_usage := ar_memory_usage a + (block_bytes + 8)\<rparr>))"

definition AllocateFallback :: "new_array \<Rightarrow> u64 \<Rightarrow> Arena \<Rightarrow> nat \<times> Arena" where
  "AllocateFallback new bytes a =
     (if bytes > kArenaBlockSize div 4 then AllocateNewBlock new bytes a
      else
        let (ptr, a1) = AllocateNewBlock new kArenaBlockSize a in
        (ptr, a1\<lparr>ar_alloc_ptr := ptr + unat bytes, ar_remaining := kArenaBlockSize - bytes\<rparr>))"

definition Arena_Allocate :: "new_array \<Rightarrow> u64 \<Rightarrow> Arena \<Rightarrow> nat \<times> Arena" where
  "Arena_Allocate new bytes a =
     (if bytes \<le> ar_remaining a
      then (ar_alloc_ptr a, a\<lparr>ar_alloc_ptr := ar_alloc_ptr a + unat bytes, ar_remaining := ar_remaining a - bytes\<rparr>)
      else AllocateFallback new bytes a)"

definition AllocateAligned :: "new_array \<Rightarrow> u64 \<Rightarrow> Arena \<Rightarrow> nat \<times> Arena" where
  "AllocateAligned new bytes a =
     (let align = 8;
          current_mod = of_nat (ar_alloc_ptr a) AND (align - 1);
          slop = (if current_mod = 0 then 0 else align - current_mod);
          needed = bytes + slop in
      if needed \<le> ar_remaining a
      then (ar_alloc_ptr a + unat slop, a\<lparr>ar_alloc_ptr := ar_alloc_ptr a + unat needed, ar_remaining := ar_remaining a - needed\<rparr>)
      else AllocateFallback new bytes a)"

section \<open>Allocated memory\<close>

definition apart :: "nat \<times> nat \<Rightarrow> nat \<times> nat \<Rightarrow> bool" where
  "apart r q \<longleftrightarrow> fst r + snd r \<le> fst q \<or> fst q + snd q \<le> fst r"

definition inside :: "nat \<times> nat \<Rightarrow> nat \<times> nat \<Rightarrow> bool" where
  "inside r q \<longleftrightarrow> fst q \<le> fst r \<and> fst r + snd r \<le> fst q + snd q"

text \<open>\<^verbatim>\<open>operator new\<close>: a block is apart from the other blocks and aligned for every object.\<close>

definition new_ok :: "new_array \<Rightarrow> bool" where
  "new_ok new \<longleftrightarrow> (\<forall>blocks n. (\<forall>b \<in> set blocks. apart (new blocks n, n) b) \<and> new blocks n mod 8 = 0)"

text \<open>A client allocates in any order; the regions it got are collected.\<close>

datatype request = Plain u64 | Aligned u64

fun serve :: "new_array \<Rightarrow> request \<Rightarrow> Arena \<Rightarrow> nat \<times> Arena" where
  "serve new (Plain n) a = Arena_Allocate new n a"
| "serve new (Aligned n) a = AllocateAligned new n a"

fun request_size :: "request \<Rightarrow> nat" where
  "request_size (Plain n) = unat n"
| "request_size (Aligned n) = unat n"

text \<open>A request of at least one byte, which leaves room for the gap before an aligned region.\<close>

definition request_ok :: "request \<Rightarrow> bool" where
  "request_ok q \<longleftrightarrow> 0 < request_size q \<and> request_size q + 7 < 2 ^ 64"

fun serve_all :: "new_array \<Rightarrow> request list \<Rightarrow> Arena \<Rightarrow> (nat \<times> nat) list \<times> Arena" where
  "serve_all new [] a = ([], a)"
| "serve_all new (q # qs) a =
     (let (p, a1) = serve new q a; (regions, a2) = serve_all new qs a1 in ((p, request_size q) # regions, a2))"

definition free_rest :: "Arena \<Rightarrow> nat \<times> nat" where
  "free_rest a = (ar_alloc_ptr a, unat (ar_remaining a))"

text \<open>The invariant: blocks are apart, regions are apart and inside of blocks, and the free rest of the current block is too.\<close>

definition arena_inv :: "(nat \<times> nat) list \<Rightarrow> Arena \<Rightarrow> bool" where
  "arena_inv regions a \<longleftrightarrow>
     sorted_wrt apart (ar_blocks a) \<and>
     sorted_wrt apart (free_rest a # regions) \<and>
     (\<forall>r \<in> set regions. \<exists>b \<in> set (ar_blocks a). inside r b) \<and>
     (ar_alloc_ptr a = 0 \<and> ar_remaining a = 0 \<or> (\<exists>b \<in> set (ar_blocks a). inside (free_rest a) b)) \<and>
     ar_memory_usage a = of_nat (\<Sum>b\<leftarrow>ar_blocks a. snd b + 8)"

lemma apart_sym: "apart r q \<longleftrightarrow> apart q r"
  by (auto simp: apart_def)

lemma apart_inside: "apart q b \<Longrightarrow> inside r b \<Longrightarrow> apart q r"
  by (auto simp: apart_def inside_def)

lemma inside_apart: "apart b q \<Longrightarrow> inside r b \<Longrightarrow> apart r q"
  by (auto simp: apart_def inside_def)

lemma inside_trans: "inside r q \<Longrightarrow> inside q b \<Longrightarrow> inside r b"
  by (auto simp: inside_def)

lemma arena_inv_init: "arena_inv [] Arena_init"
  by (simp add: arena_inv_def Arena_init_def)

text \<open>A region cut out of the free rest of the current block.\<close>

lemma carve:
  assumes "arena_inv regions a" "d + n \<le> unat (ar_remaining a)" "0 < n" "unat m = d + n"
  shows "arena_inv ((ar_alloc_ptr a + d, n) # regions) (a\<lparr>ar_alloc_ptr := ar_alloc_ptr a + unat m, ar_remaining := ar_remaining a - m\<rparr>)"
proof -
  let ?f = "free_rest a" and ?a = "a\<lparr>ar_alloc_ptr := ar_alloc_ptr a + unat m, ar_remaining := ar_remaining a - m\<rparr>"
    and ?r = "(ar_alloc_ptr a + d, n)"
  have "m \<le> ar_remaining a" using assms(2,4) by (simp add: word_le_nat_alt)
  then have g: "free_rest ?a = (ar_alloc_ptr a + (d + n), unat (ar_remaining a) - (d + n))"
    using assms(4) by (simp add: free_rest_def unat_sub)
  have in_f: "inside ?r ?f" "inside (free_rest ?a) ?f" and gr: "apart (free_rest ?a) ?r"
    using assms(2) unfolding g by (auto simp: inside_def apart_def free_rest_def)
  have "\<forall>r \<in> set regions. apart ?f r" "sorted_wrt apart regions" using assms(1) by (auto simp: arena_inv_def)
  moreover have "\<forall>r \<in> set regions. apart (free_rest ?a) r" "\<forall>r \<in> set regions. apart ?r r"
    using calculation(1) in_f inside_apart by blast+
  ultimately have "sorted_wrt apart (free_rest ?a # ?r # regions)" using gr by simp
  moreover obtain b where "b \<in> set (ar_blocks a)" "inside ?f b" using assms by (auto simp: arena_inv_def)
  then have "\<exists>b \<in> set (ar_blocks a). inside ?r b" "\<exists>b \<in> set (ar_blocks a). inside (free_rest ?a) b"
    using in_f inside_trans by blast+
  ultimately show ?thesis using assms(1) by (simp add: arena_inv_def)
qed

lemma new_block:
  assumes "new_ok new" "arena_inv regions a" "AllocateNewBlock new n a = (p, a')"
  shows "sorted_wrt apart (ar_blocks a')" "(p, unat n) \<in> set (ar_blocks a')" "set (ar_blocks a) \<subseteq> set (ar_blocks a')" "p mod 8 = 0"
    "apart (p, unat n) (free_rest a)" "\<forall>r \<in> set regions. apart (p, unat n) r"
    "ar_memory_usage a' = of_nat (\<Sum>b\<leftarrow>ar_blocks a'. snd b + 8)" "free_rest a' = free_rest a"
    "ar_alloc_ptr a' = ar_alloc_ptr a" "ar_remaining a' = ar_remaining a"
proof -
  have a': "p = new (ar_blocks a) (unat n)" "ar_blocks a' = ar_blocks a @ [(p, unat n)]" "ar_alloc_ptr a' = ar_alloc_ptr a"
    "ar_remaining a' = ar_remaining a" "ar_memory_usage a' = ar_memory_usage a + (n + 8)"
    using assms(3) by (auto simp: AllocateNewBlock_def Let_def)
  have new: "\<forall>b \<in> set (ar_blocks a). apart (p, unat n) b" "p mod 8 = 0" using assms(1) by (simp_all add: new_ok_def a'(1))
  show "sorted_wrt apart (ar_blocks a')" "(p, unat n) \<in> set (ar_blocks a')" "set (ar_blocks a) \<subseteq> set (ar_blocks a')" "p mod 8 = 0"
    "ar_memory_usage a' = of_nat (\<Sum>b\<leftarrow>ar_blocks a'. snd b + 8)" "free_rest a' = free_rest a"
    "ar_alloc_ptr a' = ar_alloc_ptr a" "ar_remaining a' = ar_remaining a"
    using assms(2) new apart_sym a' by (auto simp: arena_inv_def sorted_wrt_append free_rest_def)
  show "\<forall>r \<in> set regions. apart (p, unat n) r"
    using assms(2) new(1) apart_inside unfolding arena_inv_def by blast
  have "apart (p, unat n) (0, 0)" by (simp add: apart_def)
  then have "apart (p, unat n) (free_rest a)" if "ar_alloc_ptr a = 0 \<and> ar_remaining a = 0" using that by (simp add: free_rest_def)
  then show "apart (p, unat n) (free_rest a)"
    using assms(2) new(1) apart_inside unfolding arena_inv_def by metis
qed

lemma fallback_inv:
  assumes "new_ok new" "arena_inv regions a" "AllocateFallback new n a = (p, a')" "0 < unat n"
  shows "arena_inv ((p, unat n) # regions) a' \<and> p mod 8 = 0"
proof (cases "n > kArenaBlockSize div 4")
  case True
  then have "AllocateNewBlock new n a = (p, a')" using assms(3) by (simp add: AllocateFallback_def)
  note N = new_block [OF assms(1,2) this]
  have "inside (p, unat n) (p, unat n)" by (simp add: inside_def)
  moreover have "sorted_wrt apart (free_rest a # (p, unat n) # regions)"
    using assms(2) N(5,6) apart_sym by (auto simp: arena_inv_def)
  moreover have "\<forall>r \<in> set regions. \<exists>b \<in> set (ar_blocks a'). inside r b"
    "ar_alloc_ptr a = 0 \<and> ar_remaining a = 0 \<or> (\<exists>b \<in> set (ar_blocks a'). inside (free_rest a) b)"
    using assms(2) N(3) unfolding arena_inv_def by blast+
  ultimately show ?thesis using N(1,2,4,7) unfolding arena_inv_def N(8-10) by auto
next
  case False
  obtain q a1 where q: "AllocateNewBlock new kArenaBlockSize a = (q, a1)" by fastforce
  note N = new_block [OF assms(1,2) q]
  let ?a = "a1\<lparr>ar_alloc_ptr := q + unat n, ar_remaining := kArenaBlockSize - n\<rparr>" and ?k = "unat kArenaBlockSize"
  have r: "p = q" "a' = ?a" using False assms(3) q by (auto simp: AllocateFallback_def)
  have n: "n \<le> kArenaBlockSize" using False by (simp add: kArenaBlockSize_def not_less word_le_nat_alt)
  then have k: "unat n \<le> ?k" "unat (kArenaBlockSize - n) = ?k - unat n" by (simp_all add: word_le_nat_alt unat_sub)
  have f: "free_rest ?a = (q + unat n, ?k - unat n)" unfolding free_rest_def using k(2) by simp
  have i: "inside (q, unat n) (q, ?k)" "inside (free_rest ?a) (q, ?k)" "apart (free_rest ?a) (q, unat n)"
    using k(1) unfolding f by (auto simp: inside_def apart_def)
  have "\<forall>r \<in> set regions. apart (q, unat n) r \<and> apart (free_rest ?a) r"
    using N(6) i(1,2) inside_apart by blast
  then have "sorted_wrt apart (free_rest ?a # (q, unat n) # regions)" using assms(2) i(3) by (simp add: arena_inv_def)
  moreover have "\<forall>r \<in> set ((q, unat n) # regions). \<exists>b \<in> set (ar_blocks a1). inside r b"
  proof
    fix r assume "r \<in> set ((q, unat n) # regions)"
    then consider "r = (q, unat n)" | "r \<in> set regions" by auto
    then show "\<exists>b \<in> set (ar_blocks a1). inside r b" using assms(2) N(2,3) i(1) unfolding arena_inv_def by cases blast+
  qed
  moreover have "\<exists>b \<in> set (ar_blocks a1). inside (free_rest ?a) b" using N(2) i(2) by blast
  moreover have "ar_blocks ?a = ar_blocks a1" "ar_memory_usage ?a = ar_memory_usage a1" by simp_all
  ultimately show ?thesis using N(1,4,7) unfolding arena_inv_def r by metis
qed

text \<open>The gap before an aligned region.\<close>

definition slop :: "nat \<Rightarrow> u64" where
  "slop p = (if (of_nat p AND 7 :: u64) = 0 then 0 else 8 - (of_nat p AND 7))"

lemma unat_align_mask: "unat (of_nat p AND 7 :: u64) = p mod 8"
proof -
  have "(of_nat p AND 7 :: u64) = take_bit 3 (of_nat p)" by (simp add: take_bit_eq_mask mask_eq_exp_minus_1)
  then have "unat (of_nat p AND 7 :: u64) = take_bit 3 (unat (of_nat p :: u64))" by (simp add: unsigned_take_bit_eq)
  also have "\<dots> = p mod 8" by (simp add: unat_of_nat take_bit_eq_mod mod_mod_cancel)
  finally show ?thesis .
qed

lemma slop_aligns: "unat (slop p) \<le> 7" "(p + unat (slop p)) mod 8 = 0"
proof -
  let ?m = "of_nat p AND 7 :: u64"
  have m: "unat ?m = p mod 8" by (rule unat_align_mask)
  have "?m \<le> 8" using m by (simp add: word_le_nat_alt)
  then have "unat (8 - ?m) = 8 - p mod 8" using m by (simp add: unat_sub)
  moreover have "?m = 0 \<longleftrightarrow> p mod 8 = 0" using m by (metis unat_eq_zero)
  ultimately have s: "unat (slop p) = (if p mod 8 = 0 then 0 else 8 - p mod 8)" by (simp add: slop_def)
  show "unat (slop p) \<le> 7" unfolding s by (cases "p mod 8") simp_all
  show "(p + unat (slop p)) mod 8 = 0" unfolding s by presburger
qed

lemma AllocateAligned_slop:
  "AllocateAligned new bytes a =
     (if bytes + slop (ar_alloc_ptr a) \<le> ar_remaining a
      then (ar_alloc_ptr a + unat (slop (ar_alloc_ptr a)),
        a\<lparr>ar_alloc_ptr := ar_alloc_ptr a + unat (bytes + slop (ar_alloc_ptr a)),
          ar_remaining := ar_remaining a - (bytes + slop (ar_alloc_ptr a))\<rparr>)
      else AllocateFallback new bytes a)"
  by (simp add: AllocateAligned_def slop_def Let_def)

lemma serve_inv:
  assumes "new_ok new" "arena_inv regions a" "request_ok q" "serve new q a = (p, a')"
  shows "arena_inv ((p, request_size q) # regions) a' \<and> (case q of Aligned _ \<Rightarrow> p mod 8 = 0 | Plain _ \<Rightarrow> True)"
proof (cases q)
  case (Plain n)
  show ?thesis
  proof (cases "n \<le> ar_remaining a")
    case True
    then show ?thesis using carve [OF assms(2), of 0 "unat n" n] assms(3,4) Plain
      by (auto simp: Arena_Allocate_def request_ok_def word_le_nat_alt)
  next
    case False
    then show ?thesis using fallback_inv [OF assms(1,2), of n] assms(3,4) Plain by (simp add: Arena_Allocate_def request_ok_def)
  qed
next
  case (Aligned n)
  let ?s = "slop (ar_alloc_ptr a)"
  note s = slop_aligns [of "ar_alloc_ptr a"]
  have n: "unat (n + ?s) = unat ?s + unat n" using s(1) assms(3) Aligned by (simp add: request_ok_def unat_word_ariths)
  show ?thesis
  proof (cases "n + ?s \<le> ar_remaining a")
    case True
    then have r: "p = ar_alloc_ptr a + unat ?s"
      "a' = a\<lparr>ar_alloc_ptr := ar_alloc_ptr a + unat (n + ?s), ar_remaining := ar_remaining a - (n + ?s)\<rparr>"
      using assms(4) Aligned by (auto simp: AllocateAligned_slop)
    have "unat ?s + unat n \<le> unat (ar_remaining a)" using True unfolding word_le_nat_alt n .
    then show ?thesis using carve [OF assms(2) _ _ n] assms(3) Aligned s(2) unfolding r by (simp add: request_ok_def)
  next
    case False
    then have "AllocateFallback new n a = (p, a')" using assms(4) Aligned by (simp add: AllocateAligned_slop)
    then show ?thesis using fallback_inv [OF assms(1,2)] assms(3) Aligned by (simp add: request_ok_def)
  qed
qed

lemma serve_all_inv:
  assumes "new_ok new" "arena_inv regions a" "\<forall>q \<in> set qs. request_ok q" "serve_all new qs a = (new_regions, a')"
  shows "\<exists>all. arena_inv all a' \<and> set all = set regions \<union> set new_regions \<and> sorted_wrt apart (new_regions @ regions)"
  using assms(2-4)
proof (induction qs arbitrary: regions a new_regions)
  case Nil
  then show ?case by (intro exI [of _ regions]) (auto simp: arena_inv_def)
next
  case (Cons q qs)
  obtain p a1 rs where s: "serve new q a = (p, a1)" "serve_all new qs a1 = (rs, a')" "new_regions = (p, request_size q) # rs"
    using Cons.prems(3) by (auto simp: Let_def split: prod.splits)
  have "arena_inv ((p, request_size q) # regions) a1" using serve_inv [OF assms(1) Cons.prems(1) _ s(1)] Cons.prems(2) by simp
  then obtain all where "arena_inv all a'" "set all = set ((p, request_size q) # regions) \<union> set rs"
    "sorted_wrt apart (rs @ (p, request_size q) # regions)" 
    using Cons.IH [OF _ _ s(2), of "(p, request_size q) # regions"] Cons.prems(2) by (metis list.set_intros(2))
  then show ?case using apart_sym by (intro exI [of _ all]) (auto simp: s(3) sorted_wrt_append)
qed

section \<open>Properties\<close>

text \<open>
  A request within seven bytes of \<^verbatim>\<open>2^64\<close> is not served: when the gap before the next aligned address makes the sum \<^verbatim>\<open>needed\<close>
  wrap around to zero, \<^verbatim>\<open>AllocateAligned\<close> returns the next aligned address without taking any memory.
\<close>

lemma aligned_request_wraps:
  "AllocateAligned new (- slop (ar_alloc_ptr a)) a = (ar_alloc_ptr a + unat (slop (ar_alloc_ptr a)), a)"
  by (simp add: AllocateAligned_slop)

text \<open>C40. Memory of an arena is never handed out twice: for every sequence of requests, aligned or not, of at least one and less
  than \<^verbatim>\<open>2^64 - 7\<close> bytes, the regions that were returned do not overlap and each lies inside of a block of the arena; the blocks
  do not overlap, and the memory usage is the sum of their sizes with a pointer each, as a 64-bit value.\<close>

theorem arena_regions_apart:
  assumes "new_ok new" and "\<forall>q \<in> set qs. request_ok q" and "serve_all new qs Arena_init = (regions, a)"
  shows "sorted_wrt apart regions \<and> (\<forall>r \<in> set regions. \<exists>b \<in> set (ar_blocks a). inside r b) \<and>
    sorted_wrt apart (ar_blocks a) \<and> MemoryUsage a = of_nat (\<Sum>b\<leftarrow>ar_blocks a. snd b + 8)"
  using serve_all_inv [OF assms(1) arena_inv_init assms(2,3)] by (auto simp: arena_inv_def MemoryUsage_def)

text \<open>An allocator that puts every block behind the others.\<close>

definition bump_new :: new_array where
  "bump_new blocks n = (let top = fold (\<lambda>b t. max t (fst b + snd b)) blocks 0 in (top div 8 + 1) * 8)"

lemma bump_top: "t \<le> fold (\<lambda>b t. max t (fst b + snd b)) blocks t \<and>
  (\<forall>b \<in> set blocks. fst b + snd b \<le> fold (\<lambda>b t. max t (fst b + snd b)) blocks t)" for t :: nat
proof (induction blocks arbitrary: t)
  case (Cons b blocks)
  from Cons.IH [of "max t (fst b + snd b)"] show ?case by auto
qed simp

lemma bump_new_ok: "new_ok bump_new"
proof -
  have "fst b + snd b \<le> bump_new blocks n" if "b \<in> set blocks" for b blocks n
    using bump_top [of 0 blocks] that by (fastforce simp: bump_new_def Let_def)
  then show ?thesis by (auto simp: new_ok_def apart_def bump_new_def)
qed

theorem arena_regions_apart_witness:
  "fst (serve_all bump_new [Plain 3, Aligned 16, Plain 2000, Aligned 4000, Plain 1] Arena_init) =
     [(8, 3), (16, 16), (32, 2000), (4112, 4000), (2032, 1)] \<and>
   sorted_wrt apart [(8, 3), (16, 16), (32, 2000), (4112, 4000), (2032, 1)]"
proof -
  let ?qs = "[Plain 3, Aligned 16, Plain 2000, Aligned 4000, Plain 1]"
  have e: "fst (serve_all bump_new ?qs Arena_init) = [(8, 3), (16, 16), (32, 2000), (4112, 4000), (2032, 1)]"
    by (simp add: Arena_Allocate_def AllocateAligned_slop slop_def AllocateFallback_def AllocateNewBlock_def Arena_init_def kArenaBlockSize_def
        bump_new_def Let_def)
  obtain regions a where s: "serve_all bump_new ?qs Arena_init = (regions, a)" by fastforce
  from arena_regions_apart [OF bump_new_ok _ s] e s show ?thesis by (simp add: request_ok_def)
qed

end
