(* ===== verification/LDB_Memtable.thy ===== *)
theory LDB_Memtable
  imports LDB_Write_Batch LDB_Skiplist_Spec LDB_Arena
begin

unbundle bit_operations_syntax

text \<open>
  The memory table (\<^verbatim>\<open>db/memtable.cc\<close>, \<^verbatim>\<open>db/memtable.h\<close>): entries in a skip list, whose keys are pointers to the bytes of the
  entries. A key is modelled by the bytes from the pointer on, which do not change after \<^verbatim>\<open>Add\<close>. The comparator of user keys
  and the placement of memory blocks are arguments.
\<close>

section \<open>Entries\<close>

text \<open>Entries are not corrupted, so the length can be decoded; otherwise the slice would start at a null pointer.\<close>

definition GetLengthPrefixedSlice_at :: "byte list \<Rightarrow> byte list \<times> byte list" where
  "GetLengthPrefixedSlice_at data =
     (case GetVarint32Ptr (take 5 data) of
        Some (len, rest) \<Rightarrow>
          let p = drop (length (take 5 data) - length rest) data in (take (unat len) p, drop (unat len) p)
      | None \<Rightarrow> ([], []))"

definition KeyComparator :: "(byte list \<Rightarrow> byte list \<Rightarrow> int) \<Rightarrow> byte list \<Rightarrow> byte list \<Rightarrow> int" where
  "KeyComparator user_compare aptr bptr =
     InternalKeyComparator_Compare user_compare (fst (GetLengthPrefixedSlice_at aptr)) (fst (GetLengthPrefixedSlice_at bptr))"

definition EncodeKey :: "byte list \<Rightarrow> byte list" where
  "EncodeKey target = PutVarint32 [] (of_nat (length target)) @ target"

section \<open>The table\<close>

record MemTable =
  mt_refs :: int
  mt_arena :: Arena
  mt_table :: "byte list SkipList"

text \<open>The size of a node with its links: a key pointer and \<open>height\<close> atomic pointers.\<close>

definition node_bytes :: "nat \<Rightarrow> nat" where
  "node_bytes height = 16 + 8 * (height - 1)"

definition MemTable_init :: "new_array \<Rightarrow> MemTable" where
  "MemTable_init new =
     \<lparr>mt_refs = 0, mt_arena = snd (AllocateAligned new (of_nat (node_bytes kMaxHeight)) Arena_init), mt_table = SkipList_init\<rparr>"

definition MemTable_Ref :: "MemTable \<Rightarrow> MemTable" where
  "MemTable_Ref m = m\<lparr>mt_refs := mt_refs m + 1\<rparr>"

text \<open>\<open>None\<close> when the table deletes itself.\<close>

definition MemTable_Unref :: "MemTable \<Rightarrow> MemTable option" where
  "MemTable_Unref m = (let m1 = m\<lparr>mt_refs := mt_refs m - 1\<rparr> in if mt_refs m1 \<le> 0 then None else Some m1)"

definition ApproximateMemoryUsage :: "MemTable \<Rightarrow> u64" where
  "ApproximateMemoryUsage m = MemoryUsage (mt_arena m)"

text \<open>The bytes that \<^verbatim>\<open>Add\<close> writes to the buffer, and the size that it allocates for them.\<close>

definition mem_entry :: "u64 \<Rightarrow> ValueType \<Rightarrow> byte list \<Rightarrow> byte list \<Rightarrow> byte list" where
  "mem_entry s type key val =
     (let internal_key_size = length key + 8 in
      EncodeVarint32 (of_nat internal_key_size) @ key @ EncodeFixed64 (push_bit 8 s OR ValueType_num type) @
      EncodeVarint32 (of_nat (length val)) @ val)"

definition mem_encoded_len :: "byte list \<Rightarrow> byte list \<Rightarrow> nat" where
  "mem_encoded_len key val =
     VarintLength (of_nat (length key + 8)) + (length key + 8) + VarintLength (of_nat (length val)) + length val"

definition MemTable_Add :: "(byte list \<Rightarrow> byte list \<Rightarrow> int) \<Rightarrow> new_array \<Rightarrow> u64 \<Rightarrow> ValueType \<Rightarrow> byte list \<Rightarrow> byte list \<Rightarrow>
    MemTable \<Rightarrow> MemTable option" where
  "MemTable_Add user_compare new s type key val m =
     do {
       let (_, arena1) = Arena_Allocate new (of_nat (mem_encoded_len key val)) (mt_arena m);
       table \<leftarrow> Insert (KeyComparator user_compare) (mem_entry s type key val) (mt_table m);
       let (_, arena2) = AllocateAligned new (of_nat (node_bytes (length (nd_next (last (sl_nodes table)))))) arena1;
       Some (m\<lparr>mt_arena := arena2, mt_table := table\<rparr>)
     }"

text \<open>\<open>val\<close> and \<open>st\<close> are what \<^verbatim>\<open>*value\<close> and \<^verbatim>\<open>*s\<close> hold before the call.\<close>

definition MemTable_Get :: "(byte list \<Rightarrow> byte list \<Rightarrow> int) \<Rightarrow> LookupKey \<Rightarrow> byte list \<Rightarrow> Status \<Rightarrow> MemTable \<Rightarrow>
    (bool \<times> byte list \<times> Status) option" where
  "MemTable_Get user_compare key val st m =
     do {
       iter \<leftarrow> SkipIter_Seek (KeyComparator user_compare) (mt_table m) (LookupKey_memtable_key key);
       if SkipIter_Valid iter then do {
         entry \<leftarrow> SkipIter_key (mt_table m) iter;
         (key_length, rest) \<leftarrow> GetVarint32Ptr (take 5 entry);
         let key_ptr = drop (length (take 5 entry) - length rest) entry;
         if user_compare (take (unat (key_length - 8)) key_ptr) (LookupKey_user_key key) = 0 then
           let tag = DecodeFixed64 (drop (unat key_length - 8) key_ptr) in
           if tag AND 0xFF = ValueType_num kTypeValue
           then Some (True, fst (GetLengthPrefixedSlice_at (drop (unat key_length) key_ptr)), st)
           else if tag AND 0xFF = ValueType_num kTypeDeletion then Some (True, val, Status_init kNotFound [] [])
           else Some (False, val, st)
         else Some (False, val, st)
       }
       else Some (False, val, st)
     }"

section \<open>Iterators\<close>

definition MemIter_Seek :: "(byte list \<Rightarrow> byte list \<Rightarrow> int) \<Rightarrow> MemTable \<Rightarrow> byte list \<Rightarrow> link option" where
  "MemIter_Seek user_compare m k = SkipIter_Seek (KeyComparator user_compare) (mt_table m) (EncodeKey k)"

definition MemIter_SeekToFirst :: "MemTable \<Rightarrow> link option" where
  "MemIter_SeekToFirst m = SkipIter_SeekToFirst (mt_table m)"

definition MemIter_SeekToLast :: "MemTable \<Rightarrow> link option" where
  "MemIter_SeekToLast m = SkipIter_SeekToLast (mt_table m)"

definition MemIter_Next :: "MemTable \<Rightarrow> link \<Rightarrow> link option" where
  "MemIter_Next m iter = SkipIter_Next (mt_table m) iter"

definition MemIter_Prev :: "(byte list \<Rightarrow> byte list \<Rightarrow> int) \<Rightarrow> MemTable \<Rightarrow> link \<Rightarrow> link option" where
  "MemIter_Prev user_compare m iter = SkipIter_Prev (KeyComparator user_compare) (mt_table m) iter"

definition MemIter_key :: "MemTable \<Rightarrow> link \<Rightarrow> byte list option" where
  "MemIter_key m iter = do { k \<leftarrow> SkipIter_key (mt_table m) iter; Some (fst (GetLengthPrefixedSlice_at k)) }"

definition MemIter_value :: "MemTable \<Rightarrow> link \<Rightarrow> byte list option" where
  "MemIter_value m iter =
     do {
       k \<leftarrow> SkipIter_key (mt_table m) iter;
       Some (fst (GetLengthPrefixedSlice_at (snd (GetLengthPrefixedSlice_at k))))
     }"

end
