(* ===== verification/LDB_Memtable_Spec.thy ===== *)
theory LDB_Memtable_Spec
  imports LDB_Memtable
begin

unbundle bit_operations_syntax

text \<open>
  Correctness of the memory table over the bytewise comparator: what its skip list represents, that \<^verbatim>\<open>Get\<close> returns the newest
  entry that a snapshot may see, and the properties of the skip list itself for the order that the table uses.
\<close>

section \<open>The order of the entries\<close>

lemma take5_varint: "take 5 (EncodeVarint32 v @ xs) = EncodeVarint32 v @ take (5 - length (EncodeVarint32 v)) xs"
  using length_EncodeVarint32_le [of v] by simp

lemma slice_at [simp]:
  assumes "length x < 2 ^ 32"
  shows "GetLengthPrefixedSlice_at (EncodeVarint32 (of_nat (length x)) @ x @ rest) = (x, rest)"
proof -
  have "unat (of_nat (length x) :: u32) = length x" using assms by (simp add: unat_of_nat)
  then show ?thesis
    unfolding GetLengthPrefixedSlice_at_def take5_varint GetVarint32Ptr_Encode by (simp add: Let_def)
qed

interpretation mem_keys: key_order "\<lambda>_. True" "KeyComparator Slice_compare"
proof (unfold_locales, goal_cases)
  case (1 a b)
  show ?case unfolding KeyComparator_def by (rule bytewise.internal_flip; rule TrueI)
next
  case (2 a b c)
  then show ?case unfolding KeyComparator_def using bytewise.internal_trans [OF TrueI TrueI TrueI] by blast
qed

text \<open>An entry: sequence number, type, user key and value.\<close>

type_synonym entry = "u64 \<times> ValueType \<times> byte list \<times> byte list"

abbreviation me_seq :: "entry \<Rightarrow> u64" where "me_seq e \<equiv> fst e"
abbreviation me_type :: "entry \<Rightarrow> ValueType" where "me_type e \<equiv> fst (snd e)"
abbreviation me_key :: "entry \<Rightarrow> byte list" where "me_key e \<equiv> fst (snd (snd e))"
abbreviation me_val :: "entry \<Rightarrow> byte list" where "me_val e \<equiv> snd (snd (snd e))"

definition entry_ok :: "entry \<Rightarrow> bool" where
  "entry_ok e \<longleftrightarrow> me_seq e \<le> kMaxSequenceNumber \<and> length (me_key e) + 8 < 2 ^ 32 \<and> length (me_val e) < 2 ^ 32"

definition entry_of :: "entry \<Rightarrow> byte list" where
  "entry_of e = mem_entry (me_seq e) (me_type e) (me_key e) (me_val e)"

definition entry_tag :: "entry \<Rightarrow> u64" where
  "entry_tag e = PackSequenceAndType (me_seq e) (me_type e)"

definition internal_key :: "entry \<Rightarrow> byte list" where
  "internal_key e = me_key e @ EncodeFixed64 (entry_tag e)"

lemma entry_of_parts:
  "entry_of e = EncodeVarint32 (of_nat (length (internal_key e))) @ internal_key e @ EncodeVarint32 (of_nat (length (me_val e))) @ me_val e"
  by (simp add: entry_of_def mem_entry_def internal_key_def entry_tag_def PackSequenceAndType_def)

lemma entry_slice [simp]:
  assumes "entry_ok e"
  shows "GetLengthPrefixedSlice_at (entry_of e) = (internal_key e, EncodeVarint32 (of_nat (length (me_val e))) @ me_val e)"
  using assms unfolding entry_of_parts by (intro slice_at) (simp add: entry_ok_def internal_key_def)

lemma tag_less:
  assumes "entry_ok a" "entry_ok b"
  shows "me_seq a < me_seq b \<Longrightarrow> entry_tag a < entry_tag b"
  using assms unat_PackSequenceAndType [of "me_seq a" "me_type a"] unat_PackSequenceAndType [of "me_seq b" "me_type b"]
    ValueType_num_small [of "me_type a"]
  by (simp add: entry_ok_def entry_tag_def word_less_nat_alt)

lemma entry_compare:
  assumes "entry_ok a" "entry_ok b"
  shows "KeyComparator Slice_compare (entry_of a) (entry_of b) < 0 \<longleftrightarrow>
      Slice_compare (me_key a) (me_key b) < 0 \<or> me_key a = me_key b \<and> entry_tag b < entry_tag a"
    and "KeyComparator Slice_compare (entry_of a) (entry_of b) = 0 \<longleftrightarrow> me_key a = me_key b \<and> entry_tag a = entry_tag b"
  using assms by (auto simp: KeyComparator_def internal_key_def InternalKeyComparator_Compare_def Let_def)

lemma memtable_key_slice [simp]:
  assumes "length u + 8 < 2 ^ 32"
  shows "fst (GetLengthPrefixedSlice_at (LookupKey_memtable_key (LookupKey_init u s))) = u @ EncodeFixed64 (PackSequenceAndType s kValueTypeForSeek)"
  using slice_at [of "u @ EncodeFixed64 (PackSequenceAndType s kValueTypeForSeek)" "[]"] assms
  by (simp add: LookupKey_memtable_key_def LookupKey_init_def Let_def)

lemma lookup_compare:
  assumes "entry_ok e" "length u + 8 < 2 ^ 32" "s \<le> kMaxSequenceNumber"
  shows "KeyComparator Slice_compare (entry_of e) (LookupKey_memtable_key (LookupKey_init u s)) < 0 \<longleftrightarrow>
    Slice_compare (me_key e) u < 0 \<or> me_key e = u \<and> s < me_seq e"
  using assms PackSequenceAndType_le [of s "me_seq e" "me_type e"]
  by (auto simp: KeyComparator_def internal_key_def InternalKeyComparator_Compare_def Let_def entry_ok_def entry_tag_def not_le [symmetric])

section \<open>Contents\<close>

primrec mem_adds :: "(byte list \<Rightarrow> byte list \<Rightarrow> int) \<Rightarrow> new_array \<Rightarrow> entry list \<Rightarrow> MemTable \<Rightarrow> MemTable option" where
  "mem_adds cmp new [] m = Some m"
| "mem_adds cmp new (e # es) m = Option.bind (MemTable_Add cmp new (me_seq e) (me_type e) (me_key e) (me_val e) m) (mem_adds cmp new es)"

definition holds :: "MemTable \<Rightarrow> entry list \<Rightarrow> bool" where
  "holds m es \<longleftrightarrow> (\<exists>ks. mem_keys.represents (mt_table m) ks \<and> set ks = entry_of ` set es)"

lemma holds_init: "holds (MemTable_init new) []"
  unfolding holds_def MemTable_init_def using mem_keys.represents_init by (intro exI [of _ "[]"]) simp

lemma Add_holds:
  assumes "holds m es" "\<forall>e' \<in> set es. entry_ok e' \<and> me_seq e' \<noteq> me_seq e" "entry_ok e"
  shows "\<exists>m'. MemTable_Add Slice_compare new (me_seq e) (me_type e) (me_key e) (me_val e) m = Some m' \<and> holds m' (es @ [e])"
proof -
  obtain ks where ks: "mem_keys.represents (mt_table m) ks" "set ks = entry_of ` set es" using assms(1) by (auto simp: holds_def)
  have ne: "entry_tag e' \<noteq> entry_tag e" if "e' \<in> set es" for e'
    using tag_less [of e' e] tag_less [of e e'] assms(2,3) that by (cases "me_seq e'" "me_seq e" rule: linorder_cases) auto
  have "\<forall>k \<in> set ks. KeyComparator Slice_compare k (entry_of e) \<noteq> 0"
    using ks(2) entry_compare(2) [OF _ assms(3)] assms(2) ne by auto
  from mem_keys.represents_insert [OF ks(1) _ this] obtain table where
    table: "Insert (KeyComparator Slice_compare) (entry_of e) (mt_table m) = Some table"
    "mem_keys.represents table (takeWhile (\<lambda>k. KeyComparator Slice_compare k (entry_of e) < 0) ks @ entry_of e #
      dropWhile (\<lambda>k. KeyComparator Slice_compare k (entry_of e) < 0) ks)" by blast
  have "set (takeWhile P ks @ x # dropWhile P ks) = insert x (set ks)" for P x
    using set_append [of "takeWhile P ks" "dropWhile P ks"] by auto
  then have "set (takeWhile (\<lambda>k. KeyComparator Slice_compare k (entry_of e) < 0) ks @ entry_of e #
      dropWhile (\<lambda>k. KeyComparator Slice_compare k (entry_of e) < 0) ks) = entry_of ` set (es @ [e])" using ks(2) by simp
  with table show ?thesis
    by (auto simp: MemTable_Add_def holds_def entry_of_def [symmetric] split: prod.splits)
qed

lemma mem_adds_holds:
  assumes "holds m es0" "\<forall>e \<in> set (es0 @ es). entry_ok e" "distinct (map me_seq (es0 @ es))"
  shows "\<exists>m'. mem_adds Slice_compare new es m = Some m' \<and> holds m' (es0 @ es)"
  using assms
proof (induction es arbitrary: m es0)
  case (Cons e es)
  have "\<forall>e' \<in> set es0. entry_ok e' \<and> me_seq e' \<noteq> me_seq e" "entry_ok e" using Cons.prems(2,3) by (auto simp: image_iff)
  from Add_holds [OF Cons.prems(1) this] obtain m1 where m1:
    "MemTable_Add Slice_compare new (me_seq e) (me_type e) (me_key e) (me_val e) m = Some m1" "holds m1 (es0 @ [e])" by blast
  with Cons.IH [OF m1(2)] Cons.prems(2,3) show ?case by simp
qed simp

section \<open>Reading\<close>

definition visible :: "byte list \<Rightarrow> u64 \<Rightarrow> entry \<Rightarrow> bool" where
  "visible u s e \<longleftrightarrow> me_key e = u \<and> me_seq e \<le> s"

text \<open>The newest visible entry, when entries were added with increasing sequence numbers.\<close>

definition newest :: "byte list \<Rightarrow> u64 \<Rightarrow> entry list \<Rightarrow> entry option" where
  "newest u s es = (case filter (visible u s) es of [] \<Rightarrow> None | vs \<Rightarrow> Some (last vs))"

lemma Get_entry:
  assumes "SkipIter_Seek (KeyComparator Slice_compare) (mt_table m) (LookupKey_memtable_key (LookupKey_init u s)) = Some iter"
    and "SkipIter_Valid iter" "SkipIter_key (mt_table m) iter = Some (entry_of e)" "entry_ok e"
  shows "MemTable_Get Slice_compare (LookupKey_init u s) val st m = Some
    (if me_key e = u then case me_type e of kTypeValue \<Rightarrow> (True, me_val e, st) | kTypeDeletion \<Rightarrow> (True, val, Status_init kNotFound [] [])
     else (False, val, st))"
proof -
  let ?n = "length (me_key e) + 8"
  let ?rest = "EncodeVarint32 (of_nat (length (me_val e))) @ me_val e"
  have n: "?n < 2 ^ 32" "length (me_val e) < 2 ^ 32" using assms(4) by (simp_all add: entry_ok_def)
  have small: "unat (of_nat k :: u32) = k" if "k < 2 ^ 32" for k using that by (simp add: unat_of_nat)
  have "of_nat ?n - 8 = (of_nat (length (me_key e)) :: u32)" by simp
  then have u: "unat (of_nat ?n :: u32) = ?n" "unat (of_nat ?n - 8 :: u32) = length (me_key e)"
    using small [of ?n] small [of "length (me_key e)"] n by (simp_all del: of_nat_add)
  have user: "LookupKey_user_key (LookupKey_init u s) = u" by (simp add: LookupKey_user_key_def LookupKey_init_def Let_def)
  have tag: "entry_tag e AND 0xFF = ValueType_num (me_type e)"
    using PackSequenceAndType_fields(2) assms(4) by (simp add: entry_tag_def entry_ok_def)
  define w where "w = (of_nat ?n :: u32)"
  define tail where "tail = me_key e @ EncodeFixed64 (entry_tag e) @ ?rest"
  define r where "r = take (5 - length (EncodeVarint32 w)) tail"
  have E: "entry_of e = EncodeVarint32 w @ tail" by (simp add: entry_of_parts internal_key_def w_def tail_def)
  have p1: "GetVarint32Ptr (take 5 (entry_of e)) = Some (w, r)"
    unfolding E take5_varint r_def [symmetric] by (rule GetVarint32Ptr_Encode)
  have p2: "drop (length (take 5 (entry_of e)) - length r) (entry_of e) = tail"
    unfolding E take5_varint r_def [symmetric] by simp
  have t: "take (unat (w - 8)) tail = me_key e" "DecodeFixed64 (drop (unat w - 8) tail) = entry_tag e" "drop (unat w) tail = ?rest"
    using u by (simp_all add: w_def tail_def del: of_nat_add)
  have v: "fst (GetLengthPrefixedSlice_at ?rest) = me_val e" using slice_at [OF n(2), of "[]"] by simp
  have "MemTable_Get Slice_compare (LookupKey_init u s) val st m =
      (if me_key e = u then
         if entry_tag e AND 0xFF = ValueType_num kTypeValue then Some (True, me_val e, st)
         else if entry_tag e AND 0xFF = ValueType_num kTypeDeletion then Some (True, val, Status_init kNotFound [] [])
         else Some (False, val, st)
       else Some (False, val, st))"
    unfolding MemTable_Get_def assms(1) bind.bind_lunit assms(3) p1 prod.case p2 Let_def t user Slice_compare_eq v
    using assms(2) by simp
  then show ?thesis unfolding tag by (cases "me_type e") simp_all
qed

lemma head_is_least:
  assumes "mem_keys.sorted_keys ks" "dropWhile P ks = k # rest" "k' \<in> set (dropWhile P ks)" "k' \<noteq> k"
  shows "KeyComparator Slice_compare k k' < 0"
proof -
  have "ks = takeWhile P ks @ k # rest" using assms(2) takeWhile_dropWhile_id [of P ks] by simp
  then have "sorted_wrt (\<lambda>a b. KeyComparator Slice_compare a b < 0) (takeWhile P ks @ k # rest)"
    using assms(1) by (simp add: mem_keys.sorted_keys_def)
  then have "\<forall>x \<in> set rest. KeyComparator Slice_compare k x < 0" by (simp add: sorted_wrt_append)
  then show ?thesis using assms(2-4) by auto
qed

lemma after_cut:
  assumes "mem_keys.sorted_keys ks"
  shows "k \<in> set (dropWhile (\<lambda>k. KeyComparator Slice_compare k t < 0) ks) \<longleftrightarrow> k \<in> set ks \<and> \<not> KeyComparator Slice_compare k t < 0"
proof -
  let ?c = "mem_keys.below t ks"
  have iff: "KeyComparator Slice_compare (ks ! i) t < 0 \<longleftrightarrow> i < ?c" if "i < length ks" for i
    using mem_keys.below_iff [OF assms TrueI that] .
  show ?thesis
    unfolding mem_keys.drop_below [symmetric]
  proof
    assume "k \<in> set (drop ?c ks)"
    then obtain j where "j < length (drop ?c ks)" "drop ?c ks ! j = k" unfolding in_set_conv_nth by blast
    then show "k \<in> set ks \<and> \<not> KeyComparator Slice_compare k t < 0" using iff [of "?c + j"] by auto
  next
    assume k: "k \<in> set ks \<and> \<not> KeyComparator Slice_compare k t < 0"
    then obtain i where i: "i < length ks" "ks ! i = k" by (auto simp: in_set_conv_nth)
    with k iff [of i] have "?c \<le> i" by simp
    then show "k \<in> set (drop ?c ks)" using i by (auto simp: in_set_conv_nth intro!: exI [of _ "i - ?c"])
  qed
qed

text \<open>What \<^verbatim>\<open>Get\<close> returns for the newest visible entry.\<close>

definition get_result :: "byte list \<Rightarrow> Status \<Rightarrow> entry option \<Rightarrow> bool \<times> byte list \<times> Status" where
  "get_result val st r =
     (case r of
        None \<Rightarrow> (False, val, st)
      | Some e \<Rightarrow> (case me_type e of kTypeValue \<Rightarrow> (True, me_val e, st) | kTypeDeletion \<Rightarrow> (True, val, Status_init kNotFound [] [])))"

lemma newest_last:
  assumes "sorted_wrt (<) (map me_seq es)" "e \<in> set es" "visible u s e" "\<forall>e' \<in> set es. visible u s e' \<longrightarrow> me_seq e' \<le> me_seq e"
  shows "newest u s es = Some e"
proof -
  let ?vs = "filter (visible u s) es"
  have e: "e \<in> set ?vs" using assms(2,3) by simp
  then have ne: "?vs \<noteq> []" by (metis list.distinct(1) list.set_cases)
  have s: "sorted_wrt (\<lambda>a b. me_seq a < me_seq b) ?vs" using sorted_wrt_filter assms(1) by (simp add: sorted_wrt_map)
  have "last ?vs = e"
  proof (rule ccontr)
    assume ne': "last ?vs \<noteq> e"
    have vs: "?vs = butlast ?vs @ [last ?vs]" using ne by simp
    then have "e \<in> set (butlast ?vs)" using e ne' by (metis (no_types, lifting) Un_iff empty_iff empty_set set_ConsD set_append)
    then have "me_seq e < me_seq (last ?vs)" using s vs by (metis (no_types, lifting) list.set_intros(1) sorted_wrt_append)
    moreover have "me_seq (last ?vs) \<le> me_seq e" using assms(4) last_in_set [OF ne] by auto
    ultimately show False by simp
  qed
  with ne show ?thesis by (auto simp: newest_def split: list.splits)
qed

lemma holds_get:
  assumes "holds m es" "sorted_wrt (<) (map me_seq es)" "\<forall>e \<in> set es. entry_ok e" "length u + 8 < 2 ^ 32" "s \<le> kMaxSequenceNumber"
  shows "MemTable_Get Slice_compare (LookupKey_init u s) val st m = Some (get_result val st (newest u s es))"
proof -
  let ?t = "LookupKey_memtable_key (LookupKey_init u s)"
  obtain ks where ks: "mem_keys.represents (mt_table m) ks" "set ks = entry_of ` set es" using assms(1) by (auto simp: holds_def)
  let ?d = "dropWhile (\<lambda>k. KeyComparator Slice_compare k ?t < 0) ks"
  have sorted: "mem_keys.sorted_keys ks" by (rule mem_keys.represents_sorted [OF ks(1)])
  obtain iter where iter: "SkipIter_Seek (KeyComparator Slice_compare) (mt_table m) ?t = Some iter"
    "SkipIter_Valid iter \<longleftrightarrow> ?d \<noteq> []" "?d \<noteq> [] \<longrightarrow> SkipIter_key (mt_table m) iter = Some (hd ?d)"
    using mem_keys.represents_seek [OF ks(1) TrueI, of ?t] by blast
  have in_d: "entry_of e \<in> set ?d \<longleftrightarrow> \<not> (Slice_compare (me_key e) u < 0 \<or> me_key e = u \<and> s < me_seq e)" if "e \<in> set es" for e
    using after_cut [OF sorted, of "entry_of e" ?t] lookup_compare [OF _ assms(4,5), of e] that assms(3) ks(2) by auto
  show ?thesis
  proof (cases ?d)
    case Nil
    have "filter (visible u s) es = []"
    proof (rule ccontr)
      assume "filter (visible u s) es \<noteq> []"
      then obtain e where "e \<in> set es" "visible u s e" by (auto simp: filter_empty_conv)
      then show False using in_d [of e] Nil by (auto simp: visible_def)
    qed
    then show ?thesis using iter Nil by (simp add: MemTable_Get_def newest_def get_result_def)
  next
    case (Cons k rest)
    then have "k \<in> set ks" by (metis list.set_intros(1) set_dropWhileD)
    then obtain e where e: "e \<in> set es" "k = entry_of e" using ks(2) by auto
    then have eok: "entry_ok e" using assms(3) by simp
    have k: "SkipIter_Valid iter" "SkipIter_key (mt_table m) iter = Some (entry_of e)" using iter Cons e(2) by simp_all
    note get = Get_entry [OF iter(1) k eok, of val st]
    have e_in: "\<not> (Slice_compare (me_key e) u < 0 \<or> me_key e = u \<and> s < me_seq e)" using in_d [OF e(1)] Cons e(2) by simp
    have least: "entry_of e' = entry_of e \<or> Slice_compare (me_key e) (me_key e') < 0 \<or> me_key e = me_key e' \<and> entry_tag e' < entry_tag e"
      if "e' \<in> set es" "visible u s e'" for e'
    proof -
      have "entry_of e' \<in> set ?d" using in_d [OF that(1)] that(2) by (auto simp: visible_def)
      then show ?thesis using head_is_least [OF sorted Cons] entry_compare(1) [OF eok, of e'] e(2) assms(3) that(1) by auto
    qed
    show ?thesis
    proof (cases "me_key e = u")
      case True
      then have v: "visible u s e" using e_in by (simp add: visible_def)
      have "me_seq e' \<le> me_seq e" if e': "e' \<in> set es" "visible u s e'" for e'
      proof (rule ccontr)
        assume "\<not> me_seq e' \<le> me_seq e"
        then have lt: "entry_tag e < entry_tag e'" using tag_less [OF eok, of e'] assms(3) e'(1) by simp
        then have "entry_of e' \<noteq> entry_of e"
          using entry_compare(2) [OF eok, of e'] entry_compare(2) [OF eok eok] assms(3) e'(1) by auto
        then show False using least [OF e'] lt e'(2) True by (simp add: visible_def)
      qed
      then have "newest u s es = Some e" using newest_last [OF assms(2) e(1) v] by blast
      then show ?thesis unfolding get using True by (simp add: get_result_def)
    next
      case False
      have "filter (visible u s) es = []"
      proof (rule ccontr)
        assume "filter (visible u s) es \<noteq> []"
        then obtain e' where e': "e' \<in> set es" "visible u s e'" by (auto simp: filter_empty_conv)
        have "entry_of e' \<noteq> entry_of e"
        proof
          assume "entry_of e' = entry_of e"
          then have "me_key e' = me_key e" using entry_compare(2) [of e' e] entry_compare(2) [OF eok eok] assms(3) e'(1) eok by auto
          then show False using False e'(2) by (simp add: visible_def)
        qed
        then have "Slice_compare (me_key e) u < 0" using least [OF e'] False e'(2) by (auto simp: visible_def)
        then show False using e_in by simp
      qed
      then show ?thesis unfolding get using False by (simp add: newest_def get_result_def)
    qed
  qed
qed

section \<open>Properties\<close>

text \<open>C6. \<^verbatim>\<open>Get\<close> returns the newest entry that its snapshot may see: after entries were added with increasing sequence numbers,
  in any order of their user keys, a lookup of any user key at any sequence number finds the value or the deletion with the
  largest sequence number that is not above it, and nothing if there is none. All calls return.\<close>

theorem memtable_get:
  assumes "sorted_wrt (<) (map me_seq es)" and "\<forall>e \<in> set es. entry_ok e" and "length u + 8 < 2 ^ 32" and "s \<le> kMaxSequenceNumber"
  shows "\<exists>m. mem_adds Slice_compare new es (MemTable_init new) = Some m \<and>
    MemTable_Get Slice_compare (LookupKey_init u s) val st m = Some (get_result val st (newest u s es))"
proof -
  have "distinct (map me_seq es)" using assms(1) by (simp add: strict_sorted_iff)
  then obtain m where "mem_adds Slice_compare new es (MemTable_init new) = Some m" "holds m es"
    using mem_adds_holds [OF holds_init, of es new new] assms(2) by auto
  then show ?thesis using holds_get [OF _ assms] by blast
qed

theorem memtable_get_witness:
  "\<exists>m. mem_adds Slice_compare bump_new [(1, kTypeValue, [7], [10]), (2, kTypeValue, [3], []), (3, kTypeDeletion, [7], [])] (MemTable_init bump_new) = Some m \<and>
    MemTable_Get Slice_compare (LookupKey_init [7] 2) [] OK m = Some (True, [10], OK)"
  using memtable_get [of "[(1, kTypeValue, [7], [10]), (2, kTypeValue, [3], []), (3, kTypeDeletion, [7], [])]" "[7]" 2 bump_new "[]" OK]
  by (simp add: entry_ok_def kMaxSequenceNumber_def newest_def visible_def get_result_def)

text \<open>Keys inserted into an ordered list.\<close>

definition ord_insert :: "('k \<Rightarrow> 'k \<Rightarrow> int) \<Rightarrow> 'k \<Rightarrow> 'k list \<Rightarrow> 'k list" where
  "ord_insert cmp key ks = takeWhile (\<lambda>k. cmp k key < 0) ks @ key # dropWhile (\<lambda>k. cmp k key < 0) ks"

primrec skip_inserts :: "('k \<Rightarrow> 'k \<Rightarrow> int) \<Rightarrow> 'k list \<Rightarrow> 'k SkipList \<Rightarrow> 'k SkipList option" where
  "skip_inserts cmp [] sl = Some sl"
| "skip_inserts cmp (k # ks) sl = Option.bind (Insert cmp k sl) (skip_inserts cmp ks)"

lemma set_ord_insert: "set (ord_insert cmp key ks) = insert key (set ks)"
  unfolding ord_insert_def using set_append [of "takeWhile (\<lambda>k. cmp k key < 0) ks" "dropWhile (\<lambda>k. cmp k key < 0) ks"] by auto

lemma skip_inserts_represents:
  assumes "mem_keys.represents sl ks0" "sorted_wrt (\<lambda>a b. KeyComparator Slice_compare a b \<noteq> 0) keys"
    "\<forall>k \<in> set ks0. \<forall>k' \<in> set keys. KeyComparator Slice_compare k k' \<noteq> 0"
  shows "\<exists>sl'. skip_inserts (KeyComparator Slice_compare) keys sl = Some sl' \<and>
    mem_keys.represents sl' (fold (ord_insert (KeyComparator Slice_compare)) keys ks0)"
  using assms
proof (induction keys arbitrary: sl ks0)
  case (Cons key keys)
  obtain sl1 where sl1: "Insert (KeyComparator Slice_compare) key sl = Some sl1"
    "mem_keys.represents sl1 (ord_insert (KeyComparator Slice_compare) key ks0)"
    using mem_keys.represents_insert [OF Cons.prems(1) TrueI, of key] Cons.prems(3) by (auto simp: ord_insert_def)
  moreover have "\<forall>k \<in> set (ord_insert (KeyComparator Slice_compare) key ks0). \<forall>k' \<in> set keys. KeyComparator Slice_compare k k' \<noteq> 0"
    using Cons.prems(2,3) by (auto simp: set_ord_insert)
  ultimately show ?case using Cons.IH [OF sl1(2)] Cons.prems(2) by auto
qed auto

text \<open>C5. The skip list is an ordered list: after any keys were inserted, no two of them equal in the order of the memory table,
  walking forwards and backwards gives the keys that insertion into a sorted list gives, \<^verbatim>\<open>Seek\<close> stops at the first key not
  before its target, from which the rest follows, and \<^verbatim>\<open>Contains\<close> tells whether an equal key is there. All calls return,
  and no link is used before it was stored, whatever heights the nodes get.\<close>

theorem skiplist_refines:
  assumes "sorted_wrt (\<lambda>a b. KeyComparator Slice_compare a b \<noteq> 0) keys"
    and "ks = fold (ord_insert (KeyComparator Slice_compare)) keys []"
  shows "\<exists>sl first final node. skip_inserts (KeyComparator Slice_compare) keys SkipList_init = Some sl \<and>
    SkipIter_SeekToFirst sl = Some first \<and> skip_walk (SkipIter_Next sl) sl first = Some ks \<and>
    SkipIter_SeekToLast sl = Some final \<and> skip_walk (SkipIter_Prev (KeyComparator Slice_compare) sl) sl final = Some (rev ks) \<and>
    SkipIter_Seek (KeyComparator Slice_compare) sl t = Some node \<and>
    skip_walk (SkipIter_Next sl) sl node = Some (dropWhile (\<lambda>k. KeyComparator Slice_compare k t < 0) ks) \<and>
    Contains (KeyComparator Slice_compare) t sl = Some (\<exists>k \<in> set ks. KeyComparator Slice_compare k t = 0) \<and>
    sorted_wrt (\<lambda>a b. KeyComparator Slice_compare a b < 0) ks"
proof -
  obtain sl where sl: "skip_inserts (KeyComparator Slice_compare) keys SkipList_init = Some sl" "mem_keys.represents sl ks"
    using skip_inserts_represents [OF mem_keys.represents_init assms(1)] assms(2) by auto
  then show ?thesis
    using mem_keys.represents_iterate [OF sl(2)] mem_keys.represents_seek [OF sl(2) TrueI, of t]
      mem_keys.represents_contains [OF sl(2) TrueI, of t] mem_keys.represents_sorted [OF sl(2)]
    by (auto simp: mem_keys.sorted_keys_def)
qed

theorem skiplist_refines_witness:
  "\<exists>sl first. skip_inserts (KeyComparator Slice_compare) [entry_of (1, kTypeValue, [7], []), entry_of (2, kTypeValue, [3], [])] SkipList_init = Some sl \<and>
    SkipIter_SeekToFirst sl = Some first \<and>
    skip_walk (SkipIter_Next sl) sl first = Some [entry_of (2, kTypeValue, [3], []), entry_of (1, kTypeValue, [7], [])]"
proof -
  have ok: "entry_ok (1, kTypeValue, [7], [])" "entry_ok (2, kTypeValue, [3], [])" by (simp_all add: entry_ok_def kMaxSequenceNumber_def)
  show ?thesis
    using skiplist_refines [of "[entry_of (1, kTypeValue, [7], []), entry_of (2, kTypeValue, [3], [])]", OF _ refl, of "[]"]
      entry_compare [OF ok] by (auto simp: ord_insert_def)
qed

text \<open>C4. Readers need no lock: whatever steps of insertions happen between the loads of a search, the search never uses a link that
  was not stored, and when its last load ends it, it has found what an uninterrupted search would find in the list at that
  moment. At every moment, also in the middle of an insertion, the list is sorted.\<close>

theorem skiplist_readers:
  assumes "skip_reach (KeyComparator Slice_compare) (\<lambda>_. True) (sl, w, R_search t x level)"
  shows "\<exists>next after ks first. find_ge_read (KeyComparator Slice_compare) t x level sl = Some (next, after) \<and>
    (after \<or> level \<noteq> 0 \<or> SkipIter_Seek (KeyComparator Slice_compare) sl t = Some next) \<and>
    SkipIter_SeekToFirst sl = Some first \<and> skip_walk (SkipIter_Next sl) sl first = Some ks \<and>
    sorted_wrt (\<lambda>a b. KeyComparator Slice_compare a b < 0) ks"
proof -
  obtain L where L: "mem_keys.writer_inv sl L w" "mem_keys.reader_inv sl L (R_search t x level)"
    using mem_keys.skip_reach_inv [OF assms] by auto
  have rep: "mem_keys.represents sl (map (K sl) (L 0))" using mem_keys.writer_inv_skip [OF L(1)] by (auto simp: mem_keys.represents_def)
  show ?thesis using mem_keys.reader_steps [OF L] mem_keys.represents_iterate(1) [OF rep] mem_keys.represents_sorted [OF rep]
    by (fastforce simp: mem_keys.sorted_keys_def)
qed

text \<open>A search that starts in the empty list, meets the node of an insertion that began after it, and finds it.\<close>

lemma readers_example:
  "\<exists>sl w. skip_reach (KeyComparator Slice_compare) (\<lambda>_. True) (sl, w, R_search [0] 0 0) \<and> w \<noteq> W_idle"
proof -
  let ?c = "KeyComparator Slice_compare"
  have r1: "skip_reach ?c (\<lambda>_. True) (SkipList_init, W_idle, R_search [0] 0 0)"
    using skip_reach.step [OF skip_reach.start skip_step.seek_start, of "\<lambda>_. True" "[0]" ?c] by (simp add: SkipList_init_def)
  have rep: "mem_keys.represents SkipList_init []" by (rule mem_keys.represents_init)
  then have "Contains ?c [1] SkipList_init = Some False" using mem_keys.represents_contains [of SkipList_init "[]" "[1]"] by simp
  moreover obtain n prev h sl' where "Insert_prepare ?c [1] SkipList_init = Some (n, prev, h, sl')"
    using mem_keys.prepare_inv [OF mem_keys.SkipList_init_inv TrueI, of "[1]"] by auto
  ultimately have "skip_step ?c (\<lambda>_. True) (SkipList_init, W_idle, R_search [0] 0 0) (sl', W_store [1] n prev h 0, R_search [0] 0 0)"
    by (intro skip_step.insert_start) simp_all
  from skip_reach.step [OF r1 this] show ?thesis by blast
qed

theorem skiplist_readers_witness:
  "\<exists>sl w next after. skip_reach (KeyComparator Slice_compare) (\<lambda>_. True) (sl, w, R_search [0] 0 0) \<and> w \<noteq> W_idle \<and>
    find_ge_read (KeyComparator Slice_compare) [0] 0 0 sl = Some (next, after) \<and>
    (after \<or> SkipIter_Seek (KeyComparator Slice_compare) sl [0] = Some next)"
proof -
  obtain sl w where r: "skip_reach (KeyComparator Slice_compare) (\<lambda>_. True) (sl, w, R_search [0] 0 0)" "w \<noteq> W_idle"
    using readers_example by blast
  with skiplist_readers [OF r(1)] show ?thesis by blast
qed

end
