(* ===== verification/Spec2Isabelle.thy ===== *)
theory Spec2Isabelle
  imports PB_Encode_Spec PB_Decode_Frame CCT_Spec FirebaseCore_Spec FBase64 LDB_DBFormat LDB_CRC32C LDB_Cache_Spec LDB_Log_Spec
    LDB_Write_Batch LDB_Version_Edit LDB_Filename LDB_Table_Spec LDB_Memtable_Spec
begin

text \<open>
  \<^bold>\<open>Verification library for the C and C++ code of the document application.\<close>

  \<^bold>\<open>The program.\<close> The application is an iOS program, written in Swift, that edits documents stored in a Firebase
  database. Its C and C++ code comes with its pods under \<^verbatim>\<open>src/PROJECT/Pods\<close>:

  \<^item> nanopb, the protocol buffer runtime, which encodes and decodes the telemetry messages of the Firebase pods
    through tables of field descriptors that a generator made from the message definitions;
  \<^item> the base64 coder of the websocket client that connects to the database server;
  \<^item> LevelDB, the key-value store in which the database pod keeps its local copy of the data: updates are collected in
    batches, logged, and applied to a memory table; sorted tables hold older data, found through an internal key
    order, Bloom filters and a block cache; the manifest, a log of version edits, says which tables are live.

  \<^bold>\<open>Shared ground.\<close> \<open>Prelude\<close> fixes the machine types of the target (LP64, little endian, signed \<^verbatim>\<open>char\<close>) and little-endian
  byte sequences; \<open>Leb128\<close> is the reference encoding of varints that nanopb and LevelDB are both compared with.

  \<^bold>\<open>nanopb.\<close> \<open>C_Memory\<close> is a byte-addressed memory with the heap behind \<^verbatim>\<open>realloc\<close> and \<^verbatim>\<open>free\<close>; where blocks are placed, and
  whether an allocation fails, is a parameter. \<open>PB_Types\<close> and \<open>PB_Common\<close> are \<^verbatim>\<open>pb.h\<close> and the field iterator of
  \<^verbatim>\<open>pb_common.c\<close>. \<open>PB_Istream\<close>, \<open>PB_Defaults\<close> and \<open>PB_Decode\<close> are \<^verbatim>\<open>pb_decode.c\<close>; \<open>PB_Ostream\<close> and \<open>PB_Encode\<close> are
  \<^verbatim>\<open>pb_encode.c\<close>; \<open>PB_Env\<close> stands for the functions of the application that descriptors point to. One definition models
  one function of the source; results are options, where \<open>None\<close> is a call that does not return. Shown:
  \<open>PB_Wire\<close>: writers and readers of the wire format are inverse and agree with the reference encoding; which varints are
  accepted. \<open>PB_Encode_Spec\<close>: \<^verbatim>\<open>pb_encode\<close> refines an abstract encoding function, is total, and the sizes it computes are
  exact. \<open>PB_Read_Safety\<close>, \<open>PB_Decode_Safety\<close>: \<^verbatim>\<open>pb_decode\<close> returns on every input and never reads behind it.
  \<open>PB_Static_Layout\<close>, \<open>PB_Decode_Frame\<close>: for messages of static fields whose members and count slots lie in the struct it
  changes no byte outside the struct, and a default value that does. The nesting
  depth of messages is bounded by an argument; a depth above the nesting of the descriptors, which the predicates
  \<open>decodable\<close> and \<open>plain\<close> compute, is enough, and is shown to be.
  \<open>CCT_Messages\<close> and \<open>FirebaseCore_Messages\<close> hold the generated structs and descriptors, \<open>PB_Layout_Eval\<close> evaluates layouts,
  and \<open>CCT_Spec\<close> and \<open>FirebaseCore_Spec\<close> apply the theorems to every message: the offsets of all fields, defaults equal to
  the generated initializers, and safe decoding.

  \<^bold>\<open>Base64.\<close> \<open>FBase64\<close> is \<^verbatim>\<open>fbase64.c\<close>: encoding is the standard one, decoding inverts it, neither writes outside its target.

  \<^bold>\<open>LevelDB.\<close> Slices and strings are byte lists, integers are words of their width.

  \<^item> \<open>LDB_Coding\<close> (\<^verbatim>\<open>util/coding.cc\<close>): fixed and variable length integers; round trips.
  \<^item> \<open>LDB_Logging\<close> (\<^verbatim>\<open>util/logging.cc\<close>) and \<open>LDB_Filename\<close> (\<^verbatim>\<open>db/filename.cc\<close>): the decimal parser is exact, file names are
    parsed back, \<^verbatim>\<open>CURRENT\<close> is switched in one step, whatever the system calls do and whenever a crash comes.
  \<^item> \<open>LDB_CRC32C\<close> (\<^verbatim>\<open>util/crc32c.cc\<close>): the strided checksum at every alignment is the bitwise CRC-32C.
  \<^item> \<open>LDB_Bloom\<close> (\<^verbatim>\<open>util/hash.cc\<close>, \<^verbatim>\<open>util/bloom.cc\<close>), \<open>LDB_Filter_Block\<close> (\<^verbatim>\<open>table/filter_block.cc\<close>): no false negatives, over the
    contract \<open>filter_policy\<close>; the reader is safe on damaged blocks.
  \<^item> \<open>LDB_DBFormat\<close> (\<^verbatim>\<open>util/comparator.cc\<close>, \<^verbatim>\<open>db/dbformat.cc\<close>): the contract \<open>comparator\<close>, kept by the bytewise and the internal
    order; separators lie between their keys; a lookup key sorts directly before what its snapshot may see.
  \<^item> \<open>LDB_Cache\<close>, \<open>LDB_Cache_Table\<close>, \<open>LDB_Cache_Spec\<close> (\<^verbatim>\<open>util/cache.cc\<close>): the hash table keeps the contract \<open>handle_table\<close>; the
    shard is a state machine whose steps are the operations of any clients in any order, with an invariant of lists,
    reference counts, charges and deleter calls. Every operation returns, and nothing leaks.
  \<^item> \<open>LDB_Env\<close> (\<^verbatim>\<open>util/status.cc\<close>, \<^verbatim>\<open>util/env_posix.cc\<close>): status values and the buffered files over system calls that may be
    short, interrupted or fail, with the contracts \<open>writable_file\<close>, \<open>reliable_file\<close> and \<open>sequential_file\<close>. \<open>LDB_Posix_Env\<close>
    (\<^verbatim>\<open>util/env_posix.cc\<close>, \<^verbatim>\<open>util/env.cc\<close>): the files of a file system, with the history of what each call changed, and the
    functions that write, sync and read a whole file.
  \<^item> \<open>LDB_Log\<close>, \<open>LDB_Log_Spec\<close> (\<^verbatim>\<open>db/log_writer.cc\<close>, \<^verbatim>\<open>db/log_reader.cc\<close>): records are recovered from a log that was cut off
    anywhere; the reader returns on every file.
  \<^item> \<open>LDB_Write_Batch\<close> (\<^verbatim>\<open>db/write_batch.cc\<close>) and \<open>LDB_Version_Edit\<close> (\<^verbatim>\<open>db/version_edit.cc\<close>): batches are lists of updates,
    edits are decoded as they were encoded.
  \<^item> \<open>LDB_Arena\<close> (\<^verbatim>\<open>util/arena.cc\<close>): regions do not overlap. \<open>LDB_Skiplist\<close>, \<open>LDB_Skiplist_Spec\<close> (\<^verbatim>\<open>db/skiplist.h\<close>): insertion as
    single stores to nodes and links, which a reader may observe between any two of them; the skip list refines a sorted
    list. \<open>LDB_Memtable\<close>, \<open>LDB_Memtable_Spec\<close> (\<^verbatim>\<open>db/memtable.cc\<close>): \<^verbatim>\<open>Get\<close> returns the newest entry that a snapshot may see.
  \<^item> \<open>LDB_Block\<close>, \<open>LDB_Block_Spec\<close> (\<^verbatim>\<open>table/block_builder.cc\<close>, \<^verbatim>\<open>table/block.cc\<close>): blocks with shared prefixes are read back in both
    directions, \<^verbatim>\<open>Seek\<close> finds the first entry not before its target, and what damaged lengths do.
  \<^item> \<open>LDB_Table_Format\<close> (\<^verbatim>\<open>table/format.cc\<close>, random access files), \<open>LDB_Table_Builder\<close> (\<^verbatim>\<open>table/table_builder.cc\<close>) and \<open>LDB_Table\<close>
    (\<^verbatim>\<open>table/table.cc\<close>); \<open>LDB_Table_Image\<close> says which bytes the builder writes, over the contract \<open>table_format\<close> of comparator,
    filter policy and file, \<open>LDB_Table_Get\<close> what a lookup in them finds, and \<open>LDB_Table_Spec\<close> instantiates both for the tables
    of a database: what was built is found, through index, filter, checksum and block.

  The last sections of this theory compose batches, log and memory table: updates survive a crash, and reads after it see
  them.

  \<^bold>\<open>Loops.\<close> Loops with a decreasing measure are recursive functions with a termination proof; the loops that could run
  forever (the decoder, the search for extension fields, the doubling and the eviction of the cache, the log reader, the
  searches of the skip list and of the block iterator) are partial functions into options, and are proved to return where
  a theorem depends on it. The only bounds are the nesting depth of nanopb and the rounds of \<open>find_loop\<close>, one more than the
  array of fields has entries, which a search from a valid position does not use up.

  \<^bold>\<open>Assertions.\<close> An \<^verbatim>\<open>assert\<close> of the C++ code is a requirement on the caller, checked in debug builds alone; the model is the
  code without it, and the theorems assume it where it restricts their arguments (positive file numbers, requests of at
  least one byte) or hold without it (keys of a block in any order).

  \<^bold>\<open>Not modelled.\<close> The Swift application and the Objective-C pods, which are not C; of LevelDB the iterators over several
  blocks and tables (\<^verbatim>\<open>table/two_level_iterator.cc\<close>, \<^verbatim>\<open>table/merger.cc\<close>), the database with its versions, compactions and
  threads, and the parts of the environment that only wrap system calls (directories, locks, loggers, threads, time);
  debug strings and names; branches for big-endian machines and other builds. Mutexes are modelled by the atomicity they
  give. The theorems about tables are about readers without a block cache.
\<close>

section \<open>Recovery of the log\<close>

text \<open>A batch as a client builds it, and the replay of log records into a memory table.\<close>

definition client_batch :: "u64 \<times> update list \<Rightarrow> WriteBatch" where
  "client_batch b = Batch_SetSequence (fold apply_update (snd b) WriteBatch_init) (fst b)"

fun replay :: "'m mem_add \<Rightarrow> byte list list \<Rightarrow> 'm \<Rightarrow> Status \<times> 'm" where
  "replay add [] mem = (OK, mem)"
| "replay add (record # rs) mem =
     (case Batch_InsertInto add (Batch_SetContents WriteBatch_init record) mem of
        (s, mem') \<Rightarrow> if Status_ok s then replay add rs mem' else (s, mem'))"

definition batch_ok :: "u64 \<times> update list \<Rightarrow> bool" where
  "batch_ok b \<longleftrightarrow> (\<forall>u \<in> set (snd b). update_ok u) \<and> length (snd b) < 2 ^ 31"

lemma client_batch_contents: "client_batch b = batch_of (fst b) (snd b)"
  by (simp add: client_batch_def batch_init batch_apply_all batch_set_sequence)

lemma replay_batches:
  assumes "\<forall>b \<in> set bs. batch_ok b"
  shows "replay add (map (\<lambda>b. wb_rep (client_batch b)) bs) mem = (OK, fold (\<lambda>b. mem_updates add (fst b) (snd b)) bs mem)"
  using assms
proof (induction bs arbitrary: mem)
  case (Cons b bs)
  have "Batch_SetContents WriteBatch_init (wb_rep (client_batch b)) = batch_of (fst b) (snd b)"
    by (simp add: client_batch_contents Batch_SetContents_def batch_update)
  with Cons show ?case by (simp add: batch_insert_into batch_ok_def Status_ok_def)
qed simp

text \<open>Updates survive a crash. When batches of updates are appended to a log and the log is cut off somewhere behind the
  first \<open>bs1\<close> of them, then reading the log and inserting its records into a memory table applies the updates of all
  batches of \<open>bs1\<close> and of some of the following ones, batch by batch, none of them in part, with the sequence numbers
  they had, and no corruption is reported.\<close>

lemma batches_recovered:
  assumes "add_records Posix_Append Posix_Flush (map (\<lambda>b. wb_rep (client_batch b)) bs1) (Writer_init w0) = (OK, w1)"
    and "add_records Posix_Append Posix_Flush (map (\<lambda>b. wb_rep (client_batch b)) bs2) w1 = (OK, w2)"
    and "pf_buf w0 = []" "os_data (pf_os w0) = []"
    and "os_data f = take m (os_data (pf_os (wr_dest w2)))" "length (os_data (pf_os (wr_dest w1))) \<le> m" "plan_full f"
    and "\<forall>b \<in> set bs1 \<union> set bs2. batch_ok b"
  shows "\<exists>k records r. read_all Posix_Skip Posix_Read (Reader_init f True True 0) = Some (records, r) \<and> rd_reports r = [] \<and>
    replay add records mem = (OK, fold (\<lambda>b. mem_updates add (fst b) (snd b)) (bs1 @ take k bs2) mem)"
proof -
  let ?rep = "map (\<lambda>b. wb_rep (client_batch b))"
  obtain k r where r: "read_all Posix_Skip Posix_Read (Reader_init f True True 0) = Some (?rep bs1 @ take k (?rep bs2), r)"
    "rd_reports r = []"
    using log_reads_back [OF assms(1-7)] by blast
  have "?rep bs1 @ take k (?rep bs2) = ?rep (bs1 @ take k bs2)" by (simp add: take_map)
  moreover have "replay add (?rep (bs1 @ take k bs2)) mem = (OK, fold (\<lambda>b. mem_updates add (fst b) (snd b)) (bs1 @ take k bs2) mem)"
    using assms(8) by (intro replay_batches) (auto dest: in_set_takeD)
  ultimately show ?thesis using r by (intro exI [of _ k] exI [of _ "?rep bs1 @ take k (?rep bs2)"] exI [of _ r]) simp
qed

section \<open>Reading after a crash\<close>

text \<open>The entries that a batch adds to a memory table, and \<^verbatim>\<open>MemTable::Add\<close> on a table that may have failed.\<close>

fun update_entries :: "u64 \<Rightarrow> update list \<Rightarrow> entry list" where
  "update_entries sq [] = []"
| "update_entries sq (Put key val # us) = (sq, kTypeValue, key, val) # update_entries (sq + 1) us"
| "update_entries sq (Delete key # us) = (sq, kTypeDeletion, key, []) # update_entries (sq + 1) us"

definition batches_entries :: "(u64 \<times> update list) list \<Rightarrow> entry list" where
  "batches_entries bs = concat (map (\<lambda>b. update_entries (fst b) (snd b)) bs)"

definition table_add :: "new_array \<Rightarrow> MemTable option mem_add" where
  "table_add new sq t key val m = Option.bind m (MemTable_Add Slice_compare new sq t key val)"

lemma mem_updates_adds: "mem_updates (table_add new) sq us m = Option.bind m (mem_adds Slice_compare new (update_entries sq us))"
  by (induction sq us arbitrary: m rule: update_entries.induct) (auto simp: table_add_def split: Option.bind_splits)

lemma mem_adds_append: "mem_adds cmp new (es @ es') m = Option.bind (mem_adds cmp new es m) (mem_adds cmp new es')"
proof (induction es arbitrary: m)
  case (Cons e es)
  then show ?case by (cases "MemTable_Add cmp new (me_seq e) (me_type e) (me_key e) (me_val e) m") simp_all
qed simp

lemma batches_adds:
  "fold (\<lambda>b. mem_updates (table_add new) (fst b) (snd b)) bs m = Option.bind m (mem_adds Slice_compare new (batches_entries bs))"
proof (induction bs arbitrary: m)
  case Nil
  then show ?case by (cases m) (simp_all add: batches_entries_def)
next
  case (Cons b bs)
  have "batches_entries (b # bs) = update_entries (fst b) (snd b) @ batches_entries bs" by (simp add: batches_entries_def)
  then show ?case using Cons by (cases m) (simp_all add: mem_updates_adds mem_adds_append)
qed

text \<open>C1. A database read after a crash sees what was written before it. When batches of updates are appended to a log and the
  log is cut off somewhere behind the first \<open>bs1\<close> of them, then reading the log and replaying its records fills a memory
  table in which \<^verbatim>\<open>Get\<close> returns, for every user key and snapshot, the newest visible update of all batches of \<open>bs1\<close> and of
  some of the following ones, none of them in part; no corruption is reported.\<close>

theorem recovered_get:
  assumes "add_records Posix_Append Posix_Flush (map (\<lambda>b. wb_rep (client_batch b)) bs1) (Writer_init w0) = (OK, w1)"
    and "add_records Posix_Append Posix_Flush (map (\<lambda>b. wb_rep (client_batch b)) bs2) w1 = (OK, w2)"
    and "pf_buf w0 = []" "os_data (pf_os w0) = []"
    and "os_data f = take m (os_data (pf_os (wr_dest w2)))" "length (os_data (pf_os (wr_dest w1))) \<le> m" "plan_full f"
    and "\<forall>b \<in> set bs1 \<union> set bs2. batch_ok b"
    and "sorted_wrt (<) (map me_seq (batches_entries (bs1 @ bs2)))" "\<forall>e \<in> set (batches_entries (bs1 @ bs2)). entry_ok e"
    and "length u + 8 < 2 ^ 32" "s \<le> kMaxSequenceNumber"
  shows "\<exists>k records r table. read_all Posix_Skip Posix_Read (Reader_init f True True 0) = Some (records, r) \<and> rd_reports r = [] \<and>
    replay (table_add new) records (Some (MemTable_init new)) = (OK, Some table) \<and>
    MemTable_Get Slice_compare (LookupKey_init u s) val st table = Some (get_result val st (newest u s (batches_entries (bs1 @ take k bs2))))"
proof -
  obtain k records r where r: "read_all Posix_Skip Posix_Read (Reader_init f True True 0) = Some (records, r)" "rd_reports r = []"
    "replay (table_add new) records (Some (MemTable_init new)) =
      (OK, mem_adds Slice_compare new (batches_entries (bs1 @ take k bs2)) (MemTable_init new))"
    using batches_recovered [OF assms(1-8), of "table_add new" "Some (MemTable_init new)"] unfolding batches_adds bind.bind_lunit by blast
  let ?es = "batches_entries (bs1 @ take k bs2)"
  have "batches_entries (bs1 @ bs2) = ?es @ batches_entries (drop k bs2)"
    by (simp add: batches_entries_def) (metis append_take_drop_id concat_append map_append)
  then have es: "sorted_wrt (<) (map me_seq ?es)" "\<forall>e \<in> set ?es. entry_ok e"
    using assms(9,10) by (simp_all add: sorted_wrt_append)
  then have "distinct (map me_seq ?es)" by (simp add: strict_sorted_iff)
  then obtain table where "mem_adds Slice_compare new ?es (MemTable_init new) = Some table" "holds table ?es"
    using mem_adds_holds [OF holds_init, of ?es new new] es(2) by auto
  then show ?thesis using r holds_get [OF _ es assms(11,12)] by auto
qed

text \<open>Two batches in a log that was not cut off.\<close>

theorem recovered_get_witness:
  "\<exists>w1 w2 k records r table.
    add_records Posix_Append Posix_Flush (map (\<lambda>b. wb_rep (client_batch b)) [(1, [Put [1] [2]])])
      (Writer_init \<lparr>pf_buf = [], pf_os = \<lparr>os_data = [], os_plan = [Errno EINTR, Transferred 1], os_name = ''log'',
         os_strerror = \<lambda>_. [], os_before = [], os_gap = 0, os_synced = 0, os_history = []\<rparr>\<rparr>) = (OK, w1) \<and>
    add_records Posix_Append Posix_Flush (map (\<lambda>b. wb_rep (client_batch b)) [(2, [Delete [1]])]) w1 = (OK, w2) \<and>
    read_all Posix_Skip Posix_Read (Reader_init \<lparr>os_data = os_data (pf_os (wr_dest w2)), os_plan = [], os_name = ''log'',
      os_strerror = \<lambda>_. [], os_before = [], os_gap = 0, os_synced = 0, os_history = []\<rparr> True True 0) = Some (records, r) \<and> rd_reports r = [] \<and>
    replay (table_add bump_new) records (Some (MemTable_init bump_new)) = (OK, Some table) \<and>
    MemTable_Get Slice_compare (LookupKey_init [1] 1) [] OK table = Some (True, [2], OK)"
proof -
  let ?rep = "map (\<lambda>b. wb_rep (client_batch b))" and ?bs1 = "[(1, [Put [1] [2]])]" and ?bs2 = "[(2, [Delete [1]])]"
  let ?w = "Writer_init \<lparr>pf_buf = [], pf_os = \<lparr>os_data = [], os_plan = [Errno EINTR, Transferred 1], os_name = ''log'',
      os_strerror = \<lambda>_. [], os_before = [], os_gap = 0, os_synced = 0, os_history = []\<rparr>\<rparr>"
  have "plan_good (pf_os (wr_dest ?w))" by (simp add: plan_good_def Writer_init_def)
  then obtain w1 where w1: "add_records Posix_Append Posix_Flush (?rep ?bs1) ?w = (OK, w1)" "plan_good (pf_os (wr_dest w1))"
    using posix_reliable.add_records_succeeds by blast
  then obtain w2 where w2: "add_records Posix_Append Posix_Flush (?rep ?bs2) w1 = (OK, w2)"
    using posix_reliable.add_records_succeeds by blast
  let ?f = "\<lparr>os_data = os_data (pf_os (wr_dest w2)), os_plan = [], os_name = ''log'', os_strerror = \<lambda>_. [], os_before = [], os_gap = 0, os_synced = 0, os_history = []\<rparr>"
  let ?m = "length (os_data (pf_os (wr_dest w1))) + length (os_data (pf_os (wr_dest w2)))"
  have "\<exists>k records r table. read_all Posix_Skip Posix_Read (Reader_init ?f True True 0) = Some (records, r) \<and> rd_reports r = [] \<and>
      replay (table_add bump_new) records (Some (MemTable_init bump_new)) = (OK, Some table) \<and>
      MemTable_Get Slice_compare (LookupKey_init [1] 1) [] OK table =
        Some (get_result [] OK (newest [1] 1 (batches_entries (?bs1 @ take k ?bs2))))"
    by (rule recovered_get [where m = ?m, OF w1(1) w2])
      (simp_all add: plan_full_def batch_ok_def batches_entries_def entry_ok_def kMaxSequenceNumber_def)
  moreover have "newest [1] 1 (batches_entries (?bs1 @ take k ?bs2)) = Some (1, kTypeValue, [1], [2])" for k
    by (cases k) (simp_all add: batches_entries_def newest_def visible_def word_le_nat_alt)
  ultimately show ?thesis using w1(1) w2 by (auto simp: get_result_def)
qed

end
